(* ===== verification/Prelude.thy ===== *)
theory Prelude
  imports Main "HOL-Library.AList" "HOL-Library.Char_ord" "HOL-Library.List_Lexorder"
    "HOL-Library.Multiset"
begin

text \<open>
  What the component theories share: the JavaScript containers and library calls the sources
  use, with the lemmas that carry the component proofs.
  \<^item> A JavaScript \<open>Map\<close> iterates in insertion order and keeps the position of a key that is
    set again. It is an association list with distinct keys (type \<open>jsmap\<close>), updated by
    \<open>AList.update\<close> and \<open>AList.delete\<close>.
  \<^item> \<open>Array.prototype.sort\<close> is stable. It is \<open>js_sort\<close>, an insertion sort over the
    comparator; the locale \<open>js_comparator\<close> holds what a consistent comparator promises.
  \<^item> \<open>Number.prototype.toString(16)\<close> and \<open>padStart\<close> are \<open>to_hex\<close> and \<open>pad_start\<close>.
  \<^item> A thrown error is the left injection of a sum (type \<open>result\<close>).
\<close>

named_theorems js_simps \<open>unfoldings of the container and library operations\<close>
named_theorems js_wf \<open>closure of the well-formedness predicates of the containers\<close>

subsection \<open>Errors\<close>

datatype js_error = RangeError string | JsError string

type_synonym 'a result = "js_error + 'a"

abbreviation throw :: "js_error \<Rightarrow> 'a result" where
  "throw e \<equiv> Inl e"

abbreviation ok :: "'a \<Rightarrow> 'a result" where
  "ok x \<equiv> Inr x"

lemma bind_result_cases [case_names Throw Ok]:
  fixes r :: "'a result"
  obtains e where "r = Inl e" | x where "r = Inr x"
  by (cases r) auto

subsection \<open>JavaScript maps\<close>

type_synonym ('k, 'v) jsmap = "('k \<times> 'v) list"

definition jsm_get :: "('k, 'v) jsmap \<Rightarrow> 'k \<Rightarrow> 'v option" where
  "jsm_get m k = map_of m k"

definition jsm_set :: "'k \<Rightarrow> 'v \<Rightarrow> ('k, 'v) jsmap \<Rightarrow> ('k, 'v) jsmap" where
  "jsm_set k v m = AList.update k v m"

definition jsm_delete :: "'k \<Rightarrow> ('k, 'v) jsmap \<Rightarrow> ('k, 'v) jsmap" where
  "jsm_delete k m = AList.delete k m"

definition jsm_has :: "('k, 'v) jsmap \<Rightarrow> 'k \<Rightarrow> bool" where
  "jsm_has m k \<longleftrightarrow> map_of m k \<noteq> None"

definition jsm_keys :: "('k, 'v) jsmap \<Rightarrow> 'k list" where
  "jsm_keys m = map fst m"

definition jsm_values :: "('k, 'v) jsmap \<Rightarrow> 'v list" where
  "jsm_values m = map snd m"

definition jsm_wf :: "('k, 'v) jsmap \<Rightarrow> bool" where
  "jsm_wf m \<longleftrightarrow> distinct (map fst m)"

lemma jsm_get_empty [simp]: "jsm_get [] k = None"
  by (simp add: jsm_get_def)

lemma jsm_get_set: "jsm_get (jsm_set k v m) k' = (if k' = k then Some v else jsm_get m k')"
  by (simp add: jsm_get_def jsm_set_def update_conv')

lemma jsm_get_set_same [simp]: "jsm_get (jsm_set k v m) k = Some v"
  by (simp add: jsm_get_set)

lemma jsm_get_set_other [simp]: "k' \<noteq> k \<Longrightarrow> jsm_get (jsm_set k v m) k' = jsm_get m k'"
  by (simp add: jsm_get_set)

lemma jsm_get_delete: "jsm_get (jsm_delete k m) k' = (if k' = k then None else jsm_get m k')"
  by (simp add: jsm_get_def jsm_delete_def delete_conv')

lemma jsm_has_iff: "jsm_has m k \<longleftrightarrow> (\<exists>v. jsm_get m k = Some v)"
  by (auto simp add: jsm_has_def jsm_get_def)

lemma jsm_set_set [simp]: "jsm_set k v (jsm_set k v' m) = jsm_set k v m"
  by (simp add: jsm_set_def)

lemma jsm_set_same [simp]: "jsm_get m k = Some v \<Longrightarrow> jsm_set k v m = m"
  by (simp add: jsm_get_def jsm_set_def update_triv)

lemma jsm_wf_empty [simp, js_wf]: "jsm_wf []"
  by (simp add: jsm_wf_def)

lemma jsm_wf_set [simp, js_wf]: "jsm_wf m \<Longrightarrow> jsm_wf (jsm_set k v m)"
  by (simp add: jsm_wf_def jsm_set_def distinct_update)

lemma jsm_wf_delete [simp, js_wf]: "jsm_wf m \<Longrightarrow> jsm_wf (jsm_delete k m)"
  by (simp add: jsm_wf_def jsm_delete_def distinct_delete)

lemma jsm_in_set_iff: "jsm_wf m \<Longrightarrow> (k, v) \<in> set m \<longleftrightarrow> jsm_get m k = Some v"
  by (simp add: jsm_wf_def jsm_get_def)

lemma jsm_values_iff: "jsm_wf m \<Longrightarrow> v \<in> set (jsm_values m) \<longleftrightarrow> (\<exists>k. jsm_get m k = Some v)"
  by (force simp add: jsm_values_def jsm_in_set_iff [symmetric])

lemma jsm_keys_iff: "k \<in> set (jsm_keys m) \<longleftrightarrow> jsm_has m k"
  by (simp add: jsm_keys_def jsm_has_def map_of_eq_None_iff)

lemma jsm_keys_set:
  "jsm_keys (jsm_set k v m) = (if jsm_has m k then jsm_keys m else jsm_keys m @ [k])"
  by (auto simp add: jsm_keys_def jsm_set_def update_keys jsm_has_def map_of_eq_None_iff)

lemma jsm_get_map_snd:
  "jsm_get (map (\<lambda>(k, v). (k, f k v)) m) k = map_option (f k) (jsm_get m k)"
  by (induction m) (auto simp add: jsm_get_def)

lemma jsm_wf_map_snd [simp]: "jsm_wf (map (\<lambda>(k, v). (k, f k v)) m) = jsm_wf m"
  by (simp add: jsm_wf_def comp_def case_prod_beta)

lemma set_jsm_set: "set (jsm_set k v m) \<subseteq> insert (k, v) (set m)"
  by (induction m) (auto simp add: jsm_set_def)

text \<open>Sums over the values: what setting one key does to an aggregate.\<close>

lemma sum_jsm_set_new:
  fixes f :: "'v \<Rightarrow> int"
  assumes "jsm_get m k = None"
  shows "sum_list (map f (jsm_values (jsm_set k v m))) = sum_list (map f (jsm_values m)) + f v"
  using assms
  by (induction m) (auto simp add: jsm_get_def jsm_set_def jsm_values_def split: if_splits)

lemma sum_jsm_set_old:
  fixes f :: "'v \<Rightarrow> int"
  assumes "jsm_get m k = Some w"
  shows "sum_list (map f (jsm_values (jsm_set k v m)))
    = sum_list (map f (jsm_values m)) + f v - f w"
  using assms
  by (induction m) (auto simp add: jsm_get_def jsm_set_def jsm_values_def split: if_splits)

subsection \<open>Stable sorting by a comparator\<close>

fun js_insert :: "('a \<Rightarrow> 'a \<Rightarrow> int) \<Rightarrow> 'a \<Rightarrow> 'a list \<Rightarrow> 'a list" where
  "js_insert cmp x [] = [x]"
| "js_insert cmp x (y # ys) = (if cmp x y \<le> 0 then x # y # ys else y # js_insert cmp x ys)"

fun js_sort :: "('a \<Rightarrow> 'a \<Rightarrow> int) \<Rightarrow> 'a list \<Rightarrow> 'a list" where
  "js_sort cmp [] = []"
| "js_sort cmp (x # xs) = js_insert cmp x (js_sort cmp xs)"

lemma mset_js_insert [simp]: "mset (js_insert cmp x xs) = add_mset x (mset xs)"
  by (induction xs) auto

lemma mset_js_sort [simp]: "mset (js_sort cmp xs) = mset xs"
  by (induction xs) auto

lemma set_js_sort [simp]: "set (js_sort cmp xs) = set xs"
  by (metis mset_js_sort set_mset_mset)

lemma length_js_sort [simp]: "length (js_sort cmp xs) = length xs"
  by (metis mset_js_sort size_mset)

lemma distinct_map_js_sort [simp]: "distinct (map f (js_sort cmp xs)) = distinct (map f xs)"
  by (metis mset_js_sort mset_map mset_eq_imp_distinct_iff)

text \<open>What a consistent comparator promises; the sort is then ordered.\<close>

locale js_comparator =
  fixes cmp :: "'a \<Rightarrow> 'a \<Rightarrow> int"
  assumes cmp_total: "0 < cmp x y \<Longrightarrow> cmp y x \<le> 0"
    and cmp_trans: "cmp x y \<le> 0 \<Longrightarrow> cmp y z \<le> 0 \<Longrightarrow> cmp x z \<le> 0"
begin

lemma sorted_js_insert:
  "sorted_wrt (\<lambda>a b. cmp a b \<le> 0) xs \<Longrightarrow> sorted_wrt (\<lambda>a b. cmp a b \<le> 0) (js_insert cmp x xs)"
proof (induction xs)
  case Nil
  then show ?case by simp
next
  case (Cons y ys)
  have set_ins: "set (js_insert cmp x ys) = insert x (set ys)"
    by (metis mset_js_insert set_mset_add_mset_insert set_mset_mset)
  show ?case
  proof (cases "cmp x y \<le> 0")
    case True
    with Cons.prems show ?thesis by (auto intro: cmp_trans)
  next
    case False
    then have "cmp y x \<le> 0" by (intro cmp_total) simp
    with Cons False show ?thesis by (simp add: set_ins)
  qed
qed

lemma sorted_js_sort: "sorted_wrt (\<lambda>a b. cmp a b \<le> 0) (js_sort cmp xs)"
  by (induction xs) (simp_all add: sorted_js_insert)

lemma js_sort_sorted_id: "sorted_wrt (\<lambda>a b. cmp a b \<le> 0) xs \<Longrightarrow> js_sort cmp xs = xs"
proof (induction xs)
  case Nil
  then show ?case by simp
next
  case (Cons x xs)
  then show ?case by (cases xs) auto
qed

lemma js_sort_idem: "js_sort cmp (js_sort cmp xs) = js_sort cmp xs"
  by (rule js_sort_sorted_id [OF sorted_js_sort])

end

text \<open>The comparators by an integer key, ascending and descending, are consistent.\<close>

interpretation by_key_asc: js_comparator "\<lambda>a b. (f a :: int) - f b" for f
  by unfold_locales auto

interpretation by_key_desc: js_comparator "\<lambda>a b. (f b :: int) - f a" for f
  by unfold_locales auto

text \<open>
  \<open>a - b || rest\<close>: a first comparison, decided by a second comparator where the first is zero.
\<close>

definition cmp_then :: "('a \<Rightarrow> 'a \<Rightarrow> int) \<Rightarrow> ('a \<Rightarrow> 'a \<Rightarrow> int) \<Rightarrow> 'a \<Rightarrow> 'a \<Rightarrow> int" where
  "cmp_then c1 c2 x y = (if c1 x y \<noteq> 0 then c1 x y else c2 x y)"

lemma js_comparator_then:
  assumes "js_comparator c1" and "js_comparator c2" and sign: "\<And>x y. c1 x y < 0 \<longleftrightarrow> 0 < c1 y x"
  shows "js_comparator (cmp_then c1 c2)"
proof
  have le: "cmp_then c1 c2 x y \<le> 0 \<longleftrightarrow> c1 x y < 0 \<or> c1 x y = 0 \<and> c2 x y \<le> 0" for x y
    by (auto simp add: cmp_then_def)
  show "cmp_then c1 c2 y x \<le> 0" if "0 < cmp_then c1 c2 x y" for x y
    using that sign [of x y] sign [of y x] le [of y x] js_comparator.cmp_total [OF assms(2), of x y]
    by (auto simp add: cmp_then_def split: if_splits)
  show "cmp_then c1 c2 x z \<le> 0" if "cmp_then c1 c2 x y \<le> 0" "cmp_then c1 c2 y z \<le> 0" for x y z
  proof -
    have c: "c1 x y \<le> 0" "c1 y z \<le> 0" using that by (auto simp add: le)
    have xz: "c1 x z \<le> 0" using js_comparator.cmp_trans [OF assms(1) c] .
    have "c1 x y = 0 \<and> c1 y z = 0" if "c1 x z = 0"
    proof -
      have "c1 z x \<le> 0" using that sign [of x z] by linarith
      then have "c1 z y \<le> 0" "c1 y x \<le> 0" using c js_comparator.cmp_trans [OF assms(1)] by blast+
      with c sign [of x y] sign [of y z] show ?thesis by linarith
    qed
    with that xz js_comparator.cmp_trans [OF assms(2), of x y z] show ?thesis by (auto simp add: le)
  qed
qed

lemma js_comparator_map: "js_comparator c \<Longrightarrow> js_comparator (\<lambda>x y. c (f x) (f y))"
  unfolding js_comparator_def by blast

text \<open>\<open>localeCompare\<close> is a parameter of the definitions that call it; code-point order is an instance.\<close>

definition code_point_order :: "string \<Rightarrow> string \<Rightarrow> int" where
  "code_point_order a b = (if a < b then - 1 else if a = b then 0 else 1)"

interpretation code_points: js_comparator code_point_order
  by unfold_locales (auto simp add: code_point_order_def split: if_splits)

lemma find_append: "find P (xs @ ys) = (case find P xs of None \<Rightarrow> find P ys | Some x \<Rightarrow> Some x)"
  by (induction xs) auto

text \<open>\<open>Array.prototype.join\<close>.\<close>

fun js_join :: "string \<Rightarrow> string list \<Rightarrow> string" where
  "js_join sep [] = []"
| "js_join sep [x] = x"
| "js_join sep (x # y # ys) = x @ sep @ js_join sep (y # ys)"

subsection \<open>Hexadecimal rendering\<close>

definition hex_chars :: string where
  "hex_chars = ''0123456789abcdef''"

definition hex_digit :: "nat \<Rightarrow> char" where
  "hex_digit n = hex_chars ! n"

fun to_hex :: "nat \<Rightarrow> string" where
  "to_hex n = (if n < 16 then [hex_digit n] else to_hex (n div 16) @ [hex_digit (n mod 16)])"

declare to_hex.simps [simp del]

definition pad_start :: "nat \<Rightarrow> char \<Rightarrow> string \<Rightarrow> string" where
  "pad_start w c s = replicate (w - length s) c @ s"

definition hex_val :: "char \<Rightarrow> nat option" where
  "hex_val c =
     (let n = of_char c :: nat in
      if 48 \<le> n \<and> n \<le> 57 then Some (n - 48)
      else if 97 \<le> n \<and> n \<le> 102 then Some (n - 87)
      else if 65 \<le> n \<and> n \<le> 70 then Some (n - 55)
      else None)"

definition hex_value :: "string \<Rightarrow> nat" where
  "hex_value s = foldl (\<lambda>a c. 16 * a + the (hex_val c)) 0 s"

lemma hex_val_digit [simp]: "n < 16 \<Longrightarrow> hex_val (hex_digit n) = Some n"
proof -
  assume "n < 16"
  then have "n \<in> set [0..<16]" by simp
  moreover have "list_all (\<lambda>n. hex_val (hex_digit n) = Some n) [0..<16]"
    by code_simp
  ultimately show ?thesis by (simp add: list_all_iff)
qed

lemma hex_value_snoc: "hex_value (s @ [c]) = 16 * hex_value s + the (hex_val c)"
  by (simp add: hex_value_def)

lemma hex_value_to_hex [simp]: "hex_value (to_hex n) = n"
proof (induction n rule: to_hex.induct)
  case (1 n)
  show ?case
  proof (cases "n < 16")
    case True
    then show ?thesis by (simp add: to_hex.simps [of n] hex_value_def)
  next
    case False
    with "1.IH" show ?thesis
      by (simp add: to_hex.simps [of n] hex_value_snoc)
  qed
qed

lemma hex_value_zeros: "hex_value (replicate k CHR ''0'' @ s) = hex_value s"
proof (induction k)
  case 0
  then show ?case by simp
next
  case (Suc k)
  have "hex_val CHR ''0'' = Some 0" by (simp add: hex_val_def)
  with Suc show ?case by (simp add: hex_value_def)
qed

lemma hex_value_pad [simp]: "hex_value (pad_start w CHR ''0'' s) = hex_value s"
  by (simp add: pad_start_def hex_value_zeros)

lemma padded_hex_inj:
  "pad_start w CHR ''0'' (to_hex m) = pad_start w CHR ''0'' (to_hex n) \<longleftrightarrow> m = n"
  by (metis hex_value_pad hex_value_to_hex)

subsection \<open>Decimal rendering of an integer\<close>

fun to_dec_nat :: "nat \<Rightarrow> string" where
  "to_dec_nat n = (if n < 10 then [char_of (48 + n)] else to_dec_nat (n div 10) @ [char_of (48 + n mod 10)])"

declare to_dec_nat.simps [simp del]

definition to_dec :: "int \<Rightarrow> string" where
  "to_dec n = (if n < 0 then ''-'' @ to_dec_nat (nat (- n)) else to_dec_nat (nat n))"

definition arrow :: string where
  \<comment> \<open>the character U+2192, as its UTF-8 bytes\<close>
  "arrow = [char_of (226::nat), char_of (134::nat), char_of (146::nat)]"

subsection \<open>Integers a double holds exactly\<close>

definition max_safe_integer :: int where
  "max_safe_integer = 2 ^ 53 - 1"

definition isSafeInteger :: "int \<Rightarrow> bool" where
  "isSafeInteger n \<longleftrightarrow> - max_safe_integer \<le> n \<and> n \<le> max_safe_integer"

subsection \<open>Prefixes of strings\<close>

definition starts_with :: "string \<Rightarrow> string \<Rightarrow> bool" where
  "starts_with s p \<longleftrightarrow> take (length p) s = p"

definition ends_with :: "string \<Rightarrow> string \<Rightarrow> bool" where
  "ends_with s p \<longleftrightarrow> starts_with (rev s) (rev p)"

end
