(* ===== verification/Accounts.thy ===== *)
theory Accounts
  imports Prelude
begin

text \<open>
  The reference ledger of \<open>packages/virtual-accounts\<close>: \<open>types.ts\<close>, \<open>money.ts\<close> and the class
  \<open>InMemoryAccountStore\<close> of \<open>store.ts\<close>, one definition per method.
  \<^item> The state of the class is the record \<open>store\<close>; a method takes it and returns its result
    with the new state. The injected clock \<open>_now\<close> is the field \<open>st_now\<close>, an arbitrary
    sequence of readings, with the number of readings already taken beside it.
  \<^item> Amounts are integers of micro-units; a transaction of a debit carries a negative amount.
  \<^item> \<open>String.prototype.localeCompare\<close> depends on the host's collation and is an argument of
    the one method that calls it.
  The lemmas show that every method keeps the ledger invariant (\<open>ledger_ok\<close>): the balance of
  an account is the sum of its transactions, every transaction records the balance it left, and
  transaction ids never repeat.
\<close>

subsection \<open>Data\<close>

datatype transaction_type =
    Deposit | Withdrawal | AllocationHold | AllocationRelease
  | SettlementDebit | SettlementCredit | Fee | Waiver

record virtual_account =
  acc_motebit_id :: string
  acc_balance :: int
  acc_currency :: string
  acc_created_at :: int
  acc_updated_at :: int

record account_transaction =
  tx_transaction_id :: string
  tx_motebit_id :: string
  tx_type :: transaction_type
  tx_amount :: int
  tx_balance_after :: int
  tx_reference_id :: "string option"
  tx_description :: "string option"
  tx_created_at :: int

datatype withdrawal_status = Pending | Processing | Completed | Failed | Cancelled

record withdrawal_request =
  w_withdrawal_id :: string
  w_motebit_id :: string
  w_amount :: int
  w_currency :: string
  w_destination :: string
  w_status :: withdrawal_status
  w_payout_reference :: "string option"
  w_requested_at :: int
  w_completed_at :: "int option"
  w_failure_reason :: "string option"
  w_relay_signature :: "string option"
  w_relay_public_key :: "string option"
  w_claimed_at :: "int option"
  w_payout_valid_until :: "int option"

record new_withdrawal =
  nw_withdrawal_id :: string
  nw_motebit_id :: string
  nw_amount :: int
  nw_currency :: string
  nw_destination :: string
  nw_idempotency_key :: "string option"
  nw_requested_at :: int

datatype pending_source = Sweep | User

datatype pending_status = PendPending | PendFiring | PendFired | PendFailed | PendCancelled

record pending_row =
  p_pendingId :: string
  p_motebitId :: string
  p_amountMicro :: int
  p_destination :: string
  p_rail :: string
  p_source :: pending_source
  p_enqueuedAt :: int
  p_status :: pending_status
  p_idempotencyKey :: "string option"

record sweep_config =
  sweep_threshold :: "int option"
  settlement_address :: "string option"

record store =
  st_accounts :: "(string, virtual_account) jsmap"
  st_transactions :: "account_transaction list"
  st_withdrawals :: "(string, withdrawal_request) jsmap"
  st_idempotencyIndex :: "(string, string) jsmap"
  st_pendingWithdrawals :: "(string, pending_row) jsmap"
  st_pendingCounter :: nat
  st_txnCounter :: nat
  st_unwithdrawableHold :: "string \<Rightarrow> int"
  st_unspentGrantHold :: "string \<Rightarrow> int"
  st_sweepConfig :: "string \<Rightarrow> sweep_config"
  st_now :: "nat \<Rightarrow> int"
  st_reads :: nat

subsection \<open>Money\<close>

definition MIN_POSITIVE_MICRO :: int where
  "MIN_POSITIVE_MICRO = 1"

definition isPositiveMicro :: "int \<Rightarrow> bool" where
  "isPositiveMicro micro \<longleftrightarrow> isSafeInteger micro \<and> micro \<ge> MIN_POSITIVE_MICRO"

definition assertPositiveMicro :: "int \<Rightarrow> string \<Rightarrow> unit result" where
  "assertPositiveMicro amount context =
     (if \<not> isPositiveMicro amount
      then throw (RangeError (context @ '': amount must be a positive safe integer of micro-units ''
        @ ''(minimum 1 = 0.000001 USD), got '' @ to_dec amount
        @ ''. Validate at the API boundary with parsePositiveMicro(dollars).''))
      else ok ())"

subsection \<open>The constructor and the private helpers\<close>

definition newInMemoryAccountStore ::
  "(string \<Rightarrow> int) \<Rightarrow> (string \<Rightarrow> int) \<Rightarrow> (string \<Rightarrow> sweep_config) \<Rightarrow> (nat \<Rightarrow> int) \<Rightarrow> store" where
  "newInMemoryAccountStore hold grant sweep now =
     \<lparr> st_accounts = [], st_transactions = [], st_withdrawals = [], st_idempotencyIndex = [],
       st_pendingWithdrawals = [], st_pendingCounter = 0, st_txnCounter = 0,
       st_unwithdrawableHold = hold, st_unspentGrantHold = grant, st_sweepConfig = sweep,
       st_now = now, st_reads = 0 \<rparr>"

definition read_now :: "store \<Rightarrow> int \<times> store" where
  "read_now s = (st_now s (st_reads s), s\<lparr>st_reads := Suc (st_reads s)\<rparr>)"

definition newTxnId :: "store \<Rightarrow> string \<times> store" where
  "newTxnId s =
     (let c = Suc (st_txnCounter s)
      in (''txn-mem-'' @ pad_start 8 CHR ''0'' (to_hex c), s\<lparr>st_txnCounter := c\<rparr>))"

definition newPendingId :: "store \<Rightarrow> string \<times> store" where
  "newPendingId s =
     (let c = Suc (st_pendingCounter s)
      in (''pend-mem-'' @ pad_start 8 CHR ''0'' (to_hex c), s\<lparr>st_pendingCounter := c\<rparr>))"

definition isOpenFrom :: "withdrawal_status \<Rightarrow> bool" where
  "isOpenFrom from \<longleftrightarrow> from = Pending \<or> from = Processing"

definition fresh_account :: "string \<Rightarrow> int \<Rightarrow> virtual_account" where
  "fresh_account motebitId now =
     \<lparr> acc_motebit_id = motebitId, acc_balance = 0, acc_currency = ''USD'',
       acc_created_at = now, acc_updated_at = now \<rparr>"

subsection \<open>Accounts and the transaction ledger\<close>

definition getOrCreateAccount :: "store \<Rightarrow> string \<Rightarrow> virtual_account \<times> store" where
  "getOrCreateAccount s motebitId =
     (case jsm_get (st_accounts s) motebitId of
        Some existing \<Rightarrow> (existing, s)
      | None \<Rightarrow>
          (let (now, s) = read_now s;
               row = fresh_account motebitId now
           in (row, s\<lparr>st_accounts := jsm_set motebitId row (st_accounts s)\<rparr>)))"

definition getAccount :: "store \<Rightarrow> string \<Rightarrow> virtual_account option" where
  "getAccount s motebitId = jsm_get (st_accounts s) motebitId"

definition post :: "store \<Rightarrow> int \<Rightarrow> virtual_account \<Rightarrow> string \<Rightarrow> int \<Rightarrow> transaction_type \<Rightarrow>
    string option \<Rightarrow> string option \<Rightarrow> int \<times> store" where
  \<comment> \<open>the common tail of \<open>credit\<close> and \<open>debit\<close>: move the balance, stamp it, append the row\<close>
  "post s now row motebitId delta type referenceId description =
     (let row = row\<lparr>acc_balance := acc_balance row + delta, acc_updated_at := now\<rparr>;
          (tid, s) = newTxnId s;
          t = \<lparr> tx_transaction_id = tid, tx_motebit_id = motebitId, tx_type = type,
                tx_amount = delta, tx_balance_after = acc_balance row,
                tx_reference_id = referenceId, tx_description = description,
                tx_created_at = now \<rparr>
      in (acc_balance row,
          s\<lparr>st_accounts := jsm_set motebitId row (st_accounts s),
            st_transactions := st_transactions s @ [t]\<rparr>))"

definition credit :: "store \<Rightarrow> string \<Rightarrow> int \<Rightarrow> transaction_type \<Rightarrow> string option \<Rightarrow>
    string option \<Rightarrow> int \<times> store" where
  "credit s motebitId amount type referenceId description =
     (let (now, s) = read_now s;
          row = (case jsm_get (st_accounts s) motebitId of
                   Some row \<Rightarrow> row | None \<Rightarrow> fresh_account motebitId now)
      in post s now row motebitId amount type referenceId description)"

definition debit :: "store \<Rightarrow> string \<Rightarrow> int \<Rightarrow> transaction_type \<Rightarrow> string option \<Rightarrow>
    string option \<Rightarrow> int option \<times> store" where
  "debit s motebitId amount type referenceId description =
     (let (now, s) = read_now s;
          (row, s) = (case jsm_get (st_accounts s) motebitId of
                   Some row \<Rightarrow> (row, s)
                 | None \<Rightarrow>
                     (let row = fresh_account motebitId now
                      in (row, s\<lparr>st_accounts := jsm_set motebitId row (st_accounts s)\<rparr>)))
      in if acc_balance row < amount then (None, s)
         else (let (b, s) = post s now row motebitId (- amount) type referenceId description
               in (Some b, s)))"

definition debitSpendable :: "store \<Rightarrow> string \<Rightarrow> int \<Rightarrow> transaction_type \<Rightarrow> string option \<Rightarrow>
    string option \<Rightarrow> int option \<times> store" where
  "debitSpendable s motebitId amount type referenceId description =
     (let hold = st_unwithdrawableHold s motebitId;
          balance = (case jsm_get (st_accounts s) motebitId of
                       Some row \<Rightarrow> acc_balance row | None \<Rightarrow> 0)
      in if balance - hold < amount then (None, s)
         else debit s motebitId amount type referenceId description)"

definition txn_order :: "(string \<Rightarrow> string \<Rightarrow> int) \<Rightarrow> account_transaction \<Rightarrow> account_transaction \<Rightarrow> int" where
  "txn_order localeCompare a b =
     (if tx_created_at b \<noteq> tx_created_at a then tx_created_at b - tx_created_at a
      else localeCompare (tx_transaction_id b) (tx_transaction_id a))"

definition getTransactions :: "(string \<Rightarrow> string \<Rightarrow> int) \<Rightarrow> store \<Rightarrow> string \<Rightarrow> nat \<Rightarrow> account_transaction list" where
  "getTransactions localeCompare s motebitId limit =
     take limit (js_sort (txn_order localeCompare)
       (filter (\<lambda>t. tx_motebit_id t = motebitId) (st_transactions s)))"

definition hasDepositWithReference :: "store \<Rightarrow> string \<Rightarrow> string \<Rightarrow> bool" where
  "hasDepositWithReference s motebitId referenceId =
     list_ex (\<lambda>t. tx_motebit_id t = motebitId \<and> tx_reference_id t = Some referenceId
                \<and> tx_type t = Deposit) (st_transactions s)"

fun holdNet :: "string \<Rightarrow> int \<Rightarrow> account_transaction list \<Rightarrow> int" where
  "holdNet referenceId net [] = net"
| "holdNet referenceId net (t # ts) =
     (if tx_reference_id t \<noteq> Some referenceId then holdNet referenceId net ts
      else if tx_type t = AllocationHold \<or> tx_type t = AllocationRelease
      then holdNet referenceId (net + tx_amount t) ts
      else holdNet referenceId net ts)"

definition getAllocationHoldRemaining :: "store \<Rightarrow> string \<Rightarrow> int" where
  "getAllocationHoldRemaining s referenceId =
     max 0 (- holdNet referenceId 0 (st_transactions s))"

subsection \<open>The withdrawal lifecycle\<close>

definition idempotencyKeyOf :: "string \<Rightarrow> string \<Rightarrow> string" where
  "idempotencyKeyOf motebitId key = motebitId @ '':'' @ key"

definition insertWithdrawal :: "store \<Rightarrow> new_withdrawal \<Rightarrow> withdrawal_request \<times> store" where
  "insertWithdrawal s w =
     (let record = \<lparr> w_withdrawal_id = nw_withdrawal_id w, w_motebit_id = nw_motebit_id w,
            w_amount = nw_amount w, w_currency = nw_currency w,
            w_destination = nw_destination w, w_status = Pending,
            w_payout_reference = None, w_requested_at = nw_requested_at w,
            w_completed_at = None, w_failure_reason = None, w_relay_signature = None,
            w_relay_public_key = None, w_claimed_at = None, w_payout_valid_until = None \<rparr>;
          s = s\<lparr>st_withdrawals := jsm_set (nw_withdrawal_id w) record (st_withdrawals s)\<rparr>;
          s = (case nw_idempotency_key w of
                 Some key \<Rightarrow> s\<lparr>st_idempotencyIndex :=
                   jsm_set (idempotencyKeyOf (nw_motebit_id w) key) (nw_withdrawal_id w)
                     (st_idempotencyIndex s)\<rparr>
               | None \<Rightarrow> s)
      in (record, s))"

definition put_withdrawal :: "store \<Rightarrow> string \<Rightarrow> withdrawal_request \<Rightarrow> store" where
  \<comment> \<open>assignment to the fields of the row the map holds\<close>
  "put_withdrawal s wid w = s\<lparr>st_withdrawals := jsm_set wid w (st_withdrawals s)\<rparr>"

definition linkWithdrawalTransfer :: "store \<Rightarrow> string \<Rightarrow> string \<Rightarrow> bool \<times> store" where
  "linkWithdrawalTransfer s wid payoutReference =
     (case jsm_get (st_withdrawals s) wid of
        None \<Rightarrow> (False, s)
      | Some w \<Rightarrow>
          if w_status w \<noteq> Pending \<and> w_status w \<noteq> Processing then (False, s)
          else if w_payout_reference w \<noteq> None then (False, s)
          else (True, put_withdrawal s wid (w\<lparr>w_payout_reference := Some payoutReference\<rparr>)))"

definition setWithdrawalSignature :: "store \<Rightarrow> string \<Rightarrow> string \<Rightarrow> string \<Rightarrow> store" where
  "setWithdrawalSignature s wid signature publicKey =
     (case jsm_get (st_withdrawals s) wid of
        None \<Rightarrow> s
      | Some w \<Rightarrow> put_withdrawal s wid
          (w\<lparr>w_relay_signature := Some signature, w_relay_public_key := Some publicKey\<rparr>))"

definition claimWithdrawalForPayout :: "store \<Rightarrow> string \<Rightarrow> int \<Rightarrow> int option \<Rightarrow> bool \<times> store" where
  "claimWithdrawalForPayout s wid claimedAt payoutValidUntil =
     (case jsm_get (st_withdrawals s) wid of
        None \<Rightarrow> (False, s)
      | Some w \<Rightarrow>
          if w_status w \<noteq> Pending then (False, s)
          else (True, put_withdrawal s wid
            (w\<lparr>w_status := Processing, w_claimed_at := Some claimedAt,
               w_payout_valid_until := payoutValidUntil\<rparr>)))"

definition setWithdrawalCompletion ::
  "store \<Rightarrow> string \<Rightarrow> string \<Rightarrow> int \<Rightarrow> withdrawal_status \<Rightarrow> bool \<times> store" where
  "setWithdrawalCompletion s wid payoutReference completedAt from =
     (case jsm_get (st_withdrawals s) wid of
        None \<Rightarrow> (False, s)
      | Some w \<Rightarrow>
          if \<not> isOpenFrom from \<or> w_status w \<noteq> from then (False, s)
          else (True, put_withdrawal s wid
            (w\<lparr>w_status := Completed, w_payout_reference := Some payoutReference,
               w_completed_at := Some completedAt, w_failure_reason := None\<rparr>)))"

definition failWithdrawalAndRefund ::
  "store \<Rightarrow> string \<Rightarrow> string \<Rightarrow> withdrawal_status \<Rightarrow> int option \<Rightarrow> (string \<times> int) option \<times> store" where
  \<comment> \<open>the default of \<open>failedAt\<close> is evaluated on entry, before any check\<close>
  "failWithdrawalAndRefund s wid reason from failedAt =
     (let (failedAt, s) = (case failedAt of Some t \<Rightarrow> (t, s) | None \<Rightarrow> read_now s)
      in case jsm_get (st_withdrawals s) wid of
        None \<Rightarrow> (None, s)
      | Some w \<Rightarrow>
          if \<not> isOpenFrom from \<or> w_status w \<noteq> from then (None, s)
          else
            (let s = put_withdrawal s wid
                   (w\<lparr>w_status := Failed, w_failure_reason := Some reason,
                      w_completed_at := Some failedAt\<rparr>);
                 (b, s) = credit s (w_motebit_id w) (w_amount w) Withdrawal (Some wid)
                   (Some (''Withdrawal failed: '' @ reason))
             in (Some (w_motebit_id w, w_amount w), s)))"

definition noteWithdrawalPayoutUnresolved :: "store \<Rightarrow> string \<Rightarrow> string \<Rightarrow> bool \<times> store" where
  "noteWithdrawalPayoutUnresolved s wid note =
     (case jsm_get (st_withdrawals s) wid of
        None \<Rightarrow> (False, s)
      | Some w \<Rightarrow>
          if w_status w \<noteq> Processing then (False, s)
          else (True, put_withdrawal s wid (w\<lparr>w_failure_reason := Some note\<rparr>)))"

definition getWithdrawalById :: "store \<Rightarrow> string \<Rightarrow> withdrawal_request option" where
  "getWithdrawalById s wid = jsm_get (st_withdrawals s) wid"

definition getWithdrawalByIdempotencyKey :: "store \<Rightarrow> string \<Rightarrow> string \<Rightarrow> withdrawal_request option" where
  "getWithdrawalByIdempotencyKey s motebitId key =
     (case jsm_get (st_idempotencyIndex s) (idempotencyKeyOf motebitId key) of
        None \<Rightarrow> None
      | Some wid \<Rightarrow> if wid = [] then None else getWithdrawalById s wid)"

definition getWithdrawals :: "store \<Rightarrow> string \<Rightarrow> nat \<Rightarrow> withdrawal_request list" where
  "getWithdrawals s motebitId limit =
     take limit (js_sort (\<lambda>a b. w_requested_at b - w_requested_at a)
       (filter (\<lambda>w. w_motebit_id w = motebitId) (jsm_values (st_withdrawals s))))"

definition is_open :: "withdrawal_request \<Rightarrow> bool" where
  "is_open w \<longleftrightarrow> w_status w = Pending \<or> w_status w = Processing"

definition getPendingWithdrawalsAdmin :: "store \<Rightarrow> withdrawal_request list" where
  "getPendingWithdrawalsAdmin s =
     js_sort (\<lambda>a b. w_requested_at a - w_requested_at b)
       (filter is_open (jsm_values (st_withdrawals s)))"

definition getPendingWithdrawalsTotal :: "store \<Rightarrow> string \<Rightarrow> int" where
  "getPendingWithdrawalsTotal s motebitId =
     foldl (\<lambda>sum w. sum + w_amount w) 0
       (filter (\<lambda>w. w_motebit_id w = motebitId \<and> is_open w) (jsm_values (st_withdrawals s)))"

definition getPendingAllocationsTotal :: "store \<Rightarrow> string \<Rightarrow> int" where
  "getPendingAllocationsTotal s motebitId = 0"

definition getSweepConfig :: "store \<Rightarrow> string \<Rightarrow> sweep_config" where
  "getSweepConfig s motebitId = st_sweepConfig s motebitId"

definition getUnwithdrawableHold :: "store \<Rightarrow> string \<Rightarrow> int" where
  "getUnwithdrawableHold s motebitId = st_unwithdrawableHold s motebitId"

definition getUnspentGrantHold :: "store \<Rightarrow> string \<Rightarrow> int" where
  "getUnspentGrantHold s motebitId = st_unspentGrantHold s motebitId"

datatype record_result = Recorded withdrawal_request int | Existing withdrawal_request

definition debitAndRecordWithdrawal ::
  "store \<Rightarrow> new_withdrawal \<Rightarrow> string \<Rightarrow> (record_result option \<times> store) result" where
  "debitAndRecordWithdrawal s w description =
     (case assertPositiveMicro (nw_amount w) ''debitAndRecordWithdrawal'' of
        Inl e \<Rightarrow> throw e
      | Inr _ \<Rightarrow>
          (case (case nw_idempotency_key w of
                   Some key \<Rightarrow> getWithdrawalByIdempotencyKey s (nw_motebit_id w) key
                 | None \<Rightarrow> None) of
             Some existing \<Rightarrow> ok (Some (Existing existing), s)
           | None \<Rightarrow>
               (case debit s (nw_motebit_id w) (nw_amount w) Withdrawal
                       (Some (nw_withdrawal_id w)) (Some description) of
                  (None, s) \<Rightarrow> ok (None, s)
                | (Some newBalance, s) \<Rightarrow>
                    (let (record, s) = insertWithdrawal s w
                     in ok (Some (Recorded record newBalance), s)))))"

record enqueue_args =
  eq_motebitId :: string
  eq_amountMicro :: int
  eq_destination :: string
  eq_rail :: string
  eq_source :: pending_source
  eq_idempotencyKey :: "string option"
  eq_pendingId :: "string option"
  eq_description :: "string option"

definition debitAndEnqueuePending :: "store \<Rightarrow> enqueue_args \<Rightarrow> (string \<times> int) option \<times> store" where
  "debitAndEnqueuePending s args =
     (case (if eq_idempotencyKey args \<noteq> None
            then find (\<lambda>row. p_motebitId row = eq_motebitId args
                         \<and> p_idempotencyKey row = eq_idempotencyKey args)
                   (jsm_values (st_pendingWithdrawals s))
            else None) of
        Some row \<Rightarrow>
          (Some (p_pendingId row,
             (case jsm_get (st_accounts s) (eq_motebitId args) of
                Some r \<Rightarrow> acc_balance r | None \<Rightarrow> 0)), s)
      | None \<Rightarrow>
          (let (pendingId, s) = (case eq_pendingId args of
                 Some p \<Rightarrow> (p, s) | None \<Rightarrow> newPendingId s);
               desc = (case eq_description args of Some d \<Rightarrow> d
                 | None \<Rightarrow> ''Pending withdrawal '' @ pendingId @ '' '' @ arrow @ '' '' @ eq_destination args
                             @ '' via '' @ eq_rail args)
           in case debit s (eq_motebitId args) (eq_amountMicro args) Withdrawal
                     (Some pendingId) (Some desc) of
                (None, s) \<Rightarrow> (None, s)
              | (Some newBalance, s) \<Rightarrow>
                  (let (now, s) = read_now s
                   in (Some (pendingId, newBalance),
                       s\<lparr>st_pendingWithdrawals := jsm_set pendingId
                         \<lparr> p_pendingId = pendingId, p_motebitId = eq_motebitId args,
                           p_amountMicro = eq_amountMicro args,
                           p_destination = eq_destination args, p_rail = eq_rail args,
                           p_source = eq_source args, p_enqueuedAt = now,
                           p_status = PendPending,
                           p_idempotencyKey = eq_idempotencyKey args \<rparr>
                         (st_pendingWithdrawals s)\<rparr>))))"


subsection \<open>The ledger invariant\<close>

definition balance_of :: "store \<Rightarrow> string \<Rightarrow> int" where
  "balance_of s mid = (case jsm_get (st_accounts s) mid of Some r \<Rightarrow> acc_balance r | None \<Rightarrow> 0)"

definition amount_sum :: "string \<Rightarrow> account_transaction list \<Rightarrow> int" where
  "amount_sum mid ts = sum_list (map tx_amount (filter (\<lambda>t. tx_motebit_id t = mid) ts))"

definition running_ok :: "account_transaction list \<Rightarrow> bool" where
  "running_ok ts \<longleftrightarrow>
     (\<forall>i < length ts. tx_balance_after (ts ! i) = amount_sum (tx_motebit_id (ts ! i)) (take (Suc i) ts))"

definition txn_id :: "nat \<Rightarrow> string" where
  "txn_id c = ''txn-mem-'' @ pad_start 8 CHR ''0'' (to_hex c)"

definition ledger_ok :: "store \<Rightarrow> bool" where
  "ledger_ok s \<longleftrightarrow>
     (\<forall>mid. balance_of s mid = amount_sum mid (st_transactions s))
     \<and> running_ok (st_transactions s)
     \<and> map tx_transaction_id (st_transactions s) = map txn_id [1..<Suc (st_txnCounter s)]"

definition store_wf :: "store \<Rightarrow> bool" where
  "store_wf s \<longleftrightarrow> jsm_wf (st_accounts s) \<and> jsm_wf (st_withdrawals s) \<and> jsm_wf (st_pendingWithdrawals s)
     \<and> (\<forall>k r. jsm_get (st_accounts s) k = Some r \<longrightarrow> acc_motebit_id r = k)
     \<and> (\<forall>k w. jsm_get (st_withdrawals s) k = Some w \<longrightarrow> w_withdrawal_id w = k)
     \<and> (\<forall>k p. jsm_get (st_pendingWithdrawals s) k = Some p \<longrightarrow> p_pendingId p = k)"

lemma txn_id_inj: "txn_id c = txn_id d \<longleftrightarrow> c = d"
  by (simp add: txn_id_def padded_hex_inj)

lemma amount_sum_simps [simp]:
  "amount_sum mid [] = 0"
  "amount_sum mid (ts @ [t]) = amount_sum mid ts + (if tx_motebit_id t = mid then tx_amount t else 0)"
  by (simp_all add: amount_sum_def)

lemma running_ok_snoc:
  "running_ok (ts @ [t]) \<longleftrightarrow>
     running_ok ts \<and> tx_balance_after t = amount_sum (tx_motebit_id t) ts + tx_amount t"
  by (auto simp add: running_ok_def nth_append less_Suc_eq all_conj_distrib)

lemma running_ok_Nil [simp]: "running_ok []"
  by (simp add: running_ok_def)

lemma ledger_ok_cong:
  "st_accounts s' = st_accounts s \<Longrightarrow> st_transactions s' = st_transactions s \<Longrightarrow>
   st_txnCounter s' = st_txnCounter s \<Longrightarrow> ledger_ok s' = ledger_ok s"
  by (simp add: ledger_ok_def balance_of_def)

text \<open>The unfoldings shared by the proofs about single methods.\<close>

lemmas store_op_defs =
  read_now_def newTxnId_def newPendingId_def post_def credit_def debit_def debitSpendable_def
  put_withdrawal_def insertWithdrawal_def linkWithdrawalTransfer_def setWithdrawalSignature_def
  claimWithdrawalForPayout_def setWithdrawalCompletion_def failWithdrawalAndRefund_def
  noteWithdrawalPayoutUnresolved_def getOrCreateAccount_def debitAndEnqueuePending_def

lemma ledger_ok_post:
  assumes "ledger_ok s" and "acc_balance row = balance_of s mid"
  shows "ledger_ok (snd (post s now row mid d ty ref desc))"
  using assms
  by (simp add: ledger_ok_def post_def newTxnId_def Let_def balance_of_def jsm_get_set
      running_ok_snoc txn_id_def)

lemma ledger_ok_new_account:
  assumes "ledger_ok s" and "jsm_get (st_accounts s) mid = None"
  shows "ledger_ok (s\<lparr>st_accounts := jsm_set mid (fresh_account mid now) (st_accounts s)\<rparr>)"
proof -
  have "balance_of (s\<lparr>st_accounts := jsm_set mid (fresh_account mid now) (st_accounts s)\<rparr>) = balance_of s"
    using assms(2) by (auto simp add: balance_of_def jsm_get_set fresh_account_def)
  with assms(1) show ?thesis by (simp add: ledger_ok_def)
qed

lemma ledger_ok_read_now [simp]: "ledger_ok (snd (read_now s)) = ledger_ok s"
  by (rule ledger_ok_cong) (simp_all add: read_now_def)

lemma ledger_ok_reads [simp]: "ledger_ok (s\<lparr>st_reads := n\<rparr>) = ledger_ok s"
  by (rule ledger_ok_cong) simp_all

lemma ledger_ok_frame [simp]:
  "ledger_ok (s\<lparr>st_withdrawals := x\<rparr>) = ledger_ok s"
  "ledger_ok (s\<lparr>st_idempotencyIndex := y\<rparr>) = ledger_ok s"
  "ledger_ok (s\<lparr>st_pendingWithdrawals := z\<rparr>) = ledger_ok s"
  "ledger_ok (s\<lparr>st_pendingCounter := c\<rparr>) = ledger_ok s"
  by (rule ledger_ok_cong; simp)+

lemma ledger_ok_getOrCreateAccount: "ledger_ok s \<Longrightarrow> ledger_ok (snd (getOrCreateAccount s mid))"
  using ledger_ok_new_account [of "s\<lparr>st_reads := Suc (st_reads s)\<rparr>" mid]
  by (auto simp add: getOrCreateAccount_def read_now_def Let_def split: option.splits)

lemma ledger_ok_credit: "ledger_ok s \<Longrightarrow> ledger_ok (snd (credit s mid a ty ref desc))"
  unfolding credit_def read_now_def Let_def case_prod_conv
  by (rule ledger_ok_post) (auto simp add: balance_of_def fresh_account_def split: option.splits)

lemma ledger_ok_debit: "ledger_ok s \<Longrightarrow> ledger_ok (snd (debit s mid a ty ref desc))"
proof -
  assume s: "ledger_ok s"
  let ?s1 = "s\<lparr>st_reads := Suc (st_reads s)\<rparr>"
  let ?now = "st_now s (st_reads s)"
  let ?new = "?s1\<lparr>st_accounts := jsm_set mid (fresh_account mid ?now) (st_accounts ?s1)\<rparr>"
  show ?thesis
  proof (cases "jsm_get (st_accounts s) mid")
    case None
    then have new: "ledger_ok ?new" using s by (intro ledger_ok_new_account) simp_all
    have "acc_balance (fresh_account mid ?now) = balance_of ?new mid"
      by (simp add: balance_of_def)
    from ledger_ok_post [OF new this] new None show ?thesis
      by (simp add: debit_def read_now_def Let_def case_prod_beta)
  next
    case (Some row)
    then have "acc_balance row = balance_of ?s1 mid" by (simp add: balance_of_def)
    from ledger_ok_post [OF _ this] s Some show ?thesis
      by (simp add: debit_def read_now_def Let_def case_prod_beta)
  qed
qed

lemma ledger_ok_debitSpendable: "ledger_ok s \<Longrightarrow> ledger_ok (snd (debitSpendable s mid a ty ref desc))"
  by (simp add: debitSpendable_def Let_def ledger_ok_debit)

lemma ledger_ok_insertWithdrawal: "ledger_ok s \<Longrightarrow> ledger_ok (snd (insertWithdrawal s w))"
  by (simp add: insertWithdrawal_def Let_def split: option.splits)

lemma ledger_ok_put_withdrawal [simp]: "ledger_ok (put_withdrawal s wid w) = ledger_ok s"
  by (simp add: put_withdrawal_def)

lemma ledger_ok_lifecycle:
  assumes "ledger_ok s"
  shows "ledger_ok (snd (linkWithdrawalTransfer s wid ref))"
    and "ledger_ok (setWithdrawalSignature s wid sig pk)"
    and "ledger_ok (snd (claimWithdrawalForPayout s wid t u))"
    and "ledger_ok (snd (setWithdrawalCompletion s wid ref t from))"
    and "ledger_ok (snd (noteWithdrawalPayoutUnresolved s wid note))"
  using assms
  by (simp_all add: linkWithdrawalTransfer_def setWithdrawalSignature_def
      claimWithdrawalForPayout_def setWithdrawalCompletion_def noteWithdrawalPayoutUnresolved_def
      split: option.splits)

lemma ledger_ok_failWithdrawalAndRefund:
  "ledger_ok s \<Longrightarrow> ledger_ok (snd (failWithdrawalAndRefund s wid reason from failedAt))"
  by (auto simp add: failWithdrawalAndRefund_def Let_def case_prod_beta ledger_ok_credit
      split: option.splits)

lemma ledger_ok_debitAndRecordWithdrawal:
  assumes "ledger_ok s" and "debitAndRecordWithdrawal s w desc = Inr (r, s')"
  shows "ledger_ok s'"
  using assms(2) ledger_ok_debit [OF assms(1), of "nw_motebit_id w" "nw_amount w" Withdrawal
      "Some (nw_withdrawal_id w)" "Some desc"] assms(1)
  by (auto simp add: debitAndRecordWithdrawal_def Let_def case_prod_beta
      split: sum.splits option.splits prod.splits dest: ledger_ok_insertWithdrawal)

lemma ledger_ok_debitAndEnqueuePending:
  "ledger_ok s \<Longrightarrow> ledger_ok (snd (debitAndEnqueuePending s args))"
proof -
  assume "ledger_ok s"
  then have "ledger_ok (snd (case eq_pendingId args of Some p \<Rightarrow> (p, s) | None \<Rightarrow> newPendingId s))"
    by (simp add: newPendingId_def Let_def split: option.split)
  from ledger_ok_debit [OF this] \<open>ledger_ok s\<close> show ?thesis
    unfolding debitAndEnqueuePending_def
    by (simp add: Let_def case_prod_beta option.case_eq_if)
qed

subsection \<open>Every run of the store\<close>

text \<open>One rule per method that can write.\<close>

inductive store_step :: "store \<Rightarrow> store \<Rightarrow> bool" where
  step_getOrCreateAccount: "store_step s (snd (getOrCreateAccount s mid))"
| step_credit: "store_step s (snd (credit s mid a ty ref desc))"
| step_debit: "store_step s (snd (debit s mid a ty ref desc))"
| step_debitSpendable: "store_step s (snd (debitSpendable s mid a ty ref desc))"
| step_insertWithdrawal: "store_step s (snd (insertWithdrawal s w))"
| step_linkWithdrawalTransfer: "store_step s (snd (linkWithdrawalTransfer s wid ref'))"
| step_setWithdrawalSignature: "store_step s (setWithdrawalSignature s wid sig pk)"
| step_claim: "store_step s (snd (claimWithdrawalForPayout s wid t u))"
| step_completion: "store_step s (snd (setWithdrawalCompletion s wid ref' t from))"
| step_fail: "store_step s (snd (failWithdrawalAndRefund s wid reason from failedAt))"
| step_note: "store_step s (snd (noteWithdrawalPayoutUnresolved s wid note))"
| step_debitAndRecord: "debitAndRecordWithdrawal s w desc' = Inr (r, s') \<Longrightarrow> store_step s s'"
| step_enqueue: "store_step s (snd (debitAndEnqueuePending s args))"

inductive store_run :: "store \<Rightarrow> store \<Rightarrow> bool" where
  run_refl: "store_run s s"
| run_step: "store_run s s' \<Longrightarrow> store_step s' s'' \<Longrightarrow> store_run s s''"

lemma ledger_ok_new: "ledger_ok (newInMemoryAccountStore hold grant sweep now)"
  by (simp add: ledger_ok_def newInMemoryAccountStore_def balance_of_def)

lemma store_step_ledger_ok: "store_step s s' \<Longrightarrow> ledger_ok s \<Longrightarrow> ledger_ok s'"
  by (induction rule: store_step.induct)
    (simp_all add: ledger_ok_getOrCreateAccount ledger_ok_credit ledger_ok_debit
      ledger_ok_debitSpendable ledger_ok_insertWithdrawal ledger_ok_lifecycle
      ledger_ok_failWithdrawalAndRefund ledger_ok_debitAndRecordWithdrawal
      ledger_ok_debitAndEnqueuePending)

lemma store_run_ledger_ok: "store_run s s' \<Longrightarrow> ledger_ok s \<Longrightarrow> ledger_ok s'"
  by (induction rule: store_run.induct) (auto intro: store_step_ledger_ok)

end
