(* ===== verification/Lifecycle.thy ===== *)
theory Lifecycle
  imports Accounts
begin

text \<open>
  Money safety of the ledger of \<open>Accounts\<close>. The lemmas \<open>store_effects\<close> say what the two
  posting methods do to balances and to the ledger rows of a withdrawal; on top of them the step
  relation \<open>custody_step\<close> has one rule per operation the relay performs, with the guards its
  callers keep (a withdrawal id is new, only the lifecycle posts rows of type \<open>Withdrawal\<close>).
  Every reachable state keeps balances non-negative and accounts for each withdrawal exactly:
  its ledger rows sum to minus its amount, or to zero once it failed and was refunded.
\<close>

named_theorems store_effects \<open>what the posting methods do to what the invariants read\<close>

definition withdrawal_net :: "store \<Rightarrow> string \<Rightarrow> int" where
  "withdrawal_net s wid = sum_list (map tx_amount
     (filter (\<lambda>t. tx_type t = Withdrawal \<and> tx_reference_id t = Some wid) (st_transactions s)))"

definition ledger_due :: "withdrawal_request \<Rightarrow> int" where
  "ledger_due w = (if w_status w = Failed then 0 else - w_amount w)"

definition reference_used :: "store \<Rightarrow> string \<Rightarrow> bool" where
  "reference_used s wid \<longleftrightarrow> list_ex (\<lambda>t. tx_reference_id t = Some wid) (st_transactions s)"

definition custody_ok :: "store \<Rightarrow> bool" where
  "custody_ok s \<longleftrightarrow> (\<forall>mid. 0 \<le> balance_of s mid)
     \<and> (\<forall>wid w. jsm_get (st_withdrawals s) wid = Some w \<longrightarrow>
          withdrawal_net s wid = ledger_due w \<and> 0 < w_amount w \<and> w_withdrawal_id w = wid)"

subsection \<open>Effects of the posting methods\<close>

lemma credit_balance [store_effects]:
  "balance_of (snd (credit s mid a ty ref d)) = (balance_of s)(mid := balance_of s mid + a)"
  by (rule ext) (auto simp add: balance_of_def credit_def read_now_def post_def newTxnId_def Let_def
      jsm_get_set fresh_account_def split: option.splits)

lemma credit_withdrawals [store_effects]:
  "st_withdrawals (snd (credit s mid a ty ref d)) = st_withdrawals s"
  by (simp add: credit_def read_now_def post_def newTxnId_def Let_def)

lemma credit_net [store_effects]:
  "withdrawal_net (snd (credit s mid a ty ref d)) wid =
     withdrawal_net s wid + (if ty = Withdrawal \<and> ref = Some wid then a else 0)"
  by (simp add: withdrawal_net_def credit_def read_now_def post_def newTxnId_def Let_def)

lemma debit_fst [store_effects]:
  "fst (debit s mid a ty ref d) = (if balance_of s mid < a then None else Some (balance_of s mid - a))"
  by (simp add: balance_of_def debit_def read_now_def post_def newTxnId_def Let_def
      fresh_account_def split: option.split)

lemma debit_balance [store_effects]:
  "balance_of (snd (debit s mid a ty ref d)) =
     (if balance_of s mid < a then balance_of s else (balance_of s)(mid := balance_of s mid - a))"
  by (rule ext) (simp add: balance_of_def debit_def read_now_def post_def newTxnId_def Let_def
      jsm_get_set fresh_account_def split: option.split)

lemma debit_withdrawals [store_effects]:
  "st_withdrawals (snd (debit s mid a ty ref d)) = st_withdrawals s"
  by (simp add: debit_def read_now_def post_def newTxnId_def Let_def split: option.split)

lemma debit_index [store_effects]:
  "st_idempotencyIndex (snd (debit s mid a ty ref d)) = st_idempotencyIndex s"
  by (simp add: debit_def read_now_def post_def newTxnId_def Let_def split: option.split)

lemma debit_net [store_effects]:
  "withdrawal_net (snd (debit s mid a ty ref d)) wid =
     withdrawal_net s wid
       - (if \<not> balance_of s mid < a \<and> ty = Withdrawal \<and> ref = Some wid then a else 0)"
  by (auto simp add: withdrawal_net_def balance_of_def debit_def read_now_def post_def newTxnId_def
      Let_def fresh_account_def split: option.split)

lemma getOrCreateAccount_effects [store_effects]:
  "balance_of (snd (getOrCreateAccount s mid)) = balance_of s"
  "acc_balance (fst (getOrCreateAccount s mid)) = balance_of s mid"
  "st_withdrawals (snd (getOrCreateAccount s mid)) = st_withdrawals s"
  "st_idempotencyIndex (snd (getOrCreateAccount s mid)) = st_idempotencyIndex s"
  "st_transactions (snd (getOrCreateAccount s mid)) = st_transactions s"
  "withdrawal_net (snd (getOrCreateAccount s mid)) = withdrawal_net s"
  by (auto simp add: fun_eq_iff balance_of_def getOrCreateAccount_def read_now_def Let_def
      jsm_get_set fresh_account_def withdrawal_net_def split: option.splits)

lemma hold_frame [store_effects]:
  "st_unwithdrawableHold (snd (debit s mid a ty ref d)) = st_unwithdrawableHold s"
  "st_unspentGrantHold (snd (debit s mid a ty ref d)) = st_unspentGrantHold s"
  "st_unwithdrawableHold (snd (credit s mid a ty ref d)) = st_unwithdrawableHold s"
  "st_unspentGrantHold (snd (credit s mid a ty ref d)) = st_unspentGrantHold s"
  "st_unwithdrawableHold (snd (getOrCreateAccount s mid)) = st_unwithdrawableHold s"
  "st_unspentGrantHold (snd (getOrCreateAccount s mid)) = st_unspentGrantHold s"
  by (simp_all add: store_op_defs Let_def split: option.split)

lemma balance_of_frame [simp]:
  "balance_of (s\<lparr>st_withdrawals := x\<rparr>) = balance_of s"
  "balance_of (s\<lparr>st_idempotencyIndex := y\<rparr>) = balance_of s"
  "balance_of (s\<lparr>st_pendingWithdrawals := z\<rparr>) = balance_of s"
  "balance_of (s\<lparr>st_pendingCounter := c\<rparr>) = balance_of s"
  "balance_of (s\<lparr>st_reads := n\<rparr>) = balance_of s"
  "balance_of (put_withdrawal s wid w) = balance_of s"
  by (simp_all add: fun_eq_iff balance_of_def put_withdrawal_def)

lemma withdrawal_net_frame [simp]:
  "withdrawal_net (s\<lparr>st_withdrawals := x\<rparr>) = withdrawal_net s"
  "withdrawal_net (s\<lparr>st_idempotencyIndex := y\<rparr>) = withdrawal_net s"
  "withdrawal_net (s\<lparr>st_pendingWithdrawals := z\<rparr>) = withdrawal_net s"
  "withdrawal_net (s\<lparr>st_pendingCounter := c\<rparr>) = withdrawal_net s"
  "withdrawal_net (s\<lparr>st_reads := n\<rparr>) = withdrawal_net s"
  "withdrawal_net (put_withdrawal s wid w) = withdrawal_net s"
  by (simp_all add: fun_eq_iff withdrawal_net_def put_withdrawal_def)

lemma put_withdrawal_get [simp]:
  "st_withdrawals (put_withdrawal s wid w) = jsm_set wid w (st_withdrawals s)"
  by (simp add: put_withdrawal_def)

lemma debitSpendable_eq:
  "debitSpendable s mid a ty ref d =
    (if balance_of s mid - st_unwithdrawableHold s mid < a then (None, s)
     else debit s mid a ty ref d)"
  by (simp add: debitSpendable_def Let_def balance_of_def)

lemma unused_reference_net: "\<not> reference_used s wid \<Longrightarrow> withdrawal_net s wid = 0"
  by (auto simp add: reference_used_def withdrawal_net_def list_ex_iff filter_empty_conv
      intro!: arg_cong [where f = "\<lambda>xs. sum_list (map tx_amount xs)" and y = "[]", simplified])

subsection \<open>The operations of the relay on the ledger\<close>

inductive custody_step :: "store \<Rightarrow> store \<Rightarrow> bool" where
  cs_getOrCreateAccount: "custody_step s (snd (getOrCreateAccount s mid))"
| cs_credit: "0 \<le> a \<Longrightarrow> ty \<noteq> Withdrawal \<Longrightarrow> custody_step s (snd (credit s mid a ty ref desc))"
| cs_debit: "ty \<noteq> Withdrawal \<Longrightarrow> custody_step s (snd (debit s mid a ty ref desc))"
| cs_debitSpendable: "ty \<noteq> Withdrawal \<Longrightarrow> custody_step s (snd (debitSpendable s mid a ty ref desc))"
| cs_link: "custody_step s (snd (linkWithdrawalTransfer s wid ref'))"
| cs_signature: "custody_step s (setWithdrawalSignature s wid sig pk)"
| cs_claim: "custody_step s (snd (claimWithdrawalForPayout s wid t u))"
| cs_completion: "custody_step s (snd (setWithdrawalCompletion s wid ref' t from))"
| cs_fail: "custody_step s (snd (failWithdrawalAndRefund s wid reason from failedAt))"
| cs_note: "custody_step s (snd (noteWithdrawalPayoutUnresolved s wid note))"
| cs_record: "debitAndRecordWithdrawal s w desc' = Inr (r, s') \<Longrightarrow>
    jsm_get (st_withdrawals s) (nw_withdrawal_id w) = None \<Longrightarrow>
    \<not> reference_used s (nw_withdrawal_id w) \<Longrightarrow> custody_step s s'"
| cs_enqueue: "jsm_get (st_withdrawals s)
      (case eq_pendingId args of Some p \<Rightarrow> p | None \<Rightarrow> fst (newPendingId s)) = None \<Longrightarrow>
    custody_step s (snd (debitAndEnqueuePending s args))"

inductive custody_run :: "store \<Rightarrow> store \<Rightarrow> bool" where
  cr_refl: "custody_run s s"
| cr_step: "custody_run s s' \<Longrightarrow> custody_step s' s'' \<Longrightarrow> custody_run s s''"

lemma custody_ok_same:
  "custody_ok s \<Longrightarrow> balance_of s' = balance_of s \<Longrightarrow> withdrawal_net s' = withdrawal_net s \<Longrightarrow>
   st_withdrawals s' = st_withdrawals s \<Longrightarrow> custody_ok s'"
  by (simp add: custody_ok_def)

text \<open>Rewriting one row keeps the invariant when its due amount is untouched.\<close>

lemma custody_ok_put:
  assumes "custody_ok s" and "jsm_get (st_withdrawals s) wid = Some w"
    and "ledger_due w' = ledger_due w" and "w_amount w' = w_amount w"
    and "w_withdrawal_id w' = w_withdrawal_id w"
  shows "custody_ok (put_withdrawal s wid w')"
  using assms by (auto simp add: custody_ok_def jsm_get_set)

lemma custody_ok_debit_other:
  assumes "custody_ok s" and "ty \<noteq> Withdrawal \<or> (\<exists>p. ref = Some p \<and> jsm_get (st_withdrawals s) p = None)"
  shows "custody_ok (snd (debit s mid a ty ref d))"
  using assms by (auto simp add: custody_ok_def store_effects)

lemma custody_ok_fail:
  assumes "custody_ok s"
  shows "custody_ok (snd (failWithdrawalAndRefund s wid reason from failedAt))"
proof -
  define s1 where "s1 = snd (case failedAt of Some t \<Rightarrow> (t, s) | None \<Rightarrow> read_now s)"
  define t1 where "t1 = fst (case failedAt of Some t \<Rightarrow> (t, s) | None \<Rightarrow> read_now s)"
  have s1: "custody_ok s1"
    by (rule custody_ok_same [OF assms]) (simp_all add: s1_def read_now_def split: option.split)
  show ?thesis
  proof (cases "jsm_get (st_withdrawals s1) wid")
    case None
    with s1 show ?thesis by (simp add: failWithdrawalAndRefund_def case_prod_beta s1_def)
  next
    case (Some w)
    show ?thesis
    proof (cases "isOpenFrom from \<and> w_status w = from")
      case False
      with s1 Some show ?thesis by (simp add: failWithdrawalAndRefund_def case_prod_beta s1_def)
    next
      case True
      let ?w' = "w\<lparr>w_status := Failed, w_failure_reason := Some reason, w_completed_at := Some t1\<rparr>"
      let ?s2 = "snd (credit (put_withdrawal s1 wid ?w') (w_motebit_id w) (w_amount w) Withdrawal
        (Some wid) (Some (''Withdrawal failed: '' @ reason)))"
      from True have open_w: "ledger_due w = - w_amount w"
        by (auto simp add: ledger_due_def isOpenFrom_def)
      from s1 Some have "0 \<le> balance_of s1 (w_motebit_id w) + w_amount w"
        unfolding custody_ok_def by (metis add_nonneg_nonneg less_imp_le)
      with s1 Some open_w have "custody_ok ?s2"
        unfolding custody_ok_def by (auto simp add: store_effects jsm_get_set ledger_due_def)
      moreover have "snd (failWithdrawalAndRefund s wid reason from failedAt) = ?s2"
        using Some True
        by (simp add: failWithdrawalAndRefund_def case_prod_beta s1_def [symmetric] t1_def [symmetric]
            Let_def)
      ultimately show ?thesis by simp
    qed
  qed
qed

lemma insertWithdrawal_effects [store_effects]:
  "balance_of (snd (insertWithdrawal s w)) = balance_of s"
  "withdrawal_net (snd (insertWithdrawal s w)) = withdrawal_net s"
  "st_withdrawals (snd (insertWithdrawal s w)) =
     jsm_set (nw_withdrawal_id w) (fst (insertWithdrawal s w)) (st_withdrawals s)"
  "w_status (fst (insertWithdrawal s w)) = Pending"
  "w_amount (fst (insertWithdrawal s w)) = nw_amount w"
  "w_motebit_id (fst (insertWithdrawal s w)) = nw_motebit_id w"
  "w_withdrawal_id (fst (insertWithdrawal s w)) = nw_withdrawal_id w"
  by (simp_all add: insertWithdrawal_def Let_def split: option.split)

text \<open>The three outcomes of the compound operation, as equations.\<close>

definition prior_withdrawal :: "store \<Rightarrow> new_withdrawal \<Rightarrow> withdrawal_request option" where
  "prior_withdrawal s w = (case nw_idempotency_key w of
     Some key \<Rightarrow> getWithdrawalByIdempotencyKey s (nw_motebit_id w) key | None \<Rightarrow> None)"

lemma debitAndRecord_eq:
  "debitAndRecordWithdrawal s w desc =
    (case assertPositiveMicro (nw_amount w) ''debitAndRecordWithdrawal'' of
       Inl e \<Rightarrow> throw e
     | Inr _ \<Rightarrow>
        (case prior_withdrawal s w of
           Some e \<Rightarrow> ok (Some (Existing e), s)
         | None \<Rightarrow>
            (let s1 = snd (debit s (nw_motebit_id w) (nw_amount w) Withdrawal
                        (Some (nw_withdrawal_id w)) (Some desc))
             in if balance_of s (nw_motebit_id w) < nw_amount w then ok (None, s1)
                else ok (Some (Recorded (fst (insertWithdrawal s1 w))
                       (balance_of s (nw_motebit_id w) - nw_amount w)), snd (insertWithdrawal s1 w)))))"
  by (auto simp add: debitAndRecordWithdrawal_def prior_withdrawal_def Let_def case_prod_beta
      debit_fst split: sum.split option.split)

lemma custody_ok_record:
  assumes "custody_ok s" and "debitAndRecordWithdrawal s w desc = Inr (r, s')"
    and "jsm_get (st_withdrawals s) (nw_withdrawal_id w) = None"
    and "\<not> reference_used s (nw_withdrawal_id w)"
  shows "custody_ok s'"
proof -
  from assms(2) have pos: "0 < nw_amount w"
    by (auto simp add: debitAndRecord_eq assertPositiveMicro_def isPositiveMicro_def
        MIN_POSITIVE_MICRO_def split: if_splits)
  define s1 where "s1 = snd (debit s (nw_motebit_id w) (nw_amount w) Withdrawal
                        (Some (nw_withdrawal_id w)) (Some desc))"
  have short: "custody_ok s1"
    unfolding s1_def using assms(1,3) by (intro custody_ok_debit_other) auto
  have full: "custody_ok (snd (insertWithdrawal s1 w))"
    if "\<not> balance_of s (nw_motebit_id w) < nw_amount w"
    using that short assms(1,3) pos unused_reference_net [OF assms(4)] unfolding custody_ok_def
    by (auto simp add: store_effects jsm_get_set s1_def ledger_due_def)
  from assms(2) show ?thesis
    using assms(1) short full
    by (auto simp add: debitAndRecord_eq Let_def s1_def [symmetric] split: sum.splits option.splits if_splits)
qed

lemma custody_ok_enqueue:
  assumes "custody_ok s" and "jsm_get (st_withdrawals s)
      (case eq_pendingId args of Some p \<Rightarrow> p | None \<Rightarrow> fst (newPendingId s)) = None"
  shows "custody_ok (snd (debitAndEnqueuePending s args))"
proof -
  define q where "q = (case eq_pendingId args of Some p \<Rightarrow> (p, s) | None \<Rightarrow> newPendingId s)"
  have q: "custody_ok (snd q)"
    by (rule custody_ok_same [OF assms(1)])
      (simp_all add: q_def newPendingId_def Let_def split: option.split)
  have q_none: "jsm_get (st_withdrawals (snd q)) (fst q) = None"
    using assms(2) by (simp add: q_def newPendingId_def Let_def split: option.splits)
  have d: "custody_ok (snd (debit (snd q) mid a Withdrawal (Some (fst q)) desc))" for mid a desc
    using q q_none by (intro custody_ok_debit_other) auto
  show ?thesis
    using assms(1) d unfolding debitAndEnqueuePending_def q_def [symmetric]
    by (auto simp add: Let_def case_prod_beta read_now_def option.case_eq_if
        intro: custody_ok_same [OF d])
qed

lemma custody_step_ok: "custody_step s s' \<Longrightarrow> custody_ok s \<Longrightarrow> custody_ok s'"
proof (induction rule: custody_step.induct)
  case (cs_getOrCreateAccount s mid)
  then show ?case by (rule custody_ok_same) (simp_all add: store_effects)
next
  case (cs_credit a ty s mid ref desc)
  then show ?case by (auto simp add: custody_ok_def store_effects)
next
  case (cs_debit ty s mid a ref desc)
  then show ?case by (simp add: custody_ok_debit_other)
next
  case (cs_debitSpendable ty s mid a ref desc)
  then show ?case by (simp add: debitSpendable_eq custody_ok_debit_other)
next
  case (cs_link s wid ref')
  then show ?case
    by (auto simp add: linkWithdrawalTransfer_def ledger_due_def split: option.split intro: custody_ok_put)
next
  case (cs_signature s wid sig pk)
  then show ?case
    by (auto simp add: setWithdrawalSignature_def ledger_due_def split: option.split intro: custody_ok_put)
next
  case (cs_claim s wid t u)
  then show ?case
    by (auto simp add: claimWithdrawalForPayout_def ledger_due_def split: option.split intro: custody_ok_put)
next
  case (cs_completion s wid ref' t fr)
  then show ?case
    by (auto simp add: setWithdrawalCompletion_def isOpenFrom_def ledger_due_def
        split: option.split intro: custody_ok_put)
next
  case (cs_fail s wid reason fr failedAt)
  then show ?case by (rule custody_ok_fail)
next
  case (cs_note s wid nt)
  then show ?case
    by (auto simp add: noteWithdrawalPayoutUnresolved_def ledger_due_def split: option.split intro: custody_ok_put)
next
  case (cs_record s w desc' r s')
  then show ?case by (rule_tac custody_ok_record)
next
  case (cs_enqueue s args)
  then show ?case by (rule_tac custody_ok_enqueue)
qed

lemma custody_run_ok: "custody_run s s' \<Longrightarrow> custody_ok s \<Longrightarrow> custody_ok s'"
  by (induction rule: custody_run.induct) (auto intro: custody_step_ok)

lemma custody_ok_new: "custody_ok (newInMemoryAccountStore hold grant sweep now)"
  by (simp add: custody_ok_def newInMemoryAccountStore_def balance_of_def)

subsection \<open>The status machine of a withdrawal\<close>

definition status_next :: "withdrawal_status \<Rightarrow> withdrawal_status \<Rightarrow> bool" where
  "status_next a b \<longleftrightarrow> a = b \<or> a = Pending \<and> b \<in> {Processing, Completed, Failed}
     \<or> a = Processing \<and> b \<in> {Completed, Failed}"

definition advances :: "withdrawal_request \<Rightarrow> withdrawal_request \<Rightarrow> bool" where
  "advances w w' \<longleftrightarrow> status_next (w_status w) (w_status w') \<and> w_amount w' = w_amount w
     \<and> w_motebit_id w' = w_motebit_id w \<and> w_withdrawal_id w' = w_withdrawal_id w
     \<and> w_destination w' = w_destination w \<and> w_requested_at w' = w_requested_at w"

lemma advances_refl [simp]: "advances w w"
  by (simp add: advances_def status_next_def)

lemma advances_trans: "advances u v \<Longrightarrow> advances v w \<Longrightarrow> advances u w"
  by (auto simp add: advances_def status_next_def)

lemma same_withdrawals_advance:
  "st_withdrawals s' = st_withdrawals s \<Longrightarrow> jsm_get (st_withdrawals s) v = Some u \<Longrightarrow>
   \<exists>u'. jsm_get (st_withdrawals s') v = Some u' \<and> advances u u'"
  by auto

lemma fail_advances:
  assumes "jsm_get (st_withdrawals s) v = Some u"
  shows "\<exists>u'. jsm_get (st_withdrawals (snd (failWithdrawalAndRefund s wid reason from failedAt))) v
    = Some u' \<and> advances u u'"
  using assms
  by (auto simp add: failWithdrawalAndRefund_def read_now_def Let_def case_prod_beta store_effects
      jsm_get_set isOpenFrom_def advances_def status_next_def split: option.splits)

lemma record_advances:
  assumes "debitAndRecordWithdrawal s w d = Inr (r, s')"
    and "jsm_get (st_withdrawals s) (nw_withdrawal_id w) = None"
    and "jsm_get (st_withdrawals s) v = Some u"
  shows "jsm_get (st_withdrawals s') v = Some u"
  using assms
  by (auto simp add: debitAndRecord_eq Let_def store_effects jsm_get_set
      split: sum.splits option.splits if_splits)

lemma enqueue_withdrawals [store_effects]:
  "st_withdrawals (snd (debitAndEnqueuePending s args)) = st_withdrawals s"
  by (simp add: debitAndEnqueuePending_def newPendingId_def read_now_def Let_def case_prod_beta
      option.case_eq_if store_effects)

lemma custody_step_advances:
  assumes "custody_step s s'" and "jsm_get (st_withdrawals s) v = Some u"
  shows "\<exists>u'. jsm_get (st_withdrawals s') v = Some u' \<and> advances u u'"
  using assms
proof (induction rule: custody_step.induct)
  case (cs_link s wid ref')
  then show ?case
    by (auto simp add: linkWithdrawalTransfer_def advances_def status_next_def jsm_get_set
        split: option.splits)
next
  case (cs_signature s wid sig pk)
  then show ?case
    by (auto simp add: setWithdrawalSignature_def advances_def status_next_def jsm_get_set
        split: option.splits)
next
  case (cs_claim s wid t u)
  then show ?case
    by (auto simp add: claimWithdrawalForPayout_def advances_def status_next_def jsm_get_set
        split: option.splits)
next
  case (cs_completion s wid ref' t fr)
  then show ?case
    by (auto simp add: setWithdrawalCompletion_def isOpenFrom_def advances_def status_next_def jsm_get_set
        split: option.splits)
next
  case (cs_fail s wid reason fr failedAt)
  then show ?case by (rule fail_advances)
next
  case (cs_note s wid nt)
  then show ?case
    by (auto simp add: noteWithdrawalPayoutUnresolved_def advances_def status_next_def jsm_get_set
        split: option.splits)
next
  case (cs_record s w desc' r s')
  then show ?case by (blast intro: record_advances advances_refl)
qed (simp_all add: same_withdrawals_advance store_effects debitSpendable_eq)

lemma custody_run_advances:
  assumes "custody_run s s'" and "jsm_get (st_withdrawals s) v = Some u"
  shows "\<exists>u'. jsm_get (st_withdrawals s') v = Some u' \<and> advances u u'"
  using assms
  by (induction rule: custody_run.induct) (auto dest: custody_step_advances intro: advances_trans)

lemma claim_result:
  "claimWithdrawalForPayout s wid t u = (True, s1) \<Longrightarrow>
   \<exists>w. jsm_get (st_withdrawals s1) wid = Some w \<and> w_status w = Processing"
  by (auto simp add: claimWithdrawalForPayout_def split: option.splits if_splits)

lemma fail_result:
  "failWithdrawalAndRefund s wid reason from failedAt = (Some r, s1) \<Longrightarrow>
   \<exists>w. jsm_get (st_withdrawals s1) wid = Some w \<and> w_status w = Failed"
  by (auto simp add: failWithdrawalAndRefund_def Let_def case_prod_beta store_effects
      split: option.splits if_splits)

lemma completion_result:
  "setWithdrawalCompletion s wid ref t from = (True, s1) \<Longrightarrow>
   \<exists>w. jsm_get (st_withdrawals s1) wid = Some w \<and> w_status w = Completed"
  by (auto simp add: setWithdrawalCompletion_def split: option.splits if_splits)

lemma closed_refuses:
  assumes "jsm_get (st_withdrawals s) wid = Some w" and "w_status w = Completed \<or> w_status w = Failed"
  shows "fst (failWithdrawalAndRefund s wid reason from failedAt) = None"
    and "fst (setWithdrawalCompletion s wid ref t from) = False"
    and "fst (claimWithdrawalForPayout s wid t u) = False"
  using assms
  by (auto simp add: failWithdrawalAndRefund_def setWithdrawalCompletion_def
      claimWithdrawalForPayout_def read_now_def isOpenFrom_def Let_def split: option.split)

subsection \<open>Properties\<close>

text \<open>
  (C1) In every state the store can reach by any sequence of its writing methods, the balance of
  every account is the sum of the amounts of its transactions, every transaction row carries the
  balance the account had after it, and no two rows share a transaction id.
\<close>
theorem ledger_balance_equation:
  assumes "store_run (newInMemoryAccountStore hold grant sweep now) s"
  shows "(\<forall>mid. balance_of s mid = amount_sum mid (st_transactions s))
    \<and> (\<forall>i < length (st_transactions s). tx_balance_after (st_transactions s ! i) =
          amount_sum (tx_motebit_id (st_transactions s ! i)) (take (Suc i) (st_transactions s)))
    \<and> distinct (map tx_transaction_id (st_transactions s))"
proof -
  have "ledger_ok s" using store_run_ledger_ok [OF assms ledger_ok_new] .
  then show ?thesis
    by (auto simp add: ledger_ok_def running_ok_def distinct_map inj_on_def txn_id_inj
        simp del: upt_Suc)
qed

text \<open>
  (C5) From an empty store, under any sequence of relay operations, no balance is ever negative
  and the ledger accounts for each withdrawal exactly: its rows sum to minus its amount while it
  is open or paid, and to zero once it has failed, so the money left once or came back once.
\<close>
theorem withdrawal_accounted_once:
  assumes "custody_run (newInMemoryAccountStore hold grant sweep now) s"
  shows "(\<forall>mid. 0 \<le> balance_of s mid) \<and> (\<forall>wid w. getWithdrawalById s wid = Some w \<longrightarrow>
      withdrawal_net s wid = (if w_status w = Failed then 0 else - w_amount w) \<and> 0 < w_amount w)"
  using custody_run_ok [OF assms custody_ok_new]
  by (simp_all add: custody_ok_def ledger_due_def getWithdrawalById_def)

text \<open>
  (C6) A payout is sent for a withdrawal at most once: after a claim returned true, no later claim
  of the same withdrawal returns true, whatever operations ran in between.
\<close>
theorem payout_claimed_once:
  assumes "claimWithdrawalForPayout s wid t u = (True, s1)" and "custody_run s1 s2"
  shows "fst (claimWithdrawalForPayout s2 wid t' u') = False"
proof -
  from claim_result [OF assms(1)] obtain w
    where "jsm_get (st_withdrawals s1) wid = Some w" and st: "w_status w = Processing" by blast
  from custody_run_advances [OF assms(2) this(1)] obtain w'
    where "jsm_get (st_withdrawals s2) wid = Some w'" and "advances w w'" by blast
  then show ?thesis using st
    by (auto simp add: claimWithdrawalForPayout_def advances_def status_next_def)
qed

text \<open>
  A refund is final: after a withdrawal failed and was refunded, no later operation refunds
  it again, completes it or claims it for a payout.
\<close>
theorem refund_is_final:
  assumes "failWithdrawalAndRefund s wid reason from failedAt = (Some r, s1)"
    and "custody_run s1 s2"
  shows "fst (failWithdrawalAndRefund s2 wid reason' from' failedAt') = None
    \<and> fst (setWithdrawalCompletion s2 wid ref t from'') = False
    \<and> fst (claimWithdrawalForPayout s2 wid t' u) = False"
proof -
  from fail_result [OF assms(1)] obtain w
    where "jsm_get (st_withdrawals s1) wid = Some w" and st: "w_status w = Failed" by blast
  from custody_run_advances [OF assms(2) this(1)] obtain w'
    where w': "jsm_get (st_withdrawals s2) wid = Some w'" "advances w w'" by blast
  then have "w_status w' = Completed \<or> w_status w' = Failed"
    using st by (auto simp add: advances_def status_next_def)
  from closed_refuses [OF w'(1) this] show ?thesis by simp
qed

subsection \<open>Witnesses\<close>

definition demo_new :: store where
  "demo_new = newInMemoryAccountStore (\<lambda>_. 0) (\<lambda>_. 0)
     (\<lambda>_. \<lparr>sweep_threshold = None, settlement_address = None\<rparr>) int"

definition demo_request :: new_withdrawal where
  "demo_request = \<lparr> nw_withdrawal_id = ''w1'', nw_motebit_id = ''m'', nw_amount = 3,
     nw_currency = ''USD'', nw_destination = ''pending'', nw_idempotency_key = Some ''k'',
     nw_requested_at = 7 \<rparr>"

definition demo_funded :: store where
  "demo_funded = snd (credit demo_new ''m'' 5 Deposit None None)"

definition demo_recorded :: store where
  "demo_recorded = (case debitAndRecordWithdrawal demo_funded demo_request ''d'' of
     Inr (r, s) \<Rightarrow> s | Inl e \<Rightarrow> demo_funded)"

definition demo_claimed :: store where
  "demo_claimed = snd (claimWithdrawalForPayout demo_recorded ''w1'' 9 None)"

definition demo_refunded :: store where
  "demo_refunded = snd (failWithdrawalAndRefund demo_claimed ''w1'' ''r'' Processing None)"

lemmas demo_defs = demo_refunded_def demo_claimed_def demo_recorded_def demo_funded_def
  demo_request_def demo_new_def newInMemoryAccountStore_def

lemma demo_record_eq: "\<exists>r. debitAndRecordWithdrawal demo_funded demo_request ''d'' = Inr (r, demo_recorded)"
proof -
  have "\<not> isl (debitAndRecordWithdrawal demo_funded demo_request ''d'')" by code_simp
  then obtain r s where "debitAndRecordWithdrawal demo_funded demo_request ''d'' = Inr (r, s)"
    by (metis isl_def obj_sumE surj_pair)
  then show ?thesis by (simp add: demo_recorded_def)
qed

lemma demo_fresh:
  "jsm_get (st_withdrawals demo_funded) ''w1'' = None" "\<not> reference_used demo_funded ''w1''"
  by (simp_all add: demo_defs store_op_defs reference_used_def Let_def)

lemma demo_claim_eq: "claimWithdrawalForPayout demo_recorded ''w1'' 9 None = (True, demo_claimed)"
proof -
  have "fst (claimWithdrawalForPayout demo_recorded ''w1'' 9 None)" by code_simp
  then show ?thesis by (simp add: demo_claimed_def prod_eq_iff)
qed

lemma demo_fail_eq:
  "failWithdrawalAndRefund demo_claimed ''w1'' ''r'' Processing None = (Some (''m'', 3), demo_refunded)"
proof -
  have "fst (failWithdrawalAndRefund demo_claimed ''w1'' ''r'' Processing None) = Some (''m'', 3)"
    by code_simp
  then show ?thesis by (simp add: demo_refunded_def prod_eq_iff)
qed

lemma demo_custody_recorded: "custody_run demo_new demo_recorded"
proof -
  have "custody_run demo_new demo_funded"
    unfolding demo_funded_def by (rule cr_step [OF cr_refl cs_credit]) simp_all
  moreover obtain r where "debitAndRecordWithdrawal demo_funded demo_request ''d'' = Inr (r, demo_recorded)"
    using demo_record_eq by blast
  then have "custody_step demo_funded demo_recorded"
    by (rule cs_record) (simp_all add: demo_request_def demo_fresh)
  ultimately show ?thesis by (rule cr_step)
qed

lemma demo_custody_refunded: "custody_run demo_new demo_refunded"
proof -
  have "custody_run demo_new demo_claimed"
    unfolding demo_claimed_def by (rule cr_step [OF demo_custody_recorded cs_claim])
  then show ?thesis
    unfolding demo_refunded_def by (rule cr_step [OF _ cs_fail])
qed

lemma demo_store_run: "store_run demo_new demo_recorded"
proof -
  obtain r where "debitAndRecordWithdrawal demo_funded demo_request ''d'' = Inr (r, demo_recorded)"
    using demo_record_eq by blast
  then have "store_step demo_funded demo_recorded" by (rule step_debitAndRecord)
  moreover have "store_run demo_new demo_funded"
    unfolding demo_funded_def by (rule run_step [OF run_refl step_credit])
  ultimately show ?thesis by (metis run_step)
qed

theorem ledger_balance_equation_witness:
  "balance_of demo_recorded ''m'' = amount_sum ''m'' (st_transactions demo_recorded)
   \<and> length (st_transactions demo_recorded) = 2
   \<and> tx_balance_after (st_transactions demo_recorded ! 1) =
       amount_sum (tx_motebit_id (st_transactions demo_recorded ! 1)) (take 2 (st_transactions demo_recorded))
   \<and> distinct (map tx_transaction_id (st_transactions demo_recorded))"
proof -
  note h = demo_store_run [unfolded demo_new_def]
  have len: "length (st_transactions demo_recorded) = 2" by code_simp
  then have one: "1 < length (st_transactions demo_recorded)" by simp
  then show ?thesis
    using ledger_balance_equation [OF h] len by (simp add: numeral_2_eq_2)
qed

theorem withdrawal_accounted_once_witness:
  "(\<exists>w. getWithdrawalById demo_refunded ''w1'' = Some w \<and> w_status w = Failed)
   \<and> withdrawal_net demo_refunded ''w1'' = 0 \<and> 0 \<le> balance_of demo_refunded ''m''
   \<and> (\<exists>w. getWithdrawalById demo_recorded ''w1'' = Some w)
   \<and> withdrawal_net demo_recorded ''w1'' = - 3"
proof -
  note h = demo_custody_refunded [unfolded demo_new_def]
  note h' = demo_custody_recorded [unfolded demo_new_def]
  have a: "map_option w_status (getWithdrawalById demo_refunded ''w1'') = Some Failed" by code_simp
  have b: "map_option (\<lambda>w. (w_status w, w_amount w)) (getWithdrawalById demo_recorded ''w1'')
    = Some (Pending, 3)" by code_simp
  from a obtain w where w: "getWithdrawalById demo_refunded ''w1'' = Some w" "w_status w = Failed"
    by auto
  from b obtain v where v: "getWithdrawalById demo_recorded ''w1'' = Some v" "w_status v = Pending"
    "w_amount v = 3" by auto
  show ?thesis
    using withdrawal_accounted_once [OF h] withdrawal_accounted_once [OF h'] w v by auto
qed

theorem payout_claimed_once_witness:
  "fst (claimWithdrawalForPayout demo_recorded ''w1'' 9 None) = True
   \<and> fst (claimWithdrawalForPayout demo_refunded ''w1'' 12 None) = False"
proof -
  have "custody_run demo_claimed demo_refunded"
    unfolding demo_refunded_def by (rule cr_step [OF cr_refl cs_fail])
  from payout_claimed_once [OF demo_claim_eq this] demo_claim_eq show ?thesis by simp
qed

theorem refund_is_final_witness:
  "fst (failWithdrawalAndRefund demo_claimed ''w1'' ''r'' Processing None) = Some (''m'', 3)
   \<and> fst (failWithdrawalAndRefund (snd (credit demo_refunded ''m'' 1 Deposit None None)) ''w1'' ''r'' Processing None) = None"
proof -
  have "custody_run demo_refunded (snd (credit demo_refunded ''m'' 1 Deposit None None))"
    by (rule cr_step [OF cr_refl cs_credit]) simp_all
  from refund_is_final [OF demo_fail_eq this] demo_fail_eq show ?thesis by simp
qed

end
