(* ===== verification/Withdrawals.thy ===== *)
theory Withdrawals
  imports Lifecycle
begin

text \<open>
  The stateless orchestration of \<open>packages/virtual-accounts\<close> (\<open>withdrawals.ts\<close> and
  \<open>spendable.ts\<close>) over the persistence boundary \<open>AccountStore\<close>.
  \<^item> The TypeScript interface is the record \<open>account_store\<close> of its methods over a state type;
    the functions take it as their first argument, as the source takes \<open>store\<close>.
  \<^item> The promises the interface documents are the locale \<open>account_ledger\<close>, over an abstract
    balance and an abstract table of withdrawals; what the functions do is proved once there.
  \<^item> \<open>InMemoryAccountStore\<close> is the record of the methods of \<open>Accounts\<close>; its interpretation
    discharges the promises for them, and the properties rest on its facts.
  Logging is left out: it reads nothing back. The text of a dollar amount in a ledger
  description is an argument (\<open>usd\<close>); no result depends on it.
\<close>

subsection \<open>The interface\<close>

record 's account_store =
  as_getOrCreateAccount :: "'s \<Rightarrow> string \<Rightarrow> virtual_account \<times> 's"
  as_getAccount :: "'s \<Rightarrow> string \<Rightarrow> virtual_account option"
  as_debitSpendable :: "'s \<Rightarrow> string \<Rightarrow> int \<Rightarrow> transaction_type \<Rightarrow> string option \<Rightarrow> string option \<Rightarrow>
    int option \<times> 's"
  as_linkWithdrawalTransfer :: "'s \<Rightarrow> string \<Rightarrow> string \<Rightarrow> bool \<times> 's"
  as_claimWithdrawalForPayout :: "'s \<Rightarrow> string \<Rightarrow> int \<Rightarrow> int option \<Rightarrow> bool \<times> 's"
  as_setWithdrawalSignature :: "'s \<Rightarrow> string \<Rightarrow> string \<Rightarrow> string \<Rightarrow> 's"
  as_setWithdrawalCompletion :: "'s \<Rightarrow> string \<Rightarrow> string \<Rightarrow> int \<Rightarrow> withdrawal_status \<Rightarrow> bool \<times> 's"
  as_failWithdrawalAndRefund :: "'s \<Rightarrow> string \<Rightarrow> string \<Rightarrow> withdrawal_status \<Rightarrow> int option \<Rightarrow>
    (string \<times> int) option \<times> 's"
  as_debitAndRecordWithdrawal :: "'s \<Rightarrow> new_withdrawal \<Rightarrow> string \<Rightarrow> (record_result option \<times> 's) result"
  as_noteWithdrawalPayoutUnresolved :: "'s \<Rightarrow> string \<Rightarrow> string \<Rightarrow> bool \<times> 's"
  as_getWithdrawalByIdempotencyKey :: "'s \<Rightarrow> string \<Rightarrow> string \<Rightarrow> withdrawal_request option"
  as_getPendingWithdrawalsTotal :: "'s \<Rightarrow> string \<Rightarrow> int"
  as_getPendingAllocationsTotal :: "'s \<Rightarrow> string \<Rightarrow> int"
  as_getSweepConfig :: "'s \<Rightarrow> string \<Rightarrow> sweep_config"
  as_getUnwithdrawableHold :: "'s \<Rightarrow> string \<Rightarrow> int"
  as_getUnspentGrantHold :: "'s \<Rightarrow> string \<Rightarrow> int"

definition InMemoryAccountStore :: "store account_store" where
  "InMemoryAccountStore =
     \<lparr> as_getOrCreateAccount = getOrCreateAccount, as_getAccount = getAccount,
       as_debitSpendable = debitSpendable,
       as_linkWithdrawalTransfer = linkWithdrawalTransfer,
       as_claimWithdrawalForPayout = claimWithdrawalForPayout,
       as_setWithdrawalSignature = setWithdrawalSignature,
       as_setWithdrawalCompletion = setWithdrawalCompletion,
       as_failWithdrawalAndRefund = failWithdrawalAndRefund,
       as_debitAndRecordWithdrawal = debitAndRecordWithdrawal,
       as_noteWithdrawalPayoutUnresolved = noteWithdrawalPayoutUnresolved,
       as_getWithdrawalByIdempotencyKey = getWithdrawalByIdempotencyKey,
       as_getPendingWithdrawalsTotal = getPendingWithdrawalsTotal,
       as_getPendingAllocationsTotal = getPendingAllocationsTotal,
       as_getSweepConfig = getSweepConfig,
       as_getUnwithdrawableHold = getUnwithdrawableHold,
       as_getUnspentGrantHold = getUnspentGrantHold \<rparr>"

subsection \<open>The functions\<close>

definition computeSpendableAvailable :: "'s account_store \<Rightarrow> 's \<Rightarrow> string \<Rightarrow> int" where
  "computeSpendableAvailable store s motebitId =
     (let balance = (case as_getAccount store s motebitId of
                       Some a \<Rightarrow> acc_balance a | None \<Rightarrow> 0);
          escrowHold = as_getUnwithdrawableHold store s motebitId
      in max 0 (balance - escrowHold))"

record withdrawable_available =
  wa_balance :: int
  wa_disputeHold :: int
  wa_grantHold :: int
  wa_available :: int

definition computeWithdrawableAvailable ::
  "'s account_store \<Rightarrow> 's \<Rightarrow> string \<Rightarrow> withdrawable_available \<times> 's" where
  "computeWithdrawableAvailable store s motebitId =
     (let (account, s) = as_getOrCreateAccount store s motebitId;
          balance = acc_balance account;
          disputeHold = as_getUnwithdrawableHold store s motebitId;
          grantHold = as_getUnspentGrantHold store s motebitId
      in (\<lparr> wa_balance = balance, wa_disputeHold = disputeHold, wa_grantHold = grantHold,
            wa_available = max 0 (balance - disputeHold - grantHold) \<rparr>, s))"

record request_withdrawal_args =
  ra_motebitId :: string
  ra_amountMicro :: int
  ra_destination :: "string option"
  ra_idempotencyKey :: "string option"
  ra_newId :: string
  ra_now :: int

datatype request_result = Requested withdrawal_request | ExistingRequest withdrawal_request

definition requestWithdrawal :: "'s account_store \<Rightarrow> (int \<Rightarrow> string) \<Rightarrow> 's \<Rightarrow>
    request_withdrawal_args \<Rightarrow> (request_result option \<times> 's) result" where
  "requestWithdrawal store usd s args =
     (case assertPositiveMicro (ra_amountMicro args) ''requestWithdrawal'' of
        Inl e \<Rightarrow> throw e
      | Inr _ \<Rightarrow>
          (let destination = (case ra_destination args of Some d \<Rightarrow> d | None \<Rightarrow> ''pending'')
           in case (case ra_idempotencyKey args of
                      Some key \<Rightarrow> if key \<noteq> []
                        then as_getWithdrawalByIdempotencyKey store s (ra_motebitId args) key
                        else None
                    | None \<Rightarrow> None) of
                Some prior \<Rightarrow> ok (Some (ExistingRequest prior), s)
              | None \<Rightarrow>
                  (let (wa, s) = computeWithdrawableAvailable store s (ra_motebitId args)
                   in if wa_available wa < ra_amountMicro args then ok (None, s)
                      else
                        (case as_debitAndRecordWithdrawal store s
                                \<lparr> nw_withdrawal_id = ra_newId args, nw_motebit_id = ra_motebitId args,
                                  nw_amount = ra_amountMicro args, nw_currency = ''USD'',
                                  nw_destination = destination,
                                  nw_idempotency_key = ra_idempotencyKey args,
                                  nw_requested_at = ra_now args \<rparr>
                                (''Withdrawal request: $'' @ usd (ra_amountMicro args)
                                   @ '' to '' @ destination) of
                           Inl e \<Rightarrow> throw e
                         | Inr (None, s) \<Rightarrow> ok (None, s)
                         | Inr (Some (Existing w), s) \<Rightarrow> ok (Some (ExistingRequest w), s)
                         | Inr (Some (Recorded record newBalance), s) \<Rightarrow>
                             ok (Some (Requested record), s)))))"

definition wdLinkWithdrawalTransfer :: "'s account_store \<Rightarrow> 's \<Rightarrow> string \<Rightarrow> string \<Rightarrow> bool \<times> 's" where
  "wdLinkWithdrawalTransfer store s withdrawalId payoutReference =
     as_linkWithdrawalTransfer store s withdrawalId payoutReference"

definition wdClaimWithdrawalForPayout ::
  "'s account_store \<Rightarrow> 's \<Rightarrow> string \<Rightarrow> int \<Rightarrow> int option \<Rightarrow> bool \<times> 's" where
  "wdClaimWithdrawalForPayout store s withdrawalId claimedAt payoutValidUntil =
     as_claimWithdrawalForPayout store s withdrawalId claimedAt payoutValidUntil"

record complete_withdrawal_args =
  ca_withdrawalId :: string
  ca_payoutReference :: string
  ca_from :: withdrawal_status
  ca_relaySignature :: "string option"
  ca_relayPublicKey :: "string option"
  ca_completedAt :: int

definition truthy :: "string option \<Rightarrow> bool" where
  "truthy x \<longleftrightarrow> (case x of Some s \<Rightarrow> s \<noteq> [] | None \<Rightarrow> False)"

definition completeWithdrawal :: "'s account_store \<Rightarrow> 's \<Rightarrow> complete_withdrawal_args \<Rightarrow> bool \<times> 's" where
  \<comment> \<open>\<open>ca_completedAt\<close> is \<open>args.completedAt\<close>, or the clock reading that replaces it\<close>
  "completeWithdrawal store s args =
     (let (success, s) = as_setWithdrawalCompletion store s (ca_withdrawalId args)
            (ca_payoutReference args) (ca_completedAt args) (ca_from args)
      in if \<not> success then (False, s)
         else (True,
           if truthy (ca_relaySignature args) \<and> truthy (ca_relayPublicKey args)
           then as_setWithdrawalSignature store s (ca_withdrawalId args)
                  (the (ca_relaySignature args)) (the (ca_relayPublicKey args))
           else s))"

definition failWithdrawal ::
  "'s account_store \<Rightarrow> 's \<Rightarrow> string \<Rightarrow> string \<Rightarrow> withdrawal_status \<Rightarrow> int option \<Rightarrow> bool \<times> 's" where
  "failWithdrawal store s withdrawalId reason from failedAt =
     (case as_failWithdrawalAndRefund store s withdrawalId reason from failedAt of
        (None, s) \<Rightarrow> (False, s)
      | (Some refunded, s) \<Rightarrow> (True, s))"

definition wdNoteWithdrawalPayoutUnresolved :: "'s account_store \<Rightarrow> 's \<Rightarrow> string \<Rightarrow> string \<Rightarrow> bool \<times> 's" where
  "wdNoteWithdrawalPayoutUnresolved store s withdrawalId n =
     as_noteWithdrawalPayoutUnresolved store s withdrawalId n"

record account_balance_detail =
  bd_balance :: int
  bd_currency :: string
  bd_pending_withdrawals :: int
  bd_pending_allocations :: int
  bd_dispute_window_hold :: int
  bd_available_for_withdrawal :: int
  bd_sweep_threshold :: "int option"
  bd_settlement_address :: "string option"

definition getAccountBalanceDetailed :: "'s account_store \<Rightarrow> 's \<Rightarrow> string \<Rightarrow> account_balance_detail \<times> 's" where
  "getAccountBalanceDetailed store s motebitId =
     (let (account, s) = as_getOrCreateAccount store s motebitId;
          pendingW = as_getPendingWithdrawalsTotal store s motebitId;
          pendingA = as_getPendingAllocationsTotal store s motebitId;
          (wa, s) = computeWithdrawableAvailable store s motebitId;
          sweep = as_getSweepConfig store s motebitId
      in (\<lparr> bd_balance = acc_balance account, bd_currency = acc_currency account,
            bd_pending_withdrawals = pendingW, bd_pending_allocations = pendingA,
            bd_dispute_window_hold = wa_disputeHold wa,
            bd_available_for_withdrawal = wa_available wa,
            bd_sweep_threshold = sweep_threshold sweep,
            bd_settlement_address = settlement_address sweep \<rparr>, s))"

subsection \<open>What the interface promises, and what the functions make of it\<close>

locale account_ledger =
  fixes store :: "'s account_store"
    and invar :: "'s \<Rightarrow> bool"
    and bal :: "'s \<Rightarrow> string \<Rightarrow> int"
    and wd :: "'s \<Rightarrow> string \<Rightarrow> withdrawal_request option"
  assumes create_frame: "invar s \<Longrightarrow> as_getOrCreateAccount store s m = (acct, s') \<Longrightarrow>
      invar s' \<and> acc_balance acct = bal s m \<and> bal s' = bal s \<and> wd s' = wd s
      \<and> as_getUnwithdrawableHold store s' = as_getUnwithdrawableHold store s
      \<and> as_getUnspentGrantHold store s' = as_getUnspentGrantHold store s
      \<and> as_getWithdrawalByIdempotencyKey store s' = as_getWithdrawalByIdempotencyKey store s"
    and account_balance: "invar s \<Longrightarrow>
      (case as_getAccount store s m of Some a \<Rightarrow> acc_balance a | None \<Rightarrow> 0) = bal s m"
    and holds_nonneg: "invar s \<Longrightarrow>
      0 \<le> as_getUnwithdrawableHold store s m \<and> 0 \<le> as_getUnspentGrantHold store s m"
    and spend_short: "invar s \<Longrightarrow> bal s m - as_getUnwithdrawableHold store s m < a \<Longrightarrow>
      as_debitSpendable store s m a ty ref d = (None, s)"
    and spend_ok: "invar s \<Longrightarrow> a \<le> bal s m - as_getUnwithdrawableHold store s m \<Longrightarrow>
      as_debitSpendable store s m a ty ref d = (r, s') \<Longrightarrow>
      invar s' \<and> r = Some (bal s m - a) \<and> bal s' = (bal s)(m := bal s m - a)"
    and record_invalid: "\<not> isPositiveMicro (nw_amount nw) \<Longrightarrow>
      \<exists>e. as_debitAndRecordWithdrawal store s nw desc = Inl e"
    and record_existing: "invar s \<Longrightarrow> isPositiveMicro (nw_amount nw) \<Longrightarrow>
      nw_idempotency_key nw = Some k \<Longrightarrow>
      as_getWithdrawalByIdempotencyKey store s (nw_motebit_id nw) k = Some e \<Longrightarrow>
      as_debitAndRecordWithdrawal store s nw desc = Inr (Some (Existing e), s)"
    and record_new: "invar s \<Longrightarrow> isPositiveMicro (nw_amount nw) \<Longrightarrow>
      (\<And>k. nw_idempotency_key nw = Some k \<Longrightarrow>
         as_getWithdrawalByIdempotencyKey store s (nw_motebit_id nw) k = None) \<Longrightarrow>
      nw_amount nw \<le> bal s (nw_motebit_id nw) \<Longrightarrow>
      \<exists>r s'. as_debitAndRecordWithdrawal store s nw desc =
          Inr (Some (Recorded r (bal s (nw_motebit_id nw) - nw_amount nw)), s')
        \<and> invar s' \<and> bal s' = (bal s)(nw_motebit_id nw := bal s (nw_motebit_id nw) - nw_amount nw)
        \<and> wd s' = (wd s)(nw_withdrawal_id nw \<mapsto> r)
        \<and> w_withdrawal_id r = nw_withdrawal_id nw \<and> w_motebit_id r = nw_motebit_id nw
        \<and> w_amount r = nw_amount nw \<and> w_status r = Pending
        \<and> (\<forall>k. nw_idempotency_key nw = Some k \<and> nw_withdrawal_id nw \<noteq> [] \<longrightarrow>
             as_getWithdrawalByIdempotencyKey store s' (nw_motebit_id nw) k = Some r)"
    and fail_open: "invar s \<Longrightarrow> wd s i = Some w \<Longrightarrow> isOpenFrom from \<Longrightarrow> w_status w = from \<Longrightarrow>
      as_failWithdrawalAndRefund store s i reason from t = (rf, s') \<Longrightarrow>
      invar s' \<and> rf = Some (w_motebit_id w, w_amount w)
      \<and> bal s' = (bal s)(w_motebit_id w := bal s (w_motebit_id w) + w_amount w)
      \<and> (\<exists>w'. wd s' = (wd s)(i \<mapsto> w') \<and> w_status w' = Failed \<and> w_amount w' = w_amount w)"
    and fail_closed: "invar s \<Longrightarrow> (\<And>w. wd s i = Some w \<Longrightarrow> \<not> isOpenFrom from \<or> w_status w \<noteq> from) \<Longrightarrow>
      as_failWithdrawalAndRefund store s i reason from t = (rf, s') \<Longrightarrow>
      invar s' \<and> rf = None \<and> bal s' = bal s \<and> wd s' = wd s"
begin

lemma available_frame:
  assumes "invar s" and "computeWithdrawableAvailable store s m = (wa, s')"
  shows "invar s' \<and> bal s' = bal s \<and> wd s' = wd s
    \<and> as_getWithdrawalByIdempotencyKey store s' = as_getWithdrawalByIdempotencyKey store s
    \<and> wa_available wa = max 0 (bal s m - as_getUnwithdrawableHold store s m
                                 - as_getUnspentGrantHold store s m)"
proof -
  obtain a s1 where g: "as_getOrCreateAccount store s m = (a, s1)" by force
  from create_frame [OF assms(1) g] g assms(2) show ?thesis
    by (auto simp add: computeWithdrawableAvailable_def Let_def)
qed

lemma spendable_agreement:
  assumes "invar s" and "0 < a"
  shows "a \<le> computeSpendableAvailable store s m \<longleftrightarrow> fst (as_debitSpendable store s m a ty ref d) \<noteq> None"
proof -
  let ?sp = "bal s m - as_getUnwithdrawableHold store s m"
  obtain r s' where rs: "as_debitSpendable store s m a ty ref d = (r, s')" by force
  have "computeSpendableAvailable store s m = max 0 ?sp"
    using account_balance [OF assms(1), of m] by (simp add: computeSpendableAvailable_def Let_def)
  moreover have "a \<le> ?sp \<longleftrightarrow> r \<noteq> None"
    using spend_short [OF assms(1), of m a ty ref d] spend_ok [OF assms(1) _ rs] rs by fastforce
  ultimately show ?thesis using rs assms(2) by auto
qed

text \<open>The whole behaviour of a first request with a valid amount.\<close>

lemma request_new:
  assumes "invar s" and "isPositiveMicro (ra_amountMicro args)"
    and "\<And>k. ra_idempotencyKey args = Some k \<Longrightarrow>
      k \<noteq> [] \<and> as_getWithdrawalByIdempotencyKey store s (ra_motebitId args) k = None"
    and "ra_amountMicro args \<le> bal s (ra_motebitId args)
      - as_getUnwithdrawableHold store s (ra_motebitId args)
      - as_getUnspentGrantHold store s (ra_motebitId args)"
  shows "\<exists>r s'. requestWithdrawal store usd s args = Inr (Some (Requested r), s') \<and> invar s'
    \<and> bal s' = (bal s)(ra_motebitId args := bal s (ra_motebitId args) - ra_amountMicro args)
    \<and> wd s' = (wd s)(ra_newId args \<mapsto> r)
    \<and> w_amount r = ra_amountMicro args \<and> w_motebit_id r = ra_motebitId args \<and> w_status r = Pending
    \<and> (\<forall>k. ra_idempotencyKey args = Some k \<and> ra_newId args \<noteq> [] \<longrightarrow>
         as_getWithdrawalByIdempotencyKey store s' (ra_motebitId args) k = Some r)"
proof -
  let ?m = "ra_motebitId args" and ?a = "ra_amountMicro args"
  let ?dest = "case ra_destination args of Some d \<Rightarrow> d | None \<Rightarrow> ''pending''"
  let ?w = "\<lparr> nw_withdrawal_id = ra_newId args, nw_motebit_id = ?m, nw_amount = ?a,
     nw_currency = ''USD'', nw_destination = ?dest, nw_idempotency_key = ra_idempotencyKey args,
     nw_requested_at = ra_now args \<rparr>"
  let ?desc = "''Withdrawal request: $'' @ usd ?a @ '' to '' @ ?dest"
  obtain wa s1 where wa: "computeWithdrawableAvailable store s ?m = (wa, s1)" by force
  note fr = available_frame [OF assms(1) wa]
  have pos: "assertPositiveMicro ?a ''requestWithdrawal'' = Inr ()"
    using assms(2) by (simp add: assertPositiveMicro_def)
  have prior: "(case ra_idempotencyKey args of Some key \<Rightarrow>
      if key \<noteq> [] then as_getWithdrawalByIdempotencyKey store s ?m key else None | None \<Rightarrow> None) = None"
    using assms(3) by (auto split: option.split)
  have enough: "\<not> wa_available wa < ?a" "?a \<le> bal s1 ?m"
    using assms(4) fr holds_nonneg [OF assms(1), of ?m] by auto
  have "\<exists>r s'. as_debitAndRecordWithdrawal store s1 ?w ?desc = Inr (Some (Recorded r (bal s1 ?m - ?a)), s')
     \<and> invar s' \<and> bal s' = (bal s1)(?m := bal s1 ?m - ?a) \<and> wd s' = (wd s1)(ra_newId args \<mapsto> r)
     \<and> w_withdrawal_id r = ra_newId args \<and> w_motebit_id r = ?m \<and> w_amount r = ?a \<and> w_status r = Pending
     \<and> (\<forall>k. ra_idempotencyKey args = Some k \<and> ra_newId args \<noteq> [] \<longrightarrow>
         as_getWithdrawalByIdempotencyKey store s' ?m k = Some r)"
    using record_new [of s1 ?w ?desc] fr assms(2,3) enough(2) by simp
  then show ?thesis using fr enough(1) wa prior pos
    by (auto simp add: requestWithdrawal_def Let_def)
qed

lemma request_short:
  assumes "invar s" and "isPositiveMicro (ra_amountMicro args)"
    and "\<And>k. ra_idempotencyKey args = Some k \<Longrightarrow>
      k = [] \<or> as_getWithdrawalByIdempotencyKey store s (ra_motebitId args) k = None"
    and "bal s (ra_motebitId args) - as_getUnwithdrawableHold store s (ra_motebitId args)
      - as_getUnspentGrantHold store s (ra_motebitId args) < ra_amountMicro args"
  shows "\<exists>s'. requestWithdrawal store usd s args = Inr (None, s') \<and> bal s' = bal s \<and> wd s' = wd s"
proof -
  let ?m = "ra_motebitId args"
  obtain wa s1 where wa: "computeWithdrawableAvailable store s ?m = (wa, s1)" by force
  note fr = available_frame [OF assms(1) wa]
  have pos: "assertPositiveMicro (ra_amountMicro args) ''requestWithdrawal'' = Inr ()"
    and ge: "1 \<le> ra_amountMicro args"
    using assms(2) by (simp_all add: assertPositiveMicro_def isPositiveMicro_def MIN_POSITIVE_MICRO_def)
  have prior: "(case ra_idempotencyKey args of Some key \<Rightarrow>
      if key \<noteq> [] then as_getWithdrawalByIdempotencyKey store s ?m key else None | None \<Rightarrow> None) = None"
    using assms(3) by (auto split: option.split)
  from fr ge assms(4) have "wa_available wa < ra_amountMicro args" by auto
  then show ?thesis using fr wa prior pos by (simp add: requestWithdrawal_def Let_def)
qed

lemma request_replay:
  assumes "isPositiveMicro (ra_amountMicro args)" and "ra_idempotencyKey args = Some k" and "k \<noteq> []"
    and "as_getWithdrawalByIdempotencyKey store s (ra_motebitId args) k = Some r"
  shows "requestWithdrawal store usd s args = Inr (Some (ExistingRequest r), s)"
  using assms by (simp add: requestWithdrawal_def assertPositiveMicro_def Let_def)

lemma fail_refunds_exactly:
  assumes "invar s" and "failWithdrawal store s i reason from t = (b, s')"
  shows "b \<longleftrightarrow> (\<exists>w. wd s i = Some w \<and> isOpenFrom from \<and> w_status w = from)"
    and "b \<Longrightarrow> wd s i = Some w \<Longrightarrow>
      bal s' = (bal s)(w_motebit_id w := bal s (w_motebit_id w) + w_amount w)"
    and "\<not> b \<Longrightarrow> bal s' = bal s \<and> wd s' = wd s"
proof -
  obtain r s1 where rs: "as_failWithdrawalAndRefund store s i reason from t = (r, s1)" by force
  then have bs: "b \<longleftrightarrow> r \<noteq> None" "s' = s1"
    using assms(2) by (auto simp add: failWithdrawal_def split: option.splits)
  show iff: "b \<longleftrightarrow> (\<exists>w. wd s i = Some w \<and> isOpenFrom from \<and> w_status w = from)"
    using bs fail_open [OF assms(1) _ _ _ rs] fail_closed [OF assms(1) _ rs] by blast
  show "b \<Longrightarrow> wd s i = Some w \<Longrightarrow>
      bal s' = (bal s)(w_motebit_id w := bal s (w_motebit_id w) + w_amount w)"
    using iff bs fail_open [OF assms(1) _ _ _ rs] by auto
  show "\<not> b \<Longrightarrow> bal s' = bal s \<and> wd s' = wd s"
    using iff bs fail_closed [OF assms(1) _ rs] by blast
qed

end

subsection \<open>The in-memory store keeps the promises\<close>

definition holds_ok :: "store \<Rightarrow> bool" where
  "holds_ok s \<longleftrightarrow> (\<forall>m. 0 \<le> st_unwithdrawableHold s m \<and> 0 \<le> st_unspentGrantHold s m)"

lemma hold_frame_fail [store_effects]:
  "st_unwithdrawableHold (snd (failWithdrawalAndRefund s i reason from t)) = st_unwithdrawableHold s"
  "st_unspentGrantHold (snd (failWithdrawalAndRefund s i reason from t)) = st_unspentGrantHold s"
  by (simp_all add: failWithdrawalAndRefund_def read_now_def put_withdrawal_def Let_def
      case_prod_beta store_effects split: option.split)

lemma hold_frame_insert [store_effects]:
  "st_unwithdrawableHold (snd (insertWithdrawal s w)) = st_unwithdrawableHold s"
  "st_unspentGrantHold (snd (insertWithdrawal s w)) = st_unspentGrantHold s"
  by (simp_all add: insertWithdrawal_def Let_def split: option.split)

lemma insert_key [store_effects]:
  "nw_idempotency_key w = Some k \<Longrightarrow> nw_withdrawal_id w \<noteq> [] \<Longrightarrow>
   getWithdrawalByIdempotencyKey (snd (insertWithdrawal s w)) (nw_motebit_id w) k
     = Some (fst (insertWithdrawal s w))"
  by (simp add: getWithdrawalByIdempotencyKey_def getWithdrawalById_def insertWithdrawal_def Let_def)

lemma key_lookup_frame:
  "st_idempotencyIndex s' = st_idempotencyIndex s \<Longrightarrow> st_withdrawals s' = st_withdrawals s \<Longrightarrow>
   getWithdrawalByIdempotencyKey s' = getWithdrawalByIdempotencyKey s"
  by (simp add: fun_eq_iff getWithdrawalByIdempotencyKey_def getWithdrawalById_def split: option.split)

lemma fail_open_effects:
  assumes "getWithdrawalById s i = Some w" and "isOpenFrom from" and "w_status w = from"
  shows "fst (failWithdrawalAndRefund s i reason from t) = Some (w_motebit_id w, w_amount w)"
    and "balance_of (snd (failWithdrawalAndRefund s i reason from t)) =
      (balance_of s)(w_motebit_id w := balance_of s (w_motebit_id w) + w_amount w)"
    and "\<exists>w'. getWithdrawalById (snd (failWithdrawalAndRefund s i reason from t)) =
        (getWithdrawalById s)(i \<mapsto> w') \<and> w_status w' = Failed \<and> w_amount w' = w_amount w"
  using assms
  by (auto simp add: failWithdrawalAndRefund_def getWithdrawalById_def read_now_def Let_def
      case_prod_beta store_effects fun_eq_iff jsm_get_set
      intro!: exI [of _ "w\<lparr>w_status := Failed, w_failure_reason := Some reason,
        w_completed_at := Some (case t of Some t \<Rightarrow> t | None \<Rightarrow> st_now s (st_reads s))\<rparr>"]
      split: option.split)

lemma fail_closed_effects:
  assumes "\<And>w. getWithdrawalById s i = Some w \<Longrightarrow> \<not> isOpenFrom from \<or> w_status w \<noteq> from"
  shows "fst (failWithdrawalAndRefund s i reason from t) = None"
    and "balance_of (snd (failWithdrawalAndRefund s i reason from t)) = balance_of s"
    and "getWithdrawalById (snd (failWithdrawalAndRefund s i reason from t)) = getWithdrawalById s"
  using assms
  by (auto simp add: failWithdrawalAndRefund_def getWithdrawalById_def read_now_def Let_def
      case_prod_beta fun_eq_iff split: option.split)

interpretation inmem: account_ledger InMemoryAccountStore holds_ok balance_of getWithdrawalById
proof (unfold_locales, goal_cases)
  case (1 s m a s')
  then have "s' = snd (getOrCreateAccount s m)" "a = fst (getOrCreateAccount s m)"
    by (simp_all add: InMemoryAccountStore_def)
  with 1 show ?case
    by (simp add: InMemoryAccountStore_def holds_ok_def store_effects fun_eq_iff
        getUnwithdrawableHold_def getUnspentGrantHold_def getWithdrawalById_def
        key_lookup_frame [of "snd (getOrCreateAccount s m)" s])
next
  case (2 s m)
  then show ?case by (simp add: InMemoryAccountStore_def getAccount_def balance_of_def)
next
  case (3 s m)
  then show ?case
    by (simp add: InMemoryAccountStore_def holds_ok_def getUnwithdrawableHold_def getUnspentGrantHold_def)
next
  case (4 s m a ty ref d)
  then show ?case by (simp add: InMemoryAccountStore_def debitSpendable_eq getUnwithdrawableHold_def)
next
  case (5 s a m ty ref d r s')
  then have "(r, s') = debit s m a ty ref d" "a \<le> balance_of s m"
    by (auto simp add: InMemoryAccountStore_def debitSpendable_eq getUnwithdrawableHold_def holds_ok_def
        dest: spec [of _ m] split: if_splits)
  then have "r = fst (debit s m a ty ref d)" "s' = snd (debit s m a ty ref d)" "\<not> balance_of s m < a"
    by (metis fst_conv, metis snd_conv, simp)
  with 5(1) show ?case by (simp add: store_effects holds_ok_def)
next
  case (6 w s d)
  then show ?case by (simp add: InMemoryAccountStore_def debitAndRecord_eq assertPositiveMicro_def)
next
  case (7 s w k e d)
  then show ?case
    by (simp add: InMemoryAccountStore_def debitAndRecord_eq assertPositiveMicro_def prior_withdrawal_def)
next
  case (8 s w d)
  then have "prior_withdrawal s w = None"
    by (auto simp add: InMemoryAccountStore_def prior_withdrawal_def split: option.split)
  with 8 show ?case
    by (auto simp add: InMemoryAccountStore_def debitAndRecord_eq assertPositiveMicro_def Let_def
        store_effects holds_ok_def fun_eq_iff getWithdrawalById_def jsm_get_set)
next
  case (9 s i w fr reason t r s')
  then have "s' = snd (failWithdrawalAndRefund s i reason fr t)"
    "r = fst (failWithdrawalAndRefund s i reason fr t)" by (simp_all add: InMemoryAccountStore_def)
  with fail_open_effects [OF 9(2-4)] 9(1) show ?case by (simp add: holds_ok_def store_effects)
next
  case (10 s i fr reason t r s')
  then have "s' = snd (failWithdrawalAndRefund s i reason fr t)"
    "r = fst (failWithdrawalAndRefund s i reason fr t)" by (simp_all add: InMemoryAccountStore_def)
  with fail_closed_effects [OF 10(2)] 10(1) show ?case by (simp add: holds_ok_def store_effects)
qed

subsection \<open>Properties\<close>

lemma inmem_ops [simp]:
  "as_getWithdrawalByIdempotencyKey InMemoryAccountStore = getWithdrawalByIdempotencyKey"
  "as_getUnwithdrawableHold InMemoryAccountStore = getUnwithdrawableHold"
  "as_getUnspentGrantHold InMemoryAccountStore = getUnspentGrantHold"
  "as_debitSpendable InMemoryAccountStore = debitSpendable"
  by (simp_all add: InMemoryAccountStore_def)

text \<open>
  A first withdrawal request with a valid amount either moves exactly that amount or nothing.
  It succeeds exactly when the amount is within the balance less both holds; then the balance falls
  by the amount and a pending withdrawal of that amount is stored. Otherwise the answer is null and
  no balance and no withdrawal changes.
\<close>
theorem request_withdrawal_all_or_nothing:
  fixes args :: request_withdrawal_args
  defines "m \<equiv> ra_motebitId args" and "amt \<equiv> ra_amountMicro args"
  assumes "holds_ok s" and "isPositiveMicro amt"
    and "\<And>k. ra_idempotencyKey args = Some k \<Longrightarrow>
      k \<noteq> [] \<and> getWithdrawalByIdempotencyKey s m k = None"
  shows "if amt \<le> balance_of s m - getUnwithdrawableHold s m - getUnspentGrantHold s m
    then \<exists>r s'. requestWithdrawal InMemoryAccountStore usd s args = Inr (Some (Requested r), s')
      \<and> balance_of s' = (balance_of s)(m := balance_of s m - amt)
      \<and> getWithdrawalById s' = (getWithdrawalById s)(ra_newId args \<mapsto> r)
      \<and> w_amount r = amt \<and> w_motebit_id r = m \<and> w_status r = Pending
    else \<exists>s'. requestWithdrawal InMemoryAccountStore usd s args = Inr (None, s')
      \<and> balance_of s' = balance_of s \<and> getWithdrawalById s' = getWithdrawalById s"
proof (cases "amt \<le> balance_of s m - getUnwithdrawableHold s m - getUnspentGrantHold s m")
  case True
  with inmem.request_new [of s args usd] assms show ?thesis by auto
next
  case False
  with inmem.request_short [of s args usd] assms show ?thesis by auto
qed

lemma requested_inv:
  assumes "holds_ok s" and "requestWithdrawal InMemoryAccountStore usd s args = Inr (Some (Requested r), s')"
    and "ra_idempotencyKey args = Some k" and "k \<noteq> []"
  shows "isPositiveMicro (ra_amountMicro args)"
    and "getWithdrawalByIdempotencyKey s (ra_motebitId args) k = None"
    and "ra_amountMicro args \<le> balance_of s (ra_motebitId args)
      - getUnwithdrawableHold s (ra_motebitId args) - getUnspentGrantHold s (ra_motebitId args)"
proof -
  show pos: "isPositiveMicro (ra_amountMicro args)"
    using assms(2) by (auto simp add: requestWithdrawal_def assertPositiveMicro_def split: if_splits)
  show none: "getWithdrawalByIdempotencyKey s (ra_motebitId args) k = None"
    using assms(2-4) inmem.request_replay [OF pos assms(3,4)]
    by (cases "getWithdrawalByIdempotencyKey s (ra_motebitId args) k") auto
  show "ra_amountMicro args \<le> balance_of s (ra_motebitId args)
      - getUnwithdrawableHold s (ra_motebitId args) - getUnspentGrantHold s (ra_motebitId args)"
    using inmem.request_short [OF assms(1) pos, of usd] assms(2-4) none by fastforce
qed

text \<open>
  A request is idempotent under its key: once a request with a key was accepted, a replay with
  the same account and key, whatever its amount and destination, returns the stored withdrawal and
  leaves the store as it is, so it debits nothing.
\<close>
theorem request_withdrawal_replay:
  assumes "holds_ok s" and "requestWithdrawal InMemoryAccountStore usd s args = Inr (Some (Requested r), s')"
    and "ra_idempotencyKey args = Some k" and "k \<noteq> []" and "ra_newId args \<noteq> []"
    and "ra_motebitId args' = ra_motebitId args" and "ra_idempotencyKey args' = Some k"
    and "isPositiveMicro (ra_amountMicro args')"
  shows "requestWithdrawal InMemoryAccountStore usd' s' args' = Inr (Some (ExistingRequest r), s')"
proof -
  note i = requested_inv [OF assms(1-4)]
  have "getWithdrawalByIdempotencyKey s' (ra_motebitId args) k = Some r"
    using inmem.request_new [OF assms(1) i(1), of usd] i assms(2-5) by auto
  with inmem.request_replay [OF assms(8,7,4)] assms(6) show ?thesis by simp
qed

text \<open>
  The spend check and the spend debit cannot disagree: for a positive amount, the amount is
  within \<open>computeSpendableAvailable\<close> exactly when \<open>debitSpendable\<close> performs the debit.
\<close>
theorem spend_check_matches_debit:
  assumes "holds_ok s" and "0 < a"
  shows "a \<le> computeSpendableAvailable InMemoryAccountStore s m
    \<longleftrightarrow> fst (debitSpendable s m a ty ref d) \<noteq> None"
  using inmem.spendable_agreement [OF assms] by simp

text \<open>
  Failing a withdrawal returns true exactly when the withdrawal exists in the open state the
  caller names; then its account is credited by exactly its amount and no other account changes, and
  otherwise no balance and no withdrawal changes.
\<close>
theorem fail_withdrawal_refund:
  assumes "holds_ok s" and "failWithdrawal InMemoryAccountStore s wid reason from t = (b, s')"
  shows "b = (\<exists>w. getWithdrawalById s wid = Some w \<and> isOpenFrom from \<and> w_status w = from)
    \<and> (if b then (\<forall>w. getWithdrawalById s wid = Some w \<longrightarrow>
           balance_of s' = (balance_of s)(w_motebit_id w := balance_of s (w_motebit_id w) + w_amount w))
       else balance_of s' = balance_of s \<and> getWithdrawalById s' = getWithdrawalById s)"
  using inmem.fail_refunds_exactly [OF assms] by auto

subsection \<open>Witnesses\<close>

definition demo_args :: request_withdrawal_args where
  "demo_args = \<lparr> ra_motebitId = ''m'', ra_amountMicro = 3, ra_destination = None,
     ra_idempotencyKey = Some ''k'', ra_newId = ''w1'', ra_now = 7 \<rparr>"

definition demo_requested :: store where
  "demo_requested = (case requestWithdrawal InMemoryAccountStore (\<lambda>_. ''3'') demo_funded demo_args of
     Inr (r, s) \<Rightarrow> s | Inl e \<Rightarrow> demo_funded)"

lemma demo_holds: "holds_ok demo_funded" "holds_ok demo_recorded"
  by (simp_all add: holds_ok_def demo_recorded_def demo_funded_def demo_new_def
      newInMemoryAccountStore_def store_effects debitAndRecord_eq Let_def
      split: sum.split option.split)

lemma demo_no_prior: "getWithdrawalByIdempotencyKey demo_funded ''m'' ''k'' = None"
  by code_simp

lemma demo_available:
  "3 \<le> balance_of demo_funded ''m'' - getUnwithdrawableHold demo_funded ''m''
     - getUnspentGrantHold demo_funded ''m''"
  by code_simp

lemma demo_positive: "isPositiveMicro 3"
  by code_simp

theorem request_withdrawal_all_or_nothing_witness:
  "\<exists>r s'. requestWithdrawal InMemoryAccountStore (\<lambda>_. ''3'') demo_funded demo_args
     = Inr (Some (Requested r), s') \<and> balance_of s' ''m'' = 2 \<and> w_amount r = 3"
proof -
  have "balance_of demo_funded ''m'' = 5" by code_simp
  then show ?thesis
    using request_withdrawal_all_or_nothing [OF demo_holds(1), of demo_args "\<lambda>_. ''3''"]
      demo_available demo_positive demo_no_prior
    by (auto simp add: demo_args_def)
qed

theorem request_withdrawal_replay_witness:
  "\<exists>r. requestWithdrawal InMemoryAccountStore (\<lambda>_. ''9'') demo_requested
      (demo_args\<lparr>ra_amountMicro := 9, ra_newId := ''w2''\<rparr>) = Inr (Some (ExistingRequest r), demo_requested)"
proof -
  have "case requestWithdrawal InMemoryAccountStore (\<lambda>_. ''3'') demo_funded demo_args of
      Inr (Some (Requested r), s) \<Rightarrow> True | _ \<Rightarrow> False" by code_simp
  then obtain r where r: "requestWithdrawal InMemoryAccountStore (\<lambda>_. ''3'') demo_funded demo_args
      = Inr (Some (Requested r), demo_requested)"
    by (auto simp add: demo_requested_def split: sum.splits option.splits request_result.splits prod.splits)
      (metis request_result.exhaust)
  have "isPositiveMicro 9" by code_simp
  with request_withdrawal_replay [OF demo_holds(1) r, of "''k''"
      "demo_args\<lparr>ra_amountMicro := 9, ra_newId := ''w2''\<rparr>" "\<lambda>_. ''9''"]
  show ?thesis by (auto simp add: demo_args_def)
qed

theorem spend_check_matches_debit_witness:
  "(4 \<le> computeSpendableAvailable InMemoryAccountStore demo_funded ''m'')
   \<and> fst (debitSpendable demo_funded ''m'' 4 Fee None None) \<noteq> None"
proof -
  have "4 \<le> computeSpendableAvailable InMemoryAccountStore demo_funded ''m''" by code_simp
  with spend_check_matches_debit [OF demo_holds(1), of 4 "''m''" Fee None None] show ?thesis by simp
qed

theorem fail_withdrawal_refund_witness:
  "fst (failWithdrawal InMemoryAccountStore demo_recorded ''w1'' ''r'' Pending None)
   \<and> balance_of (snd (failWithdrawal InMemoryAccountStore demo_recorded ''w1'' ''r'' Pending None)) ''m''
       = balance_of demo_recorded ''m'' + 3"
proof -
  obtain b s' where bs: "failWithdrawal InMemoryAccountStore demo_recorded ''w1'' ''r'' Pending None = (b, s')"
    by force
  have "map_option (\<lambda>w. (w_status w, w_motebit_id w, w_amount w)) (getWithdrawalById demo_recorded ''w1'')
    = Some (Pending, ''m'', 3)" by code_simp
  then obtain w where "getWithdrawalById demo_recorded ''w1'' = Some w" "w_status w = Pending"
    "w_motebit_id w = ''m''" "w_amount w = 3" by auto
  with fail_withdrawal_refund [OF demo_holds(2) bs] bs show ?thesis
    by (auto simp add: isOpenFrom_def split: if_splits)
qed

end
