(* ===== verification/CircuitBreaker.thy ===== *)
theory CircuitBreaker
  imports Prelude
begin

text \<open>
  The per-peer forward-health breaker of \<open>packages/circuit-breaker\<close>: one definition per method
  of the class \<open>CircuitBreaker\<close> and its two private helpers. The state is the map of peers; the
  configuration is an argument, and so is the clock reading a method takes (\<open>getAllStates\<close>
  takes one per peer, so it gets the sequence of its readings). The lemmas keep the invariant
  \<open>entry_ok\<close> over every run and describe each call, and the properties say when a peer is
  forwarded to, when it is cut off, and that it always recovers.
\<close>

subsection \<open>Data\<close>

datatype circuit_state = Closed | Open | HalfOpen

record circuit_breaker_config =
  failureThreshold :: int
  successThreshold :: int
  resetTimeoutMs :: int
  windowMs :: int

record peer_entry =
  pe_state :: circuit_state
  pe_failureTimestamps :: "int list"
  pe_halfOpenSuccesses :: int
  pe_lastFailureAt :: int
  pe_lastStateChangeAt :: int

record circuit_breaker_state =
  cs_state :: circuit_state
  cs_failures :: int
  cs_successes :: int
  cs_lastFailureAt :: int
  cs_lastStateChangeAt :: int

type_synonym peers = "(string, peer_entry) jsmap"

definition DEFAULT_CONFIG :: circuit_breaker_config where
  "DEFAULT_CONFIG = \<lparr> failureThreshold = 5, successThreshold = 2, resetTimeoutMs = 60000, windowMs = 120000 \<rparr>"

subsection \<open>Operations\<close>

definition transition :: "peer_entry \<Rightarrow> circuit_state \<Rightarrow> int \<Rightarrow> peer_entry" where
  "transition entry newState now =
     (let entry = entry\<lparr>pe_state := newState, pe_lastStateChangeAt := now\<rparr>
      in if newState = Closed
         then entry\<lparr>pe_failureTimestamps := [], pe_halfOpenSuccesses := 0\<rparr>
         else if newState = HalfOpen
         then entry\<lparr>pe_halfOpenSuccesses := 0\<rparr>
         else entry\<lparr>pe_failureTimestamps := [], pe_halfOpenSuccesses := 0\<rparr>)"

definition pruneWindow :: "circuit_breaker_config \<Rightarrow> peer_entry \<Rightarrow> int \<Rightarrow> peer_entry" where
  "pruneWindow config entry now =
     (let cutoff = now - windowMs config
      in entry\<lparr>pe_failureTimestamps := filter (\<lambda>ts. ts \<ge> cutoff) (pe_failureTimestamps entry)\<rparr>)"

definition recordSuccess :: "circuit_breaker_config \<Rightarrow> int \<Rightarrow> peers \<Rightarrow> string \<Rightarrow> peers" where
  "recordSuccess config now peers peerId =
     (case jsm_get peers peerId of
        None \<Rightarrow> peers
      | Some entry \<Rightarrow>
          if pe_state entry = HalfOpen then
            (let entry = entry\<lparr>pe_halfOpenSuccesses := pe_halfOpenSuccesses entry + 1\<rparr>
             in jsm_set peerId
                  (if pe_halfOpenSuccesses entry \<ge> successThreshold config
                   then transition entry Closed now else entry) peers)
          else if pe_state entry = Closed then jsm_set peerId (pruneWindow config entry now) peers
          else peers)"

definition recordFailure :: "circuit_breaker_config \<Rightarrow> int \<Rightarrow> peers \<Rightarrow> string \<Rightarrow> peers" where
  "recordFailure config now peers peerId =
     (case jsm_get peers peerId of
        None \<Rightarrow>
          (let entry = \<lparr> pe_state = Closed, pe_failureTimestamps = [now], pe_halfOpenSuccesses = 0,
                 pe_lastFailureAt = now, pe_lastStateChangeAt = now \<rparr>
           in jsm_set peerId
                (if int (length (pe_failureTimestamps entry)) \<ge> failureThreshold config
                 then transition entry Open now else entry) peers)
      | Some entry \<Rightarrow>
          (let entry = entry\<lparr>pe_lastFailureAt := now\<rparr>
           in jsm_set peerId
                (if pe_state entry = HalfOpen then transition entry Open now
                 else if pe_state entry = Closed then
                   (let entry = pruneWindow config
                          (entry\<lparr>pe_failureTimestamps := pe_failureTimestamps entry @ [now]\<rparr>) now
                    in if int (length (pe_failureTimestamps entry)) \<ge> failureThreshold config
                       then transition entry Open now else entry)
                 else entry) peers))"

definition canForward :: "circuit_breaker_config \<Rightarrow> int \<Rightarrow> peers \<Rightarrow> string \<Rightarrow> bool \<times> peers" where
  "canForward config now peers peerId =
     (case jsm_get peers peerId of
        None \<Rightarrow> (True, peers)
      | Some entry \<Rightarrow>
          if pe_state entry = Closed then (True, peers)
          else if pe_state entry = HalfOpen then (True, peers)
          else if now - pe_lastStateChangeAt entry \<ge> resetTimeoutMs config
          then (True, jsm_set peerId (transition entry HalfOpen now) peers)
          else (False, peers))"

definition getState :: "circuit_breaker_config \<Rightarrow> int \<Rightarrow> peers \<Rightarrow> string \<Rightarrow> circuit_breaker_state \<times> peers" where
  "getState config now peers peerId =
     (case jsm_get peers peerId of
        None \<Rightarrow> (\<lparr> cs_state = Closed, cs_failures = 0, cs_successes = 0, cs_lastFailureAt = 0,
                   cs_lastStateChangeAt = 0 \<rparr>, peers)
      | Some entry \<Rightarrow>
          (let entry = (if pe_state entry = Closed then pruneWindow config entry now else entry)
           in (\<lparr> cs_state = pe_state entry, cs_failures = int (length (pe_failureTimestamps entry)),
                 cs_successes = pe_halfOpenSuccesses entry, cs_lastFailureAt = pe_lastFailureAt entry,
                 cs_lastStateChangeAt = pe_lastStateChangeAt entry \<rparr>,
               jsm_set peerId entry peers)))"

definition reset :: "peers \<Rightarrow> string \<Rightarrow> peers" where
  "reset peers peerId = jsm_delete peerId peers"

fun getAllStatesLoop :: "circuit_breaker_config \<Rightarrow> (nat \<Rightarrow> int) \<Rightarrow> nat \<Rightarrow> peers \<Rightarrow> string list \<Rightarrow>
    (string, circuit_breaker_state) jsmap \<Rightarrow> (string, circuit_breaker_state) jsmap \<times> peers" where
  "getAllStatesLoop config clk i peers [] result = (result, peers)"
| "getAllStatesLoop config clk i peers (peerId # ids) result =
     (let (st, peers) = getState config (clk i) peers peerId
      in getAllStatesLoop config clk (Suc i) peers ids (jsm_set peerId st result))"

definition getAllStates :: "circuit_breaker_config \<Rightarrow> (nat \<Rightarrow> int) \<Rightarrow> peers \<Rightarrow>
    (string, circuit_breaker_state) jsmap \<times> peers" where
  "getAllStates config clk peers = getAllStatesLoop config clk 0 peers (jsm_keys peers) []"

subsection \<open>Runs\<close>

datatype call = RecordSuccess string | RecordFailure string | CanForward string | GetState string | Reset string

fun call_step :: "circuit_breaker_config \<Rightarrow> peers \<Rightarrow> int \<times> call \<Rightarrow> peers" where
  "call_step config peers (now, RecordSuccess p) = recordSuccess config now peers p"
| "call_step config peers (now, RecordFailure p) = recordFailure config now peers p"
| "call_step config peers (now, CanForward p) = snd (canForward config now peers p)"
| "call_step config peers (now, GetState p) = snd (getState config now peers p)"
| "call_step config peers (now, Reset p) = reset peers p"

definition run_calls :: "circuit_breaker_config \<Rightarrow> (int \<times> call) list \<Rightarrow> peers" where
  "run_calls config calls = foldl (call_step config) [] calls"

subsection \<open>The invariant\<close>

text \<open>
  A closed peer is below the failure threshold, an open one has forgotten its failures, a probing
  one is below the success threshold.
\<close>

definition entry_ok :: "circuit_breaker_config \<Rightarrow> peer_entry \<Rightarrow> bool" where
  "entry_ok config e \<longleftrightarrow> 0 \<le> pe_halfOpenSuccesses e \<and>
     (case pe_state e of
        Closed \<Rightarrow> int (length (pe_failureTimestamps e)) < failureThreshold config \<and> pe_halfOpenSuccesses e = 0
      | Open \<Rightarrow> pe_failureTimestamps e = [] \<and> pe_halfOpenSuccesses e = 0
      | HalfOpen \<Rightarrow> pe_failureTimestamps e = [] \<and> pe_halfOpenSuccesses e < successThreshold config)"

definition peers_ok :: "circuit_breaker_config \<Rightarrow> peers \<Rightarrow> bool" where
  "peers_ok config peers \<longleftrightarrow> (\<forall>p e. jsm_get peers p = Some e \<longrightarrow> entry_ok config e)"

definition config_ok :: "circuit_breaker_config \<Rightarrow> bool" where
  "config_ok config \<longleftrightarrow> 1 \<le> failureThreshold config \<and> 1 \<le> successThreshold config"

lemma peers_okD: "peers_ok config peers \<Longrightarrow> jsm_get peers p = Some e \<Longrightarrow> entry_ok config e"
  by (simp add: peers_ok_def)

lemma peers_ok_set: "peers_ok config peers \<Longrightarrow> entry_ok config e \<Longrightarrow> peers_ok config (jsm_set p e peers)"
  by (simp add: peers_ok_def jsm_get_set)

lemma peers_ok_delete: "peers_ok config peers \<Longrightarrow> peers_ok config (jsm_delete p peers)"
  by (simp add: peers_ok_def jsm_get_delete)

lemma entry_ok_transition:
  "config_ok config \<Longrightarrow> s = HalfOpen \<longrightarrow> pe_failureTimestamps e = [] \<Longrightarrow> entry_ok config (transition e s now)"
  by (cases s) (auto simp add: entry_ok_def transition_def config_ok_def)

lemma entry_ok_prune:
  assumes "entry_ok config e" and "pe_state e = Closed"
  shows "entry_ok config (pruneWindow config e now)"
  using assms by (simp add: entry_ok_def pruneWindow_def Let_def)
    (metis le_less_trans length_filter_le of_nat_le_iff)

lemma recordSuccess_ok:
  assumes "config_ok config" and "peers_ok config peers"
  shows "peers_ok config (recordSuccess config now peers p)"
proof (cases "jsm_get peers p")
  case (Some e)
  have e: "entry_ok config e" using peers_okD [OF assms(2) Some] .
  then have "entry_ok config (e\<lparr>pe_halfOpenSuccesses := pe_halfOpenSuccesses e + 1\<rparr>)"
    if "pe_state e = HalfOpen" "pe_halfOpenSuccesses e + 1 < successThreshold config"
    using that by (simp add: entry_ok_def)
  with e Some assms show ?thesis
    by (auto simp add: recordSuccess_def Let_def not_le intro!: peers_ok_set entry_ok_transition entry_ok_prune)
qed (use assms in \<open>simp add: recordSuccess_def\<close>)

lemma recordFailure_ok:
  assumes "config_ok config" and "peers_ok config peers"
  shows "peers_ok config (recordFailure config now peers p)"
proof (cases "jsm_get peers p")
  case None
  then show ?thesis using assms
    by (auto simp add: recordFailure_def Let_def entry_ok_def not_le
        intro!: peers_ok_set entry_ok_transition)
next
  case (Some e)
  have e: "entry_ok config e" using peers_okD [OF assms(2) Some] .
  then have "entry_ok config (e\<lparr>pe_lastFailureAt := now\<rparr>)" if "pe_state e = Open"
    using that by (simp add: entry_ok_def)
  moreover have "entry_ok config (pruneWindow config (e\<lparr>pe_lastFailureAt := now, pe_failureTimestamps := ts\<rparr>) now)"
    if "pe_state e = Closed" "int (length (pe_failureTimestamps (pruneWindow config
        (e\<lparr>pe_lastFailureAt := now, pe_failureTimestamps := ts\<rparr>) now))) < failureThreshold config" for ts
    using that e by (simp add: entry_ok_def pruneWindow_def Let_def)
  ultimately show ?thesis using e Some assms
    by (cases "pe_state e")
      (auto simp add: recordFailure_def Let_def not_le intro!: peers_ok_set entry_ok_transition)
qed

lemma canForward_ok:
  assumes "config_ok config" and "peers_ok config peers"
  shows "peers_ok config (snd (canForward config now peers p))"
proof (cases "jsm_get peers p")
  case (Some e)
  have "entry_ok config e" using peers_okD [OF assms(2) Some] .
  with Some assms show ?thesis
    by (cases "pe_state e")
      (auto simp add: canForward_def entry_ok_def intro!: peers_ok_set entry_ok_transition)
qed (use assms in \<open>simp add: canForward_def\<close>)

lemma getState_ok:
  assumes "peers_ok config peers"
  shows "peers_ok config (snd (getState config now peers p))"
  using assms
  by (auto simp add: getState_def Let_def intro!: peers_ok_set entry_ok_prune dest: peers_okD split: option.split)

lemma call_step_ok: "config_ok config \<Longrightarrow> peers_ok config peers \<Longrightarrow> peers_ok config (call_step config peers c)"
  by (induction config peers c rule: call_step.induct)
    (simp_all add: recordSuccess_ok recordFailure_ok canForward_ok getState_ok reset_def peers_ok_delete)

lemma foldl_ok: "config_ok config \<Longrightarrow> peers_ok config peers \<Longrightarrow> peers_ok config (foldl (call_step config) peers cs)"
  by (induction cs arbitrary: peers) (simp_all add: call_step_ok)

lemma run_calls_ok: "config_ok config \<Longrightarrow> peers_ok config (run_calls config calls)"
  unfolding run_calls_def by (rule foldl_ok) (simp_all add: peers_ok_def)

subsection \<open>Recovery\<close>

text \<open>Successes of a probing peer are counted up to the threshold, which closes the circuit.\<close>

fun record_successes :: "circuit_breaker_config \<Rightarrow> int list \<Rightarrow> peers \<Rightarrow> string \<Rightarrow> peers" where
  "record_successes config [] peers p = peers"
| "record_successes config (now # nows) peers p =
     record_successes config nows (recordSuccess config now peers p) p"

lemma probing_closes:
  assumes "jsm_get peers p = Some e" and "pe_state e = HalfOpen"
    and "nows \<noteq> []" and "pe_halfOpenSuccesses e + int (length nows) = successThreshold config"
  shows "\<exists>e'. jsm_get (record_successes config nows peers p) p = Some e' \<and> pe_state e' = Closed
    \<and> pe_failureTimestamps e' = [] \<and> pe_halfOpenSuccesses e' = 0"
  using assms
proof (induction nows arbitrary: peers e)
  case Nil
  then show ?case by simp
next
  case (Cons now nows)
  show ?case
  proof (cases "nows = []")
    case True
    with Cons.prems show ?thesis by (simp add: recordSuccess_def transition_def Let_def)
  next
    case False
    let ?e = "e\<lparr>pe_halfOpenSuccesses := pe_halfOpenSuccesses e + 1\<rparr>"
    from False have "1 \<le> int (length nows)" by (cases nows) auto
    with Cons.prems have "recordSuccess config now peers p = jsm_set p ?e peers"
      by (simp add: recordSuccess_def Let_def)
    with Cons.IH [of "jsm_set p ?e peers" ?e] Cons.prems False show ?thesis by simp
  qed
qed

subsection \<open>Properties\<close>

text \<open>
  In every state a run of the breaker can reach, a peer with a closed circuit has fewer recorded
  failures than the threshold, an open one has none recorded, and a probing one has counted fewer
  successes than it needs to close.
\<close>
theorem breaker_invariant:
  assumes "config_ok config" and "jsm_get (run_calls config calls) p = Some e"
  shows "(pe_state e = Closed \<longrightarrow> int (length (pe_failureTimestamps e)) < failureThreshold config)
    \<and> (pe_state e = Open \<longrightarrow> pe_failureTimestamps e = [] \<and> pe_halfOpenSuccesses e = 0)
    \<and> (pe_state e = HalfOpen \<longrightarrow> 0 \<le> pe_halfOpenSuccesses e \<and> pe_halfOpenSuccesses e < successThreshold config)"
  using peers_okD [OF run_calls_ok [OF assms(1)] assms(2)] by (auto simp add: entry_ok_def)

text \<open>
  Forwarding to a peer is refused exactly while its circuit is open and the reset timeout has
  not elapsed since it opened; a refusal changes nothing, and a grant leaves the peer closed, probing
  or untracked.
\<close>
theorem can_forward_decision:
  "case canForward config now peers p of (allowed, peers') \<Rightarrow>
     (\<not> allowed) = (\<exists>e. jsm_get peers p = Some e \<and> pe_state e = Open
                      \<and> now - pe_lastStateChangeAt e < resetTimeoutMs config)
     \<and> (if allowed then (\<forall>e. jsm_get peers' p = Some e \<longrightarrow> pe_state e \<noteq> Open) else peers' = peers)"
  by (auto simp add: canForward_def transition_def Let_def not_le intro: circuit_state.exhaust split: option.split)

text \<open>
  (C28) A failing peer is never cut off for good: once the reset timeout has elapsed since its circuit
  opened, the next check admits a probe, and then as many successes as the success threshold close
  the circuit and forget its failures.
\<close>
theorem breaker_recovers:
  assumes "jsm_get peers p = Some e" and "pe_state e = Open"
    and "now - pe_lastStateChangeAt e \<ge> resetTimeoutMs config"
    and "1 \<le> successThreshold config" and "int (length nows) = successThreshold config"
  shows "fst (canForward config now peers p)
    \<and> (\<exists>e'. jsm_get (record_successes config nows (snd (canForward config now peers p)) p) p = Some e'
         \<and> pe_state e' = Closed \<and> pe_failureTimestamps e' = [])"
proof -
  let ?e = "transition e HalfOpen now"
  have c: "canForward config now peers p = (True, jsm_set p ?e peers)"
    using assms(1-3) by (simp add: canForward_def)
  have "nows \<noteq> []" using assms(4,5) by auto
  with probing_closes [of "jsm_set p ?e peers" p ?e nows config] assms(5) c show ?thesis
    by (auto simp add: transition_def Let_def)
qed

subsection \<open>Witnesses\<close>

definition demo_config :: circuit_breaker_config where
  "demo_config = \<lparr> failureThreshold = 2, successThreshold = 2, resetTimeoutMs = 100, windowMs = 50 \<rparr>"

definition demo_calls :: "(int \<times> call) list" where
  "demo_calls = [(0, RecordFailure ''p''), (10, RecordFailure ''p'')]"

lemma demo_open: "\<exists>e. jsm_get (run_calls demo_config demo_calls) ''p'' = Some e \<and> pe_state e = Open
    \<and> pe_lastStateChangeAt e = 10"
  by (simp add: run_calls_def demo_calls_def demo_config_def recordFailure_def pruneWindow_def
      transition_def Let_def)

theorem breaker_invariant_witness:
  "\<exists>e. jsm_get (run_calls demo_config demo_calls) ''p'' = Some e \<and> pe_state e = Open
     \<and> pe_failureTimestamps e = []"
  using demo_open breaker_invariant [of demo_config demo_calls "''p''"]
  by (auto simp add: config_ok_def demo_config_def)

theorem can_forward_decision_witness:
  "fst (canForward demo_config 50 (run_calls demo_config demo_calls) ''p'') = False"
  using can_forward_decision [where config = demo_config and now = 50
      and peers = "run_calls demo_config demo_calls" and p = "''p''"] demo_open
  by (auto simp add: demo_config_def)

theorem breaker_recovers_witness:
  "\<exists>e'. jsm_get (record_successes demo_config [120, 130]
      (snd (canForward demo_config 110 (run_calls demo_config demo_calls) ''p'')) ''p'') ''p'' = Some e'
    \<and> pe_state e' = Closed"
proof -
  obtain e where e: "jsm_get (run_calls demo_config demo_calls) ''p'' = Some e" "pe_state e = Open"
    "pe_lastStateChangeAt e = 10" using demo_open by blast
  show ?thesis
    using breaker_recovers [OF e(1,2), where config = demo_config and now = 110 and nows = "[120, 130]"] e(3)
    by (auto simp add: demo_config_def)
qed

end
