(* ===== verification/Semirings.thy ===== *)
theory Semirings
  imports Complex_Main Prelude
begin

text \<open>
  The algebra of \<open>packages/protocol/src/semiring.ts\<close>: the interface \<open>Semiring<T>\<close> as a record,
  the concrete semirings, and the combinators.
  \<^item> A JavaScript number is the datatype \<open>jsnum\<close>: the two infinities, \<open>NaN\<close> and the finite
    values, which are rationals; finite arithmetic is exact (the rounding of doubles is not
    modelled), the special values follow IEEE 754.
  \<^item> The laws the traversals rely on are the locale \<open>path_semiring\<close>, over a carrier (trust
    scores lie in the unit interval, costs are not negative). It is interpreted on every concrete
    semiring; the product and the mapped semiring inherit it.
\<close>

named_theorems sr_defs \<open>definitions of the concrete semirings and of number arithmetic\<close>

subsection \<open>Numbers\<close>

datatype jsnum = NaN | NInf | Fin rat | PInf

fun num_le :: "jsnum \<Rightarrow> jsnum \<Rightarrow> bool" where
  "num_le NaN _ = False"
| "num_le _ NaN = False"
| "num_le NInf _ = True"
| "num_le _ PInf = True"
| "num_le (Fin x) (Fin y) = (x \<le> y)"
| "num_le _ _ = False"

definition math_max :: "jsnum \<Rightarrow> jsnum \<Rightarrow> jsnum" where
  "math_max a b = (if a = NaN \<or> b = NaN then NaN else if num_le a b then b else a)"

definition math_min :: "jsnum \<Rightarrow> jsnum \<Rightarrow> jsnum" where
  "math_min a b = (if a = NaN \<or> b = NaN then NaN else if num_le a b then a else b)"

fun num_add :: "jsnum \<Rightarrow> jsnum \<Rightarrow> jsnum" where
  "num_add NaN _ = NaN"
| "num_add _ NaN = NaN"
| "num_add (Fin x) (Fin y) = Fin (x + y)"
| "num_add (Fin _) b = b"
| "num_add a (Fin _) = a"
| "num_add PInf PInf = PInf"
| "num_add NInf NInf = NInf"
| "num_add _ _ = NaN"

definition inf_of_sign :: "rat \<Rightarrow> jsnum" where
  "inf_of_sign x = (if x = 0 then NaN else if x > 0 then PInf else NInf)"

fun num_mul :: "jsnum \<Rightarrow> jsnum \<Rightarrow> jsnum" where
  "num_mul NaN _ = NaN"
| "num_mul _ NaN = NaN"
| "num_mul (Fin x) (Fin y) = Fin (x * y)"
| "num_mul (Fin x) PInf = inf_of_sign x"
| "num_mul (Fin x) NInf = inf_of_sign (- x)"
| "num_mul PInf (Fin x) = inf_of_sign x"
| "num_mul NInf (Fin x) = inf_of_sign (- x)"
| "num_mul PInf PInf = PInf"
| "num_mul NInf NInf = PInf"
| "num_mul _ _ = NInf"

subsection \<open>The interface and the concrete semirings\<close>

record 'a semiring_ops =
  sr_zero :: 'a
  sr_one :: 'a
  sr_add :: "'a \<Rightarrow> 'a \<Rightarrow> 'a"
  sr_mul :: "'a \<Rightarrow> 'a \<Rightarrow> 'a"
  sr_eq :: "('a \<Rightarrow> 'a \<Rightarrow> bool) option"

definition sr_equal :: "'a semiring_ops \<Rightarrow> 'a \<Rightarrow> 'a \<Rightarrow> bool" where
  \<comment> \<open>\<open>srEq ? srEq(a, b) : a === b\<close>\<close>
  "sr_equal sr a b = (case sr_eq sr of Some f \<Rightarrow> f a b | None \<Rightarrow> a = b)"

definition TrustSemiring :: "jsnum semiring_ops" where [sr_defs]:
  "TrustSemiring = \<lparr> sr_zero = Fin 0, sr_one = Fin 1, sr_add = math_max, sr_mul = num_mul, sr_eq = None \<rparr>"

definition CostSemiring :: "jsnum semiring_ops" where [sr_defs]:
  "CostSemiring = \<lparr> sr_zero = PInf, sr_one = Fin 0, sr_add = math_min, sr_mul = num_add, sr_eq = None \<rparr>"

definition LatencySemiring :: "jsnum semiring_ops" where [sr_defs]:
  "LatencySemiring = \<lparr> sr_zero = PInf, sr_one = Fin 0, sr_add = math_min, sr_mul = num_add, sr_eq = None \<rparr>"

definition BottleneckSemiring :: "jsnum semiring_ops" where [sr_defs]:
  "BottleneckSemiring = \<lparr> sr_zero = Fin 0, sr_one = PInf, sr_add = math_max, sr_mul = math_min, sr_eq = None \<rparr>"

definition ReliabilitySemiring :: "jsnum semiring_ops" where [sr_defs]:
  "ReliabilitySemiring = \<lparr> sr_zero = Fin 0, sr_one = Fin 1, sr_add = math_max, sr_mul = num_mul, sr_eq = None \<rparr>"

definition RegulatoryRiskSemiring :: "jsnum semiring_ops" where [sr_defs]:
  "RegulatoryRiskSemiring = \<lparr> sr_zero = PInf, sr_one = Fin 0, sr_add = math_min, sr_mul = num_add, sr_eq = None \<rparr>"

definition BooleanSemiring :: "bool semiring_ops" where [sr_defs]:
  "BooleanSemiring = \<lparr> sr_zero = False, sr_one = True, sr_add = (\<lambda>a b. a \<or> b), sr_mul = (\<lambda>a b. a \<and> b), sr_eq = None \<rparr>"

definition MaxProductLogSemiring :: "jsnum semiring_ops" where [sr_defs]:
  "MaxProductLogSemiring = \<lparr> sr_zero = NInf, sr_one = Fin 0, sr_add = math_max, sr_mul = num_add, sr_eq = None \<rparr>"

subsection \<open>Combinators\<close>

definition productSemiring :: "'a semiring_ops \<Rightarrow> 'b semiring_ops \<Rightarrow> ('a \<times> 'b) semiring_ops" where
  "productSemiring sa sb =
     \<lparr> sr_zero = (sr_zero sa, sr_zero sb), sr_one = (sr_one sa, sr_one sb),
       sr_add = (\<lambda>x y. (sr_add sa (fst x) (fst y), sr_add sb (snd x) (snd y))),
       sr_mul = (\<lambda>x y. (sr_mul sa (fst x) (fst y), sr_mul sb (snd x) (snd y))),
       sr_eq = Some (\<lambda>x y. sr_equal sa (fst x) (fst y) \<and> sr_equal sb (snd x) (snd y)) \<rparr>"

definition mappedSemiring :: "'a semiring_ops \<Rightarrow> ('a \<Rightarrow> 'b) \<Rightarrow> ('b \<Rightarrow> 'a) \<Rightarrow> 'b semiring_ops" where
  "mappedSemiring base to from =
     \<lparr> sr_zero = to (sr_zero base), sr_one = to (sr_one base),
       sr_add = (\<lambda>a b. to (sr_add base (from a) (from b))),
       sr_mul = (\<lambda>a b. to (sr_mul base (from a) (from b))),
       sr_eq = Some (\<lambda>a b. sr_equal base (from a) (from b)) \<rparr>"

text \<open>
  A record value of the record semiring is its map from field names; \<open>flds\<close> lists the fields
  in key order, all over one value type (every record semiring of the sources has numeric fields).
\<close>

definition record_field :: "(string, 'a) jsmap \<Rightarrow> string \<Rightarrow> 'a" where
  "record_field a k = the (jsm_get a k)"

definition recordSemiring :: "(string, 'a semiring_ops) jsmap \<Rightarrow> ((string, 'a) jsmap) semiring_ops" where
  "recordSemiring flds =
     \<lparr> sr_zero = map (\<lambda>(k, f). (k, sr_zero f)) flds,
       sr_one = map (\<lambda>(k, f). (k, sr_one f)) flds,
       sr_add = (\<lambda>a b. map (\<lambda>(k, f). (k, sr_add f (record_field a k) (record_field b k))) flds),
       sr_mul = (\<lambda>a b. map (\<lambda>(k, f). (k, sr_mul f (record_field a k) (record_field b k))) flds),
       sr_eq = Some (\<lambda>a b. list_all (\<lambda>(k, f). sr_equal f (record_field a k) (record_field b k)) flds) \<rparr>"

subsection \<open>The laws of path algebra\<close>

locale path_semiring =
  fixes sr :: "'a semiring_ops" and carrier :: "'a set"
  assumes zero_in [simp, intro]: "sr_zero sr \<in> carrier"
    and one_in [simp, intro]: "sr_one sr \<in> carrier"
    and add_in [simp, intro]: "a \<in> carrier \<Longrightarrow> b \<in> carrier \<Longrightarrow> sr_add sr a b \<in> carrier"
    and mul_in [simp, intro]: "a \<in> carrier \<Longrightarrow> b \<in> carrier \<Longrightarrow> sr_mul sr a b \<in> carrier"
    and add_assoc: "a \<in> carrier \<Longrightarrow> b \<in> carrier \<Longrightarrow> c \<in> carrier \<Longrightarrow>
      sr_add sr (sr_add sr a b) c = sr_add sr a (sr_add sr b c)"
    and add_comm: "a \<in> carrier \<Longrightarrow> b \<in> carrier \<Longrightarrow> sr_add sr a b = sr_add sr b a"
    and add_idem [simp]: "a \<in> carrier \<Longrightarrow> sr_add sr a a = a"
    and zero_add [simp]: "a \<in> carrier \<Longrightarrow> sr_add sr (sr_zero sr) a = a"
    and mul_assoc: "a \<in> carrier \<Longrightarrow> b \<in> carrier \<Longrightarrow> c \<in> carrier \<Longrightarrow>
      sr_mul sr (sr_mul sr a b) c = sr_mul sr a (sr_mul sr b c)"
    and one_mul [simp]: "a \<in> carrier \<Longrightarrow> sr_mul sr (sr_one sr) a = a"
    and mul_one [simp]: "a \<in> carrier \<Longrightarrow> sr_mul sr a (sr_one sr) = a"
    and mul_zero [simp]: "a \<in> carrier \<Longrightarrow> sr_mul sr a (sr_zero sr) = sr_zero sr"
    and zero_mul [simp]: "a \<in> carrier \<Longrightarrow> sr_mul sr (sr_zero sr) a = sr_zero sr"
    and distrib_left: "a \<in> carrier \<Longrightarrow> b \<in> carrier \<Longrightarrow> c \<in> carrier \<Longrightarrow>
      sr_mul sr a (sr_add sr b c) = sr_add sr (sr_mul sr a b) (sr_mul sr a c)"
    and distrib_right: "a \<in> carrier \<Longrightarrow> b \<in> carrier \<Longrightarrow> c \<in> carrier \<Longrightarrow>
      sr_mul sr (sr_add sr a b) c = sr_add sr (sr_mul sr a c) (sr_mul sr b c)"
    and absorb: "a \<in> carrier \<Longrightarrow> sr_add sr a (sr_one sr) = sr_one sr"
    and eq_iff: "a \<in> carrier \<Longrightarrow> b \<in> carrier \<Longrightarrow> sr_equal sr a b \<longleftrightarrow> a = b"
begin

text \<open>The order of choice: \<open>b\<close> is at least as good as \<open>a\<close>.\<close>

definition below :: "'a \<Rightarrow> 'a \<Rightarrow> bool" where
  "below a b \<longleftrightarrow> sr_add sr a b = b"

lemma below_refl [simp]: "a \<in> carrier \<Longrightarrow> below a a"
  by (simp add: below_def)

lemma below_trans:
  assumes "a \<in> carrier" "b \<in> carrier" "c \<in> carrier" "below a b" "below b c"
  shows "below a c"
  using assms add_assoc [of a b c] by (simp add: below_def)

lemma below_antisym: "a \<in> carrier \<Longrightarrow> b \<in> carrier \<Longrightarrow> below a b \<Longrightarrow> below b a \<Longrightarrow> a = b"
  using add_comm [of a b] by (simp add: below_def)

lemma zero_below [simp]: "a \<in> carrier \<Longrightarrow> below (sr_zero sr) a"
  by (simp add: below_def)

lemma below_one: "a \<in> carrier \<Longrightarrow> below a (sr_one sr)"
  by (simp add: below_def absorb)

lemma below_add1: "a \<in> carrier \<Longrightarrow> b \<in> carrier \<Longrightarrow> below a (sr_add sr a b)"
  by (simp add: below_def add_assoc [symmetric])

lemma below_add2: "a \<in> carrier \<Longrightarrow> b \<in> carrier \<Longrightarrow> below b (sr_add sr a b)"
  using below_add1 [of b a] add_comm [of a b] by simp

lemma add_least: "a \<in> carrier \<Longrightarrow> b \<in> carrier \<Longrightarrow> c \<in> carrier \<Longrightarrow> below a c \<Longrightarrow> below b c \<Longrightarrow>
    below (sr_add sr a b) c"
  by (simp add: below_def add_assoc)

lemma below_zero_iff: "a \<in> carrier \<Longrightarrow> below a (sr_zero sr) \<longleftrightarrow> a = sr_zero sr"
  using below_antisym [of a "sr_zero sr"] by auto

lemma mul_mono_left: "a \<in> carrier \<Longrightarrow> b \<in> carrier \<Longrightarrow> c \<in> carrier \<Longrightarrow> below a b \<Longrightarrow>
    below (sr_mul sr a c) (sr_mul sr b c)"
  by (simp add: below_def distrib_right [symmetric])

lemma mul_mono_right: "a \<in> carrier \<Longrightarrow> b \<in> carrier \<Longrightarrow> c \<in> carrier \<Longrightarrow> below b c \<Longrightarrow>
    below (sr_mul sr a b) (sr_mul sr a c)"
  by (simp add: below_def distrib_left [symmetric])

lemma cycle_below: "a \<in> carrier \<Longrightarrow> c \<in> carrier \<Longrightarrow> b \<in> carrier \<Longrightarrow>
    below (sr_mul sr a (sr_mul sr c b)) (sr_mul sr a b)"
  using mul_mono_right [of a "sr_mul sr c b" b] mul_mono_left [of c "sr_one sr" b] below_one [of c] by simp

end

subsection \<open>The concrete semirings satisfy them\<close>

definition unit_carrier :: "jsnum set" where
  "unit_carrier = {Fin x | x. 0 \<le> x \<and> x \<le> 1}"

definition cost_carrier :: "jsnum set" where
  "cost_carrier = insert PInf {Fin x | x. 0 \<le> x}"

definition log_carrier :: "jsnum set" where
  "log_carrier = insert NInf {Fin x | x. x \<le> 0}"

lemmas num_defs = math_max_def math_min_def sr_equal_def

lemma Fin_carrier [simp]:
  "Fin x \<in> unit_carrier \<longleftrightarrow> 0 \<le> x \<and> x \<le> 1"
  "Fin x \<in> cost_carrier \<longleftrightarrow> 0 \<le> x"
  "Fin x \<in> log_carrier \<longleftrightarrow> x \<le> 0"
  by (simp_all add: unit_carrier_def cost_carrier_def log_carrier_def)

lemma math_max_Fin: "math_max (Fin x) (Fin y) = Fin (max x y)"
  by (simp add: math_max_def max_def)

lemma unit_carrier_iff: "a \<in> unit_carrier \<longleftrightarrow> (\<exists>x. a = Fin x \<and> 0 \<le> x \<and> x \<le> 1)"
  by (auto simp add: unit_carrier_def)

interpretation trust: path_semiring TrustSemiring unit_carrier
proof unfold_locales
  fix a b c assume "a \<in> unit_carrier" "b \<in> unit_carrier" "c \<in> unit_carrier"
  then obtain x y z where xyz: "a = Fin x" "0 \<le> x" "x \<le> 1" "b = Fin y" "0 \<le> y" "y \<le> 1"
    "c = Fin z" "0 \<le> z" "z \<le> 1" by (auto simp add: unit_carrier_iff)
  show "sr_add TrustSemiring (sr_add TrustSemiring a b) c = sr_add TrustSemiring a (sr_add TrustSemiring b c)"
    using xyz by (simp add: sr_defs math_max_Fin max.assoc)
  show "sr_mul TrustSemiring (sr_mul TrustSemiring a b) c = sr_mul TrustSemiring a (sr_mul TrustSemiring b c)"
    using xyz by (simp add: sr_defs)
  show "sr_mul TrustSemiring a (sr_add TrustSemiring b c)
      = sr_add TrustSemiring (sr_mul TrustSemiring a b) (sr_mul TrustSemiring a c)"
    using xyz by (simp add: sr_defs math_max_Fin max_mult_distrib_left)
  show "sr_mul TrustSemiring (sr_add TrustSemiring a b) c
      = sr_add TrustSemiring (sr_mul TrustSemiring a c) (sr_mul TrustSemiring b c)"
    using xyz by (simp add: sr_defs math_max_Fin max_mult_distrib_right)
qed (auto simp add: sr_defs unit_carrier_iff math_max_Fin sr_equal_def mult_le_one max_def)

interpretation boolean: path_semiring BooleanSemiring UNIV
  by unfold_locales (auto simp add: sr_defs sr_equal_def)

interpretation cost: path_semiring CostSemiring cost_carrier
  by unfold_locales (auto simp add: sr_defs cost_carrier_def num_defs)

interpretation bottleneck: path_semiring BottleneckSemiring cost_carrier
  by unfold_locales (auto simp add: sr_defs cost_carrier_def num_defs)

interpretation logprob: path_semiring MaxProductLogSemiring log_carrier
  by unfold_locales (auto simp add: sr_defs log_carrier_def num_defs)

lemma latency_is_cost: "LatencySemiring = CostSemiring"
  by (simp add: sr_defs)

lemma risk_is_cost: "RegulatoryRiskSemiring = CostSemiring"
  by (simp add: sr_defs)

lemma reliability_is_trust: "ReliabilitySemiring = TrustSemiring"
  by (simp add: sr_defs)

interpretation latency: path_semiring LatencySemiring cost_carrier
  unfolding latency_is_cost by (rule cost.path_semiring_axioms)

interpretation risk: path_semiring RegulatoryRiskSemiring cost_carrier
  unfolding risk_is_cost by (rule cost.path_semiring_axioms)

interpretation reliability: path_semiring ReliabilitySemiring unit_carrier
  unfolding reliability_is_trust by (rule trust.path_semiring_axioms)

subsection \<open>The combinators keep them\<close>

lemma productSemiring_sel [simp]:
  "sr_zero (productSemiring sa sb) = (sr_zero sa, sr_zero sb)"
  "sr_one (productSemiring sa sb) = (sr_one sa, sr_one sb)"
  "sr_add (productSemiring sa sb) x y = (sr_add sa (fst x) (fst y), sr_add sb (snd x) (snd y))"
  "sr_mul (productSemiring sa sb) x y = (sr_mul sa (fst x) (fst y), sr_mul sb (snd x) (snd y))"
  "sr_equal (productSemiring sa sb) x y \<longleftrightarrow> sr_equal sa (fst x) (fst y) \<and> sr_equal sb (snd x) (snd y)"
  by (simp_all add: productSemiring_def sr_equal_def)

lemma path_semiring_product:
  assumes "path_semiring sa A" and "path_semiring sb B"
  shows "path_semiring (productSemiring sa sb) (A \<times> B)"
proof -
  note a = assms(1) [unfolded path_semiring_def] and b = assms(2) [unfolded path_semiring_def]
  show ?thesis
    by unfold_locales (use a b in \<open>auto simp add: prod_eq_iff\<close>)
qed

lemma mappedSemiring_sel [simp]:
  "sr_zero (mappedSemiring base to fro) = to (sr_zero base)"
  "sr_one (mappedSemiring base to fro) = to (sr_one base)"
  "sr_add (mappedSemiring base to fro) x y = to (sr_add base (fro x) (fro y))"
  "sr_mul (mappedSemiring base to fro) x y = to (sr_mul base (fro x) (fro y))"
  "sr_equal (mappedSemiring base to fro) x y \<longleftrightarrow> sr_equal base (fro x) (fro y)"
  by (simp_all add: mappedSemiring_def sr_equal_def)

text \<open>An isomorphism carries the laws to the image of the carrier.\<close>

lemma path_semiring_mapped:
  assumes "path_semiring base A" and "\<And>a. a \<in> A \<Longrightarrow> fro (to a) = a"
  shows "path_semiring (mappedSemiring base to fro) (to ` A)"
proof -
  note r = path_semiring.zero_in path_semiring.one_in path_semiring.add_in path_semiring.mul_in
    path_semiring.add_idem path_semiring.zero_add path_semiring.mul_assoc path_semiring.one_mul
    path_semiring.mul_one path_semiring.mul_zero path_semiring.zero_mul path_semiring.distrib_left
    path_semiring.distrib_right path_semiring.absorb path_semiring.eq_iff
  note l = r [OF assms(1)]
  have inj: "to x = to y \<longleftrightarrow> x = y" if "x \<in> A" "y \<in> A" for x y
    using that assms(2) by metis
  show ?thesis
    by (unfold_locales; (elim imageE)?)
      (simp_all add: l inj assms(2) path_semiring.add_assoc [OF assms(1)],
        simp add: path_semiring.add_comm [OF assms(1)])
qed

subsection \<open>Properties\<close>

text \<open>
  Combining two routing concerns with the product semiring is again a path algebra whenever the
  parts are: one traversal over the product optimises both at once and detects convergence exactly,
  since the product's equality is equality.
\<close>
theorem trust_cost_product_laws:
  assumes "a \<in> unit_carrier \<times> cost_carrier" and "b \<in> unit_carrier \<times> cost_carrier"
    and "c \<in> unit_carrier \<times> cost_carrier"
  shows "let sr = productSemiring TrustSemiring CostSemiring in
     sr_mul sr a (sr_add sr b c) = sr_add sr (sr_mul sr a b) (sr_mul sr a c)
   \<and> sr_mul sr (sr_mul sr a b) c = sr_mul sr a (sr_mul sr b c)
   \<and> sr_add sr a b = sr_add sr b a \<and> sr_add sr (sr_add sr a b) c = sr_add sr a (sr_add sr b c)
   \<and> sr_mul sr a (sr_zero sr) = sr_zero sr \<and> sr_add sr a (sr_one sr) = sr_one sr
   \<and> (sr_equal sr a b \<longleftrightarrow> a = b)"
proof -
  note p = path_semiring_product [OF trust.path_semiring_axioms cost.path_semiring_axioms]
  note l = path_semiring.distrib_left [OF p] path_semiring.mul_assoc [OF p] path_semiring.add_comm [OF p]
    path_semiring.add_assoc [OF p] path_semiring.mul_zero [OF p] path_semiring.absorb [OF p]
    path_semiring.eq_iff [OF p]
  show ?thesis
    unfolding Let_def by (intro conjI) (rule l; fact assms)+
qed

theorem trust_cost_product_laws_witness:
  "let sr = productSemiring TrustSemiring CostSemiring in
     sr_mul sr (Fin (1/2), Fin 3) (sr_add sr (Fin 1, Fin 4) (Fin (1/4), Fin 2))
       = sr_add sr (sr_mul sr (Fin (1/2), Fin 3) (Fin 1, Fin 4)) (sr_mul sr (Fin (1/2), Fin 3) (Fin (1/4), Fin 2))"
proof -
  have "(Fin (1/2), Fin 3) \<in> unit_carrier \<times> cost_carrier" "(Fin 1, Fin 4) \<in> unit_carrier \<times> cost_carrier"
    "(Fin (1/4), Fin 2) \<in> unit_carrier \<times> cost_carrier"
    by simp_all
  from trust_cost_product_laws [OF this] show ?thesis by (simp add: Let_def del: productSemiring_sel)
qed

end
