(* ===== verification/Digraph.thy ===== *)
theory Digraph
  imports Semirings
begin

text \<open>
  The class \<open>WeightedDigraph\<close> of \<open>packages/protocol/src/graph.ts\<close>: adjacency maps and a node
  set, both in insertion order, with one definition per method. The invariant \<open>graph_wf\<close> says
  that every node has an adjacency map and every edge ends in a node; every mutating method keeps
  it. \<open>Traversal\<close> builds on it.
\<close>

subsection \<open>The class\<close>

record 'a digraph =
  g_semiring :: "'a semiring_ops"
  g_adj :: "(string, (string, 'a) jsmap) jsmap"
  g_nodes :: "string list"

definition newDigraph :: "'a semiring_ops \<Rightarrow> 'a digraph" where
  "newDigraph sr = \<lparr> g_semiring = sr, g_adj = [], g_nodes = [] \<rparr>"

definition set_add :: "string \<Rightarrow> string list \<Rightarrow> string list" where
  \<comment> \<open>\<open>Set.prototype.add\<close>, in insertion order\<close>
  "set_add x xs = (if x \<in> set xs then xs else xs @ [x])"

definition addNode :: "'a digraph \<Rightarrow> string \<Rightarrow> 'a digraph" where
  "addNode g i =
     (let g = g\<lparr>g_nodes := set_add i (g_nodes g)\<rparr>
      in if jsm_has (g_adj g) i then g else g\<lparr>g_adj := jsm_set i [] (g_adj g)\<rparr>)"

definition put_neighbor :: "'a digraph \<Rightarrow> string \<Rightarrow> string \<Rightarrow> ('a option \<Rightarrow> 'a) \<Rightarrow> 'a digraph" where
  \<comment> \<open>\<open>_adj.get(from)!.set(to, ...)\<close>, the new weight from the old one\<close>
  "put_neighbor g from to f =
     (let neighbors = the (jsm_get (g_adj g) from)
      in g\<lparr>g_adj := jsm_set from (jsm_set to (f (jsm_get neighbors to)) neighbors) (g_adj g)\<rparr>)"

definition addEdge :: "'a digraph \<Rightarrow> string \<Rightarrow> string \<Rightarrow> 'a \<Rightarrow> 'a digraph" where
  "addEdge g from to weight =
     (let g = addNode g from; g = addNode g to
      in put_neighbor g from to (\<lambda>existing. case existing of
           Some w \<Rightarrow> sr_add (g_semiring g) w weight | None \<Rightarrow> weight))"

definition setEdge :: "'a digraph \<Rightarrow> string \<Rightarrow> string \<Rightarrow> 'a \<Rightarrow> 'a digraph" where
  "setEdge g from to weight =
     (let g = addNode g from; g = addNode g to in put_neighbor g from to (\<lambda>_. weight))"

definition removeEdge :: "'a digraph \<Rightarrow> string \<Rightarrow> string \<Rightarrow> 'a digraph" where
  "removeEdge g from to =
     (case jsm_get (g_adj g) from of
        None \<Rightarrow> g
      | Some neighbors \<Rightarrow> g\<lparr>g_adj := jsm_set from (jsm_delete to neighbors) (g_adj g)\<rparr>)"

definition removeNode :: "'a digraph \<Rightarrow> string \<Rightarrow> 'a digraph" where
  "removeNode g i =
     g\<lparr>g_nodes := filter (\<lambda>n. n \<noteq> i) (g_nodes g),
       g_adj := map (\<lambda>(n, neighbors). (n, jsm_delete i neighbors)) (jsm_delete i (g_adj g))\<rparr>"

definition hasNode :: "'a digraph \<Rightarrow> string \<Rightarrow> bool" where
  "hasNode g i \<longleftrightarrow> i \<in> set (g_nodes g)"

definition hasEdge :: "'a digraph \<Rightarrow> string \<Rightarrow> string \<Rightarrow> bool" where
  "hasEdge g from to =
     (case jsm_get (g_adj g) from of Some neighbors \<Rightarrow> jsm_has neighbors to | None \<Rightarrow> False)"

definition getEdge :: "'a digraph \<Rightarrow> string \<Rightarrow> string \<Rightarrow> 'a" where
  "getEdge g from to =
     (case jsm_get (g_adj g) from of
        Some neighbors \<Rightarrow> (case jsm_get neighbors to of Some w \<Rightarrow> w | None \<Rightarrow> sr_zero (g_semiring g))
      | None \<Rightarrow> sr_zero (g_semiring g))"

definition nodeCount :: "'a digraph \<Rightarrow> nat" where
  "nodeCount g = length (g_nodes g)"

definition neighbors :: "'a digraph \<Rightarrow> string \<Rightarrow> (string, 'a) jsmap" where
  "neighbors g i = (case jsm_get (g_adj g) i of Some m \<Rightarrow> m | None \<Rightarrow> [])"

definition edges :: "'a digraph \<Rightarrow> (string \<times> string \<times> 'a) list" where
  "edges g = concat (map (\<lambda>(from, ns). map (\<lambda>(to, weight). (from, to, weight)) ns) (g_adj g))"

definition edgeCount :: "'a digraph \<Rightarrow> nat" where
  "edgeCount g = foldl (\<lambda>count ns. count + length ns) 0 (jsm_values (g_adj g))"

subsection \<open>Well-formedness\<close>

definition edge :: "'a digraph \<Rightarrow> string \<Rightarrow> string \<Rightarrow> 'a \<Rightarrow> bool" where
  "edge g u v w \<longleftrightarrow> jsm_get (neighbors g u) v = Some w"

definition graph_wf :: "'a set \<Rightarrow> 'a digraph \<Rightarrow> bool" where
  "graph_wf carrier g \<longleftrightarrow> distinct (g_nodes g) \<and> jsm_wf (g_adj g)
     \<and> set (jsm_keys (g_adj g)) = set (g_nodes g)
     \<and> (\<forall>u. jsm_wf (neighbors g u))
     \<and> (\<forall>u v w. edge g u v w \<longrightarrow> v \<in> set (g_nodes g) \<and> w \<in> carrier)"

lemma neighbors_simps [simp]:
  "neighbors (g\<lparr>g_nodes := ns\<rparr>) u = neighbors g u"
  "neighbors (g\<lparr>g_adj := jsm_set v m (g_adj g)\<rparr>) u = (if u = v then m else neighbors g u)"
  by (simp_all add: neighbors_def jsm_get_set)

lemma graph_wf_new: "graph_wf carrier (newDigraph sr)"
  by (simp add: graph_wf_def newDigraph_def neighbors_def edge_def jsm_keys_def)

lemma set_set_add [simp]: "set (set_add x xs) = insert x (set xs)"
  by (auto simp add: set_add_def)

lemma distinct_set_add [simp]: "distinct xs \<Longrightarrow> distinct (set_add x xs)"
  by (simp add: set_add_def)

lemma neighbors_addNode [simp]: "neighbors (addNode g i) u = neighbors g u"
  by (auto simp add: addNode_def Let_def neighbors_def jsm_get_set jsm_has_iff split: option.split)

lemma nodes_addNode [simp]: "set (g_nodes (addNode g i)) = insert i (set (g_nodes g))"
  by (simp add: addNode_def Let_def)

lemma semiring_addNode [simp]: "g_semiring (addNode g i) = g_semiring g"
  by (simp add: addNode_def Let_def)

lemma adj_addNode:
  "jsm_get (g_adj (addNode g i)) u = (if u = i then Some (neighbors g i) else jsm_get (g_adj g) u)"
  by (auto simp add: addNode_def Let_def jsm_get_set neighbors_def jsm_has_iff split: option.splits)

lemma keys_jsm_set: "set (jsm_keys (jsm_set k v m)) = insert k (set (jsm_keys m))"
  by (auto simp add: jsm_keys_set jsm_keys_iff)

lemma graph_wf_addNode:
  assumes "graph_wf carrier g"
  shows "graph_wf carrier (addNode g i)"
proof -
  have "distinct (g_nodes (addNode g i)) \<and> jsm_wf (g_adj (addNode g i))"
    using assms by (simp add: graph_wf_def addNode_def Let_def)
  moreover have "set (jsm_keys (g_adj (addNode g i))) = insert i (set (jsm_keys (g_adj g)))"
    by (auto simp add: addNode_def Let_def keys_jsm_set jsm_keys_iff)
  ultimately show ?thesis using assms by (auto simp add: graph_wf_def edge_def)
qed

lemma graph_wf_put_neighbor:
  assumes "graph_wf carrier g" and "u \<in> set (g_nodes g)" and "v \<in> set (g_nodes g)"
    and "\<And>x. edge g u v x \<Longrightarrow> f (Some x) \<in> carrier" and "f None \<in> carrier"
  shows "graph_wf carrier (put_neighbor g u v f)"
proof -
  from assms(1,2) have "jsm_has (g_adj g) u"
    by (metis graph_wf_def jsm_keys_iff)
  then have n: "the (jsm_get (g_adj g) u) = neighbors g u"
    by (auto simp add: neighbors_def jsm_has_iff)
  have f: "f (jsm_get (neighbors g u) v) \<in> carrier"
    using assms(4,5) by (cases "jsm_get (neighbors g u) v") (simp_all add: edge_def)
  show ?thesis using assms(1-3) f
    by (auto simp add: graph_wf_def put_neighbor_def Let_def n keys_jsm_set edge_def jsm_get_set
        split: if_splits)
qed

lemma graph_wf_addEdge:
  assumes "graph_wf carrier g" and "w \<in> carrier"
    and "\<And>a b. a \<in> carrier \<Longrightarrow> b \<in> carrier \<Longrightarrow> sr_add (g_semiring g) a b \<in> carrier"
  shows "graph_wf carrier (addEdge g u v w)"
  unfolding addEdge_def Let_def using assms
  by (intro graph_wf_put_neighbor graph_wf_addNode) (auto simp add: edge_def graph_wf_def)

lemma graph_wf_setEdge:
  "graph_wf carrier g \<Longrightarrow> w \<in> carrier \<Longrightarrow> graph_wf carrier (setEdge g u v w)"
  unfolding setEdge_def Let_def by (intro graph_wf_put_neighbor graph_wf_addNode) auto

lemma graph_wf_removeEdge: "graph_wf carrier g \<Longrightarrow> graph_wf carrier (removeEdge g u v)"
  by (auto simp add: graph_wf_def removeEdge_def edge_def keys_jsm_set jsm_get_delete jsm_keys_iff
      jsm_has_iff neighbors_def jsm_get_set split: option.splits if_splits)

lemma jsm_delete_empty: "jsm_delete k [] = []"
  by (simp add: jsm_delete_def)

lemma neighbors_removeNode:
  "neighbors (removeNode g i) u = (if u = i then [] else jsm_delete i (neighbors g u))"
  by (auto simp add: neighbors_def removeNode_def jsm_get_map_snd jsm_get_delete
      jsm_delete_empty split: option.split)

lemma graph_wf_removeNode:
  assumes "graph_wf carrier g"
  shows "graph_wf carrier (removeNode g i)"
proof -
  have "map fst (g_adj (removeNode g i)) = filter (\<lambda>n. n \<noteq> i) (map fst (g_adj g))"
    by (simp add: removeNode_def jsm_delete_def comp_def case_prod_beta delete_keys removeAll_filter_not_eq
        eq_commute [of i])
  then have "jsm_wf (g_adj (removeNode g i)) \<and> set (jsm_keys (g_adj (removeNode g i))) = set (g_nodes (removeNode g i))"
    using assms by (auto simp add: graph_wf_def jsm_wf_def jsm_keys_def removeNode_def)
  then show ?thesis using assms
    by (auto simp add: graph_wf_def neighbors_removeNode edge_def jsm_get_delete split: if_splits)
      (auto simp add: removeNode_def)
qed

lemma edge_addEdge:
  "getEdge (addEdge g u v w) a b =
     (if a = u \<and> b = v then (if hasEdge g u v then sr_add (g_semiring g) (getEdge g u v) w else w)
      else getEdge g a b)"
proof -
  have g: "getEdge h a b = (case jsm_get (neighbors h a) b of Some w \<Rightarrow> w | None \<Rightarrow> sr_zero (g_semiring h))" for h :: "'a digraph" and a b
    by (simp add: getEdge_def neighbors_def split: option.split)
  have h: "hasEdge h a b \<longleftrightarrow> (\<exists>x. jsm_get (neighbors h a) b = Some x)" for h :: "'a digraph" and a b
    by (auto simp add: hasEdge_def neighbors_def jsm_has_iff split: option.split)
  show ?thesis
    by (auto simp add: g h addEdge_def Let_def put_neighbor_def adj_addNode jsm_get_set split: option.split)
qed

end
