(* ===== verification/Traversal.thy ===== *)
theory Traversal
  imports Digraph
begin

text \<open>
  Single-source optimal paths over an arbitrary semiring, \<open>optimalPaths\<close> and \<open>optimalPath\<close> of
  \<open>packages/protocol/src/traversal.ts\<close>: the relaxation loops are structural recursions, with the
  early exit of the outer loop. Walks and their weights are the specification. In the locale
  \<open>routing\<close>, over any path semiring and any well-formed graph, the value at a node is an upper bound
  of the weights of all walks to it and a finite sum of such weights, hence their least upper bound.
\<close>

subsection \<open>The algorithm\<close>

type_synonym 'a distances = "(string, 'a) jsmap"

fun relax_neighbors :: "'a semiring_ops \<Rightarrow> 'a \<Rightarrow> (string, 'a) jsmap \<Rightarrow> 'a distances \<times> bool \<Rightarrow> 'a distances \<times> bool" where
  "relax_neighbors sr dNode [] (dists, changed) = (dists, changed)"
| "relax_neighbors sr dNode ((neighbor, weight) # rest) (dists, changed) =
     (let candidate = sr_mul sr dNode weight;
          current = the (jsm_get dists neighbor);
          combined = sr_add sr current candidate
      in if \<not> sr_equal sr combined current
         then relax_neighbors sr dNode rest (jsm_set neighbor combined dists, True)
         else relax_neighbors sr dNode rest (dists, changed))"

fun relax_nodes :: "'a digraph \<Rightarrow> string list \<Rightarrow> 'a distances \<times> bool \<Rightarrow> 'a distances \<times> bool" where
  "relax_nodes g [] (dists, changed) = (dists, changed)"
| "relax_nodes g (node # rest) (dists, changed) =
     (let dNode = the (jsm_get dists node)
      in if sr_equal (g_semiring g) dNode (sr_zero (g_semiring g))
         then relax_nodes g rest (dists, changed)
         else relax_nodes g rest (relax_neighbors (g_semiring g) dNode (neighbors g node) (dists, changed)))"

fun relax_rounds :: "'a digraph \<Rightarrow> nat \<Rightarrow> 'a distances \<Rightarrow> 'a distances" where
  "relax_rounds g 0 dists = dists"
| "relax_rounds g (Suc i) dists =
     (let (dists, changed) = relax_nodes g (g_nodes g) (dists, False)
      in if \<not> changed then dists else relax_rounds g i dists)"

definition initial_distances :: "'a digraph \<Rightarrow> string \<Rightarrow> 'a distances" where
  "initial_distances g source =
     jsm_set source (sr_one (g_semiring g))
       (foldl (\<lambda>dists node. jsm_set node (sr_zero (g_semiring g)) dists) [] (g_nodes g))"

definition optimalPaths :: "'a digraph \<Rightarrow> string \<Rightarrow> 'a distances" where
  "optimalPaths g source = relax_rounds g (length (g_nodes g) - 1) (initial_distances g source)"

definition optimalPath :: "'a digraph \<Rightarrow> string \<Rightarrow> string \<Rightarrow> 'a" where
  "optimalPath g source target =
     (case jsm_get (optimalPaths g source) target of
        Some v \<Rightarrow> v | None \<Rightarrow> sr_zero (g_semiring g))"

subsection \<open>What every value of the result inherits\<close>

definition dist_all :: "'a digraph \<Rightarrow> (string \<Rightarrow> 'a \<Rightarrow> bool) \<Rightarrow> 'a distances \<Rightarrow> bool" where
  "dist_all g Q d \<longleftrightarrow> (\<forall>v \<in> set (g_nodes g). jsm_has d v) \<and> (\<forall>v a. jsm_get d v = Some a \<longrightarrow> Q v a)"

lemma dist_all_relax_neighbors:
  assumes "graph_wf UNIV g" and "\<And>v a b. Q v a \<Longrightarrow> Q v b \<Longrightarrow> Q v (sr_add (g_semiring g) a b)"
    and "\<And>u v a w. Q u a \<Longrightarrow> edge g u v w \<Longrightarrow> Q v (sr_mul (g_semiring g) a w)" and "Q u a"
  shows "\<lbrakk>\<And>v w. (v, w) \<in> set es \<Longrightarrow> edge g u v w; dist_all g Q d;
      relax_neighbors (g_semiring g) a es (d, c) = (d', c')\<rbrakk> \<Longrightarrow> dist_all g Q d'"
proof (induction es arbitrary: d c)
  case (Cons e es)
  obtain v w where e: "e = (v, w)" by (cases e)
  let ?new = "sr_add (g_semiring g) (the (jsm_get d v)) (sr_mul (g_semiring g) a w)"
  have ed: "edge g u v w" using Cons.prems(1) e by simp
  then have "v \<in> set (g_nodes g)" using assms(1) unfolding graph_wf_def by blast
  then obtain b where "jsm_get d v = Some b" "Q v b"
    using Cons.prems(2) by (auto simp add: dist_all_def jsm_has_iff)
  then have "Q v ?new" using assms(2,3,4) ed by simp
  then have "dist_all g Q (jsm_set v ?new d)"
    using Cons.prems(2) by (auto simp add: dist_all_def jsm_has_iff jsm_get_set)
  with Cons e show ?case by (simp add: Let_def split: if_splits)
qed simp

lemma dist_all_relax_nodes:
  assumes "graph_wf UNIV g" and "\<And>v a b. Q v a \<Longrightarrow> Q v b \<Longrightarrow> Q v (sr_add (g_semiring g) a b)"
    and "\<And>u v a w. Q u a \<Longrightarrow> edge g u v w \<Longrightarrow> Q v (sr_mul (g_semiring g) a w)"
  shows "set ns \<subseteq> set (g_nodes g) \<Longrightarrow> dist_all g Q d \<Longrightarrow> relax_nodes g ns (d, c) = (d', c') \<Longrightarrow> dist_all g Q d'"
proof (induction ns arbitrary: d c)
  case (Cons u ns)
  obtain e ce where r: "relax_neighbors (g_semiring g) (the (jsm_get d u)) (neighbors g u) (d, c) = (e, ce)"
    by fastforce
  have "Q u (the (jsm_get d u))" using Cons.prems(1,2) by (auto simp add: dist_all_def jsm_has_iff)
  moreover have "edge g u v w" if "(v, w) \<in> set (neighbors g u)" for v w
    using that assms(1) by (simp add: edge_def graph_wf_def jsm_in_set_iff)
  ultimately have "dist_all g Q e"
    using dist_all_relax_neighbors [of g Q u "the (jsm_get d u)" "neighbors g u" d c e ce] assms Cons.prems(2) r
    by blast
  with Cons r show ?case by (auto simp add: Let_def split: if_splits)
qed simp

lemma optimalPaths_all:
  assumes "graph_wf UNIV g" and "Q source (sr_one (g_semiring g))" and "\<And>v. Q v (sr_zero (g_semiring g))"
    and "\<And>v a b. Q v a \<Longrightarrow> Q v b \<Longrightarrow> Q v (sr_add (g_semiring g) a b)"
    and "\<And>u v a w. Q u a \<Longrightarrow> edge g u v w \<Longrightarrow> Q v (sr_mul (g_semiring g) a w)"
  shows "dist_all g Q (optimalPaths g source)"
proof -
  have fill: "jsm_get (foldl (\<lambda>d node. jsm_set node z d) d0 ns) v = (if v \<in> set ns then Some z else jsm_get d0 v)"
    for z d0 ns v by (induction ns arbitrary: d0) (auto simp add: jsm_get_set)
  have "dist_all g Q (initial_distances g source)"
    using assms(2,3) by (auto simp add: dist_all_def initial_distances_def jsm_has_iff jsm_get_set fill split: if_splits)
  moreover have "dist_all g Q d \<Longrightarrow> dist_all g Q (relax_rounds g i d)" for i d
  proof (induction i arbitrary: d)
    case (Suc i)
    obtain d' c where "relax_nodes g (g_nodes g) (d, False) = (d', c)" by fastforce
    with Suc dist_all_relax_nodes [of g Q "g_nodes g" d False d' c] assms(1,4,5) show ?case by simp
  qed simp
  ultimately show ?thesis by (simp add: optimalPaths_def)
qed

subsection \<open>Walks\<close>

fun is_walk :: "'a digraph \<Rightarrow> string list \<Rightarrow> bool" where
  "is_walk g [] = False"
| "is_walk g [v] = (v \<in> set (g_nodes g))"
| "is_walk g (u # v # vs) = (hasEdge g u v \<and> is_walk g (v # vs))"

fun walk_weight :: "'a digraph \<Rightarrow> string list \<Rightarrow> 'a" where
  "walk_weight g [] = sr_one (g_semiring g)"
| "walk_weight g [v] = sr_one (g_semiring g)"
| "walk_weight g (u # v # vs) = sr_mul (g_semiring g) (getEdge g u v) (walk_weight g (v # vs))"

definition walk_to :: "'a digraph \<Rightarrow> string \<Rightarrow> string \<Rightarrow> string list \<Rightarrow> bool" where
  "walk_to g source target xs \<longleftrightarrow> is_walk g xs \<and> hd xs = source \<and> last xs = target"

fun choice :: "'a semiring_ops \<Rightarrow> 'a list \<Rightarrow> 'a" where
  "choice sr [] = sr_zero sr"
| "choice sr (a # as) = sr_add sr a (choice sr as)"

lemma edge_iff: "edge g u v w \<longleftrightarrow> hasEdge g u v \<and> getEdge g u v = w"
  by (auto simp add: edge_def hasEdge_def getEdge_def neighbors_def jsm_has_iff split: option.splits)

text \<open>A graph over a path semiring.\<close>

locale routing = path_semiring "g_semiring g" carrier for g :: "'a digraph" and carrier :: "'a set" +
  assumes wf: "graph_wf carrier g"
begin

abbreviation sr :: "'a semiring_ops" where "sr \<equiv> g_semiring g"

lemma choice_in [simp]: "set as \<subseteq> carrier \<Longrightarrow> choice sr as \<in> carrier"
  by (induction as) auto

lemma choice_append: "set as \<subseteq> carrier \<Longrightarrow> set bs \<subseteq> carrier \<Longrightarrow>
    choice sr (as @ bs) = sr_add sr (choice sr as) (choice sr bs)"
  by (induction as) (auto simp add: add_assoc)

lemma choice_mul: "set as \<subseteq> carrier \<Longrightarrow> b \<in> carrier \<Longrightarrow>
    sr_mul sr (choice sr as) b = choice sr (map (\<lambda>a. sr_mul sr a b) as)"
  by (induction as) (auto simp add: distrib_right)

lemma mul_choice: "set as \<subseteq> carrier \<Longrightarrow> b \<in> carrier \<Longrightarrow>
    sr_mul sr b (choice sr as) = choice sr (map (\<lambda>a. sr_mul sr b a) as)"
  by (induction as) (auto simp add: distrib_left)

lemma choice_upper: "set as \<subseteq> carrier \<Longrightarrow> a \<in> set as \<Longrightarrow> below a (choice sr as)"
proof (induction as)
  case (Cons b as)
  then show ?case
    by (auto simp add: below_add1 intro: below_trans [OF _ _ _ _ below_add2])
qed simp

lemma choice_least: "set as \<subseteq> carrier \<Longrightarrow> b \<in> carrier \<Longrightarrow> (\<And>a. a \<in> set as \<Longrightarrow> below a b) \<Longrightarrow>
    below (choice sr as) b"
  by (induction as) (auto intro: add_least)

lemma hasEdge_nodes:
  assumes "hasEdge g u v"
  shows "u \<in> set (g_nodes g)" and "v \<in> set (g_nodes g)" and "getEdge g u v \<in> carrier"
proof -
  have "edge g u v (getEdge g u v)" using assms by (simp add: edge_iff)
  then show "v \<in> set (g_nodes g)" "getEdge g u v \<in> carrier" using wf by (auto simp add: graph_wf_def)
  have "jsm_has (g_adj g) u" using assms by (auto simp add: hasEdge_def jsm_has_iff split: option.splits)
  then show "u \<in> set (g_nodes g)" using wf by (auto simp add: graph_wf_def jsm_keys_iff)
qed

lemma walk_nodes: "is_walk g xs \<Longrightarrow> set xs \<subseteq> set (g_nodes g)"
  by (induction xs rule: induct_list012) (auto dest: hasEdge_nodes)

lemma weight_in [simp]: "is_walk g xs \<Longrightarrow> walk_weight g xs \<in> carrier"
  by (induction xs rule: induct_list012) (auto dest: hasEdge_nodes)

lemma is_walk_append: "is_walk g (xs @ v # ys) \<longleftrightarrow> is_walk g (xs @ [v]) \<and> is_walk g (v # ys)"
proof (induction xs rule: induct_list012)
  case 1
  show ?case by (cases ys) (auto dest: hasEdge_nodes)
next
  case (2 x)
  show ?case by (cases ys) (auto dest: hasEdge_nodes)
qed auto

lemma weight_append: "is_walk g (xs @ v # ys) \<Longrightarrow>
    walk_weight g (xs @ v # ys) = sr_mul sr (walk_weight g (xs @ [v])) (walk_weight g (v # ys))"
proof (induction xs rule: induct_list012)
  case (2 x)
  then show ?case using weight_in [of "v # ys"] by (auto dest: hasEdge_nodes)
next
  case (3 x y zs)
  then have w: "is_walk g ((y # zs) @ [v])" "is_walk g (v # ys)"
    using is_walk_append [of "y # zs" v ys] by simp_all
  with 3 show ?case using weight_in [OF w(1)] weight_in [OF w(2)]
    by (auto simp add: mul_assoc dest: hasEdge_nodes)
qed simp

lemma walk_to_snoc:
  assumes "walk_to g s v xs" and "hasEdge g v u"
  shows "walk_to g s u (xs @ [u])"
    and "walk_weight g (xs @ [u]) = sr_mul sr (walk_weight g xs) (getEdge g v u)"
proof -
  from assms obtain ys where xs: "xs = ys @ [v]"
    by (metis append_butlast_last_id is_walk.simps(1) walk_to_def)
  have "is_walk g [v, u]" using assms(2) by (simp add: hasEdge_nodes)
  with assms xs is_walk_append [of ys v "[u]"] have w: "is_walk g (ys @ v # [u])" by (simp add: walk_to_def)
  then show "walk_to g s u (xs @ [u])" using assms xs by (auto simp add: walk_to_def hd_append)
  show "walk_weight g (xs @ [u]) = sr_mul sr (walk_weight g xs) (getEdge g v u)"
    using weight_append [OF w] xs assms(2) by (simp add: hasEdge_nodes)
qed

lemma walk_to_append:
  assumes "walk_to g s v xs" and "walk_to g v t ys"
  shows "walk_to g s t (xs @ tl ys)"
    and "walk_weight g (xs @ tl ys) = sr_mul sr (walk_weight g xs) (walk_weight g ys)"
proof -
  from assms obtain xs' where xs: "xs = xs' @ [v]"
    by (metis append_butlast_last_id is_walk.simps(1) walk_to_def)
  from assms obtain ys' where ys: "ys = v # ys'"
    by (cases ys) (auto simp add: walk_to_def)
  have w: "is_walk g (xs' @ v # ys')" using assms xs ys is_walk_append [of xs' v ys'] by (simp add: walk_to_def)
  then show "walk_to g s t (xs @ tl ys)" using assms xs ys
    by (auto simp add: walk_to_def hd_append split: if_splits)
  show "walk_weight g (xs @ tl ys) = sr_mul sr (walk_weight g xs) (walk_weight g ys)"
    using weight_append [OF w] xs ys by simp
qed

text \<open>Cutting the cycles out of a walk never makes it worse.\<close>

lemma simple_walk:
  assumes "walk_to g s t xs"
  shows "\<exists>ys. walk_to g s t ys \<and> distinct ys \<and> below (walk_weight g xs) (walk_weight g ys)"
  using assms
proof (induction "length xs" arbitrary: xs rule: less_induct)
  case less
  show ?case
  proof (cases "distinct xs")
    case True
    with less.prems show ?thesis by (auto simp add: walk_to_def)
  next
    case False
    then obtain as y bs cs where xs: "xs = as @ y # bs @ y # cs"
      using not_distinct_decomp by fastforce
    let ?ys = "as @ y # cs"
    have w: "is_walk g (as @ [y])" "is_walk g (y # bs @ y # cs)" "is_walk g (y # bs @ [y])" "is_walk g (y # cs)"
      using less.prems xs is_walk_append [of as y "bs @ y # cs"] is_walk_append [of "y # bs" y cs]
      by (simp_all add: walk_to_def)
    then have y: "is_walk g ?ys" using is_walk_append by blast
    have to: "walk_to g s t ?ys" using less.prems xs y
      by (auto simp add: walk_to_def hd_append split: if_splits)
    have "walk_weight g xs = sr_mul sr (walk_weight g (as @ [y]))
        (sr_mul sr (walk_weight g (y # bs @ [y])) (walk_weight g (y # cs)))"
      using less.prems xs w weight_append [of as y "bs @ y # cs"] weight_append [of "y # bs" y cs]
      by (simp add: walk_to_def)
    then have b: "below (walk_weight g xs) (walk_weight g ?ys)"
      using weight_append [OF y] w by (simp add: cycle_below)
    from less.hyps [OF _ to] xs obtain zs where "walk_to g s t zs" "distinct zs"
      "below (walk_weight g ?ys) (walk_weight g zs)" by auto
    moreover have "below (walk_weight g xs) (walk_weight g zs)"
      using below_trans [OF _ _ _ b] calculation y less.prems by (simp add: walk_to_def)
    ultimately show ?thesis by blast
  qed
qed

lemma distinct_walk_length: "is_walk g xs \<Longrightarrow> distinct xs \<Longrightarrow> length xs \<le> length (g_nodes g)"
  using walk_nodes [of xs] wf
  by (metis List.finite_set card_mono distinct_card graph_wf_def)

subsubsection \<open>What the relaxation keeps\<close>

definition attained :: "string \<Rightarrow> string \<Rightarrow> 'a \<Rightarrow> bool" where
  "attained s v a \<longleftrightarrow> (\<exists>xss. (\<forall>xs \<in> set xss. walk_to g s v xs) \<and> a = choice sr (map (walk_weight g) xss))"

definition dist_inv :: "string \<Rightarrow> 'a distances \<Rightarrow> bool" where
  "dist_inv s d \<longleftrightarrow> (\<forall>v \<in> set (g_nodes g). \<exists>a. jsm_get d v = Some a \<and> attained s v a)"

definition grows :: "'a distances \<Rightarrow> 'a distances \<Rightarrow> bool" where
  "grows d d' \<longleftrightarrow> (\<forall>v \<in> set (g_nodes g). below (the (jsm_get d v)) (the (jsm_get d' v)))"

lemma attained_in [simp]: "attained s v a \<Longrightarrow> a \<in> carrier"
  by (auto simp add: attained_def walk_to_def intro!: choice_in)

lemma attained_zero [simp]: "attained s v (sr_zero sr)"
  unfolding attained_def by (rule exI [of _ "[]"]) simp

lemma attained_walk: "walk_to g s v xs \<Longrightarrow> attained s v (walk_weight g xs)"
  unfolding attained_def by (rule exI [of _ "[xs]"]) (simp add: walk_to_def add_comm)

lemma attained_add:
  assumes "attained s v a" and "attained s v b"
  shows "attained s v (sr_add sr a b)"
proof -
  from assms obtain xss yss where x: "\<forall>xs \<in> set xss. walk_to g s v xs" "a = choice sr (map (walk_weight g) xss)"
    and y: "\<forall>xs \<in> set yss. walk_to g s v xs" "b = choice sr (map (walk_weight g) yss)"
    by (auto simp add: attained_def)
  then have "sr_add sr a b = choice sr (map (walk_weight g) (xss @ yss))"
    by (subst map_append, subst choice_append) (auto simp add: walk_to_def)
  with x y show ?thesis unfolding attained_def by (intro exI [of _ "xss @ yss"]) auto
qed

lemma attained_mul:
  assumes "attained s v a" and "attained v t b"
  shows "attained s t (sr_mul sr a b)"
proof -
  from assms obtain xss yss where x: "\<forall>xs \<in> set xss. walk_to g s v xs" "a = choice sr (map (walk_weight g) xss)"
    and y: "\<forall>xs \<in> set yss. walk_to g v t xs" "b = choice sr (map (walk_weight g) yss)"
    by (auto simp add: attained_def)
  have b: "b \<in> carrier" using assms(2) by simp
  have step: "attained s t (sr_mul sr (walk_weight g xs) b)" if "xs \<in> set xss" for xs
  proof -
    have xs: "walk_to g s v xs" using x(1) that by blast
    then have "sr_mul sr (walk_weight g xs) b = choice sr (map (\<lambda>ys. sr_mul sr (walk_weight g xs) (walk_weight g ys)) yss)"
      using y by (subst y(2), subst mul_choice) (auto simp add: walk_to_def comp_def)
    also have "\<dots> = choice sr (map (walk_weight g) (map (\<lambda>ys. xs @ tl ys) yss))"
      using y(1) by (auto intro!: arg_cong [of _ _ "choice sr"] walk_to_append(2) [OF xs, symmetric])
    finally show ?thesis unfolding attained_def
      using y(1) walk_to_append(1) [OF xs] by (intro exI [of _ "map (\<lambda>ys. xs @ tl ys) yss"]) auto
  qed
  have "sr_mul sr a b = choice sr (map (\<lambda>xs. sr_mul sr (walk_weight g xs) b) xss)"
    using x b by (subst x(2), subst choice_mul) (auto simp add: walk_to_def comp_def)
  moreover have "attained s t (choice sr (map (\<lambda>xs. sr_mul sr (walk_weight g xs) b) zss))"
    if "set zss \<subseteq> set xss" for zss
    using that by (induction zss) (auto intro: attained_add step)
  ultimately show ?thesis by simp
qed

lemma edge_walk:
  assumes "edge g u v w"
  shows "walk_to g u v [u, v]" and "walk_weight g [u, v] = w" and "w \<in> carrier"
    and "u \<in> set (g_nodes g)" and "v \<in> set (g_nodes g)"
  using assms hasEdge_nodes [of u v] by (auto simp add: edge_iff walk_to_def)

lemma attained_edge: "attained s u a \<Longrightarrow> edge g u v w \<Longrightarrow> attained s v (sr_mul sr a w)"
  using attained_mul [of s u a v w] attained_walk [of u v "[u, v]"] edge_walk [of u v w] by simp

lemma grows_refl [simp]: "dist_inv s d \<Longrightarrow> grows d d"
  by (fastforce simp add: grows_def dist_inv_def)

lemma dist_invD: "dist_inv s d \<Longrightarrow> v \<in> set (g_nodes g) \<Longrightarrow>
    attained s v (the (jsm_get d v)) \<and> the (jsm_get d v) \<in> carrier"
  by (fastforce simp add: dist_inv_def)

lemma grows_trans:
  assumes "dist_inv s d" "dist_inv s e" "dist_inv s f" "grows d e" "grows e f"
  shows "grows d f"
  using assms unfolding grows_def by (blast intro: below_trans dest: dist_invD)

lemma dist_below_trans:
  assumes "dist_inv s d" "v \<in> set (g_nodes g)" "attained s v a" "attained s v b"
    and "below a b" "below b (the (jsm_get d v))"
  shows "below a (the (jsm_get d v))"
  using assms dist_invD [OF assms(1,2)] by (blast intro: below_trans attained_in)

lemma relax_neighbors_spec:
  assumes "dist_inv s d" and "attained s u a" and "\<And>v w. (v, w) \<in> set es \<Longrightarrow> edge g u v w"
    and "relax_neighbors sr a es (d, c) = (d', c')"
  shows "dist_inv s d' \<and> grows d d' \<and> (\<forall>(v, w) \<in> set es. below (sr_mul sr a w) (the (jsm_get d' v)))
    \<and> (c \<longrightarrow> c') \<and> (\<not> c' \<longrightarrow> d' = d)"
  using assms
proof (induction es arbitrary: d c)
  case Nil
  then show ?case by simp
next
  case (Cons e es)
  obtain v w where e: "e = (v, w)" by (cases e)
  let ?cur = "the (jsm_get d v)" and ?cand = "sr_mul sr a w"
  let ?new = "sr_add sr ?cur ?cand"
  have ed: "edge g u v w" using Cons.prems(3) e by simp
  have v: "v \<in> set (g_nodes g)" using edge_walk(5) [OF ed] .
  have cur: "attained s v ?cur" "?cur \<in> carrier" using dist_invD [OF Cons.prems(1) v] by simp_all
  have cand: "attained s v ?cand" using attained_edge [OF Cons.prems(2) ed] .
  have new: "attained s v ?new" using attained_add cur cand by simp
  show ?case
  proof (cases "?new = ?cur")
    case True
    then have "relax_neighbors sr a es (d, c) = (d', c')"
      using Cons.prems(4) e cur by (simp add: Let_def eq_iff)
    from Cons.IH [OF Cons.prems(1,2) _ this] Cons.prems(3)
    have ih: "dist_inv s d' \<and> grows d d' \<and> (\<forall>(v, w) \<in> set es. below (sr_mul sr a w) (the (jsm_get d' v)))
      \<and> (c \<longrightarrow> c') \<and> (\<not> c' \<longrightarrow> d' = d)" by simp
    moreover have "below ?cand ?cur" using True below_add2 [of ?cur ?cand] cur cand by simp
    moreover have "below ?cur (the (jsm_get d' v))" using ih v by (simp add: grows_def)
    ultimately have "below ?cand (the (jsm_get d' v))"
      using dist_below_trans [OF _ v cand cur(1)] by blast
    with ih e show ?thesis by auto
  next
    case False
    let ?d = "jsm_set v ?new d"
    have inv: "dist_inv s ?d" using Cons.prems(1) new by (auto simp add: dist_inv_def jsm_get_set)
    have g: "grows d ?d" using cur cand dist_invD [OF Cons.prems(1)]
      by (auto simp add: grows_def jsm_get_set below_add1)
    have "relax_neighbors sr a es (?d, True) = (d', c')"
      using Cons.prems(4) e cur cand False by (simp add: Let_def eq_iff)
    from Cons.IH [OF inv Cons.prems(2) _ this] Cons.prems(3)
    have ih: "dist_inv s d' \<and> grows ?d d' \<and> (\<forall>(v, w) \<in> set es. below (sr_mul sr a w) (the (jsm_get d' v)))
      \<and> c'" by simp
    moreover have "below ?cand ?new" using cur cand by (simp add: below_add2)
    moreover have "below ?new (the (jsm_get d' v))" using ih v by (auto simp add: grows_def dest!: bspec [of _ _ v])
    ultimately have "below ?cand (the (jsm_get d' v))"
      using dist_below_trans [OF _ v cand new] by blast
    with ih e grows_trans [OF Cons.prems(1) inv _ g] show ?thesis by auto
  qed
qed

lemma relax_nodes_spec:
  assumes "dist_inv s d" and "set ns \<subseteq> set (g_nodes g)" and "relax_nodes g ns (d, c) = (d', c')"
  shows "dist_inv s d' \<and> grows d d'
    \<and> (\<forall>u \<in> set ns. \<forall>v w. edge g u v w \<longrightarrow> below (sr_mul sr (the (jsm_get d u)) w) (the (jsm_get d' v)))
    \<and> (c \<longrightarrow> c') \<and> (\<not> c' \<longrightarrow> d' = d)"
  using assms
proof (induction ns arbitrary: d c)
  case Nil
  then show ?case by simp
next
  case (Cons u ns)
  let ?a = "the (jsm_get d u)"
  have u: "attained s u ?a" "?a \<in> carrier" using dist_invD [OF Cons.prems(1)] Cons.prems(2) by simp_all
  obtain e ce where e: "(e, ce) = (if ?a = sr_zero sr then (d, c) else relax_neighbors sr ?a (neighbors g u) (d, c))"
    by (cases "if ?a = sr_zero sr then (d, c) else relax_neighbors sr ?a (neighbors g u) (d, c)") simp
  have es: "edge g u v w" if "(v, w) \<in> set (neighbors g u)" for v w
    using that wf by (simp add: edge_def graph_wf_def jsm_in_set_iff)
  have s1: "dist_inv s e \<and> grows d e \<and> (\<forall>v w. edge g u v w \<longrightarrow> below (sr_mul sr ?a w) (the (jsm_get e v)))
    \<and> (c \<longrightarrow> ce) \<and> (\<not> ce \<longrightarrow> e = d)"
  proof (cases "?a = sr_zero sr")
    case True
    with e Cons.prems(1) show ?thesis using dist_invD [OF Cons.prems(1)] edge_walk by auto
  next
    case False
    with e have "relax_neighbors sr ?a (neighbors g u) (d, c) = (e, ce)" by simp
    from relax_neighbors_spec [OF Cons.prems(1) u(1) es this] show ?thesis
      using wf by (auto simp add: edge_def graph_wf_def jsm_in_set_iff [symmetric])
  qed
  have "relax_nodes g ns (e, ce) = (d', c')"
    using Cons.prems(3) e u by (auto simp add: Let_def eq_iff split: if_splits)
  from Cons.IH [OF _ _ this] s1 Cons.prems(2)
  have s2: "dist_inv s d' \<and> grows e d'
    \<and> (\<forall>u \<in> set ns. \<forall>v w. edge g u v w \<longrightarrow> below (sr_mul sr (the (jsm_get e u)) w) (the (jsm_get d' v)))
    \<and> (ce \<longrightarrow> c') \<and> (\<not> c' \<longrightarrow> d' = e)" by simp
  have "below (sr_mul sr (the (jsm_get d x)) w) (the (jsm_get d' v))" if "x \<in> set (u # ns)" "edge g x v w" for x v w
  proof -
    note x = edge_walk(4) [OF that(2)] and v = edge_walk(5) [OF that(2)] and w = edge_walk(3) [OF that(2)]
    have d: "attained s x (the (jsm_get d x))" using dist_invD [OF Cons.prems(1) x] by simp
    have e: "attained s x (the (jsm_get e x))" "attained s v (the (jsm_get e v))"
      using dist_invD [of s e] s1 x v by simp_all
    show ?thesis
    proof (cases "x = u")
      case True
      with s1 that have "below (sr_mul sr (the (jsm_get d x)) w) (the (jsm_get e v))" by simp
      moreover have "below (the (jsm_get e v)) (the (jsm_get d' v))"
        using s2 v by (simp add: grows_def)
      ultimately show ?thesis
        using dist_below_trans [OF _ v attained_edge [OF d that(2)] e(2)] s2 by blast
    next
      case False
      with s2 that have "below (sr_mul sr (the (jsm_get e x)) w) (the (jsm_get d' v))" by simp
      moreover have "below (sr_mul sr (the (jsm_get d x)) w) (sr_mul sr (the (jsm_get e x)) w)"
        using s1 x w attained_in [OF d] attained_in [OF e(1)] by (intro mul_mono_left) (simp_all add: grows_def)
      ultimately show ?thesis
        using dist_below_trans [OF _ v attained_edge [OF d that(2)] attained_edge [OF e(1) that(2)]] s2 by blast
    qed
  qed
  with s1 s2 grows_trans [OF Cons.prems(1), of e d'] show ?case by blast
qed

subsubsection \<open>The rounds cover every walk\<close>

definition covers :: "string \<Rightarrow> nat \<Rightarrow> 'a distances \<Rightarrow> bool" where
  "covers s k d \<longleftrightarrow> (\<forall>v xs. walk_to g s v xs \<longrightarrow> length xs \<le> Suc k \<longrightarrow>
     below (walk_weight g xs) (the (jsm_get d v)))"

lemma walk_to_cases:
  assumes "walk_to g s v xs"
  obtains "xs = [s]" "v = s"
  | ys u where "xs = ys @ [v]" "walk_to g s u ys" "hasEdge g u v"
proof -
  have ne: "xs \<noteq> []" using assms by (auto simp add: walk_to_def)
  show thesis
  proof (cases "butlast xs")
    case Nil
    with ne assms have "xs = [s]" "v = s"
      by (auto simp add: walk_to_def butlast_conv_take take_Suc neq_Nil_conv split: if_splits list.splits)
    then show thesis by (rule that(1))
  next
    case (Cons a as)
    let ?ys = "butlast xs" and ?u = "last (butlast xs)"
    have xs: "xs = butlast ?ys @ ?u # [v]" "xs = ?ys @ [v]" using ne assms Cons
      by (simp_all add: walk_to_def append_butlast_last_id [of "?ys", symmetric] del: append_butlast_last_id)
        (metis append_butlast_last_id list.distinct(1) append.assoc append_Cons append_Nil)+
    have w: "is_walk g (butlast ?ys @ [?u])" "is_walk g [?u, v]"
      using assms xs is_walk_append [of "butlast ?ys" ?u "[v]"] by (simp_all add: walk_to_def)
    have "walk_to g s ?u ?ys" using w assms xs Cons by (auto simp add: walk_to_def hd_append)
    with xs w show thesis by (intro that(2)) auto
  qed
qed

lemma covers_step:
  assumes "covers s k d" and "dist_inv s d" and "dist_inv s d'" and "grows d d'"
    and "\<And>u v w. edge g u v w \<Longrightarrow> below (sr_mul sr (the (jsm_get d u)) w) (the (jsm_get d' v))"
  shows "covers s (Suc k) d'"
  unfolding covers_def
proof (intro allI impI)
  fix v xs assume xs: "walk_to g s v xs" and l: "length xs \<le> Suc (Suc k)"
  have v: "v \<in> set (g_nodes g)" using xs walk_nodes [of xs]
    by (cases xs rule: rev_cases) (auto simp add: walk_to_def)
  note vd = dist_invD [OF assms(2) v]
  from xs show "below (walk_weight g xs) (the (jsm_get d' v))"
  proof (cases rule: walk_to_cases)
    case 1
    then have "below (walk_weight g xs) (the (jsm_get d v))"
      using assms(1) [unfolded covers_def, rule_format, OF xs] by simp
    then show ?thesis using dist_below_trans [OF assms(3) v attained_walk [OF xs]] vd assms(4) v
      by (auto simp add: grows_def)
  next
    case (2 ys u)
    let ?w = "getEdge g u v"
    have e: "edge g u v ?w" using 2(3) by (simp add: edge_iff)
    have u: "attained s u (the (jsm_get d u))" using dist_invD [OF assms(2) edge_walk(4) [OF e]] by simp
    have "below (walk_weight g ys) (the (jsm_get d u))"
      using assms(1) 2 l by (simp add: covers_def)
    then have "below (walk_weight g xs) (sr_mul sr (the (jsm_get d u)) ?w)"
      using walk_to_snoc(2) [OF 2(2,3)] 2 u edge_walk(3) [OF e]
      by (simp add: mul_mono_left walk_to_def)
    then show ?thesis
      using dist_below_trans [OF assms(3) v attained_walk [OF xs] attained_edge [OF u e]] assms(5) [OF e] by blast
  qed
qed

lemma covers_all:
  assumes "covers s 0 d" and "dist_inv s d"
    and "\<And>u v w. edge g u v w \<Longrightarrow> below (sr_mul sr (the (jsm_get d u)) w) (the (jsm_get d v))"
  shows "covers s k d"
  using assms by (induction k) (auto intro: covers_step)

lemma relax_rounds_spec:
  assumes "dist_inv s d" and "covers s k d"
  shows "dist_inv s (relax_rounds g i d) \<and> covers s (k + i) (relax_rounds g i d)"
  using assms
proof (induction i arbitrary: d k)
  case 0
  then show ?case by simp
next
  case (Suc i)
  obtain d' c where r: "relax_nodes g (g_nodes g) (d, False) = (d', c)" by fastforce
  note spec = relax_nodes_spec [OF Suc.prems(1) subset_refl r]
  have st: "below (sr_mul sr (the (jsm_get d u)) w) (the (jsm_get d' v))" if "edge g u v w" for u v w
    using spec that edge_walk(4) [OF that] by blast
  have cov: "covers s (Suc k) d'"
    using covers_step [OF Suc.prems(2,1)] spec st by blast
  show ?case
  proof (cases c)
    case True
    with r Suc.IH [of d' "Suc k"] spec cov show ?thesis by simp
  next
    case False
    with spec have "d' = d" by simp
    moreover have "covers s 0 d" using Suc.prems(2) by (simp add: covers_def)
    ultimately have "covers s (k + Suc i) d'" using covers_all [of s d] Suc.prems(1) st by simp
    with False r Suc.prems(1) \<open>d' = d\<close> show ?thesis by simp
  qed
qed

lemma initial_zero:
  "jsm_get (foldl (\<lambda>d node. jsm_set node z d) d0 ns) v = (if v \<in> set ns then Some z else jsm_get d0 v)"
  by (induction ns arbitrary: d0) (auto simp add: jsm_get_set)

lemma initial_get:
  "jsm_get (initial_distances g s) v =
     (if v = s then Some (sr_one sr) else if v \<in> set (g_nodes g) then Some (sr_zero sr) else None)"
  by (simp add: initial_distances_def jsm_get_set initial_zero)

lemma initial_spec:
  assumes "s \<in> set (g_nodes g)"
  shows "dist_inv s (initial_distances g s) \<and> covers s 0 (initial_distances g s)"
proof -
  have "walk_to g s s [s]" using assms by (simp add: walk_to_def)
  from attained_walk [OF this] have "dist_inv s (initial_distances g s)"
    by (simp add: dist_inv_def initial_get)
  moreover have "covers s 0 (initial_distances g s)"
    by (auto simp add: covers_def initial_get walk_to_def le_Suc_eq length_Suc_conv)
  ultimately show ?thesis ..
qed

lemma optimalPath_spec:
  assumes "s \<in> set (g_nodes g)" and "t \<in> set (g_nodes g)"
  shows "attained s t (optimalPath g s t) \<and> (\<forall>xs. walk_to g s t xs \<longrightarrow> below (walk_weight g xs) (optimalPath g s t))"
proof -
  let ?d = "optimalPaths g s"
  have spec: "dist_inv s ?d" "covers s (length (g_nodes g) - 1) ?d"
    using relax_rounds_spec [of s "initial_distances g s" 0] initial_spec [OF assms(1)]
    by (auto simp add: optimalPaths_def)
  have val: "optimalPath g s t = the (jsm_get ?d t)" and att: "attained s t (optimalPath g s t)"
    using spec(1) assms(2) by (fastforce simp add: optimalPath_def dist_inv_def)+
  have "below (walk_weight g xs) (optimalPath g s t)" if xs: "walk_to g s t xs" for xs
  proof -
    from simple_walk [OF xs] obtain ys where ys: "walk_to g s t ys" "distinct ys"
      "below (walk_weight g xs) (walk_weight g ys)" by blast
    have "length ys \<le> Suc (length (g_nodes g) - 1)"
      using distinct_walk_length [of ys] ys by (simp add: walk_to_def)
    with spec(2) ys have "below (walk_weight g ys) (optimalPath g s t)" by (simp add: covers_def val)
    with dist_below_trans [OF spec(1) assms(2) attained_walk [OF xs] attained_walk [OF ys(1)] ys(3)]
    show ?thesis by (simp add: val)
  qed
  with att show ?thesis by blast
qed

lemma attained_selective:
  assumes "\<And>a b. a \<in> carrier \<Longrightarrow> b \<in> carrier \<Longrightarrow> sr_add sr a b = a \<or> sr_add sr a b = b"
    and "attained s t a" and "a \<noteq> sr_zero sr"
  shows "\<exists>xs. walk_to g s t xs \<and> walk_weight g xs = a"
proof -
  from assms(2) obtain xss where x: "\<forall>xs \<in> set xss. walk_to g s t xs" "a = choice sr (map (walk_weight g) xss)"
    by (auto simp add: attained_def)
  have "choice sr as = sr_zero sr \<or> choice sr as \<in> set as" if "set as \<subseteq> carrier" for as
    using that
  proof (induction as)
    case (Cons b as)
    then show ?case using assms(1) [of b "choice sr as"] by auto
  qed simp
  from this [of "map (walk_weight g) xss"] x assms(3) show ?thesis by (fastforce simp add: walk_to_def)
qed

end

subsection \<open>Properties\<close>

text \<open>
  (C17) Over any path semiring and any well-formed graph, the value \<open>optimalPath\<close> returns between
  two nodes is at least as good as every walk between them, and it is the combination of finitely
  many such walks: it is the least upper bound of their weights. So \<open>V - 1\<close> rounds with the early
  exit and the skipped unreachable nodes lose nothing, although there are infinitely many walks.
\<close>
theorem optimal_path_is_best:
  assumes "path_semiring (g_semiring g) carrier" and "graph_wf carrier g"
    and "source \<in> set (g_nodes g)" and "target \<in> set (g_nodes g)"
  shows "(\<forall>xs. walk_to g source target xs \<longrightarrow>
      sr_add (g_semiring g) (walk_weight g xs) (optimalPath g source target) = optimalPath g source target)
    \<and> (\<exists>xss. list_all (walk_to g source target) xss
        \<and> optimalPath g source target = choice (g_semiring g) (map (walk_weight g) xss))"
proof -
  have r: "routing g carrier" using assms(1,2) by (simp add: routing_def routing_axioms_def)
  from routing.optimalPath_spec [OF this assms(3,4)] show ?thesis
    by (simp add: routing.attained_def [OF r] path_semiring.below_def [OF assms(1)] list_all_iff)
qed

text \<open>
  Over the trust semiring the value is a trust some delegation chain really has: it is at least
  the product of the edge trusts along every chain from the source to the target, and unless it is
  zero one chain has exactly that trust.
\<close>
theorem most_trusted_chain:
  assumes "g_semiring g = TrustSemiring" and "graph_wf unit_carrier g"
    and "source \<in> set (g_nodes g)" and "target \<in> set (g_nodes g)"
  shows "(\<forall>xs. walk_to g source target xs \<longrightarrow> num_le (walk_weight g xs) (optimalPath g source target))
    \<and> (optimalPath g source target = Fin 0
       \<or> (\<exists>xs. walk_to g source target xs \<and> walk_weight g xs = optimalPath g source target))"
proof -
  have p: "path_semiring (g_semiring g) unit_carrier" using assms(1) trust.path_semiring_axioms by simp
  then have r: "routing g unit_carrier" using assms(2) by (simp add: routing_def routing_axioms_def)
  note spec = routing.optimalPath_spec [OF r assms(3,4)]
  have sel: "sr_add (g_semiring g) a b = a \<or> sr_add (g_semiring g) a b = b" for a b
    using assms(1) by (simp add: sr_defs math_max_def)
  have le: "num_le a b" if "sr_add (g_semiring g) a b = b" "a \<in> unit_carrier" "b \<in> unit_carrier" for a b
    using that assms(1) by (auto simp add: sr_defs math_max_Fin unit_carrier_iff)
  have "optimalPath g source target \<in> unit_carrier" using spec routing.attained_in [OF r] by blast
  moreover have "walk_weight g xs \<in> unit_carrier" if "walk_to g source target xs" for xs
    using that routing.weight_in [OF r] by (simp add: walk_to_def)
  moreover have "sr_zero (g_semiring g) = Fin 0" using assms(1) by (simp add: sr_defs)
  ultimately show ?thesis
    using spec routing.attained_selective [OF r sel] le path_semiring.below_def [OF p] by metis
qed

subsection \<open>Graphs built from a list of edges\<close>

definition graph_of :: "'a semiring_ops \<Rightarrow> (string \<times> string \<times> 'a) list \<Rightarrow> 'a digraph" where
  "graph_of sr es = foldl (\<lambda>g (u, v, w). addEdge g u v w) (newDigraph sr) es"

lemma semiring_graph_of [simp]: "g_semiring (graph_of sr es) = sr"
proof -
  have "g_semiring (foldl (\<lambda>g (u, v, w). addEdge g u v w) g es) = g_semiring g" for g :: "'a digraph"
    by (induction es arbitrary: g) (auto simp add: addEdge_def put_neighbor_def Let_def)
  from this [of "newDigraph sr"] show ?thesis by (simp add: graph_of_def newDigraph_def)
qed

lemma routing_graph_of:
  assumes "path_semiring sr carrier" and "\<And>u v w. (u, v, w) \<in> set es \<Longrightarrow> w \<in> carrier"
  shows "routing (graph_of sr es) carrier"
proof -
  have "graph_wf carrier (graph_of sr es)" using assms(2)
  proof (induction es rule: rev_induct)
    case Nil
    then show ?case by (simp add: graph_of_def graph_wf_new)
  next
    case (snoc e es)
    obtain u v w where e: "e = (u, v, w)" by (cases e)
    have "graph_wf carrier (addEdge (graph_of sr es) u v w)"
      using snoc e path_semiring.add_in [OF assms(1)] by (intro graph_wf_addEdge) auto
    then show ?case by (simp add: graph_of_def e)
  qed
  with assms(1) show ?thesis by (simp add: routing_def routing_axioms_def)
qed

interpretation reach: routing "graph_of BooleanSemiring es" UNIV for es
  by (rule routing_graph_of) (simp_all add: boolean.path_semiring_axioms)

text \<open>
  Over the boolean semiring the algorithm computes reachability: in the graph of any list of
  edges, the value between two nodes is true exactly when a walk of true edges joins them.
\<close>
theorem boolean_reachability:
  assumes "source \<in> set (g_nodes (graph_of BooleanSemiring es))" and "target \<in> set (g_nodes (graph_of BooleanSemiring es))"
  shows "optimalPath (graph_of BooleanSemiring es) source target
    \<longleftrightarrow> (\<exists>xs. walk_to (graph_of BooleanSemiring es) source target xs
          \<and> walk_weight (graph_of BooleanSemiring es) xs)"
proof -
  have z: "sr_zero BooleanSemiring = False" by (simp add: sr_defs)
  have b: "sr_add BooleanSemiring a b = b \<longleftrightarrow> (a \<longrightarrow> b)" "sr_add BooleanSemiring a b = a \<or> sr_add BooleanSemiring a b = b" for a b
    by (auto simp add: sr_defs)
  show ?thesis
    using reach.optimalPath_spec [OF assms] reach.attained_selective [of es source target True] b
    by (auto simp add: boolean.below_def z)
qed

subsection \<open>Witnesses\<close>

definition demo_network :: "jsnum digraph" where
  "demo_network = graph_of TrustSemiring
     [(''a'', ''b'', Fin (9/10)), (''b'', ''c'', Fin (8/10)), (''a'', ''c'', Fin (1/2)), (''c'', ''a'', Fin 1)]"

lemma demo_network_routing: "routing demo_network unit_carrier"
  unfolding demo_network_def by (rule routing_graph_of) (auto simp add: trust.path_semiring_axioms)

lemma demo_network_facts: "set (g_nodes demo_network) = {''a'', ''b'', ''c''}" "g_semiring demo_network = TrustSemiring"
  by code_simp (simp add: demo_network_def)

lemma demo_optimal: "optimalPath demo_network ''a'' ''c'' = Fin (18/25)"
  by code_simp

theorem optimal_path_is_best_witness:
  "sr_add TrustSemiring (walk_weight demo_network [''a'', ''c'']) (Fin (18/25)) = Fin (18/25)"
proof -
  have "walk_to demo_network ''a'' ''c'' [''a'', ''c'']" by code_simp
  then show ?thesis
    using optimal_path_is_best [of demo_network unit_carrier "''a''" "''c''"] demo_network_routing
    by (simp add: demo_network_facts demo_optimal routing_def routing_axioms_def del: walk_weight.simps)
qed

theorem most_trusted_chain_witness:
  "optimalPath demo_network ''a'' ''c'' = Fin (18/25)
   \<and> (\<exists>xs. walk_to demo_network ''a'' ''c'' xs \<and> walk_weight demo_network xs = Fin (18/25))"
  using most_trusted_chain [of demo_network "''a''" "''c''"] demo_network_routing
  by (simp add: demo_network_facts demo_optimal routing_def routing_axioms_def)

theorem boolean_reachability_witness:
  "optimalPath (graph_of BooleanSemiring [(''a'', ''b'', True), (''b'', ''c'', True)]) ''a'' ''c''"
proof -
  let ?g = "graph_of BooleanSemiring [(''a'', ''b'', True), (''b'', ''c'', True)]"
  have n: "''a'' \<in> set (g_nodes ?g)" "''c'' \<in> set (g_nodes ?g)" by code_simp+
  have "walk_to ?g ''a'' ''c'' [''a'', ''b'', ''c''] \<and> walk_weight ?g [''a'', ''b'', ''c'']" by code_simp
  with boolean_reachability [OF n] show ?thesis by blast
qed

end
