(* ===== verification/PathTrace.thy ===== *)
theory PathTrace
  imports Traversal
begin

text \<open>
  Path reconstruction, \<open>optimalPathTrace\<close> of \<open>packages/protocol/src/traversal.ts\<close>: the same
  relaxation with a map of predecessors, then a backward walk from the target that stops at a node
  seen before. Over a selective semiring, one whose choice returns one of its arguments, the
  predecessors are acyclic and the path returned has exactly the optimal value (locale
  \<open>selective_routing\<close>). Over a product semiring the predecessors can form a cycle, and then the
  function returns null for a target that can be reached.
\<close>

subsection \<open>The algorithm\<close>

type_synonym preds = "(string, string option) jsmap"

fun trace_neighbors :: "'a semiring_ops \<Rightarrow> string \<Rightarrow> 'a \<Rightarrow> (string, 'a) jsmap \<Rightarrow>
    'a distances \<times> preds \<times> bool \<Rightarrow> 'a distances \<times> preds \<times> bool" where
  "trace_neighbors sr node dNode [] (dists, pred, changed) = (dists, pred, changed)"
| "trace_neighbors sr node dNode ((neighbor, weight) # rest) (dists, pred, changed) =
     (let candidate = sr_mul sr dNode weight;
          current = the (jsm_get dists neighbor);
          combined = sr_add sr current candidate
      in if \<not> sr_equal sr combined current
         then trace_neighbors sr node dNode rest
                (jsm_set neighbor combined dists, jsm_set neighbor (Some node) pred, True)
         else trace_neighbors sr node dNode rest (dists, pred, changed))"

fun trace_nodes :: "'a digraph \<Rightarrow> string list \<Rightarrow> 'a distances \<times> preds \<times> bool \<Rightarrow> 'a distances \<times> preds \<times> bool" where
  "trace_nodes g [] (dists, pred, changed) = (dists, pred, changed)"
| "trace_nodes g (node # rest) (dists, pred, changed) =
     (let dNode = the (jsm_get dists node)
      in if sr_equal (g_semiring g) dNode (sr_zero (g_semiring g))
         then trace_nodes g rest (dists, pred, changed)
         else trace_nodes g rest
                (trace_neighbors (g_semiring g) node dNode (neighbors g node) (dists, pred, changed)))"

fun trace_rounds :: "'a digraph \<Rightarrow> nat \<Rightarrow> 'a distances \<times> preds \<Rightarrow> 'a distances \<times> preds" where
  "trace_rounds g 0 (dists, pred) = (dists, pred)"
| "trace_rounds g (Suc i) (dists, pred) =
     (let (dists, pred, changed) = trace_nodes g (g_nodes g) (dists, pred, False)
      in if \<not> changed then (dists, pred) else trace_rounds g i (dists, pred))"

definition pred_of :: "preds \<Rightarrow> string \<Rightarrow> string option" where
  \<comment> \<open>\<open>pred.get(current) ?? null\<close>\<close>
  "pred_of pred current = (case jsm_get pred current of Some p \<Rightarrow> p | None \<Rightarrow> None)"

lemma pred_of_in: "pred_of pred v = Some u \<Longrightarrow> Some u \<in> set (jsm_values pred)"
  by (force simp add: pred_of_def jsm_get_def jsm_values_def image_iff dest!: map_of_SomeD split: option.splits)

function walk_back :: "preds \<Rightarrow> string option \<Rightarrow> string list \<Rightarrow> string list \<Rightarrow> string list" where
  "walk_back pred None visited path = path"
| "walk_back pred (Some current) visited path =
     (if current \<in> set visited then path
      else walk_back pred (pred_of pred current) (current # visited) (current # path))"
  by pat_completeness auto

termination
proof (relation "measure (\<lambda>(pred, cur, visited, _). card ((insert cur (set (jsm_values pred))) - insert None (Some ` set visited)))")
  fix pred :: preds and cur :: string and visited path
  assume n: "cur \<notin> set visited"
  let ?A = "insert (pred_of pred cur) (set (jsm_values pred)) - insert None (Some ` set (cur # visited))"
  let ?B = "insert (Some cur) (set (jsm_values pred)) - insert None (Some ` set visited)"
  have "pred_of pred cur = None \<or> pred_of pred cur \<in> set (jsm_values pred)"
    using pred_of_in by (cases "pred_of pred cur") auto
  then have "?A \<subseteq> ?B" by auto
  moreover have "Some cur \<in> ?B" "Some cur \<notin> ?A" using n by auto
  ultimately have "card ?A < card ?B" by (intro psubset_card_mono) auto
  then show "((pred, pred_of pred cur, cur # visited, cur # path), (pred, Some cur, visited, path))
    \<in> measure (\<lambda>(pred, cur, visited, _). card ((insert cur (set (jsm_values pred))) - insert None (Some ` set visited)))"
    by simp
qed simp

definition optimalPathTrace :: "'a digraph \<Rightarrow> string \<Rightarrow> string \<Rightarrow> ('a \<times> string list) option" where
  "optimalPathTrace g source target =
     (let sr = g_semiring g;
          pred = foldl (\<lambda>pred node. jsm_set node None pred) [] (g_nodes g);
          (dists, pred) = trace_rounds g (length (g_nodes g) - 1) (initial_distances g source, pred);
          value = (case jsm_get dists target of Some v \<Rightarrow> v | None \<Rightarrow> sr_zero sr)
      in if value = sr_zero sr \<and> source \<noteq> target then None
         else (let path = walk_back pred (Some target) [] []
               in if hd path \<noteq> source then None else Some (value, path)))"

subsection \<open>The distances are those of \<open>optimalPaths\<close>\<close>

lemma trace_neighbors_dists:
  "trace_neighbors sr node a es (d, p, c) = (d', p', c') \<Longrightarrow> relax_neighbors sr a es (d, c) = (d', c')"
  by (induction es arbitrary: d p c) (auto simp add: Let_def split: if_splits)

lemma trace_nodes_dists:
  "trace_nodes g ns (d, p, c) = (d', p', c') \<Longrightarrow> relax_nodes g ns (d, c) = (d', c')"
proof (induction ns arbitrary: d p c)
  case (Cons u ns)
  obtain e q ce where t: "trace_neighbors (g_semiring g) u (the (jsm_get d u)) (neighbors g u) (d, p, c) = (e, q, ce)"
    by (metis prod_cases3)
  show ?case using Cons.IH Cons.prems t trace_neighbors_dists [OF t]
    by (auto simp add: Let_def split: if_splits)
qed simp

lemma trace_rounds_dists: "fst (trace_rounds g i (d, p)) = relax_rounds g i d"
proof (induction i arbitrary: d p)
  case (Suc i)
  obtain e q ce where t: "trace_nodes g (g_nodes g) (d, p, False) = (e, q, ce)"
    by (metis prod_cases3)
  show ?case using Suc trace_nodes_dists [OF t] t by auto
qed simp

subsection \<open>Selective semirings\<close>

locale selective_routing = routing +
  assumes selective: "a \<in> carrier \<Longrightarrow> b \<in> carrier \<Longrightarrow> sr_add (g_semiring g) a b = a \<or> sr_add (g_semiring g) a b = b"
begin

abbreviation dat :: "'a distances \<Rightarrow> string \<Rightarrow> 'a" where "dat d v \<equiv> the (jsm_get d v)"

definition pred_edges :: "preds \<Rightarrow> (string \<times> string) set" where
  "pred_edges p = {(u, v). pred_of p v = Some u}"

definition pred_inv :: "string \<Rightarrow> 'a distances \<Rightarrow> preds \<Rightarrow> bool" where
  "pred_inv s d p \<longleftrightarrow>
     (\<forall>u v. pred_of p v = Some u \<longrightarrow> dat d v \<noteq> sr_zero sr
        \<and> (\<exists>w. edge g u v w \<and> below (dat d v) (sr_mul sr (dat d u) w)))
     \<and> dat d s = sr_one sr \<and> pred_of p s = None
     \<and> (\<forall>v \<in> set (g_nodes g). v \<noteq> s \<longrightarrow> dat d v \<noteq> sr_zero sr \<longrightarrow> pred_of p v \<noteq> None)
     \<and> acyclic (pred_edges p)"

lemma pred_invD: "pred_inv s d p \<Longrightarrow> pred_of p v = Some u \<Longrightarrow>
    dat d v \<noteq> sr_zero sr \<and> (\<exists>w. edge g u v w \<and> below (dat d v) (sr_mul sr (dat d u) w))"
  unfolding pred_inv_def by blast

lemma pred_of_set: "pred_of (jsm_set v x p) u = (if u = v then x else pred_of p u)"
  by (simp add: pred_of_def jsm_get_set)

lemma descendant_below:
  assumes "dist_inv s d" and "pred_inv s d p" and "(v, u) \<in> (pred_edges p)\<^sup>*" and "v \<in> set (g_nodes g)"
  shows "u \<in> set (g_nodes g) \<and> (\<exists>c \<in> carrier. below (dat d u) (sr_mul sr (dat d v) c))"
  using assms(3)
proof (induction rule: rtrancl_induct)
  case base
  then show ?case using assms(4) dist_invD [OF assms(1,4)] by (auto intro!: bexI [of _ "sr_one sr"])
next
  case (step y z)
  from step.hyps(2) assms(2) obtain w where e: "edge g y z w" and b: "below (dat d z) (sr_mul sr (dat d y) w)"
    using pred_invD [of s d p z y] by (auto simp add: pred_edges_def)
  from step.IH obtain c where c: "c \<in> carrier" "below (dat d y) (sr_mul sr (dat d v) c)" by blast
  note [simp] = edge_walk(3) [OF e] edge_walk(4) [OF e] edge_walk(5) [OF e]
  have [simp]: "dat d v \<in> carrier" "dat d y \<in> carrier" "dat d z \<in> carrier"
    using dist_invD [OF assms(1)] assms(4) by simp_all
  have "below (sr_mul sr (dat d y) w) (sr_mul sr (dat d v) (sr_mul sr c w))"
    using mul_mono_left [OF _ _ _ c(2), of w] c(1) by (simp add: mul_assoc)
  then have "below (dat d z) (sr_mul sr (dat d v) (sr_mul sr c w))"
    using below_trans [OF _ _ _ b] c(1) by simp
  then show ?case using c(1) by auto
qed

lemma pred_step:
  assumes "dist_inv s d" and "pred_inv s d p" and "edge g u v w" and "dat d u \<noteq> sr_zero sr"
    and "sr_add sr (dat d v) (sr_mul sr (dat d u) w) \<noteq> dat d v"
  shows "v \<noteq> u \<and> pred_inv s (jsm_set v (sr_add sr (dat d v) (sr_mul sr (dat d u) w)) d) (jsm_set v (Some u) p)"
proof -
  let ?new = "sr_add sr (dat d v) (sr_mul sr (dat d u) w)"
  let ?d = "jsm_set v ?new d" and ?p = "jsm_set v (Some u) p"
  note [simp] = edge_walk(3) [OF assms(3)] edge_walk(4) [OF assms(3)] edge_walk(5) [OF assms(3)]
  have [simp]: "dat d u \<in> carrier" "dat d v \<in> carrier" using dist_invD [OF assms(1)] by simp_all
  have new: "?new = sr_mul sr (dat d u) w" using selective [of "dat d v" "sr_mul sr (dat d u) w"] assms(5) by simp
  have grow: "below (dat d v) ?new" by (simp add: below_add1)
  have nz: "?new \<noteq> sr_zero sr" using grow assms(5) below_zero_iff by fastforce
  have no_path: "(v, u) \<notin> (pred_edges p)\<^sup>*"
  proof
    assume "(v, u) \<in> (pred_edges p)\<^sup>*"
    from descendant_below [OF assms(1,2) this] obtain c
      where c: "c \<in> carrier" "below (dat d u) (sr_mul sr (dat d v) c)" by auto
    have "below (sr_mul sr (dat d u) w) (sr_mul sr (dat d v) (sr_mul sr c w))"
      using mul_mono_left [OF _ _ _ c(2), of w] c(1) by (simp add: mul_assoc)
    moreover have "below (sr_mul sr (dat d v) (sr_mul sr c w)) (dat d v)"
      using cycle_below [of "dat d v" "sr_mul sr c w" "sr_one sr"] c(1) by simp
    ultimately have "below (sr_mul sr (dat d u) w) (dat d v)"
      using below_trans [of "sr_mul sr (dat d u) w" "sr_mul sr (dat d v) (sr_mul sr c w)" "dat d v"] c(1) by simp
    then show False using assms(5) add_comm [of "dat d v" "sr_mul sr (dat d u) w"] by (simp add: below_def)
  qed
  have vu: "v \<noteq> u" using no_path by auto
  have vs: "v \<noteq> s" using assms(2,5) absorb [of "sr_mul sr (dat d u) w"] add_comm [of "sr_one sr" "sr_mul sr (dat d u) w"]
    by (auto simp add: pred_inv_def)
  have acyc: "acyclic (pred_edges ?p)"
  proof -
    have "pred_edges ?p \<subseteq> insert (u, v) (pred_edges p)" by (auto simp add: pred_edges_def pred_of_set split: if_splits)
    moreover have "acyclic (insert (u, v) (pred_edges p))" using no_path assms(2) by (simp add: pred_inv_def acyclic_insert)
    ultimately show ?thesis using acyclic_subset by blast
  qed
  have links: "dat ?d y \<noteq> sr_zero sr \<and> (\<exists>w'. edge g x y w' \<and> below (dat ?d y) (sr_mul sr (dat ?d x) w'))"
    if "pred_of ?p y = Some x" for x y
  proof (cases "y = v")
    case True
    with that have "x = u" by (simp add: pred_of_set)
    with True nz new vu assms(3) show ?thesis by (auto simp add: jsm_get_set intro!: exI [of _ w])
  next
    case False
    with that assms(2) obtain w' where e: "edge g x y w'" and b: "dat d y \<noteq> sr_zero sr" "below (dat d y) (sr_mul sr (dat d x) w')"
      using pred_invD [of s d p y x] by (auto simp add: pred_of_set)
    have [simp]: "dat d x \<in> carrier" "dat d y \<in> carrier" "w' \<in> carrier"
      using dist_invD [OF assms(1)] edge_walk [OF e] by simp_all
    have "below (dat d x) (dat ?d x)" using grow by (simp add: jsm_get_set)
    then have "below (sr_mul sr (dat d x) w') (sr_mul sr (dat ?d x) w')"
      by (intro mul_mono_left) (simp_all add: jsm_get_set)
    with b False e below_trans [OF _ _ _ b(2)] show ?thesis by (auto simp add: jsm_get_set)
  qed
  show ?thesis using vu vs acyc links assms(2)
    by (auto simp add: pred_inv_def pred_of_set jsm_get_set)
qed

lemma trace_neighbors_inv:
  assumes "dist_inv s d" and "pred_inv s d p" and "u \<in> set (g_nodes g)" and "dat d u = a" and "a \<noteq> sr_zero sr"
    and "\<And>v w. (v, w) \<in> set es \<Longrightarrow> edge g u v w"
    and "trace_neighbors sr u a es (d, p, c) = (d', p', c')"
  shows "dist_inv s d' \<and> pred_inv s d' p'"
  using assms
proof (induction es arbitrary: d p c)
  case Nil
  then show ?case by simp
next
  case (Cons e es)
  obtain v w where e: "e = (v, w)" by (cases e)
  let ?new = "sr_add sr (dat d v) (sr_mul sr a w)"
  have ed: "edge g u v w" using Cons.prems(6) e by simp
  have v: "v \<in> set (g_nodes g)" using edge_walk(5) [OF ed] .
  have att: "attained s v (dat d v)" "attained s u a" using dist_invD [OF Cons.prems(1)] v Cons.prems(3,4) by auto
  have new: "attained s v ?new" using attained_add [OF att(1) attained_edge [OF att(2) ed]] .
  show ?case
  proof (cases "?new = dat d v")
    case True
    then have "trace_neighbors sr u a es (d, p, c) = (d', p', c')"
      using Cons.prems(7) e att by (simp add: Let_def eq_iff)
    from Cons.IH [OF Cons.prems(1-5) _ this] Cons.prems(6) show ?thesis by simp
  next
    case False
    have r: "trace_neighbors sr u a es (jsm_set v ?new d, jsm_set v (Some u) p, True) = (d', p', c')"
      using Cons.prems(7) e att new False by (simp add: Let_def eq_iff)
    have st: "v \<noteq> u" "pred_inv s (jsm_set v ?new d) (jsm_set v (Some u) p)"
      using pred_step [OF Cons.prems(1,2) ed] Cons.prems(4,5) False by auto
    have "dist_inv s (jsm_set v ?new d)" using Cons.prems(1) new by (auto simp add: dist_inv_def jsm_get_set)
    from Cons.IH [OF this st(2) Cons.prems(3) _ Cons.prems(5) _ r] st(1) Cons.prems(4,6) show ?thesis by simp
  qed
qed

lemma trace_nodes_inv:
  assumes "dist_inv s d" and "pred_inv s d p" and "set ns \<subseteq> set (g_nodes g)"
    and "trace_nodes g ns (d, p, c) = (d', p', c')"
  shows "dist_inv s d' \<and> pred_inv s d' p'"
  using assms
proof (induction ns arbitrary: d p c)
  case (Cons u ns)
  obtain e q ce where t: "trace_neighbors sr u (dat d u) (neighbors g u) (d, p, c) = (e, q, ce)"
    by (metis prod_cases3)
  have u: "u \<in> set (g_nodes g)" "dat d u \<in> carrier" using Cons.prems(1,3) dist_invD by auto
  have es: "edge g u v w" if "(v, w) \<in> set (neighbors g u)" for v w
    using that wf by (simp add: edge_def graph_wf_def jsm_in_set_iff)
  show ?case
  proof (cases "dat d u = sr_zero sr")
    case True
    with Cons.prems(4) u have "trace_nodes g ns (d, p, c) = (d', p', c')" by (simp add: eq_iff)
    with Cons show ?thesis by simp
  next
    case False
    then have "trace_nodes g ns (e, q, ce) = (d', p', c')"
      using Cons.prems(4) t u by (simp add: eq_iff)
    with Cons.IH [of e q ce] trace_neighbors_inv [OF Cons.prems(1,2) u(1) refl False es t] Cons.prems(3)
    show ?thesis by simp
  qed
qed simp

lemma trace_rounds_inv:
  "dist_inv s d \<Longrightarrow> pred_inv s d p \<Longrightarrow>
   dist_inv s (fst (trace_rounds g i (d, p))) \<and> pred_inv s (fst (trace_rounds g i (d, p))) (snd (trace_rounds g i (d, p)))"
proof (induction i arbitrary: d p)
  case (Suc i)
  obtain e q ce where t: "trace_nodes g (g_nodes g) (d, p, False) = (e, q, ce)"
    by (metis prod_cases3)
  from trace_nodes_inv [OF Suc.prems subset_refl t] Suc.IH [of e q] t show ?case by simp
qed simp

subsubsection \<open>The chain of predecessors\<close>

lemma pred_edges_wf:
  assumes "pred_inv s d p"
  shows "wf (pred_edges p)"
proof -
  have "pred_edges p \<subseteq> set (g_nodes g) \<times> set (g_nodes g)"
    using pred_invD [OF assms] edge_walk(4,5) by (auto simp add: pred_edges_def) blast+
  then have "finite (pred_edges p)" by (rule finite_subset) simp
  with assms show ?thesis by (simp add: finite_acyclic_wf pred_inv_def)
qed

lemma walk_back_chain:
  assumes inv: "dist_inv s d" "pred_inv s d p"
    and "v \<in> set (g_nodes g)" and "dat d v \<noteq> sr_zero sr" and "\<And>x. (x, v) \<in> (pred_edges p)\<^sup>* \<Longrightarrow> x \<notin> set visited"
  shows "\<exists>xs. walk_back p (Some v) visited path = xs @ path \<and> walk_to g s v xs \<and> distinct xs
    \<and> below (dat d v) (walk_weight g xs) \<and> (\<forall>x \<in> set xs. (x, v) \<in> (pred_edges p)\<^sup>*)"
  using pred_edges_wf [OF inv(2)] assms(3-5)
proof (induction v arbitrary: visited path rule: wf_induct_rule)
  case (less v)
  have nv: "v \<notin> set visited" using less.prems(3) by blast
  show ?case
  proof (cases "pred_of p v")
    case None
    with less.prems inv(2) have "v = s" "dat d v = sr_one sr" by (auto simp add: pred_inv_def)
    with None nv less.prems show ?thesis by (auto simp add: walk_to_def intro!: exI [of _ "[s]"])
  next
    case (Some u)
    then have r: "(u, v) \<in> pred_edges p" by (simp add: pred_edges_def)
    from pred_invD [OF inv(2) Some] obtain w where e: "edge g u v w"
      and b: "below (dat d v) (sr_mul sr (dat d u) w)" and nz: "dat d v \<noteq> sr_zero sr" by blast
    note n = edge_walk(3-5) [OF e]
    have c: "dat d u \<in> carrier" "dat d v \<in> carrier" using dist_invD [OF inv(1)] n by auto
    have nzu: "dat d u \<noteq> sr_zero sr" using b nz n c below_zero_iff by auto
    have cyc: "(v, u) \<notin> (pred_edges p)\<^sup>*" using r inv(2)
      by (auto simp add: pred_inv_def acyclic_def dest: rtrancl_into_trancl1)
    have dis: "x \<notin> set (v # visited)" if "(x, u) \<in> (pred_edges p)\<^sup>*" for x
      using that cyc less.prems(3) [of x] r by (auto intro: rtrancl_into_rtrancl)
    from less.IH [OF r n(2) nzu dis, of "v # path"] obtain xs
      where xs: "walk_back p (Some u) (v # visited) (v # path) = xs @ v # path" "walk_to g s u xs" "distinct xs"
        "below (dat d u) (walk_weight g xs)" "\<forall>x \<in> set xs. (x, u) \<in> (pred_edges p)\<^sup>*" by blast
    have h: "hasEdge g u v" "getEdge g u v = w" using e by (simp_all add: edge_iff)
    note sn = walk_to_snoc [OF xs(2) h(1), unfolded h(2)]
    have "below (sr_mul sr (dat d u) w) (walk_weight g (xs @ [v]))"
      using sn xs(2,4) n c by (simp add: mul_mono_left walk_to_def)
    then have "below (dat d v) (walk_weight g (xs @ [v]))"
      using below_trans [OF c(2) _ _ b] n c sn(1) by (simp add: walk_to_def)
    moreover have "v \<notin> set xs" using xs(5) cyc by blast
    moreover have "\<forall>x \<in> set (xs @ [v]). (x, v) \<in> (pred_edges p)\<^sup>*"
      using xs(5) r by (auto intro: rtrancl_into_rtrancl)
    ultimately show ?thesis using xs sn nv Some by (intro exI [of _ "xs @ [v]"]) simp
  qed
qed

lemma optimalPathTrace_spec:
  assumes "s \<in> set (g_nodes g)" and "t \<in> set (g_nodes g)"
  shows "case optimalPathTrace g s t of
      None \<Rightarrow> s \<noteq> t \<and> optimalPath g s t = sr_zero sr
    | Some (v, path) \<Rightarrow> v = optimalPath g s t \<and> walk_to g s t path \<and> distinct path \<and> walk_weight g path = v"
proof -
  let ?p0 = "foldl (\<lambda>pred node. jsm_set node None pred) [] (g_nodes g)"
  obtain d p where dp: "trace_rounds g (length (g_nodes g) - 1) (initial_distances g s, ?p0) = (d, p)"
    by fastforce
  then have d: "d = optimalPaths g s"
    using trace_rounds_dists [of g "length (g_nodes g) - 1" "initial_distances g s" ?p0]
    by (simp add: optimalPaths_def)
  have p0: "pred_of ?p0 v = None" for v
    using initial_zero [of "None :: string option" "[]" "g_nodes g" v] by (simp add: pred_of_def)
  have "pred_inv s (initial_distances g s) ?p0"
    by (auto simp add: pred_inv_def p0 initial_get pred_edges_def acyclic_def)
  with trace_rounds_inv [of s "initial_distances g s" ?p0] initial_spec [OF assms(1)] dp
  have inv: "dist_inv s d" "pred_inv s d p" by (metis fst_conv snd_conv)+
  have val: "jsm_get d t = Some (optimalPath g s t)"
    using inv(1) assms(2) by (fastforce simp add: optimalPath_def d dist_inv_def)
  have trace: "optimalPathTrace g s t = (if optimalPath g s t = sr_zero sr \<and> s \<noteq> t then None
      else if hd (walk_back p (Some t) [] []) \<noteq> s then None
      else Some (optimalPath g s t, walk_back p (Some t) [] []))"
    unfolding optimalPathTrace_def Let_def dp by (simp add: val)
  show ?thesis
  proof (cases "optimalPath g s t = sr_zero sr \<and> s \<noteq> t")
    case True
    then show ?thesis by (simp add: trace)
  next
    case False
    have "\<exists>xs. walk_back p (Some t) [] [] = xs \<and> walk_to g s t xs \<and> distinct xs
        \<and> below (optimalPath g s t) (walk_weight g xs)"
    proof (cases "s = t")
      case True
      with inv val assms show ?thesis by (auto simp add: pred_inv_def walk_to_def)
    next
      case neq: False
      with False walk_back_chain [OF inv assms(2), of "[]" "[]"] val show ?thesis by auto
    qed
    then obtain xs where xs: "walk_back p (Some t) [] [] = xs" "walk_to g s t xs" "distinct xs"
      "below (optimalPath g s t) (walk_weight g xs)" by blast
    have "walk_weight g xs = optimalPath g s t"
      using optimalPath_spec [OF assms] xs by (intro below_antisym) (auto simp add: walk_to_def)
    with False xs show ?thesis by (auto simp add: trace walk_to_def)
  qed
qed

end

interpretation reach_trace: selective_routing "graph_of BooleanSemiring es" UNIV for es
  by unfold_locales (auto simp add: sr_defs)

lemma trace_found_nonzero: "optimalPathTrace g source target = Some (v, path) \<Longrightarrow> v \<noteq> sr_zero (g_semiring g) \<or> source = target"
  by (auto simp add: optimalPathTrace_def Let_def case_prod_beta split: if_splits)

subsection \<open>Properties\<close>

text \<open>
  (C18) Over a semiring whose choice returns one of its arguments (trust, cost, latency, bottleneck,
  reliability, risk, log-probability, reachability), \<open>optimalPathTrace\<close> answers null exactly when the
  target is another node with value zero; otherwise it returns the optimal value with a path that
  starts at the source, follows edges, visits no node twice, ends at the target and has that value.
\<close>
theorem path_trace_correct:
  assumes "path_semiring (g_semiring g) carrier" and "graph_wf carrier g"
    and "\<And>a b. a \<in> carrier \<Longrightarrow> b \<in> carrier \<Longrightarrow> sr_add (g_semiring g) a b = a \<or> sr_add (g_semiring g) a b = b"
    and "source \<in> set (g_nodes g)" and "target \<in> set (g_nodes g)"
  shows "(optimalPathTrace g source target = None \<longleftrightarrow> source \<noteq> target \<and> optimalPath g source target = sr_zero (g_semiring g))
    \<and> (\<forall>v path. optimalPathTrace g source target = Some (v, path) \<longrightarrow> v = optimalPath g source target \<and> walk_to g source target path
        \<and> distinct path \<and> walk_weight g path = v)"
proof -
  have "case optimalPathTrace g source target of
      None \<Rightarrow> source \<noteq> target \<and> optimalPath g source target = sr_zero (g_semiring g)
    | Some (v, path) \<Rightarrow> v = optimalPath g source target \<and> walk_to g source target path
        \<and> distinct path \<and> walk_weight g path = v"
    using assms
    by (intro selective_routing.optimalPathTrace_spec selective_routing.intro)
      (auto simp add: selective_routing_axioms_def routing_def routing_axioms_def)
  then show ?thesis using trace_found_nonzero [of g source target] by (cases "optimalPathTrace g source target") auto
qed

text \<open>
  Over the product of trust and cost the trace can miss: in this network of three agents the
  target \<open>a\<close> has a non-zero value, so it can be reached, and yet the trace returns null, because
  \<open>a\<close> and \<open>b\<close> became each other's predecessors, one for its trust and the other for its cost.
\<close>
theorem product_trace_misses:
  "\<exists>g :: (jsnum \<times> jsnum) digraph.
     g_semiring g = productSemiring TrustSemiring CostSemiring
     \<and> optimalPath g ''s'' ''a'' = (Fin (9/10), Fin 2)
     \<and> walk_to g ''s'' ''a'' [''s'', ''a'']
     \<and> optimalPathTrace g ''s'' ''a'' = None"
proof -
  let ?sr = "productSemiring TrustSemiring CostSemiring"
  let ?g = "graph_of ?sr
      [(''s'', ''a'', (Fin (9/10), Fin 10)), (''s'', ''b'', (Fin (1/10), Fin 1)),
       (''a'', ''b'', (Fin 1, Fin 100)), (''b'', ''a'', (Fin 1, Fin 1))]"
  have "optimalPath ?g ''s'' ''a'' = (Fin (9/10), Fin 2)" by code_simp
  moreover have "walk_to ?g ''s'' ''a'' [''s'', ''a'']" by code_simp
  moreover have "optimalPathTrace ?g ''s'' ''a'' = None" by code_simp
  moreover have "g_semiring ?g = ?sr" by simp
  ultimately show ?thesis by blast
qed

subsection \<open>Witnesses\<close>

lemma demo_trace: "optimalPathTrace demo_network ''a'' ''c'' = Some (Fin (18/25), [''a'', ''b'', ''c''])"
  by code_simp

theorem path_trace_correct_witness:
  "walk_to demo_network ''a'' ''c'' [''a'', ''b'', ''c''] \<and> walk_weight demo_network [''a'', ''b'', ''c''] = Fin (18/25)"
proof -
  have "sr_add TrustSemiring a b = a \<or> sr_add TrustSemiring a b = b" for a b
    by (simp add: sr_defs math_max_def)
  with path_trace_correct [of demo_network unit_carrier "''a''" "''c''"] demo_network_routing
  show ?thesis
    by (simp add: demo_network_facts demo_trace routing_def routing_axioms_def del: walk_weight.simps)
qed

end
