(* ===== verification/Closure.thy ===== *)
theory Closure
  imports Traversal
begin

text \<open>
  All-pairs closure, \<open>transitiveClosure\<close> of \<open>packages/protocol/src/traversal.ts\<close>: the generalized
  Floyd-Warshall loops over a matrix that is updated in place. The matrix keeps each entry a
  combination of walk weights and only improves it; after the \<open>k\<close>-th pass it bounds every simple walk
  whose inner nodes are among the first \<open>k\<close>. So the closure and \<open>optimalPath\<close> give the same values.
\<close>

subsection \<open>The algorithm\<close>

definition mat_set :: "'a list list \<Rightarrow> nat \<Rightarrow> nat \<Rightarrow> 'a \<Rightarrow> 'a list list" where
  \<comment> \<open>\<open>dist[i]![j] = x\<close>\<close>
  "mat_set m i j x = m[i := (m ! i)[j := x]]"

definition node_index :: "string list \<Rightarrow> (string, nat) jsmap" where
  "node_index nodes = foldl (\<lambda>idx i. jsm_set (nodes ! i) i idx) [] [0..<length nodes]"

definition initial_matrix :: "'a semiring_ops \<Rightarrow> nat \<Rightarrow> 'a list list" where
  "initial_matrix sr n = map (\<lambda>i. map (\<lambda>j. if i = j then sr_one sr else sr_zero sr) [0..<n]) [0..<n]"

definition load_edges :: "'a digraph \<Rightarrow> (string, nat) jsmap \<Rightarrow> 'a list list \<Rightarrow> 'a list list" where
  "load_edges g idx m =
     foldl (\<lambda>m node.
         let i = the (jsm_get idx node)
         in foldl (\<lambda>m (neighbor, weight).
              let j = the (jsm_get idx neighbor)
              in mat_set m i j (sr_add (g_semiring g) (m ! i ! j) weight)) m (neighbors g node))
       m (g_nodes g)"

definition relax_matrix :: "'a semiring_ops \<Rightarrow> nat \<Rightarrow> 'a list list \<Rightarrow> 'a list list" where
  "relax_matrix sr n m =
     foldl (\<lambda>m k. foldl (\<lambda>m i. foldl (\<lambda>m j.
         let through_k = sr_mul sr (m ! i ! k) (m ! k ! j)
         in mat_set m i j (sr_add sr (m ! i ! j) through_k)) m [0..<n]) m [0..<n]) m [0..<n]"

definition transitiveClosure :: "'a digraph \<Rightarrow> (string, (string, 'a) jsmap) jsmap" where
  "transitiveClosure g =
     (let sr = g_semiring g; nodes = g_nodes g; n = length nodes; idx = node_index nodes;
          m = relax_matrix sr n (load_edges g idx (initial_matrix sr n))
      in foldl (\<lambda>result i. jsm_set (nodes ! i)
             (foldl (\<lambda>row j. jsm_set (nodes ! j) (m ! i ! j) row) [] [0..<n]) result)
           [] [0..<n])"

subsection \<open>Maps filled by index\<close>

lemma get_filled:
  assumes "distinct ns" and "k \<le> length ns" and "i < k"
  shows "jsm_get (foldl (\<lambda>r i. jsm_set (ns ! i) (f i) r) [] [0..<k]) (ns ! i) = Some (f i)"
  using assms(2,3)
proof (induction k)
  case (Suc k)
  then show ?case using assms(1) by (auto simp add: jsm_get_set nth_eq_iff_index_eq less_Suc_eq)
qed simp

lemma node_index_get: "distinct ns \<Longrightarrow> i < length ns \<Longrightarrow> jsm_get (node_index ns) (ns ! i) = Some i"
  using get_filled [of ns "length ns" i "\<lambda>i. i"] by (simp add: node_index_def)

lemma foldl_nested:
  "foldl (\<lambda>m i. foldl (\<lambda>m j. f m i j) m js) m is = foldl (\<lambda>m (i, j). f m i j) m (List.product is js)"
proof (induction "is" arbitrary: m)
  case (Cons i "is")
  have "foldl (\<lambda>m (i, j). f m i j) m (map (Pair i) js) = foldl (\<lambda>m j. f m i j) m js" for m
    by (induction js arbitrary: m) simp_all
  with Cons show ?case by simp
qed simp

subsection \<open>What an update of the matrix keeps\<close>

context routing
begin

abbreviation nn :: nat where "nn \<equiv> length (g_nodes g)"

abbreviation nd :: "nat \<Rightarrow> string" where "nd i \<equiv> g_nodes g ! i"

definition mat_inv :: "'a list list \<Rightarrow> bool" where
  "mat_inv m \<longleftrightarrow> length m = nn \<and> (\<forall>i < nn. length (m ! i) = nn)
     \<and> (\<forall>i < nn. \<forall>j < nn. attained (nd i) (nd j) (m ! i ! j))"

definition mat_grows :: "'a list list \<Rightarrow> 'a list list \<Rightarrow> bool" where
  "mat_grows m m' \<longleftrightarrow> (\<forall>i < nn. \<forall>j < nn. below (m ! i ! j) (m' ! i ! j))"

lemma mat_set_nth: "mat_inv m \<Longrightarrow> i < nn \<Longrightarrow> j < nn \<Longrightarrow> a < nn \<Longrightarrow> b < nn \<Longrightarrow>
    mat_set m i j x ! a ! b = (if a = i \<and> b = j then x else m ! a ! b)"
  by (auto simp add: mat_set_def mat_inv_def nth_list_update)

lemma mat_invD: "mat_inv m \<Longrightarrow> i < nn \<Longrightarrow> j < nn \<Longrightarrow> attained (nd i) (nd j) (m ! i ! j) \<and> m ! i ! j \<in> carrier"
  by (auto simp add: mat_inv_def dest: attained_in)

lemma mat_grows_refl: "mat_inv m \<Longrightarrow> mat_grows m m"
  using mat_invD by (auto simp add: mat_grows_def)

lemma mat_grows_trans: "mat_inv a \<Longrightarrow> mat_inv b \<Longrightarrow> mat_inv c \<Longrightarrow> mat_grows a b \<Longrightarrow> mat_grows b c \<Longrightarrow> mat_grows a c"
  unfolding mat_grows_def using below_trans mat_invD by meson

lemma mat_update:
  assumes "mat_inv m" and "i < nn" and "j < nn" and "attained (nd i) (nd j) b"
  defines "m' \<equiv> mat_set m i j (sr_add sr (m ! i ! j) b)"
  shows "mat_inv m'" and "mat_grows m m'" and "below b (m' ! i ! j)"
proof -
  note nth = mat_set_nth [OF assms(1-3)]
  have "attained (nd i) (nd j) (sr_add sr (m ! i ! j) b)"
    using attained_add mat_invD [OF assms(1-3)] assms(4) by blast
  then have "\<forall>a < nn. \<forall>b < nn. attained (nd a) (nd b) (m' ! a ! b)"
    using assms(1) unfolding m'_def by (auto simp add: nth mat_inv_def)
  moreover have "length m' = nn \<and> (\<forall>a < nn. length (m' ! a) = nn)"
    using assms(1-3) unfolding m'_def by (auto simp add: mat_inv_def mat_set_def nth_list_update)
  ultimately show "mat_inv m'" by (simp add: mat_inv_def)
  show "mat_grows m m'"
    using mat_invD [OF assms(1)] assms(2-4) unfolding m'_def
    by (auto simp add: mat_grows_def nth below_add1)
  show "below b (m' ! i ! j)"
    using mat_invD [OF assms(1-3)] assms(2-4) unfolding m'_def by (simp add: nth below_add2)
qed

lemma mat_fold:
  assumes "mat_inv m" and "\<And>m i j. mat_inv m \<Longrightarrow> (i, j) \<in> set ps \<Longrightarrow>
      i < nn \<and> j < nn \<and> attained (nd i) (nd j) (b m i j)"
    and "\<And>m m' i j. mat_inv m \<Longrightarrow> mat_inv m' \<Longrightarrow> mat_grows m m' \<Longrightarrow> (i, j) \<in> set ps \<Longrightarrow> below (b m i j) (b m' i j)"
  defines "m' \<equiv> foldl (\<lambda>m (i, j). mat_set m i j (sr_add sr (m ! i ! j) (b m i j))) m ps"
  shows "mat_inv m' \<and> mat_grows m m' \<and> (\<forall>(i, j) \<in> set ps. below (b m i j) (m' ! i ! j))"
  unfolding m'_def using assms(1-3)
proof (induction ps arbitrary: m)
  case Nil
  then show ?case by (simp add: mat_grows_refl)
next
  case (Cons p ps)
  obtain i j where p: "p = (i, j)" by (cases p)
  let ?m = "mat_set m i j (sr_add sr (m ! i ! j) (b m i j))"
  let ?r = "foldl (\<lambda>m (i, j). mat_set m i j (sr_add sr (m ! i ! j) (b m i j))) ?m ps"
  have ij: "i < nn" "j < nn" "attained (nd i) (nd j) (b m i j)" using Cons.prems(2) [OF Cons.prems(1)] p by auto
  note u = mat_update [OF Cons.prems(1) ij]
  have ih: "mat_inv ?r \<and> mat_grows ?m ?r \<and> (\<forall>(i, j) \<in> set ps. below (b ?m i j) (?r ! i ! j))"
    by (rule Cons.IH [OF u(1)]) (use Cons.prems(2,3) in \<open>auto intro: list.set_intros(2)\<close>)
  have "below (b m i j) (?r ! i ! j)"
    using ih u ij mat_invD [OF u(1) ij(1,2)] mat_invD [of ?r i j]
    by (blast intro: below_trans [OF _ _ _ u(3)] attained_in dest: mat_grows_def [THEN iffD1, rule_format])
  moreover have "below (b m x y) (?r ! x ! y)" if "(x, y) \<in> set ps" for x y
  proof -
    have xy: "x < nn" "y < nn" "b m x y \<in> carrier" "b ?m x y \<in> carrier"
      using that Cons.prems(2) [OF Cons.prems(1), of x y] Cons.prems(2) [OF u(1), of x y] by auto
    have "below (b m x y) (b ?m x y)" using Cons.prems(3) [OF Cons.prems(1) u(1,2), of x y] that by simp
    moreover have "below (b ?m x y) (?r ! x ! y)" using ih that by blast
    ultimately show ?thesis using below_trans xy mat_invD [of ?r x y] ih by blast
  qed
  ultimately show ?case using ih mat_grows_trans [OF Cons.prems(1) u(1) _ u(2)] p by auto
qed

subsubsection \<open>Loading the edges\<close>

definition edge_pairs :: "(nat \<times> nat) list" where
  "edge_pairs = concat (map (\<lambda>i. map (\<lambda>(v, w). (i, the (jsm_get (node_index (g_nodes g)) v))) (neighbors g (nd i))) [0..<nn])"

lemma distinct_nodes: "distinct (g_nodes g)"
  using wf by (simp add: graph_wf_def)

lemma node_at:
  assumes "v \<in> set (g_nodes g)"
  obtains j where "j < nn" and "nd j = v" and "jsm_get (node_index (g_nodes g)) v = Some j"
  using assms node_index_get [OF distinct_nodes] by (metis in_set_conv_nth)

lemma neighbor_edge: "(v, w) \<in> set (neighbors g u) \<longleftrightarrow> edge g u v w"
  using wf by (simp add: edge_def graph_wf_def jsm_in_set_iff)

lemma foldl_concat_map: "foldl f m (concat xss) = foldl (foldl f) m xss"
  by (induction xss arbitrary: m) simp_all

lemma load_edges_fold:
  "load_edges g (node_index (g_nodes g)) m =
     foldl (\<lambda>m (i, j). mat_set m i j (sr_add sr (m ! i ! j) (getEdge g (nd i) (nd j)))) m edge_pairs"
proof -
  let ?idx = "node_index (g_nodes g)"
  let ?in = "\<lambda>m i. foldl (\<lambda>m (v, w). mat_set m i (the (jsm_get ?idx v)) (sr_add sr (m ! i ! the (jsm_get ?idx v)) w)) m (neighbors g (nd i))"
  have nodes: "g_nodes g = map nd [0..<nn]" by (simp add: map_nth)
  have "load_edges g ?idx m = foldl (\<lambda>m i. ?in m i) m [0..<nn]"
    unfolding load_edges_def Let_def
    by (subst (2) nodes, subst foldl_map) (auto intro!: foldl_cong simp add: node_index_get [OF distinct_nodes])
  also have "\<dots> = foldl (\<lambda>m i. foldl (\<lambda>m (i, j). mat_set m i j (sr_add sr (m ! i ! j) (getEdge g (nd i) (nd j)))) m
      (map (\<lambda>(v, w). (i, the (jsm_get ?idx v))) (neighbors g (nd i)))) m [0..<nn]"
  proof (rule foldl_cong)
    fix m i assume "i \<in> set [0..<nn]"
    have "getEdge g (nd i) (nd (the (jsm_get ?idx v))) = w" if "(v, w) \<in> set (neighbors g (nd i))" for v w
    proof -
      have e: "edge g (nd i) v w" using that by (simp add: neighbor_edge)
      obtain j where "nd j = v" "jsm_get ?idx v = Some j" using node_at [OF edge_walk(5) [OF e]] by blast
      with e show ?thesis by (simp add: edge_iff)
    qed
    then show "?in m i = foldl (\<lambda>m (i, j). mat_set m i j (sr_add sr (m ! i ! j) (getEdge g (nd i) (nd j)))) m
      (map (\<lambda>(v, w). (i, the (jsm_get ?idx v))) (neighbors g (nd i)))"
      by (subst foldl_map) (auto intro!: foldl_cong)
  qed simp_all
  finally show ?thesis by (simp add: edge_pairs_def foldl_concat_map foldl_map)
qed

lemma edge_pairs_iff: "(i, j) \<in> set edge_pairs \<longleftrightarrow> i < nn \<and> j < nn \<and> hasEdge g (nd i) (nd j)"
proof
  assume "(i, j) \<in> set edge_pairs"
  then obtain v w where i: "i < nn" and e: "edge g (nd i) v w" and j: "j = the (jsm_get (node_index (g_nodes g)) v)"
    by (auto simp add: edge_pairs_def neighbor_edge)
  with node_at [OF edge_walk(5) [OF e]] show "i < nn \<and> j < nn \<and> hasEdge g (nd i) (nd j)"
    by (metis edge_iff option.sel)
next
  assume a: "i < nn \<and> j < nn \<and> hasEdge g (nd i) (nd j)"
  then have "(nd j, getEdge g (nd i) (nd j)) \<in> set (neighbors g (nd i))" by (simp add: neighbor_edge edge_iff)
  with a show "(i, j) \<in> set edge_pairs"
    by (force simp add: edge_pairs_def node_index_get [OF distinct_nodes])
qed

definition mat_covers :: "nat \<Rightarrow> 'a list list \<Rightarrow> bool" where
  "mat_covers k m \<longleftrightarrow> (\<forall>i < nn. below (sr_one sr) (m ! i ! i))
     \<and> (\<forall>i j mids. i < nn \<longrightarrow> j < nn \<longrightarrow> is_walk g (nd i # mids @ [nd j]) \<longrightarrow> distinct mids \<longrightarrow>
          set mids \<subseteq> set (take k (g_nodes g)) \<longrightarrow> below (walk_weight g (nd i # mids @ [nd j])) (m ! i ! j))"

lemma loaded_spec:
  defines "m \<equiv> load_edges g (node_index (g_nodes g)) (initial_matrix sr nn)"
  shows "mat_inv m \<and> mat_covers 0 m"
proof -
  let ?m0 = "initial_matrix sr nn"
  have one: "attained (nd i) (nd i) (sr_one sr)" if "i < nn" for i
    using attained_walk [of "nd i" "nd i" "[nd i]"] that by (simp add: walk_to_def)
  have m0: "mat_inv ?m0" using one by (auto simp add: mat_inv_def initial_matrix_def)
  have spec: "mat_inv m \<and> mat_grows ?m0 m \<and> (\<forall>(i, j) \<in> set edge_pairs. below (getEdge g (nd i) (nd j)) (m ! i ! j))"
    unfolding m_def load_edges_fold
  proof (rule mat_fold [OF m0])
    fix m i j assume "(i, j) \<in> set edge_pairs"
    then have "edge g (nd i) (nd j) (getEdge g (nd i) (nd j))" "i < nn" "j < nn" by (simp_all add: edge_pairs_iff edge_iff)
    with attained_walk [OF edge_walk(1)] edge_walk(2) show "i < nn \<and> j < nn \<and> attained (nd i) (nd j) (getEdge g (nd i) (nd j))"
      by metis
  next
    fix i j assume "(i, j) \<in> set edge_pairs"
    then show "below (getEdge g (nd i) (nd j)) (getEdge g (nd i) (nd j))"
      by (simp add: edge_pairs_iff hasEdge_nodes)
  qed
  moreover have "below (sr_one sr) (m ! i ! i)" if "i < nn" for i
  proof -
    have "below (?m0 ! i ! i) (m ! i ! i)" using spec that by (simp add: mat_grows_def)
    with that show ?thesis by (simp add: initial_matrix_def)
  qed
  moreover have "below (walk_weight g [nd i, nd j]) (m ! i ! j)"
    if "i < nn" "j < nn" "is_walk g [nd i, nd j]" for i j
    using that spec hasEdge_nodes(3) [of "nd i" "nd j"] by (auto simp add: edge_pairs_iff)
  ultimately show ?thesis by (auto simp add: mat_covers_def)
qed

subsubsection \<open>The passes\<close>

lemma pass_spec:
  assumes "mat_inv m" and "mat_covers k m" and "k < nn"
  defines "m' \<equiv> foldl (\<lambda>m i. foldl (\<lambda>m j. mat_set m i j (sr_add sr (m ! i ! j) (sr_mul sr (m ! i ! k) (m ! k ! j)))) m [0..<nn]) m [0..<nn]"
  shows "mat_inv m' \<and> mat_covers (Suc k) m'"
proof -
  have spec: "mat_inv m' \<and> mat_grows m m'
      \<and> (\<forall>(i, j) \<in> set (List.product [0..<nn] [0..<nn]). below (sr_mul sr (m ! i ! k) (m ! k ! j)) (m' ! i ! j))"
    unfolding m'_def foldl_nested
  proof (rule mat_fold [OF assms(1)])
    fix m i j assume "mat_inv m" "(i, j) \<in> set (List.product [0..<nn] [0..<nn])"
    then show "i < nn \<and> j < nn \<and> attained (nd i) (nd j) (sr_mul sr (m ! i ! k) (m ! k ! j))"
      using attained_mul [of "nd i" "nd k" "m ! i ! k" "nd j" "m ! k ! j"] mat_invD [of m] assms(3) by simp
  next
    fix m m' i j
    assume a: "mat_inv m" "mat_inv m'" "mat_grows m m'" "(i, j) \<in> set (List.product [0..<nn] [0..<nn])"
    then have ij: "i < nn" "j < nn" by simp_all
    note c = mat_invD [OF a(1) ij(1) assms(3)] mat_invD [OF a(1) assms(3) ij(2)]
      mat_invD [OF a(2) ij(1) assms(3)] mat_invD [OF a(2) assms(3) ij(2)]
    have "below (sr_mul sr (m ! i ! k) (m ! k ! j)) (sr_mul sr (m' ! i ! k) (m ! k ! j))"
      using a(3) ij assms(3) c by (intro mul_mono_left) (simp_all add: mat_grows_def)
    moreover have "below (sr_mul sr (m' ! i ! k) (m ! k ! j)) (sr_mul sr (m' ! i ! k) (m' ! k ! j))"
      using a(3) ij assms(3) c by (intro mul_mono_right) (simp_all add: mat_grows_def)
    ultimately show "below (sr_mul sr (m ! i ! k) (m ! k ! j)) (sr_mul sr (m' ! i ! k) (m' ! k ! j))"
      using c below_trans by (meson mul_in)
  qed
  have up: "below a (m' ! i ! j)" if "i < nn" "j < nn" "a \<in> carrier" "below a (m ! i ! j)" for a i j
    using below_trans [OF that(3) _ _ that(4)] mat_invD [OF assms(1) that(1,2)] mat_invD [of m' i j] spec that
    by (auto simp add: mat_grows_def)
  have "below (walk_weight g (nd i # mids @ [nd j])) (m' ! i ! j)"
    if w: "i < nn" "j < nn" "is_walk g (nd i # mids @ [nd j])" "distinct mids" "set mids \<subseteq> set (take (Suc k) (g_nodes g))" for i j mids
  proof (cases "nd k \<in> set mids")
    case False
    with w(5) assms(3) have "set mids \<subseteq> set (take k (g_nodes g))" by (auto simp add: take_Suc_conv_app_nth)
    with assms(2) w have "below (walk_weight g (nd i # mids @ [nd j])) (m ! i ! j)" by (simp add: mat_covers_def)
    with up w show ?thesis by simp
  next
    case True
    then obtain as bs where mids: "mids = as @ nd k # bs" by (meson split_list)
    have sub: "set as \<subseteq> set (take k (g_nodes g))" "set bs \<subseteq> set (take k (g_nodes g))"
      using w(4,5) mids assms(3) by (auto simp add: take_Suc_conv_app_nth)
    have walks: "is_walk g (nd i # as @ [nd k])" "is_walk g (nd k # bs @ [nd j])"
      using w(3) mids is_walk_append [of "nd i # as" "nd k" "bs @ [nd j]"] by simp_all
    have b: "below (walk_weight g (nd i # as @ [nd k])) (m ! i ! k)" "below (walk_weight g (nd k # bs @ [nd j])) (m ! k ! j)"
      using assms(2,3) w walks sub mids by (simp_all add: mat_covers_def)
    note c = weight_in [OF walks(1)] weight_in [OF walks(2)] mat_invD [OF assms(1) w(1) assms(3)] mat_invD [OF assms(1) assms(3) w(2)]
    have "walk_weight g (nd i # mids @ [nd j]) = sr_mul sr (walk_weight g (nd i # as @ [nd k])) (walk_weight g (nd k # bs @ [nd j]))"
      using weight_append [of "nd i # as" "nd k" "bs @ [nd j]"] w(3) mids by simp
    moreover have "below (sr_mul sr (walk_weight g (nd i # as @ [nd k])) (walk_weight g (nd k # bs @ [nd j])))
        (sr_mul sr (m ! i ! k) (m ! k ! j))"
      using below_trans [OF _ _ _ mul_mono_left [OF c(1) _ c(2) b(1)] mul_mono_right [OF _ c(2) _ b(2), of "m ! i ! k"]] c
      by simp
    moreover have "below (sr_mul sr (m ! i ! k) (m ! k ! j)) (m' ! i ! j)" using spec w by auto
    ultimately show ?thesis
      using below_trans [of "walk_weight g (nd i # mids @ [nd j])" "sr_mul sr (m ! i ! k) (m ! k ! j)" "m' ! i ! j"]
        c mat_invD [of m' i j] spec w(1,2) by simp
  qed
  then show ?thesis using spec up assms(2) by (auto simp add: mat_covers_def)
qed

lemma relax_matrix_spec:
  assumes "mat_inv m" and "mat_covers 0 m"
  shows "mat_inv (relax_matrix sr nn m) \<and> mat_covers nn (relax_matrix sr nn m)"
proof -
  let ?pass = "\<lambda>m k. foldl (\<lambda>m i. foldl (\<lambda>m j. mat_set m i j (sr_add sr (m ! i ! j) (sr_mul sr (m ! i ! k) (m ! k ! j)))) m [0..<nn]) m [0..<nn]"
  have "k \<le> nn \<Longrightarrow> mat_inv (foldl ?pass m [0..<k]) \<and> mat_covers k (foldl ?pass m [0..<k])" for k
  proof (induction k)
    case (Suc k)
    with pass_spec [of "foldl ?pass m [0..<k]" k] show ?case by simp
  qed (simp add: assms)
  from this [of nn] show ?thesis by (simp add: relax_matrix_def Let_def)
qed

definition closure_at :: "string \<Rightarrow> string \<Rightarrow> 'a option" where
  "closure_at u v = (case jsm_get (transitiveClosure g) u of Some row \<Rightarrow> jsm_get row v | None \<Rightarrow> None)"

lemma closure_spec:
  assumes "u \<in> set (g_nodes g)" and "v \<in> set (g_nodes g)"
  shows "\<exists>a. closure_at u v = Some a \<and> attained u v a \<and> (\<forall>xs. walk_to g u v xs \<longrightarrow> below (walk_weight g xs) a)"
proof -
  let ?m = "relax_matrix sr nn (load_edges g (node_index (g_nodes g)) (initial_matrix sr nn))"
  have spec: "mat_inv ?m" "mat_covers nn ?m" using relax_matrix_spec loaded_spec by simp_all
  obtain i j where ij: "i < nn" "nd i = u" "j < nn" "nd j = v" using assms by (metis in_set_conv_nth)
  have "jsm_get (transitiveClosure g) (nd i) = Some (foldl (\<lambda>row j. jsm_set (nd j) (?m ! i ! j) row) [] [0..<nn])"
    unfolding transitiveClosure_def Let_def using ij by (intro get_filled distinct_nodes) simp_all
  moreover have "jsm_get (foldl (\<lambda>row j. jsm_set (nd j) (?m ! i ! j) row) [] [0..<nn]) (nd j) = Some (?m ! i ! j)"
    using ij by (intro get_filled distinct_nodes) simp_all
  ultimately have at: "closure_at u v = Some (?m ! i ! j)" using ij by (simp add: closure_at_def)
  have "below (walk_weight g xs) (?m ! i ! j)" if xs: "walk_to g u v xs" for xs
  proof -
    from simple_walk [OF xs] obtain ys where ys: "walk_to g u v ys" "distinct ys"
      "below (walk_weight g xs) (walk_weight g ys)" by blast
    have "below (walk_weight g ys) (?m ! i ! j)"
      using ys(1)
    proof (cases rule: walk_to_cases)
      case 1
      then have "i = j" using ij nth_eq_iff_index_eq [OF distinct_nodes ij(1,3)] by simp
      with 1 spec(2) ij show ?thesis by (simp add: mat_covers_def)
    next
      case (2 zs w)
      then obtain mids where zs: "zs = u # mids" by (cases zs) (auto simp add: walk_to_def)
      have "set mids \<subseteq> set (g_nodes g)" using walk_nodes [of ys] ys 2 zs by (auto simp add: walk_to_def)
      with spec(2) ij ys 2(1) zs show ?thesis by (auto simp add: mat_covers_def walk_to_def)
    qed
    with ys xs mat_invD [OF spec(1) ij(1,3)] show ?thesis
      by (meson below_trans weight_in walk_to_def)
  qed
  with at mat_invD [OF spec(1) ij(1,3)] ij show ?thesis by auto
qed

lemma closure_eq_optimalPath:
  assumes "u \<in> set (g_nodes g)" and "v \<in> set (g_nodes g)"
  shows "closure_at u v = Some (optimalPath g u v)"
proof -
  have least: "below a b" if "attained u v a" "b \<in> carrier" "\<forall>xs. walk_to g u v xs \<longrightarrow> below (walk_weight g xs) b" for a b
    using that by (auto simp add: attained_def walk_to_def intro!: choice_least)
  from closure_spec [OF assms] obtain a where a: "closure_at u v = Some a" "attained u v a"
    "\<forall>xs. walk_to g u v xs \<longrightarrow> below (walk_weight g xs) a" by blast
  with optimalPath_spec [OF assms] have "a = optimalPath g u v"
    by (intro below_antisym) (auto intro: least)
  with a show ?thesis by simp
qed

end

subsection \<open>Properties\<close>

text \<open>
  (C29) The all-pairs closure and the single-source search agree: over any path semiring and any
  well-formed graph, the closure has a row for every node with an entry for every node, and that
  entry is the value \<open>optimalPath\<close> computes between the two, though the matrix is updated in place.
\<close>
theorem closure_agrees_with_paths:
  assumes "path_semiring (g_semiring g) carrier" and "graph_wf carrier g"
    and "source \<in> set (g_nodes g)" and "target \<in> set (g_nodes g)"
  shows "\<exists>row. jsm_get (transitiveClosure g) source = Some row
    \<and> jsm_get row target = Some (optimalPath g source target)"
proof -
  have r: "routing g carrier" using assms(1,2) by (simp add: routing_def routing_axioms_def)
  from routing.closure_eq_optimalPath [OF r assms(3,4)] show ?thesis
    by (simp add: routing.closure_at_def [OF r] split: option.splits)
qed

subsection \<open>Witnesses\<close>

theorem closure_agrees_with_paths_witness:
  "\<exists>row. jsm_get (transitiveClosure demo_network) ''a'' = Some row \<and> jsm_get row ''c'' = Some (Fin (18/25))"
  using closure_agrees_with_paths [of demo_network unit_carrier "''a''" "''c''"] demo_network_routing
  by (simp add: demo_network_facts demo_optimal routing_def routing_axioms_def)

end
