(* ===== verification/Pareto.thy ===== *)
theory Pareto
  imports Traversal
begin

text \<open>
  Path-preserving multi-objective routing, \<open>packages/semiring/src/pareto.ts\<close>: frontiers of weighted
  paths, the pruning of dominated ones, the frontier semiring, \<open>frontierPaths\<close> over the generic
  traversal and the choice by a scalar policy. The locale \<open>dimensions\<close> states what each dimension's
  semiring promises. Pruning returns an antichain that dominates everything it was given; every
  route a frontier reports is a walk of the graph with exactly the weight its edges compose to; and
  a policy that is monotone in the dimensions loses nothing by the pruning.
  \<open>localeCompare\<close> and \<open>JSON.stringify\<close> are parameters.
\<close>

subsection \<open>The order of numbers\<close>

text \<open>Numbers in their order, with \<open>NaN\<close> first; \<open>num_le\<close> agrees with it off \<open>NaN\<close>.\<close>

fun num_rank :: "jsnum \<Rightarrow> nat \<times> rat" where
  "num_rank NaN = (0, 0)"
| "num_rank NInf = (1, 0)"
| "num_rank (Fin x) = (2, x)"
| "num_rank PInf = (3, 0)"

instantiation jsnum :: linorder
begin

definition less_eq_jsnum :: "jsnum \<Rightarrow> jsnum \<Rightarrow> bool" where
  "less_eq_jsnum a b \<longleftrightarrow> fst (num_rank a) < fst (num_rank b)
     \<or> fst (num_rank a) = fst (num_rank b) \<and> snd (num_rank a) \<le> snd (num_rank b)"

definition less_jsnum :: "jsnum \<Rightarrow> jsnum \<Rightarrow> bool" where
  "less_jsnum a b \<longleftrightarrow> a \<le> b \<and> \<not> b \<le> (a :: jsnum)"

instance
proof
  fix a b :: jsnum
  show "a \<le> b \<Longrightarrow> b \<le> a \<Longrightarrow> a = b"
    by (cases a; cases b) (auto simp add: less_eq_jsnum_def)
qed (auto simp add: less_eq_jsnum_def less_jsnum_def)

end

lemma num_le_iff: "a \<noteq> NaN \<Longrightarrow> b \<noteq> NaN \<Longrightarrow> num_le a b \<longleftrightarrow> a \<le> b"
  by (cases a; cases b) (auto simp add: less_eq_jsnum_def)

subsection \<open>Frontiers\<close>

type_synonym dims = "(string, jsnum semiring_ops) jsmap"
type_synonym weight = "(string, jsnum) jsmap"

record path_weight =
  pw_weight :: weight
  pw_path :: "string list"

type_synonym frontier = "path_weight list"

definition DEFAULT_MAX_FRONTIER_PATHS :: nat where
  "DEFAULT_MAX_FRONTIER_PATHS = 32"

definition dominatesOrEquals :: "dims \<Rightarrow> weight \<Rightarrow> weight \<Rightarrow> bool" where
  "dominatesOrEquals dims a b =
     list_all (\<lambda>(key, sr).
       sr_equal sr (sr_add sr (record_field a key) (record_field b key)) (record_field a key)) dims"

definition weightsEqual :: "dims \<Rightarrow> weight \<Rightarrow> weight \<Rightarrow> bool" where
  "weightsEqual dims a b \<longleftrightarrow> dominatesOrEquals dims a b \<and> dominatesOrEquals dims b a"

definition pathKey :: "string list \<Rightarrow> string" where
  \<comment> \<open>the separator is the character U+0000\<close>
  "pathKey p = js_join [char_of (0::nat)] p"

definition route_order :: "(string \<Rightarrow> string \<Rightarrow> int) \<Rightarrow> path_weight \<Rightarrow> path_weight \<Rightarrow> int" where
  "route_order localeCompare =
     cmp_then (\<lambda>x y. int (length (pw_path x)) - int (length (pw_path y)))
       (\<lambda>x y. localeCompare (pathKey (pw_path x)) (pathKey (pw_path y)))"

definition keep :: "dims \<Rightarrow> path_weight list \<Rightarrow> path_weight \<Rightarrow> path_weight list" where
  \<comment> \<open>one pass of the loop over the sorted candidates\<close>
  "keep dims kept cand =
     (if list_ex (\<lambda>k. weightsEqual dims (pw_weight k) (pw_weight cand)
                    \<or> dominatesOrEquals dims (pw_weight k) (pw_weight cand)) kept
      then kept
      else filter (\<lambda>k. \<not> dominatesOrEquals dims (pw_weight cand) (pw_weight k)) kept @ [cand])"

definition prune :: "(string \<Rightarrow> string \<Rightarrow> int) \<Rightarrow> dims \<Rightarrow> path_weight list \<Rightarrow> nat \<Rightarrow> frontier" where
  "prune localeCompare dims items maxPaths =
     (let sorted = js_sort (route_order localeCompare) items;
          kept = foldl (keep dims) [] sorted;
          kept = js_sort (route_order localeCompare) kept
      in if length kept > maxPaths then take maxPaths kept else kept)"

definition frontier_key :: "((string \<times> jsnum) list \<Rightarrow> string) \<Rightarrow> path_weight \<Rightarrow> string" where
  "frontier_key stringify p =
     pathKey (pw_path p) @ ''|''
       @ stringify (map (\<lambda>k. (k, record_field (pw_weight p) k)) (sort (jsm_keys (pw_weight p))))"

definition paretoPathSemiring :: "(string \<Rightarrow> string \<Rightarrow> int) \<Rightarrow> ((string \<times> jsnum) list \<Rightarrow> string) \<Rightarrow>
    dims \<Rightarrow> nat option \<Rightarrow> frontier semiring_ops" where
  "paretoPathSemiring localeCompare stringify dims opt_maxPaths =
     (let maxPaths = (case opt_maxPaths of Some n \<Rightarrow> n | None \<Rightarrow> DEFAULT_MAX_FRONTIER_PATHS);
          rec = recordSemiring dims
      in \<lparr> sr_zero = [],
           sr_one = [\<lparr> pw_weight = sr_one rec, pw_path = [] \<rparr>],
           sr_add = (\<lambda>a b. prune localeCompare dims (a @ b) maxPaths),
           sr_mul = (\<lambda>a b. prune localeCompare dims
             (concat (map (\<lambda>x. map (\<lambda>y. \<lparr> pw_weight = sr_mul rec (pw_weight x) (pw_weight y),
                                            pw_path = pw_path x @ pw_path y \<rparr>) b) a)) maxPaths),
           sr_eq = Some (\<lambda>a b. length a = length b \<and>
             list_all (\<lambda>p. frontier_key stringify p \<in> set (map (frontier_key stringify) b)) a) \<rparr>)"

definition liftFrontier :: "(string \<Rightarrow> string \<Rightarrow> int) \<Rightarrow> ((string \<times> jsnum) list \<Rightarrow> string) \<Rightarrow>
    weight digraph \<Rightarrow> dims \<Rightarrow> nat option \<Rightarrow> frontier digraph" where
  "liftFrontier localeCompare stringify g dims maxPaths =
     (let lifted = foldl addNode (newDigraph (paretoPathSemiring localeCompare stringify dims maxPaths)) (g_nodes g)
      in foldl (\<lambda>h (from, to, w). setEdge h from to [\<lparr> pw_weight = w, pw_path = [to] \<rparr>]) lifted (edges g))"

definition frontierPaths :: "(string \<Rightarrow> string \<Rightarrow> int) \<Rightarrow> ((string \<times> jsnum) list \<Rightarrow> string) \<Rightarrow>
    weight digraph \<Rightarrow> dims \<Rightarrow> string \<Rightarrow> nat option \<Rightarrow> (string, frontier) jsmap" where
  "frontierPaths localeCompare stringify g dims source maxPaths =
     optimalPaths (liftFrontier localeCompare stringify g dims maxPaths) source"

definition score_order :: "(string \<Rightarrow> string \<Rightarrow> int) \<Rightarrow> path_weight \<times> jsnum \<Rightarrow> path_weight \<times> jsnum \<Rightarrow> int" where
  \<comment> \<open>\<open>y.s - x.s\<close> is falsy (0 or NaN) on equal scores, and the route order decides\<close>
  "score_order localeCompare =
     cmp_then (\<lambda>x y. if snd x = snd y then 0 else if snd y < snd x then - 1 else 1)
       (\<lambda>x y. route_order localeCompare (fst x) (fst y))"

definition chooseFromFrontier :: "(string \<Rightarrow> string \<Rightarrow> int) \<Rightarrow> frontier \<Rightarrow> (weight \<Rightarrow> string list \<Rightarrow> jsnum) \<Rightarrow>
    (path_weight \<times> jsnum \<times> frontier) option" where
  "chooseFromFrontier localeCompare frontier score =
     (if length frontier = 0 then None
      else
        (let scored = map (\<lambda>p. let s = score (pw_weight p) (pw_path p) in (p, if s = NaN then NInf else s)) frontier;
             scored = js_sort (score_order localeCompare) scored
         in Some (fst (hd scored), snd (hd scored), map fst scored)))"

subsection \<open>Dominance\<close>

locale dimensions =
  fixes dims :: dims and carriers :: "string \<Rightarrow> jsnum set"
  assumes dim_semiring: "(key, sr) \<in> set dims \<Longrightarrow> path_semiring sr (carriers key)"
begin

definition valid :: "weight \<Rightarrow> bool" where
  "valid w \<longleftrightarrow> (\<forall>(key, sr) \<in> set dims. record_field w key \<in> carriers key)"

lemma dominates_iff:
  assumes "valid a" and "valid b"
  shows "dominatesOrEquals dims a b \<longleftrightarrow>
    (\<forall>(key, sr) \<in> set dims. path_semiring.below sr (record_field b key) (record_field a key))"
proof -
  have "sr_equal sr (sr_add sr (record_field a key) (record_field b key)) (record_field a key)
      \<longleftrightarrow> path_semiring.below sr (record_field b key) (record_field a key)"
    if "(key, sr) \<in> set dims" for key sr
  proof -
    have p: "path_semiring sr (carriers key)" using dim_semiring [OF that] .
    have c: "record_field a key \<in> carriers key" "record_field b key \<in> carriers key"
      using assms that by (auto simp add: valid_def)
    show ?thesis
      using path_semiring.eq_iff [OF p path_semiring.add_in [OF p c] c(1)] path_semiring.add_comm [OF p c]
      by (simp add: path_semiring.below_def [OF p])
  qed
  then show ?thesis by (auto simp add: dominatesOrEquals_def list_all_iff)
qed

lemma dominates_refl:
  assumes "valid a"
  shows "dominatesOrEquals dims a a"
  unfolding dominates_iff [OF assms assms]
  using assms path_semiring.below_refl [OF dim_semiring] by (auto simp add: valid_def)

lemma dominates_trans:
  assumes "valid a" "valid b" "valid c" "dominatesOrEquals dims a b" "dominatesOrEquals dims b c"
  shows "dominatesOrEquals dims a c"
proof -
  have "path_semiring.below sr (record_field c key) (record_field a key)" if k: "(key, sr) \<in> set dims" for key sr
  proof -
    have "record_field a key \<in> carriers key" "record_field b key \<in> carriers key" "record_field c key \<in> carriers key"
      using assms(1-3) k by (auto simp add: valid_def)
    then show ?thesis
      using path_semiring.below_trans [OF dim_semiring [OF k], of "record_field c key" "record_field b key"] assms k
      by (fastforce simp add: dominates_iff)
  qed
  then show ?thesis using assms(1,3) by (auto simp add: dominates_iff)
qed

definition antichain :: "path_weight list \<Rightarrow> bool" where
  "antichain r \<longleftrightarrow> distinct r
     \<and> (\<forall>x \<in> set r. \<forall>y \<in> set r. x \<noteq> y \<longrightarrow> \<not> dominatesOrEquals dims (pw_weight x) (pw_weight y))"

definition covers :: "path_weight list \<Rightarrow> path_weight list \<Rightarrow> bool" where
  "covers r items \<longleftrightarrow> (\<forall>x \<in> set items. \<exists>y \<in> set r. dominatesOrEquals dims (pw_weight y) (pw_weight x))"

lemma antichain_take: "antichain r \<Longrightarrow> antichain (take n r)"
  unfolding antichain_def using in_set_takeD [of _ n r] distinct_take [of r n] by blast

lemma keep_spec:
  assumes "set kept \<subseteq> set seen" and "antichain kept" and "covers kept seen"
    and "\<forall>x \<in> set (seen @ [cand]). valid (pw_weight x)"
  shows "set (keep dims kept cand) \<subseteq> set (seen @ [cand]) \<and> antichain (keep dims kept cand)
    \<and> covers (keep dims kept cand) (seen @ [cand])"
proof (cases "\<exists>k \<in> set kept. dominatesOrEquals dims (pw_weight k) (pw_weight cand)")
  case True
  then have "keep dims kept cand = kept" by (auto simp add: keep_def list_ex_iff)
  with True assms show ?thesis by (auto simp add: covers_def)
next
  case False
  let ?r = "filter (\<lambda>k. \<not> dominatesOrEquals dims (pw_weight cand) (pw_weight k)) kept @ [cand]"
  have r: "keep dims kept cand = ?r" using False by (auto simp add: keep_def list_ex_iff weightsEqual_def)
  have valid: "valid (pw_weight x)" if "x \<in> set kept \<or> x \<in> set seen \<or> x = cand" for x
    using that assms(1,4) by auto
  have "cand \<notin> set kept" using False dominates_refl valid by blast
  then have "antichain ?r" using assms(2) False by (auto simp add: antichain_def)
  moreover have "\<exists>y \<in> set ?r. dominatesOrEquals dims (pw_weight y) (pw_weight x)" if "x \<in> set (seen @ [cand])" for x
  proof (cases "x = cand")
    case True
    then show ?thesis using dominates_refl valid by simp
  next
    case neq: False
    with that assms(3) obtain k where k: "k \<in> set kept" "dominatesOrEquals dims (pw_weight k) (pw_weight x)"
      by (auto simp add: covers_def)
    show ?thesis
    proof (cases "dominatesOrEquals dims (pw_weight cand) (pw_weight k)")
      case True
      with k that have "dominatesOrEquals dims (pw_weight cand) (pw_weight x)"
        using dominates_trans [of "pw_weight cand" "pw_weight k" "pw_weight x"] valid by auto
      then show ?thesis by simp
    next
      case False
      with k show ?thesis by auto
    qed
  qed
  ultimately show ?thesis using assms(1) by (auto simp add: r covers_def)
qed

lemma keep_all_spec:
  assumes "\<forall>x \<in> set items. valid (pw_weight x)"
  shows "set (foldl (keep dims) [] items) \<subseteq> set items \<and> antichain (foldl (keep dims) [] items)
    \<and> covers (foldl (keep dims) [] items) items"
  using assms
proof (induction items rule: rev_induct)
  case Nil
  then show ?case by (simp add: antichain_def covers_def)
next
  case (snoc x xs)
  then show ?case using keep_spec [of "foldl (keep dims) [] xs" xs x] by simp
qed

lemma prune_spec:
  assumes "\<forall>x \<in> set items. valid (pw_weight x)"
  shows "set (prune lc dims items n) \<subseteq> set items \<and> antichain (prune lc dims items n)
    \<and> (length items \<le> n \<longrightarrow> covers (prune lc dims items n) items)"
proof -
  let ?kept = "foldl (keep dims) [] (js_sort (route_order lc) items)"
  let ?r = "js_sort (route_order lc) ?kept"
  have k: "set ?kept \<subseteq> set items" "antichain ?kept" "covers ?kept items"
    using keep_all_spec [of "js_sort (route_order lc) items"] assms by (simp_all add: covers_def)
  have d: "distinct ?r" using k(2) mset_eq_imp_distinct_iff [OF mset_js_sort, of "route_order lc" ?kept]
    by (simp add: antichain_def)
  have r: "set ?r \<subseteq> set items" "antichain ?r" "covers ?r items" using k d by (simp_all add: antichain_def covers_def)
  have "antichain (take n ?r)" using antichain_take [OF r(2)] .
  moreover have "length ?r \<le> length items"
    using k(1,2) by (metis antichain_def card_length card_mono distinct_card length_js_sort List.finite_set le_trans)
  moreover have "set (take n ?r) \<subseteq> set items" using r(1) set_take_subset [of n ?r] by blast
  ultimately show ?thesis using r by (simp add: prune_def Let_def)
qed

text \<open>A policy that never prefers a dominated weight picks as well from the pruned frontier.\<close>

lemma prune_keeps_best:
  assumes "\<forall>x \<in> set items. valid (pw_weight x)" and "length items \<le> n" and "x \<in> set items"
    and "\<And>a b. valid a \<Longrightarrow> valid b \<Longrightarrow> dominatesOrEquals dims a b \<Longrightarrow> score b \<le> (score a :: jsnum)"
  shows "\<exists>y \<in> set (prune lc dims items n). score (pw_weight x) \<le> score (pw_weight y)"
proof -
  note p = prune_spec [OF assms(1), of lc n]
  with assms(2,3) obtain y where y: "y \<in> set (prune lc dims items n)" "dominatesOrEquals dims (pw_weight y) (pw_weight x)"
    by (auto simp add: covers_def)
  moreover have "valid (pw_weight y)" "valid (pw_weight x)" using p y assms(1,3) by auto
  ultimately show ?thesis using assms(4) by blast
qed

end

subsection \<open>The choice\<close>

lemma route_order_comparator:
  assumes "js_comparator lc"
  shows "js_comparator (route_order lc)"
  unfolding route_order_def
  by (intro js_comparator_then js_comparator_map [OF assms, of "\<lambda>p. pathKey (pw_path p)"]
      by_key_asc.js_comparator_axioms) auto

lemma score_order_comparator:
  assumes "js_comparator lc"
  shows "js_comparator (score_order lc)"
proof -
  have "js_comparator (\<lambda>x y :: path_weight \<times> jsnum. if snd x = snd y then 0 else if snd y < snd x then - 1 else 1)"
    by unfold_locales (auto split: if_splits)
  moreover have "js_comparator (\<lambda>x y :: path_weight \<times> jsnum. route_order lc (fst x) (fst y))"
    by (rule js_comparator_map [OF route_order_comparator [OF assms]])
  ultimately show ?thesis unfolding score_order_def
    by (rule js_comparator_then) (auto split: if_splits)
qed

definition scored_by :: "(weight \<Rightarrow> string list \<Rightarrow> jsnum) \<Rightarrow> path_weight \<Rightarrow> jsnum" where
  "scored_by score p = (if score (pw_weight p) (pw_path p) = NaN then NInf else score (pw_weight p) (pw_path p))"

lemma choose_spec:
  assumes "js_comparator lc" and "f \<noteq> []"
  obtains p ordered where "chooseFromFrontier lc f score = Some (p, scored_by score p, ordered)"
    and "p \<in> set f" and "mset ordered = mset f" and "hd ordered = p"
    and "\<And>q. q \<in> set f \<Longrightarrow> scored_by score q \<le> scored_by score p"
proof -
  let ?s = "map (\<lambda>p. (p, scored_by score p)) f"
  let ?t = "js_sort (score_order lc) ?s"
  have c: "chooseFromFrontier lc f score = Some (fst (hd ?t), snd (hd ?t), map fst ?t)"
    using assms(2) by (simp add: chooseFromFrontier_def scored_by_def Let_def)
  obtain p rest where t: "?t = (p, scored_by score p) # rest"
  proof (cases ?t)
    case Nil
    then have "length ?s = 0" by (metis length_js_sort list.size(3))
    with assms(2) show thesis by simp
  next
    case (Cons q rest)
    then have "q \<in> set ?s" by (metis list.set_intros(1) set_js_sort)
    with Cons that show thesis by auto
  qed
  have set_t: "set ?t = set ?s" by simp
  have p: "p \<in> set f" using set_t unfolding t by auto
  have "scored_by score q \<le> scored_by score p" if "q \<in> set f" for q
  proof (cases "(q, scored_by score q) = (p, scored_by score p)")
    case False
    with that have "(q, scored_by score q) \<in> set rest" using set_t unfolding t by auto
    moreover have "sorted_wrt (\<lambda>a b. score_order lc a b \<le> 0) ?t"
      by (rule js_comparator.sorted_js_sort [OF score_order_comparator [OF assms(1)]])
    ultimately have "score_order lc (p, scored_by score p) (q, scored_by score q) \<le> 0" unfolding t by simp
    then show ?thesis by (auto simp add: score_order_def cmp_then_def split: if_splits)
  qed simp
  moreover have "mset (map fst ?t) = mset f"
    by (metis (no_types, lifting) map_idI map_map comp_apply fst_conv mset_js_sort mset_map)
  ultimately show thesis using that [of p "map fst ?t"] c p t by simp
qed

subsection \<open>The routes of a frontier\<close>

fun hops :: "string list \<Rightarrow> (string \<times> string) list" where
  "hops (u # v # vs) = (u, v) # hops (v # vs)"
| "hops _ = []"

definition route_weight :: "dims \<Rightarrow> weight digraph \<Rightarrow> string list \<Rightarrow> weight" where
  "route_weight dims g xs =
     foldl (\<lambda>w (u, v). sr_mul (recordSemiring dims) w (getEdge g u v)) (sr_one (recordSemiring dims)) (hops xs)"

definition real_route :: "dims \<Rightarrow> weight digraph \<Rightarrow> string \<Rightarrow> string \<Rightarrow> path_weight \<Rightarrow> bool" where
  "real_route dims g source v p \<longleftrightarrow>
     list_all (\<lambda>(x, y). hasEdge g x y) (hops (source # pw_path p)) \<and> last (source # pw_path p) = v
     \<and> pw_weight p = route_weight dims g (source # pw_path p)"

lemma hops_snoc: "xs \<noteq> [] \<Longrightarrow> hops (xs @ [v]) = hops xs @ [(last xs, v)]"
  by (induction xs rule: induct_list012) auto

lemma prune_subset: "set (prune lc dims items n) \<subseteq> set items"
proof -
  have "set (foldl (keep dims) kept xs) \<subseteq> set kept \<union> set xs" for kept xs
    by (induction xs arbitrary: kept) (fastforce simp add: keep_def split: if_splits)+
  from this [of "[]" "js_sort (route_order lc) items"] show ?thesis
    by (auto simp add: prune_def Let_def dest!: in_set_takeD)
qed

lemma edge_setEdge:
  "edge (setEdge g u v w) a b x \<longleftrightarrow> (if a = u \<and> b = v then x = w else edge g a b x)"
  by (auto simp add: edge_def setEdge_def Let_def put_neighbor_def adj_addNode jsm_get_set)

lemma semiring_setEdge: "g_semiring (setEdge g u v w) = g_semiring g"
  by (simp add: setEdge_def put_neighbor_def Let_def)

lemma edge_addNode [simp]: "edge (addNode g i) a b x = edge g a b x"
  by (simp add: edge_def)

lemma edges_edge: "graph_wf C g \<Longrightarrow> (u, v, w) \<in> set (edges g) \<Longrightarrow> edge g u v w"
  by (auto simp add: edges_def edge_def neighbors_def graph_wf_def jsm_in_set_iff split: option.splits)

lemma lift_edge:
  assumes "edge (foldl (\<lambda>h (from, to, w). setEdge h from to (f to w)) h es) u v x"
    and "\<And>a b y. \<not> edge h a b y"
  shows "\<exists>w. (u, v, w) \<in> set es \<and> x = f v w"
  using assms(1)
proof (induction es arbitrary: x rule: rev_induct)
  case (snoc e es)
  then show ?case by (cases e) (auto simp add: edge_setEdge split: if_splits)
qed (simp add: assms(2))

lemma fold_addNode: "graph_wf UNIV h \<Longrightarrow> graph_wf UNIV (foldl addNode h ns)"
  "edge (foldl addNode h ns) a b x = edge h a b x" "g_semiring (foldl addNode h ns) = g_semiring h"
  by (induction ns arbitrary: h) (simp_all add: graph_wf_addNode)

lemma fold_setEdge:
  "graph_wf UNIV h \<Longrightarrow> graph_wf UNIV (foldl (\<lambda>h (from, to, w). setEdge h from to (f to w)) h es)"
  "g_semiring (foldl (\<lambda>h (from, to, w). setEdge h from to (f to w)) h es) = g_semiring h"
  by (induction es arbitrary: h) (auto simp add: graph_wf_setEdge semiring_setEdge)

lemma pareto_zero_one [simp]:
  "sr_zero (paretoPathSemiring lc st dims n) = []"
  "sr_one (paretoPathSemiring lc st dims n) = [\<lparr> pw_weight = sr_one (recordSemiring dims), pw_path = [] \<rparr>]"
  by (simp_all add: paretoPathSemiring_def Let_def)

lemma set_pareto_add:
  "set (sr_add (paretoPathSemiring lc st dims n) a b) \<subseteq> set a \<union> set b"
  using prune_subset by (fastforce simp add: paretoPathSemiring_def Let_def)

lemma set_pareto_mul:
  "p \<in> set (sr_mul (paretoPathSemiring lc st dims n) a [q]) \<Longrightarrow>
   \<exists>x \<in> set a. p = \<lparr> pw_weight = sr_mul (recordSemiring dims) (pw_weight x) (pw_weight q), pw_path = pw_path x @ pw_path q \<rparr>"
  using prune_subset by (fastforce simp add: paretoPathSemiring_def Let_def)

lemma real_route_extend:
  assumes "real_route dims g source u p" and "edge g u v w"
  shows "real_route dims g source v \<lparr> pw_weight = sr_mul (recordSemiring dims) (pw_weight p) w, pw_path = pw_path p @ [v] \<rparr>"
proof -
  have h: "hops (source # pw_path p @ [v]) = hops (source # pw_path p) @ [(u, v)]"
    using hops_snoc [of "source # pw_path p" v] assms(1) by (simp add: real_route_def)
  moreover have "hasEdge g u v" "getEdge g u v = w" using assms(2) by (simp_all add: edge_iff)
  ultimately show ?thesis using assms(1) by (simp add: real_route_def route_weight_def)
qed

lemma frontier_real_routes:
  assumes "graph_wf UNIV g" and "jsm_get (frontierPaths lc st g dims source n) v = Some f" and "p \<in> set f"
  shows "real_route dims g source v p"
proof -
  let ?Q = "\<lambda>v f. \<forall>p \<in> set f. real_route dims g source v p"
  let ?sr = "paretoPathSemiring lc st dims n"
  let ?h = "liftFrontier lc st g dims n"
  have sr: "g_semiring ?h = ?sr"
    by (simp add: liftFrontier_def fold_setEdge(2) fold_addNode(3) newDigraph_def)
  have no_edge: "\<not> edge (foldl addNode (newDigraph ?sr) (g_nodes g)) a b y" for a b y
    by (simp add: fold_addNode(2)) (simp add: edge_def newDigraph_def neighbors_def)
  have lifted: "\<exists>w. edge g a b w \<and> x = [\<lparr> pw_weight = w, pw_path = [b] \<rparr>]" if "edge ?h a b x" for a b x
    using lift_edge [OF that [unfolded liftFrontier_def Let_def] no_edge] edges_edge [OF assms(1)] by blast
  have "dist_all ?h ?Q (optimalPaths ?h source)"
  proof (rule optimalPaths_all)
    show "graph_wf UNIV ?h"
      by (simp add: liftFrontier_def fold_setEdge(1) fold_addNode(1) graph_wf_new)
    show "?Q source (sr_one (g_semiring ?h))" by (simp add: sr real_route_def route_weight_def)
    show "?Q v (sr_zero (g_semiring ?h))" for v by (simp add: sr)
    show "?Q v (sr_add (g_semiring ?h) a b)" if "?Q v a" "?Q v b" for v a b
      using that set_pareto_add unfolding sr by blast
    show "?Q b (sr_mul (g_semiring ?h) x w)" if "?Q a x" "edge ?h a b w" for a b x w
      using that(1) lifted [OF that(2)] unfolding sr
      by (auto dest!: set_pareto_mul intro!: real_route_extend [of _ _ _ a])
  qed
  with assms(2,3) show ?thesis by (auto simp add: dist_all_def frontierPaths_def)
qed

end
