(* ===== verification/TrustAlgebra.thy ===== *)
theory TrustAlgebra
  imports Semirings
begin

text \<open>
  Trust levels, their scores and their composition: \<open>packages/protocol/src/trust-algebra.ts\<close> and
  \<open>packages/semiring/src/trust-algebra.ts\<close>, with the attestation scores of
  \<open>packages/semiring/src/hardware-attestation.ts\<close>. A transition moves a level by at most one step,
  never touches a blocked agent and prefers demotion; delegating never gains trust.
\<close>

subsection \<open>Levels and scores\<close>

datatype agent_trust_level = Unknown | FirstContact | Verified | Trusted | Blocked

fun level_value :: "agent_trust_level \<Rightarrow> string" where
  "level_value Unknown = ''unknown''"
| "level_value FirstContact = ''first_contact''"
| "level_value Verified = ''verified''"
| "level_value Trusted = ''trusted''"
| "level_value Blocked = ''blocked''"

definition TRUST_LEVEL_SCORES :: "(string, jsnum) jsmap" where
  "TRUST_LEVEL_SCORES =
     [(''unknown'', Fin (1/10)), (''first_contact'', Fin (3/10)), (''verified'', Fin (6/10)),
      (''trusted'', Fin (9/10)), (''blocked'', Fin 0)]"

definition trustLevelToScore :: "agent_trust_level \<Rightarrow> jsnum" where
  "trustLevelToScore level =
     (case jsm_get TRUST_LEVEL_SCORES (level_value level) of Some s \<Rightarrow> s | None \<Rightarrow> Fin (1/10))"

definition TRUST_ZERO :: jsnum where
  "TRUST_ZERO = Fin 0"

definition TRUST_ONE :: jsnum where
  "TRUST_ONE = Fin 1"

definition trustAdd :: "jsnum \<Rightarrow> jsnum \<Rightarrow> jsnum" where
  "trustAdd a b = math_max a b"

definition trustMultiply :: "jsnum \<Rightarrow> jsnum \<Rightarrow> jsnum" where
  "trustMultiply a b = num_mul a b"

definition composeTrustChain :: "jsnum list \<Rightarrow> jsnum" where
  "composeTrustChain scores = foldl trustMultiply TRUST_ONE scores"

definition joinParallelRoutes :: "jsnum list \<Rightarrow> jsnum" where
  "joinParallelRoutes scores = foldl trustAdd TRUST_ZERO scores"

subsection \<open>Transitions\<close>

record trust_thresholds =
  promoteToVerified_minTasks :: int
  promoteToVerified_minRate :: rat
  promoteToTrusted_minTasks :: int
  promoteToTrusted_minRate :: rat
  demote_belowRate :: rat
  demote_minTasks :: int

definition REFERENCE_TRUST_THRESHOLDS :: trust_thresholds where
  "REFERENCE_TRUST_THRESHOLDS =
     \<lparr> promoteToVerified_minTasks = 5, promoteToVerified_minRate = 8/10,
       promoteToTrusted_minTasks = 20, promoteToTrusted_minRate = 9/10,
       demote_belowRate = 5/10, demote_minTasks = 3 \<rparr>"

text \<open>A \<open>Partial<TrustTransitionThresholds>\<close>, and its spread over the reference.\<close>

record partial_thresholds =
  o_promoteToVerified_minTasks :: "int option"
  o_promoteToVerified_minRate :: "rat option"
  o_promoteToTrusted_minTasks :: "int option"
  o_promoteToTrusted_minRate :: "rat option"
  o_demote_belowRate :: "rat option"
  o_demote_minTasks :: "int option"

definition or_else :: "'a option \<Rightarrow> 'a \<Rightarrow> 'a" where
  "or_else x d = (case x of Some v \<Rightarrow> v | None \<Rightarrow> d)"

definition with_overrides :: "trust_thresholds \<Rightarrow> partial_thresholds option \<Rightarrow> trust_thresholds" where
  "with_overrides t po =
     (case po of None \<Rightarrow> t
      | Some p \<Rightarrow>
          \<lparr> promoteToVerified_minTasks = or_else (o_promoteToVerified_minTasks p) (promoteToVerified_minTasks t),
            promoteToVerified_minRate = or_else (o_promoteToVerified_minRate p) (promoteToVerified_minRate t),
            promoteToTrusted_minTasks = or_else (o_promoteToTrusted_minTasks p) (promoteToTrusted_minTasks t),
            promoteToTrusted_minRate = or_else (o_promoteToTrusted_minRate p) (promoteToTrusted_minRate t),
            demote_belowRate = or_else (o_demote_belowRate p) (demote_belowRate t),
            demote_minTasks = or_else (o_demote_minTasks p) (demote_minTasks t) \<rparr>)"

record agent_trust_record =
  tr_trust_level :: agent_trust_level
  tr_successful_tasks :: "int option"
  tr_failed_tasks :: "int option"

definition evaluateTrustTransition ::
  "agent_trust_record \<Rightarrow> partial_thresholds option \<Rightarrow> agent_trust_level option" where
  "evaluateTrustTransition r thresholds =
     (let t = with_overrides REFERENCE_TRUST_THRESHOLDS thresholds;
          level = tr_trust_level r;
          succeeded = or_else (tr_successful_tasks r) 0;
          failed = or_else (tr_failed_tasks r) 0;
          total = succeeded + failed
      in if level = Blocked then None
         else
           (let rate = (if total > 0 then of_int succeeded / of_int total else 1)
            in if total \<ge> demote_minTasks t \<and> rate < demote_belowRate t
               then (if level = Trusted then Some Verified
                     else if level = Verified then Some FirstContact
                     else None)
               else if level = Unknown \<and> total \<ge> 1 then Some FirstContact
               else if level = FirstContact \<and> succeeded \<ge> promoteToVerified_minTasks t
                       \<and> rate \<ge> promoteToVerified_minRate t then Some Verified
               else if level = Verified \<and> succeeded \<ge> promoteToTrusted_minTasks t
                       \<and> rate \<ge> promoteToTrusted_minRate t then Some Trusted
               else None))"

subsection \<open>Delegation\<close>

datatype delegation_receipt = Receipt (rc_motebit_id: string) (rc_delegation_receipts: "delegation_receipt list")
  \<comment> \<open>an absent list and an empty one are the same to the code\<close>

fun composeDelegationTrust :: "jsnum \<Rightarrow> delegation_receipt \<Rightarrow> (string \<Rightarrow> jsnum) \<Rightarrow> jsnum" where
  "composeDelegationTrust directTrust (Receipt i subs) getTrust =
     (if subs = [] then directTrust
      else joinParallelRoutes
        (map (\<lambda>sub. composeDelegationTrust (trustMultiply directTrust (getTrust (rc_motebit_id sub))) sub getTrust) subs))"

text \<open>The trust of each chain from the root of the receipt tree to a leaf.\<close>

fun chain_scores :: "jsnum \<Rightarrow> delegation_receipt \<Rightarrow> (string \<Rightarrow> jsnum) \<Rightarrow> jsnum list" where
  "chain_scores d (Receipt i subs) getTrust =
     (if subs = [] then [d]
      else concat (map (\<lambda>sub. chain_scores (trustMultiply d (getTrust (rc_motebit_id sub))) sub getTrust) subs))"

subsection \<open>Hardware attestation\<close>

datatype attestation_platform = SecureEnclave | Tpm | DeviceCheck | PlayIntegrity | AndroidKeystore | WebAuthn | Software

record attestation_claim =
  ha_platform :: attestation_platform
  ha_key_exported :: "bool option"

definition HardwareAttestationSemiring :: "jsnum semiring_ops" where
  "HardwareAttestationSemiring =
     \<lparr> sr_zero = Fin 0, sr_one = Fin 1, sr_add = math_max, sr_mul = math_min, sr_eq = None \<rparr>"

definition scoreAttestation :: "attestation_claim option \<Rightarrow> jsnum" where
  "scoreAttestation claim =
     (case claim of None \<Rightarrow> Fin 0
      | Some c \<Rightarrow> (case ha_platform c of
          Software \<Rightarrow> Fin (1/10)
        | _ \<Rightarrow> if ha_key_exported c = Some True then Fin (5/10) else Fin 1))"

subsection \<open>Lemmas\<close>

lemma math_max_in: "a \<in> unit_carrier \<Longrightarrow> b \<in> unit_carrier \<Longrightarrow> math_max a b \<in> unit_carrier"
  using trust.add_in [of a b] by (simp add: sr_defs)

lemma num_mul_in: "a \<in> unit_carrier \<Longrightarrow> b \<in> unit_carrier \<Longrightarrow> num_mul a b \<in> unit_carrier"
  using trust.mul_in [of a b] by (simp add: sr_defs)

lemma trustLevelToScore_in [simp]: "trustLevelToScore l \<in> unit_carrier"
  by (cases l) (simp_all add: trustLevelToScore_def TRUST_LEVEL_SCORES_def jsm_get_def)

lemma join_fold:
  assumes "a \<in> unit_carrier" and "set xs \<subseteq> unit_carrier"
  shows "foldl trustAdd a xs \<in> unit_carrier \<and> foldl trustAdd a xs \<in> insert a (set xs)
    \<and> num_le a (foldl trustAdd a xs) \<and> (\<forall>x \<in> set xs. num_le x (foldl trustAdd a xs))"
  using assms
proof (induction xs arbitrary: a)
  case Nil
  then show ?case by (auto simp add: unit_carrier_iff)
next
  case (Cons x xs)
  have m: "math_max a x \<in> unit_carrier" using Cons.prems math_max_in by simp
  from Cons.IH [OF m] Cons.prems have ih: "foldl trustAdd (math_max a x) xs \<in> unit_carrier
      \<and> foldl trustAdd (math_max a x) xs \<in> insert (math_max a x) (set xs)
      \<and> num_le (math_max a x) (foldl trustAdd (math_max a x) xs)
      \<and> (\<forall>y \<in> set xs. num_le y (foldl trustAdd (math_max a x) xs))" by simp
  obtain p q r where "a = Fin p" "x = Fin q" "foldl trustAdd (math_max a x) xs = Fin r"
    using Cons.prems ih by (auto simp add: unit_carrier_iff)
  with ih show ?case by (auto simp add: trustAdd_def [of a x] trustAdd_def [of "Fin p" "Fin q"] math_max_Fin max_def split: if_splits)
qed

lemma join_spec:
  assumes "xs \<noteq> []" and "set xs \<subseteq> unit_carrier"
  shows "joinParallelRoutes xs \<in> set xs \<and> (\<forall>x \<in> set xs. num_le x (joinParallelRoutes xs))"
proof -
  note s = join_fold [of "Fin 0" xs]
  obtain x where x: "x \<in> set xs" using assms(1) by (cases xs) auto
  have "x \<in> unit_carrier" using x assms(2) by blast
  then obtain q where q: "x = Fin q" "0 \<le> q" by (auto simp add: unit_carrier_iff)
  show ?thesis
  proof (cases "joinParallelRoutes xs = Fin 0")
    case True
    then have "x = Fin 0" using s x q assms(2) by (auto simp add: joinParallelRoutes_def TRUST_ZERO_def)
    with True s x assms(2) show ?thesis by (auto simp add: joinParallelRoutes_def TRUST_ZERO_def)
  next
    case False
    with s assms(2) show ?thesis by (auto simp add: joinParallelRoutes_def TRUST_ZERO_def)
  qed
qed

lemma chain_scores_spec:
  assumes "\<And>m. getTrust m \<in> unit_carrier"
  shows "d \<in> unit_carrier \<Longrightarrow> chain_scores d r getTrust \<noteq> []
    \<and> (\<forall>x \<in> set (chain_scores d r getTrust). x \<in> unit_carrier \<and> num_le x d)"
proof (induction r arbitrary: d)
  case (Receipt i subs)
  have sub: "chain_scores (num_mul d (getTrust (rc_motebit_id s))) s getTrust \<noteq> []
      \<and> (\<forall>x \<in> set (chain_scores (num_mul d (getTrust (rc_motebit_id s))) s getTrust). x \<in> unit_carrier \<and> num_le x d)"
    if "s \<in> set subs" for s
  proof -
    let ?t = "getTrust (rc_motebit_id s)"
    have "num_mul d ?t \<in> unit_carrier" using num_mul_in [OF Receipt.prems assms] .
    from Receipt.IH [OF that this] have ih: "chain_scores (num_mul d ?t) s getTrust \<noteq> []"
      "\<forall>x \<in> set (chain_scores (num_mul d ?t) s getTrust). x \<in> unit_carrier \<and> num_le x (num_mul d ?t)" by auto
    obtain p q where pq: "d = Fin p" "?t = Fin q" "0 \<le> p" "0 \<le> q" "q \<le> 1"
      using Receipt.prems assms [of "rc_motebit_id s"] by (auto simp add: unit_carrier_iff)
    then have "p * q \<le> p" by (simp add: mult_left_le)
    with ih pq show ?thesis by (fastforce simp add: unit_carrier_iff)
  qed
  show ?case
  proof (cases "subs = []")
    case True
    then show ?thesis using Receipt.prems by (auto simp add: unit_carrier_iff)
  next
    case False
    with sub show ?thesis by (fastforce simp add: trustMultiply_def neq_Nil_conv)
  qed
qed

lemma num_le_trans: "num_le a b \<Longrightarrow> num_le b c \<Longrightarrow> num_le a c"
  by (cases a; cases b; cases c) auto

lemma compose_spec:
  assumes "\<And>m. getTrust m \<in> unit_carrier"
  shows "d \<in> unit_carrier \<Longrightarrow> composeDelegationTrust d r getTrust \<in> set (chain_scores d r getTrust)
    \<and> (\<forall>x \<in> set (chain_scores d r getTrust). num_le x (composeDelegationTrust d r getTrust))"
proof (induction r arbitrary: d)
  case (Receipt i subs)
  show ?case
  proof (cases "subs = []")
    case True
    then show ?thesis using Receipt.prems by (auto simp add: unit_carrier_iff)
  next
    case False
    let ?d = "\<lambda>s. num_mul d (getTrust (rc_motebit_id s))"
    let ?f = "\<lambda>s. composeDelegationTrust (?d s) s getTrust"
    have d: "?d s \<in> unit_carrier" for s using num_mul_in [OF Receipt.prems assms] .
    have ih: "?f s \<in> set (chain_scores (?d s) s getTrust)" "\<forall>x \<in> set (chain_scores (?d s) s getTrust). num_le x (?f s)"
      if "s \<in> set subs" for s using Receipt.IH [OF that d] by auto
    have "set (map ?f subs) \<subseteq> unit_carrier" using ih(1) chain_scores_spec [of getTrust, OF assms d] by auto
    from join_spec [OF _ this] False obtain s where s: "s \<in> set subs" "joinParallelRoutes (map ?f subs) = ?f s"
      and le: "\<forall>s \<in> set subs. num_le (?f s) (joinParallelRoutes (map ?f subs))" by auto
    have r: "composeDelegationTrust d (Receipt i subs) getTrust = ?f s"
      using False s by (simp add: trustMultiply_def)
    have "num_le x (?f s)" if "t \<in> set subs" "x \<in> set (chain_scores (?d t) t getTrust)" for t x
      using ih(2) [OF that(1)] that(2) le that(1) s(2) num_le_trans by metis
    with ih(1) [OF s(1)] s(1) False show ?thesis unfolding r by (auto simp add: trustMultiply_def)
  qed
qed

subsection \<open>Properties\<close>

fun level_rank :: "agent_trust_level \<Rightarrow> nat" where
  "level_rank Unknown = 0"
| "level_rank FirstContact = 1"
| "level_rank Verified = 2"
| "level_rank Trusted = 3"
| "level_rank Blocked = 4"

text \<open>
  The automatic trust transition moves an agent by one level at a time and never blocks or
  unblocks: whatever the thresholds, a result is the next level up or the next level down, it is down
  exactly when the record is demotable (enough tasks, rate below the bar), and a demotable record is
  never promoted.
\<close>
theorem trust_transition_one_step:
  fixes r po
  defines "t \<equiv> with_overrides REFERENCE_TRUST_THRESHOLDS po"
    and "n \<equiv> or_else (tr_successful_tasks r) 0 + or_else (tr_failed_tasks r) 0"
  defines "demotable \<equiv> n \<ge> demote_minTasks t
      \<and> (if n > 0 then of_int (or_else (tr_successful_tasks r) 0) / of_int n else 1) < demote_belowRate t"
  assumes "evaluateTrustTransition r po = Some l"
  shows "tr_trust_level r \<noteq> Blocked \<and> l \<noteq> Blocked
    \<and> (if demotable then Suc (level_rank l) = level_rank (tr_trust_level r)
       else level_rank l = Suc (level_rank (tr_trust_level r)))"
  using assms(4) unfolding demotable_def n_def t_def
  by (auto simp add: evaluateTrustTransition_def Let_def split: if_splits)

text \<open>
  Delegating never gains trust: with a direct trust and peer trusts between zero and one, the
  trust composed over a receipt tree is the trust of one of its chains from the root to a leaf, no
  chain has more, and it is at most the direct trust.
\<close>
theorem delegation_trust_is_best_chain:
  assumes "d \<in> unit_carrier" and "\<And>m. getTrust m \<in> unit_carrier"
  shows "composeDelegationTrust d r getTrust \<in> set (chain_scores d r getTrust)
    \<and> list_all (\<lambda>x. num_le x (composeDelegationTrust d r getTrust)) (chain_scores d r getTrust)
    \<and> num_le (composeDelegationTrust d r getTrust) d"
  using compose_spec [of getTrust, OF assms(2,1), of r] chain_scores_spec [of getTrust, OF assms(2,1), of r]
  by (auto simp add: list_all_iff)

lemma math_min_Fin: "math_min (Fin x) (Fin y) = Fin (min x y)"
  by (simp add: math_min_def min_def)

interpretation attestation: path_semiring HardwareAttestationSemiring unit_carrier
  by unfold_locales
    (auto simp add: HardwareAttestationSemiring_def unit_carrier_iff math_max_Fin math_min_Fin sr_equal_def
      max.assoc min.assoc max.commute min_max_distrib1 min_max_distrib2 min_absorb1 max_absorb2 max_def min_def)

subsection \<open>Witnesses\<close>

theorem trust_transition_one_step_witness:
  "Suc (level_rank Verified) = level_rank Trusted"
proof -
  let ?r = "\<lparr> tr_trust_level = Trusted, tr_successful_tasks = Some 1, tr_failed_tasks = Some 9 \<rparr>"
  have "evaluateTrustTransition ?r None = Some Verified" by code_simp
  from trust_transition_one_step [OF this] show ?thesis
    by (simp add: or_else_def with_overrides_def REFERENCE_TRUST_THRESHOLDS_def)
qed

theorem delegation_trust_is_best_chain_witness:
  "num_le (composeDelegationTrust (Fin (9/10)) (Receipt ''a'' [Receipt ''b'' [], Receipt ''c'' []])
      (\<lambda>m. if m = ''b'' then Fin (1/2) else Fin (3/10))) (Fin (9/10))"
  by (rule delegation_trust_is_best_chain [THEN conjunct2, THEN conjunct2]) simp_all

end
