(* ===== verification/AgentNetwork.thy ===== *)
theory AgentNetwork
  imports Pareto PathTrace TrustAlgebra
begin

text \<open>
  The agent network, \<open>packages/semiring/src/agent-network.ts\<close>: the five routing dimensions, the
  graph built from agent profiles and from delegation receipts, the single-objective queries by
  projection, and the ranking of reachable agents over the Pareto frontier. The locale \<open>dimensions\<close>
  is interpreted on the routing dimensions. A ranked agent comes with a route of the graph, the
  weight that route composes to and the score of that weight.
\<close>

subsection \<open>Routing dimensions\<close>

definition ROUTE_WEIGHT_DIMENSIONS :: dims where
  "ROUTE_WEIGHT_DIMENSIONS =
     [(''trust'', TrustSemiring), (''cost'', CostSemiring), (''latency'', LatencySemiring),
      (''reliability'', ReliabilitySemiring), (''regulatory_risk'', RegulatoryRiskSemiring)]"

definition RouteWeightSemiring :: "weight semiring_ops" where
  "RouteWeightSemiring = recordSemiring ROUTE_WEIGHT_DIMENSIONS"

definition route_carrier :: "string \<Rightarrow> jsnum set" where
  "route_carrier key = (if key = ''trust'' \<or> key = ''reliability'' then unit_carrier else cost_carrier)"

interpretation route_dims: dimensions ROUTE_WEIGHT_DIMENSIONS route_carrier
  by (rule dimensions.intro)
    (auto simp add: ROUTE_WEIGHT_DIMENSIONS_def route_carrier_def trust.path_semiring_axioms
      cost.path_semiring_axioms latency.path_semiring_axioms reliability.path_semiring_axioms
      risk.path_semiring_axioms)

definition route_weight_of :: "jsnum \<Rightarrow> jsnum \<Rightarrow> jsnum \<Rightarrow> jsnum \<Rightarrow> jsnum \<Rightarrow> weight" where
  \<comment> \<open>the object \<open>{ trust, cost, latency, reliability, regulatory_risk }\<close>\<close>
  "route_weight_of trust cost latency reliability risk =
     [(''trust'', trust), (''cost'', cost), (''latency'', latency), (''reliability'', reliability),
      (''regulatory_risk'', risk)]"

subsection \<open>Building the graph\<close>

record service_listing =
  sl_pricing :: "jsnum list" \<comment> \<open>the \<open>unit_cost\<close> of each price\<close>
  sl_regulatory_risk :: "jsnum option"

record agent_profile =
  ap_motebit_id :: string
  ap_trust_record :: "agent_trust_record option"
  ap_listing :: "service_listing option"
  ap_latency_ms :: "jsnum option"
  ap_reliability :: "jsnum option"
  ap_is_online :: bool
  ap_regulatory_risk :: "jsnum option"
  ap_trust_override :: "jsnum option"

definition estimateAgentCost :: "service_listing option \<Rightarrow> jsnum" where
  "estimateAgentCost listing =
     (case listing of None \<Rightarrow> Fin 0
      | Some l \<Rightarrow> if length (sl_pricing l) = 0 then Fin 0 else foldl num_add (Fin 0) (sl_pricing l))"

definition addAgent :: "string \<Rightarrow> weight digraph \<Rightarrow> agent_profile \<Rightarrow> weight digraph" where
  \<comment> \<open>one pass of the loop of \<open>buildAgentGraph\<close>\<close>
  "addAgent selfId g agent =
     (if \<not> ap_is_online agent then g
      else
        (let trust = (case ap_trust_override agent of Some t \<Rightarrow> t
             | None \<Rightarrow> (case ap_trust_record agent of Some r \<Rightarrow> trustLevelToScore (tr_trust_level r) | None \<Rightarrow> Fin (1/10)))
         in if (case ap_trust_record agent of Some r \<Rightarrow> tr_trust_level r = Blocked | None \<Rightarrow> False) then g
            else
              (let cost = estimateAgentCost (ap_listing agent);
                   latency = or_else (ap_latency_ms agent) (Fin 5000);
                   reliability = or_else (ap_reliability agent) (Fin (5/10));
                   risk = (case ap_regulatory_risk agent of Some r \<Rightarrow> r
                     | None \<Rightarrow> or_else (Option.bind (ap_listing agent) sl_regulatory_risk) (Fin 0))
               in setEdge g selfId (ap_motebit_id agent) (route_weight_of trust cost latency reliability risk))))"

definition buildAgentGraph :: "string \<Rightarrow> agent_profile list \<Rightarrow> weight digraph" where
  "buildAgentGraph selfId agents =
     foldl (addAgent selfId) (addNode (newDigraph RouteWeightSemiring) selfId) agents"

datatype execution_receipt =
  ExecutionReceipt (er_motebit_id: string) (er_completed: bool) (er_submitted_at: int) (er_completed_at: int)
    (er_delegation_receipts: "execution_receipt list")

definition num_or :: "jsnum \<Rightarrow> jsnum \<Rightarrow> jsnum" where
  \<comment> \<open>\<open>a || b\<close> on numbers\<close>
  "num_or a b = (if a = Fin 0 \<or> a = NaN then b else a)"

fun addDelegationEdges :: "weight digraph \<Rightarrow> execution_receipt \<Rightarrow> (string \<Rightarrow> jsnum) \<Rightarrow> (string \<Rightarrow> jsnum) \<Rightarrow> weight digraph"
  and addSubDelegations :: "weight digraph \<Rightarrow> string \<Rightarrow> execution_receipt list \<Rightarrow> (string \<Rightarrow> jsnum) \<Rightarrow> (string \<Rightarrow> jsnum) \<Rightarrow> weight digraph" where
  "addDelegationEdges g (ExecutionReceipt i completed submitted_at completed_at subs) getTrust getLatency =
     addSubDelegations g i subs getTrust getLatency"
| "addSubDelegations g i [] getTrust getLatency = g"
| "addSubDelegations g i (sub # subs) getTrust getLatency =
     (let trust = getTrust (er_motebit_id sub);
          latency = getLatency (er_motebit_id sub);
          reliability = (if er_completed sub then Fin (9/10) else Fin (3/10));
          duration = Fin (of_int (er_completed_at sub - er_submitted_at sub));
          g = setEdge g i (er_motebit_id sub)
                (route_weight_of trust (Fin 0) (num_or latency duration) reliability (Fin 0));
          g = addDelegationEdges g sub getTrust getLatency
      in addSubDelegations g i subs getTrust getLatency)"

subsection \<open>Queries\<close>

definition projectGraph :: "weight digraph \<Rightarrow> 'a semiring_ops \<Rightarrow> (weight \<Rightarrow> 'a) \<Rightarrow> 'a digraph" where
  "projectGraph g semiring project =
     foldl (\<lambda>h (from, to, w). setEdge h from to (project w))
       (foldl addNode (newDigraph semiring) (g_nodes g)) (edges g)"

definition mostTrustedPath :: "weight digraph \<Rightarrow> string \<Rightarrow> string \<Rightarrow> (jsnum \<times> string list) option" where
  "mostTrustedPath g source target =
     optimalPathTrace (projectGraph g TrustSemiring (\<lambda>w. record_field w ''trust'')) source target"

definition lowestRiskPath :: "weight digraph \<Rightarrow> string \<Rightarrow> string \<Rightarrow> (jsnum \<times> string list) option" where
  "lowestRiskPath g source target =
     optimalPathTrace (projectGraph g RegulatoryRiskSemiring (\<lambda>w. record_field w ''regulatory_risk'')) source target"

definition cheapestPath :: "weight digraph \<Rightarrow> string \<Rightarrow> string \<Rightarrow> (jsnum \<times> string list) option" where
  "cheapestPath g source target =
     optimalPathTrace (projectGraph g CostSemiring (\<lambda>w. record_field w ''cost'')) source target"

subsection \<open>Ranking\<close>

fun num_div :: "jsnum \<Rightarrow> jsnum \<Rightarrow> jsnum" where
  "num_div (Fin x) (Fin y) = (if y = 0 then inf_of_sign x else Fin (x / y))"
| "num_div (Fin x) PInf = Fin 0"
| "num_div (Fin x) NInf = Fin 0"
| "num_div PInf (Fin y) = (if y < 0 then NInf else PInf)"
| "num_div NInf (Fin y) = (if y < 0 then PInf else NInf)"
| "num_div _ _ = NaN"

record rank_weights =
  rw_trust :: jsnum
  rw_cost :: jsnum
  rw_latency :: jsnum
  rw_reliability :: jsnum
  rw_regulatory_risk :: "jsnum option"

definition default_rank_weights :: rank_weights where
  "default_rank_weights =
     \<lparr> rw_trust = Fin (3/10), rw_cost = Fin (2/10), rw_latency = Fin (15/100),
       rw_reliability = Fin (15/100), rw_regulatory_risk = Some (Fin (2/10)) \<rparr>"

definition scoreOf :: "rank_weights \<Rightarrow> weight \<Rightarrow> jsnum" where
  "scoreOf weights route =
     (let f = record_field route;
          costScore = (if f ''cost'' = PInf then Fin 0 else num_div (Fin 1) (num_add (Fin 1) (f ''cost'')));
          latencyScore = (if f ''latency'' = PInf then Fin 0
            else num_div (Fin 1) (num_add (Fin 1) (num_div (f ''latency'') (Fin 1000))));
          riskScore = (if f ''regulatory_risk'' = PInf then Fin 0
            else num_div (Fin 1) (num_add (Fin 1) (f ''regulatory_risk'')))
      in num_add (num_add (num_add (num_add (num_mul (f ''trust'') (rw_trust weights))
             (num_mul costScore (rw_cost weights)))
           (num_mul latencyScore (rw_latency weights)))
         (num_mul (f ''reliability'') (rw_reliability weights)))
       (num_mul riskScore (or_else (rw_regulatory_risk weights) (Fin 0))))"

record ranked_agent =
  ra_id :: string
  ra_score :: jsnum
  ra_route :: weight
  ra_path :: "string list"
  ra_alternatives :: nat

definition rank_node :: "(string \<Rightarrow> string \<Rightarrow> int) \<Rightarrow> rank_weights \<Rightarrow> string \<Rightarrow> string \<times> frontier \<Rightarrow> ranked_agent option" where
  \<comment> \<open>one pass of the loop over the frontiers; \<open>None\<close> is \<open>continue\<close>\<close>
  "rank_node localeCompare weights source = (\<lambda>(nodeId, frontier).
     if nodeId = source then None
     else
       (let viable = filter (\<lambda>p. num_le (Fin 0) (record_field (pw_weight p) ''trust'')
                \<and> record_field (pw_weight p) ''trust'' \<noteq> Fin 0) frontier
        in case chooseFromFrontier localeCompare viable (\<lambda>w path. scoreOf weights w) of
             None \<Rightarrow> None
           | Some (chosen, score, ordered) \<Rightarrow>
               Some \<lparr> ra_id = nodeId, ra_score = score, ra_route = pw_weight chosen,
                      ra_path = pw_path chosen, ra_alternatives = length viable \<rparr>))"

definition score_descending :: "ranked_agent \<Rightarrow> ranked_agent \<Rightarrow> int" where
  \<comment> \<open>the sign of \<open>b.score - a.score\<close>, which is NaN on two equal infinities and then counts as 0\<close>
  "score_descending a b =
     (if ra_score a = ra_score b then 0 else if ra_score b < ra_score a then - 1 else 1)"

definition rankReachableAgents :: "(string \<Rightarrow> string \<Rightarrow> int) \<Rightarrow> ((string \<times> jsnum) list \<Rightarrow> string) \<Rightarrow>
    weight digraph \<Rightarrow> string \<Rightarrow> rank_weights \<Rightarrow> ranked_agent list" where
  "rankReachableAgents localeCompare stringify g source weights =
     js_sort score_descending
       (List.map_filter (rank_node localeCompare weights source)
         (frontierPaths localeCompare stringify g ROUTE_WEIGHT_DIMENSIONS source None))"

subsection \<open>Projection\<close>

lemma edge_edges: "edge g u v w \<Longrightarrow> (u, v, w) \<in> set (edges g)"
proof -
  assume "edge g u v w"
  then obtain ns where "(u, ns) \<in> set (g_adj g)" "(v, w) \<in> set ns"
    by (auto simp add: edge_def neighbors_def jsm_get_def dest!: map_of_SomeD split: option.splits)
  then show ?thesis unfolding edges_def by force
qed

lemma edge_project:
  assumes "graph_wf C g"
  shows "edge (projectGraph g sr f) u v x \<longleftrightarrow> (\<exists>w. edge g u v w \<and> x = f w)"
proof -
  let ?h = "foldl addNode (newDigraph sr) (g_nodes g)"
  have fold: "edge (foldl (\<lambda>h (from, to, w). setEdge h from to (f w)) ?h es) u v x \<longleftrightarrow> (\<exists>w. (u, v, w) \<in> set es \<and> x = f w)"
    if "\<And>u v w w'. (u, v, w) \<in> set es \<Longrightarrow> (u, v, w') \<in> set es \<Longrightarrow> w = w'" for es u v x
    using that
  proof (induction es rule: rev_induct)
    case Nil
    then show ?case by (simp add: fold_addNode(2)) (simp add: edge_def newDigraph_def neighbors_def)
  next
    case (snoc e es)
    obtain a b c where e: "e = (a, b, c)" by (cases e)
    have "edge (foldl (\<lambda>h (from, to, w). setEdge h from to (f w)) ?h es) u v x \<longleftrightarrow> (\<exists>w. (u, v, w) \<in> set es \<and> x = f w)"
    proof (rule snoc.IH)
      show "w = w'" if "(a, b, w) \<in> set es" "(a, b, w') \<in> set es" for a b w w'
        using snoc.prems [of a b w w'] that by simp
    qed
    moreover have "(\<exists>w. (a, b, w) \<in> set es \<and> x = f w) \<longrightarrow> x = f c"
    proof -
      have "w = c" if "(a, b, w) \<in> set es" for w using snoc.prems [of a b w c] that e by simp
      then show ?thesis by blast
    qed
    ultimately show ?case by (cases "u = a \<and> v = b") (auto simp add: edge_setEdge e)
  qed
  have edges: "(u, v, w) \<in> set (edges g) \<longleftrightarrow> edge g u v w" for u v w
    by (rule iffI [OF edges_edge [OF assms] edge_edges])
  have uniq: "\<And>a b w w'. (a, b, w) \<in> set (edges g) \<Longrightarrow> (a, b, w') \<in> set (edges g) \<Longrightarrow> w = w'"
    by (simp add: edges edge_def)
  from fold [of "edges g" u v x, OF uniq] show ?thesis by (simp add: edges projectGraph_def)
qed

lemma fold_addNode_wf: "graph_wf C h \<Longrightarrow> graph_wf C (foldl addNode h ns)"
  "set (g_nodes (foldl addNode h ns)) = set (g_nodes h) \<union> set ns"
  by (induction ns arbitrary: h) (simp_all add: graph_wf_addNode)

lemma nodes_setEdge: "set (g_nodes (setEdge g u v w)) = insert u (insert v (set (g_nodes g)))"
  by (auto simp add: setEdge_def put_neighbor_def Let_def)

lemma project_wf:
  assumes "graph_wf C g" and "\<And>u v w. edge g u v w \<Longrightarrow> f w \<in> C'"
  shows "graph_wf C' (projectGraph g sr f) \<and> set (g_nodes (projectGraph g sr f)) = set (g_nodes g)"
proof -
  have fold: "graph_wf C' (foldl (\<lambda>h (from, to, w). setEdge h from to (f w)) h es)
      \<and> set (g_nodes (foldl (\<lambda>h (from, to, w). setEdge h from to (f w)) h es)) = set (g_nodes h)"
    if "graph_wf C' h" "\<And>u v w. (u, v, w) \<in> set es \<Longrightarrow> f w \<in> C' \<and> u \<in> set (g_nodes h) \<and> v \<in> set (g_nodes h)"
    for h es
    using that
  proof (induction es rule: rev_induct)
    case (snoc e es)
    obtain a b c where e: "e = (a, b, c)" by (cases e)
    let ?r = "foldl (\<lambda>h (from, to, w). setEdge h from to (f w)) h es"
    have "f w \<in> C' \<and> u \<in> set (g_nodes h) \<and> v \<in> set (g_nodes h)" if "(u, v, w) \<in> set es" for u v w
      using snoc.prems(2) [of u v w] that by simp
    from snoc.IH [OF snoc.prems(1) this] have "graph_wf C' ?r" "set (g_nodes ?r) = set (g_nodes h)" by auto
    moreover have "f c \<in> C'" "a \<in> set (g_nodes h)" "b \<in> set (g_nodes h)" using snoc.prems(2) [of a b c] e by auto
    ultimately show ?case by (simp add: e graph_wf_setEdge nodes_setEdge insert_absorb)
  qed simp
  let ?h = "foldl addNode (newDigraph sr) (g_nodes g)"
  have h: "graph_wf C' ?h" "set (g_nodes ?h) = set (g_nodes g)"
    using fold_addNode_wf(1) [OF graph_wf_new] fold_addNode_wf(2) [of "newDigraph sr"]
    by (simp_all add: newDigraph_def)
  have "f w \<in> C' \<and> u \<in> set (g_nodes ?h) \<and> v \<in> set (g_nodes ?h)" if "(u, v, w) \<in> set (edges g)" for u v w
  proof -
    have e: "edge g u v w" using edges_edge [OF assms(1) that] .
    then have "v \<in> set (g_nodes g)" using assms(1) unfolding graph_wf_def by blast
    moreover have "jsm_has (g_adj g) u" using e by (auto simp add: edge_def neighbors_def jsm_has_iff split: option.splits)
    ultimately show ?thesis using assms e h by (simp add: graph_wf_def jsm_keys_iff [symmetric])
  qed
  from fold [OF h(1) this] h(2) show ?thesis by (simp add: projectGraph_def)
qed

lemma semiring_project [simp]: "g_semiring (projectGraph g sr f) = sr"
proof -
  have "g_semiring (foldl (\<lambda>h (from, to, w). setEdge h from to (f w)) h es) = g_semiring h" for h es
    by (induction es arbitrary: h) (auto simp add: semiring_setEdge)
  then show ?thesis by (simp add: projectGraph_def fold_addNode(3) newDigraph_def)
qed

lemma project_edges:
  assumes "graph_wf C g"
  shows "hasEdge (projectGraph g sr f) u v = hasEdge g u v"
    and "hasEdge g u v \<Longrightarrow> getEdge (projectGraph g sr f) u v = f (getEdge g u v)"
  using edge_project [OF assms, of sr f u v] by (auto simp add: edge_iff)

lemma project_walk:
  assumes "graph_wf C g" and "set (g_nodes (projectGraph g sr f)) = set (g_nodes g)"
  shows "is_walk (projectGraph g sr f) xs = is_walk g xs"
  by (induction xs rule: induct_list012) (simp_all add: project_edges [OF assms(1)] assms(2))

lemma trust_add: "sr_add TrustSemiring = math_max"
  by (simp add: sr_defs)

text \<open>The trust of a chain: the product of the trust of its edges.\<close>

fun chain_trust :: "weight digraph \<Rightarrow> string list \<Rightarrow> rat" where
  "chain_trust g (u # v # vs) =
     (case record_field (getEdge g u v) ''trust'' of Fin t \<Rightarrow> t | _ \<Rightarrow> 0) * chain_trust g (v # vs)"
| "chain_trust g _ = 1"

lemma chain_trust_weight:
  assumes "graph_wf C g" and "\<And>u v w. edge g u v w \<Longrightarrow> record_field w ''trust'' \<in> unit_carrier"
  shows "is_walk g xs \<Longrightarrow> walk_weight (projectGraph g TrustSemiring (\<lambda>w. record_field w ''trust'')) xs = Fin (chain_trust g xs)"
proof (induction xs rule: induct_list012)
  case (3 x y zs)
  then have "edge g x y (getEdge g x y)" by (simp add: edge_iff)
  from assms(2) [OF this] obtain t where "record_field (getEdge g x y) ''trust'' = Fin t" by (auto simp add: unit_carrier_iff)
  with 3 show ?case by (simp add: project_edges [OF assms(1)]) (simp add: sr_defs)
qed (simp_all add: sr_defs)

subsection \<open>Properties\<close>

text \<open>
  The most trusted path is what it says: in a well-formed network whose trust values lie
  between zero and one, \<open>mostTrustedPath\<close> returns a chain of the network from the source to the
  target whose edge trusts multiply to the reported trust, and no chain of the network to that target
  multiplies to more; it returns null only if every chain to the target multiplies to zero.
\<close>
theorem most_trusted_path_correct:
  assumes "graph_wf C g" and "\<And>u v w. edge g u v w \<Longrightarrow> record_field w ''trust'' \<in> unit_carrier"
    and "source \<in> set (g_nodes g)" and "target \<in> set (g_nodes g)" and "source \<noteq> target"
  shows "case mostTrustedPath g source target of
      None \<Rightarrow> (\<forall>xs. walk_to g source target xs \<longrightarrow> chain_trust g xs = 0)
    | Some (t, path) \<Rightarrow> walk_to g source target path \<and> distinct path \<and> t = Fin (chain_trust g path)
        \<and> (\<forall>xs. walk_to g source target xs \<longrightarrow> chain_trust g xs \<le> chain_trust g path)"
proof -
  let ?f = "\<lambda>w. record_field w ''trust''"
  let ?h = "projectGraph g TrustSemiring ?f"
  have h: "graph_wf unit_carrier ?h" "set (g_nodes ?h) = set (g_nodes g)"
    using project_wf [OF assms(1), of ?f unit_carrier TrustSemiring] assms(2) by auto
  have walk: "walk_to ?h source target xs = walk_to g source target xs" for xs
    using project_walk [OF assms(1) h(2)] by (simp add: walk_to_def)
  have weight: "walk_weight ?h xs = Fin (chain_trust g xs)" if "walk_to g source target xs" for xs
    using chain_trust_weight [OF assms(1,2)] that by (simp add: walk_to_def)
  have r: "routing ?h unit_carrier" using h(1) trust.path_semiring_axioms by (simp add: routing_def routing_axioms_def)
  have sel: "selective_routing ?h unit_carrier"
    using r by (auto simp add: selective_routing_def selective_routing_axioms_def sr_defs math_max_def)
  note tr = selective_routing.optimalPathTrace_spec [OF sel, of source target]
  note best = routing.optimalPath_spec [OF r, of source target]
  have ub: "math_max (Fin (chain_trust g xs)) (optimalPath ?h source target) = optimalPath ?h source target"
    if "walk_to g source target xs" for xs
    using best assms(3,4) h(2) weight [OF that] walk that
    by (auto simp add: trust.below_def trust_add)
  have nonneg: "0 \<le> chain_trust g xs" if "walk_to g source target xs" for xs
    using routing.weight_in [OF r, of xs] weight [OF that] walk [of xs] that by (simp add: walk_to_def)
  show ?thesis
  proof (cases "mostTrustedPath g source target")
    case None
    then have "optimalPath ?h source target = Fin 0"
      using tr assms(3,4) h(2) by (simp add: mostTrustedPath_def sr_defs)
    with ub nonneg None show ?thesis by (fastforce simp add: math_max_Fin max_def)
  next
    case (Some tp)
    obtain t path where tp: "tp = (t, path)" by (cases tp)
    have p: "t = optimalPath ?h source target" "walk_to g source target path" "distinct path"
      "t = Fin (chain_trust g path)"
      using Some tr assms(3,4) h(2) tp walk [of path] weight [of path] by (auto simp add: mostTrustedPath_def)
    have "chain_trust g xs \<le> chain_trust g path" if "walk_to g source target xs" for xs
      using ub [OF that, unfolded p(1) [symmetric] p(4)] by (simp add: math_max_Fin)
    with p Some tp show ?thesis by simp
  qed
qed

interpretation by_score: js_comparator score_descending
  by unfold_locales (auto simp add: score_descending_def split: if_splits)

lemma optimalPaths_wf: "jsm_wf (optimalPaths g source)"
proof -
  have nb: "jsm_wf d \<Longrightarrow> relax_neighbors sr a es (d, c) = (d', c') \<Longrightarrow> jsm_wf d'" for sr :: "'a semiring_ops" and a es d c d' c'
  proof (induction es arbitrary: d c)
    case (Cons e es)
    obtain v w where "e = (v, w)" by (cases e)
    with Cons.prems Cons.IH Cons.IH [OF jsm_wf_set [OF Cons.prems(1)]] show ?case
      by (simp add: Let_def split: if_splits)
  qed simp
  have nodes: "jsm_wf d \<Longrightarrow> relax_nodes g ns (d, c) = (d', c') \<Longrightarrow> jsm_wf d'" for ns d c d' c'
  proof (induction ns arbitrary: d c)
    case (Cons u ns)
    obtain e ce where r: "relax_neighbors (g_semiring g) (the (jsm_get d u)) (neighbors g u) (d, c) = (e, ce)" by fastforce
    with Cons nb [OF Cons.prems(1) r] show ?case by (auto simp add: Let_def split: if_splits)
  qed simp
  have rounds: "jsm_wf d \<Longrightarrow> jsm_wf (relax_rounds g i d)" for i d
  proof (induction i arbitrary: d)
    case (Suc i)
    obtain e ce where r: "relax_nodes g (g_nodes g) (d, False) = (e, ce)" by fastforce
    with Suc nodes [OF Suc.prems r] show ?case by simp
  qed simp
  have "jsm_wf d \<Longrightarrow> jsm_wf (foldl (\<lambda>d node. jsm_set node z d) d ns)" for z :: 'a and d :: "'a distances" and ns
    by (induction ns arbitrary: d) simp_all
  then show ?thesis by (auto simp add: optimalPaths_def initial_distances_def intro!: rounds)
qed

lemma rank_node_spec:
  assumes "js_comparator lc" and "rank_node lc weights source (v, f) = Some a"
  shows "\<exists>p \<in> set f. v \<noteq> source \<and> ra_id a = v \<and> ra_route a = pw_weight p \<and> ra_path a = pw_path p
    \<and> num_le (Fin 0) (record_field (pw_weight p) ''trust'') \<and> record_field (pw_weight p) ''trust'' \<noteq> Fin 0
    \<and> ra_score a = scored_by (\<lambda>w path. scoreOf weights w) p"
proof -
  let ?viable = "filter (\<lambda>p. num_le (Fin 0) (record_field (pw_weight p) ''trust'')
                \<and> record_field (pw_weight p) ''trust'' \<noteq> Fin 0) f"
  have v: "v \<noteq> source" using assms(2) by (auto simp add: rank_node_def)
  have ne: "?viable \<noteq> []" using assms(2) v by (auto simp add: rank_node_def chooseFromFrontier_def split: if_splits)
  obtain p ordered where c: "chooseFromFrontier lc ?viable (\<lambda>w path. scoreOf weights w)
        = Some (p, scored_by (\<lambda>w path. scoreOf weights w) p, ordered)" and p: "p \<in> set ?viable"
    by (rule choose_spec [OF assms(1) ne]) (erule that, assumption)
  have "a = \<lparr> ra_id = v, ra_score = scored_by (\<lambda>w path. scoreOf weights w) p, ra_route = pw_weight p,
      ra_path = pw_path p, ra_alternatives = length ?viable \<rparr>"
    using assms(2) v unfolding rank_node_def Let_def prod.case c by simp
  moreover have "p \<in> set f" "num_le (Fin 0) (record_field (pw_weight p) ''trust'')"
    "record_field (pw_weight p) ''trust'' \<noteq> Fin 0" using p by simp_all
  ultimately show ?thesis using v by (intro bexI [of _ p]) simp_all
qed

text \<open>
  Every agent the ranking returns comes with a route that exists: the path follows edges of the
  network from the source to that agent, the reported weight is exactly what the weights of those
  edges compose to, its trust is positive, and the reported score is the score of that very weight. The
  ranking is by descending score.
\<close>
theorem ranked_routes_are_real:
  assumes "js_comparator localeCompare" and "graph_wf UNIV g"
    and "a \<in> set (rankReachableAgents localeCompare stringify g source weights)"
  shows "ra_id a \<noteq> source
    \<and> real_route ROUTE_WEIGHT_DIMENSIONS g source (ra_id a) \<lparr> pw_weight = ra_route a, pw_path = ra_path a \<rparr>
    \<and> num_le (Fin 0) (record_field (ra_route a) ''trust'') \<and> record_field (ra_route a) ''trust'' \<noteq> Fin 0
    \<and> ra_score a = scored_by (\<lambda>w path. scoreOf weights w) \<lparr> pw_weight = ra_route a, pw_path = ra_path a \<rparr>
    \<and> sorted_wrt (\<lambda>x y. ra_score y \<le> ra_score x) (rankReachableAgents localeCompare stringify g source weights)"
proof -
  let ?F = "frontierPaths localeCompare stringify g ROUTE_WEIGHT_DIMENSIONS source None"
  from assms(3) obtain v f where vf: "(v, f) \<in> set ?F" "rank_node localeCompare weights source (v, f) = Some a"
    by (auto simp add: rankReachableAgents_def map_filter_def)
  have "jsm_get ?F v = Some f"
    using vf(1) by (simp add: frontierPaths_def jsm_in_set_iff optimalPaths_wf)
  from frontier_real_routes [OF assms(2) this] have real: "real_route ROUTE_WEIGHT_DIMENSIONS g source v p" if "p \<in> set f" for p
    using that .
  from rank_node_spec [OF assms(1) vf(2)] obtain p where p: "p \<in> set f" "v \<noteq> source" "ra_id a = v" "ra_route a = pw_weight p"
    "ra_path a = pw_path p" "num_le (Fin 0) (record_field (pw_weight p) ''trust'')"
    "record_field (pw_weight p) ''trust'' \<noteq> Fin 0" "ra_score a = scored_by (\<lambda>w path. scoreOf weights w) p" by blast
  have "sorted_wrt (\<lambda>x y. score_descending x y \<le> 0) (rankReachableAgents localeCompare stringify g source weights)"
    unfolding rankReachableAgents_def by (rule by_score.sorted_js_sort)
  then have "sorted_wrt (\<lambda>x y. ra_score y \<le> ra_score x) (rankReachableAgents localeCompare stringify g source weights)"
    by (rule sorted_wrt_mono_rel [rotated]) (auto simp add: score_descending_def split: if_splits)
  moreover obtain w path where "p = \<lparr> pw_weight = w, pw_path = path \<rparr>" by (cases p)
  ultimately show ?thesis using p real [OF p(1)] by simp
qed

definition valid_route_weight :: "weight \<Rightarrow> bool" where
  "valid_route_weight w \<longleftrightarrow> record_field w ''trust'' \<in> unit_carrier \<and> record_field w ''cost'' \<in> cost_carrier
     \<and> record_field w ''latency'' \<in> cost_carrier \<and> record_field w ''reliability'' \<in> unit_carrier
     \<and> record_field w ''regulatory_risk'' \<in> cost_carrier"

lemma valid_route_weight_iff: "route_dims.valid w \<longleftrightarrow> valid_route_weight w"
  unfolding route_dims.valid_def
  by (simp add: ROUTE_WEIGHT_DIMENSIONS_def route_carrier_def valid_route_weight_def)

text \<open>
  Pruning a set of routes loses nothing a policy could want: over the routing dimensions, for
  valid weights and within the path bound, pruning returns routes it was given, none dominated by
  another, and for every scoring policy that never prefers a dominated weight, choosing from the
  pruned frontier reaches the best score over all the routes.
\<close>
theorem pruned_choice_is_optimal:
  assumes "js_comparator localeCompare" and "items \<noteq> []" and "length items \<le> maxPaths"
    and "\<And>x. x \<in> set items \<Longrightarrow> valid_route_weight (pw_weight x)"
    and "\<And>a b. valid_route_weight a \<Longrightarrow> valid_route_weight b \<Longrightarrow> dominatesOrEquals ROUTE_WEIGHT_DIMENSIONS a b \<Longrightarrow> policy b \<le> policy a"
    and "\<And>w. policy w \<noteq> NaN"
  shows "\<exists>p ordered. chooseFromFrontier localeCompare (prune localeCompare ROUTE_WEIGHT_DIMENSIONS items maxPaths) (\<lambda>w path. policy w)
      = Some (p, policy (pw_weight p), ordered)
    \<and> p \<in> set items \<and> list_all (\<lambda>x. policy (pw_weight x) \<le> policy (pw_weight p)) items
    \<and> list_all (\<lambda>x. list_all (\<lambda>y. dominatesOrEquals ROUTE_WEIGHT_DIMENSIONS (pw_weight x) (pw_weight y) = (x = y)) ordered) ordered"
proof -
  let ?r = "prune localeCompare ROUTE_WEIGHT_DIMENSIONS items maxPaths"
  have valid: "\<forall>x \<in> set items. route_dims.valid (pw_weight x)" using assms(4) by (simp add: valid_route_weight_iff)
  note spec = route_dims.prune_spec [OF valid, of localeCompare maxPaths]
  have best: "\<exists>y \<in> set ?r. policy (pw_weight x) \<le> policy (pw_weight y)" if "x \<in> set items" for x
    using route_dims.prune_keeps_best [where score = policy, OF valid assms(3) that] assms(5)
    by (simp add: valid_route_weight_iff)
  have "hd items \<in> set items" using assms(2) by simp
  then have ne: "?r \<noteq> []" using best by fastforce
  have sc: "scored_by (\<lambda>w path. policy w) p = policy (pw_weight p)" for p using assms(6) by (simp add: scored_by_def)
  obtain p ordered where c: "chooseFromFrontier localeCompare ?r (\<lambda>w path. policy w) = Some (p, policy (pw_weight p), ordered)"
    and p: "p \<in> set ?r" and o: "mset ordered = mset ?r" and top: "\<And>q. q \<in> set ?r \<Longrightarrow> policy (pw_weight q) \<le> policy (pw_weight p)"
    by (rule choose_spec [OF assms(1) ne, of "\<lambda>w path. policy w", unfolded sc]) (erule that, assumption+)
  have "policy (pw_weight x) \<le> policy (pw_weight p)" if "x \<in> set items" for x
    using best [OF that] top order_trans by blast
  moreover have "set ordered = set ?r" using o by (metis set_mset_mset)
  moreover have "dominatesOrEquals ROUTE_WEIGHT_DIMENSIONS (pw_weight x) (pw_weight y) = (x = y)"
    if "x \<in> set ?r" "y \<in> set ?r" for x y
    using that spec valid route_dims.dominates_refl by (auto simp add: route_dims.antichain_def)
  ultimately show ?thesis using c p spec by (auto simp add: list_all_iff)
qed

subsection \<open>Witnesses\<close>

definition demo_agents :: "agent_profile list" where
  "demo_agents =
     [\<lparr> ap_motebit_id = ''bob'', ap_trust_record = Some \<lparr> tr_trust_level = Trusted, tr_successful_tasks = None, tr_failed_tasks = None \<rparr>,
        ap_listing = None, ap_latency_ms = None, ap_reliability = None, ap_is_online = True,
        ap_regulatory_risk = None, ap_trust_override = None \<rparr>,
      \<lparr> ap_motebit_id = ''eve'', ap_trust_record = Some \<lparr> tr_trust_level = Blocked, tr_successful_tasks = None, tr_failed_tasks = None \<rparr>,
        ap_listing = None, ap_latency_ms = None, ap_reliability = None, ap_is_online = True,
        ap_regulatory_risk = None, ap_trust_override = None \<rparr>]"

definition demo_graph :: "weight digraph" where
  "demo_graph = buildAgentGraph ''me'' demo_agents"

definition no_json :: "(string \<times> jsnum) list \<Rightarrow> string" where
  "no_json fs = []"

lemma demo_graph_edge: "edge demo_graph u v w \<longleftrightarrow> u = ''me'' \<and> v = ''bob''
    \<and> w = route_weight_of (Fin (9/10)) (Fin 0) (Fin 5000) (Fin (5/10)) (Fin 0)"
  and demo_graph_nodes: "set (g_nodes demo_graph) = {''me'', ''bob''}"
  and demo_graph_wf: "graph_wf UNIV demo_graph"
proof -
  have g: "demo_graph = setEdge (addNode (newDigraph RouteWeightSemiring) ''me'') ''me'' ''bob''
      (route_weight_of (Fin (9/10)) (Fin 0) (Fin 5000) (Fin (5/10)) (Fin 0))"
    by (simp add: demo_graph_def buildAgentGraph_def demo_agents_def addAgent_def Let_def trustLevelToScore_def
        TRUST_LEVEL_SCORES_def jsm_get_def estimateAgentCost_def or_else_def)
  show "edge demo_graph u v w \<longleftrightarrow> u = ''me'' \<and> v = ''bob''
      \<and> w = route_weight_of (Fin (9/10)) (Fin 0) (Fin 5000) (Fin (5/10)) (Fin 0)"
    unfolding g edge_setEdge edge_addNode by (auto simp add: edge_def newDigraph_def neighbors_def)
  show "set (g_nodes demo_graph) = {''me'', ''bob''}" unfolding g nodes_setEdge by (auto simp add: newDigraph_def)
  show "graph_wf UNIV demo_graph" unfolding g by (intro graph_wf_setEdge graph_wf_addNode graph_wf_new) simp
qed

theorem most_trusted_path_correct_witness:
  "case mostTrustedPath demo_graph ''me'' ''bob'' of
      None \<Rightarrow> (\<forall>xs. walk_to demo_graph ''me'' ''bob'' xs \<longrightarrow> chain_trust demo_graph xs = 0)
    | Some (t, path) \<Rightarrow> walk_to demo_graph ''me'' ''bob'' path \<and> distinct path \<and> t = Fin (chain_trust demo_graph path)
        \<and> (\<forall>xs. walk_to demo_graph ''me'' ''bob'' xs \<longrightarrow> chain_trust demo_graph xs \<le> chain_trust demo_graph path)"
  by (rule most_trusted_path_correct [OF demo_graph_wf])
    (auto simp add: demo_graph_edge demo_graph_nodes route_weight_of_def record_field_def jsm_get_def)

theorem ranked_routes_are_real_witness:
  "\<exists>a. a \<in> set (rankReachableAgents code_point_order no_json demo_graph ''me'' default_rank_weights)
     \<and> ra_id a \<noteq> ''me'' \<and> ra_path a = [''bob'']"
proof -
  let ?r = "rankReachableAgents code_point_order no_json demo_graph ''me'' default_rank_weights"
  have r: "map ra_path ?r = [[''bob'']]" by code_simp
  then obtain a where "a \<in> set ?r" "ra_path a = [''bob'']" by (cases ?r) auto
  with ranked_routes_are_real [OF code_points.js_comparator_axioms demo_graph_wf this(1)] show ?thesis by blast
qed

theorem pruned_choice_is_optimal_witness:
  "\<exists>p ordered. chooseFromFrontier code_point_order
     (prune code_point_order ROUTE_WEIGHT_DIMENSIONS
        [\<lparr> pw_weight = route_weight_of (Fin 1) (Fin 0) (Fin 0) (Fin 1) (Fin 0), pw_path = [''bob''] \<rparr>] 32) (\<lambda>w path. Fin 1)
      = Some (p, Fin 1, ordered)"
proof -
  let ?i = "[\<lparr> pw_weight = route_weight_of (Fin 1) (Fin 0) (Fin 0) (Fin 1) (Fin 0), pw_path = [''bob''] \<rparr>]"
  have "valid_route_weight (pw_weight x)" if "x \<in> set ?i" for x
    using that by (auto simp add: valid_route_weight_def route_weight_of_def record_field_def jsm_get_def)
  from pruned_choice_is_optimal [of code_point_order ?i 32 "\<lambda>w. Fin 1", OF code_points.js_comparator_axioms _ _ this] show ?thesis by auto
qed

end
