(* ===== verification/DepositDetector.thy ===== *)
theory DepositDetector
  imports Lifecycle
begin

text \<open>
  On-chain deposit detection: the cycle \<open>detectDeposits\<close> of \<open>packages/deposit-detector/src/detector.ts\<close>
  over the store interface of \<open>types.ts\<close>, the in-memory store of \<open>store.ts\<close>, and the relay's wiring of
  \<open>services/relay/src/deposit-detector.ts\<close>: its tables as lists and the callback that credits the
  virtual account and records the log in one transaction. The JSON-RPC answers are parameters: the
  head block and the logs of a range, either of which may fail; so is the database of a cycle, which may
  refuse the transaction of any deposit. The locale \<open>deposit_store\<close> states what
  the cycle relies on and is interpreted on the relay's tables.

  \<open>BigInt\<close> is modelled on the strings a JSON-RPC log carries, \<open>0x\<close> followed by hex digits, and on
  decimal digits; any other string makes it throw. Amounts are exact integers: \<open>Number\<close> of an amount
  above \<open>2 ^ 53\<close>, which would round, is not modelled.
\<close>

subsection \<open>Types\<close>

record evm_transfer_log =
  lg_blockNumber :: int
  lg_txHash :: string
  lg_logIndex :: nat
  lg_fromTopic :: string
  lg_toTopic :: string
  lg_amountHex :: string

record decoded_transfer =
  dt_txHash :: string
  dt_logIndex :: nat
  dt_from :: string
  dt_to :: string
  dt_value :: int
  dt_blockNumber :: int

record detected_deposit =
  dd_motebitId :: string
  dd_amountOnchain :: int
  dd_txHash :: string
  dd_logIndex :: nat
  dd_fromAddress :: string
  dd_blockNumber :: int
  dd_chain :: string

record known_wallet =
  kw_agentId :: string
  kw_address :: string

record detect_config =
  dc_chain :: string
  dc_maxBlocksPerCycle :: int
  dc_confirmations :: int

record 's detector_store =
  ds_getCursor :: "'s \<Rightarrow> string \<Rightarrow> int option"
  ds_setCursor :: "'s \<Rightarrow> string \<Rightarrow> int \<Rightarrow> int \<Rightarrow> 's"
  ds_getWallets :: "'s \<Rightarrow> known_wallet list"
  ds_hasProcessedLog :: "'s \<Rightarrow> string \<Rightarrow> nat \<Rightarrow> bool"

text \<open>What the chain answers in one cycle: \<open>None\<close> is a failed call.\<close>

record rpc_answers =
  rpc_getBlockNumber :: "int option"
  rpc_getTransferLogs :: "int \<Rightarrow> int \<Rightarrow> evm_transfer_log list option"

subsection \<open>Decoding\<close>

definition to_lower_char :: "char \<Rightarrow> char" where
  "to_lower_char c = (let n = of_char c :: nat in if 65 \<le> n \<and> n \<le> 90 then char_of (n + 32) else c)"

definition toLowerCase :: "string \<Rightarrow> string" where
  "toLowerCase s = map to_lower_char s"

definition is_digit :: "char \<Rightarrow> bool" where
  "is_digit c \<longleftrightarrow> 48 \<le> (of_char c :: nat) \<and> (of_char c :: nat) \<le> 57"

definition js_BigInt :: "string \<Rightarrow> int option" where
  "js_BigInt s =
     (if take 2 s = ''0x''
      then (if drop 2 s \<noteq> [] \<and> list_all (\<lambda>c. hex_val c \<noteq> None) (drop 2 s)
            then Some (int (hex_value (drop 2 s))) else None)
      else (if list_all is_digit s then Some (foldl (\<lambda>n c. 10 * n + int (of_char c - 48)) 0 s) else None))"

definition decodeTransfer :: "evm_transfer_log \<Rightarrow> decoded_transfer result" where
  "decodeTransfer log =
     (case js_BigInt (lg_amountHex log) of
        None \<Rightarrow> throw (JsError ''SyntaxError: Cannot convert to a BigInt'')
      | Some v \<Rightarrow> ok
          \<lparr> dt_txHash = lg_txHash log, dt_logIndex = lg_logIndex log,
            dt_from = ''0x'' @ toLowerCase (drop 26 (lg_fromTopic log)),
            dt_to = ''0x'' @ toLowerCase (drop 26 (lg_toTopic log)),
            dt_value = v, dt_blockNumber = lg_blockNumber log \<rparr>)"

subsection \<open>The cycle\<close>

fun scan_logs :: "'s detector_store \<Rightarrow> (detected_deposit \<Rightarrow> 's \<Rightarrow> bool \<times> 's) \<Rightarrow> string \<Rightarrow> (string, string) jsmap \<Rightarrow>
    evm_transfer_log list \<Rightarrow> nat \<Rightarrow> 's \<Rightarrow> nat result \<times> 's" where
  \<comment> \<open>the callback answers whether it returned, with the state it left\<close>
  "scan_logs st onDeposit chain walletMap [] detected s = (ok detected, s)"
| "scan_logs st onDeposit chain walletMap (raw # rest) detected s =
     (case decodeTransfer raw of
        Inl e \<Rightarrow> (throw e, s)
      | Inr log \<Rightarrow>
          (case jsm_get walletMap (dt_to log) of
             None \<Rightarrow> scan_logs st onDeposit chain walletMap rest detected s
           | Some motebitId \<Rightarrow>
               if motebitId = [] then scan_logs st onDeposit chain walletMap rest detected s
               else if ds_hasProcessedLog st s (dt_txHash log) (dt_logIndex log)
               then scan_logs st onDeposit chain walletMap rest detected s
               else if dt_value log \<le> 0 then scan_logs st onDeposit chain walletMap rest detected s
               else
                 (case onDeposit \<lparr> dd_motebitId = motebitId, dd_amountOnchain = dt_value log,
                                   dd_txHash = dt_txHash log, dd_logIndex = dt_logIndex log,
                                   dd_fromAddress = dt_from log, dd_blockNumber = dt_blockNumber log,
                                   dd_chain = chain \<rparr> s of
                    (True, s) \<Rightarrow> scan_logs st onDeposit chain walletMap rest (Suc detected) s
                  | (False, s) \<Rightarrow> scan_logs st onDeposit chain walletMap rest detected s)))"

definition scan_range :: "detect_config \<Rightarrow> int option \<Rightarrow> int \<Rightarrow> (int \<times> int) option" where
  \<comment> \<open>steps 1.5 and 2; \<open>None\<close> is the early return of 0\<close>
  "scan_range config cursor currentBlock =
     (if currentBlock \<le> dc_confirmations config then None
      else
        (let safeBlock = currentBlock - dc_confirmations config;
             lastBlock = (case cursor of Some b \<Rightarrow> b | None \<Rightarrow> safeBlock)
         in if lastBlock \<ge> safeBlock then None
            else
              (let fromBlock = lastBlock + 1;
                   toBlock = (if safeBlock - fromBlock > dc_maxBlocksPerCycle config
                              then fromBlock + dc_maxBlocksPerCycle config else safeBlock)
               in Some (fromBlock, toBlock))))"

definition wallet_map :: "known_wallet list \<Rightarrow> (string, string) jsmap" where
  "wallet_map wallets = foldl (\<lambda>m w. jsm_set (toLowerCase (kw_address w)) (kw_agentId w) m) [] wallets"

definition detectDeposits :: "'s detector_store \<Rightarrow> (detected_deposit \<Rightarrow> 's \<Rightarrow> bool \<times> 's) \<Rightarrow> detect_config \<Rightarrow>
    rpc_answers \<Rightarrow> int \<Rightarrow> 's \<Rightarrow> nat result \<times> 's" where
  "detectDeposits st onDeposit config rpc now s =
     (case rpc_getBlockNumber rpc of
        None \<Rightarrow> (ok 0, s)
      | Some currentBlock \<Rightarrow>
          (case scan_range config (ds_getCursor st s (dc_chain config)) currentBlock of
             None \<Rightarrow> (ok 0, s)
           | Some (fromBlock, toBlock) \<Rightarrow>
               (let wallets = ds_getWallets st s
                in if length wallets = 0 then (ok 0, ds_setCursor st s (dc_chain config) toBlock now)
                   else
                     (case rpc_getTransferLogs rpc fromBlock toBlock of
                        None \<Rightarrow> (ok 0, s)
                      | Some rawLogs \<Rightarrow>
                          (case scan_logs st onDeposit (dc_chain config) (wallet_map wallets) rawLogs 0 s of
                             (Inl e, s) \<Rightarrow> (throw e, s)
                           | (Inr detected, s) \<Rightarrow> (ok detected, ds_setCursor st s (dc_chain config) toBlock now))))))"

subsection \<open>The in-memory store\<close>

record mem_detector =
  md_wallets :: "known_wallet list"
  md_cursors :: "(string, int) jsmap"
  md_processedLogs :: "string list"

definition log_key :: "string \<Rightarrow> nat \<Rightarrow> string" where
  "log_key txHash logIndex = txHash @ '':'' @ to_dec (int logIndex)"

definition markProcessed :: "mem_detector \<Rightarrow> string \<Rightarrow> nat \<Rightarrow> mem_detector" where
  "markProcessed s txHash logIndex =
     s\<lparr>md_processedLogs := (if log_key txHash logIndex \<in> set (md_processedLogs s) then md_processedLogs s
                             else md_processedLogs s @ [log_key txHash logIndex])\<rparr>"

definition InMemoryDepositDetectorStore :: "mem_detector detector_store" where
  "InMemoryDepositDetectorStore =
     \<lparr> ds_getCursor = (\<lambda>s chain. jsm_get (md_cursors s) chain),
       ds_setCursor = (\<lambda>s chain block updatedAt. s\<lparr>md_cursors := jsm_set chain block (md_cursors s)\<rparr>),
       ds_getWallets = md_wallets,
       ds_hasProcessedLog = (\<lambda>s txHash logIndex. log_key txHash logIndex \<in> set (md_processedLogs s)) \<rparr>"

subsection \<open>The relay's store and callback\<close>

text \<open>The tables \<open>relay_deposit_detector\<close>, \<open>relay_agent_wallets\<close> and \<open>relay_deposit_log\<close>, with the accounts.\<close>

record relay_deposit_row =
  rl_tx_hash :: string
  rl_log_index :: nat
  rl_agent_id :: string
  rl_from_address :: string
  rl_amount :: int
  rl_chain :: string
  rl_block_number :: int
  rl_credited_at :: int

record relay_db =
  db_cursors :: "(string, int \<times> int) jsmap"
  db_wallets :: "known_wallet list"
  db_log :: "relay_deposit_row list"
  db_accounts :: store

definition SqliteDepositDetectorStore :: "relay_db detector_store" where
  "SqliteDepositDetectorStore =
     \<lparr> ds_getCursor = (\<lambda>db chain. map_option fst (jsm_get (db_cursors db) chain)),
       ds_setCursor = (\<lambda>db chain block updatedAt. db\<lparr>db_cursors := jsm_set chain (block, updatedAt) (db_cursors db)\<rparr>),
       ds_getWallets = db_wallets,
       ds_hasProcessedLog = (\<lambda>db txHash logIndex.
         list_ex (\<lambda>r. rl_tx_hash r = txHash \<and> rl_log_index r = logIndex) (db_log db)) \<rparr>"

definition deposit_reference :: "detected_deposit \<Rightarrow> string" where
  "deposit_reference d = ''onchain-'' @ dd_txHash d @ ''-'' @ to_dec (int (dd_logIndex d))"

definition deposit_description :: "detected_deposit \<Rightarrow> string" where
  "deposit_description d =
     ''USDC deposit from '' @ dd_fromAddress d @ '' on '' @ dd_chain d
       @ '' (block '' @ to_dec (dd_blockNumber d) @ '')''"

definition creditOnDeposit :: "int \<Rightarrow> (string \<Rightarrow> nat \<Rightarrow> bool) \<Rightarrow> detected_deposit \<Rightarrow> relay_db \<Rightarrow> bool \<times> relay_db" where
  \<comment> \<open>the transaction throws and is rolled back on a primary-key conflict on \<open>(tx_hash, log_index)\<close> and
    whenever the database refuses it for any other reason, which \<open>fault\<close> says of each log of the cycle;
    the clock is read once per cycle\<close>
  "creditOnDeposit now fault d db =
     (let microAmount = dd_amountOnchain d
      in if microAmount \<le> 0 then (True, db)
         else if fault (dd_txHash d) (dd_logIndex d) then (False, db)
         else if ds_hasProcessedLog SqliteDepositDetectorStore db (dd_txHash d) (dd_logIndex d) then (False, db)
         else
           (let (balance, accounts) = credit (db_accounts db) (dd_motebitId d) microAmount Deposit
                  (Some (deposit_reference d))
                  (Some (deposit_description d))
            in (True, db\<lparr>db_accounts := accounts,
                  db_log := db_log db @ [\<lparr> rl_tx_hash = dd_txHash d, rl_log_index = dd_logIndex d,
                    rl_agent_id = dd_motebitId d, rl_from_address = dd_fromAddress d, rl_amount = dd_amountOnchain d,
                    rl_chain = dd_chain d, rl_block_number = dd_blockNumber d, rl_credited_at = now \<rparr>]\<rparr>)))"

text \<open>One cycle: what the node answers, which transactions the database refuses, and the clock.\<close>

type_synonym detector_cycle = "rpc_answers \<times> (string \<Rightarrow> nat \<Rightarrow> bool) \<times> int"

definition relay_tick :: "detect_config \<Rightarrow> detector_cycle \<Rightarrow> relay_db \<Rightarrow> relay_db" where
  "relay_tick config =
     (\<lambda>(rpc, fault, now) db. snd (detectDeposits SqliteDepositDetectorStore (creditOnDeposit now fault) config rpc now db))"

definition relay_ticks :: "detect_config \<Rightarrow> detector_cycle list \<Rightarrow> relay_db \<Rightarrow> relay_db" where
  "relay_ticks config cycles db = foldl (\<lambda>db c. relay_tick config c db) db cycles"

subsection \<open>What the cycle relies on\<close>

locale deposit_store =
  fixes st :: "'s detector_store" and onDeposit :: "detected_deposit \<Rightarrow> 's \<Rightarrow> bool \<times> 's"
  assumes get_set: "ds_getCursor st (ds_setCursor st s c b t) c' = (if c' = c then Some b else ds_getCursor st s c')"
    and set_processed: "ds_hasProcessedLog st (ds_setCursor st s c b t) tx i = ds_hasProcessedLog st s tx i"
    and deposit_cursor: "onDeposit d s = (r, s') \<Longrightarrow> ds_getCursor st s' c = ds_getCursor st s c"
    and deposit_ok: "0 < dd_amountOnchain d \<Longrightarrow> onDeposit d s = (True, s') \<Longrightarrow>
      ds_hasProcessedLog st s' tx i \<longleftrightarrow> ds_hasProcessedLog st s tx i \<or> (tx = dd_txHash d \<and> i = dd_logIndex d)"
    and deposit_failed: "onDeposit d s = (False, s') \<Longrightarrow> ds_hasProcessedLog st s' tx i = ds_hasProcessedLog st s tx i"
begin

lemma scan_cursor: "scan_logs st onDeposit chain wm logs n s = (r, s') \<Longrightarrow> ds_getCursor st s' c = ds_getCursor st s c"
proof (induction logs arbitrary: n s)
  case (Cons l logs)
  then show ?case
    by (auto simp add: deposit_cursor split: sum.splits option.splits if_splits prod.splits bool.splits)
qed simp

lemma deposit_mono: "onDeposit d s = (r, s') \<Longrightarrow> 0 < dd_amountOnchain d \<Longrightarrow>
    ds_hasProcessedLog st s tx i \<Longrightarrow> ds_hasProcessedLog st s' tx i"
  by (cases r) (simp_all add: deposit_ok deposit_failed)

lemma scan_processed_mono:
  "scan_logs st onDeposit chain wm logs n s = (r, s') \<Longrightarrow> ds_hasProcessedLog st s tx i \<Longrightarrow> ds_hasProcessedLog st s' tx i"
proof (induction logs arbitrary: n s)
  case (Cons l logs)
  then show ?case
    by (auto dest!: deposit_mono split: sum.splits option.splits if_splits prod.splits bool.splits)
qed simp

text \<open>A scan that ends leaves no deposit unprocessed for which the callback would return.\<close>

lemma scan_complete:
  assumes "\<And>d s. dd_txHash d = dt_txHash log \<Longrightarrow> dd_logIndex d = dt_logIndex log \<Longrightarrow>
      \<not> ds_hasProcessedLog st s (dd_txHash d) (dd_logIndex d) \<Longrightarrow> fst (onDeposit d s)"
  shows "scan_logs st onDeposit chain wm logs n s = (Inr k, s') \<Longrightarrow> raw \<in> set logs \<Longrightarrow>
    decodeTransfer raw = Inr log \<Longrightarrow> jsm_get wm (dt_to log) = Some m \<Longrightarrow> m \<noteq> [] \<Longrightarrow> 0 < dt_value log \<Longrightarrow>
    ds_hasProcessedLog st s' (dt_txHash log) (dt_logIndex log)"
proof (induction logs arbitrary: n s)
  case (Cons l logs)
  show ?case
  proof (cases "raw = l")
    case False
    with Cons show ?thesis by (auto split: sum.splits option.splits if_splits prod.splits bool.splits)
  next
    case True
    let ?d = "\<lparr> dd_motebitId = m, dd_amountOnchain = dt_value log, dd_txHash = dt_txHash log, dd_logIndex = dt_logIndex log,
       dd_fromAddress = dt_from log, dd_blockNumber = dt_blockNumber log, dd_chain = chain \<rparr>"
    show ?thesis
    proof (cases "ds_hasProcessedLog st s (dt_txHash log) (dt_logIndex log)")
      case old: True
      with Cons.prems True show ?thesis by (auto intro: scan_processed_mono)
    next
      case new: False
      then obtain t where t: "onDeposit ?d s = (True, t)" using assms [of ?d s] by (cases "onDeposit ?d s") auto
      have "ds_hasProcessedLog st t (dt_txHash log) (dt_logIndex log)"
        using deposit_ok [OF _ t] Cons.prems(6) by simp
      moreover have "scan_logs st onDeposit chain wm logs (Suc n) t = (Inr k, s')"
        using Cons.prems True new t by simp
      ultimately show ?thesis by (rule scan_processed_mono [rotated])
    qed
  qed
qed simp

end

interpretation relay_deposits: deposit_store SqliteDepositDetectorStore "creditOnDeposit now fault" for now fault
  by unfold_locales
    (auto simp add: SqliteDepositDetectorStore_def creditOnDeposit_def Let_def jsm_get_set split: if_splits prod.splits)

subsection \<open>The relay's books\<close>

definition log_keys :: "relay_db \<Rightarrow> (string \<times> nat) list" where
  "log_keys db = map (\<lambda>r. (rl_tx_hash r, rl_log_index r)) (db_log db)"

definition credited_to :: "string \<Rightarrow> relay_deposit_row list \<Rightarrow> int" where
  "credited_to m rows = sum_list (map rl_amount (filter (\<lambda>r. rl_agent_id r = m) rows))"

definition books_follow :: "relay_db \<Rightarrow> relay_db \<Rightarrow> bool" where
  "books_follow db db' \<longleftrightarrow> (\<exists>new. db_log db' = db_log db @ new \<and> distinct (log_keys db')
     \<and> list_all (\<lambda>r. 0 < rl_amount r) new \<and> db_wallets db' = db_wallets db
     \<and> (\<forall>m. balance_of (db_accounts db') m = balance_of (db_accounts db) m + credited_to m new))"

lemma books_follow_refl: "distinct (log_keys db) \<Longrightarrow> books_follow db db"
  by (simp add: books_follow_def credited_to_def)

lemma books_follow_trans:
  assumes "books_follow a b" and "books_follow b c"
  shows "books_follow a c"
proof -
  from assms obtain x y where "db_log b = db_log a @ x" "db_log c = db_log b @ y" "distinct (log_keys c)"
    "list_all (\<lambda>r. 0 < rl_amount r) x" "list_all (\<lambda>r. 0 < rl_amount r) y"
    "db_wallets b = db_wallets a" "db_wallets c = db_wallets b"
    "\<forall>m. balance_of (db_accounts b) m = balance_of (db_accounts a) m + credited_to m x"
    "\<forall>m. balance_of (db_accounts c) m = balance_of (db_accounts b) m + credited_to m y"
    by (auto simp add: books_follow_def)
  then show ?thesis unfolding books_follow_def
    by (intro exI [of _ "x @ y"]) (simp add: credited_to_def)
qed

lemma books_distinct: "books_follow a b \<Longrightarrow> distinct (log_keys b)"
  by (auto simp add: books_follow_def)

lemma creditOnDeposit_books:
  assumes "distinct (log_keys db)" and "creditOnDeposit now fault d db = (r, db')"
  shows "books_follow db db'"
proof (cases "0 < dd_amountOnchain d \<and> \<not> fault (dd_txHash d) (dd_logIndex d) \<and> \<not> ds_hasProcessedLog SqliteDepositDetectorStore db (dd_txHash d) (dd_logIndex d)")
  case False
  with assms show ?thesis by (auto simp add: creditOnDeposit_def Let_def books_follow_refl split: if_splits)
next
  case True
  let ?row = "\<lparr> rl_tx_hash = dd_txHash d, rl_log_index = dd_logIndex d, rl_agent_id = dd_motebitId d, rl_from_address = dd_fromAddress d,
      rl_amount = dd_amountOnchain d, rl_chain = dd_chain d, rl_block_number = dd_blockNumber d, rl_credited_at = now \<rparr>"
  have acc: "db_accounts db' = snd (credit (db_accounts db) (dd_motebitId d) (dd_amountOnchain d) Deposit
      (Some (deposit_reference d)) (Some (deposit_description d)))"
    and l: "db_log db' = db_log db @ [?row]" and w: "db_wallets db' = db_wallets db"
    using True assms(2) by (auto simp add: creditOnDeposit_def Let_def case_prod_beta)
  have "(dd_txHash d, dd_logIndex d) \<notin> set (log_keys db)"
    using True by (auto simp add: SqliteDepositDetectorStore_def log_keys_def list_ex_iff)
  then have "distinct (log_keys db')" using assms(1) l by (simp add: log_keys_def)
  then show ?thesis unfolding books_follow_def
    using l w True by (intro exI [of _ "[?row]"]) (simp add: acc credit_balance credited_to_def)
qed

lemma scan_books:
  "distinct (log_keys db) \<Longrightarrow> scan_logs SqliteDepositDetectorStore (creditOnDeposit now fault) chain wm logs n db = (r, db') \<Longrightarrow> books_follow db db'"
proof (induction logs arbitrary: n db)
  case Nil
  then show ?case by (simp add: books_follow_refl)
next
  case (Cons l logs)
  have step: "books_follow db db'" if "creditOnDeposit now fault d db = (b, e)" "scan_logs SqliteDepositDetectorStore (creditOnDeposit now fault) chain wm logs k e = (r, db')" for d b e k
    using creditOnDeposit_books [OF Cons.prems(1) that(1)] Cons.IH [OF _ that(2)] books_distinct books_follow_trans by blast
  show ?case using Cons
    by (auto split: sum.splits option.splits if_splits prod.splits bool.splits intro: step books_follow_refl)
qed

lemma set_cursor_books: "books_follow db e \<Longrightarrow> books_follow db (ds_setCursor SqliteDepositDetectorStore e c b t)"
  by (simp add: books_follow_def SqliteDepositDetectorStore_def log_keys_def)

lemma tick_books: "distinct (log_keys db) \<Longrightarrow> books_follow db (relay_tick config c db)"
  by (cases c) (auto simp add: relay_tick_def detectDeposits_def Let_def intro: books_follow_refl set_cursor_books scan_books
      split: option.splits prod.splits sum.splits)

lemma ticks_books: "distinct (log_keys db) \<Longrightarrow> books_follow db (relay_ticks config cycles db)"
proof (induction cycles rule: rev_induct)
  case (snoc c cycles)
  then show ?case
    using tick_books [OF books_distinct [OF snoc.IH], of config c] books_follow_trans
    by (fastforce simp add: relay_ticks_def)
qed (simp add: relay_ticks_def books_follow_refl)

subsection \<open>The cursor\<close>

definition cursor_of :: "detect_config \<Rightarrow> relay_db \<Rightarrow> int option" where
  "cursor_of config db = ds_getCursor SqliteDepositDetectorStore db (dc_chain config)"

definition processed :: "relay_db \<Rightarrow> evm_transfer_log \<Rightarrow> bool" where
  "processed db raw \<longleftrightarrow> ds_hasProcessedLog SqliteDepositDetectorStore db (lg_txHash raw) (lg_logIndex raw)"

definition owed :: "known_wallet list \<Rightarrow> evm_transfer_log \<Rightarrow> bool" where
  \<comment> \<open>a transfer of a positive amount to a wallet the relay monitors\<close>
  "owed wallets raw =
     (case decodeTransfer raw of
        Inl e \<Rightarrow> False
      | Inr log \<Rightarrow> 0 < dt_value log \<and>
          (case jsm_get (wallet_map wallets) (dt_to log) of Some m \<Rightarrow> m \<noteq> [] | None \<Rightarrow> False))"

definition in_range :: "int \<Rightarrow> int \<Rightarrow> evm_transfer_log list \<Rightarrow> evm_transfer_log list" where
  "in_range fromBlock toBlock chain = filter (\<lambda>l. fromBlock \<le> lg_blockNumber l \<and> lg_blockNumber l \<le> toBlock) chain"

text \<open>Answers of a node that serves a given chain of logs, or fails.\<close>

definition serves :: "evm_transfer_log list \<Rightarrow> rpc_answers \<Rightarrow> bool" where
  "serves chain rpc \<longleftrightarrow> (\<forall>a b. rpc_getTransferLogs rpc a b = None \<or> rpc_getTransferLogs rpc a b = Some (in_range a b chain))"

lemma scan_range_Some:
  "scan_range config (Some b) head = Some (f, t) \<Longrightarrow> f = b + 1 \<and> b < t \<and> t \<le> head - dc_confirmations config
     \<and> t \<le> b + 1 + dc_maxBlocksPerCycle config" if "0 \<le> dc_maxBlocksPerCycle config"
  using that by (auto simp add: scan_range_def Let_def split: if_splits)

lemma scan_range_None [simp]: "scan_range config None head = None"
  by (simp add: scan_range_def Let_def)

lemma set_processed_relay: "processed (ds_setCursor SqliteDepositDetectorStore db c b t) raw = processed db raw"
  by (simp add: processed_def relay_deposits.set_processed)

lemma credit_returns: "\<not> fault (dd_txHash d) (dd_logIndex d) \<Longrightarrow> \<not> ds_hasProcessedLog SqliteDepositDetectorStore db (dd_txHash d) (dd_logIndex d) \<Longrightarrow> fst (creditOnDeposit now fault d db)"
  by (simp add: creditOnDeposit_def Let_def case_prod_beta)

lemma tick_cursor:
  assumes "cursor_of config db = Some b" and "0 \<le> dc_maxBlocksPerCycle config" and "db_wallets db \<noteq> []"
    and "serves chain rpc" and db'_def: "db' = relay_tick config (rpc, fault, now) db"
  shows "cursor_of config db' = Some b \<and> (\<forall>raw. processed db raw \<longrightarrow> processed db' raw)
    \<or> (\<exists>t. cursor_of config db' = Some t \<and> b < t \<and> (\<forall>raw. processed db raw \<longrightarrow> processed db' raw)
        \<and> (\<forall>raw \<in> set chain. b < lg_blockNumber raw \<longrightarrow> lg_blockNumber raw \<le> t \<longrightarrow> owed (db_wallets db) raw
              \<longrightarrow> processed db' raw \<or> fault (lg_txHash raw) (lg_logIndex raw))
        \<and> (\<exists>head. rpc_getBlockNumber rpc = Some head \<and> t \<le> head - dc_confirmations config))"
proof -
  let ?S = SqliteDepositDetectorStore and ?wm = "wallet_map (db_wallets db)"
  have w: "ds_getWallets ?S db = db_wallets db" by (simp add: SqliteDepositDetectorStore_def)
  show ?thesis
  proof (cases "rpc_getBlockNumber rpc")
    case None
    then have "db' = db" by (simp add: db'_def relay_tick_def detectDeposits_def)
    with assms(1) show ?thesis by simp
  next
    case (Some head)
    show ?thesis
    proof (cases "scan_range config (Some b) head")
      case None
      then have "db' = db" using Some assms(1) by (simp add: db'_def relay_tick_def detectDeposits_def cursor_of_def)
      with assms(1) show ?thesis by simp
    next
      case (Some ft)
      then obtain f t where ft: "scan_range config (Some b) head = Some (f, t)" by (cases ft) auto
      note range = scan_range_Some [OF assms(2) ft]
      note head = \<open>rpc_getBlockNumber rpc = Some head\<close>
      show ?thesis
      proof (cases "rpc_getTransferLogs rpc f t")
        case None
        then have "db' = db" using head ft assms(1,3) w by (simp add: db'_def relay_tick_def detectDeposits_def cursor_of_def Let_def)
        with assms(1) show ?thesis by simp
      next
        case (Some logs)
        then have logs: "logs = in_range f t chain" using assms(4) unfolding serves_def by (metis option.distinct(1) option.inject)
        obtain r e where r: "scan_logs ?S (creditOnDeposit now fault) (dc_chain config) ?wm logs 0 db = (r, e)" by fastforce
        have cur: "ds_getCursor ?S e c = ds_getCursor ?S db c" for c using relay_deposits.scan_cursor [OF r] .
        have mono: "processed db raw \<longrightarrow> processed e raw" for raw
          using relay_deposits.scan_processed_mono [OF r] by (simp add: processed_def)
        show ?thesis
        proof (cases r)
          case (Inl err)
          then have "db' = e" using r head ft assms(1,3) w Some
            by (simp add: db'_def relay_tick_def detectDeposits_def cursor_of_def Let_def)
          with assms(1) cur mono show ?thesis by (simp add: cursor_of_def)
        next
          case (Inr n)
          have d: "db' = ds_setCursor ?S e (dc_chain config) t now" using r head ft assms(1,3) w Some Inr
            by (simp add: db'_def relay_tick_def detectDeposits_def cursor_of_def Let_def)
          have "cursor_of config db' = Some t" by (simp add: d cursor_of_def relay_deposits.get_set)
          moreover have "processed db raw \<longrightarrow> processed db' raw" for raw using mono by (simp add: d set_processed_relay)
          moreover have "processed db' raw"
            if "raw \<in> set chain" "b < lg_blockNumber raw" "lg_blockNumber raw \<le> t" "owed (db_wallets db) raw"
              "\<not> fault (lg_txHash raw) (lg_logIndex raw)" for raw
          proof -
            have "raw \<in> set logs" using that range by (simp add: logs in_range_def)
            moreover from that(4) obtain log m where l: "decodeTransfer raw = Inr log" "0 < dt_value log"
              "jsm_get ?wm (dt_to log) = Some m" "m \<noteq> []"
              by (auto simp add: owed_def split: sum.splits option.splits)
            moreover have "dt_txHash log = lg_txHash raw" "dt_logIndex log = lg_logIndex raw"
              using l(1) by (auto simp add: decodeTransfer_def split: option.splits)
            moreover have "fst (creditOnDeposit now fault d s)"
              if "dd_txHash d = dt_txHash log" "dd_logIndex d = dt_logIndex log" "\<not> ds_hasProcessedLog ?S s (dd_txHash d) (dd_logIndex d)" for d s
              using credit_returns [OF _ that(3)] that(1,2) \<open>\<not> fault (lg_txHash raw) (lg_logIndex raw)\<close> calculation(6,7) by simp
            ultimately have "processed e raw"
              using relay_deposits.scan_complete [of log now fault "dc_chain config" ?wm logs 0 db n e raw m] r Inr
              by (simp add: processed_def)
            then show ?thesis by (simp add: d set_processed_relay)
          qed
          ultimately show ?thesis using range head by blast
        qed
      qed
    qed
  qed
qed

text \<open>The cycles in which the transaction of a transfer was refused.\<close>

definition refused :: "detector_cycle list \<Rightarrow> evm_transfer_log \<Rightarrow> bool" where
  "refused cycles raw \<longleftrightarrow> list_ex (\<lambda>(rpc, fault, now). fault (lg_txHash raw) (lg_logIndex raw)) cycles"

text \<open>The cursor is at \<open>c\<close>, and every owed transfer after \<open>b\<close> up to it is recorded or was refused.\<close>

definition caught_up :: "detect_config \<Rightarrow> known_wallet list \<Rightarrow> evm_transfer_log list \<Rightarrow> int \<Rightarrow> detector_cycle list \<Rightarrow> relay_db \<Rightarrow> int \<Rightarrow> bool" where
  "caught_up config wallets chain b cycles db c \<longleftrightarrow> cursor_of config db = Some c \<and> b \<le> c
     \<and> (\<forall>raw \<in> set chain. b < lg_blockNumber raw \<and> lg_blockNumber raw \<le> c \<and> owed wallets raw \<longrightarrow> processed db raw \<or> refused cycles raw)"

lemma caught_up_tick:
  assumes up: "caught_up config (db_wallets db) chain b cycles db c" and "0 \<le> dc_maxBlocksPerCycle config" and "db_wallets db \<noteq> []"
    and "serves chain (fst cy)"
  shows "\<exists>c'. caught_up config (db_wallets db) chain b (cycles @ [cy]) (relay_tick config cy db) c'"
proof -
  obtain rpc fault now where cy: "cy = (rpc, fault, now)" by (cases cy) auto
  have refused_snoc: "refused (cycles @ [cy]) raw \<longleftrightarrow> refused cycles raw \<or> fault (lg_txHash raw) (lg_logIndex raw)" for raw
    by (simp add: refused_def cy)
  have cur: "cursor_of config db = Some c" and "serves chain rpc" using up assms(4) by (simp_all add: caught_up_def cy)
  from tick_cursor [OF cur assms(2,3) this(2) refl, of fault now] show ?thesis
  proof
    assume "cursor_of config (relay_tick config (rpc, fault, now) db) = Some c
      \<and> (\<forall>raw. processed db raw \<longrightarrow> processed (relay_tick config (rpc, fault, now) db) raw)"
    then show ?thesis using up unfolding caught_up_def refused_snoc cy [symmetric] by (intro exI [of _ c]) auto
  next
    assume "\<exists>t. cursor_of config (relay_tick config (rpc, fault, now) db) = Some t \<and> c < t
        \<and> (\<forall>raw. processed db raw \<longrightarrow> processed (relay_tick config (rpc, fault, now) db) raw)
        \<and> (\<forall>raw \<in> set chain. c < lg_blockNumber raw \<longrightarrow> lg_blockNumber raw \<le> t \<longrightarrow> owed (db_wallets db) raw
              \<longrightarrow> processed (relay_tick config (rpc, fault, now) db) raw \<or> fault (lg_txHash raw) (lg_logIndex raw))
        \<and> (\<exists>head. rpc_getBlockNumber rpc = Some head \<and> t \<le> head - dc_confirmations config)"
    then obtain t where t: "cursor_of config (relay_tick config cy db) = Some t" "c < t"
      "\<forall>raw. processed db raw \<longrightarrow> processed (relay_tick config cy db) raw"
      "\<forall>raw \<in> set chain. c < lg_blockNumber raw \<longrightarrow> lg_blockNumber raw \<le> t \<longrightarrow> owed (db_wallets db) raw
         \<longrightarrow> processed (relay_tick config cy db) raw \<or> fault (lg_txHash raw) (lg_logIndex raw)"
      unfolding cy by blast
    have "lg_blockNumber raw \<le> c \<or> c < lg_blockNumber raw" for raw by auto
    then have "caught_up config (db_wallets db) chain b (cycles @ [cy]) (relay_tick config cy db) t"
      using up t unfolding caught_up_def refused_snoc by (metis less_imp_le order_trans)
    then show ?thesis by blast
  qed
qed

subsection \<open>Properties\<close>

text \<open>
  (C15) Every deposit is credited exactly once: under any sequence of detector cycles with any
  answers of the node, the log table only grows, no two rows share a transaction hash and log index,
  every new row has a positive amount, and every account's balance has grown by exactly the sum of
  its new rows.
\<close>
theorem deposits_credited_once:
  assumes "distinct (log_keys db)" and "db' = relay_ticks config cycles db"
  shows "\<exists>new. db_log db' = db_log db @ new \<and> distinct (log_keys db')
    \<and> list_all (\<lambda>r. 0 < rl_amount r) new
    \<and> (\<forall>m. balance_of (db_accounts db') m = balance_of (db_accounts db) m + credited_to m new)"
  using ticks_books [OF assms(1), of config cycles] assms(2) by (auto simp add: books_follow_def)

text \<open>
  (C16) The cursor passes a deposit only after trying to credit it: once the cursor of a chain is set, then after any sequence of cycles against a
  node that serves a given chain of logs or fails, with any refused transactions, every positive transfer to a monitored wallet in a block after the
  initial cursor and up to the current one has been recorded, unless the transaction that credits it was refused in one of the cycles. In particular
  every such transfer is recorded where no transaction is refused. What a refused transaction costs is shown below.
\<close>
theorem passed_deposits_recorded_or_refused:
  assumes "cursor_of config db = Some b" and "0 \<le> dc_maxBlocksPerCycle config" and "db_wallets db \<noteq> []"
    and "distinct (log_keys db)" and "\<forall>(rpc, fault, now) \<in> set cycles. serves chain rpc"
    and "db' = relay_ticks config cycles db"
  shows "\<exists>c. cursor_of config db' = Some c \<and> b \<le> c
    \<and> (\<forall>raw \<in> set chain. b < lg_blockNumber raw \<and> lg_blockNumber raw \<le> c \<and> owed (db_wallets db) raw
         \<longrightarrow> processed db' raw \<or> (\<exists>(rpc, fault, now) \<in> set cycles. fault (lg_txHash raw) (lg_logIndex raw)))"
proof -
  have "\<exists>c. caught_up config (db_wallets db) chain b cycles (relay_ticks config cycles db) c"
    using assms(5)
  proof (induction cycles rule: rev_induct)
    case Nil
    then show ?case using assms(1) by (auto simp add: relay_ticks_def caught_up_def)
  next
    case (snoc cy cycles)
    have "db_wallets (relay_ticks config cycles db) = db_wallets db"
      using ticks_books [OF assms(4), of config cycles] by (auto simp add: books_follow_def)
    moreover have "serves chain (fst cy)" using snoc.prems by auto
    ultimately show ?case
      using snoc caught_up_tick [of config "relay_ticks config cycles db" chain b cycles _ cy] assms(2,3) by (auto simp add: relay_ticks_def)
  qed
  then show ?thesis unfolding assms(6) caught_up_def refused_def list_ex_iff .
qed

text \<open>
  A cycle never credits an unconfirmed block: whatever the stored cursor, the range it asks for
  starts right after the cursor, ends at least \<open>confirmations\<close> blocks below the head and spans at most
  \<open>maxBlocksPerCycle + 1\<close> blocks.
\<close>
theorem scan_stays_confirmed:
  assumes "0 \<le> dc_maxBlocksPerCycle config" and "scan_range config cursor head = Some (f, t)"
  shows "cursor = Some (f - 1) \<and> f \<le> t \<and> t \<le> head - dc_confirmations config
    \<and> t - f + 1 \<le> dc_maxBlocksPerCycle config + 1"
proof (cases cursor)
  case None
  with assms(2) show ?thesis by simp
next
  case (Some b)
  with scan_range_Some [OF assms(1)] assms(2) show ?thesis by fastforce
qed

text \<open>
  A detector that starts without a cursor never starts: with no cursor stored for the chain, no
  sequence of cycles, whatever the node answers, changes the database, so no cursor is ever stored and
  no deposit is ever credited.
\<close>
theorem fresh_detector_never_scans:
  assumes "cursor_of config db = None"
  shows "relay_ticks config cycles db = db"
proof (induction cycles)
  case (Cons c cycles)
  have "relay_tick config c db = db"
    using assms by (cases c) (simp add: relay_tick_def detectDeposits_def cursor_of_def split: option.split)
  with Cons show ?case by (simp add: relay_ticks_def)
qed (simp add: relay_ticks_def)

subsection \<open>Witnesses\<close>

definition demo_detect :: detect_config where
  "demo_detect = \<lparr> dc_chain = ''eip155:8453'', dc_maxBlocksPerCycle = 100, dc_confirmations = 12 \<rparr>"

definition demo_log :: evm_transfer_log where
  "demo_log = \<lparr> lg_blockNumber = 950, lg_txHash = ''0xaa'', lg_logIndex = 0,
     lg_fromTopic = ''0x'' @ replicate 24 (CHR ''0'') @ ''beef'',
     lg_toTopic = ''0x'' @ replicate 24 (CHR ''0'') @ ''CAFE'', lg_amountHex = ''0x64'' \<rparr>"

definition demo_node :: rpc_answers where
  "demo_node = \<lparr> rpc_getBlockNumber = Some 1000, rpc_getTransferLogs = (\<lambda>a b. Some (in_range a b [demo_log])) \<rparr>"

definition demo_db :: "(string, int \<times> int) jsmap \<Rightarrow> relay_db" where
  "demo_db cursors =
     \<lparr> db_cursors = cursors, db_wallets = [\<lparr> kw_agentId = ''alice'', kw_address = ''0xCafe'' \<rparr>], db_log = [],
       db_accounts = newInMemoryAccountStore (\<lambda>_. 0) (\<lambda>_. 0) (\<lambda>_. \<lparr> sweep_threshold = None, settlement_address = None \<rparr>) (\<lambda>_. 0) \<rparr>"

definition no_fault :: "string \<Rightarrow> nat \<Rightarrow> bool" where
  "no_fault tx i = False"

definition fault_aa :: "string \<Rightarrow> nat \<Rightarrow> bool" where
  "fault_aa tx i \<longleftrightarrow> tx = ''0xaa''"

theorem deposits_credited_once_witness:
  "\<exists>new. db_log (relay_ticks demo_detect [(demo_node, no_fault, 0)] (demo_db [(''eip155:8453'', (900, 0))])) = new
     \<and> balance_of (db_accounts (relay_ticks demo_detect [(demo_node, no_fault, 0)] (demo_db [(''eip155:8453'', (900, 0))]))) ''alice''
       = balance_of (db_accounts (demo_db [(''eip155:8453'', (900, 0))])) ''alice'' + credited_to ''alice'' new"
  using deposits_credited_once [of "demo_db [(''eip155:8453'', (900, 0))]" _ demo_detect "[(demo_node, no_fault, 0)]", OF _ refl]
  by (fastforce simp add: log_keys_def demo_db_def)

theorem passed_deposits_recorded_or_refused_witness:
  "processed (relay_ticks demo_detect [(demo_node, no_fault, 0)] (demo_db [(''eip155:8453'', (900, 0))])) demo_log"
proof -
  let ?db = "demo_db [(''eip155:8453'', (900, 0))]"
  have c: "cursor_of demo_detect (relay_ticks demo_detect [(demo_node, no_fault, 0)] ?db) = Some 988"
    and o: "owed (db_wallets ?db) demo_log" and b: "cursor_of demo_detect ?db = Some 900" by code_simp+
  have "serves [demo_log] demo_node" by (simp add: serves_def demo_node_def)
  with passed_deposits_recorded_or_refused [OF b _ _ _ _ refl, of "[(demo_node, no_fault, 0)]" "[demo_log]"] c o
  show ?thesis by (simp add: log_keys_def demo_detect_def no_fault_def) (simp add: demo_db_def demo_log_def)
qed

text \<open>
  A refused credit is lost: the cycle in which the transaction of a deposit is refused moves the cursor past its block, and the next cycles, in which
  nothing is refused, do not look at that block again. The dedup table keeps a deposit from being credited twice; it does not bring back one that was not credited.
\<close>
lemma refused_credit_is_lost:
  "(let db = relay_ticks demo_detect [(demo_node, fault_aa, 0), (demo_node, no_fault, 1), (demo_node, no_fault, 2)] (demo_db [(''eip155:8453'', (900, 0))])
    in owed (db_wallets db) demo_log \<and> cursor_of demo_detect db = Some 988 \<and> \<not> processed db demo_log \<and> balance_of (db_accounts db) ''alice'' = 0)"
  by code_simp

theorem scan_stays_confirmed_witness:
  "(988 :: int) \<le> 1000 - dc_confirmations demo_detect"
proof -
  have "scan_range demo_detect (Some 900) 1000 = Some (901, 988)" by code_simp
  from scan_stays_confirmed [OF _ this] show ?thesis by (simp add: demo_detect_def)
qed

theorem fresh_detector_never_scans_witness:
  "relay_ticks demo_detect [(demo_node, no_fault, 0), (demo_node, no_fault, 1)] (demo_db []) = demo_db []"
  by (rule fresh_detector_never_scans) code_simp

end
