(* ===== verification/Treasury.thy ===== *)
theory Treasury
  imports Prelude
begin

text \<open>
  Treasury reconciliation: the cycle \<open>reconcileTreasury\<close> of
  \<open>packages/treasury-reconciliation/src/reconciler.ts\<close> over the store interface of \<open>types.ts\<close>, with the
  in-memory store of \<open>store.ts\<close>. The store's fee query and the node's balance query may fail; a failure
  is the left value of a sum and carries its message. An alert is raised exactly when the fees recorded
  up to the horizon exceed the balance observed on chain, and only completed cycles are recorded.
\<close>

subsection \<open>The cycle\<close>

record reconciliation_result =
  rr_reconciliationId :: string
  rr_runAtMs :: int
  rr_chain :: string
  rr_treasuryAddress :: string
  rr_usdcContractAddress :: string
  rr_recordedFeeSumMicro :: int
  rr_observedOnchainBalanceMicro :: int
  rr_driftMicro :: int
  rr_consistent :: bool
  rr_confirmationLagBufferMs :: int
  rr_error :: "string option"

record 's treasury_store =
  ts_getRecordedFeeSumMicro :: "'s \<Rightarrow> string \<Rightarrow> int \<Rightarrow> string + int"
  ts_persistReconciliation :: "'s \<Rightarrow> reconciliation_result \<Rightarrow> 's"

record reconcile_config =
  rc_chain :: string
  rc_treasuryAddress :: string
  rc_usdcContractAddress :: string
  rc_confirmationLagBufferMs :: int

definition reconcileTreasury :: "'s treasury_store \<Rightarrow> (string \<Rightarrow> string \<Rightarrow> string + int) \<Rightarrow> reconcile_config \<Rightarrow>
    string \<Rightarrow> int \<Rightarrow> 's \<Rightarrow> reconciliation_result \<times> 's" where
  "reconcileTreasury store getBalance config reconciliationId runAtMs s =
     (let asOfMs = runAtMs - rc_confirmationLagBufferMs config;
          base = \<lparr> rr_reconciliationId = reconciliationId, rr_runAtMs = runAtMs, rr_chain = rc_chain config,
                   rr_treasuryAddress = rc_treasuryAddress config,
                   rr_usdcContractAddress = rc_usdcContractAddress config,
                   rr_recordedFeeSumMicro = 0, rr_observedOnchainBalanceMicro = 0, rr_driftMicro = 0,
                   rr_consistent = False,
                   rr_confirmationLagBufferMs = rc_confirmationLagBufferMs config, rr_error = None \<rparr>
      in case ts_getRecordedFeeSumMicro store s (rc_chain config) asOfMs of
           Inl message \<Rightarrow> (base\<lparr>rr_error := Some (''store.getRecordedFeeSumMicro: '' @ message)\<rparr>, s)
         | Inr recordedFeeSumMicro \<Rightarrow>
             (case getBalance (rc_usdcContractAddress config) (rc_treasuryAddress config) of
                Inl message \<Rightarrow>
                  (base\<lparr>rr_recordedFeeSumMicro := recordedFeeSumMicro,
                        rr_error := Some (''rpc.getBalance: '' @ message)\<rparr>, s)
              | Inr observedOnchainBalanceMicro \<Rightarrow>
                  (let driftMicro = observedOnchainBalanceMicro - recordedFeeSumMicro;
                       result = base\<lparr>rr_recordedFeeSumMicro := recordedFeeSumMicro,
                          rr_observedOnchainBalanceMicro := observedOnchainBalanceMicro,
                          rr_driftMicro := driftMicro, rr_consistent := (driftMicro \<ge> 0)\<rparr>
                   in (result, ts_persistReconciliation store s result))))"

subsection \<open>The in-memory store\<close>

record seeded_settlement =
  ss_chain :: string
  ss_feeMicro :: int
  ss_settledAtMs :: int

record mem_treasury =
  mt_settlements :: "seeded_settlement list"
  mt_persistedRecords :: "reconciliation_result list"

fun memFeeSum :: "string \<Rightarrow> int \<Rightarrow> int \<Rightarrow> seeded_settlement list \<Rightarrow> int" where
  "memFeeSum chain asOfMs acc [] = acc"
| "memFeeSum chain asOfMs acc (s # ss) =
     (if ss_chain s \<noteq> chain then memFeeSum chain asOfMs acc ss
      else if ss_settledAtMs s > asOfMs then memFeeSum chain asOfMs acc ss
      else memFeeSum chain asOfMs (acc + ss_feeMicro s) ss)"

definition InMemoryTreasuryReconciliationStore :: "mem_treasury treasury_store" where
  "InMemoryTreasuryReconciliationStore =
     \<lparr> ts_getRecordedFeeSumMicro = (\<lambda>s chain asOfMs. Inr (memFeeSum chain asOfMs 0 (mt_settlements s))),
       ts_persistReconciliation = (\<lambda>s r. s\<lparr>mt_persistedRecords := mt_persistedRecords s @ [r]\<rparr>) \<rparr>"

subsection \<open>What the cycle promises over any store\<close>

locale treasury_history =
  fixes store :: "'s treasury_store" and history :: "'s \<Rightarrow> reconciliation_result list" and fees :: "'s \<Rightarrow> string \<Rightarrow> int \<Rightarrow> int"
  assumes persist: "history (ts_persistReconciliation store s r) = history s @ [r]"
    and fee_sum: "ts_getRecordedFeeSumMicro store s chain asOf = Inr f \<Longrightarrow> f = fees s chain asOf"
begin

lemma reconcile_spec:
  assumes "reconcileTreasury store getBalance config i now s = (r, s')"
  shows "(rr_error r = None \<longrightarrow> history s' = history s @ [r]
      \<and> rr_recordedFeeSumMicro r = fees s (rc_chain config) (now - rc_confirmationLagBufferMs config)
      \<and> getBalance (rc_usdcContractAddress config) (rc_treasuryAddress config) = Inr (rr_observedOnchainBalanceMicro r)
      \<and> (rr_consistent r \<longleftrightarrow> rr_recordedFeeSumMicro r \<le> rr_observedOnchainBalanceMicro r))
    \<and> (rr_error r \<noteq> None \<longrightarrow> s' = s \<and> \<not> rr_consistent r)"
proof (cases "ts_getRecordedFeeSumMicro store s (rc_chain config) (now - rc_confirmationLagBufferMs config)")
  case (Inl e)
  with assms show ?thesis by (auto simp add: reconcileTreasury_def Let_def)
next
  case (Inr f)
  note fee = fee_sum [OF Inr]
  show ?thesis
  proof (cases "getBalance (rc_usdcContractAddress config) (rc_treasuryAddress config)")
    case (Inl e)
    with assms Inr show ?thesis by (auto simp add: reconcileTreasury_def Let_def)
  next
    case obs: (Inr b)
    with assms Inr fee show ?thesis by (auto simp add: reconcileTreasury_def Let_def persist)
  qed
qed

end

definition settled_fees :: "mem_treasury \<Rightarrow> string \<Rightarrow> int \<Rightarrow> int" where
  "settled_fees s chain asOf =
     sum_list (map ss_feeMicro (filter (\<lambda>x. ss_chain x = chain \<and> ss_settledAtMs x \<le> asOf) (mt_settlements s)))"

lemma memFeeSum_eq:
  "memFeeSum chain asOf n ss = n + sum_list (map ss_feeMicro (filter (\<lambda>x. ss_chain x = chain \<and> ss_settledAtMs x \<le> asOf) ss))"
  by (induction ss arbitrary: n) auto

interpretation mem_history: treasury_history InMemoryTreasuryReconciliationStore mt_persistedRecords settled_fees
  by unfold_locales (simp_all add: InMemoryTreasuryReconciliationStore_def memFeeSum_eq settled_fees_def)

subsection \<open>Properties\<close>

text \<open>
  The treasury alert means a leak and nothing else: a cycle that completes is recorded with the
  sum of the fees settled on its chain up to the confirmation horizon, and it is inconsistent exactly
  when that sum exceeds the balance the chain reports; a cycle whose balance query fails is reported as
  inconsistent with an error and recorded nowhere.
\<close>
theorem treasury_alert_iff_leak:
  assumes "reconcileTreasury InMemoryTreasuryReconciliationStore getBalance config i now s = (r, s')"
  shows "case getBalance (rc_usdcContractAddress config) (rc_treasuryAddress config) of
      Inl message \<Rightarrow> rr_error r \<noteq> None \<and> \<not> rr_consistent r \<and> s' = s
    | Inr observed \<Rightarrow> rr_error r = None \<and> mt_persistedRecords s' = mt_persistedRecords s @ [r]
        \<and> (\<not> rr_consistent r \<longleftrightarrow> observed < settled_fees s (rc_chain config) (now - rc_confirmationLagBufferMs config))"
proof (cases "getBalance (rc_usdcContractAddress config) (rc_treasuryAddress config)")
  case (Inl e)
  with assms show ?thesis
    by (auto simp add: reconcileTreasury_def Let_def InMemoryTreasuryReconciliationStore_def)
next
  case (Inr b)
  with assms have "rr_error r = None"
    by (auto simp add: reconcileTreasury_def Let_def InMemoryTreasuryReconciliationStore_def)
  with mem_history.reconcile_spec [OF assms] Inr show ?thesis by auto
qed

subsection \<open>Witnesses\<close>

definition demo_treasury :: mem_treasury where
  "demo_treasury = \<lparr> mt_settlements = [\<lparr> ss_chain = ''c'', ss_feeMicro = 500, ss_settledAtMs = 10 \<rparr>], mt_persistedRecords = [] \<rparr>"

definition demo_reconcile :: reconcile_config where
  "demo_reconcile = \<lparr> rc_chain = ''c'', rc_treasuryAddress = ''0x1'', rc_usdcContractAddress = ''0x2'', rc_confirmationLagBufferMs = 5 \<rparr>"

theorem treasury_alert_iff_leak_witness:
  "\<not> rr_consistent (fst (reconcileTreasury InMemoryTreasuryReconciliationStore (\<lambda>_ _. Inr 400) demo_reconcile ''id'' 20 demo_treasury))"
proof -
  obtain r s' where r: "reconcileTreasury InMemoryTreasuryReconciliationStore (\<lambda>_ _. Inr 400) demo_reconcile ''id'' 20 demo_treasury = (r, s')"
    by fastforce
  have "settled_fees demo_treasury (rc_chain demo_reconcile) (20 - rc_confirmationLagBufferMs demo_reconcile) = 500" by code_simp
  with treasury_alert_iff_leak [OF r] r show ?thesis by simp
qed

end
