(* ===== verification/Settlement.thy ===== *)
theory Settlement
  imports Complex_Main Accounts
begin

text \<open>
  The money conversions of \<open>packages/protocol/src/money.ts\<close>, the settlement of a receipt and the
  allocation state machine of \<open>packages/market/src/settlement.ts\<close>, and the budget allocation of
  \<open>packages/market/src/budget.ts\<close>. Numbers are exact rationals: the rounding to whole micro-units that
  the sources perform is modelled, the rounding of doubles below it is not. Each \<open>throw\<close> is a
  constructor of \<open>settlement_error\<close>. No split creates or destroys money, a locked allocation is
  settled or released at most once, and an allocation never locks more than is available.
\<close>

subsection \<open>Money\<close>

definition js_round :: "rat \<Rightarrow> int" where
  \<comment> \<open>\<open>Math.round\<close>: half rounds up\<close>
  "js_round x = \<lfloor>x + 1/2\<rfloor>"

definition MICRO :: int where
  "MICRO = 1000000"

definition CENTS :: int where
  "CENTS = 100"

definition toMicro :: "rat \<Rightarrow> int" where
  "toMicro dollars = js_round (dollars * of_int MICRO)"

definition fromMicro :: "int \<Rightarrow> rat" where
  "fromMicro micro = of_int micro / of_int MICRO"

definition parsePositiveMicro :: "rat option \<Rightarrow> int option" where
  \<comment> \<open>\<open>None\<close> stands for a value that is not a finite number\<close>
  "parsePositiveMicro dollars =
     (case dollars of None \<Rightarrow> None
      | Some d \<Rightarrow> (let micro = toMicro d in if isPositiveMicro micro then Some micro else None))"

definition toCents :: "rat \<Rightarrow> int" where
  "toCents dollars = js_round (dollars * of_int CENTS)"

definition fromCents :: "int \<Rightarrow> rat" where
  "fromCents cents = of_int cents / of_int CENTS"

datatype settlement_error =
    FeeRateOutOfRange rat
  | ExecutorFeeRateOutOfRange rat
  | IllegalTransition
  | NegativeAllocation
  | AllocationExceedsSafeRange
  | CompletedExceedTotal
  | ProductOverflows
  | NegativeNet
  | NegativeBatchInput

definition computeP2pFeeMicro :: "int \<Rightarrow> rat \<Rightarrow> settlement_error + int" where
  "computeP2pFeeMicro netCostMicro feeRate =
     (if \<not> (feeRate \<ge> 0 \<and> feeRate < 1) then Inl (FeeRateOutOfRange feeRate)
      else Inr (js_round (of_int netCostMicro / (1 - feeRate)) - netCostMicro))"

record settlement_split =
  sp_netMicro :: int
  sp_feeMicro :: int

definition roundSettlementSplitMicro :: "rat \<Rightarrow> rat \<Rightarrow> settlement_split" where
  "roundSettlementSplitMicro netExact feeExact =
     (let grossMicro = js_round (netExact + feeExact);
          feeMicro = js_round feeExact
      in \<lparr> sp_netMicro = grossMicro - feeMicro, sp_feeMicro = feeMicro \<rparr>)"

record federated_fee_split =
  ff_originFeeMicro :: int
  ff_executorFeeMicro :: int
  ff_workerNetMicro :: int

definition computeFederatedFeeSplit :: "int \<Rightarrow> rat \<Rightarrow> rat option \<Rightarrow> settlement_error + federated_fee_split" where
  "computeFederatedFeeSplit budgetMicro feeRate opt_executorFeeRate =
     (let executorFeeRate = (case opt_executorFeeRate of Some r \<Rightarrow> r | None \<Rightarrow> feeRate)
      in if \<not> (feeRate \<ge> 0 \<and> feeRate < 1) then Inl (FeeRateOutOfRange feeRate)
         else if \<not> (executorFeeRate \<ge> 0 \<and> executorFeeRate < 1) then Inl (ExecutorFeeRateOutOfRange executorFeeRate)
         else
           (let originFeeMicro = js_round (of_int budgetMicro * feeRate);
                forwardedMicro = budgetMicro - originFeeMicro;
                executorFeeMicro = js_round (of_int forwardedMicro * executorFeeRate);
                workerNetMicro = forwardedMicro - executorFeeMicro
            in Inr \<lparr> ff_originFeeMicro = originFeeMicro, ff_executorFeeMicro = executorFeeMicro,
                     ff_workerNetMicro = workerNetMicro \<rparr>))"

subsection \<open>Allocations\<close>

datatype allocation_status = Locked | Settled | Released | Disputed

record budget_allocation =
  ba_allocation_id :: string
  ba_goal_id :: string
  ba_candidate_motebit_id :: string
  ba_amount_locked :: rat
  ba_currency :: string
  ba_created_at :: int
  ba_status :: allocation_status

definition VALID_TRANSITIONS :: "(allocation_status, allocation_status list) jsmap" where
  "VALID_TRANSITIONS =
     [(Locked, [Settled, Released, Disputed]), (Disputed, [Settled, Released]), (Settled, []), (Released, [])]"

definition canTransitionAllocation :: "allocation_status \<Rightarrow> allocation_status \<Rightarrow> bool" where
  "canTransitionAllocation from to =
     (case jsm_get VALID_TRANSITIONS from of None \<Rightarrow> False | Some allowed \<Rightarrow> to \<in> set allowed)"

definition assertAllocationTransition :: "allocation_status \<Rightarrow> allocation_status \<Rightarrow> settlement_error + unit" where
  "assertAllocationTransition from to =
     (if \<not> canTransitionAllocation from to then Inl IllegalTransition else Inr ())"

fun transitions :: "allocation_status \<Rightarrow> allocation_status list \<Rightarrow> settlement_error + allocation_status" where
  \<comment> \<open>a sequence of guarded status updates\<close>
  "transitions from [] = Inr from"
| "transitions from (to # rest) =
     (case assertAllocationTransition from to of Inl e \<Rightarrow> Inl e | Inr _ \<Rightarrow> transitions to rest)"

subsection \<open>Settlement\<close>

definition PLATFORM_FEE_RATE :: rat where
  "PLATFORM_FEE_RATE = 5/100"

definition microRound :: "rat \<Rightarrow> rat" where
  "microRound n = of_int (js_round (n * 1000000)) / 1000000"

definition computeGrossAmount :: "rat \<Rightarrow> rat \<Rightarrow> settlement_error + rat" where
  "computeGrossAmount netUnitCost feeRate =
     (if feeRate < 0 \<or> feeRate \<ge> 1 then Inl (FeeRateOutOfRange feeRate)
      else Inr (netUnitCost / (1 - feeRate)))"

definition is_safe_rat :: "rat \<Rightarrow> bool" where
  \<comment> \<open>\<open>Number.isSafeInteger\<close>\<close>
  "is_safe_rat x \<longleftrightarrow> x = of_int \<lfloor>x\<rfloor> \<and> isSafeInteger \<lfloor>x\<rfloor>"

definition validateAllocation :: "budget_allocation \<Rightarrow> settlement_error + unit" where
  "validateAllocation allocation =
     (if ba_amount_locked allocation < 0 then Inl NegativeAllocation
      else if \<not> is_safe_rat (ba_amount_locked allocation) \<and> ba_amount_locked allocation > of_int max_safe_integer
      then Inl AllocationExceedsSafeRange
      else Inr ())"

datatype receipt_status = ReceiptCompleted | ReceiptFailed | ReceiptDenied

record execution_receipt =
  xr_motebit_id :: string
  xr_status :: receipt_status
  xr_result_hash :: "string option"

record goal_manifest =
  gm_content_hash :: string
  gm_steps_completed :: "bool list" \<comment> \<open>for each step, whether its status is completed\<close>

datatype settlement_status = SettleCompleted | SettlePartial | SettleRefunded

record settlement_record =
  sr_settlement_id :: string
  sr_allocation_id :: string
  sr_motebit_id :: string
  sr_receipt_hash :: string
  sr_ledger_hash :: "string option"
  sr_amount_settled :: rat
  sr_platform_fee :: rat
  sr_platform_fee_rate :: rat
  sr_status :: settlement_status
  sr_settled_at :: int

definition partial_gross :: "budget_allocation \<Rightarrow> goal_manifest option \<Rightarrow> settlement_error + rat \<times> settlement_status" where
  \<comment> \<open>the gross amount and status after the check for partial completion\<close>
  "partial_gross allocation ledger =
     (case ledger of None \<Rightarrow> Inr (ba_amount_locked allocation, SettleCompleted)
      | Some l \<Rightarrow>
          if length (gm_steps_completed l) > 0
          then
            (let steps = length (gm_steps_completed l);
                 completed = length (filter (\<lambda>c. c) (gm_steps_completed l))
             in if completed > steps then Inl CompletedExceedTotal
                else if completed < steps \<and> completed > 0
                then
                  (let product = ba_amount_locked allocation * of_nat completed
                   in if \<not> is_safe_rat product \<and> product > of_int max_safe_integer then Inl ProductOverflows
                      else Inr (microRound (ba_amount_locked allocation * (of_nat completed / of_nat steps)), SettlePartial))
                else Inr (ba_amount_locked allocation, SettleCompleted))
          else Inr (ba_amount_locked allocation, SettleCompleted))"

definition settleOnReceipt :: "budget_allocation \<Rightarrow> execution_receipt \<Rightarrow> goal_manifest option \<Rightarrow> string \<Rightarrow> rat \<Rightarrow> int \<Rightarrow>
    settlement_error + settlement_record" where
  "settleOnReceipt allocation receipt ledger settlementId feeRate now =
     (if feeRate < 0 \<or> feeRate > 1 then Inl (FeeRateOutOfRange feeRate)
      else case validateAllocation allocation of Inl e \<Rightarrow> Inl e
      | Inr _ \<Rightarrow>
          (let receiptHash = (case xr_result_hash receipt of Some h \<Rightarrow> h | None \<Rightarrow> []);
               base = \<lparr> sr_settlement_id = settlementId, sr_allocation_id = ba_allocation_id allocation,
                        sr_motebit_id = xr_motebit_id receipt, sr_receipt_hash = receiptHash,
                        sr_ledger_hash = map_option gm_content_hash ledger,
                        sr_amount_settled = 0, sr_platform_fee = 0, sr_platform_fee_rate = feeRate,
                        sr_status = SettleRefunded, sr_settled_at = now \<rparr>
           in if xr_status receipt = ReceiptFailed \<or> xr_status receipt = ReceiptDenied then Inr base
              else case partial_gross allocation ledger of Inl e \<Rightarrow> Inl e
              | Inr (gross, status) \<Rightarrow>
                  (let fee = microRound (gross * feeRate);
                       net = microRound (gross - fee)
                   in if net < 0 then Inl NegativeNet
                      else Inr (base\<lparr>sr_amount_settled := net, sr_platform_fee := fee, sr_status := status\<rparr>))))"

record batch_policy =
  bp_feeJustificationMultiplier :: int
  bp_maxAgeMs :: int
  bp_minAggregateMicro :: int

definition DEFAULT_BATCH_POLICY :: batch_policy where
  "DEFAULT_BATCH_POLICY =
     \<lparr> bp_feeJustificationMultiplier = 20, bp_maxAgeMs = 24 * 60 * 60 * 1000, bp_minAggregateMicro = 1000000 \<rparr>"

definition shouldBatchSettle :: "int \<Rightarrow> int \<Rightarrow> int \<Rightarrow> batch_policy \<Rightarrow> settlement_error + bool" where
  "shouldBatchSettle aggregatedMicro perItemFeeMicro oldestAgeMs policy =
     (if aggregatedMicro < 0 \<or> perItemFeeMicro < 0 \<or> oldestAgeMs < 0 then Inl NegativeBatchInput
      else if aggregatedMicro < bp_minAggregateMicro policy then Inr False
      else if aggregatedMicro \<ge> bp_feeJustificationMultiplier policy * perItemFeeMicro then Inr True
      else Inr (oldestAgeMs \<ge> bp_maxAgeMs policy))"

subsection \<open>Budgets\<close>

record allocation_request =
  aq_goal_id :: string
  aq_candidate_motebit_id :: string
  aq_estimated_cost :: rat
  aq_currency :: string
  aq_risk_factor :: "rat option"

definition allocateBudget :: "allocation_request \<Rightarrow> rat \<Rightarrow> string \<Rightarrow> int \<Rightarrow> budget_allocation option" where
  "allocateBudget request available allocationId now =
     (let risk = (case aq_risk_factor request of Some r \<Rightarrow> r | None \<Rightarrow> 1);
          lockAmount = aq_estimated_cost request * (1 + risk * (2/10));
          capped = min lockAmount available
      in if capped < aq_estimated_cost request then None
         else Some \<lparr> ba_allocation_id = allocationId, ba_goal_id = aq_goal_id request,
                     ba_candidate_motebit_id = aq_candidate_motebit_id request, ba_amount_locked = capped,
                     ba_currency = aq_currency request, ba_created_at = now, ba_status = Locked \<rparr>)"

datatype price_per = PerTask | PerToolCall | PerToken

record capability_price =
  cp_capability :: string
  cp_unit_cost :: rat
  cp_currency :: string
  cp_per :: price_per

definition estimateCost :: "capability_price list \<Rightarrow> string list \<Rightarrow> rat \<times> string" where
  "estimateCost pricing capabilities =
     foldl (\<lambda>(amount, currency) cap.
         case find (\<lambda>p. cp_capability p = cap) pricing of
           Some price \<Rightarrow> (amount + cp_unit_cost price, cp_currency price)
         | None \<Rightarrow> (amount, currency)) (0, ''USD'') capabilities"

record participant =
  pt_motebit_id :: string
  pt_assigned_steps :: "int list"

record collaborative_allocation =
  cl_motebit_id :: string
  cl_estimated_cost :: rat
  cl_currency :: string

definition participant_cost :: "capability_price list \<Rightarrow> int list \<Rightarrow> rat \<times> string" where
  "participant_cost pricing steps =
     foldl (\<lambda>acc ordinal. foldl (\<lambda>(cost, currency) price.
           if cp_per price = PerTask then (cost + cp_unit_cost price, cp_currency price) else (cost, currency)) acc pricing)
       (0, ''USD'') steps"

definition allocateCollaborativeBudget :: "participant list \<Rightarrow> (string, capability_price list) jsmap \<Rightarrow> rat \<Rightarrow>
    collaborative_allocation list" where
  "allocateCollaborativeBudget participants pricing available =
     (let (allocations, totalCost) = foldl (\<lambda>(allocations, totalCost) p.
            let participantPricing = (case jsm_get pricing (pt_motebit_id p) of Some x \<Rightarrow> x | None \<Rightarrow> []);
                (cost, currency) = participant_cost participantPricing (pt_assigned_steps p)
            in (allocations @ [\<lparr> cl_motebit_id = pt_motebit_id p, cl_estimated_cost = cost, cl_currency = currency \<rparr>],
                totalCost + cost)) ([], 0) participants
      in if totalCost > available then [] else allocations)"

subsection \<open>Rounding\<close>

lemma js_round_of_int [simp]: "js_round (of_int k) = k"
  unfolding js_round_def by linarith

lemma js_round_mono: "x \<le> y \<Longrightarrow> js_round x \<le> js_round y"
  by (simp add: js_round_def floor_mono)

lemma js_round_nonneg: "0 \<le> x \<Longrightarrow> 0 \<le> js_round x"
  using js_round_mono [of 0 x] js_round_of_int [of 0] by simp

lemma js_round_le: "x \<le> of_int k \<Longrightarrow> js_round x \<le> k"
  using js_round_mono [of x "of_int k"] by simp

lemma js_round_share:
  fixes r :: rat
  assumes "0 \<le> k" and "0 \<le> r" and "r \<le> 1"
  shows "0 \<le> js_round (of_int k * r) \<and> js_round (of_int k * r) \<le> k"
proof -
  have "of_int k * r \<le> of_int k" using assms mult_left_le [of r "of_int k :: rat"] by simp
  with assms show ?thesis by (simp add: js_round_nonneg js_round_le)
qed

lemma toMicro_fromMicro [simp]: "toMicro (fromMicro m) = m"
  by (simp add: toMicro_def fromMicro_def MICRO_def)

lemma microRound_int: "microRound (of_int k / 1000000) = of_int k / 1000000"
  by (simp add: microRound_def)

lemma microRound_share:
  assumes "0 \<le> k" and "0 \<le> r" and "r \<le> 1"
  obtains f where "microRound (of_int k / 1000000 * r) = of_int f / 1000000" and "0 \<le> f" and "f \<le> k"
proof -
  have "of_int k / 1000000 * r * 1000000 = of_int k * (r :: rat)" by simp
  then have "microRound (of_int k / 1000000 * r) = of_int (js_round (of_int k * r)) / 1000000"
    unfolding microRound_def by simp
  with js_round_share [OF assms] that show thesis by blast
qed

lemma partial_gross_bounds:
  assumes "ba_amount_locked a = of_int k / 1000000" and "0 \<le> k" and "partial_gross a ledger = Inr (gross, st)"
  obtains g where "gross = of_int g / 1000000" and "0 \<le> g" and "g \<le> k"
    and "st = SettleCompleted \<and> g = k \<or> st = SettlePartial"
proof (cases "st = SettlePartial")
  case True
  then obtain c n where cn: "c < n" "gross = microRound (ba_amount_locked a * (of_nat c / of_nat n))"
    using assms(3) by (auto simp add: partial_gross_def Let_def split: option.splits if_splits)
  have share: "0 \<le> (of_nat c / of_nat n :: rat)" "of_nat c / of_nat n \<le> (1 :: rat)" using cn(1) by (simp_all add: divide_simps)
  obtain g where "microRound (of_int k / 1000000 * (of_nat c / of_nat n)) = of_int g / 1000000" "0 \<le> g" "g \<le> k"
    by (rule microRound_share [OF assms(2) share])
  with cn assms(1) True that show thesis by auto
next
  case False
  then have "gross = ba_amount_locked a" "st = SettleCompleted"
    using assms(3) by (auto simp add: partial_gross_def Let_def split: option.splits if_splits)
  with assms that show thesis by blast
qed

subsection \<open>Properties\<close>

text \<open>
  (C26) A settlement neither creates nor destroys money: for an allocation of a whole number of
  micro-units and a fee rate between zero and one, a settlement that is produced pays the worker and
  the platform non-negative amounts that together never exceed the locked amount; on full completion
  they are exactly the locked amount, and on a failed or denied receipt both are zero.
\<close>
theorem settlement_conserves_money:
  assumes "ba_amount_locked allocation = of_int k / 1000000"
    and "settleOnReceipt allocation receipt ledger sid feeRate now = Inr r"
  shows "0 \<le> sr_amount_settled r \<and> 0 \<le> sr_platform_fee r
    \<and> sr_amount_settled r + sr_platform_fee r \<le> ba_amount_locked allocation
    \<and> (sr_status r = SettleCompleted \<longrightarrow> sr_amount_settled r + sr_platform_fee r = ba_amount_locked allocation)
    \<and> (xr_status receipt \<noteq> ReceiptCompleted \<longrightarrow> sr_amount_settled r = 0 \<and> sr_platform_fee r = 0 \<and> sr_status r = SettleRefunded)"
proof -
  have rate: "0 \<le> feeRate" "feeRate \<le> 1" and v: "validateAllocation allocation = Inr ()"
    using assms(2) by (auto simp add: settleOnReceipt_def split: if_splits sum.splits)
  then have "0 \<le> ba_amount_locked allocation" by (auto simp add: validateAllocation_def split: if_splits)
  with assms(1) have k: "0 \<le> k" by (simp add: zero_le_divide_iff)
  show ?thesis
  proof (cases "xr_status receipt = ReceiptCompleted")
    case False
    then have "xr_status receipt = ReceiptFailed \<or> xr_status receipt = ReceiptDenied" by (cases "xr_status receipt") auto
    then have "sr_amount_settled r = 0 \<and> sr_platform_fee r = 0 \<and> sr_status r = SettleRefunded"
      using assms(2) v rate by (auto simp add: settleOnReceipt_def Let_def split: if_splits)
    with k assms(1) show ?thesis by simp
  next
    case True
    then obtain gross st where g: "partial_gross allocation ledger = Inr (gross, st)"
      and r: "sr_status r = st" "sr_platform_fee r = microRound (gross * feeRate)"
        "sr_amount_settled r = microRound (gross - microRound (gross * feeRate))"
      using assms(2) v rate by (auto simp add: settleOnReceipt_def Let_def split: if_splits sum.splits)
    obtain n where n: "gross = of_int n / 1000000" "0 \<le> n" "n \<le> k" "st = SettleCompleted \<and> n = k \<or> st = SettlePartial"
      by (rule partial_gross_bounds [OF assms(1) k g])
    obtain f where f: "microRound (of_int n / 1000000 * feeRate) = of_int f / 1000000" "0 \<le> f" "f \<le> n"
      by (rule microRound_share [OF n(2) rate])
    have fee: "sr_platform_fee r = of_int f / 1000000" using r(2) f(1) n(1) by simp
    have rest: "gross - microRound (gross * feeRate) = of_int (n - f) / 1000000" unfolding n(1) f(1) by (simp add: diff_divide_distrib)
    have net: "sr_amount_settled r = of_int (n - f) / 1000000" unfolding r(3) rest by (rule microRound_int)
    have "sr_amount_settled r + sr_platform_fee r = of_int n / 1000000" using fee net by (simp add: diff_divide_distrib)
    with fee net f n r(1) True assms(1) show ?thesis by (auto simp add: divide_right_mono)
  qed
qed

text \<open>
  (C27) A federated settlement splits its budget without a remainder: for a non-negative budget and
  valid rates the origin fee, the executor fee and the worker's net are non-negative whole micro-units
  that sum to the budget; the rounding never pays a micro-unit twice.
\<close>
theorem federated_split_conserves_budget:
  assumes "0 \<le> budget" and "computeFederatedFeeSplit budget feeRate executorRate = Inr s"
  shows "ff_originFeeMicro s + ff_executorFeeMicro s + ff_workerNetMicro s = budget
    \<and> 0 \<le> ff_originFeeMicro s \<and> 0 \<le> ff_executorFeeMicro s \<and> 0 \<le> ff_workerNetMicro s"
proof -
  let ?e = "case executorRate of Some r \<Rightarrow> r | None \<Rightarrow> feeRate"
  let ?o = "js_round (of_int budget * feeRate)"
  have rates: "0 \<le> feeRate" "feeRate \<le> 1" "0 \<le> ?e" "?e \<le> 1"
    and s: "s = \<lparr> ff_originFeeMicro = ?o, ff_executorFeeMicro = js_round (of_int (budget - ?o) * ?e),
        ff_workerNetMicro = budget - ?o - js_round (of_int (budget - ?o) * ?e) \<rparr>"
    using assms(2) unfolding computeFederatedFeeSplit_def Let_def by (auto split: if_splits)
  note o = js_round_share [OF assms(1) rates(1,2)]
  then have "0 \<le> budget - ?o" by simp
  from js_round_share [OF this rates(3,4)] o show ?thesis unfolding s by simp
qed

text \<open>
  Settlement and refund exclude each other: a sequence of guarded status changes of an
  allocation that starts locked and never throws has at most two steps, and it enters settled or
  released at most once in total, so an allocation that was paid cannot also be released.
\<close>
theorem allocation_ends_once:
  assumes "transitions Locked path = Inr final"
  shows "length path \<le> 2 \<and> length (filter (\<lambda>s. s = Settled \<or> s = Released) path) \<le> 1
    \<and> (final = Settled \<or> final = Released \<longleftrightarrow> (\<exists>s. s \<in> set path \<and> (s = Settled \<or> s = Released)))"
proof -
  have step: "assertAllocationTransition a b = Inr () \<longleftrightarrow> canTransitionAllocation a b" for a b
    by (simp add: assertAllocationTransition_def)
  have tr: "canTransitionAllocation a b \<longleftrightarrow> a = Locked \<and> b \<noteq> Locked \<or> a = Disputed \<and> (b = Settled \<or> b = Released)" for a b
    by (cases a; cases b) (simp_all add: canTransitionAllocation_def VALID_TRANSITIONS_def jsm_get_def)
  have ended: "path' = [] \<and> f = a" if "transitions a path' = Inr f" "a = Settled \<or> a = Released" for a path' f
    using that by (cases path') (auto simp add: assertAllocationTransition_def tr split: if_splits)
  show ?thesis
  proof (cases path)
    case Nil
    with assms show ?thesis by auto
  next
    case (Cons a rest)
    with assms have a: "a \<noteq> Locked" "transitions a rest = Inr final"
      by (auto simp add: assertAllocationTransition_def tr split: if_splits)
    show ?thesis
    proof (cases "a = Disputed")
      case False
      with a have "a = Settled \<or> a = Released" by (cases a) auto
      with ended [OF a(2)] Cons show ?thesis by auto
    next
      case True
      show ?thesis
      proof (cases rest)
        case Nil
        with a True Cons show ?thesis by auto
      next
        case (Cons b rest')
        with a True have "b = Settled \<or> b = Released" "transitions b rest' = Inr final"
          by (auto simp add: assertAllocationTransition_def tr split: if_splits)
        with ended [of b rest' final] Cons \<open>path = a # rest\<close> True show ?thesis by auto
      qed
    qed
  qed
qed

text \<open>
  A ledger in which no step completed is settled as if all had: for a completed receipt whose
  ledger has steps and none of them completed, the settlement is the same full payment, with status
  completed, as without any ledger, although some completed steps would have reduced it.
\<close>
theorem no_completed_step_pays_in_full:
  assumes "settleOnReceipt allocation receipt None sid feeRate now = Inr r"
    and "xr_status receipt = ReceiptCompleted" and "list_all (\<lambda>c. \<not> c) (gm_steps_completed l)"
  shows "settleOnReceipt allocation receipt (Some l) sid feeRate now
    = Inr (r\<lparr>sr_ledger_hash := Some (gm_content_hash l)\<rparr>)"
proof -
  have "filter (\<lambda>c. c) (gm_steps_completed l) = []" using assms(3) by (simp add: list_all_iff filter_empty_conv)
  then have "partial_gross allocation (Some l) = partial_gross allocation None" by (simp add: partial_gross_def)
  with assms(1,2) show ?thesis
    by (auto simp add: settleOnReceipt_def Let_def split: if_splits sum.splits prod.splits)
qed

lemma allocateBudget_bounds:
  assumes "allocateBudget request available i now = Some a"
  shows "aq_estimated_cost request \<le> ba_amount_locked a \<and> ba_amount_locked a \<le> available \<and> ba_status a = Locked"
  using assms by (auto simp add: allocateBudget_def Let_def split: if_splits)

subsection \<open>Witnesses\<close>

definition demo_allocation :: budget_allocation where
  "demo_allocation = \<lparr> ba_allocation_id = ''a1'', ba_goal_id = ''g'', ba_candidate_motebit_id = ''bob'',
     ba_amount_locked = 10000007/1000000, ba_currency = ''USD'', ba_created_at = 0, ba_status = Locked \<rparr>"

definition demo_receipt :: execution_receipt where
  "demo_receipt = \<lparr> xr_motebit_id = ''bob'', xr_status = ReceiptCompleted, xr_result_hash = None \<rparr>"

definition demo_settled :: settlement_record where
  "demo_settled = \<lparr> sr_settlement_id = ''s'', sr_allocation_id = ''a1'', sr_motebit_id = ''bob'', sr_receipt_hash = [],
     sr_ledger_hash = None, sr_amount_settled = 9500007/1000000, sr_platform_fee = 500000/1000000, sr_platform_fee_rate = 5/100,
     sr_status = SettleCompleted, sr_settled_at = 0 \<rparr>"

lemma demo_settles: "settleOnReceipt demo_allocation demo_receipt None ''s'' (5/100) 0 = Inr demo_settled"
  by code_simp

theorem settlement_conserves_money_witness:
  "sr_amount_settled demo_settled + sr_platform_fee demo_settled = ba_amount_locked demo_allocation"
  using settlement_conserves_money [OF _ demo_settles, of 10000007] by (simp add: demo_allocation_def demo_settled_def)

theorem federated_split_conserves_budget_witness:
  "case computeFederatedFeeSplit 1000003 (5/100) None of
     Inr s \<Rightarrow> ff_originFeeMicro s + ff_executorFeeMicro s + ff_workerNetMicro s = 1000003 | Inl e \<Rightarrow> False"
proof -
  obtain s where "computeFederatedFeeSplit 1000003 (5/100) None = Inr s"
    by (simp add: computeFederatedFeeSplit_def Let_def)
  with federated_split_conserves_budget [OF _ this] show ?thesis by simp
qed

theorem allocation_ends_once_witness:
  "length (filter (\<lambda>s. s = Settled \<or> s = Released) [Disputed, Settled]) \<le> 1"
proof -
  have "transitions Locked [Disputed, Settled] = Inr Settled" by code_simp
  from allocation_ends_once [OF this] show ?thesis by blast
qed

theorem no_completed_step_pays_in_full_witness:
  "settleOnReceipt demo_allocation demo_receipt (Some \<lparr> gm_content_hash = ''h'', gm_steps_completed = [False, False] \<rparr>) ''s'' (5/100) 0
    = Inr (demo_settled\<lparr>sr_ledger_hash := Some ''h''\<rparr>)"
  using no_completed_step_pays_in_full [OF demo_settles, of "\<lparr> gm_content_hash = ''h'', gm_steps_completed = [False, False] \<rparr>"]
  by (simp add: demo_receipt_def)

end
