(* ===== verification/ConflictResolver.thy ===== *)
theory ConflictResolver
  imports Prelude
begin

text \<open>
  Conflict resolution of the sync engine, \<open>packages/sync-engine/src/conflict-resolver.ts\<close>: the
  last-writer-wins resolver, the append-only merge of conversations and the conflict tracker. The
  interface \<open>content_merge\<close> says what a convergent merge promises; inside it, merging the same content in
  any order and with any repetition gives the same state. It is interpreted on the message merge.
  \<open>localeCompare\<close> is a parameter, a consistent comparator; \<open>id_order\<close> adds that it separates the messages at hand.
\<close>

subsection \<open>Types\<close>

datatype conflict_strategy = LocalWins | RemoteWins | MergeBoth

record 'a versioned =
  vs_version :: int
  vs_timestamp :: int
  vs_device_id :: string
  vs_value :: 'a

text \<open>A resolved value: without the version fields, or the local object with them left in.\<close>

datatype 'a resolved = Stripped 'a | Unstripped "'a versioned"

fun resolved_value :: "'a resolved \<Rightarrow> 'a" where
  "resolved_value (Stripped x) = x"
| "resolved_value (Unstripped v) = vs_value v"

record 'a conflict_result =
  cr_resolved :: 'a
  cr_strategy :: conflict_strategy
  cr_conflicted :: bool

record sync_conversation =
  sc_conversation_id :: string
  sc_motebit_id :: string
  sc_started_at :: int
  sc_last_active_at :: int
  sc_title :: "string option"
  sc_summary :: "string option"
  sc_message_count :: nat

record sync_message =
  sm_message_id :: string
  sm_conversation_id :: string
  sm_motebit_id :: string
  sm_role :: string
  sm_content :: string
  sm_tool_calls :: "string option"
  sm_tool_call_id :: "string option"
  sm_created_at :: int
  sm_token_estimate :: int
  sm_sensitivity :: "string option"

record conversation_with_messages =
  cw_conversation :: sync_conversation
  cw_messages :: "sync_message list"

record merged_conversation =
  mc_conversation :: "sync_conversation resolved"
  mc_messages :: "sync_message list"

subsection \<open>Last writer wins\<close>

definition pickWinner :: "'a versioned \<Rightarrow> 'a versioned \<Rightarrow> bool" where
  \<comment> \<open>whether the local side is returned\<close>
  "pickWinner local remote =
     (if vs_version local \<noteq> vs_version remote then vs_version local > vs_version remote
      else if vs_timestamp local \<noteq> vs_timestamp remote then vs_timestamp local > vs_timestamp remote
      else vs_device_id local \<ge> vs_device_id remote)"

definition lwwResolve :: "'a versioned \<Rightarrow> 'a versioned \<Rightarrow> 'a resolved conflict_result" where
  "lwwResolve local remote =
     (if vs_version local = vs_version remote \<and> vs_timestamp local = vs_timestamp remote
         \<and> vs_device_id local = vs_device_id remote
      then \<lparr> cr_resolved = Unstripped local, cr_strategy = LocalWins, cr_conflicted = False \<rparr>
      else
        (let conflicted = (vs_version local = vs_version remote \<and> vs_device_id local \<noteq> vs_device_id remote);
             local_wins = pickWinner local remote
         in \<lparr> cr_resolved = Stripped (vs_value (if local_wins then local else remote)),
              cr_strategy = (if local_wins then LocalWins else RemoteWins), cr_conflicted = conflicted \<rparr>))"

subsection \<open>Append-only merge\<close>

definition message_order :: "(string \<Rightarrow> string \<Rightarrow> int) \<Rightarrow> sync_message \<Rightarrow> sync_message \<Rightarrow> int" where
  "message_order localeCompare a b =
     (if sm_created_at a \<noteq> sm_created_at b then sm_created_at a - sm_created_at b
      else localeCompare (sm_message_id a) (sm_message_id b))"

definition message_map :: "sync_message list \<Rightarrow> sync_message list \<Rightarrow> (string, sync_message) jsmap" where
  "message_map local remote =
     foldl (\<lambda>m msg. if \<not> jsm_has m (sm_message_id msg) then jsm_set (sm_message_id msg) msg m else m)
       (foldl (\<lambda>m msg. jsm_set (sm_message_id msg) msg m) [] local) remote"

definition merge_messages :: "(string \<Rightarrow> string \<Rightarrow> int) \<Rightarrow> sync_message list \<Rightarrow> sync_message list \<Rightarrow> sync_message list" where
  "merge_messages localeCompare local remote =
     js_sort (message_order localeCompare) (jsm_values (message_map local remote))"

definition appendOnlyResolve :: "(string \<Rightarrow> string \<Rightarrow> int) \<Rightarrow> conversation_with_messages versioned \<Rightarrow>
    conversation_with_messages versioned \<Rightarrow> merged_conversation conflict_result" where
  "appendOnlyResolve localeCompare local remote =
     (let meta = (\<lambda>v. \<lparr> vs_version = vs_version v, vs_timestamp = vs_timestamp v,
                         vs_device_id = vs_device_id v, vs_value = cw_conversation (vs_value v) \<rparr>);
          metadataResult = lwwResolve (meta local) (meta remote);
          localMessages = cw_messages (vs_value local);
          remoteMessages = cw_messages (vs_value remote);
          mergedMessages = merge_messages localeCompare localMessages remoteMessages;
          mergedConversation = (case cr_resolved metadataResult of
              Stripped c \<Rightarrow> Stripped (c\<lparr>sc_message_count := length mergedMessages\<rparr>)
            | Unstripped v \<Rightarrow> Unstripped (v\<lparr>vs_value := (vs_value v)\<lparr>sc_message_count := length mergedMessages\<rparr>\<rparr>));
          localIds = map sm_message_id localMessages;
          remoteIds = map sm_message_id remoteMessages;
          localOnly = list_ex (\<lambda>m. sm_message_id m \<notin> set remoteIds) localMessages;
          remoteOnly = list_ex (\<lambda>m. sm_message_id m \<notin> set localIds) remoteMessages;
          isMerge = localOnly \<and> remoteOnly
      in \<lparr> cr_resolved = \<lparr> mc_conversation = mergedConversation, mc_messages = mergedMessages \<rparr>,
           cr_strategy = (if isMerge then MergeBoth else cr_strategy metadataResult),
           cr_conflicted = (isMerge \<or> cr_conflicted metadataResult) \<rparr>)"

subsection \<open>The tracker\<close>

record conflict_event =
  ce_conflict_id :: string
  ce_data_type :: string
  ce_strategy :: conflict_strategy
  ce_conflicted :: bool
  ce_resolved_at :: int
  ce_local_version :: int
  ce_remote_version :: int
  ce_local_device_id :: string
  ce_remote_device_id :: string

record conflict_tracker =
  ct_events :: "conflict_event list"
  ct_maxEvents :: nat

definition newConflictTracker :: "nat option \<Rightarrow> conflict_tracker" where
  "newConflictTracker maxEvents =
     \<lparr> ct_events = [], ct_maxEvents = (case maxEvents of Some n \<Rightarrow> n | None \<Rightarrow> 100) \<rparr>"

definition trackConflict :: "conflict_tracker \<Rightarrow> conflict_event \<Rightarrow> conflict_event \<times> conflict_tracker" where
  \<comment> \<open>\<open>record\<close>; the fresh id and the clock reading are fields of the event handed in\<close>
  "trackConflict t full =
     (let events = ct_events t @ [full];
          events = (if length events > ct_maxEvents t then tl events else events)
      in (full, t\<lparr>ct_events := events\<rparr>))"

definition getEvents :: "conflict_tracker \<Rightarrow> conflict_event list" where
  "getEvents t = ct_events t"

definition getLastConflict :: "conflict_tracker \<Rightarrow> conflict_event option" where
  "getLastConflict t = (if length (ct_events t) > 0 then Some (ct_events t ! (length (ct_events t) - 1)) else None)"

definition clearConflicts :: "conflict_tracker \<Rightarrow> conflict_tracker" where
  "clearConflicts t = t\<lparr>ct_events := []\<rparr>"

subsection \<open>What a convergent merge promises\<close>

locale content_merge =
  fixes carrier :: "'a set" and merge :: "'a \<Rightarrow> 'a \<Rightarrow> 'a" and content :: "'a \<Rightarrow> 'b set"
  assumes merge_in: "a \<in> carrier \<Longrightarrow> b \<in> carrier \<Longrightarrow> merge a b \<in> carrier"
    and content_merge: "a \<in> carrier \<Longrightarrow> b \<in> carrier \<Longrightarrow> content (merge a b) = content a \<union> content b"
    and canonical: "a \<in> carrier \<Longrightarrow> b \<in> carrier \<Longrightarrow> c \<in> carrier \<Longrightarrow> d \<in> carrier \<Longrightarrow>
      content (merge a b) = content (merge c d) \<Longrightarrow> merge a b = merge c d"
begin

lemma merge_commute: "a \<in> carrier \<Longrightarrow> b \<in> carrier \<Longrightarrow> merge a b = merge b a"
  by (intro canonical) (auto simp add: content_merge)

lemma merge_assoc: "a \<in> carrier \<Longrightarrow> b \<in> carrier \<Longrightarrow> c \<in> carrier \<Longrightarrow> merge (merge a b) c = merge a (merge b c)"
  by (intro canonical) (auto simp add: content_merge merge_in)

lemma merge_all: "a \<in> carrier \<Longrightarrow> set ss \<subseteq> carrier \<Longrightarrow>
    foldl merge a ss \<in> carrier \<and> content (foldl merge a ss) = content a \<union> \<Union> (content ` set ss)"
proof (induction ss arbitrary: a)
  case (Cons s ss)
  then show ?case using merge_in [of a s] content_merge [of a s] by auto
qed simp

lemma convergence:
  assumes "a \<in> carrier" "set ss \<subseteq> carrier" "b \<in> carrier" "set ts \<subseteq> carrier" and "ss \<noteq> []" "ts \<noteq> []"
    and "content a \<union> \<Union> (content ` set ss) = content b \<union> \<Union> (content ` set ts)"
  shows "foldl merge a ss = foldl merge b ts"
proof -
  obtain ss' s ts' t where st: "ss = ss' @ [s]" "ts = ts' @ [t]" using assms(5,6) by (metis rev_exhaust)
  have "foldl merge a ss' \<in> carrier" "foldl merge b ts' \<in> carrier" "s \<in> carrier" "t \<in> carrier"
    using merge_all assms(1-4) st by auto
  then show ?thesis using st merge_all [OF assms(1,2)] merge_all [OF assms(3,4)] assms(7)
    by (auto intro: canonical)
qed

end

subsection \<open>The message merge\<close>

text \<open>The lists of messages from a set in which an id determines its message.\<close>

definition universe :: "sync_message set \<Rightarrow> sync_message list set" where
  "universe M = (if inj_on sm_message_id M then {ms. set ms \<subseteq> M} else {})"

definition msg_in :: "sync_message set \<Rightarrow> string \<Rightarrow> sync_message" where
  "msg_in M i = (THE m. m \<in> M \<and> sm_message_id m = i)"

text \<open>A consistent comparator of ids, and messages of which no two of the same time have ids that it ranks alike.\<close>

locale id_order = js_comparator cmp for cmp :: "string \<Rightarrow> string \<Rightarrow> int" +
  fixes M :: "sync_message set"
  assumes apart: "m \<in> M \<Longrightarrow> n \<in> M \<Longrightarrow> sm_created_at m = sm_created_at n \<Longrightarrow> cmp (sm_message_id m) (sm_message_id n) \<le> 0
      \<Longrightarrow> cmp (sm_message_id n) (sm_message_id m) \<le> 0 \<Longrightarrow> sm_message_id m = sm_message_id n"

interpretation code_point_ids: id_order code_point_order M for M
  by unfold_locales (auto simp add: code_point_order_def split: if_splits)

lemma universe_msg: "ms \<in> universe M \<Longrightarrow> m \<in> set ms \<Longrightarrow> msg_in M (sm_message_id m) = m"
  unfolding universe_def msg_in_def by (rule the_equality) (auto simp add: inj_on_def split: if_splits)

lemma universe_snoc: "ms @ [m] \<in> universe M \<longleftrightarrow> ms \<in> universe M \<and> [m] \<in> universe M"
  by (auto simp add: universe_def)

lemma message_map_get:
  assumes "local \<in> universe M" and "remote \<in> universe M"
  shows "jsm_wf (message_map local remote)
    \<and> jsm_get (message_map local remote) i
      = (if \<exists>m \<in> set local \<union> set remote. sm_message_id m = i then Some (msg_in M i) else None)"
proof -
  have first: "jsm_wf (foldl (\<lambda>m msg. jsm_set (sm_message_id msg) msg m) [] ms)
      \<and> jsm_get (foldl (\<lambda>m msg. jsm_set (sm_message_id msg) msg m) [] ms) i
        = (if \<exists>m \<in> set ms. sm_message_id m = i then Some (msg_in M i) else None)"
    if "ms \<in> universe M" for ms i
    using that by (induction ms rule: rev_induct) (auto simp add: jsm_get_set universe_snoc universe_msg)
  let ?f = "\<lambda>m msg. if \<not> jsm_has m (sm_message_id msg) then jsm_set (sm_message_id msg) msg m else m"
  let ?l = "foldl (\<lambda>m msg. jsm_set (sm_message_id msg) msg m) [] local"
  have "jsm_wf (foldl ?f ?l ms) \<and> jsm_get (foldl ?f ?l ms) i
      = (if \<exists>m \<in> set local \<union> set ms. sm_message_id m = i then Some (msg_in M i) else None)"
    if "ms \<in> universe M" for ms i
    using that
  proof (induction ms arbitrary: i rule: rev_induct)
    case Nil
    then show ?case using first [OF assms(1)] by simp
  next
    case (snoc x xs)
    then show ?case by (auto simp add: universe_snoc universe_msg jsm_get_set jsm_has_iff split: if_splits)
  qed
  from this [OF assms(2)] show ?thesis by (simp add: message_map_def)
qed

lemma message_values:
  assumes "local \<in> universe M" and "remote \<in> universe M"
  shows "set (jsm_values (message_map local remote)) = set local \<union> set remote
    \<and> distinct (jsm_values (message_map local remote))"
proof -
  let ?m = "message_map local remote"
  note get = message_map_get [OF assms]
  have all: "msg_in M (sm_message_id m) = m" if "m \<in> set local \<union> set remote" for m
    using that assms universe_msg by auto
  have wf: "jsm_wf ?m" using get by blast
  have s: "set (jsm_values ?m) = set local \<union> set remote"
  proof (intro set_eqI iffI)
    fix v assume "v \<in> set (jsm_values ?m)"
    then obtain k where "jsm_get ?m k = Some v" using jsm_values_iff [OF wf] by blast
    then show "v \<in> set local \<union> set remote" using get [of k] all by (auto split: if_splits)
  next
    fix v assume v: "v \<in> set local \<union> set remote"
    then have "jsm_get ?m (sm_message_id v) = Some v" using get [of "sm_message_id v"] all by auto
    then show "v \<in> set (jsm_values ?m)" using jsm_values_iff [OF wf] by blast
  qed
  have "sm_message_id v = k" if "(k, v) \<in> set ?m" for k v
  proof -
    have "jsm_get ?m k = Some v" using that jsm_in_set_iff [OF wf] by blast
    then have "v = msg_in M k" "\<exists>m \<in> set local \<union> set remote. sm_message_id m = k" using get [of k] by (auto split: if_splits)
    with all show ?thesis by auto
  qed
  then have "map sm_message_id (jsm_values ?m) = map fst ?m" by (auto simp add: jsm_values_def)
  then have "distinct (map sm_message_id (jsm_values ?m))" using wf by (simp add: jsm_wf_def)
  then show ?thesis using s by (simp add: distinct_map)
qed

context id_order
begin

lemma message_order_comparator: "js_comparator (message_order cmp)"
proof -
  have c: "js_comparator (\<lambda>a b. cmp (sm_message_id a) (sm_message_id b))"
    by (rule js_comparator_map [where c = cmp and f = sm_message_id, OF js_comparator_axioms])
  have t: "js_comparator (\<lambda>a b. sm_created_at a - sm_created_at b)"
    by unfold_locales auto
  have "message_order cmp = cmp_then (\<lambda>a b. sm_created_at a - sm_created_at b) (\<lambda>a b. cmp (sm_message_id a) (sm_message_id b))"
    unfolding message_order_def cmp_then_def by (rule ext, rule ext) (simp only: right_minus_eq)
  then show ?thesis using js_comparator_then [OF t c] by simp
qed

lemma message_order_antisym:
  assumes "a \<in> M" and "b \<in> M" and "message_order cmp a b \<le> 0" and "message_order cmp b a \<le> 0"
  shows "sm_message_id a = sm_message_id b"
  using assms apart by (auto simp add: message_order_def split: if_splits)

lemma merge_spec:
  assumes "a \<in> universe M" and "b \<in> universe M"
  shows "set (merge_messages cmp a b) = set a \<union> set b \<and> distinct (merge_messages cmp a b)
    \<and> sorted_wrt (\<lambda>x y. message_order cmp x y \<le> 0) (merge_messages cmp a b)"
proof -
  have "distinct (merge_messages cmp a b)"
    using message_values [OF assms] mset_eq_imp_distinct_iff [OF mset_js_sort, of "message_order cmp" "jsm_values (message_map a b)"]
    by (simp add: merge_messages_def)
  then show ?thesis using message_values [OF assms] js_comparator.sorted_js_sort [OF message_order_comparator]
    by (simp add: merge_messages_def)
qed

lemma sorted_unique:
  assumes "set xs \<subseteq> M" and "\<And>x y. x \<in> set xs \<Longrightarrow> y \<in> set xs \<Longrightarrow> sm_message_id x = sm_message_id y \<Longrightarrow> x = y"
    and "distinct xs" "distinct ys" "set xs = set ys"
    and "sorted_wrt (\<lambda>x y. message_order cmp x y \<le> 0) xs" "sorted_wrt (\<lambda>x y. message_order cmp x y \<le> 0) ys"
  shows "xs = ys"
  using assms
proof (induction xs arbitrary: ys)
  case Nil
  then show ?case by simp
next
  case (Cons x xs)
  then obtain y ys' where ys: "ys = y # ys'" by (cases ys) auto
  have "x = y"
  proof (rule ccontr)
    assume neq: "x \<noteq> y"
    have x: "x \<in> set ys'" and y: "y \<in> set xs" using Cons.prems(5) ys neq by auto
    have "message_order cmp y x \<le> 0" using Cons.prems(7) ys x by simp
    moreover have "message_order cmp x y \<le> 0" using Cons.prems(6) y by simp
    moreover have "x \<in> M" "y \<in> M" using Cons.prems(1) y by auto
    ultimately have "sm_message_id x = sm_message_id y" by (intro message_order_antisym)
    with Cons.prems(2) [of x y] y neq show False by simp
  qed
  moreover have "xs = ys'"
  proof (rule Cons.IH)
    show "a = b" if "a \<in> set xs" "b \<in> set xs" "sm_message_id a = sm_message_id b" for a b
      using Cons.prems(2) [of a b] that by simp
    show "set xs = set ys'" using Cons.prems(3-5) ys \<open>x = y\<close> by (simp add: insert_ident)
  qed (use Cons.prems ys in simp_all)
  ultimately show ?case using ys by simp
qed

lemma message_merge: "content_merge (universe M) (merge_messages cmp) set"
proof
  show in_u: "merge_messages cmp a b \<in> universe M" if "a \<in> universe M" "b \<in> universe M" for a b
    using that merge_spec [OF that] by (auto simp add: universe_def split: if_splits)
  show "set (merge_messages cmp a b) = set a \<union> set b" if "a \<in> universe M" "b \<in> universe M" for a b
    using merge_spec [OF that] by simp
  show "merge_messages cmp a b = merge_messages cmp c d"
    if "a \<in> universe M" "b \<in> universe M" "c \<in> universe M" "d \<in> universe M"
      "set (merge_messages cmp a b) = set (merge_messages cmp c d)" for a b c d
  proof (rule sorted_unique)
    show "set (merge_messages cmp a b) \<subseteq> M" using in_u [OF that(1,2)] by (simp add: universe_def split: if_splits)
    show "x = y" if "x \<in> set (merge_messages cmp a b)" "y \<in> set (merge_messages cmp a b)" "sm_message_id x = sm_message_id y" for x y
      using that in_u [OF \<open>a \<in> universe M\<close> \<open>b \<in> universe M\<close>] universe_msg by metis
  qed (use that merge_spec in auto)
qed

end

interpretation message_merge: content_merge "universe M" "merge_messages code_point_order" set for M
  by (rule code_point_ids.message_merge)

subsection \<open>Properties\<close>

lemma resolve_messages [simp]:
  "mc_messages (cr_resolved (appendOnlyResolve lc l r)) = merge_messages lc (cw_messages (vs_value l)) (cw_messages (vs_value r))"
  by (simp add: appendOnlyResolve_def Let_def)

text \<open>A replica that resolves its conversation against the copies it receives, one after the other.\<close>

definition receive :: "(string \<Rightarrow> string \<Rightarrow> int) \<Rightarrow> conversation_with_messages versioned \<Rightarrow>
    conversation_with_messages versioned \<Rightarrow> conversation_with_messages versioned" where
  "receive lc l r = l\<lparr>vs_value := (vs_value l)\<lparr>cw_messages := mc_messages (cr_resolved (appendOnlyResolve lc l r))\<rparr>\<rparr>"

definition replica_messages :: "conversation_with_messages versioned \<Rightarrow> sync_message list" where
  "replica_messages v = cw_messages (vs_value v)"

lemma receive_all:
  "replica_messages (foldl (receive lc) a ss) = foldl (merge_messages lc) (replica_messages a) (map replica_messages ss)"
  by (induction ss arbitrary: a) (simp_all add: receive_def replica_messages_def)

text \<open>
  (C22) Conversation sync converges: two replicas that have resolved against copies holding, all together,
  the same messages show the same list, whatever the order and the repetition of what they received,
  and the list is exactly the union, without duplicates, in order of creation. This holds for messages of which an id determines one (messages
  are never edited) and no two of the same creation time have ids that \<open>localeCompare\<close> ranks alike; \<open>localeCompare\<close> is a consistent comparator.
\<close>

lemma conversation_sync_converges:
  assumes "js_comparator localeCompare" and "M = (\<Union>v \<in> set (a # ss). set (replica_messages v))"
    and "M = (\<Union>v \<in> set (b # ts). set (replica_messages v))" and "ss \<noteq> []" and "ts \<noteq> []" and "inj_on sm_message_id M"
    and "\<forall>m \<in> M. \<forall>n \<in> M. m \<noteq> n \<and> sm_created_at m = sm_created_at n
      \<longrightarrow> localeCompare (sm_message_id m) (sm_message_id n) > 0 \<or> localeCompare (sm_message_id n) (sm_message_id m) > 0"
  shows "replica_messages (foldl (receive localeCompare) a ss) = replica_messages (foldl (receive localeCompare) b ts)
    \<and> set (replica_messages (foldl (receive localeCompare) a ss)) = M
    \<and> distinct (replica_messages (foldl (receive localeCompare) a ss))
    \<and> sorted (map sm_created_at (replica_messages (foldl (receive localeCompare) a ss)))"
proof -
  let ?m = "merge_messages localeCompare" and ?r = replica_messages
  have order: "id_order localeCompare M"
    using assms(1,7) by (auto simp add: id_order_def id_order_axioms_def) (metis leD)
  note merge = id_order.message_merge [OF order]
  have u: "?r a \<in> universe M" "set (map ?r ss) \<subseteq> universe M" "?r b \<in> universe M" "set (map ?r ts) \<subseteq> universe M"
    using assms(2,3,6) by (auto simp add: universe_def)
  have same: "foldl ?m (?r a) (map ?r ss) = foldl ?m (?r b) (map ?r ts)"
    using content_merge.convergence [OF merge u] assms(2-5) by simp
  have content: "set (foldl ?m (?r a) (map ?r ss)) = M"
    using content_merge.merge_all [OF merge u(1,2)] assms(2) by simp
  obtain ss' s where ss: "ss = ss' @ [s]" using assms(4) by (metis rev_exhaust)
  have "foldl ?m (?r a) (map ?r ss') \<in> universe M" "?r s \<in> universe M"
    using content_merge.merge_all [OF merge u(1), of "map ?r ss'"] u(2) ss by auto
  note last = id_order.merge_spec [OF order this]
  have "distinct (foldl ?m (?r a) (map ?r ss))" using last ss by simp
  moreover have "sorted_wrt (\<lambda>x y. sm_created_at x \<le> sm_created_at y) (foldl ?m (?r a) (map ?r ss))"
    using last ss by (auto simp add: message_order_def elim!: sorted_wrt_mono_rel [rotated] split: if_splits)
  ultimately show ?thesis using same content unfolding receive_all sorted_map by blast
qed

definition demo_message :: "string \<Rightarrow> int \<Rightarrow> sync_message" where
  "demo_message i t = \<lparr> sm_message_id = i, sm_conversation_id = ''c'', sm_motebit_id = ''m'', sm_role = ''user'',
     sm_content = i, sm_tool_calls = None, sm_tool_call_id = None, sm_created_at = t, sm_token_estimate = 1, sm_sensitivity = None \<rparr>"

definition demo_replica :: "string \<Rightarrow> sync_message list \<Rightarrow> conversation_with_messages versioned" where
  "demo_replica d ms = \<lparr> vs_version = 1, vs_timestamp = 5, vs_device_id = d, vs_value =
     \<lparr> cw_conversation = \<lparr> sc_conversation_id = ''c'', sc_motebit_id = ''m'', sc_started_at = 0, sc_last_active_at = 5,
         sc_title = None, sc_summary = None, sc_message_count = length ms \<rparr>, cw_messages = ms \<rparr> \<rparr>"

lemma conversation_sync_converges_witness:
  "replica_messages (foldl (receive code_point_order) (demo_replica ''a'' [demo_message ''x'' 2])
       [demo_replica ''b'' [demo_message ''y'' 1], demo_replica ''c'' [demo_message ''z'' 1]])
   = replica_messages (foldl (receive code_point_order) (demo_replica ''b'' [demo_message ''y'' 1])
       [demo_replica ''c'' [demo_message ''z'' 1, demo_message ''x'' 2]])"
proof -
  let ?M = "{demo_message ''x'' 2, demo_message ''y'' 1, demo_message ''z'' 1}"
  let ?a = "demo_replica ''a'' [demo_message ''x'' 2]" and ?b = "demo_replica ''b'' [demo_message ''y'' 1]"
  let ?ss = "[?b, demo_replica ''c'' [demo_message ''z'' 1]]" and ?ts = "[demo_replica ''c'' [demo_message ''z'' 1, demo_message ''x'' 2]]"
  have cmp: "js_comparator code_point_order" by unfold_locales
  have ids: "inj_on sm_message_id ?M" by (simp add: demo_message_def)
  have apart: "\<forall>m \<in> ?M. \<forall>n \<in> ?M. m \<noteq> n \<and> sm_created_at m = sm_created_at n
      \<longrightarrow> code_point_order (sm_message_id m) (sm_message_id n) > 0 \<or> code_point_order (sm_message_id n) (sm_message_id m) > 0"
    by (simp add: demo_message_def code_point_order_def)
  have left: "?M = (\<Union>v \<in> set (?a # ?ss). set (replica_messages v))" and right: "?M = (\<Union>v \<in> set (?b # ?ts). set (replica_messages v))"
    by (auto simp add: demo_replica_def replica_messages_def)
  show ?thesis
    by (rule conversation_sync_converges [OF cmp left right list.distinct(2) list.distinct(2) ids apart, THEN conjunct1])
qed

text \<open>Where \<open>localeCompare\<close> ranks two ids alike and the times are the same, the replicas keep the order in which they met the messages.\<close>

lemma equal_rank_diverges:
  "replica_messages (foldl (receive (\<lambda>_ _. 0)) (demo_replica ''a'' [demo_message ''x'' 1]) [demo_replica ''b'' [demo_message ''y'' 1]])
   \<noteq> replica_messages (foldl (receive (\<lambda>_ _. 0)) (demo_replica ''b'' [demo_message ''y'' 1]) [demo_replica ''a'' [demo_message ''x'' 1]])"
  by code_simp

definition metadata_below :: "'a versioned \<Rightarrow> 'a versioned \<Rightarrow> bool" where
  "metadata_below v w \<longleftrightarrow> vs_version v < vs_version w \<or> vs_version v = vs_version w
     \<and> (vs_timestamp v < vs_timestamp w \<or> vs_timestamp v = vs_timestamp w \<and> vs_device_id v \<le> vs_device_id w)"

text \<open>
  The last-writer-wins resolver is symmetric: both devices of an exchange keep the same value, flag
  the same conflict, and exactly one of them reports that its own side won, unless the two versions
  are identical. The value kept is that of the greater version, then timestamp, then device.
\<close>

lemma lww_devices_agree:
  assumes "vs_version l = vs_version r \<Longrightarrow> vs_timestamp l = vs_timestamp r \<Longrightarrow> vs_device_id l = vs_device_id r \<Longrightarrow> l = r"
  shows "resolved_value (cr_resolved (lwwResolve l r)) = resolved_value (cr_resolved (lwwResolve r l))
    \<and> cr_conflicted (lwwResolve l r) = cr_conflicted (lwwResolve r l)
    \<and> (cr_strategy (lwwResolve l r) = LocalWins \<and> cr_strategy (lwwResolve r l) = LocalWins \<longleftrightarrow> l = r)
    \<and> (cr_strategy (lwwResolve l r) = RemoteWins \<longrightarrow> cr_strategy (lwwResolve r l) = LocalWins)
    \<and> (\<exists>w \<in> {l, r}. resolved_value (cr_resolved (lwwResolve l r)) = vs_value w \<and> metadata_below l w \<and> metadata_below r w)
    \<and> (cr_conflicted (lwwResolve l r) \<longleftrightarrow> vs_version l = vs_version r \<and> vs_device_id l \<noteq> vs_device_id r)"
proof (cases "vs_version l = vs_version r \<and> vs_timestamp l = vs_timestamp r \<and> vs_device_id l = vs_device_id r")
  case True
  then show ?thesis using assms by (simp add: lwwResolve_def metadata_below_def)
next
  case False
  then show ?thesis by (auto simp add: lwwResolve_def pickWinner_def metadata_below_def Let_def)
qed

lemma lww_devices_agree_witness:
  "resolved_value (cr_resolved (lwwResolve (demo_replica ''a'' []) (demo_replica ''b'' [demo_message ''x'' 2])))
   = resolved_value (cr_resolved (lwwResolve (demo_replica ''b'' [demo_message ''x'' 2]) (demo_replica ''a'' [])))"
  using lww_devices_agree [of "demo_replica ''a'' []" "demo_replica ''b'' [demo_message ''x'' 2]"]
  by (simp add: demo_replica_def)

lemma tracker_bounded:
  assumes "length (getEvents t) \<le> ct_maxEvents t" and "ct_maxEvents t > 0"
  shows "length (getEvents (snd (trackConflict t e))) \<le> ct_maxEvents (snd (trackConflict t e))
    \<and> getLastConflict (snd (trackConflict t e)) = Some e"
  using assms
  by (cases "ct_events t") (auto simp add: trackConflict_def getEvents_def getLastConflict_def Let_def nth_append)

end
