(* ===== verification/EventLog.thy ===== *)
theory EventLog
  imports Complex_Main "HOL-Library.Sublist" Prelude
begin

text \<open>
  The event log, \<open>packages/event-log/src/index.ts\<close>: the in-memory adapter and the store on top of it.
  The events are the array in order of arrival, \<open>seenIds\<close> the set that outlives deletions. Payloads are
  JSON objects; the signature of a horizon certificate is a parameter. A run of the log is any sequence of
  its operations; the lemmas say what every run keeps. The interface \<open>clocked_log\<close> says what assigning
  version clocks promises; it is interpreted on the adapter.
\<close>

subsection \<open>Entries, filters and the store\<close>

datatype js_value = JNull | JBool bool | JNum rat | JStr string | JArr "js_value list" | JObj "(string \<times> js_value) list"

type_synonym payload = "(string, js_value) jsmap"

record event_entry =
  ev_event_id :: string
  ev_motebit_id :: string
  ev_device_id :: "string option"
  ev_timestamp :: int
  ev_event_type :: string
  ev_payload :: "payload option"
  ev_version_clock :: int
  ev_tombstoned :: bool

record event_filter =
  ef_motebit_id :: "string option"
  ef_event_types :: "string list option"
  ef_after_timestamp :: "int option"
  ef_before_timestamp :: "int option"
  ef_after_version_clock :: "int option"
  ef_limit :: "int option"

record event_store =
  es_events :: "event_entry list"
  es_seenIds :: "string set"

datatype log_error = UndefinedEntry | EmptyEventId | EmptyMotebitId | NoTruncation | OperatorNeedsMotebitIds

definition emptyEventStore :: event_store where
  "emptyEventStore = \<lparr> es_events = [], es_seenIds = {} \<rparr>"

definition of_motebit :: "string \<Rightarrow> event_store \<Rightarrow> event_entry list" where
  "of_motebit m s = filter (\<lambda>e. ev_motebit_id e = m) (es_events s)"

definition max_clock :: "event_entry list \<Rightarrow> int" where
  \<comment> \<open>\<open>Math.max(...clocks)\<close>, called on non-empty lists only\<close>
  "max_clock es = Max (set (map ev_version_clock es))"

subsection \<open>The adapter's operations\<close>

definition log_append :: "event_entry \<Rightarrow> event_store \<Rightarrow> event_store" where
  "log_append e s =
     (if ev_event_id e \<in> es_seenIds s then s
      else \<lparr> es_events = es_events s @ [e], es_seenIds = insert (ev_event_id e) (es_seenIds s) \<rparr>)"

text \<open>\<open>slice(0, limit)\<close>: a negative limit counts from the end.\<close>

definition js_slice0 :: "int \<Rightarrow> 'a list \<Rightarrow> 'a list" where
  "js_slice0 n xs = (if n < 0 then take (nat (int (length xs) + n)) xs else take (nat n) xs)"

definition when_given :: "'b option \<Rightarrow> ('b \<Rightarrow> 'a \<Rightarrow> 'a) \<Rightarrow> 'a \<Rightarrow> 'a" where
  "when_given opt f x = (case opt of None \<Rightarrow> x | Some b \<Rightarrow> f b x)"

definition log_query :: "event_filter \<Rightarrow> event_store \<Rightarrow> event_entry list" where
  "log_query f s =
     (let results = es_events s;
          results = when_given (ef_motebit_id f) (\<lambda>m. filter (\<lambda>e. ev_motebit_id e = m)) results;
          results = when_given (ef_event_types f) (\<lambda>ts. filter (\<lambda>e. ev_event_type e \<in> set ts)) results;
          results = when_given (ef_after_timestamp f) (\<lambda>t. filter (\<lambda>e. ev_timestamp e > t)) results;
          results = when_given (ef_before_timestamp f) (\<lambda>t. filter (\<lambda>e. ev_timestamp e < t)) results;
          results = when_given (ef_after_version_clock f) (\<lambda>c. filter (\<lambda>e. ev_version_clock e > c)) results;
          results = when_given (ef_limit f) js_slice0 results
      in results)"

definition appendWithClock :: "event_entry \<Rightarrow> event_store \<Rightarrow> log_error + int \<times> event_store" where
  \<comment> \<open>the entry's own clock is not read: the source's argument has none\<close>
  "appendWithClock e s =
     (if ev_event_id e \<in> es_seenIds s
      then (case find (\<lambda>x. ev_event_id x = ev_event_id e) (es_events s) of
              None \<Rightarrow> Inl UndefinedEntry
            | Some existing \<Rightarrow> Inr (ev_version_clock existing, s))
      else
        (let moteEvents = of_motebit (ev_motebit_id e) s;
             clock = (if moteEvents = [] then 1 else max_clock moteEvents + 1)
         in Inr (clock, \<lparr> es_events = es_events s @ [e\<lparr>ev_version_clock := clock\<rparr>],
                          es_seenIds = insert (ev_event_id e) (es_seenIds s) \<rparr>)))"

definition getLatestClock :: "string \<Rightarrow> event_store \<Rightarrow> int" where
  "getLatestClock m s = (if of_motebit m s = [] then 0 else max_clock (of_motebit m s))"

fun update_first :: "('a \<Rightarrow> bool) \<Rightarrow> ('a \<Rightarrow> 'a) \<Rightarrow> 'a list \<Rightarrow> 'a list" where
  "update_first P f [] = []"
| "update_first P f (x # xs) = (if P x then f x # xs else x # update_first P f xs)"

definition log_tombstone :: "string \<Rightarrow> string \<Rightarrow> event_store \<Rightarrow> event_store" where
  "log_tombstone i m s = s\<lparr>es_events := update_first (\<lambda>e. ev_event_id e = i \<and> ev_motebit_id e = m)
     (\<lambda>e. e\<lparr>ev_tombstoned := True\<rparr>) (es_events s)\<rparr>"

definition log_compact :: "string \<Rightarrow> int \<Rightarrow> event_store \<Rightarrow> int \<times> event_store" where
  "log_compact m beforeClock s =
     (let events = filter (\<lambda>e. ev_motebit_id e \<noteq> m \<or> ev_version_clock e > beforeClock) (es_events s)
      in (int (length (es_events s)) - int (length events), s\<lparr>es_events := events\<rparr>))"

definition truncateBeforeHorizon :: "string \<Rightarrow> int \<Rightarrow> event_store \<Rightarrow> int \<times> event_store" where
  "truncateBeforeHorizon m horizonTs s =
     (let events = filter (\<lambda>e. ev_motebit_id e \<noteq> m \<or> ev_timestamp e \<ge> horizonTs) (es_events s)
      in (int (length (es_events s)) - int (length events), s\<lparr>es_events := events\<rparr>))"

definition countEvents :: "string \<Rightarrow> event_store \<Rightarrow> int" where
  "countEvents m s = int (length (of_motebit m s))"

definition redactable :: "string \<Rightarrow> string \<Rightarrow> event_entry \<Rightarrow> bool" where
  \<comment> \<open>none of the loop's \<open>continue\<close> guards applies\<close>
  "redactable m nodeId e \<longleftrightarrow> ev_motebit_id e = m \<and> ev_event_type e = ''memory_formed''
     \<and> (case ev_payload e of None \<Rightarrow> False
        | Some p \<Rightarrow> jsm_get p ''_encrypted'' \<noteq> Some (JBool True) \<and> jsm_get p ''node_id'' = Some (JStr nodeId)
            \<and> \<not> (jsm_get p ''content'' = Some (JStr ''[REDACTED]'') \<and> jsm_get p ''redacted_reason'' = Some (JStr ''deleted'')))"

definition redact_payload :: "payload \<Rightarrow> payload" where
  "redact_payload p = jsm_set ''redacted_reason'' (JStr ''deleted'')
     (jsm_set ''redacted'' (JBool True) (jsm_set ''content'' (JStr ''[REDACTED]'') p))"

definition redactMemoryContent :: "string \<Rightarrow> string \<Rightarrow> event_store \<Rightarrow> int \<times> event_store" where
  "redactMemoryContent m nodeId s =
     (int (length (filter (redactable m nodeId) (es_events s))),
      s\<lparr>es_events := map (\<lambda>e. if redactable m nodeId e then e\<lparr>ev_payload := map_option redact_payload (ev_payload e)\<rparr> else e) (es_events s)\<rparr>)"


subsection \<open>The store over an adapter\<close>

text \<open>\<open>EventStoreAdapter\<close>: the optional methods are options.\<close>

record 's event_adapter =
  ad_append :: "event_entry \<Rightarrow> 's \<Rightarrow> 's"
  ad_appendWithClock :: "(event_entry \<Rightarrow> 's \<Rightarrow> log_error + int \<times> 's) option"
  ad_query :: "event_filter \<Rightarrow> 's \<Rightarrow> event_entry list"
  ad_getLatestClock :: "string \<Rightarrow> 's \<Rightarrow> int"
  ad_tombstone :: "string \<Rightarrow> string \<Rightarrow> 's \<Rightarrow> 's"
  ad_compact :: "(string \<Rightarrow> int \<Rightarrow> 's \<Rightarrow> int \<times> 's) option"
  ad_truncateBeforeHorizon :: "(string \<Rightarrow> int \<Rightarrow> 's \<Rightarrow> int \<times> 's) option"
  ad_redactMemoryContent :: "(string \<Rightarrow> string \<Rightarrow> 's \<Rightarrow> int \<times> 's) option"
  ad_countEvents :: "(string \<Rightarrow> 's \<Rightarrow> int) option"

definition InMemoryEventStore :: "event_store event_adapter" where
  "InMemoryEventStore = \<lparr> ad_append = log_append, ad_appendWithClock = Some appendWithClock, ad_query = log_query,
     ad_getLatestClock = getLatestClock, ad_tombstone = log_tombstone, ad_compact = Some log_compact,
     ad_truncateBeforeHorizon = Some truncateBeforeHorizon, ad_redactMemoryContent = Some redactMemoryContent,
     ad_countEvents = Some countEvents \<rparr>"

definition store_append :: "'s event_adapter \<Rightarrow> event_entry \<Rightarrow> 's \<Rightarrow> log_error + 's" where
  "store_append ad e s =
     (if ev_event_id e = [] then Inl EmptyEventId
      else if ev_motebit_id e = [] then Inl EmptyMotebitId
      else Inr (ad_append ad e s))"

definition store_query :: "'s event_adapter \<Rightarrow> event_filter \<Rightarrow> 's \<Rightarrow> event_entry list" where
  "store_query ad f s = ad_query ad f s"

definition store_getLatestClock :: "'s event_adapter \<Rightarrow> string \<Rightarrow> 's \<Rightarrow> int" where
  "store_getLatestClock ad m s = ad_getLatestClock ad m s"

definition store_tombstone :: "'s event_adapter \<Rightarrow> string \<Rightarrow> string \<Rightarrow> 's \<Rightarrow> 's" where
  "store_tombstone ad i m s = ad_tombstone ad i m s"

definition store_redactMemoryEvents :: "'s event_adapter \<Rightarrow> string \<Rightarrow> string \<Rightarrow> 's \<Rightarrow> (bool \<times> int) \<times> 's" where
  "store_redactMemoryEvents ad m nodeId s =
     (case ad_redactMemoryContent ad of
        None \<Rightarrow> ((False, 0), s)
      | Some redact \<Rightarrow> (let (changed, s') = redact m nodeId s in ((True, changed), s')))"

definition store_appendWithClock :: "'s event_adapter \<Rightarrow> event_entry \<Rightarrow> 's \<Rightarrow> log_error + int \<times> 's" where
  "store_appendWithClock ad e s =
     (if ev_event_id e = [] then Inl EmptyEventId
      else if ev_motebit_id e = [] then Inl EmptyMotebitId
      else (case ad_appendWithClock ad of
              Some append_clock \<Rightarrow> append_clock e s
            | None \<Rightarrow>
                (let clock = ad_getLatestClock ad (ev_motebit_id e) s;
                     assigned = clock + 1
                 in Inr (assigned, ad_append ad (e\<lparr>ev_version_clock := assigned\<rparr>) s))))"

definition all_of :: "string \<Rightarrow> event_filter" where
  "all_of m = \<lparr> ef_motebit_id = Some m, ef_event_types = None, ef_after_timestamp = None, ef_before_timestamp = None,
     ef_after_version_clock = None, ef_limit = None \<rparr>"

definition store_replay :: "'s event_adapter \<Rightarrow> string \<Rightarrow> ('h \<Rightarrow> event_entry \<Rightarrow> 'h) \<Rightarrow> 'h \<Rightarrow> 's \<Rightarrow> 'h" where
  \<comment> \<open>\<open>'h\<close> is the state the handler works on\<close>
  "store_replay ad m handler h s =
     foldl handler h (js_sort (\<lambda>a b. ev_version_clock a - ev_version_clock b) (ad_query ad (all_of m) s))"

definition store_compact :: "'s event_adapter \<Rightarrow> string \<Rightarrow> int \<Rightarrow> 's \<Rightarrow> int \<times> 's" where
  "store_compact ad m beforeClock s =
     (case ad_compact ad of None \<Rightarrow> (0, s) | Some cpt \<Rightarrow> cpt m beforeClock s)"

definition store_countEvents :: "'s event_adapter \<Rightarrow> string \<Rightarrow> 's \<Rightarrow> int" where
  "store_countEvents ad m s = (case ad_countEvents ad of None \<Rightarrow> - 1 | Some cnt \<Rightarrow> cnt m s)"

datatype horizon_subject = MotebitSubject string | OperatorSubject string

record 'k horizon_signer =
  hs_subject :: horizon_subject
  hs_privateKey :: 'k

record horizon_body =
  hb_subject :: horizon_subject
  hb_store_id :: string
  hb_horizon_ts :: int
  hb_witnessed_by :: "string list"
  hb_issued_at :: int

fun truncate_all :: "(string \<Rightarrow> int \<Rightarrow> 's \<Rightarrow> int \<times> 's) \<Rightarrow> int \<Rightarrow> string list \<Rightarrow> int \<Rightarrow> 's \<Rightarrow> int \<times> 's" where
  "truncate_all trunc horizonTs [] n s = (n, s)"
| "truncate_all trunc horizonTs (i # ids) n s =
     (let (k, s') = trunc i horizonTs s in truncate_all trunc horizonTs ids (n + k) s')"

text \<open>\<open>sign\<close> stands for \<open>signHorizonCertAsIssuer\<close> of the crypto package.\<close>

definition advanceHorizon :: "(horizon_body \<Rightarrow> 'k \<Rightarrow> 'cert) \<Rightarrow> 's event_adapter \<Rightarrow> string \<Rightarrow> int \<Rightarrow> 'k horizon_signer \<Rightarrow>
    string list option \<Rightarrow> int \<Rightarrow> 's \<Rightarrow> log_error + ('cert \<times> int) \<times> 's" where
  "advanceHorizon sign ad storeId horizonTs signer motebitIdsForOperator now s =
     (case ad_truncateBeforeHorizon ad of
        None \<Rightarrow> Inl NoTruncation
      | Some trunc \<Rightarrow>
          (let cert = sign \<lparr> hb_subject = hs_subject signer, hb_store_id = storeId, hb_horizon_ts = horizonTs,
                             hb_witnessed_by = [], hb_issued_at = now \<rparr> (hs_privateKey signer)
           in case hs_subject signer of
                MotebitSubject m \<Rightarrow> (let (n, s') = trunc m horizonTs s in Inr ((cert, n), s'))
              | OperatorSubject op \<Rightarrow>
                  (case motebitIdsForOperator of
                     None \<Rightarrow> Inl OperatorNeedsMotebitIds
                   | Some ids \<Rightarrow> (let (n, s') = truncate_all trunc horizonTs ids 0 s in Inr ((cert, n), s')))))"

subsection \<open>Runs of the log\<close>

datatype log_op = OpAppend event_entry | OpAppendWithClock event_entry | OpTombstone string string | OpCompact string int
  | OpTruncate string int | OpRedact string string

fun run_op :: "log_op \<Rightarrow> event_store \<Rightarrow> event_store" where
  "run_op (OpAppend e) s = log_append e s"
| "run_op (OpAppendWithClock e) s = (case appendWithClock e s of Inl _ \<Rightarrow> s | Inr (_, s') \<Rightarrow> s')"
| "run_op (OpTombstone i m) s = log_tombstone i m s"
| "run_op (OpCompact m c) s = snd (log_compact m c s)"
| "run_op (OpTruncate m t) s = snd (truncateBeforeHorizon m t s)"
| "run_op (OpRedact m n) s = snd (redactMemoryContent m n s)"

definition log_run :: "log_op list \<Rightarrow> event_store \<Rightarrow> event_store" where
  "log_run ops s = foldl (\<lambda>s op. run_op op s) s ops"

definition event_ids :: "event_store \<Rightarrow> string list" where
  "event_ids s = map ev_event_id (es_events s)"

definition log_wf :: "event_store \<Rightarrow> bool" where
  "log_wf s \<longleftrightarrow> distinct (event_ids s) \<and> set (event_ids s) \<subseteq> es_seenIds s"

lemma map_update_first: "(\<And>x. g (f x) = g x) \<Longrightarrow> map g (update_first P f xs) = map g xs"
  by (induction xs) auto

lemma redacted_id: "ev_event_id (if b then e\<lparr>ev_payload := p\<rparr> else e) = ev_event_id e"
  by simp

lemma subseq_ids:
  assumes "subseq xs ys"
  shows "set xs \<subseteq> set ys" and "distinct ys \<Longrightarrow> distinct xs"
  using assms by (induction rule: list_emb.induct) auto

text \<open>What one operation does to the ids: it appends one unseen id or keeps a sublist.\<close>

lemma run_op_ids:
  "(\<exists>i. i \<notin> es_seenIds s \<and> event_ids (run_op op s) = event_ids s @ [i] \<and> es_seenIds (run_op op s) = insert i (es_seenIds s))
   \<or> subseq (event_ids (run_op op s)) (event_ids s) \<and> es_seenIds (run_op op s) = es_seenIds s"
  by (cases op)
     (auto simp add: log_append_def appendWithClock_def log_tombstone_def log_compact_def truncateBeforeHorizon_def
        redactMemoryContent_def event_ids_def Let_def map_update_first comp_def redacted_id
        intro!: subseq_map split: option.splits)

lemma run_op_wf: "log_wf s \<Longrightarrow> log_wf (run_op op s)"
  using run_op_ids [of s op] unfolding log_wf_def
  by (auto dest: subseq_ids)

lemma log_run_wf: "log_wf s \<Longrightarrow> log_wf (log_run ops s)"
  unfolding log_run_def by (induction ops arbitrary: s) (simp_all add: run_op_wf)

lemma log_run_seen: "i \<in> es_seenIds s \<Longrightarrow> i \<in> es_seenIds (log_run ops s)"
  unfolding log_run_def
proof (induction ops arbitrary: s)
  case (Cons op ops)
  then show ?case using run_op_ids [of s op] by auto
qed simp

lemma log_run_gone:
  assumes "i \<in> es_seenIds s" and "i \<notin> set (event_ids s)"
  shows "i \<in> es_seenIds (log_run ops s) \<and> i \<notin> set (event_ids (log_run ops s))"
  using assms unfolding log_run_def
proof (induction ops arbitrary: s)
  case (Cons op ops)
  have "i \<in> es_seenIds (run_op op s) \<and> i \<notin> set (event_ids (run_op op s))"
    using run_op_ids [of s op] Cons.prems by (auto dest: subseq_ids)
  then show ?case using Cons.IH by simp
qed simp

subsection \<open>Assigning clocks\<close>

text \<open>
  What a log that assigns version clocks promises: a fresh entry gets the latest clock plus one, which then
  is the latest, and stays fresh only for the ids it has not taken. \<open>assign_all\<close> appends a batch.
\<close>

fun assign_all :: "('e \<Rightarrow> 's \<Rightarrow> 'err + int \<times> 's) \<Rightarrow> 'e list \<Rightarrow> 's \<Rightarrow> 'err + int list \<times> 's" where
  "assign_all assign [] s = Inr ([], s)"
| "assign_all assign (e # es) s =
     (case assign e s of Inl err \<Rightarrow> Inl err
      | Inr (c, s') \<Rightarrow> (case assign_all assign es s' of Inl err \<Rightarrow> Inl err | Inr (cs, s'') \<Rightarrow> Inr (c # cs, s'')))"

locale clocked_log =
  fixes assign :: "'e \<Rightarrow> 's \<Rightarrow> 'err + int \<times> 's" and latest :: "'s \<Rightarrow> int" and ident :: "'e \<Rightarrow> 'i"
    and fresh :: "'i \<Rightarrow> 's \<Rightarrow> bool" and mine :: "'e \<Rightarrow> bool"
  assumes assign_fresh: "mine e \<Longrightarrow> fresh (ident e) s \<Longrightarrow>
      \<exists>s'. assign e s = Inr (latest s + 1, s') \<and> latest s' = latest s + 1
        \<and> (\<forall>i. fresh i s' \<longleftrightarrow> fresh i s \<and> i \<noteq> ident e)"
begin

lemma assign_all_consecutive:
  assumes "list_all mine es" and "distinct (map ident es)" and "list_all (\<lambda>e. fresh (ident e) s) es"
  shows "\<exists>s'. assign_all assign es s = Inr ([latest s + 1 .. latest s + int (length es)], s')
    \<and> latest s' = latest s + int (length es)"
  using assms
proof (induction es arbitrary: s)
  case (Cons e es)
  then obtain s1 where s1: "assign e s = Inr (latest s + 1, s1)" "latest s1 = latest s + 1"
      and fr: "\<And>i. fresh i s1 \<longleftrightarrow> fresh i s \<and> i \<noteq> ident e"
    using assign_fresh [of e s] by auto
  have "ident x \<noteq> ident e" if "x \<in> set es" for x
    using Cons.prems(2) that by (metis distinct.simps(2) image_eqI list.set_map list.simps(9))
  then have "list_all (\<lambda>e. fresh (ident e) s1) es"
    using Cons.prems(3) by (simp add: list_all_iff fr)
  then obtain s2 where "assign_all assign es s1 = Inr ([latest s1 + 1 .. latest s1 + int (length es)], s2)"
      "latest s2 = latest s1 + int (length es)"
    using Cons.IH [of s1] Cons.prems by auto
  then show ?case using s1 by (simp add: upto_rec1 algebra_simps)
qed simp

end

lemma max_clock_snoc: "es \<noteq> [] \<Longrightarrow> max_clock (es @ [e]) = max (max_clock es) (ev_version_clock e)"
  by (simp add: max_clock_def max.commute)

lemma latest_snoc:
  "es_events s' = es_events s @ [e] \<Longrightarrow> getLatestClock m s' =
    (if ev_motebit_id e \<noteq> m then getLatestClock m s
     else if of_motebit m s = [] then ev_version_clock e else max (getLatestClock m s) (ev_version_clock e))"
  by (simp add: getLatestClock_def of_motebit_def max_clock_snoc) (simp add: max_clock_def)

lemma appendWithClock_fresh:
  assumes "ev_event_id e \<notin> es_seenIds s"
  shows "appendWithClock e s = Inr (getLatestClock (ev_motebit_id e) s + 1,
    log_append (e\<lparr>ev_version_clock := getLatestClock (ev_motebit_id e) s + 1\<rparr>) s)"
  using assms by (simp add: appendWithClock_def log_append_def getLatestClock_def Let_def)

definition named_in :: "string \<Rightarrow> event_entry \<Rightarrow> bool" where
  "named_in m e \<longleftrightarrow> ev_motebit_id e = m \<and> m \<noteq> [] \<and> ev_event_id e \<noteq> []"

text \<open>Adapters without \<open>appendWithClock\<close>, whose clocks the store assigns itself.\<close>

definition withoutAppendWithClock :: "event_store event_adapter" where
  "withoutAppendWithClock = InMemoryEventStore\<lparr>ad_appendWithClock := None\<rparr>"

lemma store_assign_fresh:
  assumes "named_in m e" and "ev_event_id e \<notin> es_seenIds s" and "ad \<in> {InMemoryEventStore, withoutAppendWithClock}"
  shows "\<exists>s'. store_appendWithClock ad e s = Inr (getLatestClock m s + 1, s') \<and> getLatestClock m s' = getLatestClock m s + 1
    \<and> (\<forall>i. i \<notin> es_seenIds s' \<longleftrightarrow> i \<notin> es_seenIds s \<and> i \<noteq> ev_event_id e)"
proof -
  let ?e = "e\<lparr>ev_version_clock := getLatestClock m s + 1\<rparr>"
  have "store_appendWithClock ad e s = Inr (getLatestClock m s + 1, log_append ?e s)"
    using assms by (auto simp add: store_appendWithClock_def appendWithClock_fresh named_in_def withoutAppendWithClock_def
        InMemoryEventStore_def Let_def)
  moreover have "getLatestClock m (log_append ?e s) = getLatestClock m s + 1"
    using assms(1,2) latest_snoc [of "log_append ?e s" s ?e m]
    by (simp add: log_append_def named_in_def getLatestClock_def)
  ultimately show ?thesis using assms(2) by (auto simp add: log_append_def)
qed

interpretation atomic_clocks: clocked_log "store_appendWithClock InMemoryEventStore" "getLatestClock m" ev_event_id
    "\<lambda>i s. i \<notin> es_seenIds s" "named_in m" for m
  by unfold_locales (simp add: store_assign_fresh)

interpretation fallback_clocks: clocked_log "store_appendWithClock withoutAppendWithClock" "getLatestClock m" ev_event_id
    "\<lambda>i s. i \<notin> es_seenIds s" "named_in m" for m
  by unfold_locales (simp add: store_assign_fresh)

subsection \<open>Properties\<close>

text \<open>
  (C23) Replay defence: in every run of the log from the empty store no event id is stored twice, and an event
  that was stored and then erased, by compaction or by a horizon, is never stored again, whatever is appended later.
\<close>

lemma erased_events_never_resurface:
  assumes "i \<in> set (event_ids (log_run ops1 emptyEventStore))"
    and "i \<notin> set (event_ids (log_run ops2 (log_run ops1 emptyEventStore)))"
  shows "i \<notin> set (event_ids (log_run ops3 (log_run ops2 (log_run ops1 emptyEventStore))))
    \<and> distinct (event_ids (log_run ops3 (log_run ops2 (log_run ops1 emptyEventStore))))"
proof -
  let ?s1 = "log_run ops1 emptyEventStore" and ?s2 = "log_run ops2 (log_run ops1 emptyEventStore)"
  have wf: "log_wf ?s1" by (rule log_run_wf) (simp add: log_wf_def emptyEventStore_def event_ids_def)
  then have "i \<in> es_seenIds ?s1" using assms(1) by (auto simp add: log_wf_def)
  then have "i \<in> es_seenIds ?s2" by (rule log_run_seen)
  then have "i \<notin> set (event_ids (log_run ops3 ?s2))" using assms(2) log_run_gone by blast
  then show ?thesis using log_run_wf [OF log_run_wf [OF wf]] by (auto simp add: log_wf_def)
qed

definition demo_event :: "string \<Rightarrow> int \<Rightarrow> event_entry" where
  "demo_event i t = \<lparr> ev_event_id = i, ev_motebit_id = ''m'', ev_device_id = None, ev_timestamp = t,
     ev_event_type = ''memory_formed'', ev_payload = Some [(''node_id'', JStr ''n''), (''content'', JStr ''secret'')],
     ev_version_clock = 0, ev_tombstoned = False \<rparr>"

lemmas log_eval = log_run_def log_append_def appendWithClock_def log_compact_def truncateBeforeHorizon_def
  of_motebit_def max_clock_def event_ids_def emptyEventStore_def demo_event_def Let_def

lemma erased_events_never_resurface_witness:
  "''a'' \<notin> set (event_ids (log_run [OpAppend (demo_event ''a'' 1)]
     (log_run [OpTruncate ''m'' 5] (log_run [OpAppend (demo_event ''a'' 1), OpAppendWithClock (demo_event ''b'' 9)] emptyEventStore))))"
  using erased_events_never_resurface [of "''a''" "[OpAppend (demo_event ''a'' 1), OpAppendWithClock (demo_event ''b'' 9)]"
      "[OpTruncate ''m'' 5]" "[OpAppend (demo_event ''a'' 1)]"]
  by (simp add: log_eval)

text \<open>
  Version clocks are assigned without gap or repetition: appending a batch of new events of a motebit through
  the store gives them the consecutive clocks after the latest one, with an adapter that assigns clocks
  atomically and with one that does not.
\<close>

lemma clocks_are_consecutive:
  assumes "list_all (named_in m) es" and "distinct (map ev_event_id es)"
    and "list_all (\<lambda>e. ev_event_id e \<notin> es_seenIds s) es" and "ad \<in> {InMemoryEventStore, withoutAppendWithClock}"
  shows "\<exists>s'. assign_all (store_appendWithClock ad) es s
      = Inr ([getLatestClock m s + 1 .. getLatestClock m s + int (length es)], s')
    \<and> getLatestClock m s' = getLatestClock m s + int (length es)"
  using atomic_clocks.assign_all_consecutive [OF assms(1-3)] fallback_clocks.assign_all_consecutive [OF assms(1-3)] assms(4)
  by blast

lemma clocks_are_consecutive_witness:
  "\<exists>s'. assign_all (store_appendWithClock InMemoryEventStore) [demo_event ''a'' 1, demo_event ''b'' 2] emptyEventStore
     = Inr ([1 .. 2], s') \<and> getLatestClock ''m'' s' = 2"
proof -
  have latest: "getLatestClock ''m'' emptyEventStore = 0"
    by (simp add: getLatestClock_def of_motebit_def emptyEventStore_def)
  then show ?thesis
    using clocks_are_consecutive [of "''m''" "[demo_event ''a'' 1, demo_event ''b'' 2]" emptyEventStore InMemoryEventStore]
    by (simp add: named_in_def demo_event_def emptyEventStore_def)
qed

text \<open>
  Appending an erased event with a clock fails: once a seen id is no longer in the array, the lookup the code
  takes for granted finds nothing, and \<open>appendWithClock\<close> throws where \<open>append\<close> does nothing.
\<close>

lemma erased_id_breaks_appendWithClock:
  assumes "i \<in> set (event_ids (log_run ops1 emptyEventStore))"
    and "i \<notin> set (event_ids (log_run ops2 (log_run ops1 emptyEventStore)))" and "ev_event_id e = i"
  shows "appendWithClock e (log_run ops2 (log_run ops1 emptyEventStore)) = Inl UndefinedEntry
    \<and> log_append e (log_run ops2 (log_run ops1 emptyEventStore)) = log_run ops2 (log_run ops1 emptyEventStore)"
proof -
  let ?s2 = "log_run ops2 (log_run ops1 emptyEventStore)"
  have "log_wf (log_run ops1 emptyEventStore)"
    by (rule log_run_wf) (simp add: log_wf_def emptyEventStore_def event_ids_def)
  then have seen: "i \<in> es_seenIds ?s2" using assms(1) log_run_seen by (auto simp add: log_wf_def)
  have "find (\<lambda>x. ev_event_id x = i) (es_events ?s2) = None"
    using assms(2) by (auto simp add: find_None_iff event_ids_def)
  then show ?thesis using seen assms(3) by (simp add: appendWithClock_def log_append_def)
qed

lemma erased_id_breaks_appendWithClock_witness:
  "appendWithClock (demo_event ''a'' 1)
     (log_run [OpTruncate ''m'' 5] (log_run [OpAppend (demo_event ''a'' 1)] emptyEventStore)) = Inl UndefinedEntry"
  using erased_id_breaks_appendWithClock [of "''a''" "[OpAppend (demo_event ''a'' 1)]" "[OpTruncate ''m'' 5]" "demo_event ''a'' 1"]
  by (simp add: log_eval)

subsection \<open>Horizons, redaction and replay\<close>

definition below_horizon :: "string list \<Rightarrow> int \<Rightarrow> event_entry \<Rightarrow> bool" where
  "below_horizon ids horizonTs e \<longleftrightarrow> ev_motebit_id e \<in> set ids \<and> ev_timestamp e < horizonTs"

lemma length_filter_split: "length (filter P xs) + length (filter (\<lambda>x. \<not> P x) xs) = length xs"
  by (induction xs) auto

lemma truncate_one:
  "truncateBeforeHorizon m h s = (int (length (filter (below_horizon [m] h) (es_events s))),
     s\<lparr>es_events := filter (\<lambda>e. \<not> below_horizon [m] h e) (es_events s)\<rparr>)"
proof -
  have "(\<lambda>e. ev_motebit_id e \<noteq> m \<or> ev_timestamp e \<ge> h) = (\<lambda>e. \<not> below_horizon [m] h e)"
    by (auto simp add: below_horizon_def)
  then show ?thesis using length_filter_split [of "below_horizon [m] h" "es_events s"]
    by (simp add: truncateBeforeHorizon_def Let_def)
qed

lemma truncate_all_spec:
  "truncate_all truncateBeforeHorizon h ids n s = (n + int (length (filter (below_horizon ids h) (es_events s))),
     s\<lparr>es_events := filter (\<lambda>e. \<not> below_horizon ids h e) (es_events s)\<rparr>)"
proof (induction ids arbitrary: n s)
  case Nil
  then show ?case by (simp add: below_horizon_def)
next
  case (Cons i ids)
  have or: "below_horizon (i # ids) h e \<longleftrightarrow> below_horizon [i] h e \<or> below_horizon ids h e" for e
    by (auto simp add: below_horizon_def)
  have "length (filter (\<lambda>a. below_horizon [i] h a \<or> below_horizon ids h a) xs)
      = length (filter (below_horizon [i] h) xs) + length (filter (\<lambda>e. \<not> below_horizon [i] h e \<and> below_horizon ids h e) xs)" for xs
    by (induction xs) auto
  then show ?case by (simp add: truncate_one [of i] Cons.IH or conj_commute)
qed

definition horizon_ids :: "horizon_subject \<Rightarrow> string list option \<Rightarrow> string list option" where
  "horizon_ids subj ids = (case subj of MotebitSubject m \<Rightarrow> Some [m] | OperatorSubject _ \<Rightarrow> ids)"

text \<open>
  Advancing the horizon erases exactly what the certificate says: the events of the subject's motebits
  older than the horizon and no other, in their order, with the count of those erased; the certificate is
  signed over the same subject, store and horizon. An operator-wide advance without its motebits fails.
\<close>

lemma horizon_erases_exactly:
  "advanceHorizon sign InMemoryEventStore storeId h signer ids now s =
     (case horizon_ids (hs_subject signer) ids of
        None \<Rightarrow> Inl OperatorNeedsMotebitIds
      | Some ms \<Rightarrow> Inr ((sign \<lparr> hb_subject = hs_subject signer, hb_store_id = storeId, hb_horizon_ts = h,
                              hb_witnessed_by = [], hb_issued_at = now \<rparr> (hs_privateKey signer),
                        int (length (filter (below_horizon ms h) (es_events s)))),
                      s\<lparr>es_events := filter (\<lambda>e. \<not> below_horizon ms h e) (es_events s)\<rparr>))"
  by (simp add: advanceHorizon_def InMemoryEventStore_def horizon_ids_def truncate_one truncate_all_spec
      split: horizon_subject.split option.split)

definition reveals :: "string \<Rightarrow> string \<Rightarrow> event_entry \<Rightarrow> bool" where
  \<comment> \<open>a readable formation event of the node that still has a content of its own\<close>
  "reveals m nodeId e \<longleftrightarrow> ev_motebit_id e = m \<and> ev_event_type e = ''memory_formed''
     \<and> (\<exists>p. ev_payload e = Some p \<and> jsm_get p ''_encrypted'' \<noteq> Some (JBool True)
          \<and> jsm_get p ''node_id'' = Some (JStr nodeId) \<and> jsm_get p ''content'' \<noteq> Some (JStr ''[REDACTED]''))"

lemma redact_not_redactable: "\<not> redactable m n (e\<lparr>ev_payload := map_option redact_payload (ev_payload e)\<rparr>)"
  by (auto simp add: redactable_def redact_payload_def jsm_get_set split: option.splits)

lemma not_redactable_hides: "\<not> redactable m n e \<Longrightarrow> \<not> reveals m n e"
  by (auto simp add: redactable_def reveals_def split: option.splits)

text \<open>
  Deletion reaches the log: after redacting a memory node no readable event of it keeps its content, the
  other events are untouched, every event keeps its id, clock and place, and redacting again changes nothing.
\<close>

lemma redaction_is_complete:
  "list_all (\<lambda>e. \<not> reveals m n e) (es_events (snd (redactMemoryContent m n s)))
    \<and> list_all2 (\<lambda>e e'. e' = e \<or> redactable m n e \<and> e' = e\<lparr>ev_payload := map_option redact_payload (ev_payload e)\<rparr>)
        (es_events s) (es_events (snd (redactMemoryContent m n s)))
    \<and> redactMemoryContent m n (snd (redactMemoryContent m n s)) = (0, snd (redactMemoryContent m n s))"
proof -
  let ?r = "\<lambda>e. if redactable m n e then e\<lparr>ev_payload := map_option redact_payload (ev_payload e)\<rparr> else e"
  have no: "\<not> redactable m n (?r e)" for e by (simp add: redact_not_redactable)
  have "list_all (\<lambda>e. \<not> reveals m n e) (map ?r es)" for es
    using not_redactable_hides [OF no] by (simp add: list_all_iff del: set_map) (metis (no_types, lifting) imageE list.set_map)
  moreover have "filter (redactable m n) (map ?r es) = []" "map ?r (map ?r es) = map ?r es" for es
    using no redact_not_redactable by (auto simp add: filter_empty_conv)
  ultimately show ?thesis
    by (simp add: redactMemoryContent_def list_all2_conv_all_nth del: map_map)
qed

lemma query_all_of: "log_query (all_of m) s = of_motebit m s"
  by (simp add: log_query_def all_of_def when_given_def of_motebit_def)

text \<open>The events a replay hands to its handler: all of the motebit's, in clock order.\<close>

lemma replay_in_clock_order:
  "\<exists>es. (\<forall>handler h. store_replay InMemoryEventStore m handler h s = foldl handler h es)
    \<and> mset es = mset (of_motebit m s) \<and> sorted (map ev_version_clock es)"
  by (rule exI [of _ "js_sort (\<lambda>a b. ev_version_clock a - ev_version_clock b) (of_motebit m s)"])
     (use by_key_asc.sorted_js_sort [of ev_version_clock "of_motebit m s"] in
       \<open>simp add: store_replay_def InMemoryEventStore_def query_all_of sorted_map\<close>)

end
