(* ===== verification/Merkle.thy ===== *)
theory Merkle
  imports Prelude "HOL-Library.Word"
begin

text \<open>
  Merkle trees: the builder and prover of \<open>packages/encryption/src/merkle.ts\<close> and the offline verifier of
  \<open>packages/crypto/src/merkle.ts\<close>. A byte is an 8-bit word, hashes travel as hexadecimal strings, SHA-256 is a
  parameter. Proofs made by the prover are accepted; the two verifiers are one function; under
  the tagged version a leaf that is accepted, with whatever siblings and layer sizes, was in the tree,
  or the two runs together show two different inputs with the same hash.
\<close>

type_synonym byte = "8 word"
type_synonym hash_fun = "byte list \<Rightarrow> byte list"

subsection \<open>Bytes and hexadecimal\<close>

definition byteHex :: "byte \<Rightarrow> string" where
  "byteHex b = pad_start 2 CHR ''0'' (to_hex (unat b))"

definition toHex :: "byte list \<Rightarrow> string" where
  "toHex bytes = js_join [] (map byteHex bytes)"

text \<open>\<open>parseInt(s, 16)\<close>; \<open>None\<close> is NaN. Leading white space, a sign and a \<open>0x\<close> prefix are skipped.\<close>

definition js_space :: "char \<Rightarrow> bool" where
  "js_space c \<longleftrightarrow> (of_char c :: nat) \<in> {9, 10, 11, 12, 13, 32, 160}"

definition parse_digits :: "string \<Rightarrow> int option" where
  "parse_digits s = (let ds = takeWhile (\<lambda>c. hex_val c \<noteq> None) s in if ds = [] then None else Some (int (hex_value ds)))"

definition strip_0x :: "string \<Rightarrow> string" where
  "strip_0x s = (if take 2 s = ''0x'' \<or> take 2 s = ''0X'' then drop 2 s else s)"

definition parseInt16 :: "string \<Rightarrow> int option" where
  "parseInt16 s =
     (let t = dropWhile js_space s in
      if take 1 t = ''-'' then map_option uminus (parse_digits (strip_0x (drop 1 t)))
      else if take 1 t = ''+'' then parse_digits (strip_0x (drop 1 t))
      else parse_digits (strip_0x t))"

definition toUint8 :: "int option \<Rightarrow> byte" where
  \<comment> \<open>what a \<open>Uint8Array\<close> stores: NaN is 0, integers wrap\<close>
  "toUint8 n = (case n of None \<Rightarrow> 0 | Some i \<Rightarrow> word_of_int i)"

fun fromHex :: "string \<Rightarrow> byte list" where
  \<comment> \<open>the array has \<open>length / 2\<close> elements, rounded down; a write past its end is ignored\<close>
  "fromHex [] = []"
| "fromHex [c] = []"
| "fromHex (c # d # s) = toUint8 (parseInt16 [c, d]) # fromHex s"

lemma to_hex_byte: "n < 256 \<Longrightarrow> pad_start 2 CHR ''0'' (to_hex n) = [hex_digit (n div 16), hex_digit (n mod 16)]"
proof -
  assume n: "n < 256"
  have z: "hex_digit 0 = CHR ''0''" by (simp add: hex_digit_def hex_chars_def)
  show ?thesis
  proof (cases "n < 16")
    case True
    then show ?thesis using z by (simp add: to_hex.simps [of n] pad_start_def)
  next
    case False
    moreover have "n div 16 < 16" using n by simp
    ultimately show ?thesis by (simp add: to_hex.simps [of n] to_hex.simps [of "n div 16"] pad_start_def)
  qed
qed

lemma hex_digit_plain:
  assumes "n < 16"
  shows "\<not> js_space (hex_digit n) \<and> hex_digit n \<noteq> CHR ''-'' \<and> hex_digit n \<noteq> CHR ''+'' \<and> hex_digit n \<noteq> CHR ''x'' \<and> hex_digit n \<noteq> CHR ''X''"
proof -
  have "list_all (\<lambda>n. \<not> js_space (hex_digit n) \<and> hex_digit n \<noteq> CHR ''-'' \<and> hex_digit n \<noteq> CHR ''+''
      \<and> hex_digit n \<noteq> CHR ''x'' \<and> hex_digit n \<noteq> CHR ''X'') [0..<16]"
    by code_simp
  then show ?thesis using assms by (simp add: list_all_iff)
qed

lemma parseInt16_digits:
  assumes "m < 16" and "n < 16"
  shows "parseInt16 [hex_digit m, hex_digit n] = Some (int (16 * m + n))"
proof -
  note p = hex_digit_plain [OF assms(1)] hex_digit_plain [OF assms(2)]
  have "strip_0x [hex_digit m, hex_digit n] = [hex_digit m, hex_digit n]"
    using p by (simp add: strip_0x_def)
  moreover have "parse_digits [hex_digit m, hex_digit n] = Some (int (16 * m + n))"
    using assms by (simp add: parse_digits_def hex_value_def Let_def)
  ultimately show ?thesis using p
    by (simp add: parseInt16_def Let_def)
qed

lemma fromHex_byteHex: "fromHex (byteHex b @ s) = b # fromHex s"
proof -
  have "unat b < 2 ^ LENGTH(8)" by (rule unsigned_less)
  then have "unat b < 256" by simp
  then show ?thesis
    by (simp add: byteHex_def to_hex_byte parseInt16_digits toUint8_def)
qed

lemma toHex_Cons: "toHex (b # bs) = byteHex b @ toHex bs"
  by (cases bs) (simp_all add: toHex_def)

text \<open>The round trip of the encoding.\<close>

lemma fromHex_toHex [simp]: "fromHex (toHex bs) = bs"
proof (induction bs)
  case Nil
  then show ?case by (simp add: toHex_def)
next
  case (Cons b bs)
  then show ?case by (simp add: toHex_Cons fromHex_byteHex)
qed

lemma toHex_inj [simp]: "toHex a = toHex b \<longleftrightarrow> a = b"
  by (metis fromHex_toHex)

subsection \<open>Versions and leaves\<close>

text \<open>A version string: the two registered ones, or any other.\<close>

datatype tree_version = PlainV1 | Rfc6962V2 | OtherVersion string

datatype merkle_error = UnsupportedVersion string | EmptyLeafSet | LeafIndexOutOfRange int

definition NODE_TAG_V2 :: "byte list" where
  "NODE_TAG_V2 = [1]"

definition LEAF_TAG_V2 :: "byte list" where
  "LEAF_TAG_V2 = [0]"

definition hashLeaf :: "hash_fun \<Rightarrow> byte list \<Rightarrow> tree_version \<Rightarrow> merkle_error + string" where
  "hashLeaf sha256 entry v =
     (case v of PlainV1 \<Rightarrow> Inr (toHex (sha256 entry))
      | Rfc6962V2 \<Rightarrow> Inr (toHex (sha256 (LEAF_TAG_V2 @ entry)))
      | OtherVersion s \<Rightarrow> Inl (UnsupportedVersion s))"

definition canonicalLeaf :: "hash_fun \<Rightarrow> ('v \<Rightarrow> byte list) \<Rightarrow> 'v \<Rightarrow> tree_version \<Rightarrow> merkle_error + string" where
  \<comment> \<open>\<open>canonical\<close> is the encoding of \<open>canonicalJson\<close>, of another module\<close>
  "canonicalLeaf sha256 canonical v ver = hashLeaf sha256 (canonical v) ver"

definition resolveTreeHashVersion :: "string option \<Rightarrow> tree_version option" where
  "resolveTreeHashVersion raw =
     (case raw of None \<Rightarrow> Some PlainV1
      | Some s \<Rightarrow> if s = ''merkle-sha256-plain-v1'' then Some PlainV1
                  else if s = ''merkle-sha256-rfc6962-v2'' then Some Rfc6962V2 else None)"

definition nodeTagFor :: "tree_version \<Rightarrow> merkle_error + byte list option" where
  "nodeTagFor v = (case v of PlainV1 \<Rightarrow> Inr None | Rfc6962V2 \<Rightarrow> Inr (Some NODE_TAG_V2)
     | OtherVersion s \<Rightarrow> Inl (UnsupportedVersion s))"

subsection \<open>Building a tree and a proof\<close>

record merkle_tree =
  mt_root :: string
  mt_leaves :: "string list"
  mt_layers :: "string list list"

record merkle_proof =
  mp_leaf :: string
  mp_index :: int
  mp_siblings :: "string list"
  mp_layerSizes :: "int list"

definition node_input :: "byte list option \<Rightarrow> byte list \<Rightarrow> byte list \<Rightarrow> byte list" where
  \<comment> \<open>\<open>nodeTag ? concat3(nodeTag, left, right) : concat(left, right)\<close>\<close>
  "node_input tag l r = (case tag of Some t \<Rightarrow> t @ l @ r | None \<Rightarrow> l @ r)"

fun next_layer :: "hash_fun \<Rightarrow> byte list option \<Rightarrow> string list \<Rightarrow> string list" where
  "next_layer sha256 tag [] = []"
| "next_layer sha256 tag [x] = [x]"
| "next_layer sha256 tag (x # y # rest) =
     toHex (sha256 (node_input tag (fromHex x) (fromHex y))) # next_layer sha256 tag rest"

lemma length_next_layer [simp]: "length (next_layer sha256 tag xs) = (length xs + 1) div 2"
  by (induction sha256 tag xs rule: next_layer.induct) auto

function build_layers :: "hash_fun \<Rightarrow> byte list option \<Rightarrow> string list \<Rightarrow> string list list" where
  "build_layers sha256 tag current =
     (if length current > 1 then current # build_layers sha256 tag (next_layer sha256 tag current) else [current])"
  by pat_completeness auto
termination
  by (relation "measure (\<lambda>(_, _, c). length c)") auto

declare build_layers.simps [simp del]

definition buildMerkleTree :: "hash_fun \<Rightarrow> string list \<Rightarrow> tree_version \<Rightarrow> merkle_error + merkle_tree" where
  "buildMerkleTree sha256 leaves v =
     (if leaves = [] then Inl EmptyLeafSet
      else case nodeTagFor v of Inl e \<Rightarrow> Inl e
      | Inr tag \<Rightarrow>
          (let layers = build_layers sha256 tag leaves
           in Inr \<lparr> mt_root = last layers ! 0, mt_leaves = leaves, mt_layers = layers \<rparr>))"

definition sibling_pos :: "int \<Rightarrow> int" where
  "sibling_pos idx = (if idx mod 2 = 0 then idx + 1 else idx - 1)"

fun proof_walk :: "string list list \<Rightarrow> int \<Rightarrow> string list \<times> int list" where
  \<comment> \<open>the loop over all layers but the last\<close>
  "proof_walk [] idx = ([], [])"
| "proof_walk [root] idx = ([], [])"
| "proof_walk (level # l # rest) idx =
     (let siblingIdx = sibling_pos idx;
          (siblings, sizes) = proof_walk (l # rest) (idx div 2)
      in (if 0 \<le> siblingIdx \<and> siblingIdx < int (length level) then level ! nat siblingIdx # siblings else siblings,
          int (length level) # sizes))"

definition getMerkleProof :: "merkle_tree \<Rightarrow> int \<Rightarrow> merkle_error + merkle_proof" where
  "getMerkleProof tree leafIndex =
     (if leafIndex < 0 \<or> leafIndex \<ge> int (length (mt_leaves tree)) then Inl (LeafIndexOutOfRange leafIndex)
      else (let (siblings, sizes) = proof_walk (mt_layers tree) leafIndex
            in Inr \<lparr> mp_leaf = mt_leaves tree ! nat leafIndex, mp_index = leafIndex,
                     mp_siblings = siblings, mp_layerSizes = sizes \<rparr>))"

subsection \<open>Verifying a proof\<close>

text \<open>The loop of the verifiers; \<open>None\<close> is the early return of \<open>false\<close> when the siblings run out.\<close>

fun proof_loop :: "hash_fun \<Rightarrow> byte list option \<Rightarrow> int list \<Rightarrow> int \<Rightarrow> string list \<Rightarrow> byte list \<Rightarrow> byte list option" where
  "proof_loop sha256 tag [] idx siblings current = Some current"
| "proof_loop sha256 tag (layerSize # sizes) idx siblings current =
     (let siblingPos = sibling_pos idx;
          hasSibling = 0 \<le> siblingPos \<and> siblingPos < layerSize
      in if hasSibling
         then (case siblings of
                 [] \<Rightarrow> None
               | sib # rest \<Rightarrow>
                   (let siblingBytes = fromHex sib;
                        left = (if idx mod 2 = 0 then current else siblingBytes);
                        right = (if idx mod 2 = 0 then siblingBytes else current)
                    in proof_loop sha256 tag sizes (idx div 2) rest (sha256 (node_input tag left right))))
         else proof_loop sha256 tag sizes (idx div 2) siblings current)"

definition version_tag :: "tree_version \<Rightarrow> byte list option" where
  "version_tag v = (if v = Rfc6962V2 then Some NODE_TAG_V2 else None)"

definition verifyMerkleProof :: "hash_fun \<Rightarrow> merkle_proof \<Rightarrow> string \<Rightarrow> tree_version \<Rightarrow> bool" where
  "verifyMerkleProof sha256 p expectedRoot v =
     (if v \<noteq> PlainV1 \<and> v \<noteq> Rfc6962V2 then False
      else case proof_loop sha256 (version_tag v) (mp_layerSizes p) (mp_index p) (mp_siblings p) (fromHex (mp_leaf p)) of
             None \<Rightarrow> False | Some current \<Rightarrow> toHex current = expectedRoot)"

text \<open>
  The offline verifier, with the position in the sibling array as the code keeps it. Its \<open>try\<close> blocks never
  catch anything: \<open>fromHex\<close> does not throw.
\<close>

fun inclusion_loop :: "hash_fun \<Rightarrow> byte list option \<Rightarrow> string list \<Rightarrow> int list \<Rightarrow> int \<Rightarrow> nat \<Rightarrow> byte list \<Rightarrow> byte list option" where
  "inclusion_loop sha256 tag siblings [] idx sibIdx current = Some current"
| "inclusion_loop sha256 tag siblings (layerSize # sizes) idx sibIdx current =
     (if 0 \<le> sibling_pos idx \<and> sibling_pos idx < layerSize
      then (if sibIdx \<ge> length siblings then None
            else (let siblingBytes = fromHex (siblings ! sibIdx);
                      left = (if idx mod 2 = 0 then current else siblingBytes);
                      right = (if idx mod 2 = 0 then siblingBytes else current)
                  in inclusion_loop sha256 tag siblings sizes (idx div 2) (sibIdx + 1) (sha256 (node_input tag left right))))
      else inclusion_loop sha256 tag siblings sizes (idx div 2) sibIdx current)"

definition verifyMerkleInclusion :: "hash_fun \<Rightarrow> string \<Rightarrow> int \<Rightarrow> string list \<Rightarrow> int list \<Rightarrow> string \<Rightarrow> tree_version \<Rightarrow> bool" where
  "verifyMerkleInclusion sha256 leaf index siblings layerSizes expectedRoot v =
     (if v \<noteq> PlainV1 \<and> v \<noteq> Rfc6962V2 then False
      else case inclusion_loop sha256 (version_tag v) siblings layerSizes index 0 (fromHex leaf) of
             None \<Rightarrow> False | Some current \<Rightarrow> toHex current = expectedRoot)"

lemma inclusion_loop_eq:
  "inclusion_loop sha256 tag siblings sizes idx k current = proof_loop sha256 tag sizes idx (drop k siblings) current"
proof (induction sizes arbitrary: idx k current)
  case (Cons n sizes)
  then show ?case
    by (cases "k < length siblings") (simp_all add: Let_def Cons_nth_drop_Suc [symmetric])
qed simp

lemma verifiers_agree:
  "verifyMerkleInclusion sha256 (mp_leaf p) (mp_index p) (mp_siblings p) (mp_layerSizes p) root v = verifyMerkleProof sha256 p root v"
  by (simp add: verifyMerkleInclusion_def verifyMerkleProof_def inclusion_loop_eq)

subsection \<open>Proofs of the prover are accepted\<close>

lemma next_layer_nth:
  assumes "i < length xs"
  shows "next_layer sha256 tag xs ! (i div 2) =
    (if even i then (if i + 1 < length xs then toHex (sha256 (node_input tag (fromHex (xs ! i)) (fromHex (xs ! (i + 1))))) else xs ! i)
     else toHex (sha256 (node_input tag (fromHex (xs ! (i - 1))) (fromHex (xs ! i)))))"
  using assms
proof (induction sha256 tag xs arbitrary: i rule: next_layer.induct)
  case (3 sha256 tag x y rest)
  show ?case
  proof (cases "i < 2")
    case True
    then have "i = 0 \<or> i = 1" by linarith
    then show ?thesis by auto
  next
    case False
    then obtain j where j: "i = Suc (Suc j)" by (metis add_2_eq_Suc le_Suc_ex not_less)
    then show ?thesis using "3.IH" [of j] "3.prems" by (cases j) auto
  qed
qed auto

lemma sibling_pos_nat:
  "sibling_pos (int i) = (if even i then int (i + 1) else int (i - 1))"
proof -
  have "int i mod 2 = 0 \<longleftrightarrow> even i" by presburger
  moreover have "odd i \<Longrightarrow> int (i - 1) = int i - 1" by (cases i) auto
  ultimately show ?thesis by (simp add: sibling_pos_def)
qed

lemma layers_hex:
  "list_all (\<lambda>x. \<exists>b. x = toHex b) xs \<Longrightarrow> list_all (\<lambda>x. \<exists>b. x = toHex b) (next_layer sha256 tag xs)"
  by (induction sha256 tag xs rule: next_layer.induct) auto

lemma proof_walk_Cons:
  "rest \<noteq> [] \<Longrightarrow> proof_walk (level # rest) idx =
     (let (siblings, sizes) = proof_walk rest (idx div 2)
      in (if 0 \<le> sibling_pos idx \<and> sibling_pos idx < int (length level) then level ! nat (sibling_pos idx) # siblings else siblings,
          int (length level) # sizes))"
  by (cases rest) (simp_all add: Let_def)

lemma build_layers_not_Nil [simp]: "build_layers sha256 tag xs \<noteq> []"
  by (simp add: build_layers.simps [of _ _ xs])

lemma proof_loop_accepts:
  assumes "list_all (\<lambda>x. \<exists>b. x = toHex b) xs" and "i < length xs"
  shows "case proof_walk (build_layers sha256 tag xs) (int i) of (siblings, sizes) \<Rightarrow>
    map_option toHex (proof_loop sha256 tag sizes (int i) siblings (fromHex (xs ! i))) = Some (last (build_layers sha256 tag xs) ! 0)"
  using assms
proof (induction sha256 tag xs arbitrary: i rule: build_layers.induct)
  case (1 sha256 tag xs)
  have hex: "toHex (fromHex (xs ! j)) = xs ! j" if "j < length xs" for j
    using "1.prems"(1) that by (force simp add: list_all_length)
  show ?case
  proof (cases "length xs > 1")
    case False
    then have "i = 0" "build_layers sha256 tag xs = [xs]"
      using "1.prems"(2) by (simp_all add: build_layers.simps [of _ _ xs])
    then show ?thesis using hex "1.prems"(2) by simp
  next
    case True
    let ?ys = "next_layer sha256 tag xs"
    have layers: "build_layers sha256 tag xs = xs # build_layers sha256 tag ?ys"
      using True by (simp add: build_layers.simps [of _ _ xs])
    have "i div 2 < length ?ys" using "1.prems"(2) by simp
    then have IH: "case proof_walk (build_layers sha256 tag ?ys) (int (i div 2)) of (siblings, sizes) \<Rightarrow>
        map_option toHex (proof_loop sha256 tag sizes (int (i div 2)) siblings (fromHex (?ys ! (i div 2))))
          = Some (last (build_layers sha256 tag ?ys) ! 0)"
      using "1.IH" [OF True layers_hex [OF "1.prems"(1)]] by simp
    obtain sibs sizes where w: "proof_walk (build_layers sha256 tag ?ys) (int (i div 2)) = (sibs, sizes)"
      by (metis surj_pair)
    have div: "int i div 2 = int (i div 2)" by simp
    have par: "int i mod 2 = 0 \<longleftrightarrow> even i" by presburger
    show ?thesis using IH w True "1.prems"(2) next_layer_nth [OF "1.prems"(2), of sha256 tag]
      by (auto simp add: layers proof_walk_Cons Let_def div par sibling_pos_nat nat_diff_distrib odd_pos
          split: if_splits simp del: of_nat_add of_nat_Suc zdiv_int)
  qed
qed

subsection \<open>Soundness of the tagged version\<close>

text \<open>What the builder and a verification hash, as lists of inputs.\<close>

fun layer_inputs :: "byte list option \<Rightarrow> string list \<Rightarrow> byte list list" where
  "layer_inputs tag (x # y # rest) = node_input tag (fromHex x) (fromHex y) # layer_inputs tag rest"
| "layer_inputs tag _ = []"

definition built_inputs :: "merkle_tree \<Rightarrow> byte list list \<Rightarrow> byte list list" where
  "built_inputs tree entries = map ((@) LEAF_TAG_V2) entries @ concat (map (layer_inputs (Some NODE_TAG_V2)) (mt_layers tree))"

fun proof_inputs :: "hash_fun \<Rightarrow> byte list option \<Rightarrow> int list \<Rightarrow> int \<Rightarrow> string list \<Rightarrow> byte list \<Rightarrow> byte list list" where
  "proof_inputs sha256 tag [] idx siblings current = []"
| "proof_inputs sha256 tag (layerSize # sizes) idx siblings current =
     (if 0 \<le> sibling_pos idx \<and> sibling_pos idx < layerSize
      then (case siblings of
              [] \<Rightarrow> []
            | sib # rest \<Rightarrow>
                (let i = (if idx mod 2 = 0 then node_input tag current (fromHex sib) else node_input tag (fromHex sib) current)
                 in i # proof_inputs sha256 tag sizes (idx div 2) rest (sha256 i)))
      else proof_inputs sha256 tag sizes (idx div 2) siblings current)"

definition verified_inputs :: "hash_fun \<Rightarrow> byte list \<Rightarrow> int \<Rightarrow> string list \<Rightarrow> int list \<Rightarrow> byte list list" where
  "verified_inputs sha256 entry index siblings layerSizes =
     (LEAF_TAG_V2 @ entry) # proof_inputs sha256 (Some NODE_TAG_V2) layerSizes index siblings (sha256 (LEAF_TAG_V2 @ entry))"

definition collision :: "hash_fun \<Rightarrow> byte list set \<Rightarrow> byte list set \<Rightarrow> bool" where
  "collision sha256 X Y \<longleftrightarrow> (\<exists>x \<in> X. \<exists>y \<in> Y. x \<noteq> y \<and> sha256 x = sha256 y)"

text \<open>The tree the hashes stand for.\<close>

datatype htree = HLeaf "byte list" | HNode htree htree

fun tree_input :: "hash_fun \<Rightarrow> htree \<Rightarrow> byte list" where
  "tree_input sha256 (HLeaf e) = 0 # e"
| "tree_input sha256 (HNode l r) = 1 # sha256 (tree_input sha256 l) @ sha256 (tree_input sha256 r)"

fun subtrees :: "htree \<Rightarrow> htree set" where
  "subtrees (HLeaf e) = {HLeaf e}"
| "subtrees (HNode l r) = insert (HNode l r) (subtrees l \<union> subtrees r)"

fun pair_up :: "htree list \<Rightarrow> htree list" where
  "pair_up (x # y # rest) = HNode x y # pair_up rest"
| "pair_up ts = ts"

definition hash_hex :: "hash_fun \<Rightarrow> htree \<Rightarrow> string" where
  "hash_hex sha256 t = toHex (sha256 (tree_input sha256 t))"

lemma self_subtree [simp]: "t \<in> subtrees t"
  by (cases t) auto

lemma subtree_trans: "t' \<in> subtrees t \<Longrightarrow> u \<in> subtrees t' \<Longrightarrow> u \<in> subtrees t"
  by (induction t) auto

lemma next_layer_pair_up:
  "next_layer sha256 (Some NODE_TAG_V2) (map (hash_hex sha256) ts) = map (hash_hex sha256) (pair_up ts)"
  by (induction ts rule: pair_up.induct) (simp_all add: hash_hex_def node_input_def NODE_TAG_V2_def)

lemma pair_up_subtrees:
  "(\<Union>t \<in> set (pair_up ts). tree_input sha256 ` subtrees t)
    = (\<Union>t \<in> set ts. tree_input sha256 ` subtrees t) \<union> set (layer_inputs (Some NODE_TAG_V2) (map (hash_hex sha256) ts))"
  by (induction ts rule: pair_up.induct) (auto simp add: hash_hex_def node_input_def NODE_TAG_V2_def)

lemma pair_up_leaves: "(\<Union>t \<in> set (pair_up ts). {e. HLeaf e \<in> subtrees t}) = (\<Union>t \<in> set ts. {e. HLeaf e \<in> subtrees t})"
  by (induction ts rule: pair_up.induct) auto

lemma root_tree:
  assumes "xs = map (hash_hex sha256) ts" and "ts \<noteq> []" and "tag = Some NODE_TAG_V2"
  shows "\<exists>t. last (build_layers sha256 tag xs) ! 0 = hash_hex sha256 t
    \<and> {e. HLeaf e \<in> subtrees t} = (\<Union>u \<in> set ts. {e. HLeaf e \<in> subtrees u})
    \<and> tree_input sha256 ` subtrees t
      = (\<Union>u \<in> set ts. tree_input sha256 ` subtrees u) \<union> set (concat (map (layer_inputs tag) (build_layers sha256 tag xs)))"
  using assms
proof (induction sha256 tag xs arbitrary: ts rule: build_layers.induct)
  case (1 sha256 tag xs)
  show ?case
  proof (cases "length xs > 1")
    case False
    then obtain t where "ts = [t]" using "1.prems" by (cases ts rule: pair_up.cases) auto
    moreover have "build_layers sha256 tag xs = [xs]" using False by (simp add: build_layers.simps [of _ _ xs])
    ultimately show ?thesis using "1.prems" by (intro exI [of _ t]) simp
  next
    case True
    have "pair_up ts \<noteq> []" using "1.prems"(2) by (cases ts rule: pair_up.cases) auto
    with "1.IH" [OF True, of "pair_up ts"] "1.prems" obtain t
      where "last (build_layers sha256 tag (next_layer sha256 tag xs)) ! 0 = hash_hex sha256 t"
        "{e. HLeaf e \<in> subtrees t} = (\<Union>u \<in> set ts. {e. HLeaf e \<in> subtrees u})"
        "tree_input sha256 ` subtrees t = (\<Union>u \<in> set ts. tree_input sha256 ` subtrees u)
          \<union> set (layer_inputs tag xs) \<union> set (concat (map (layer_inputs tag) (build_layers sha256 tag (next_layer sha256 tag xs))))"
      by (auto simp add: next_layer_pair_up pair_up_leaves pair_up_subtrees)
    moreover have "build_layers sha256 tag xs = xs # build_layers sha256 tag (next_layer sha256 tag xs)"
      using True by (simp add: build_layers.simps [of _ _ xs])
    ultimately show ?thesis by (intro exI [of _ t]) auto
  qed
qed

text \<open>A verification that ends in the hash of a tree started from the hash of one of its subtrees.\<close>

lemma proof_loop_sound:
  assumes "proof_loop sha256 (Some NODE_TAG_V2) sizes idx siblings c = Some (sha256 (tree_input sha256 t))"
    and "length c = 32" and len: "\<And>x. length (sha256 x) = 32"
  shows "(\<exists>u \<in> subtrees t. c = sha256 (tree_input sha256 u))
    \<or> collision sha256 (set (proof_inputs sha256 (Some NODE_TAG_V2) sizes idx siblings c)) (tree_input sha256 ` subtrees t)"
  using assms(1,2)
proof (induction sizes arbitrary: idx siblings c)
  case Nil
  then show ?case by (auto intro: bexI [of _ t])
next
  case (Cons n sizes)
  show ?case
  proof (cases "0 \<le> sibling_pos idx \<and> sibling_pos idx < n")
    case False
    then have "proof_inputs sha256 (Some NODE_TAG_V2) (n # sizes) idx siblings c
        = proof_inputs sha256 (Some NODE_TAG_V2) sizes (idx div 2) siblings c" by auto
    moreover have "proof_loop sha256 (Some NODE_TAG_V2) sizes (idx div 2) siblings c = Some (sha256 (tree_input sha256 t))"
      using Cons.prems(1) False by (simp add: Let_def split: if_splits)
    ultimately show ?thesis using Cons.IH [of "idx div 2" siblings c] Cons.prems(2) by (simp only:)
  next
    case True
    then obtain sib rest where sibs: "siblings = sib # rest" using Cons.prems by (cases siblings) auto
    define i where "i = (if idx mod 2 = 0 then node_input (Some NODE_TAG_V2) c (fromHex sib) else node_input (Some NODE_TAG_V2) (fromHex sib) c)"
    have inputs: "proof_inputs sha256 (Some NODE_TAG_V2) (n # sizes) idx siblings c
        = i # proof_inputs sha256 (Some NODE_TAG_V2) sizes (idx div 2) rest (sha256 i)"
      using True sibs by (simp add: i_def Let_def)
    have "proof_loop sha256 (Some NODE_TAG_V2) sizes (idx div 2) rest (sha256 i) = Some (sha256 (tree_input sha256 t))"
      using Cons.prems(1) True sibs by (simp add: i_def Let_def split: if_splits)
    from Cons.IH [OF this len] show ?thesis
    proof
      assume "\<exists>u \<in> subtrees t. sha256 i = sha256 (tree_input sha256 u)"
      then obtain u where u: "u \<in> subtrees t" "sha256 i = sha256 (tree_input sha256 u)" by blast
      show ?thesis
      proof (cases "i = tree_input sha256 u")
        case False
        then have "collision sha256 {i} (tree_input sha256 ` subtrees t)" using u by (auto simp add: collision_def)
        then show ?thesis unfolding inputs by (auto simp add: collision_def)
      next
        case True
        then obtain l r where lr: "u = HNode l r" "i = 1 # sha256 (tree_input sha256 l) @ sha256 (tree_input sha256 r)"
          by (cases u) (auto simp add: i_def node_input_def NODE_TAG_V2_def split: if_splits)
        then have "c = sha256 (tree_input sha256 l) \<or> c = sha256 (tree_input sha256 r)"
          using Cons.prems(2) len append_eq_append_conv [of c "sha256 (tree_input sha256 l)"]
            append_eq_append_conv [of "fromHex sib" "sha256 (tree_input sha256 l)" c "sha256 (tree_input sha256 r)"]
          by (auto simp add: i_def node_input_def NODE_TAG_V2_def split: if_splits)
        moreover have "l \<in> subtrees t" "r \<in> subtrees t" using u(1) lr(1) subtree_trans by (metis UnI1 UnI2 insertI2 self_subtree subtrees.simps(2))+
        ultimately show ?thesis by blast
      qed
    next
      assume "collision sha256 (set (proof_inputs sha256 (Some NODE_TAG_V2) sizes (idx div 2) rest (sha256 i))) (tree_input sha256 ` subtrees t)"
      then show ?thesis unfolding inputs by (auto simp add: collision_def)
    qed
  qed
qed

subsection \<open>Properties\<close>

text \<open>
  (C20) Completeness: for any non-empty list of hashes and any registered version the tree is built, every leaf
  has a proof, and both verifiers accept that proof against the root.
\<close>

lemma merkle_proofs_verify:
  assumes "i < length hs" and "v = PlainV1 \<or> v = Rfc6962V2"
  shows "\<exists>tree p. buildMerkleTree sha256 (map toHex hs) v = Inr tree \<and> getMerkleProof tree (int i) = Inr p
    \<and> mp_leaf p = toHex (hs ! i) \<and> verifyMerkleProof sha256 p (mt_root tree) v
    \<and> verifyMerkleInclusion sha256 (toHex (hs ! i)) (int i) (mp_siblings p) (mp_layerSizes p) (mt_root tree) v"
proof -
  let ?xs = "map toHex hs" and ?tag = "version_tag v"
  let ?layers = "build_layers sha256 ?tag ?xs"
  obtain sibs sizes where w: "proof_walk ?layers (int i) = (sibs, sizes)" by (metis surj_pair)
  define tree where "tree = \<lparr> mt_root = last ?layers ! 0, mt_leaves = ?xs, mt_layers = ?layers \<rparr>"
  define p where "p = \<lparr> mp_leaf = ?xs ! i, mp_index = int i, mp_siblings = sibs, mp_layerSizes = sizes \<rparr>"
  have "buildMerkleTree sha256 ?xs v = Inr tree"
    using assms by (auto simp add: buildMerkleTree_def nodeTagFor_def version_tag_def tree_def Let_def)
  moreover have "getMerkleProof tree (int i) = Inr p"
    using assms(1) w by (simp add: getMerkleProof_def tree_def p_def)
  moreover have "list_all (\<lambda>x. \<exists>b. x = toHex b) ?xs" by (auto simp add: list_all_iff)
  then have "map_option toHex (proof_loop sha256 ?tag sizes (int i) sibs (fromHex (?xs ! i))) = Some (last ?layers ! 0)"
    using proof_loop_accepts [of ?xs i sha256 ?tag] assms(1) w by simp
  then have "verifyMerkleProof sha256 p (mt_root tree) v"
    using assms(2) by (auto simp add: verifyMerkleProof_def p_def tree_def)
  moreover have "mp_leaf p = toHex (hs ! i)" "mp_index p = int i" using assms(1) by (simp_all add: p_def)
  ultimately show ?thesis using verifiers_agree [of sha256 p "mt_root tree" v] by auto
qed

definition demo_hash :: hash_fun where
  \<comment> \<open>a stand-in of the right width\<close>
  "demo_hash bs = take 32 (bs @ replicate 32 0)"

lemma merkle_proofs_verify_witness:
  "\<exists>tree p. buildMerkleTree demo_hash (map toHex [[1], [2], [3]]) Rfc6962V2 = Inr tree \<and> getMerkleProof tree 2 = Inr p
    \<and> verifyMerkleProof demo_hash p (mt_root tree) Rfc6962V2"
  using merkle_proofs_verify [of 2 "[[1], [2], [3]]" Rfc6962V2 demo_hash] by auto

text \<open>
  (C19) Soundness of the tagged tree hash: when the leaf of an entry is accepted against the root of a tree, with
  whatever index, siblings and layer sizes the proof claims, the entry is one of those the tree was built from,
  or the inputs hashed by the verifier and by the builder hold two different ones with the same hash.
  The hash function is only known to return 32 bytes.
\<close>

lemma tagged_proofs_are_sound:
  assumes "\<And>x. length (sha256 x) = 32"
    and "buildMerkleTree sha256 (map (\<lambda>e. toHex (sha256 (LEAF_TAG_V2 @ e))) entries) Rfc6962V2 = Inr tree"
    and "hashLeaf sha256 entry Rfc6962V2 = Inr leaf"
    and "verifyMerkleInclusion sha256 leaf index siblings layerSizes (mt_root tree) Rfc6962V2"
  shows "entry \<in> set entries
    \<or> collision sha256 (set (verified_inputs sha256 entry index siblings layerSizes)) (set (built_inputs tree entries))"
proof -
  let ?tag = "Some NODE_TAG_V2" and ?ts = "map HLeaf entries" and ?c = "sha256 (0 # entry)"
  let ?xs = "map (\<lambda>e. toHex (sha256 (LEAF_TAG_V2 @ e))) entries"
  have xs: "?xs = map (hash_hex sha256) ?ts" by (simp add: hash_hex_def LEAF_TAG_V2_def)
  have ne: "entries \<noteq> []" and root: "mt_root tree = last (mt_layers tree) ! 0" and layers: "mt_layers tree = build_layers sha256 ?tag ?xs"
    using assms(2) by (auto simp add: buildMerkleTree_def nodeTagFor_def Let_def split: if_splits)
  obtain t where t: "mt_root tree = hash_hex sha256 t" "{e. HLeaf e \<in> subtrees t} = set entries"
      and built: "tree_input sha256 ` subtrees t = set (built_inputs tree entries)"
    using root_tree [OF xs _ refl] ne root layers by (auto simp add: built_inputs_def LEAF_TAG_V2_def UNION_singleton_eq_range)
  have "proof_loop sha256 ?tag layerSizes index siblings ?c = Some (sha256 (tree_input sha256 t))"
    using assms(3,4) t(1) by (auto simp add: hashLeaf_def verifyMerkleInclusion_def inclusion_loop_eq version_tag_def
        LEAF_TAG_V2_def hash_hex_def split: option.splits)
  from proof_loop_sound [OF this assms(1) assms(1)]
  consider u where "u \<in> subtrees t" "?c = sha256 (tree_input sha256 u)"
    | "collision sha256 (set (proof_inputs sha256 ?tag layerSizes index siblings ?c)) (tree_input sha256 ` subtrees t)"
    by blast
  then show ?thesis
  proof cases
    case 1
    show ?thesis
    proof (cases "u = HLeaf entry")
      case True
      then show ?thesis using 1 t(2) by auto
    next
      case False
      then have "0 # entry \<noteq> tree_input sha256 u" by (cases u) auto
      then have "collision sha256 {0 # entry} (tree_input sha256 ` subtrees t)" using 1 by (auto simp add: collision_def)
      then show ?thesis using built by (auto simp add: collision_def verified_inputs_def LEAF_TAG_V2_def)
    qed
  next
    case 2
    then show ?thesis using built by (auto simp add: collision_def verified_inputs_def LEAF_TAG_V2_def)
  qed
qed

lemma tagged_proofs_are_sound_witness:
  "[7] \<in> set [[7::byte]] \<or> collision demo_hash (set (verified_inputs demo_hash [7] 0 [] []))
     (set (built_inputs \<lparr> mt_root = toHex (demo_hash [0, 7]), mt_leaves = [toHex (demo_hash [0, 7])],
        mt_layers = [[toHex (demo_hash [0, 7])]] \<rparr> [[7]]))"
proof (rule tagged_proofs_are_sound [where leaf = "toHex (demo_hash [0, 7])"])
  show "length (demo_hash x) = 32" for x by (simp add: demo_hash_def)
qed (simp_all add: buildMerkleTree_def nodeTagFor_def build_layers.simps LEAF_TAG_V2_def hashLeaf_def verifyMerkleInclusion_def)

text \<open>Without tags an interior node passes for a leaf: the entry that is the two hashes side by side.\<close>

lemma plain_interior_node_passes:
  assumes "\<And>x. length (sha256 x) = 32"
  shows "\<exists>tree leaf. buildMerkleTree sha256 [toHex (sha256 a), toHex (sha256 b)] PlainV1 = Inr tree
    \<and> hashLeaf sha256 (sha256 a @ sha256 b) PlainV1 = Inr leaf
    \<and> verifyMerkleInclusion sha256 leaf 0 [] [] (mt_root tree) PlainV1"
  by (simp add: buildMerkleTree_def nodeTagFor_def build_layers.simps node_input_def hashLeaf_def verifyMerkleInclusion_def
      version_tag_def)

end
