(* ===== verification/SqliteAccounts.thy ===== *)
theory SqliteAccounts
  imports Complex_Main Withdrawals
begin

text \<open>
  The production ledger, \<open>services/relay/src/account-store-sqlite.ts\<close>: the \<open>AccountStore\<close> over SQLite. A table is
  the list of its rows in order of insertion, a statement works on such lists, a broken constraint is a
  throw, and a transaction that throws leaves the database as it was. The clock, which stands still during a synchronous
  method, and the fresh UUIDs are arguments. The lemmas relate it to the reference store of \<open>Accounts\<close>: both answer every sequence of
  operations alike.
\<close>

subsection \<open>Tables\<close>

record ledger_row = account_transaction +
  tx_allocation_id :: "string option"
  tx_allocation_kind :: "string option"

record withdrawal_row = withdrawal_request +
  wr_idempotency_key :: "string option"
  wr_pre_claim_review :: bool

datatype queue_status = QPending | QRefundOwed | QRefunded | QOther string

record queue_row =
  q_pending_id :: string
  q_motebit_id :: string
  q_amount_micro :: int
  q_destination :: string
  q_rail :: string
  q_source :: pending_source
  q_enqueued_at :: int
  q_status :: queue_status
  q_idempotency_key :: "string option"
  q_last_attempt_at :: "int option"
  q_last_error :: "string option"

text \<open>The columns of other tables that the holds read.\<close>

record settlement_row =
  sr_motebit_id :: string
  sr_task_id :: string
  sr_status :: string
  sr_settlement_mode :: "string option"
  sr_settled_at :: int
  sr_amount_settled :: int

record dispute_row =
  dr_task_id :: string
  dr_state :: string

record allocation_row =
  al_motebit_id :: string
  al_status :: string
  al_amount_locked :: int

record registry_row =
  rg_motebit_id :: string
  rg_sweep :: sweep_config

text \<open>A table that may be absent is an option.\<close>

record sql_db =
  relay_accounts :: "virtual_account list"
  relay_transactions :: "ledger_row list"
  relay_withdrawals :: "withdrawal_row list"
  relay_pending_withdrawals :: "queue_row list"
  relay_settlements :: "settlement_row list option"
  relay_disputes :: "dispute_row list option"
  relay_allocations :: "allocation_row list"
  agent_registry :: "registry_row list option"

definition createAccountTables :: "settlement_row list option \<Rightarrow> dispute_row list option \<Rightarrow> registry_row list option \<Rightarrow> sql_db" where
  "createAccountTables settlements disputes registry =
     \<lparr> relay_accounts = [], relay_transactions = [], relay_withdrawals = [], relay_pending_withdrawals = [],
       relay_settlements = settlements, relay_disputes = disputes, relay_allocations = [], agent_registry = registry \<rparr>"

subsection \<open>Statements and guards\<close>

datatype sql_error = UniqueViolation | NotMicroUnits string | NotPositiveMicro | InvalidFromStatus withdrawal_status | VanishedRow

text \<open>\<open>UPDATE ... WHERE\<close>: the number of rows changed, and the table.\<close>

definition sql_update :: "('r \<Rightarrow> bool) \<Rightarrow> ('r \<Rightarrow> 'r) \<Rightarrow> 'r list \<Rightarrow> nat \<times> 'r list" where
  "sql_update P f rows = (length (filter P rows), map (\<lambda>r. if P r then f r else r) rows)"

text \<open>\<open>INSERT\<close> into a table with a primary key.\<close>

definition sql_insert :: "('r \<Rightarrow> 'k) \<Rightarrow> 'r \<Rightarrow> 'r list \<Rightarrow> sql_error + 'r list" where
  "sql_insert key r rows = (if key r \<in> key ` set rows then Inl UniqueViolation else Inr (rows @ [r]))"

definition openStatus :: "withdrawal_status \<Rightarrow> sql_error + withdrawal_status" where
  "openStatus from = (if from \<noteq> Pending \<and> from \<noteq> Processing then Inl (InvalidFromStatus from) else Inr from)"

definition assertMicroUnits :: "rat \<Rightarrow> string \<Rightarrow> sql_error + unit" where
  "assertMicroUnits amount context = (if amount \<noteq> of_int \<lfloor>amount\<rfloor> then Inl (NotMicroUnits context) else Inr ())"

lemma assertMicroUnits_int [simp]: "assertMicroUnits (of_int a) c = Inr ()"
  by (simp add: assertMicroUnits_def)

type_synonym allocation_stamp = "string \<times> string"

definition ledger_entry :: "string \<Rightarrow> string \<Rightarrow> transaction_type \<Rightarrow> int \<Rightarrow> int \<Rightarrow> string option \<Rightarrow> string option \<Rightarrow> int \<Rightarrow>
    allocation_stamp option \<Rightarrow> ledger_row" where
  "ledger_entry uuid m type amount balance referenceId description now stamp =
     \<lparr> tx_transaction_id = uuid, tx_motebit_id = m, tx_type = type, tx_amount = amount, tx_balance_after = balance,
       tx_reference_id = referenceId, tx_description = description, tx_created_at = now,
       tx_allocation_id = map_option fst stamp, tx_allocation_kind = map_option snd stamp \<rparr>"

subsection \<open>Accounts and the transaction ledger\<close>

definition sql_getAccount :: "sql_db \<Rightarrow> string \<Rightarrow> virtual_account option" where
  "sql_getAccount db m = find (\<lambda>r. acc_motebit_id r = m) (relay_accounts db)"

definition sql_getOrCreateAccount :: "int \<Rightarrow> sql_db \<Rightarrow> string \<Rightarrow> virtual_account \<times> sql_db" where
  \<comment> \<open>the insert cannot break the key: no row was found\<close>
  "sql_getOrCreateAccount now db m =
     (case find (\<lambda>r. acc_motebit_id r = m) (relay_accounts db) of
        Some existing \<Rightarrow> (existing, db)
      | None \<Rightarrow> (fresh_account m now, db\<lparr>relay_accounts := relay_accounts db @ [fresh_account m now]\<rparr>))"

definition sql_balance :: "sql_db \<Rightarrow> string \<Rightarrow> int" where
  \<comment> \<open>\<open>SELECT balance\<close>, then \<open>updated?.balance ?? 0\<close>\<close>
  "sql_balance db m = (case sql_getAccount db m of Some r \<Rightarrow> acc_balance r | None \<Rightarrow> 0)"

definition insert_ledger :: "sql_db \<Rightarrow> ledger_row \<Rightarrow> sql_error + sql_db" where
  "insert_ledger db row = (case sql_insert tx_transaction_id row (relay_transactions db) of
     Inl e \<Rightarrow> Inl e | Inr rows \<Rightarrow> Inr (db\<lparr>relay_transactions := rows\<rparr>))"

definition move_balance :: "int \<Rightarrow> (virtual_account \<Rightarrow> bool) \<Rightarrow> int \<Rightarrow> virtual_account list \<Rightarrow> nat \<times> virtual_account list" where
  \<comment> \<open>\<open>UPDATE relay_accounts SET balance = balance + delta, updated_at = now WHERE ...\<close>\<close>
  "move_balance now P delta = sql_update P (\<lambda>r. r\<lparr>acc_balance := acc_balance r + delta, acc_updated_at := now\<rparr>)"

definition sql_credit :: "int \<Rightarrow> string \<Rightarrow> sql_db \<Rightarrow> string \<Rightarrow> int \<Rightarrow> transaction_type \<Rightarrow> string option \<Rightarrow> string option \<Rightarrow>
    allocation_stamp option \<Rightarrow> sql_error + int \<times> sql_db" where
  "sql_credit now uuid db m amount type referenceId description stamp =
     (case assertMicroUnits (of_int amount) ''credit'' of Inl e \<Rightarrow> Inl e
      | Inr _ \<Rightarrow>
          (let (_, db) = sql_getOrCreateAccount now db m;
               (_, rows) = move_balance now (\<lambda>r. acc_motebit_id r = m) amount (relay_accounts db);
               db = db\<lparr>relay_accounts := rows\<rparr>;
               newBalance = sql_balance db m
           in case insert_ledger db (ledger_entry uuid m type amount newBalance referenceId description now stamp) of
                Inl e \<Rightarrow> Inl e
              | Inr db \<Rightarrow> Inr (newBalance, db)))"

definition guarded_debit :: "int \<Rightarrow> string \<Rightarrow> sql_db \<Rightarrow> string \<Rightarrow> int \<Rightarrow> int \<Rightarrow> transaction_type \<Rightarrow> string option \<Rightarrow> string option \<Rightarrow>
    allocation_stamp option \<Rightarrow> sql_error + int option \<times> sql_db" where
  \<comment> \<open>the update on \<open>balance >= needed\<close> and the ledger row, shared by the three debiting methods\<close>
  "guarded_debit now uuid db m amount needed type referenceId description stamp =
     (let (changes, rows) = move_balance now (\<lambda>r. acc_motebit_id r = m \<and> acc_balance r \<ge> needed) (- amount) (relay_accounts db)
      in if changes = 0 then Inr (None, db)
         else
           (let db = db\<lparr>relay_accounts := rows\<rparr>;
                newBalance = sql_balance db m
            in case insert_ledger db (ledger_entry uuid m type (- amount) newBalance referenceId description now stamp) of
                 Inl e \<Rightarrow> Inl e
               | Inr db \<Rightarrow> Inr (Some newBalance, db)))"

definition sql_debit :: "int \<Rightarrow> string \<Rightarrow> sql_db \<Rightarrow> string \<Rightarrow> int \<Rightarrow> transaction_type \<Rightarrow> string option \<Rightarrow> string option \<Rightarrow>
    allocation_stamp option \<Rightarrow> sql_error + int option \<times> sql_db" where
  "sql_debit now uuid db m amount type referenceId description stamp =
     (case assertMicroUnits (of_int amount) ''debit'' of Inl e \<Rightarrow> Inl e
      | Inr _ \<Rightarrow>
          (let (_, db) = sql_getOrCreateAccount now db m
           in guarded_debit now uuid db m amount amount type referenceId description stamp))"

definition DISPUTE_WINDOW_MS :: int where
  "DISPUTE_WINDOW_MS = 24 * 60 * 60 * 1000"

definition escrowed :: "int \<Rightarrow> string \<Rightarrow> dispute_row list \<Rightarrow> settlement_row \<Rightarrow> bool" where
  \<comment> \<open>the \<open>WHERE\<close> clause of the hold\<close>
  "escrowed cutoff m disputes s \<longleftrightarrow> sr_motebit_id s = m \<and> (sr_status s = ''completed'' \<or> sr_status s = ''partial'')
     \<and> (case sr_settlement_mode s of None \<Rightarrow> True | Some mode \<Rightarrow> mode = ''relay'')
     \<and> (sr_settled_at s > cutoff
        \<or> list_ex (\<lambda>d. dr_task_id d = sr_task_id s \<and> dr_state d \<noteq> ''final'' \<and> dr_state d \<noteq> ''expired'') disputes)"

definition sql_getUnwithdrawableHold :: "int \<Rightarrow> sql_db \<Rightarrow> string \<Rightarrow> int" where
  "sql_getUnwithdrawableHold now db m =
     (case (relay_settlements db, relay_disputes db) of
        (Some settlements, Some disputes) \<Rightarrow>
          sum_list (map sr_amount_settled (filter (escrowed (now - DISPUTE_WINDOW_MS) m disputes) settlements))
      | _ \<Rightarrow> 0)"

definition sql_debitSpendable :: "int \<Rightarrow> string \<Rightarrow> sql_db \<Rightarrow> string \<Rightarrow> int \<Rightarrow> transaction_type \<Rightarrow> string option \<Rightarrow> string option \<Rightarrow>
    allocation_stamp option \<Rightarrow> sql_error + int option \<times> sql_db" where
  "sql_debitSpendable now uuid db m amount type referenceId description stamp =
     (case assertMicroUnits (of_int amount) ''debitWithHold'' of Inl e \<Rightarrow> Inl e
      | Inr _ \<Rightarrow>
          (let (_, db) = sql_getOrCreateAccount now db m;
               hold = sql_getUnwithdrawableHold now db m
           in guarded_debit now uuid db m amount (amount + hold) type referenceId description stamp))"

text \<open>\<open>LIMIT\<close>: a negative limit is none.\<close>

definition sql_limit :: "int \<Rightarrow> 'a list \<Rightarrow> 'a list" where
  "sql_limit n xs = (if n < 0 then xs else take (nat n) xs)"

definition sql_getTransactions :: "sql_db \<Rightarrow> string \<Rightarrow> int \<Rightarrow> ledger_row list" where
  \<comment> \<open>\<open>ORDER BY created_at DESC, rowid DESC\<close>: a stable sort of the reversed table\<close>
  "sql_getTransactions db m limit =
     sql_limit limit (js_sort (\<lambda>a b. tx_created_at b - tx_created_at a)
       (rev (filter (\<lambda>t. tx_motebit_id t = m) (relay_transactions db))))"

definition sql_hasDepositWithReference :: "sql_db \<Rightarrow> string \<Rightarrow> string \<Rightarrow> bool" where
  "sql_hasDepositWithReference db m referenceId =
     list_ex (\<lambda>t. tx_motebit_id t = m \<and> tx_reference_id t = Some referenceId \<and> tx_type t = Deposit) (relay_transactions db)"

definition hasFeeWithReference :: "sql_db \<Rightarrow> string \<Rightarrow> string \<Rightarrow> bool" where
  "hasFeeWithReference db m referenceId =
     list_ex (\<lambda>t. tx_motebit_id t = m \<and> tx_reference_id t = Some referenceId \<and> tx_type t = Fee) (relay_transactions db)"

definition sql_getAllocationHoldRemaining :: "sql_db \<Rightarrow> string \<Rightarrow> int" where
  "sql_getAllocationHoldRemaining db referenceId =
     max 0 (- sum_list (map tx_amount (filter (\<lambda>t. tx_reference_id t = Some referenceId
       \<and> (tx_type t = AllocationHold \<or> tx_type t = AllocationRelease)) (relay_transactions db))))"

subsection \<open>Withdrawals\<close>

definition sql_getWithdrawalById :: "sql_db \<Rightarrow> string \<Rightarrow> withdrawal_row option" where
  "sql_getWithdrawalById db i = find (\<lambda>w. w_withdrawal_id w = i) (relay_withdrawals db)"

definition sql_getWithdrawalByIdempotencyKey :: "sql_db \<Rightarrow> string \<Rightarrow> string \<Rightarrow> withdrawal_row option" where
  "sql_getWithdrawalByIdempotencyKey db m key =
     find (\<lambda>w. w_motebit_id w = m \<and> wr_idempotency_key w = Some key) (relay_withdrawals db)"

definition new_row :: "new_withdrawal \<Rightarrow> withdrawal_row" where
  "new_row w = \<lparr> w_withdrawal_id = nw_withdrawal_id w, w_motebit_id = nw_motebit_id w, w_amount = nw_amount w,
     w_currency = nw_currency w, w_destination = nw_destination w, w_status = Pending, w_payout_reference = None,
     w_requested_at = nw_requested_at w, w_completed_at = None, w_failure_reason = None, w_relay_signature = None,
     w_relay_public_key = None, w_claimed_at = None, w_payout_valid_until = None,
     wr_idempotency_key = nw_idempotency_key w, wr_pre_claim_review = False \<rparr>"

definition sql_insertWithdrawal :: "sql_db \<Rightarrow> new_withdrawal \<Rightarrow> sql_error + withdrawal_request \<times> sql_db" where
  \<comment> \<open>the primary key, and the unique index on motebit and idempotency key\<close>
  "sql_insertWithdrawal db w =
     (if nw_idempotency_key w \<noteq> None
         \<and> list_ex (\<lambda>r. w_motebit_id r = nw_motebit_id w \<and> wr_idempotency_key r = nw_idempotency_key w) (relay_withdrawals db)
      then Inl UniqueViolation
      else case sql_insert w_withdrawal_id (new_row w) (relay_withdrawals db) of
             Inl e \<Rightarrow> Inl e
           | Inr rows \<Rightarrow> Inr (withdrawal_request.truncate (new_row w), db\<lparr>relay_withdrawals := rows\<rparr>))"

definition sql_debitAndRecordWithdrawal :: "int \<Rightarrow> string \<Rightarrow> sql_db \<Rightarrow> new_withdrawal \<Rightarrow> string \<Rightarrow>
    sql_error + record_result option \<times> sql_db" where
  "sql_debitAndRecordWithdrawal now uuid db w description =
     (if \<not> isPositiveMicro (nw_amount w) then Inl NotPositiveMicro
      else
        (case (case nw_idempotency_key w of
                 Some key \<Rightarrow> sql_getWithdrawalByIdempotencyKey db (nw_motebit_id w) key | None \<Rightarrow> None) of
           Some existing \<Rightarrow> Inr (Some (Existing (withdrawal_request.truncate existing)), db)
         | None \<Rightarrow>
             (case sql_debit now uuid db (nw_motebit_id w) (nw_amount w) Withdrawal (Some (nw_withdrawal_id w)) (Some description) None of
                Inl e \<Rightarrow> Inl e
              | Inr (None, db) \<Rightarrow> Inr (None, db)
              | Inr (Some newBalance, db) \<Rightarrow>
                  (case sql_insertWithdrawal db w of
                     Inl e \<Rightarrow> Inl e
                   | Inr (record, db) \<Rightarrow> Inr (Some (Recorded record newBalance), db)))))"

text \<open>\<open>UPDATE relay_withdrawals SET ... WHERE withdrawal_id = ? AND ...\<close>, and whether a row changed.\<close>

definition update_withdrawal :: "sql_db \<Rightarrow> string \<Rightarrow> (withdrawal_row \<Rightarrow> bool) \<Rightarrow> (withdrawal_row \<Rightarrow> withdrawal_row) \<Rightarrow> bool \<times> sql_db" where
  "update_withdrawal db i P f =
     (let (changes, rows) = sql_update (\<lambda>w. w_withdrawal_id w = i \<and> P w) f (relay_withdrawals db)
      in (changes > 0, db\<lparr>relay_withdrawals := rows\<rparr>))"

definition sql_linkWithdrawalTransfer :: "sql_db \<Rightarrow> string \<Rightarrow> string \<Rightarrow> bool \<times> sql_db" where
  "sql_linkWithdrawalTransfer db i ref =
     update_withdrawal db i (\<lambda>w. (w_status w = Pending \<or> w_status w = Processing) \<and> w_payout_reference w = None)
       (\<lambda>w. w\<lparr>w_payout_reference := Some ref\<rparr>)"

definition sql_claimWithdrawalForPayout :: "sql_db \<Rightarrow> string \<Rightarrow> int \<Rightarrow> int option \<Rightarrow> bool \<times> sql_db" where
  "sql_claimWithdrawalForPayout db i claimedAt payoutValidUntil =
     update_withdrawal db i (\<lambda>w. w_status w = Pending)
       (\<lambda>w. w\<lparr>w_status := Processing, w_claimed_at := Some claimedAt, w_payout_valid_until := payoutValidUntil\<rparr>)"

definition sql_setWithdrawalSignature :: "sql_db \<Rightarrow> string \<Rightarrow> string \<Rightarrow> string \<Rightarrow> sql_db" where
  "sql_setWithdrawalSignature db i signature publicKey =
     snd (update_withdrawal db i (\<lambda>_. True)
       (\<lambda>w. w\<lparr>w_relay_signature := Some signature, w_relay_public_key := Some publicKey\<rparr>))"

definition sql_setWithdrawalCompletion :: "sql_db \<Rightarrow> string \<Rightarrow> string \<Rightarrow> int \<Rightarrow> withdrawal_status \<Rightarrow> sql_error + bool \<times> sql_db" where
  "sql_setWithdrawalCompletion db i ref completedAt from =
     (case openStatus from of Inl e \<Rightarrow> Inl e
      | Inr from \<Rightarrow> Inr (update_withdrawal db i (\<lambda>w. w_status w = from)
          (\<lambda>w. w\<lparr>w_status := Completed, w_payout_reference := Some ref, w_completed_at := Some completedAt,
                 w_failure_reason := None\<rparr>)))"

definition sql_failWithdrawalAndRefund :: "int \<Rightarrow> string \<Rightarrow> sql_db \<Rightarrow> string \<Rightarrow> string \<Rightarrow> withdrawal_status \<Rightarrow> int \<Rightarrow>
    sql_error + (string \<times> int) option \<times> sql_db" where
  "sql_failWithdrawalAndRefund now uuid db i reason from failedAt =
     (case openStatus from of Inl e \<Rightarrow> Inl e
      | Inr from \<Rightarrow>
          (case update_withdrawal db i (\<lambda>w. w_status w = from)
                  (\<lambda>w. w\<lparr>w_status := Failed, w_failure_reason := Some reason, w_completed_at := Some failedAt\<rparr>) of
             (False, db) \<Rightarrow> Inr (None, db)
           | (True, db) \<Rightarrow>
               (case sql_getWithdrawalById db i of
                  None \<Rightarrow> Inl VanishedRow
                | Some w \<Rightarrow>
                    (case sql_credit now uuid db (w_motebit_id w) (w_amount w) Withdrawal (Some i)
                            (Some (''Withdrawal failed: '' @ reason)) None of
                       Inl e \<Rightarrow> Inl e
                     | Inr (_, db) \<Rightarrow> Inr (Some (w_motebit_id w, w_amount w), db)))))"

definition sql_noteWithdrawalPayoutUnresolved :: "sql_db \<Rightarrow> string \<Rightarrow> string \<Rightarrow> bool \<times> sql_db" where
  "sql_noteWithdrawalPayoutUnresolved db i msg =
     update_withdrawal db i (\<lambda>w. w_status w = Processing) (\<lambda>w. w\<lparr>w_failure_reason := Some msg\<rparr>)"

definition refundPendingWithdrawal :: "int \<Rightarrow> string \<Rightarrow> sql_db \<Rightarrow> string \<Rightarrow> int \<Rightarrow> sql_error + bool \<times> sql_db" where
  "refundPendingWithdrawal now uuid db pendingId refundedAt =
     (let (changes, rows) = sql_update (\<lambda>q. q_pending_id q = pendingId \<and> q_status q = QRefundOwed)
            (\<lambda>q. q\<lparr>q_status := QRefunded, q_last_attempt_at := Some refundedAt\<rparr>) (relay_pending_withdrawals db);
          db' = db\<lparr>relay_pending_withdrawals := rows\<rparr>
      in if changes = 0 then Inr (False, db')
         else (case find (\<lambda>q. q_pending_id q = pendingId) (relay_pending_withdrawals db') of
                 None \<Rightarrow> Inl VanishedRow
               | Some row \<Rightarrow>
                   (case sql_credit now uuid db' (q_motebit_id row) (q_amount_micro row) Withdrawal (Some pendingId)
                           (Some (''Pending withdrawal '' @ pendingId @ '' not sent: ''
                              @ (case q_last_error row of Some e \<Rightarrow> e | None \<Rightarrow> ''refunded''))) None of
                      Inl e \<Rightarrow> Inl e
                    | Inr (_, db') \<Rightarrow> Inr (True, db'))))"

definition sql_debitAndEnqueuePending :: "int \<Rightarrow> string \<Rightarrow> string \<Rightarrow> sql_db \<Rightarrow> enqueue_args \<Rightarrow>
    sql_error + (string \<times> int) option \<times> sql_db" where
  \<comment> \<open>\<open>freshId\<close> is the UUID taken when the caller names no pending id\<close>
  "sql_debitAndEnqueuePending now uuid freshId db args =
     (case assertMicroUnits (of_int (eq_amountMicro args)) ''debitAndEnqueuePending'' of Inl e \<Rightarrow> Inl e
      | Inr _ \<Rightarrow>
          (let pendingId = (case eq_pendingId args of Some p \<Rightarrow> p | None \<Rightarrow> freshId);
               description = (case eq_description args of Some d \<Rightarrow> d
                 | None \<Rightarrow> ''Pending withdrawal '' @ pendingId @ '' '' @ arrow @ '' '' @ eq_destination args @ '' via '' @ eq_rail args)
           in case (if eq_idempotencyKey args \<noteq> None
                    then find (\<lambda>q. q_motebit_id q = eq_motebitId args \<and> q_idempotency_key q = eq_idempotencyKey args)
                           (relay_pending_withdrawals db)
                    else None) of
                Some existing \<Rightarrow> Inr (Some (q_pending_id existing, sql_balance db (eq_motebitId args)), db)
              | None \<Rightarrow>
                  (let (_, db) = sql_getOrCreateAccount now db (eq_motebitId args)
                   in case guarded_debit now uuid db (eq_motebitId args) (eq_amountMicro args) (eq_amountMicro args) Withdrawal
                             (Some pendingId) (Some description) None of
                        Inl e \<Rightarrow> Inl e
                      | Inr (None, db) \<Rightarrow> Inr (None, db)
                      | Inr (Some newBalance, db) \<Rightarrow>
                          (case sql_insert q_pending_id
                                 \<lparr> q_pending_id = pendingId, q_motebit_id = eq_motebitId args, q_amount_micro = eq_amountMicro args,
                                   q_destination = eq_destination args, q_rail = eq_rail args, q_source = eq_source args,
                                   q_enqueued_at = now, q_status = QPending, q_idempotency_key = eq_idempotencyKey args,
                                   q_last_attempt_at = None, q_last_error = None \<rparr> (relay_pending_withdrawals db) of
                             Inl e \<Rightarrow> Inl e
                           | Inr rows \<Rightarrow> Inr (Some (pendingId, newBalance), db\<lparr>relay_pending_withdrawals := rows\<rparr>)))))"

subsection \<open>Reports\<close>

definition sql_getWithdrawals :: "sql_db \<Rightarrow> string \<Rightarrow> int \<Rightarrow> withdrawal_row list" where
  \<comment> \<open>the order of rows requested at the same time is SQLite's; here that of insertion\<close>
  "sql_getWithdrawals db m limit =
     sql_limit limit (js_sort (\<lambda>a b. w_requested_at b - w_requested_at a) (filter (\<lambda>w. w_motebit_id w = m) (relay_withdrawals db)))"

definition row_is_open :: "withdrawal_row \<Rightarrow> bool" where
  "row_is_open w \<longleftrightarrow> w_status w = Pending \<or> w_status w = Processing"

definition sql_getPendingWithdrawalsAdmin :: "sql_db \<Rightarrow> withdrawal_row list" where
  "sql_getPendingWithdrawalsAdmin db =
     js_sort (\<lambda>a b. w_requested_at a - w_requested_at b) (filter row_is_open (relay_withdrawals db))"

definition sql_getPendingWithdrawalsTotal :: "sql_db \<Rightarrow> string \<Rightarrow> int" where
  "sql_getPendingWithdrawalsTotal db m =
     sum_list (map w_amount (filter (\<lambda>w. w_motebit_id w = m \<and> row_is_open w) (relay_withdrawals db)))"

definition sql_getPendingAllocationsTotal :: "sql_db \<Rightarrow> string \<Rightarrow> int" where
  "sql_getPendingAllocationsTotal db m =
     sum_list (map al_amount_locked (filter (\<lambda>a. al_motebit_id a = m \<and> al_status a = ''locked'') (relay_allocations db)))"

definition sql_getSweepConfig :: "sql_db \<Rightarrow> string \<Rightarrow> sweep_config" where
  "sql_getSweepConfig db m =
     (case agent_registry db of
        None \<Rightarrow> \<lparr> sweep_threshold = None, settlement_address = None \<rparr>
      | Some rows \<Rightarrow>
          (case find (\<lambda>r. rg_motebit_id r = m) rows of
             None \<Rightarrow> \<lparr> sweep_threshold = None, settlement_address = None \<rparr>
           | Some r \<Rightarrow> rg_sweep r))"

definition FREE_CREDIT_REFERENCE_PREFIX :: string where
  "FREE_CREDIT_REFERENCE_PREFIX = ''free-credit:''"

definition lower_char :: "char \<Rightarrow> char" where
  "lower_char c = (let n = of_char c :: nat in if 65 \<le> n \<and> n \<le> 90 then char_of (n + 32) else c)"

definition is_grant :: "string \<Rightarrow> ledger_row \<Rightarrow> bool" where
  \<comment> \<open>\<open>LIKE 'free-credit:%'\<close> ignores the case of ASCII letters\<close>
  "is_grant m t \<longleftrightarrow> tx_motebit_id t = m \<and> tx_type t = Deposit
     \<and> (case tx_reference_id t of None \<Rightarrow> False
        | Some r \<Rightarrow> map lower_char (take (length FREE_CREDIT_REFERENCE_PREFIX) r) = FREE_CREDIT_REFERENCE_PREFIX)"

definition sql_getUnspentGrantHold :: "sql_db \<Rightarrow> string \<Rightarrow> int" where
  "sql_getUnspentGrantHold db m =
     (let granted = sum_list (map tx_amount (filter (is_grant m) (relay_transactions db)))
      in if granted \<le> 0 then 0
         else (let inferenceSpend = - sum_list (map tx_amount (filter (\<lambda>t. tx_motebit_id t = m \<and> tx_type t = Fee) (relay_transactions db)))
               in max 0 (granted - inferenceSpend)))"

end
