(* ===== verification/SqliteRefinement.thy ===== *)
theory SqliteRefinement
  imports SqliteAccounts
begin

text \<open>
  The SQLite ledger implements the reference ledger. \<open>related\<close> ties a database to a reference store: the same
  balance per motebit, the same ledger lines (ids and times apart), the same withdrawals, idempotency keys
  and queue. Every operation keeps it and returns the same answer, so that both give the same trace on
  every sequence of operations the callers make. What is left out of the comparison: the listings, whose order and
  ids are each store's own (\<open>getTransactions\<close>, \<open>getWithdrawals\<close>, \<open>getPendingWithdrawalsAdmin\<close>), the two totals, and
  the reads that the reference store takes from a parameter (\<open>getSweepConfig\<close>, \<open>getUnspentGrantHold\<close>).
\<close>

subsection \<open>Tables with a key\<close>

lemma find_keyed_update:
  "(\<And>r. key (f r) = key r) \<Longrightarrow>
    find (\<lambda>r. key r = k) (map (\<lambda>r. if P r then f r else r) rows) = map_option (\<lambda>r. if P r then f r else r) (find (\<lambda>r. key r = k) rows)"
  by (induction rows) auto

lemma filter_keyed:
  "distinct (map key rows) \<Longrightarrow> filter (\<lambda>r. key r = k \<and> P r) rows
    = (case find (\<lambda>r. key r = k) rows of Some r \<Rightarrow> if P r then [r] else [] | None \<Rightarrow> [])"
proof (induction rows)
  case (Cons a rows)
  show ?case
  proof (cases "key a = k")
    case True
    then have "filter (\<lambda>r. key r = k \<and> P r) rows = []"
      unfolding filter_empty_conv using Cons.prems True by (metis distinct.simps(2) image_eqI list.set_map list.simps(9))
    then show ?thesis using True by simp
  next
    case False
    then show ?thesis using Cons by simp
  qed
qed simp

lemma find_None_keyed: "find (\<lambda>r. key r = k) rows = None \<longleftrightarrow> k \<notin> key ` set rows"
  by (auto simp add: find_None_iff)

lemma find_key: "find (\<lambda>r. key r = k) rows = Some r \<Longrightarrow> key r = k \<and> r \<in> set rows"
  by (auto simp add: find_Some_iff)

lemma map_keyed_update: "(\<And>r. key (f r) = key r) \<Longrightarrow> map key (map (\<lambda>r. if P r then f r else r) rows) = map key rows"
  by (induction rows) auto

subsection \<open>Effects of the statements\<close>

definition ledger_line :: "'a account_transaction_scheme \<Rightarrow>
    string \<times> transaction_type \<times> int \<times> int \<times> string option \<times> string option" where
  "ledger_line t = (tx_motebit_id t, tx_type t, tx_amount t, tx_balance_after t, tx_reference_id t, tx_description t)"

definition accounts_wf :: "sql_db \<Rightarrow> bool" where
  "accounts_wf db \<longleftrightarrow> distinct (map acc_motebit_id (relay_accounts db))"

text \<open>The database with other accounts and ledger rows: what the money movements change.\<close>

definition with_books :: "sql_db \<Rightarrow> virtual_account list \<Rightarrow> ledger_row list \<Rightarrow> sql_db" where
  "with_books db accounts rows = db\<lparr>relay_accounts := accounts, relay_transactions := rows\<rparr>"

lemma with_books_simps [simp]:
  "relay_accounts (with_books db a t) = a" "relay_transactions (with_books db a t) = t"
  "relay_withdrawals (with_books db a t) = relay_withdrawals db"
  "relay_pending_withdrawals (with_books db a t) = relay_pending_withdrawals db"
  "relay_settlements (with_books db a t) = relay_settlements db"
  "relay_disputes (with_books db a t) = relay_disputes db"
  by (simp_all add: with_books_def)

lemma create_effect:
  assumes "accounts_wf db"
  obtains accounts where "snd (sql_getOrCreateAccount now db m) = with_books db accounts (relay_transactions db)"
    and "accounts_wf (with_books db accounts (relay_transactions db))"
    and "sql_balance (with_books db accounts (relay_transactions db)) = sql_balance db"
    and "\<exists>r. sql_getAccount (with_books db accounts (relay_transactions db)) m = Some r"
proof (cases "find (\<lambda>r. acc_motebit_id r = m) (relay_accounts db)")
  case None
  let ?a = "relay_accounts db @ [fresh_account m now]"
  show ?thesis
  proof (rule that)
    show "snd (sql_getOrCreateAccount now db m) = with_books db ?a (relay_transactions db)"
      using None by (simp add: sql_getOrCreateAccount_def with_books_def)
    show "accounts_wf (with_books db ?a (relay_transactions db))"
      using assms None by (auto simp add: accounts_wf_def find_None_keyed fresh_account_def)
    show "sql_balance (with_books db ?a (relay_transactions db)) = sql_balance db"
      using None by (auto simp add: fun_eq_iff sql_balance_def sql_getAccount_def find_append fresh_account_def split: option.split)
    show "\<exists>r. sql_getAccount (with_books db ?a (relay_transactions db)) m = Some r"
      using None by (simp add: sql_getAccount_def find_append fresh_account_def)
  qed
next
  case (Some r)
  have same: "with_books db (relay_accounts db) (relay_transactions db) = db" by (simp add: with_books_def)
  show ?thesis
  proof (rule that [of "relay_accounts db"])
    show "snd (sql_getOrCreateAccount now db m) = with_books db (relay_accounts db) (relay_transactions db)"
      using Some same by (simp add: sql_getOrCreateAccount_def)
    show "\<exists>r. sql_getAccount (with_books db (relay_accounts db) (relay_transactions db)) m = Some r"
      using Some by (simp add: sql_getAccount_def)
  qed (use assms same in simp_all)
qed

lemma move_balance_effect:
  assumes "sql_getAccount db m = Some r" and "accounts_wf db" and "P r" and "\<And>x. P x \<Longrightarrow> acc_motebit_id x = m"
    and rows: "rows = snd (move_balance now P d (relay_accounts db))"
  shows "accounts_wf (with_books db rows ts) \<and> sql_balance (with_books db rows ts) = (sql_balance db)(m := sql_balance db m + d)"
proof
  show "accounts_wf (with_books db rows ts)"
    using assms(2) unfolding accounts_wf_def rows move_balance_def sql_update_def
    by (simp add: map_keyed_update [of acc_motebit_id] comp_def if_distrib [of acc_motebit_id] cong: if_cong)
  have look: "find (\<lambda>r. acc_motebit_id r = k) rows = map_option (\<lambda>r. if P r then r\<lparr>acc_balance := acc_balance r + d, acc_updated_at := now\<rparr> else r)
      (find (\<lambda>r. acc_motebit_id r = k) (relay_accounts db))" for k
    unfolding rows move_balance_def sql_update_def snd_conv by (rule find_keyed_update) simp
  show "sql_balance (with_books db rows ts) = (sql_balance db)(m := sql_balance db m + d)"
  proof
    fix k
    show "sql_balance (with_books db rows ts) k = ((sql_balance db)(m := sql_balance db m + d)) k"
      using assms(1,3,4) look [of k]
      by (auto simp add: sql_balance_def sql_getAccount_def split: option.split dest: find_key)
  qed
qed

lemma insert_ledger_fresh:
  "tx_transaction_id row \<notin> tx_transaction_id ` set (relay_transactions db) \<Longrightarrow>
    insert_ledger db row = Inr (with_books db (relay_accounts db) (relay_transactions db @ [row]))"
  by (simp add: insert_ledger_def sql_insert_def with_books_def)

definition uuid_fresh :: "string \<Rightarrow> sql_db \<Rightarrow> bool" where
  "uuid_fresh u db \<longleftrightarrow> u \<notin> tx_transaction_id ` set (relay_transactions db)"

text \<open>What a posting does: the new books, their balances and the line added.\<close>

definition posted :: "sql_db \<Rightarrow> string \<Rightarrow> string \<Rightarrow> int \<Rightarrow> transaction_type \<Rightarrow> string option \<Rightarrow> string option \<Rightarrow> sql_db \<Rightarrow> bool" where
  "posted db uuid m d ty ref desc db' \<longleftrightarrow> (\<exists>accounts row. db' = with_books db accounts (relay_transactions db @ [row])
     \<and> accounts_wf db' \<and> sql_balance db' = (sql_balance db)(m := sql_balance db m + d)
     \<and> tx_transaction_id row = uuid \<and> ledger_line row = (m, ty, d, sql_balance db m + d, ref, desc))"

lemma credit_effect:
  assumes "accounts_wf db" and "uuid_fresh uuid db"
  shows "\<exists>db'. sql_credit now uuid db m a ty ref desc stamp = Inr (sql_balance db m + a, db') \<and> posted db uuid m a ty ref desc db'"
proof -
  obtain accounts where c: "snd (sql_getOrCreateAccount now db m) = with_books db accounts (relay_transactions db)"
    and wf: "accounts_wf (with_books db accounts (relay_transactions db))"
    and bal: "sql_balance (with_books db accounts (relay_transactions db)) = sql_balance db"
    and ex: "\<exists>r. sql_getAccount (with_books db accounts (relay_transactions db)) m = Some r"
    using create_effect [OF assms(1)] by metis
  let ?db1 = "with_books db accounts (relay_transactions db)"
  from ex obtain r where r: "sql_getAccount ?db1 m = Some r" by blast
  define rows where "rows = snd (move_balance now (\<lambda>r. acc_motebit_id r = m) a (relay_accounts ?db1))"
  have m: "accounts_wf (with_books db rows ts) \<and> sql_balance (with_books db rows ts) = (sql_balance db)(m := sql_balance db m + a)" for ts
    using move_balance_effect [OF r wf, of "\<lambda>r. acc_motebit_id r = m" rows now a ts] r bal rows_def
    by (auto simp add: with_books_def sql_getAccount_def dest: find_key)
  let ?row = "ledger_entry uuid m ty a (sql_balance db m + a) ref desc now stamp"
  have "tx_transaction_id ?row \<notin> tx_transaction_id ` set (relay_transactions (with_books db rows (relay_transactions db)))"
    using assms(2) by (simp add: ledger_entry_def uuid_fresh_def)
  from insert_ledger_fresh [OF this] have ins: "insert_ledger (with_books db rows (relay_transactions db)) ?row
      = Inr (with_books db rows (relay_transactions db @ [?row]))"
    by (simp add: with_books_def)
  have upd: "?db1\<lparr>relay_accounts := rows\<rparr> = with_books db rows (relay_transactions db)" by (simp add: with_books_def)
  have "sql_credit now uuid db m a ty ref desc stamp = Inr (sql_balance db m + a, with_books db rows (relay_transactions db @ [?row]))"
    using c ins m [of "relay_transactions db"]
    by (simp add: sql_credit_def Let_def case_prod_beta rows_def [symmetric] upd del: with_books_simps)
  moreover have "posted db uuid m a ty ref desc (with_books db rows (relay_transactions db @ [?row]))"
    unfolding posted_def by (rule exI [of _ rows], rule exI [of _ ?row]) (use m in \<open>simp add: ledger_entry_def ledger_line_def\<close>)
  ultimately show ?thesis by blast
qed

lemma guarded_debit_effect:
  assumes "accounts_wf db" and "uuid_fresh uuid db" and "sql_getAccount db m = Some r"
  shows "\<exists>db'. guarded_debit now uuid db m a needed ty ref desc stamp
      = Inr (if sql_balance db m < needed then None else Some (sql_balance db m - a), db')
    \<and> (if sql_balance db m < needed then db' = db else posted db uuid m (- a) ty ref desc db')"
proof -
  let ?P = "\<lambda>r. acc_motebit_id r = m \<and> acc_balance r \<ge> needed"
  have bal: "sql_balance db m = acc_balance r" using assms(3) by (simp add: sql_balance_def)
  have changes: "fst (move_balance now ?P (- a) (relay_accounts db)) = (if sql_balance db m < needed then 0 else 1)"
    using assms(1,3) filter_keyed [of acc_motebit_id "relay_accounts db" m "\<lambda>r. acc_balance r \<ge> needed"]
    by (simp add: move_balance_def sql_update_def accounts_wf_def sql_getAccount_def bal)
  show ?thesis
  proof (cases "sql_balance db m < needed")
    case True
    then show ?thesis using changes by (simp add: guarded_debit_def case_prod_beta Let_def)
  next
    case False
    define rows where "rows = snd (move_balance now ?P (- a) (relay_accounts db))"
    have m: "accounts_wf (with_books db rows ts) \<and> sql_balance (with_books db rows ts) = (sql_balance db)(m := sql_balance db m + (- a))" for ts
      using False bal assms(3) move_balance_effect [OF assms(3,1), of ?P rows now "- a" ts]
      by (auto simp add: rows_def sql_getAccount_def dest: find_key)
    let ?row = "ledger_entry uuid m ty (- a) (sql_balance db m - a) ref desc now stamp"
    have upd: "db\<lparr>relay_accounts := rows\<rparr> = with_books db rows (relay_transactions db)" by (simp add: with_books_def)
    have "insert_ledger (with_books db rows (relay_transactions db)) ?row = Inr (with_books db rows (relay_transactions db @ [?row]))"
      using insert_ledger_fresh [of ?row "with_books db rows (relay_transactions db)"] assms(2)
      by (simp add: ledger_entry_def uuid_fresh_def) (simp add: with_books_def)
    then have "guarded_debit now uuid db m a needed ty ref desc stamp = Inr (Some (sql_balance db m - a), with_books db rows (relay_transactions db @ [?row]))"
      using changes False m [of "relay_transactions db"]
      by (simp add: guarded_debit_def case_prod_beta Let_def rows_def [symmetric] upd del: with_books_simps)
    moreover have "posted db uuid m (- a) ty ref desc (with_books db rows (relay_transactions db @ [?row]))"
      unfolding posted_def by (rule exI [of _ rows], rule exI [of _ ?row]) (use m in \<open>simp add: ledger_entry_def ledger_line_def\<close>)
    ultimately show ?thesis using False by auto
  qed
qed

text \<open>Creating the account first changes nothing that is observed.\<close>

lemma create_then_debit:
  assumes "accounts_wf db" and "uuid_fresh uuid db"
  shows "\<exists>db'. guarded_debit now uuid (snd (sql_getOrCreateAccount now db m)) m a needed ty ref desc stamp
      = Inr (if sql_balance db m < needed then None else Some (sql_balance db m - a), db')
    \<and> (if sql_balance db m < needed
       then \<exists>accounts. db' = with_books db accounts (relay_transactions db) \<and> accounts_wf db' \<and> sql_balance db' = sql_balance db
       else posted db uuid m (- a) ty ref desc db')"
proof -
  obtain accounts where c: "snd (sql_getOrCreateAccount now db m) = with_books db accounts (relay_transactions db)"
    and wf: "accounts_wf (with_books db accounts (relay_transactions db))"
    and bal: "sql_balance (with_books db accounts (relay_transactions db)) = sql_balance db"
    and ex: "\<exists>r. sql_getAccount (with_books db accounts (relay_transactions db)) m = Some r"
    using create_effect [OF assms(1)] by metis
  let ?db1 = "with_books db accounts (relay_transactions db)"
  have fr: "uuid_fresh uuid ?db1" using assms(2) by (simp add: uuid_fresh_def)
  have "posted ?db1 uuid m d ty ref desc db' \<Longrightarrow> posted db uuid m d ty ref desc db'" for d db'
    unfolding posted_def bal by (auto simp add: with_books_def)
  then show ?thesis
    using guarded_debit_effect [OF wf fr, of m] ex wf unfolding c bal by (metis bal)
qed

subsection \<open>The simulation relation\<close>

definition queue_line :: "queue_row \<Rightarrow> string \<times> string \<times> int \<times> string \<times> string \<times> pending_source \<times> string option" where
  "queue_line q = (q_pending_id q, q_motebit_id q, q_amount_micro q, q_destination q, q_rail q, q_source q, q_idempotency_key q)"

definition pending_line :: "pending_row \<Rightarrow> string \<times> string \<times> int \<times> string \<times> string \<times> pending_source \<times> string option" where
  "pending_line p = (p_pendingId p, p_motebitId p, p_amountMicro p, p_destination p, p_rail p, p_source p, p_idempotencyKey p)"

definition same_books :: "sql_db \<Rightarrow> store \<Rightarrow> bool" where
  "same_books db s \<longleftrightarrow> accounts_wf db \<and> sql_balance db = balance_of s
     \<and> map ledger_line (relay_transactions db) = map ledger_line (st_transactions s)"

definition same_withdrawals :: "sql_db \<Rightarrow> store \<Rightarrow> bool" where
  "same_withdrawals db s \<longleftrightarrow> distinct (map w_withdrawal_id (relay_withdrawals db)) \<and> [] \<notin> w_withdrawal_id ` set (relay_withdrawals db)
     \<and> (\<forall>i. map_option withdrawal_request.truncate (sql_getWithdrawalById db i) = getWithdrawalById s i)
     \<and> (\<forall>m k. CHR '':'' \<notin> set m \<longrightarrow> jsm_get (st_idempotencyIndex s) (idempotencyKeyOf m k)
          = map_option w_withdrawal_id (sql_getWithdrawalByIdempotencyKey db m k))"

definition same_queue :: "sql_db \<Rightarrow> store \<Rightarrow> bool" where
  "same_queue db s \<longleftrightarrow> map queue_line (relay_pending_withdrawals db) = map pending_line (jsm_values (st_pendingWithdrawals s))
     \<and> list_all (\<lambda>(k, p). p_pendingId p = k) (st_pendingWithdrawals s)"

definition related :: "sql_db \<Rightarrow> store \<Rightarrow> bool" where
  "related db s \<longleftrightarrow> same_books db s \<and> same_withdrawals db s \<and> same_queue db s"

lemma related_new: "related (createAccountTables st dp rg) (newInMemoryAccountStore hold grant sweep now)"
  by (simp add: related_def same_books_def same_withdrawals_def same_queue_def createAccountTables_def newInMemoryAccountStore_def
      accounts_wf_def fun_eq_iff sql_balance_def balance_of_def sql_getAccount_def sql_getWithdrawalById_def getWithdrawalById_def
      sql_getWithdrawalByIdempotencyKey_def jsm_values_def)

text \<open>What the relation reads of the reference store, under its operations.\<close>

lemma credit_fst: "fst (credit s m a ty ref d) = balance_of s m + a"
  by (simp add: credit_def read_now_def post_def newTxnId_def Let_def balance_of_def fresh_account_def split: option.split)

lemma credit_lines:
  "map ledger_line (st_transactions (snd (credit s m a ty ref d)))
    = map ledger_line (st_transactions s) @ [(m, ty, a, balance_of s m + a, ref, d)]"
  by (simp add: credit_def read_now_def post_def newTxnId_def Let_def balance_of_def fresh_account_def ledger_line_def split: option.split)

lemma debit_lines:
  "map ledger_line (st_transactions (snd (debit s m a ty ref d)))
    = map ledger_line (st_transactions s) @ (if balance_of s m < a then [] else [(m, ty, - a, balance_of s m - a, ref, d)])"
  by (simp add: debit_def read_now_def post_def newTxnId_def Let_def balance_of_def fresh_account_def ledger_line_def split: option.split)

lemma posting_frame:
  "st_idempotencyIndex (snd (credit s m a ty ref d)) = st_idempotencyIndex s"
  "st_pendingWithdrawals (snd (credit s m a ty ref d)) = st_pendingWithdrawals s"
  "st_pendingWithdrawals (snd (debit s m a ty ref d)) = st_pendingWithdrawals s"
  by (simp_all add: credit_def debit_def read_now_def post_def newTxnId_def Let_def split: option.split)

lemma posted_frame:
  assumes "posted db uuid m d ty ref desc db'"
  shows "relay_withdrawals db' = relay_withdrawals db" "relay_pending_withdrawals db' = relay_pending_withdrawals db"
    "sql_getWithdrawalById db' = sql_getWithdrawalById db"
    "sql_getWithdrawalByIdempotencyKey db' = sql_getWithdrawalByIdempotencyKey db"
    "tx_transaction_id ` set (relay_transactions db') = insert uuid (tx_transaction_id ` set (relay_transactions db))"
    "relay_settlements db' = relay_settlements db" "relay_disputes db' = relay_disputes db"
  using assms by (auto simp add: posted_def with_books_def fun_eq_iff sql_getWithdrawalById_def sql_getWithdrawalByIdempotencyKey_def)

lemma same_books_posted:
  assumes "same_books db s" and "posted db uuid m d ty ref desc db'"
    and "balance_of s' = (balance_of s)(m := balance_of s m + d)"
    and "map ledger_line (st_transactions s') = map ledger_line (st_transactions s) @ [(m, ty, d, balance_of s m + d, ref, desc)]"
  shows "same_books db' s'"
  using assms by (auto simp add: same_books_def posted_def)

lemma same_withdrawals_cong:
  assumes "same_withdrawals db s" and "relay_withdrawals db' = relay_withdrawals db"
    and "st_withdrawals s' = st_withdrawals s" and "st_idempotencyIndex s' = st_idempotencyIndex s"
  shows "same_withdrawals db' s'"
  using assms by (simp add: same_withdrawals_def sql_getWithdrawalById_def getWithdrawalById_def sql_getWithdrawalByIdempotencyKey_def)

lemma same_queue_cong:
  assumes "same_queue db s" and "relay_pending_withdrawals db' = relay_pending_withdrawals db"
    and "st_pendingWithdrawals s' = st_pendingWithdrawals s"
  shows "same_queue db' s'"
  using assms by (simp add: same_queue_def)

lemma related_posted:
  assumes "related db s" and "posted db uuid m d ty ref desc db'"
    and "balance_of s' = (balance_of s)(m := balance_of s m + d)"
    and "map ledger_line (st_transactions s') = map ledger_line (st_transactions s) @ [(m, ty, d, balance_of s m + d, ref, desc)]"
    and "st_withdrawals s' = st_withdrawals s" and "st_idempotencyIndex s' = st_idempotencyIndex s"
    and "st_pendingWithdrawals s' = st_pendingWithdrawals s"
  shows "related db' s'"
  using assms(1) same_books_posted [OF _ assms(2-4)] same_withdrawals_cong [OF _ posted_frame(1) [OF assms(2)] assms(5,6)]
    same_queue_cong [OF _ posted_frame(2) [OF assms(2)] assms(7)]
  by (simp add: related_def)

lemma credit_refines:
  assumes "related db s" and "uuid_fresh uuid db"
  shows "\<exists>db'. sql_credit now uuid db m a ty ref desc stamp = Inr (fst (credit s m a ty ref desc), db')
    \<and> related db' (snd (credit s m a ty ref desc)) \<and> posted db uuid m a ty ref desc db'"
proof -
  have wf: "accounts_wf db" and bal: "sql_balance db = balance_of s" using assms(1) by (simp_all add: related_def same_books_def)
  from credit_effect [OF wf assms(2)] obtain db' where
    db': "sql_credit now uuid db m a ty ref desc stamp = Inr (sql_balance db m + a, db')" "posted db uuid m a ty ref desc db'"
    by blast
  have "related db' (snd (credit s m a ty ref desc))"
    by (rule related_posted [OF assms(1) db'(2)]) (simp_all add: credit_balance credit_lines credit_withdrawals posting_frame)
  then show ?thesis using db' bal by (simp add: credit_fst)
qed

text \<open>A debit against an amount at least as strict as the reference's own check.\<close>

lemma debit_refines:
  assumes "related db s" and "uuid_fresh uuid db" and "a \<le> needed"
  shows "\<exists>db'. guarded_debit now uuid (snd (sql_getOrCreateAccount now db m)) m a needed ty ref desc stamp
      = Inr (if balance_of s m < needed then None else fst (debit s m a ty ref desc), db')
    \<and> related db' (if balance_of s m < needed then s else snd (debit s m a ty ref desc))
    \<and> relay_withdrawals db' = relay_withdrawals db \<and> relay_pending_withdrawals db' = relay_pending_withdrawals db
    \<and> relay_settlements db' = relay_settlements db \<and> relay_disputes db' = relay_disputes db
    \<and> tx_transaction_id ` set (relay_transactions db') \<subseteq> insert uuid (tx_transaction_id ` set (relay_transactions db))"
proof -
  have wf: "accounts_wf db" and bal: "sql_balance db = balance_of s" using assms(1) by (simp_all add: related_def same_books_def)
  obtain db' where db': "guarded_debit now uuid (snd (sql_getOrCreateAccount now db m)) m a needed ty ref desc stamp
      = Inr (if balance_of s m < needed then None else Some (balance_of s m - a), db')"
    and eff: "if balance_of s m < needed
       then \<exists>accounts. db' = with_books db accounts (relay_transactions db) \<and> accounts_wf db' \<and> sql_balance db' = sql_balance db
       else posted db uuid m (- a) ty ref desc db'"
    using create_then_debit [OF wf assms(2), of now m a needed ty ref desc stamp] unfolding bal by blast
  show ?thesis
  proof (cases "balance_of s m < needed")
    case True
    then obtain accounts where "db' = with_books db accounts (relay_transactions db)" "accounts_wf db'" "sql_balance db' = sql_balance db"
      using eff by auto
    then show ?thesis using True db' assms(1) same_withdrawals_cong [of db s db' s] same_queue_cong [of db s db' s]
      by (auto simp add: related_def same_books_def)
  next
    case False
    then have p: "posted db uuid m (- a) ty ref desc db'" and ge: "\<not> balance_of s m < a" using eff assms(3) by simp_all
    have "related db' (snd (debit s m a ty ref desc))"
      by (rule related_posted [OF assms(1) p]) (use ge in \<open>simp_all add: debit_balance debit_lines debit_withdrawals debit_index posting_frame\<close>)
    then show ?thesis using False ge db' posted_frame [OF p] by (auto simp add: debit_fst)
  qed
qed

subsection \<open>Compare-and-set on a withdrawal\<close>

text \<open>The change of one row, when the reference has it and it passes the test.\<close>

definition put_if :: "store \<Rightarrow> string \<Rightarrow> (withdrawal_request \<Rightarrow> bool) \<Rightarrow> (withdrawal_request \<Rightarrow> withdrawal_request) \<Rightarrow> bool \<times> store" where
  "put_if s i P f = (case getWithdrawalById s i of None \<Rightarrow> (False, s)
     | Some w \<Rightarrow> if P w then (True, put_withdrawal s i (f w)) else (False, s))"

lemma update_refines:
  fixes f :: "withdrawal_row \<Rightarrow> withdrawal_row"
  assumes "related db s"
    and P: "\<And>w. P w = P' (withdrawal_request.truncate w)"
    and f: "\<And>w. withdrawal_request.truncate (f w) = f' (withdrawal_request.truncate w)"
    and key: "\<And>w. w_withdrawal_id (f w) = w_withdrawal_id w \<and> w_motebit_id (f w) = w_motebit_id w \<and> wr_idempotency_key (f w) = wr_idempotency_key w"
  shows "fst (update_withdrawal db i P f) = fst (put_if s i P' f') \<and> related (snd (update_withdrawal db i P f)) (snd (put_if s i P' f'))
    \<and> relay_transactions (snd (update_withdrawal db i P f)) = relay_transactions db
    \<and> relay_accounts (snd (update_withdrawal db i P f)) = relay_accounts db"
proof -
  let ?Q = "\<lambda>w. w_withdrawal_id w = i \<and> P w"
  let ?rows = "map (\<lambda>w. if ?Q w then f w else w) (relay_withdrawals db)"
  let ?db = "db\<lparr>relay_withdrawals := ?rows\<rparr>"
  have w: "same_withdrawals db s" using assms(1) by (simp add: related_def)
  have look: "sql_getWithdrawalById ?db j = map_option (\<lambda>w. if ?Q w then f w else w) (sql_getWithdrawalById db j)" for j
    unfolding sql_getWithdrawalById_def by simp (rule find_keyed_update, use key in simp)
  have by_key: "map_option w_withdrawal_id (sql_getWithdrawalByIdempotencyKey ?db m k)
      = map_option w_withdrawal_id (sql_getWithdrawalByIdempotencyKey db m k)" for m k
  proof -
    have "map_option w_withdrawal_id (find (\<lambda>w. w_motebit_id w = m \<and> wr_idempotency_key w = Some k) (map (\<lambda>w. if ?Q w then f w else w) ws))
        = map_option w_withdrawal_id (find (\<lambda>w. w_motebit_id w = m \<and> wr_idempotency_key w = Some k) ws)" for ws
      by (induction ws) (use key in auto)
    then show ?thesis by (simp add: sql_getWithdrawalByIdempotencyKey_def)
  qed
  have ids: "map w_withdrawal_id ?rows = map w_withdrawal_id (relay_withdrawals db)" by (rule map_keyed_update) (use key in simp)
  have ids': "w_withdrawal_id ` set ?rows = w_withdrawal_id ` set (relay_withdrawals db)" by (metis ids list.set_map)
  have rows_sel: "relay_withdrawals ?db = ?rows" by simp
  have upd: "update_withdrawal db i P f = (filter ?Q (relay_withdrawals db) \<noteq> [], ?db)"
    by (simp add: update_withdrawal_def sql_update_def)
  have mem: "map_option withdrawal_request.truncate (sql_getWithdrawalById db j) = getWithdrawalById s j" for j
    using w by (simp add: same_withdrawals_def)
  have fst: "filter ?Q (relay_withdrawals db) \<noteq> [] \<longleftrightarrow> fst (put_if s i P' f')"
  proof -
    have "distinct (map w_withdrawal_id (relay_withdrawals db))" using w by (simp add: same_withdrawals_def)
    note filter_keyed [OF this, of i P]
    then show ?thesis using mem [of i, symmetric] by (cases "sql_getWithdrawalById db i")
      (auto simp add: put_if_def sql_getWithdrawalById_def P)
  qed
  have "map_option withdrawal_request.truncate (sql_getWithdrawalById ?db j) = getWithdrawalById (snd (put_if s i P' f')) j" for j
    using mem [of j] mem [of i] look [of j]
    by (cases "sql_getWithdrawalById db j"; cases "j = i")
       (auto simp add: put_if_def getWithdrawalById_def put_withdrawal_def jsm_get_set P f sql_getWithdrawalById_def
          split: option.splits dest: find_key)
  moreover have "st_idempotencyIndex (snd (put_if s i P' f')) = st_idempotencyIndex s"
    by (simp add: put_if_def put_withdrawal_def split: option.split)
  ultimately have "same_withdrawals ?db (snd (put_if s i P' f'))"
    using w unfolding same_withdrawals_def rows_sel ids ids' by_key by simp
  moreover have "same_books ?db (snd (put_if s i P' f'))"
  proof -
    have "balance_of (snd (put_if s i P' f')) = balance_of s" "st_transactions (snd (put_if s i P' f')) = st_transactions s"
      by (simp_all add: put_if_def put_withdrawal_def split: option.split)
    then show ?thesis using assms(1)
      by (simp add: related_def same_books_def accounts_wf_def sql_balance_def sql_getAccount_def fun_eq_iff)
  qed
  moreover have "same_queue ?db (snd (put_if s i P' f'))"
    using assms(1) by (auto simp add: related_def same_queue_def put_if_def put_withdrawal_def split: option.split)
  ultimately show ?thesis using fst by (simp add: upd related_def)
qed

lemmas truncate_defs = withdrawal_request.truncate_def

lemma claim_put_if: "claimWithdrawalForPayout s i t u = put_if s i (\<lambda>w. w_status w = Pending)
    (\<lambda>w. w\<lparr>w_status := Processing, w_claimed_at := Some t, w_payout_valid_until := u\<rparr>)"
  by (simp add: claimWithdrawalForPayout_def put_if_def getWithdrawalById_def split: option.split)

lemma link_put_if: "linkWithdrawalTransfer s i r = put_if s i (\<lambda>w. (w_status w = Pending \<or> w_status w = Processing) \<and> w_payout_reference w = None)
    (\<lambda>w. w\<lparr>w_payout_reference := Some r\<rparr>)"
  by (auto simp add: linkWithdrawalTransfer_def put_if_def getWithdrawalById_def split: option.split)

lemma sign_put_if: "setWithdrawalSignature s i g k = snd (put_if s i (\<lambda>_. True) (\<lambda>w. w\<lparr>w_relay_signature := Some g, w_relay_public_key := Some k\<rparr>))"
  by (simp add: setWithdrawalSignature_def put_if_def getWithdrawalById_def split: option.split)

lemma completion_put_if: "isOpenFrom from \<Longrightarrow> setWithdrawalCompletion s i r t from = put_if s i (\<lambda>w. w_status w = from)
    (\<lambda>w. w\<lparr>w_status := Completed, w_payout_reference := Some r, w_completed_at := Some t, w_failure_reason := None\<rparr>)"
  by (simp add: setWithdrawalCompletion_def put_if_def getWithdrawalById_def split: option.split)

lemma note_put_if: "noteWithdrawalPayoutUnresolved s i n = put_if s i (\<lambda>w. w_status w = Processing) (\<lambda>w. w\<lparr>w_failure_reason := Some n\<rparr>)"
  by (simp add: noteWithdrawalPayoutUnresolved_def put_if_def getWithdrawalById_def split: option.split)

lemma fail_put_if:
  assumes "isOpenFrom from"
  shows "failWithdrawalAndRefund s i reason from (Some t) =
    (case put_if s i (\<lambda>w. w_status w = from) (\<lambda>w. w\<lparr>w_status := Failed, w_failure_reason := Some reason, w_completed_at := Some t\<rparr>) of
       (False, s') \<Rightarrow> (None, s')
     | (True, s') \<Rightarrow> (case getWithdrawalById s' i of None \<Rightarrow> (None, s')
         | Some w \<Rightarrow> (Some (w_motebit_id w, w_amount w),
             snd (credit s' (w_motebit_id w) (w_amount w) Withdrawal (Some i) (Some (''Withdrawal failed: '' @ reason))))))"
  using assms by (auto simp add: failWithdrawalAndRefund_def put_if_def getWithdrawalById_def put_withdrawal_def Let_def case_prod_beta
      split: option.split)

subsection \<open>Recording and queueing\<close>

lemma key_inj:
  assumes "CHR '':'' \<notin> set m" and "CHR '':'' \<notin> set m'"
  shows "idempotencyKeyOf m k = idempotencyKeyOf m' k' \<longleftrightarrow> m = m' \<and> k = k'"
proof
  assume eq: "idempotencyKeyOf m k = idempotencyKeyOf m' k'"
  have "takeWhile (\<lambda>c. c \<noteq> CHR '':'') (idempotencyKeyOf n j) = n" if "CHR '':'' \<notin> set n" for n j
    using that by (simp add: idempotencyKeyOf_def takeWhile_append2 takeWhile_tail) (metis takeWhile_eq_all_conv)
  from this [OF assms(1)] this [OF assms(2)] eq have "m = m'" by metis
  with eq show "m = m' \<and> k = k'" by (simp add: idempotencyKeyOf_def)
qed simp

lemma existing_same:
  assumes "same_withdrawals db s" and "CHR '':'' \<notin> set m"
  shows "map_option withdrawal_request.truncate (sql_getWithdrawalByIdempotencyKey db m k) = getWithdrawalByIdempotencyKey s m k"
proof (cases "sql_getWithdrawalByIdempotencyKey db m k")
  case None
  then show ?thesis using assms by (simp add: same_withdrawals_def getWithdrawalByIdempotencyKey_def)
next
  case (Some w)
  then have w: "w \<in> set (relay_withdrawals db)" by (auto simp add: sql_getWithdrawalByIdempotencyKey_def find_Some_iff)
  then have "sql_getWithdrawalById db (w_withdrawal_id w) \<noteq> None" by (simp add: sql_getWithdrawalById_def find_None_keyed)
  then obtain v where v: "sql_getWithdrawalById db (w_withdrawal_id w) = Some v" by blast
  then have "v = w" using w assms(1) find_key [of w_withdrawal_id "w_withdrawal_id w" "relay_withdrawals db" v]
    by (auto simp add: same_withdrawals_def sql_getWithdrawalById_def distinct_map inj_on_def)
  moreover have "jsm_get (st_idempotencyIndex s) (idempotencyKeyOf m k) = Some (w_withdrawal_id w)" "w_withdrawal_id w \<noteq> []"
    "map_option withdrawal_request.truncate (sql_getWithdrawalById db (w_withdrawal_id w)) = getWithdrawalById s (w_withdrawal_id w)"
    using assms Some imageI [OF w, of w_withdrawal_id] by (auto simp add: same_withdrawals_def)
  ultimately show ?thesis using Some v by (simp add: getWithdrawalByIdempotencyKey_def)
qed

lemma insert_refines:
  assumes "same_withdrawals db s" and "CHR '':'' \<notin> set (nw_motebit_id w)" and "nw_withdrawal_id w \<noteq> []"
    and "getWithdrawalById s (nw_withdrawal_id w) = None"
    and "\<And>k. nw_idempotency_key w = Some k \<Longrightarrow> getWithdrawalByIdempotencyKey s (nw_motebit_id w) k = None"
  shows "\<exists>db'. sql_insertWithdrawal db w = Inr (fst (insertWithdrawal s w), db') \<and> same_withdrawals db' (snd (insertWithdrawal s w))
    \<and> db' = db\<lparr>relay_withdrawals := relay_withdrawals db @ [new_row w]\<rparr>"
proof -
  let ?i = "nw_withdrawal_id w" and ?db = "db\<lparr>relay_withdrawals := relay_withdrawals db @ [new_row w]\<rparr>"
  have mem: "map_option withdrawal_request.truncate (sql_getWithdrawalById db j) = getWithdrawalById s j" for j
    using assms(1) by (simp add: same_withdrawals_def)
  have new: "?i \<notin> w_withdrawal_id ` set (relay_withdrawals db)"
    using mem [of ?i] assms(4) by (simp add: sql_getWithdrawalById_def find_None_keyed)
  have nokey: "sql_getWithdrawalByIdempotencyKey db (nw_motebit_id w) k = None" if "nw_idempotency_key w = Some k" for k
    using existing_same [OF assms(1,2), of k] assms(5) [OF that] by simp
  then have "\<not> (nw_idempotency_key w \<noteq> None
      \<and> list_ex (\<lambda>r. w_motebit_id r = nw_motebit_id w \<and> wr_idempotency_key r = nw_idempotency_key w) (relay_withdrawals db))"
    by (auto simp add: sql_getWithdrawalByIdempotencyKey_def find_None_iff list_ex_iff)
  then have ins: "sql_insertWithdrawal db w = Inr (fst (insertWithdrawal s w), ?db)"
    using new by (simp add: sql_insertWithdrawal_def sql_insert_def new_row_def truncate_defs insertWithdrawal_def Let_def)
  have "sql_getWithdrawalById ?db j = (if j = ?i then Some (new_row w) else sql_getWithdrawalById db j)" for j
    using new by (auto simp add: sql_getWithdrawalById_def find_append new_row_def find_None_keyed [symmetric] split: option.split)
  then have "map_option withdrawal_request.truncate (sql_getWithdrawalById ?db j) = getWithdrawalById (snd (insertWithdrawal s w)) j" for j
    using mem [of j] by (simp add: insertWithdrawal_def getWithdrawalById_def Let_def jsm_get_set new_row_def truncate_defs split: option.split)
  moreover have "jsm_get (st_idempotencyIndex (snd (insertWithdrawal s w))) (idempotencyKeyOf m k)
      = map_option w_withdrawal_id (sql_getWithdrawalByIdempotencyKey ?db m k)" if "CHR '':'' \<notin> set m" for m k
  proof -
    have old: "jsm_get (st_idempotencyIndex s) (idempotencyKeyOf m k) = map_option w_withdrawal_id (sql_getWithdrawalByIdempotencyKey db m k)"
      using assms(1) that by (simp add: same_withdrawals_def)
    have "sql_getWithdrawalByIdempotencyKey ?db m k =
        (case sql_getWithdrawalByIdempotencyKey db m k of Some r \<Rightarrow> Some r
         | None \<Rightarrow> if nw_motebit_id w = m \<and> nw_idempotency_key w = Some k then Some (new_row w) else None)"
      by (simp add: sql_getWithdrawalByIdempotencyKey_def find_append new_row_def split: option.split)
    then show ?thesis using old nokey key_inj [OF that assms(2)]
      by (auto simp add: insertWithdrawal_def Let_def jsm_get_set new_row_def split: option.splits)
  qed
  ultimately have "same_withdrawals ?db (snd (insertWithdrawal s w))"
    using assms(1,3) new by (auto simp add: same_withdrawals_def new_row_def)
  then show ?thesis using ins by blast
qed

text \<open>What every refinement step leaves alone.\<close>

definition framed :: "sql_db \<Rightarrow> string \<Rightarrow> sql_db \<Rightarrow> bool" where
  "framed db uuid db' \<longleftrightarrow> relay_settlements db' = relay_settlements db \<and> relay_disputes db' = relay_disputes db
     \<and> tx_transaction_id ` set (relay_transactions db') \<subseteq> insert uuid (tx_transaction_id ` set (relay_transactions db))"

lemma framed_update: "framed db uuid (snd (update_withdrawal db i P f))"
  by (auto simp add: framed_def update_withdrawal_def sql_update_def)

lemma sql_debit_refines:
  assumes "related db s" and "uuid_fresh uuid db"
  shows "\<exists>db'. sql_debit now uuid db m a ty ref desc stamp = Inr (fst (debit s m a ty ref desc), db')
    \<and> related db' (snd (debit s m a ty ref desc))
    \<and> framed db uuid db'"
proof -
  have "related db' (if balance_of s m < a then s else snd (debit s m a ty ref desc)) \<Longrightarrow> related db' (snd (debit s m a ty ref desc))" for db'
  proof (cases "balance_of s m < a")
    case True
    then show "related db' (if balance_of s m < a then s else snd (debit s m a ty ref desc)) \<Longrightarrow> related db' (snd (debit s m a ty ref desc))"
      using debit_lines [of s m a ty ref desc] same_withdrawals_cong [of db' s db' "snd (debit s m a ty ref desc)"]
        same_queue_cong [of db' s db' "snd (debit s m a ty ref desc)"]
      by (simp add: related_def same_books_def debit_balance debit_withdrawals debit_index posting_frame)
  qed simp
  moreover have "(if balance_of s m < a then None else fst (debit s m a ty ref desc)) = fst (debit s m a ty ref desc)"
    by (simp add: debit_fst)
  ultimately show ?thesis using debit_refines [OF assms, of a a now m ty ref desc stamp] unfolding framed_def
    by (auto simp add: sql_debit_def case_prod_beta Let_def)
qed

lemma record_refines:
  assumes "related db s" and "uuid_fresh uuid db" and "CHR '':'' \<notin> set (nw_motebit_id w)" and "nw_withdrawal_id w \<noteq> []"
    and "getWithdrawalById s (nw_withdrawal_id w) = None"
  shows "case debitAndRecordWithdrawal s w desc of
      Inl e \<Rightarrow> sql_debitAndRecordWithdrawal now uuid db w desc = Inl NotPositiveMicro
    | Inr (r, s') \<Rightarrow> \<exists>db'. sql_debitAndRecordWithdrawal now uuid db w desc = Inr (r, db') \<and> related db' s' \<and> framed db uuid db'"
proof (cases "isPositiveMicro (nw_amount w)")
  case False
  then show ?thesis by (simp add: debitAndRecordWithdrawal_def assertPositiveMicro_def sql_debitAndRecordWithdrawal_def)
next
  case pos: True
  let ?found = "case nw_idempotency_key w of Some key \<Rightarrow> getWithdrawalByIdempotencyKey s (nw_motebit_id w) key | None \<Rightarrow> None"
  let ?sql = "case nw_idempotency_key w of Some key \<Rightarrow> sql_getWithdrawalByIdempotencyKey db (nw_motebit_id w) key | None \<Rightarrow> None"
  have same: "map_option withdrawal_request.truncate ?sql = ?found"
    using existing_same [of db s "nw_motebit_id w"] assms(1,3) by (simp add: related_def split: option.split)
  let ?d = "debit s (nw_motebit_id w) (nw_amount w) Withdrawal (Some (nw_withdrawal_id w)) (Some desc)"
  show ?thesis
  proof (cases ?found)
    case (Some e)
    then obtain r where "?sql = Some r" "withdrawal_request.truncate r = e" using same by (cases ?sql) auto
    then show ?thesis using pos Some assms(1)
      by (auto simp add: debitAndRecordWithdrawal_def assertPositiveMicro_def sql_debitAndRecordWithdrawal_def framed_def)
  next
    case None
    then have no: "?sql = None" using same by simp
    obtain db1 where d1: "sql_debit now uuid db (nw_motebit_id w) (nw_amount w) Withdrawal (Some (nw_withdrawal_id w)) (Some desc) None
        = Inr (fst ?d, db1)" and rel: "related db1 (snd ?d)" and fr: "framed db uuid db1"
      using sql_debit_refines [OF assms(1,2)] by metis
    show ?thesis
    proof (cases "fst ?d")
      case None
      then have "debitAndRecordWithdrawal s w desc = Inr (None, snd ?d)" "sql_debitAndRecordWithdrawal now uuid db w desc = Inr (None, db1)"
        using pos no d1 \<open>?found = None\<close>
        by (simp_all add: debitAndRecordWithdrawal_def assertPositiveMicro_def sql_debitAndRecordWithdrawal_def case_prod_beta option.case_eq_if split_beta)
      then show ?thesis using rel fr by simp
    next
      case (Some b)
      have frame: "getWithdrawalById (snd ?d) = getWithdrawalById s" "getWithdrawalByIdempotencyKey (snd ?d) = getWithdrawalByIdempotencyKey s"
        by (simp_all add: fun_eq_iff getWithdrawalById_def getWithdrawalByIdempotencyKey_def debit_withdrawals debit_index split: option.split)
      have "getWithdrawalByIdempotencyKey s (nw_motebit_id w) k = None" if "nw_idempotency_key w = Some k" for k
        using \<open>?found = None\<close> that by simp
      then obtain db2 where ins: "sql_insertWithdrawal db1 w = Inr (fst (insertWithdrawal (snd ?d) w), db2)"
        and same2: "same_withdrawals db2 (snd (insertWithdrawal (snd ?d) w))"
        and db2: "db2 = db1\<lparr>relay_withdrawals := relay_withdrawals db1 @ [new_row w]\<rparr>"
        using insert_refines [of db1 "snd ?d" w] rel assms(3-5) frame by (auto simp add: related_def)
      have "related db2 (snd (insertWithdrawal (snd ?d) w))"
        using same2 rel unfolding related_def db2
        by (auto simp add: same_books_def same_queue_def accounts_wf_def sql_balance_def sql_getAccount_def fun_eq_iff
            insertWithdrawal_def Let_def split: option.splits)
      moreover have "debitAndRecordWithdrawal s w desc = Inr (Some (Recorded (fst (insertWithdrawal (snd ?d) w)) b), snd (insertWithdrawal (snd ?d) w))"
        using pos Some \<open>?found = None\<close>
        by (simp add: debitAndRecordWithdrawal_def assertPositiveMicro_def case_prod_beta)
      moreover have "sql_debitAndRecordWithdrawal now uuid db w desc = Inr (Some (Recorded (fst (insertWithdrawal (snd ?d) w)) b), db2)"
        using pos Some no d1 ins by (simp add: sql_debitAndRecordWithdrawal_def)
      ultimately show ?thesis using fr db2 by (simp add: framed_def)
    qed
  qed
qed

lemma fail_refines:
  assumes "related db s" and "uuid_fresh uuid db" and "isOpenFrom from"
  shows "\<exists>db'. sql_failWithdrawalAndRefund now uuid db i reason from t
      = Inr (fst (failWithdrawalAndRefund s i reason from (Some t)), db')
    \<and> related db' (snd (failWithdrawalAndRefund s i reason from (Some t))) \<and> framed db uuid db'"
proof -
  let ?f = "\<lambda>w :: withdrawal_row. w\<lparr>w_status := Failed, w_failure_reason := Some reason, w_completed_at := Some t\<rparr>"
  let ?f' = "\<lambda>w :: withdrawal_request. w\<lparr>w_status := Failed, w_failure_reason := Some reason, w_completed_at := Some t\<rparr>"
  have from_ok: "openStatus from = Inr from" using assms(3) by (auto simp add: openStatus_def isOpenFrom_def)
  obtain b db1 where u: "update_withdrawal db i (\<lambda>w. w_status w = from) ?f = (b, db1)" by (metis surj_pair)
  obtain b' s1 where p': "put_if s i (\<lambda>w. w_status w = from) ?f' = (b', s1)" by (metis surj_pair)
  have "b = b' \<and> related db1 s1 \<and> relay_transactions db1 = relay_transactions db"
    using update_refines [OF assms(1), of "\<lambda>w. w_status w = from" "\<lambda>w. w_status w = from" ?f ?f' i] u p'
    by (simp add: truncate_defs)
  then have p: "put_if s i (\<lambda>w. w_status w = from) ?f' = (b, s1)" and rel: "related db1 s1"
    and tx: "relay_transactions db1 = relay_transactions db" using p' by simp_all
  have fr1: "framed db uuid db1" using framed_update [of db uuid i "\<lambda>w. w_status w = from" ?f] u by simp
  show ?thesis
  proof (cases b)
    case False
    then show ?thesis using u p rel fr1 from_ok by (simp add: sql_failWithdrawalAndRefund_def fail_put_if [OF assms(3)])
  next
    case True
    then obtain w' where w': "getWithdrawalById s1 i = Some w'"
      using p by (auto simp add: put_if_def getWithdrawalById_def put_withdrawal_def split: option.splits if_splits)
    then obtain w where w: "sql_getWithdrawalById db1 i = Some w" "withdrawal_request.truncate w = w'"
      using rel by (auto simp add: related_def same_withdrawals_def)
         (metis map_option_eq_Some)
    then have same: "w_motebit_id w = w_motebit_id w'" "w_amount w = w_amount w'" by (auto simp add: truncate_defs)
    have "uuid_fresh uuid db1" using assms(2) tx by (simp add: uuid_fresh_def)
    from credit_refines [OF rel this, of now "w_motebit_id w'" "w_amount w'" Withdrawal "Some i" "Some (''Withdrawal failed: '' @ reason)" None]
    obtain db2 where c: "sql_credit now uuid db1 (w_motebit_id w') (w_amount w') Withdrawal (Some i) (Some (''Withdrawal failed: '' @ reason)) None
        = Inr (fst (credit s1 (w_motebit_id w') (w_amount w') Withdrawal (Some i) (Some (''Withdrawal failed: '' @ reason))), db2)"
      and rel2: "related db2 (snd (credit s1 (w_motebit_id w') (w_amount w') Withdrawal (Some i) (Some (''Withdrawal failed: '' @ reason))))"
      and po: "posted db1 uuid (w_motebit_id w') (w_amount w') Withdrawal (Some i) (Some (''Withdrawal failed: '' @ reason)) db2"
      by blast
    have "framed db uuid db2" using fr1 posted_frame [OF po] by (auto simp add: framed_def)
    then show ?thesis using True u p w w' same c rel2 from_ok
      by (simp add: sql_failWithdrawalAndRefund_def fail_put_if [OF assms(3)])
  qed
qed

definition holds_agree :: "int \<Rightarrow> sql_db \<Rightarrow> store \<Rightarrow> bool" where
  "holds_agree now db s \<longleftrightarrow> (\<forall>m. sql_getUnwithdrawableHold now db m = st_unwithdrawableHold s m \<and> 0 \<le> st_unwithdrawableHold s m)"

lemma spend_refines:
  assumes "related db s" and "uuid_fresh uuid db" and "holds_agree now db s"
  shows "\<exists>db'. sql_debitSpendable now uuid db m a ty ref desc stamp = Inr (fst (debitSpendable s m a ty ref desc), db')
    \<and> related db' (snd (debitSpendable s m a ty ref desc)) \<and> framed db uuid db'"
proof -
  let ?h = "st_unwithdrawableHold s m"
  have "accounts_wf db" using assms(1) by (simp add: related_def same_books_def)
  from create_effect [OF this] obtain accounts where
    "snd (sql_getOrCreateAccount now db m) = with_books db accounts (relay_transactions db)" by metis
  then have h: "sql_getUnwithdrawableHold now (snd (sql_getOrCreateAccount now db m)) m = ?h"
    using assms(3) by (simp add: holds_agree_def sql_getUnwithdrawableHold_def)
  have "a \<le> a + ?h" using assms(3) by (simp add: holds_agree_def)
  from debit_refines [OF assms(1,2) this, of now m ty ref desc stamp] h show ?thesis
    by (auto simp add: sql_debitSpendable_def case_prod_beta Let_def debitSpendable_eq framed_def algebra_simps)
qed

lemma jsm_set_new: "jsm_get m k = None \<Longrightarrow> jsm_set k v m = m @ [(k, v)]"
  by (induction m) (auto simp add: jsm_get_def jsm_set_def split: if_splits)

lemma find_lines:
  assumes "map queue_line qs = map pending_line ps"
  shows "map_option q_pending_id (find (\<lambda>q. q_motebit_id q = m \<and> q_idempotency_key q = k) qs)
    = map_option p_pendingId (find (\<lambda>p. p_motebitId p = m \<and> p_idempotencyKey p = k) ps)"
  using assms
proof (induction qs arbitrary: ps)
  case (Cons q qs)
  then obtain p ps' where ps: "ps = p # ps'" "queue_line q = pending_line p" "map queue_line qs = map pending_line ps'" by (cases ps) auto
  from Cons.IH [OF ps(3)] show ?case using ps(1,2) by (simp add: queue_line_def pending_line_def)
qed simp

lemma pending_id_new:
  assumes "same_queue db s" and "jsm_get (st_pendingWithdrawals s) p = None"
  shows "p \<notin> q_pending_id ` set (relay_pending_withdrawals db)"
proof
  assume "p \<in> q_pending_id ` set (relay_pending_withdrawals db)"
  then have "p \<in> fst ` set (map queue_line (relay_pending_withdrawals db))" by (auto simp add: queue_line_def image_image)
  moreover have "map queue_line (relay_pending_withdrawals db) = map pending_line (jsm_values (st_pendingWithdrawals s))"
    using assms(1) by (simp add: same_queue_def)
  ultimately have "p \<in> fst ` set (map pending_line (jsm_values (st_pendingWithdrawals s)))" by simp
  then obtain k v where "(k, v) \<in> set (st_pendingWithdrawals s)" "p_pendingId v = p"
    by (auto simp add: pending_line_def jsm_values_def)
  then have "(p, v) \<in> set (st_pendingWithdrawals s)" using assms(1) by (auto simp add: same_queue_def list_all_iff)
  then show False using assms(2) by (metis jsm_get_def map_of_eq_None_iff fst_conv imageI)
qed

lemma enqueue_refines:
  assumes "related db s" and "uuid_fresh uuid db" and "eq_pendingId args = Some p" and "jsm_get (st_pendingWithdrawals s) p = None"
  shows "\<exists>db'. sql_debitAndEnqueuePending now uuid fresh db args = Inr (fst (debitAndEnqueuePending s args), db')
    \<and> related db' (snd (debitAndEnqueuePending s args)) \<and> framed db uuid db'"
proof -
  let ?m = "eq_motebitId args" and ?a = "eq_amountMicro args" and ?k = "eq_idempotencyKey args"
  let ?sql = "if ?k \<noteq> None then find (\<lambda>q. q_motebit_id q = ?m \<and> q_idempotency_key q = ?k) (relay_pending_withdrawals db) else None"
  let ?mem = "if ?k \<noteq> None then find (\<lambda>row. p_motebitId row = ?m \<and> p_idempotencyKey row = ?k) (jsm_values (st_pendingWithdrawals s)) else None"
  have lines: "map queue_line (relay_pending_withdrawals db) = map pending_line (jsm_values (st_pendingWithdrawals s))"
    and bal: "sql_balance db = balance_of s" using assms(1) by (simp_all add: related_def same_queue_def same_books_def)
  have found: "map_option q_pending_id ?sql = map_option p_pendingId ?mem" using find_lines [OF lines, of ?m ?k] by simp
  show ?thesis
  proof (cases ?mem)
    case (Some row)
    then obtain q where q: "?sql = Some q" "q_pending_id q = p_pendingId row" using found by (cases ?sql) auto
    have "sql_debitAndEnqueuePending now uuid fresh db args = Inr (Some (p_pendingId row, balance_of s ?m), db)"
      using q bal by (simp add: sql_debitAndEnqueuePending_def Let_def)
    moreover have "debitAndEnqueuePending s args = (Some (p_pendingId row, balance_of s ?m), s)"
      using Some by (simp add: debitAndEnqueuePending_def balance_of_def)
    ultimately show ?thesis using assms(1) by (auto simp add: framed_def)
  next
    case None
    then have no: "?sql = None" using found by (cases ?sql) auto
    let ?desc = "case eq_description args of Some d \<Rightarrow> d
      | None \<Rightarrow> ''Pending withdrawal '' @ p @ '' '' @ arrow @ '' '' @ eq_destination args @ '' via '' @ eq_rail args"
    let ?d = "debit s ?m ?a Withdrawal (Some p) (Some ?desc)"
    obtain db1 where d1: "guarded_debit now uuid (snd (sql_getOrCreateAccount now db ?m)) ?m ?a ?a Withdrawal (Some p) (Some ?desc) None = Inr (fst ?d, db1)"
      and rel: "related db1 (snd ?d)" and fr: "framed db uuid db1" and pend: "relay_pending_withdrawals db1 = relay_pending_withdrawals db"
      using sql_debit_refines [OF assms(1,2), of now ?m ?a Withdrawal "Some p" "Some ?desc" None]
        debit_refines [OF assms(1,2), of ?a ?a now ?m Withdrawal "Some p" "Some ?desc" None]
      by (auto simp add: sql_debit_def case_prod_beta Let_def framed_def)
    have memd: "debitAndEnqueuePending s args = (case ?d of (None, s) \<Rightarrow> (None, s) | (Some b, s) \<Rightarrow>
        (Some (p, b), (snd (read_now s))\<lparr>st_pendingWithdrawals := jsm_set p
           \<lparr> p_pendingId = p, p_motebitId = ?m, p_amountMicro = ?a, p_destination = eq_destination args, p_rail = eq_rail args,
             p_source = eq_source args, p_enqueuedAt = fst (read_now s), p_status = PendPending, p_idempotencyKey = ?k \<rparr>
           (st_pendingWithdrawals s)\<rparr>))"
      using None assms(3) by (simp add: debitAndEnqueuePending_def Let_def case_prod_beta read_now_def split: option.split)
    show ?thesis
    proof (cases "fst ?d")
      case None
      have "sql_debitAndEnqueuePending now uuid fresh db args = Inr (None, db1)"
        using no d1 None assms(3) by (simp add: sql_debitAndEnqueuePending_def Let_def case_prod_beta)
      then show ?thesis using None memd rel fr by (simp add: case_prod_beta)
    next
      case (Some b)
      let ?q = "\<lparr> q_pending_id = p, q_motebit_id = ?m, q_amount_micro = ?a, q_destination = eq_destination args, q_rail = eq_rail args,
        q_source = eq_source args, q_enqueued_at = now, q_status = QPending, q_idempotency_key = ?k, q_last_attempt_at = None, q_last_error = None \<rparr>"
      have keys: "list_all (\<lambda>(k, p). p_pendingId p = k) (st_pendingWithdrawals s)" using assms(1) by (simp add: related_def same_queue_def)
      have "p \<notin> q_pending_id ` set (relay_pending_withdrawals db)" using pending_id_new [of db s p] assms(1,4) by (simp add: related_def)
      then have sqld: "sql_debitAndEnqueuePending now uuid fresh db args
          = Inr (Some (p, b), db1\<lparr>relay_pending_withdrawals := relay_pending_withdrawals db1 @ [?q]\<rparr>)"
        using no d1 Some assms(3) pend by (simp add: sql_debitAndEnqueuePending_def Let_def case_prod_beta sql_insert_def)
      have pendm: "st_pendingWithdrawals (snd ?d) = st_pendingWithdrawals s" by (simp add: posting_frame)
      let ?s' = "snd (debitAndEnqueuePending s args)"
      let ?db' = "db1\<lparr>relay_pending_withdrawals := relay_pending_withdrawals db1 @ [?q]\<rparr>"
      have s': "balance_of ?s' = balance_of (snd ?d)" "st_transactions ?s' = st_transactions (snd ?d)"
          "st_withdrawals ?s' = st_withdrawals (snd ?d)" "st_idempotencyIndex ?s' = st_idempotencyIndex (snd ?d)"
        using Some memd by (simp_all add: case_prod_beta read_now_def)
      have "same_queue ?db' ?s'"
        using Some memd pendm lines keys pend jsm_set_new [OF assms(4)]
        by (simp add: same_queue_def case_prod_beta queue_line_def pending_line_def jsm_values_def read_now_def list_all_iff)
      moreover have "same_books ?db' ?s'" using rel s'
        by (simp add: related_def same_books_def accounts_wf_def sql_balance_def sql_getAccount_def fun_eq_iff)
      moreover have "same_withdrawals ?db' ?s'" using rel s' same_withdrawals_cong [of db1 "snd ?d" ?db' ?s'] by (simp add: related_def)
      moreover have "fst (debitAndEnqueuePending s args) = Some (p, b)" using Some memd by (simp add: case_prod_beta)
      ultimately show ?thesis using sqld fr by (simp add: related_def framed_def)
    qed
  qed
qed

subsection \<open>Sequences of operations\<close>

datatype ledger_op =
    LCredit string int transaction_type "string option" "string option"
  | LDebit string int transaction_type "string option" "string option"
  | LSpend string int transaction_type "string option" "string option"
  | LRecord new_withdrawal string
  | LClaim string int "int option"
  | LLink string string
  | LSign string string string
  | LComplete string string int withdrawal_status
  | LFail string string withdrawal_status int
  | LNote string string
  | LEnqueue enqueue_args
  | LBalance string
  | LWithdrawal string
  | LByKey string string
  | LDeposited string string
  | LHoldRemaining string
  | LHold string

datatype ledger_answer =
    AnInt int | AnOption "int option" | ABool bool | ADone | AThrow | ARecord "record_result option"
  | ARefund "(string \<times> int) option" | AWithdrawal "withdrawal_request option"

fun mem_op :: "ledger_op \<Rightarrow> store \<Rightarrow> ledger_answer \<times> store" where
  "mem_op (LCredit m a ty ref d) s = map_prod AnInt id (credit s m a ty ref d)"
| "mem_op (LDebit m a ty ref d) s = map_prod AnOption id (debit s m a ty ref d)"
| "mem_op (LSpend m a ty ref d) s = map_prod AnOption id (debitSpendable s m a ty ref d)"
| "mem_op (LRecord w d) s = (case debitAndRecordWithdrawal s w d of Inl _ \<Rightarrow> (AThrow, s) | Inr (r, s') \<Rightarrow> (ARecord r, s'))"
| "mem_op (LClaim i t u) s = map_prod ABool id (claimWithdrawalForPayout s i t u)"
| "mem_op (LLink i r) s = map_prod ABool id (linkWithdrawalTransfer s i r)"
| "mem_op (LSign i g k) s = (ADone, setWithdrawalSignature s i g k)"
| "mem_op (LComplete i r t from) s = map_prod ABool id (setWithdrawalCompletion s i r t from)"
| "mem_op (LFail i r from t) s = map_prod ARefund id (failWithdrawalAndRefund s i r from (Some t))"
| "mem_op (LNote i n) s = map_prod ABool id (noteWithdrawalPayoutUnresolved s i n)"
| "mem_op (LEnqueue args) s = map_prod ARefund id (debitAndEnqueuePending s args)"
| "mem_op (LBalance m) s = (AnInt (case getAccount s m of Some a \<Rightarrow> acc_balance a | None \<Rightarrow> 0), s)"
| "mem_op (LWithdrawal i) s = (AWithdrawal (getWithdrawalById s i), s)"
| "mem_op (LByKey m k) s = (AWithdrawal (getWithdrawalByIdempotencyKey s m k), s)"
| "mem_op (LDeposited m r) s = (ABool (hasDepositWithReference s m r), s)"
| "mem_op (LHoldRemaining r) s = (AnInt (getAllocationHoldRemaining s r), s)"
| "mem_op (LHold m) s = (AnInt (getUnwithdrawableHold s m), s)"

definition answer :: "('a \<Rightarrow> ledger_answer) \<Rightarrow> sql_db \<Rightarrow> sql_error + 'a \<times> sql_db \<Rightarrow> ledger_answer \<times> sql_db" where
  \<comment> \<open>a throw rolls the transaction back\<close>
  "answer f db r = (case r of Inl _ \<Rightarrow> (AThrow, db) | Inr (x, db') \<Rightarrow> (f x, db'))"

fun sql_op :: "int \<Rightarrow> string \<Rightarrow> ledger_op \<Rightarrow> sql_db \<Rightarrow> ledger_answer \<times> sql_db" where
  "sql_op now u (LCredit m a ty ref d) db = answer AnInt db (sql_credit now u db m a ty ref d None)"
| "sql_op now u (LDebit m a ty ref d) db = answer AnOption db (sql_debit now u db m a ty ref d None)"
| "sql_op now u (LSpend m a ty ref d) db = answer AnOption db (sql_debitSpendable now u db m a ty ref d None)"
| "sql_op now u (LRecord w d) db = answer ARecord db (sql_debitAndRecordWithdrawal now u db w d)"
| "sql_op now u (LClaim i t v) db = map_prod ABool id (sql_claimWithdrawalForPayout db i t v)"
| "sql_op now u (LLink i r) db = map_prod ABool id (sql_linkWithdrawalTransfer db i r)"
| "sql_op now u (LSign i g k) db = (ADone, sql_setWithdrawalSignature db i g k)"
| "sql_op now u (LComplete i r t from) db = answer ABool db (sql_setWithdrawalCompletion db i r t from)"
| "sql_op now u (LFail i r from t) db = answer ARefund db (sql_failWithdrawalAndRefund now u db i r from t)"
| "sql_op now u (LNote i n) db = map_prod ABool id (sql_noteWithdrawalPayoutUnresolved db i n)"
| "sql_op now u (LEnqueue args) db = answer ARefund db (sql_debitAndEnqueuePending now u [] db args)"
| "sql_op now u (LBalance m) db = (AnInt (case sql_getAccount db m of Some a \<Rightarrow> acc_balance a | None \<Rightarrow> 0), db)"
| "sql_op now u (LWithdrawal i) db = (AWithdrawal (map_option withdrawal_request.truncate (sql_getWithdrawalById db i)), db)"
| "sql_op now u (LByKey m k) db = (AWithdrawal (map_option withdrawal_request.truncate (sql_getWithdrawalByIdempotencyKey db m k)), db)"
| "sql_op now u (LDeposited m r) db = (ABool (sql_hasDepositWithReference db m r), db)"
| "sql_op now u (LHoldRemaining r) db = (AnInt (sql_getAllocationHoldRemaining db r), db)"
| "sql_op now u (LHold m) db = (AnInt (sql_getUnwithdrawableHold now db m), db)"

text \<open>What the callers keep: new ids, a pending id of their own, and motebit ids without a colon where a key is looked up.\<close>

fun op_ok :: "ledger_op \<Rightarrow> store \<Rightarrow> bool" where
  "op_ok (LRecord w d) s \<longleftrightarrow> CHR '':'' \<notin> set (nw_motebit_id w) \<and> nw_withdrawal_id w \<noteq> [] \<and> getWithdrawalById s (nw_withdrawal_id w) = None"
| "op_ok (LByKey m k) s \<longleftrightarrow> CHR '':'' \<notin> set m"
| "op_ok (LEnqueue args) s \<longleftrightarrow> (case eq_pendingId args of Some p \<Rightarrow> jsm_get (st_pendingWithdrawals s) p = None | None \<Rightarrow> False)"
| "op_ok _ s \<longleftrightarrow> True"

text \<open>The one answer that differs: from a state that is not open SQLite throws, where the reference store answers that nothing was changed.\<close>

fun closed_from :: "ledger_op \<Rightarrow> bool" where
  "closed_from (LComplete i r t from) \<longleftrightarrow> \<not> isOpenFrom from"
| "closed_from (LFail i r from t) \<longleftrightarrow> \<not> isOpenFrom from"
| "closed_from _ \<longleftrightarrow> False"

definition sql_answer :: "ledger_op \<Rightarrow> ledger_answer \<Rightarrow> ledger_answer" where
  "sql_answer op a = (if closed_from op then AThrow else a)"

lemma closed_from_refines:
  assumes "closed_from op"
  shows "sql_op now u op db = (AThrow, db)" and "snd (mem_op op s) = s"
  using assms by (cases op; simp add: answer_def sql_setWithdrawalCompletion_def sql_failWithdrawalAndRefund_def openStatus_def isOpenFrom_def
      setWithdrawalCompletion_def failWithdrawalAndRefund_def split: option.split)+

lemma ledger_lines_ex:
  assumes "map ledger_line ts = map ledger_line us"
  shows "list_ex (\<lambda>t. tx_motebit_id t = m \<and> tx_reference_id t = r \<and> tx_type t = ty) ts
    = list_ex (\<lambda>t. tx_motebit_id t = m \<and> tx_reference_id t = r \<and> tx_type t = ty) us"
  using assms
proof (induction ts arbitrary: us)
  case (Cons t ts)
  then obtain u us' where us: "us = u # us'" "ledger_line t = ledger_line u" "map ledger_line ts = map ledger_line us'" by (cases us) auto
  from Cons.IH [OF us(3)] us(1,2) show ?case by (simp add: ledger_line_def)
qed simp

lemma ledger_lines_hold:
  assumes "map ledger_line ts = map ledger_line us"
  shows "holdNet r net us = net + sum_list (map tx_amount (filter (\<lambda>t. tx_reference_id t = Some r \<and> (tx_type t = AllocationHold \<or> tx_type t = AllocationRelease)) ts))"
  using assms
proof (induction ts arbitrary: us net)
  case (Cons t ts)
  then obtain u us' where us: "us = u # us'" "ledger_line t = ledger_line u" "map ledger_line ts = map ledger_line us'" by (cases us) auto
  from Cons.IH [OF us(3)] us(1,2) show ?case by (simp add: ledger_line_def)
qed simp

lemma framed_refl [simp]: "framed db u db"
  by (auto simp add: framed_def)

lemma op_refines:
  assumes "related db s" and "uuid_fresh u db" and "holds_agree now db s" and "op_ok op s" and "\<not> closed_from op"
  shows "fst (sql_op now u op db) = fst (mem_op op s) \<and> related (snd (sql_op now u op db)) (snd (mem_op op s))
    \<and> framed db u (snd (sql_op now u op db))"
proof (cases op)
  case (LCredit m a ty ref d)
  obtain db' where "sql_credit now u db m a ty ref d None = Inr (fst (credit s m a ty ref d), db')"
    "related db' (snd (credit s m a ty ref d))" and p: "posted db u m a ty ref d db'"
    using credit_refines [OF assms(1,2)] by metis
  then show ?thesis using LCredit posted_frame [OF p] by (simp add: answer_def framed_def)
next
  case (LDebit m a ty ref d)
  then show ?thesis using sql_debit_refines [OF assms(1,2), of now m a ty ref d None] by (auto simp add: answer_def)
next
  case (LSpend m a ty ref d)
  then show ?thesis using spend_refines [OF assms(1-3), of m a ty ref d None] by (auto simp add: answer_def)
next
  case (LRecord w d)
  then show ?thesis using record_refines [OF assms(1,2), where w = w and desc = d and now = now] assms(1,4)
    by (auto simp add: answer_def framed_def [of db u db] split: sum.splits prod.splits)
next
  case (LClaim i t v)
  then show ?thesis using update_refines [OF assms(1), of "\<lambda>w. w_status w = Pending" "\<lambda>w. w_status w = Pending"
      "\<lambda>w. w\<lparr>w_status := Processing, w_claimed_at := Some t, w_payout_valid_until := v\<rparr>"
      "\<lambda>w. w\<lparr>w_status := Processing, w_claimed_at := Some t, w_payout_valid_until := v\<rparr>" i]
    by (simp add: sql_claimWithdrawalForPayout_def claim_put_if truncate_defs framed_update)
next
  case (LLink i r)
  then show ?thesis using update_refines [OF assms(1),
      of "\<lambda>w. (w_status w = Pending \<or> w_status w = Processing) \<and> w_payout_reference w = None"
      "\<lambda>w. (w_status w = Pending \<or> w_status w = Processing) \<and> w_payout_reference w = None"
      "\<lambda>w. w\<lparr>w_payout_reference := Some r\<rparr>" "\<lambda>w. w\<lparr>w_payout_reference := Some r\<rparr>" i]
    by (simp add: sql_linkWithdrawalTransfer_def link_put_if truncate_defs framed_update)
next
  case (LSign i g k)
  then show ?thesis using update_refines [OF assms(1), of "\<lambda>_. True" "\<lambda>_. True"
      "\<lambda>w. w\<lparr>w_relay_signature := Some g, w_relay_public_key := Some k\<rparr>"
      "\<lambda>w. w\<lparr>w_relay_signature := Some g, w_relay_public_key := Some k\<rparr>" i]
    by (simp add: sql_setWithdrawalSignature_def sign_put_if truncate_defs framed_update)
next
  case (LComplete i r t frm)
  then have "openStatus frm = Inr frm" "isOpenFrom frm" using assms(5) by (auto simp add: openStatus_def isOpenFrom_def)
  then show ?thesis using LComplete update_refines [OF assms(1), of "\<lambda>w. w_status w = frm" "\<lambda>w. w_status w = frm"
      "\<lambda>w. w\<lparr>w_status := Completed, w_payout_reference := Some r, w_completed_at := Some t, w_failure_reason := None\<rparr>"
      "\<lambda>w. w\<lparr>w_status := Completed, w_payout_reference := Some r, w_completed_at := Some t, w_failure_reason := None\<rparr>" i]
    by (simp add: sql_setWithdrawalCompletion_def completion_put_if truncate_defs framed_update answer_def case_prod_beta)
next
  case (LFail i r frm t)
  then show ?thesis using fail_refines [OF assms(1,2), of frm now i r t] assms(5) by (auto simp add: answer_def)
next
  case (LNote i n)
  then show ?thesis using update_refines [OF assms(1), of "\<lambda>w. w_status w = Processing" "\<lambda>w. w_status w = Processing"
      "\<lambda>w. w\<lparr>w_failure_reason := Some n\<rparr>" "\<lambda>w. w\<lparr>w_failure_reason := Some n\<rparr>" i]
    by (simp add: sql_noteWithdrawalPayoutUnresolved_def note_put_if truncate_defs framed_update)
next
  case (LEnqueue args)
  then obtain p where "eq_pendingId args = Some p" "jsm_get (st_pendingWithdrawals s) p = None" using assms(4) by (auto split: option.splits)
  from enqueue_refines [OF assms(1,2) this, of now "[]"] show ?thesis using LEnqueue by (auto simp add: answer_def)
next
  case (LBalance m)
  then show ?thesis using assms(1) by (auto simp add: related_def same_books_def sql_balance_def [symmetric] getAccount_def balance_of_def [symmetric] framed_def)
next
  case (LWithdrawal i)
  then show ?thesis using assms(1) by (auto simp add: related_def same_withdrawals_def framed_def)
next
  case (LByKey m k)
  then show ?thesis using assms(1,4) existing_same [of db s m k] by (simp add: related_def)
next
  case (LDeposited m r)
  then show ?thesis using assms(1) ledger_lines_ex [of "relay_transactions db" "st_transactions s"]
    by (simp add: related_def same_books_def sql_hasDepositWithReference_def hasDepositWithReference_def)
next
  case (LHoldRemaining r)
  then show ?thesis using assms(1) ledger_lines_hold [of "relay_transactions db" "st_transactions s" r 0]
    by (simp add: related_def same_books_def sql_getAllocationHoldRemaining_def getAllocationHoldRemaining_def)
next
  case (LHold m)
  then show ?thesis using assms(1,3) by (simp add: holds_agree_def getUnwithdrawableHold_def)
qed

subsection \<open>Properties\<close>

text \<open>
  The tables that the escrow hold is read from are written by other parts of the relay, between the operations of the ledger: every step of a trace comes with
  what they hold at its time. The hold of the reference store is a function given to it; here it is the one these tables define.
\<close>

type_synonym escrow_tables = "settlement_row list option \<times> dispute_row list option"

type_synonym ledger_step = "int \<times> string \<times> escrow_tables \<times> ledger_op"

definition at_escrow :: "escrow_tables \<Rightarrow> sql_db \<Rightarrow> sql_db" where
  "at_escrow e db = db\<lparr>relay_settlements := fst e, relay_disputes := snd e\<rparr>"

definition with_hold :: "int \<Rightarrow> escrow_tables \<Rightarrow> store \<Rightarrow> store" where
  "with_hold now e s = s\<lparr>st_unwithdrawableHold := sql_getUnwithdrawableHold now (createAccountTables (fst e) (snd e) None)\<rparr>"

definition settled_amounts_ok :: "escrow_tables \<Rightarrow> bool" where
  "settled_amounts_ok e \<longleftrightarrow> list_all (\<lambda>r. 0 \<le> sr_amount_settled r) (case fst e of Some ss \<Rightarrow> ss | None \<Rightarrow> [])"

fun sql_trace :: "ledger_step list \<Rightarrow> sql_db \<Rightarrow> ledger_answer list" where
  "sql_trace [] db = []"
| "sql_trace ((now, u, e, op) # steps) db = (case sql_op now u op (at_escrow e db) of (a, db') \<Rightarrow> a # sql_trace steps db')"

fun mem_trace :: "ledger_step list \<Rightarrow> store \<Rightarrow> ledger_answer list" where
  "mem_trace [] s = []"
| "mem_trace ((now, u, e, op) # steps) s = (case mem_op op (with_hold now e s) of (a, s') \<Rightarrow> a # mem_trace steps s')"

fun steps_ok :: "ledger_step list \<Rightarrow> store \<Rightarrow> bool" where
  "steps_ok [] s \<longleftrightarrow> True"
| "steps_ok ((now, u, e, op) # steps) s \<longleftrightarrow> op_ok op s \<and> settled_amounts_ok e \<and> steps_ok steps (snd (mem_op op (with_hold now e s)))"

lemma related_at: "related (at_escrow e db) (with_hold now e s) = related db s"
  by (simp add: related_def same_books_def same_withdrawals_def same_queue_def at_escrow_def with_hold_def accounts_wf_def sql_balance_def [abs_def]
      sql_getAccount_def balance_of_def [abs_def] sql_getWithdrawalById_def getWithdrawalById_def sql_getWithdrawalByIdempotencyKey_def)

lemma holds_at:
  assumes "settled_amounts_ok e"
  shows "holds_agree now (at_escrow e db) (with_hold now e s)"
proof -
  have "0 \<le> sum_list (map sr_amount_settled (filter P ss))" if "fst e = Some ss" for P ss
    using assms that by (intro sum_list_nonneg) (auto simp add: settled_amounts_ok_def list_all_iff)
  then show ?thesis
    by (auto simp add: holds_agree_def at_escrow_def with_hold_def createAccountTables_def sql_getUnwithdrawableHold_def split: option.split prod.split)
qed

lemma op_ok_hold: "op_ok op (with_hold now e s) = op_ok op s"
  by (cases op) (simp_all add: with_hold_def getWithdrawalById_def split: option.split)

lemma step_refines:
  assumes "related db s" and "uuid_fresh u db" and "op_ok op s" and "settled_amounts_ok e"
  shows "fst (sql_op now u op (at_escrow e db)) = sql_answer op (fst (mem_op op (with_hold now e s)))
    \<and> related (snd (sql_op now u op (at_escrow e db))) (snd (mem_op op (with_hold now e s))) \<and> framed (at_escrow e db) u (snd (sql_op now u op (at_escrow e db)))"
proof (cases "closed_from op")
  case True
  then show ?thesis using closed_from_refines [OF True] assms(1) by (simp add: sql_answer_def related_at)
next
  case False
  have "uuid_fresh u (at_escrow e db)" using assms(2) by (simp add: uuid_fresh_def at_escrow_def)
  then show ?thesis
    using op_refines [of "at_escrow e db" "with_hold now e s" u now op] False assms(1,3) holds_at [OF assms(4)]
    by (simp add: related_at op_ok_hold sql_answer_def)
qed

lemma trace_refines:
  assumes "related db s" and "steps_ok steps s" and "distinct (map (fst \<circ> snd) steps)" and "list_all (\<lambda>(now, u, _). uuid_fresh u db) steps"
  shows "sql_trace steps db = map2 (\<lambda>(now, u, e, op). sql_answer op) steps (mem_trace steps s)"
  using assms
proof (induction steps arbitrary: db s)
  case (Cons step steps)
  obtain now u e op where step: "step = (now, u, e, op)" by (cases step) auto
  let ?db = "snd (sql_op now u op (at_escrow e db))" and ?s = "snd (mem_op op (with_hold now e s))"
  have r: "fst (sql_op now u op (at_escrow e db)) = sql_answer op (fst (mem_op op (with_hold now e s)))" "related ?db ?s"
    and fr: "framed (at_escrow e db) u ?db"
    using step_refines [OF Cons.prems(1), of u op e now] Cons.prems(2,4) step by auto
  have "list_all (\<lambda>(now, v, _). uuid_fresh v ?db) steps"
    unfolding list_all_iff
  proof clarify
    fix t v x
    assume m: "(t, v, x) \<in> set steps"
    then have "v \<noteq> u" using Cons.prems(3) step by (force simp add: image_iff)
    moreover have "uuid_fresh v db" using m Cons.prems(4) by (auto simp add: list_all_iff)
    ultimately show "uuid_fresh v ?db" using fr by (auto simp add: framed_def uuid_fresh_def at_escrow_def)
  qed
  then have "sql_trace steps ?db = map2 (\<lambda>(now, u, e, op). sql_answer op) steps (mem_trace steps ?s)"
    using Cons.IH [OF r(2)] Cons.prems(2,3) step by simp
  then show ?case using r(1) step by (simp add: case_prod_beta)
qed simp

text \<open>
  (C2) The SQLite ledger implements the reference ledger: from related states a sequence of ledger operations gets the same answers from both, refusals and
  throws included, but for one case: asked to complete or fail a withdrawal from a state that is not open, SQLite throws where the reference store answers that
  it changed nothing. The operations are the credits and debits, the whole withdrawal lifecycle, the queue of batched withdrawals and the reads of a balance, of a
  withdrawal by its id and by its key, of a deposit reference, of an allocation's remainder and of the escrow hold. Before each the settlements and disputes
  may be anything with non-negative amounts. The callers name new withdrawal ids and new pending ids of their own, use motebit ids without a colon where
  they record or look up by key, and the UUIDs of the transactions are new.
\<close>

theorem sqlite_refines_reference:
  assumes "related db s" and "steps_ok steps s" and "distinct (map (fst \<circ> snd) steps)" and "list_all (\<lambda>(now, u, _). uuid_fresh u db) steps"
  shows "sql_trace steps db = map2 (\<lambda>(now, u, e, op). sql_answer op) steps (mem_trace steps s)"
  using assms by (rule trace_refines)

definition demo_new_withdrawal :: new_withdrawal where
  "demo_new_withdrawal = \<lparr> nw_withdrawal_id = ''w1'', nw_motebit_id = ''m'', nw_amount = 40, nw_currency = ''USD'',
     nw_destination = ''pending'', nw_idempotency_key = Some ''k'', nw_requested_at = 3 \<rparr>"

definition demo_settlement :: "string \<Rightarrow> int \<Rightarrow> int \<Rightarrow> settlement_row" where
  "demo_settlement t settled a = \<lparr> sr_motebit_id = ''m'', sr_task_id = t, sr_status = ''completed'', sr_settlement_mode = Some ''relay'', sr_settled_at = settled, sr_amount_settled = a \<rparr>"

definition demo_escrow_tables :: escrow_tables where
  \<comment> \<open>one settlement within the window, one older under an open dispute\<close>
  "demo_escrow_tables = (Some [demo_settlement ''t1'' 80000000 20, demo_settlement ''t2'' 0 30], Some [\<lparr> dr_task_id = ''t2'', dr_state = ''opened'' \<rparr>])"

definition demo_steps :: "ledger_step list" where
  "demo_steps = [(1, ''u1'', (None, None), LCredit ''m'' 100 Deposit (Some ''r'') None), (2, ''u2'', (None, None), LRecord demo_new_withdrawal ''d''),
     (3, ''u3'', (None, None), LDebit ''m'' 70 Fee None None), (4, ''u4'', (None, None), LFail ''w1'' ''r'' Completed 9), (5, ''u5'', (None, None), LFail ''w1'' ''r'' Pending 9),
     (90000000, ''u6'', demo_escrow_tables, LSpend ''m'' 60 Fee None None), (90000000, ''u7'', demo_escrow_tables, LSpend ''m'' 50 Fee None None),
     (90000001, ''u8'', demo_escrow_tables, LBalance ''m''), (90000002, ''u9'', demo_escrow_tables, LDeposited ''m'' ''r'')]"

definition demo_reference :: store where
  "demo_reference = newInMemoryAccountStore (\<lambda>_. 0) (\<lambda>_. 0) (\<lambda>_. \<lparr> sweep_threshold = None, settlement_address = None \<rparr>) int"

lemma sqlite_refines_reference_witness:
  "sql_trace demo_steps (createAccountTables None None None) = map2 (\<lambda>(now, u, e, op). sql_answer op) demo_steps (mem_trace demo_steps demo_reference)"
proof (rule sqlite_refines_reference)
  show "related (createAccountTables None None None) demo_reference" unfolding demo_reference_def by (rule related_new)
  show "steps_ok demo_steps demo_reference" by code_simp
  show "distinct (map (fst \<circ> snd) demo_steps)" by (simp add: demo_steps_def)
  show "list_all (\<lambda>(now, u, _). uuid_fresh u (createAccountTables None None None)) demo_steps"
    by (simp add: demo_steps_def uuid_fresh_def createAccountTables_def)
qed

lemma demo_steps_answers:
  "map (\<lambda>a. case a of AnOption b \<Rightarrow> b | AnInt b \<Rightarrow> Some b | _ \<Rightarrow> None) (mem_trace demo_steps demo_reference) = [Some 100, None, None, None, None, None, Some 50, Some 50, None]"
  by code_simp

text \<open>The case in which the two stores differ: a withdrawal that is completed is asked to fail from that state.\<close>

lemma closed_from_state_differs:
  "sql_trace [(1, ''u'', (None, None), LFail ''w'' ''r'' Completed 2)] (createAccountTables None None None) = [AThrow]
   \<and> mem_trace [(1, ''u'', (None, None), LFail ''w'' ''r'' Completed 2)] demo_reference = [ARefund None]"
  by code_simp

definition queue_wf :: "sql_db \<Rightarrow> bool" where
  "queue_wf db \<longleftrightarrow> distinct (map q_pending_id (relay_pending_withdrawals db))"

lemma refund_effect:
  assumes "accounts_wf db" and "queue_wf db" and "uuid_fresh u db"
  shows "case find (\<lambda>q. q_pending_id q = p) (relay_pending_withdrawals db) of
      Some q \<Rightarrow> if q_status q = QRefundOwed
        then \<exists>db'. refundPendingWithdrawal now u db p t = Inr (True, db')
          \<and> sql_balance db' = (sql_balance db)(q_motebit_id q := sql_balance db (q_motebit_id q) + q_amount_micro q)
          \<and> accounts_wf db' \<and> queue_wf db'
          \<and> find (\<lambda>q. q_pending_id q = p) (relay_pending_withdrawals db') = Some (q\<lparr>q_status := QRefunded, q_last_attempt_at := Some t\<rparr>)
        else refundPendingWithdrawal now u db p t = Inr (False, db)
    | None \<Rightarrow> refundPendingWithdrawal now u db p t = Inr (False, db)"
proof -
  let ?P = "\<lambda>q. q_pending_id q = p \<and> q_status q = QRefundOwed"
  let ?f = "\<lambda>q. q\<lparr>q_status := QRefunded, q_last_attempt_at := Some t\<rparr>"
  let ?rows = "map (\<lambda>q. if ?P q then ?f q else q) (relay_pending_withdrawals db)"
  let ?db1 = "db\<lparr>relay_pending_withdrawals := ?rows\<rparr>"
  have cnt: "filter ?P (relay_pending_withdrawals db) = (case find (\<lambda>q. q_pending_id q = p) (relay_pending_withdrawals db) of
      Some q \<Rightarrow> if q_status q = QRefundOwed then [q] else [] | None \<Rightarrow> [])"
    using assms(2) by (simp add: queue_wf_def filter_keyed)
  have none: "filter ?P (relay_pending_withdrawals db) = [] \<Longrightarrow> ?db1 = db"
  proof -
    assume "filter ?P (relay_pending_withdrawals db) = []"
    then have "?rows = relay_pending_withdrawals db" by (intro map_idI) (auto simp add: filter_empty_conv)
    then show "?db1 = db" by simp
  qed
  show ?thesis
  proof (cases "filter ?P (relay_pending_withdrawals db) = []")
    case True
    then have "refundPendingWithdrawal now u db p t = Inr (False, ?db1)" by (simp add: refundPendingWithdrawal_def sql_update_def Let_def)
    then have no: "refundPendingWithdrawal now u db p t = Inr (False, db)" unfolding none [OF True] .
    show ?thesis
    proof (cases "find (\<lambda>q. q_pending_id q = p) (relay_pending_withdrawals db)")
      case None
      then show ?thesis using no by simp
    next
      case (Some q)
      then have "q_status q \<noteq> QRefundOwed" using cnt True by (simp split: if_splits)
      then show ?thesis using Some no by simp
    qed
  next
    case False
    then obtain q where q: "find (\<lambda>q. q_pending_id q = p) (relay_pending_withdrawals db) = Some q" "q_status q = QRefundOwed"
      using cnt by (cases "find (\<lambda>q. q_pending_id q = p) (relay_pending_withdrawals db)") (auto split: if_splits)
    have look: "find (\<lambda>q. q_pending_id q = p) ?rows = Some (?f q)"
      using find_keyed_update [of q_pending_id ?f p ?P "relay_pending_withdrawals db"] q find_key [OF q(1)] by simp
    let ?desc = "Some (''Pending withdrawal '' @ p @ '' not sent: '' @ (case q_last_error q of Some e \<Rightarrow> e | None \<Rightarrow> ''refunded''))"
    have wf1: "accounts_wf ?db1" and fr1: "uuid_fresh u ?db1" and bal1: "sql_balance ?db1 = sql_balance db"
      using assms(1,3) by (simp_all add: accounts_wf_def uuid_fresh_def fun_eq_iff sql_balance_def sql_getAccount_def)
    obtain db' where c: "sql_credit now u ?db1 (q_motebit_id q) (q_amount_micro q) Withdrawal (Some p) ?desc None
        = Inr (sql_balance db (q_motebit_id q) + q_amount_micro q, db')"
      and po: "posted ?db1 u (q_motebit_id q) (q_amount_micro q) Withdrawal (Some p) ?desc db'"
      using credit_effect [OF wf1 fr1, where now = now and m = "q_motebit_id q" and a = "q_amount_micro q" and ty = Withdrawal
          and ref = "Some p" and desc = ?desc and stamp = None] unfolding bal1 by blast
    have "refundPendingWithdrawal now u db p t = Inr (True, db')"
      using False look c by (simp add: refundPendingWithdrawal_def sql_update_def Let_def)
    moreover have "sql_balance db' = (sql_balance db)(q_motebit_id q := sql_balance db (q_motebit_id q) + q_amount_micro q)" "accounts_wf db'"
      using po bal1 by (auto simp add: posted_def)
    moreover have "relay_pending_withdrawals db' = ?rows" using posted_frame(2) [OF po] by simp
    moreover have "distinct (map q_pending_id ?rows)"
      using assms(2) map_keyed_update [of q_pending_id ?f ?P "relay_pending_withdrawals db"] by (simp add: queue_wf_def del: map_map)
    ultimately show ?thesis using q look by (simp add: queue_wf_def)
  qed
qed

text \<open>
  A batched withdrawal is refunded at most once: a refund that is carried out credits exactly the queued amount
  to its motebit, and asking again for the same row changes nothing; a row that is not owed a refund is
  never credited.
\<close>

theorem queued_refund_once:
  assumes "accounts_wf db" and "queue_wf db" and "uuid_fresh u db"
  shows "\<exists>b db'. refundPendingWithdrawal now u db p t = Inr (b, db')
    \<and> (\<forall>u' now' t'. uuid_fresh u' db' \<longrightarrow> refundPendingWithdrawal now' u' db' p t' = Inr (False, db'))
    \<and> (if b then \<exists>q \<in> set (relay_pending_withdrawals db). q_pending_id q = p \<and> q_status q = QRefundOwed
           \<and> sql_balance db' = (sql_balance db)(q_motebit_id q := sql_balance db (q_motebit_id q) + q_amount_micro q)
       else db' = db)"
proof (cases "\<exists>q. find (\<lambda>q. q_pending_id q = p) (relay_pending_withdrawals db) = Some q \<and> q_status q = QRefundOwed")
  case True
  then obtain q where q: "find (\<lambda>q. q_pending_id q = p) (relay_pending_withdrawals db) = Some q" "q_status q = QRefundOwed" by blast
  from refund_effect [OF assms, where p = p and now = now and t = t] q obtain db' where
    db': "refundPendingWithdrawal now u db p t = Inr (True, db')" "accounts_wf db'" "queue_wf db'"
      "sql_balance db' = (sql_balance db)(q_motebit_id q := sql_balance db (q_motebit_id q) + q_amount_micro q)"
      "find (\<lambda>q. q_pending_id q = p) (relay_pending_withdrawals db') = Some (q\<lparr>q_status := QRefunded, q_last_attempt_at := Some t\<rparr>)"
    by auto
  have "refundPendingWithdrawal now' u' db' p t' = Inr (False, db')" if "uuid_fresh u' db'" for u' now' t'
    using refund_effect [OF db'(2,3) that, where p = p and now = now' and t = t'] unfolding db'(5) by simp
  then show ?thesis using db'(1,4) q(2) find_key [OF q(1)] by (intro exI [of _ True] exI [of _ db']) auto
next
  case False
  have no: "refundPendingWithdrawal now' u' db p t' = Inr (False, db)" if "uuid_fresh u' db" for u' now' t'
    using refund_effect [OF assms(1,2) that, where p = p and now = now' and t = t'] False
    by (cases "find (\<lambda>q. q_pending_id q = p) (relay_pending_withdrawals db)") simp_all
  then show ?thesis using assms(3) by (intro exI [of _ False] exI [of _ db]) simp
qed

definition demo_owed :: sql_db where
  "demo_owed = (createAccountTables None None None)
     \<lparr>relay_pending_withdrawals :=
        [\<lparr> q_pending_id = ''p'', q_motebit_id = ''m'', q_amount_micro = 7, q_destination = ''w'', q_rail = ''x402'', q_source = Sweep,
           q_enqueued_at = 0, q_status = QRefundOwed, q_idempotency_key = None, q_last_attempt_at = None, q_last_error = None \<rparr>]\<rparr>"

lemma queued_refund_once_witness:
  "\<exists>b db'. refundPendingWithdrawal 1 ''u'' demo_owed ''p'' 2 = Inr (b, db') \<and> (if b then sql_balance db' ''m'' = 7 else db' = demo_owed)"
proof -
  have "accounts_wf demo_owed" "queue_wf demo_owed" "uuid_fresh ''u'' demo_owed"
    by (simp_all add: accounts_wf_def queue_wf_def uuid_fresh_def createAccountTables_def demo_owed_def)
  from queued_refund_once [OF this, where now = 1 and p = "''p''" and t = 2] obtain b db' where
    *: "refundPendingWithdrawal 1 ''u'' demo_owed ''p'' 2 = Inr (b, db')"
      "if b then \<exists>q \<in> set (relay_pending_withdrawals demo_owed). q_pending_id q = ''p'' \<and> q_status q = QRefundOwed
           \<and> sql_balance db' = (sql_balance demo_owed)(q_motebit_id q := sql_balance demo_owed (q_motebit_id q) + q_amount_micro q)
       else db' = demo_owed"
    by blast
  moreover have "relay_pending_withdrawals demo_owed \<noteq> []" "sql_balance demo_owed ''m'' = 0"
    by (simp_all add: demo_owed_def sql_balance_def sql_getAccount_def createAccountTables_def)
  moreover have "q_motebit_id q = ''m'' \<and> q_amount_micro q = 7" if "q \<in> set (relay_pending_withdrawals demo_owed)" for q
    using that by (simp add: demo_owed_def)
  ultimately show ?thesis by (intro exI [of _ b] exI [of _ db'] conjI) (auto split: if_splits)
qed

subsection \<open>Money under escrow\<close>

text \<open>What a motebit was paid through the relay for tasks under a dispute that is still open, whenever it was settled.\<close>

definition paid_through_relay :: "string \<Rightarrow> settlement_row \<Rightarrow> bool" where
  "paid_through_relay m s \<longleftrightarrow> sr_motebit_id s = m \<and> sr_status s \<in> {''completed'', ''partial''} \<and> sr_settlement_mode s \<in> {None, Some ''relay''}"

definition under_dispute :: "sql_db \<Rightarrow> settlement_row \<Rightarrow> bool" where
  "under_dispute db s \<longleftrightarrow> (\<exists>d \<in> set (case relay_disputes db of Some ds \<Rightarrow> ds | None \<Rightarrow> []).
     dr_task_id d = sr_task_id s \<and> dr_state d \<notin> {''final'', ''expired''})"

definition disputed_sum :: "string \<Rightarrow> sql_db \<Rightarrow> int" where
  "disputed_sum m db = sum_list (map sr_amount_settled (filter (\<lambda>s. paid_through_relay m s \<and> under_dispute db s)
     (case relay_settlements db of Some ss \<Rightarrow> ss | None \<Rightarrow> [])))"

lemma sum_filter_mono:
  fixes f :: "'a \<Rightarrow> int"
  shows "\<forall>x \<in> set xs. 0 \<le> f x \<Longrightarrow> (\<And>x. P x \<Longrightarrow> Q x) \<Longrightarrow> sum_list (map f (filter P xs)) \<le> sum_list (map f (filter Q xs))"
proof (induction xs)
  case (Cons x xs)
  then show ?case by fastforce
qed simp

lemma disputed_is_held:
  assumes "settled_amounts_ok (relay_settlements db, relay_disputes db)"
  shows "disputed_sum m db \<le> sql_getUnwithdrawableHold now db m"
proof (cases "relay_settlements db")
  case None
  then show ?thesis by (simp add: disputed_sum_def sql_getUnwithdrawableHold_def)
next
  case (Some ss)
  show ?thesis
  proof (cases "relay_disputes db")
    case None
    then show ?thesis using Some by (simp add: disputed_sum_def sql_getUnwithdrawableHold_def under_dispute_def)
  next
    case d: (Some ds)
    have "\<forall>x \<in> set ss. 0 \<le> sr_amount_settled x" using assms Some by (simp add: settled_amounts_ok_def list_all_iff)
    moreover have "escrowed (now - DISPUTE_WINDOW_MS) m ds x" if "paid_through_relay m x \<and> under_dispute db x" for x
      using that d by (auto simp add: escrowed_def paid_through_relay_def under_dispute_def list_ex_iff split: option.split)
    ultimately show ?thesis
      unfolding disputed_sum_def sql_getUnwithdrawableHold_def Some d by (simp add: sum_filter_mono)
  qed
qed

text \<open>
  (C30) Money under escrow cannot be spent: a spend goes through exactly when the balance covers it and the hold; then it takes exactly its amount from that account and leaves at
  least the hold, and with it everything the motebit was paid through the relay for a task under an open dispute, however long ago it was settled. A refused spend leaves every
  balance as it was. Settled amounts are non-negative.
\<close>

theorem spending_keeps_escrow:
  assumes "accounts_wf db" and "uuid_fresh u db" and "settled_amounts_ok (relay_settlements db, relay_disputes db)"
  shows "\<exists>r db'. sql_debitSpendable now u db m a ty ref desc stamp = Inr (r, db')
    \<and> (if sql_balance db m < a + sql_getUnwithdrawableHold now db m then r = None \<and> sql_balance db' = sql_balance db
       else r = Some (sql_balance db m - a) \<and> sql_balance db' = (sql_balance db)(m := sql_balance db m - a)
         \<and> sql_getUnwithdrawableHold now db' m \<le> sql_balance db' m \<and> disputed_sum m db' \<le> sql_balance db' m)"
proof -
  let ?h = "sql_getUnwithdrawableHold now db m"
  obtain accounts where c: "snd (sql_getOrCreateAccount now db m) = with_books db accounts (relay_transactions db)"
    using create_effect [OF assms(1)] by metis
  have h: "sql_getUnwithdrawableHold now (snd (sql_getOrCreateAccount now db m)) m = ?h"
    unfolding c by (simp add: sql_getUnwithdrawableHold_def)
  obtain db' where g: "guarded_debit now u (snd (sql_getOrCreateAccount now db m)) m a (a + ?h) ty ref desc stamp
      = Inr (if sql_balance db m < a + ?h then None else Some (sql_balance db m - a), db')"
    and e: "if sql_balance db m < a + ?h
       then \<exists>accounts. db' = with_books db accounts (relay_transactions db) \<and> accounts_wf db' \<and> sql_balance db' = sql_balance db
       else posted db u m (- a) ty ref desc db'"
    using create_then_debit [OF assms(1,2), of now m a "a + ?h" ty ref desc stamp] by blast
  have run: "sql_debitSpendable now u db m a ty ref desc stamp = Inr (if sql_balance db m < a + ?h then None else Some (sql_balance db m - a), db')"
    using g h by (simp add: sql_debitSpendable_def case_prod_beta Let_def)
  show ?thesis
  proof (cases "sql_balance db m < a + ?h")
    case True
    then show ?thesis using run e by auto
  next
    case False
    then have p: "posted db u m (- a) ty ref desc db'" using e by simp
    then have bal: "sql_balance db' = (sql_balance db)(m := sql_balance db m - a)" by (auto simp add: posted_def)
    have "settled_amounts_ok (relay_settlements db', relay_disputes db')" and same: "sql_getUnwithdrawableHold now db' m = ?h"
      using assms(3) posted_frame(6,7) [OF p] by (simp_all add: sql_getUnwithdrawableHold_def)
    from disputed_is_held [OF this(1), of m now] show ?thesis using False run bal same by auto
  qed
qed

definition demo_escrow :: sql_db where
  "demo_escrow = at_escrow demo_escrow_tables (snd (sql_op 1 ''u1'' (LCredit ''m'' 100 Deposit None None) (createAccountTables None None None)))"

lemma spending_keeps_escrow_witness:
  "\<exists>db'. sql_debitSpendable 90000000 ''u'' demo_escrow ''m'' 50 Fee None None None = Inr (Some 50, db')
    \<and> disputed_sum ''m'' db' \<le> 50 \<and> sql_getUnwithdrawableHold 90000000 db' ''m'' \<le> 50
    \<and> sql_getUnwithdrawableHold 90000000 demo_escrow ''m'' = 50 \<and> disputed_sum ''m'' demo_escrow = 30"
proof -
  have wf: "accounts_wf demo_escrow" "uuid_fresh ''u'' demo_escrow" "settled_amounts_ok (relay_settlements demo_escrow, relay_disputes demo_escrow)"
    and amounts: "sql_balance demo_escrow ''m'' = 100" "sql_getUnwithdrawableHold 90000000 demo_escrow ''m'' = 50" "disputed_sum ''m'' demo_escrow = 30"
    by code_simp+
  show ?thesis
    using spending_keeps_escrow [OF wf, where now = 90000000 and m = "''m''" and a = 50 and ty = Fee and ref = None and desc = None and stamp = None] amounts
    by auto
qed

end
