(* ===== verification/JsValue.thy ===== *)
theory JsValue
  imports Semirings
begin

text \<open>
  Dynamically typed values, for the code that checks a type at run time: tool arguments, signed limits, audit payloads.
  An object is its own enumerable properties in order. A character stands for a code unit below 256.
\<close>

datatype jsval = JUndefined | JNull | JBool bool | JNumber jsnum | JString string | JArray "jsval list" | JObject "(string \<times> jsval) list"

fun is_finite :: "jsnum \<Rightarrow> bool" where
  "is_finite (Fin _) = True"
| "is_finite _ = False"

fun is_safe_num :: "jsnum \<Rightarrow> bool" where
  \<comment> \<open>\<open>Number.isSafeInteger\<close>\<close>
  "is_safe_num (Fin x) \<longleftrightarrow> x = of_int \<lfloor>x\<rfloor> \<and> isSafeInteger \<lfloor>x\<rfloor>"
| "is_safe_num _ = False"

fun num_floor :: "jsnum \<Rightarrow> int" where
  "num_floor (Fin x) = \<lfloor>x\<rfloor>"
| "num_floor _ = 0"

definition num_lt :: "jsnum \<Rightarrow> jsnum \<Rightarrow> bool" where
  "num_lt a b \<longleftrightarrow> num_le a b \<and> a \<noteq> b"

lemma is_safe_num_int [simp]: "is_safe_num (Fin (of_int n)) = isSafeInteger n"
  by simp

lemma is_safe_numD: "is_safe_num a \<Longrightarrow> a = Fin (of_int (num_floor a)) \<and> isSafeInteger (num_floor a)"
  by (cases a) simp_all

lemma num_le_total: "a \<noteq> NaN \<Longrightarrow> b \<noteq> NaN \<Longrightarrow> num_le a b \<or> num_le b a"
  by (cases a; cases b) auto

lemma num_lt_trans: "num_lt a b \<Longrightarrow> num_lt b c \<Longrightarrow> num_lt a c"
  by (cases a; cases b; cases c) (auto simp add: num_lt_def)

text \<open>\<open>obj[key]\<close> on an object's own properties; an absent one is \<open>undefined\<close>.\<close>

definition own_prop :: "(string \<times> jsval) list \<Rightarrow> string \<Rightarrow> jsval" where
  "own_prop props k = (case map_of props k of Some v \<Rightarrow> v | None \<Rightarrow> JUndefined)"

text \<open>The names every ordinary object inherits from \<open>Object.prototype\<close>.\<close>

definition object_prototype_names :: "string list" where
  "object_prototype_names =
     [''constructor'', ''__defineGetter__'', ''__defineSetter__'', ''hasOwnProperty'', ''__lookupGetter__'', ''__lookupSetter__'',
      ''isPrototypeOf'', ''propertyIsEnumerable'', ''toString'', ''valueOf'', ''__proto__'', ''toLocaleString'']"

subsection \<open>Strings\<close>

definition is_space :: "char \<Rightarrow> bool" where
  "is_space c \<longleftrightarrow> (let n = of_char c :: nat in 9 \<le> n \<and> n \<le> 13 \<or> n = 32 \<or> n = 160)"

definition js_trim :: "string \<Rightarrow> string" where
  "js_trim s = rev (dropWhile is_space (rev (dropWhile is_space s)))"

definition to_lower :: "char \<Rightarrow> char" where
  \<comment> \<open>on ASCII letters, the only ones the callers lower\<close>
  "to_lower c = (let n = of_char c :: nat in if 65 \<le> n \<and> n \<le> 90 then char_of (n + 32) else c)"

fun js_split :: "char \<Rightarrow> string \<Rightarrow> string list" where
  \<comment> \<open>\<open>split\<close> on a separator of one character\<close>
  "js_split sep [] = [[]]"
| "js_split sep (c # cs) =
     (if c = sep then [] # js_split sep cs
      else (case js_split sep cs of w # ws \<Rightarrow> (c # w) # ws | [] \<Rightarrow> [[c]]))"

end
