(* ===== verification/Risk.thy ===== *)
theory Risk
  imports JsValue
begin

text \<open>
  The vocabulary of the policy gate: risk levels, the classification of a tool by its declared hints or by the
  words of its name and description (\<open>packages/policy/src/risk-model.ts\<close>), and the residual of a refusal
  (\<open>packages/policy/src/authority-delta.ts\<close>).
\<close>

datatype risk_level = R0_READ | R1_DRAFT | R2_WRITE | R3_EXECUTE | R4_MONEY

fun risk_rank :: "risk_level \<Rightarrow> nat" where
  "risk_rank R0_READ = 0"
| "risk_rank R1_DRAFT = 1"
| "risk_rank R2_WRITE = 2"
| "risk_rank R3_EXECUTE = 3"
| "risk_rank R4_MONEY = 4"

lemma risk_rank_inj: "risk_rank a = risk_rank b \<longleftrightarrow> a = b"
  by (cases a; cases b) simp_all

instantiation risk_level :: linorder
begin

definition less_eq_risk_level :: "risk_level \<Rightarrow> risk_level \<Rightarrow> bool" where
  "less_eq_risk_level a b \<longleftrightarrow> risk_rank a \<le> risk_rank b"

definition less_risk_level :: "risk_level \<Rightarrow> risk_level \<Rightarrow> bool" where
  "less_risk_level a b \<longleftrightarrow> risk_rank a < risk_rank b"

instance
  by standard (auto simp add: less_eq_risk_level_def less_risk_level_def risk_rank_inj)

end

lemma risk_top [simp]: "r \<le> R4_MONEY" "R4_MONEY \<le> r \<longleftrightarrow> r = R4_MONEY"
  by (cases r; simp add: less_eq_risk_level_def)+

lemma risk_bot [simp]: "R0_READ \<le> r" "r \<le> R0_READ \<longleftrightarrow> r = R0_READ"
  by (cases r; simp add: less_eq_risk_level_def)+

datatype data_class = PUBLIC | PRIVATE | SECRET

datatype side_effect = NoEffect | REVERSIBLE | IRREVERSIBLE

record risk_hint =
  rh_risk :: "risk_level option"
  rh_dataClass :: "data_class option"
  rh_sideEffect :: "side_effect option"

record tool_definition =
  td_name :: string
  td_description :: string
  td_requiresApproval :: "bool option"
  td_riskHint :: "risk_hint option"

record tool_risk_profile =
  rp_risk :: risk_level
  rp_dataClass :: data_class
  rp_sideEffect :: side_effect
  rp_requiresApproval :: bool

subsection \<open>Patterns\<close>

text \<open>
  Every pattern of the rules is a word-bounded alternative of words, without regard to case: it matches when one
  of the words is a maximal run of word characters of the text.
\<close>

definition is_word_char :: "char \<Rightarrow> bool" where
  "is_word_char c \<longleftrightarrow> (let n = of_char c :: nat in
     48 \<le> n \<and> n \<le> 57 \<or> 65 \<le> n \<and> n \<le> 90 \<or> n = 95 \<or> 97 \<le> n \<and> n \<le> 122)"

fun text_words :: "string \<Rightarrow> string list" where
  "text_words [] = [[]]"
| "text_words (c # cs) =
     (if is_word_char c then (case text_words cs of w # ws \<Rightarrow> (to_lower c # w) # ws | [] \<Rightarrow> [[to_lower c]])
      else [] # text_words cs)"

definition matches :: "string list \<Rightarrow> string \<Rightarrow> bool" where
  "matches alternatives text \<longleftrightarrow> list_ex (\<lambda>w. w \<in> set alternatives) (text_words text)"

text \<open>The side effect that a risk rule also names is never read.\<close>

definition RISK_RULES :: "(string list \<times> risk_level) list" where
  "RISK_RULES =
     [([''pay'', ''payment'', ''charge'', ''invoice'', ''refund'', ''transfer'', ''checkout'', ''stripe'', ''billing''], R4_MONEY),
      ([''shell'', ''exec'', ''run'', ''command'', ''deploy'', ''restart'', ''kill''], R3_EXECUTE),
      ([''write'', ''rewrite'', ''rewrites'', ''rewriting'', ''rewritten'', ''overwrite'', ''overwrites'', ''overwriting'', ''overwritten'',
        ''supersede'', ''supersedes'', ''superseded'', ''superseding'', ''forget'', ''prune'', ''erase'', ''create'', ''update'', ''delete'',
        ''remove'', ''send'', ''post'', ''push'', ''merge''], R2_WRITE),
      ([''draft'', ''compose'', ''generate'', ''suggest'', ''plan'', ''prepare'', ''format''], R1_DRAFT),
      ([''read'', ''get'', ''list'', ''search'', ''fetch'', ''query'', ''recall'', ''check'', ''view'', ''browse''], R0_READ)]"

definition DATA_CLASS_RULES :: "(string list \<times> data_class) list" where
  "DATA_CLASS_RULES =
     [([''secret'', ''credential'', ''token'', ''password'', ''key'', ''seed'', ''ssn'', ''private_key''], SECRET),
      ([''personal'', ''private'', ''memory'', ''calendar'', ''email'', ''inbox'', ''contact'', ''photo''], PRIVATE)]"

definition first_rule :: "(string list \<times> 'a) list \<Rightarrow> string \<Rightarrow> 'a option" where
  "first_rule rules text = map_option snd (find (\<lambda>r. matches (fst r) text) rules)"

definition option_or :: "'a option \<Rightarrow> 'a option \<Rightarrow> 'a option" where
  "option_or a b = (case a of Some _ \<Rightarrow> a | None \<Rightarrow> b)"

definition classifyTool :: "tool_definition \<Rightarrow> tool_risk_profile" where
  "classifyTool tool =
     (let hint = td_riskHint tool;
          text = td_name tool @ '' '' @ td_description tool;
          risk = (case option_or (Option.bind hint rh_risk) (first_rule RISK_RULES text) of Some r \<Rightarrow> r | None \<Rightarrow> R0_READ);
          dataClass = (case option_or (Option.bind hint rh_dataClass) (first_rule DATA_CLASS_RULES text) of Some d \<Rightarrow> d | None \<Rightarrow> PUBLIC);
          sideEffect = (case Option.bind hint rh_sideEffect of Some s \<Rightarrow> s
            | None \<Rightarrow> if R3_EXECUTE \<le> risk then IRREVERSIBLE else if R2_WRITE \<le> risk then REVERSIBLE else NoEffect)
      in \<lparr> rp_risk = risk, rp_dataClass = dataClass, rp_sideEffect = sideEffect,
           rp_requiresApproval = (td_requiresApproval tool = Some True \<or> R2_WRITE \<le> risk) \<rparr>)"

definition isToolAllowed :: "tool_risk_profile \<Rightarrow> risk_level \<Rightarrow> bool" where
  "isToolAllowed profile maxRisk \<longleftrightarrow> rp_risk profile \<le> maxRisk"

lemma classify_write_needs_approval:
  "R2_WRITE \<le> rp_risk (classifyTool t) \<Longrightarrow> rp_requiresApproval (classifyTool t)"
  by (simp add: classifyTool_def Let_def)

subsection \<open>The residual of a refusal\<close>

datatype terminal_state = Revoked | Expired

record authority_delta =
  ad_missing_scope :: "string list option"
  ad_required_risk :: "risk_level option"
  ad_posture_ceiling :: "risk_level option"
  ad_requires_verified_grant :: bool
  ad_spend_overage_micro :: "int option"
  ad_not_before :: "jsnum option"
  ad_quorum_shortfall :: "int option"
  ad_terminal :: "terminal_state option"

definition no_delta :: authority_delta where
  "no_delta = \<lparr> ad_missing_scope = None, ad_required_risk = None, ad_posture_ceiling = None, ad_requires_verified_grant = False,
     ad_spend_overage_micro = None, ad_not_before = None, ad_quorum_shortfall = None, ad_terminal = None \<rparr>"

definition scopeDelta :: "string \<Rightarrow> authority_delta" where
  "scopeDelta toolName = no_delta\<lparr>ad_missing_scope := Some [toolName]\<rparr>"

definition postureDelta :: "risk_level \<Rightarrow> risk_level \<Rightarrow> authority_delta" where
  "postureDelta requiredRisk postureCeiling = no_delta\<lparr>ad_required_risk := Some requiredRisk, ad_posture_ceiling := Some postureCeiling\<rparr>"

definition grantRequiredDelta :: "risk_level \<Rightarrow> authority_delta" where
  "grantRequiredDelta requiredRisk = no_delta\<lparr>ad_required_risk := Some requiredRisk, ad_requires_verified_grant := True\<rparr>"

definition spendOverageDelta :: "int \<Rightarrow> authority_delta" where
  "spendOverageDelta overageMicro = no_delta\<lparr>ad_spend_overage_micro := Some overageMicro\<rparr>"

definition quorumShortfallDelta :: "int \<Rightarrow> authority_delta" where
  "quorumShortfallDelta shortfall = no_delta\<lparr>ad_quorum_shortfall := Some shortfall\<rparr>"

definition terminalDelta :: "terminal_state \<Rightarrow> authority_delta" where
  "terminalDelta state = no_delta\<lparr>ad_terminal := Some state\<rparr>"

end
