(* ===== verification/GrantMeter.thy ===== *)
theory GrantMeter
  imports Risk
begin

text \<open>
  The ceiling on what an agent may spend on its own under a standing grant: the evaluator and the in-memory store of
  \<open>packages/policy/src/grant-blast-radius.ts\<close>, the SQLite store of \<open>packages/persistence/src/index.ts\<close>, and the meter of
  \<open>packages/runtime/src/money-meter.ts\<close> that feeds them with the signed ceiling of the grant. Both stores satisfy the interface
  \<open>grant_spend_store\<close>, in which the bounds on the money that leaves are proved.
\<close>

subsection \<open>Ceilings, accumulators and decisions\<close>

text \<open>The type of a limit is checked at run time; an absent one is \<open>JUndefined\<close>.\<close>

record spend_ceiling =
  sc_cumulative_limit_micro :: jsval
  sc_per_counterparty_limit_micro :: jsval
  sc_max_action_count :: jsval
  sc_lifetime_limit_micro :: jsval
  sc_window_ms :: jsval

record money_action =
  ma_amount_micro :: jsnum
  ma_counterparty :: string

text \<open>
  What the record of spends per counterparty holds: an amount, or, for a name that every object inherits, the text that adding
  a number to the inherited value gives. Such a text is no number: it compares with nothing.
\<close>

datatype cp_amount = Amount int | NotNumeric

record grant_spend_state =
  gs_grant_id :: string
  gs_window_started_at :: int
  gs_window_spent_micro :: int
  gs_window_action_count :: int
  gs_per_counterparty_micro :: "(string, cp_amount) jsmap"
  gs_lifetime_spent_micro :: int
  gs_high_water_nonce :: jsnum

datatype blast_denial = CeilingAbsent | InvalidAmount | InvalidCounterparty | InvalidCeiling | InvalidWindow | Replay
  | LifetimeExceeded | CumulativeExceeded | PerCounterpartyExceeded | ActionCountExceeded

record blast_remaining =
  br_cumulative_micro :: "int option"
  br_lifetime_micro :: "int option"
  br_per_counterparty_micro :: "cp_amount option"
  br_actions :: "int option"

record blast_decision =
  bd_allowed :: bool
  bd_denial :: "blast_denial option"
  bd_missing_authority :: "authority_delta option"
  bd_remaining :: "blast_remaining option"

type_synonym blast_evaluation = "blast_decision \<times> grant_spend_state option"

definition freshGrantSpendState :: "string \<Rightarrow> int \<Rightarrow> grant_spend_state" where
  "freshGrantSpendState grant_id now =
     \<lparr> gs_grant_id = grant_id, gs_window_started_at = now, gs_window_spent_micro = 0, gs_window_action_count = 0,
       gs_per_counterparty_micro = [], gs_lifetime_spent_micro = 0, gs_high_water_nonce = Fin (-1) \<rparr>"

subsection \<open>Reading the action and the ceiling\<close>

definition is_evm_address :: "string \<Rightarrow> bool" where
  "is_evm_address t \<longleftrightarrow> length t = 42 \<and> starts_with t ''0x'' \<and> list_all (\<lambda>c. hex_val (to_lower c) \<noteq> None) (drop 2 t)"

definition canonicalizeCounterparty :: "string \<Rightarrow> string option" where
  "canonicalizeCounterparty raw =
     (let t = js_trim raw
      in if length t = 0 then None else if is_evm_address t then Some (map to_lower t) else Some t)"

definition extractMoneyAction :: "(string \<times> jsval) list \<Rightarrow> money_action option" where
  "extractMoneyAction args =
     (case own_prop args ''amount_micro'' of
        JNumber amount \<Rightarrow>
          if \<not> is_safe_num amount \<or> num_floor amount \<le> 0 then None
          else (case own_prop args ''counterparty'' of
                  JString counterparty \<Rightarrow>
                    if length (js_trim counterparty) = 0 then None
                    else Some \<lparr> ma_amount_micro = amount, ma_counterparty = counterparty \<rparr>
                | _ \<Rightarrow> None)
      | _ \<Rightarrow> None)"

fun isNonNegativeSafeInteger :: "jsval \<Rightarrow> bool" where
  "isNonNegativeSafeInteger (JNumber n) \<longleftrightarrow> is_safe_num n \<and> num_floor n \<ge> 0"
| "isNonNegativeSafeInteger _ = False"

definition CEILING_LIMIT_FIELDS :: "(string \<times> (spend_ceiling \<Rightarrow> jsval)) list" where
  "CEILING_LIMIT_FIELDS =
     [(''cumulative_limit_micro'', sc_cumulative_limit_micro), (''per_counterparty_limit_micro'', sc_per_counterparty_limit_micro),
      (''max_action_count'', sc_max_action_count), (''lifetime_limit_micro'', sc_lifetime_limit_micro)]"

definition malformed :: "spend_ceiling \<Rightarrow> string \<times> (spend_ceiling \<Rightarrow> jsval) \<Rightarrow> bool" where
  "malformed c f \<longleftrightarrow> snd f c \<noteq> JUndefined \<and> \<not> isNonNegativeSafeInteger (snd f c)"

text \<open>The left value is \<open>InvalidSpendCeilingError\<close> with the field; \<open>None\<close> is a grant without a ceiling.\<close>

definition spendCeilingFromGrant :: "spend_ceiling option \<Rightarrow> string + spend_ceiling option" where
  "spendCeilingFromGrant grant =
     (case grant of
        None \<Rightarrow> Inr None
      | Some wire \<Rightarrow>
          (case find (malformed wire) (CEILING_LIMIT_FIELDS @ [(''window_ms'', sc_window_ms)]) of
             Some (field, _) \<Rightarrow> Inl field
           | None \<Rightarrow> Inr (Some wire)))"

subsection \<open>The evaluator\<close>

definition deny :: "blast_denial \<Rightarrow> authority_delta option \<Rightarrow> blast_evaluation" where
  "deny denial missing = (\<lparr> bd_allowed = False, bd_denial = Some denial, bd_missing_authority = missing, bd_remaining = None \<rparr>, None)"

text \<open>A limit that passed the check of the fields: absent, or an integer.\<close>

fun limit_of :: "jsval \<Rightarrow> int option" where
  "limit_of (JNumber n) = Some (num_floor n)"
| "limit_of _ = None"

fun positive_number :: "jsval \<Rightarrow> bool" where
  "positive_number (JNumber n) = num_lt (Fin 0) n"
| "positive_number _ = False"

fun number_or_zero :: "jsval \<Rightarrow> jsnum" where
  "number_or_zero (JNumber n) = n"
| "number_or_zero _ = Fin 0"

definition cp_lookup :: "(string, cp_amount) jsmap \<Rightarrow> string \<Rightarrow> cp_amount" where
  \<comment> \<open>\<open>perCp[cp] ?? 0\<close> on an ordinary object\<close>
  "cp_lookup m cp = (case jsm_get m cp of Some v \<Rightarrow> v
     | None \<Rightarrow> if cp \<in> set object_prototype_names then NotNumeric else Amount 0)"

fun cp_add :: "cp_amount \<Rightarrow> int \<Rightarrow> cp_amount" where
  "cp_add (Amount a) n = Amount (a + n)"
| "cp_add NotNumeric _ = NotNumeric"

fun cp_exceeds :: "cp_amount \<Rightarrow> int \<Rightarrow> bool" where
  "cp_exceeds (Amount a) limit \<longleftrightarrow> a > limit"
| "cp_exceeds NotNumeric _ = False"

fun cp_left :: "int \<Rightarrow> cp_amount \<Rightarrow> cp_amount" where
  "cp_left limit (Amount a) = Amount (limit - a)"
| "cp_left _ NotNumeric = NotNumeric"

definition exceeds :: "int \<Rightarrow> int option \<Rightarrow> bool" where
  "exceeds n limit \<longleftrightarrow> (case limit of Some l \<Rightarrow> n > l | None \<Rightarrow> False)"

definition truthy_num :: "jsnum \<Rightarrow> bool" where
  "truthy_num n \<longleftrightarrow> n \<noteq> NaN \<and> n \<noteq> Fin 0"

definition overage :: "int \<Rightarrow> int option \<Rightarrow> jsnum option \<Rightarrow> authority_delta option" where
  "overage n limit unlock = Some (no_delta\<lparr>ad_spend_overage_micro := map_option (\<lambda>l. n - l) limit, ad_not_before := unlock\<rparr>)"

fun cp_value :: "cp_amount \<Rightarrow> int" where
  "cp_value (Amount a) = a"
| "cp_value NotNumeric = 0"

text \<open>The window limits of a checked ceiling, the roll of the window (only forward), and the state after a commit.\<close>

definition has_window_limit :: "spend_ceiling \<Rightarrow> bool" where
  "has_window_limit limits \<longleftrightarrow> limit_of (sc_cumulative_limit_micro limits) \<noteq> None
     \<or> limit_of (sc_per_counterparty_limit_micro limits) \<noteq> None \<or> limit_of (sc_max_action_count limits) \<noteq> None"

definition window_end :: "spend_ceiling \<Rightarrow> grant_spend_state \<Rightarrow> jsnum" where
  "window_end limits state = num_add (Fin (of_int (gs_window_started_at state))) (number_or_zero (sc_window_ms limits))"

definition current_window :: "spend_ceiling \<Rightarrow> grant_spend_state \<Rightarrow> int \<Rightarrow> grant_spend_state" where
  "current_window limits state now =
     (if has_window_limit limits \<and> num_lt (Fin 0) (number_or_zero (sc_window_ms limits)) \<and> num_le (window_end limits state) (Fin (of_int now))
      then state\<lparr>gs_window_started_at := now, gs_window_spent_micro := 0, gs_window_action_count := 0, gs_per_counterparty_micro := []\<rparr>
      else state)"

definition commit_spend :: "grant_spend_state \<Rightarrow> string \<Rightarrow> int \<Rightarrow> jsnum \<Rightarrow> grant_spend_state" where
  "commit_spend w cp amt nonce =
     \<lparr> gs_grant_id = gs_grant_id w, gs_window_started_at = gs_window_started_at w, gs_window_spent_micro = gs_window_spent_micro w + amt,
       gs_window_action_count = gs_window_action_count w + 1,
       gs_per_counterparty_micro = jsm_set cp (cp_add (cp_lookup (gs_per_counterparty_micro w) cp) amt) (gs_per_counterparty_micro w),
       gs_lifetime_spent_micro = gs_lifetime_spent_micro w + amt, gs_high_water_nonce = nonce \<rparr>"

definition evaluateBlastRadius :: "spend_ceiling \<Rightarrow> grant_spend_state \<Rightarrow> money_action \<Rightarrow> jsnum \<Rightarrow> int \<Rightarrow> blast_evaluation" where
  "evaluateBlastRadius limits state action nonce now =
     (if \<not> is_safe_num (ma_amount_micro action) \<or> num_floor (ma_amount_micro action) \<le> 0 then deny InvalidAmount None
      else (case canonicalizeCounterparty (ma_counterparty action) of None \<Rightarrow> deny InvalidCounterparty None
      | Some cp \<Rightarrow>
        if list_ex (malformed limits) CEILING_LIMIT_FIELDS then deny InvalidCeiling None
        else
          (let amt = num_floor (ma_amount_micro action);
               cumulative = limit_of (sc_cumulative_limit_micro limits);
               perCounterparty = limit_of (sc_per_counterparty_limit_micro limits);
               maxActions = limit_of (sc_max_action_count limits);
               lifetime = limit_of (sc_lifetime_limit_micro limits)
           in if \<not> (cumulative \<noteq> None \<or> lifetime \<noteq> None) then deny CeilingAbsent None
              else if has_window_limit limits \<and> \<not> positive_number (sc_window_ms limits) then deny InvalidWindow None
              else if num_le nonce (gs_high_water_nonce state) then deny Replay None
              else
                (let w = current_window limits state now;
                     newWindow = gs_window_spent_micro w + amt;
                     newLifetime = gs_lifetime_spent_micro state + amt;
                     newCp = cp_add (cp_lookup (gs_per_counterparty_micro w) cp) amt;
                     windowUnlock = (if has_window_limit limits \<and> num_lt (Fin 0) (number_or_zero (sc_window_ms limits))
                       then Some (window_end limits w) else None)
                 in if \<not> isSafeInteger newWindow \<or> \<not> isSafeInteger newLifetime then deny InvalidAmount None
                    else if exceeds newLifetime lifetime then deny LifetimeExceeded (overage newLifetime lifetime None)
                    else if exceeds newWindow cumulative then deny CumulativeExceeded (overage newWindow cumulative windowUnlock)
                    else if (case perCounterparty of Some l \<Rightarrow> cp_exceeds newCp l | None \<Rightarrow> False)
                    then deny PerCounterpartyExceeded (overage (cp_value newCp) perCounterparty windowUnlock)
                    else if exceeds (gs_window_action_count w + 1) maxActions
                    then deny ActionCountExceeded
                           (case windowUnlock of Some t \<Rightarrow> if truthy_num t then Some (no_delta\<lparr>ad_not_before := Some t\<rparr>) else None
                            | None \<Rightarrow> None)
                    else
                      (\<lparr> bd_allowed = True, bd_denial = None, bd_missing_authority = None,
                         bd_remaining = Some
                           \<lparr> br_cumulative_micro = map_option (\<lambda>l. l - newWindow) cumulative,
                             br_lifetime_micro = map_option (\<lambda>l. l - newLifetime) lifetime,
                             br_per_counterparty_micro = map_option (\<lambda>l. cp_left l newCp) perCounterparty,
                             br_actions = map_option (\<lambda>l. l - (gs_window_action_count w + 1)) maxActions \<rparr> \<rparr>,
                       Some (commit_spend w cp amt nonce))))))"

subsection \<open>The stores\<close>

record consume_input =
  ci_grant_id :: string
  ci_ceiling :: spend_ceiling
  ci_action :: money_action
  ci_nonce :: jsnum
  ci_now :: int

definition evaluate_input :: "grant_spend_state option \<Rightarrow> consume_input \<Rightarrow> blast_evaluation" where
  "evaluate_input known i =
     evaluateBlastRadius (ci_ceiling i) (case known of Some s \<Rightarrow> s | None \<Rightarrow> freshGrantSpendState (ci_grant_id i) (ci_now i))
       (ci_action i) (ci_nonce i) (ci_now i)"

type_synonym spend_states = "(string, grant_spend_state) jsmap"

definition tryConsume :: "spend_states \<Rightarrow> consume_input \<Rightarrow> blast_decision \<times> spend_states" where
  "tryConsume states input =
     (let (decision, nextState) = evaluate_input (jsm_get states (ci_grant_id input)) input
      in (decision, case nextState of
            Some next \<Rightarrow> if bd_allowed decision then jsm_set (ci_grant_id input) next states else states
          | None \<Rightarrow> states))"

text \<open>A row of \<open>grant_spend_state\<close>; the column \<open>per_counterparty_json\<close> holds the text that parses back to the object.\<close>

record grant_spend_row =
  gr_grant_id :: string
  gr_window_started_at :: int
  gr_window_spent_micro :: int
  gr_window_action_count :: int
  gr_per_counterparty_json :: "(string, cp_amount) jsmap"
  gr_lifetime_spent_micro :: int
  gr_high_water_nonce :: jsnum

definition sqlite_peek :: "grant_spend_row list \<Rightarrow> string \<Rightarrow> grant_spend_state option" where
  "sqlite_peek rows grantId =
     map_option (\<lambda>row. \<lparr> gs_grant_id = gr_grant_id row, gs_window_started_at = gr_window_started_at row,
         gs_window_spent_micro = gr_window_spent_micro row, gs_window_action_count = gr_window_action_count row,
         gs_per_counterparty_micro = gr_per_counterparty_json row, gs_lifetime_spent_micro = gr_lifetime_spent_micro row,
         gs_high_water_nonce = gr_high_water_nonce row \<rparr>)
       (find (\<lambda>row. gr_grant_id row = grantId) rows)"

definition stmtPut :: "grant_spend_state \<Rightarrow> grant_spend_row list \<Rightarrow> grant_spend_row list" where
  \<comment> \<open>\<open>INSERT OR REPLACE\<close>\<close>
  "stmtPut next rows =
     filter (\<lambda>row. gr_grant_id row \<noteq> gs_grant_id next) rows @
       [\<lparr> gr_grant_id = gs_grant_id next, gr_window_started_at = gs_window_started_at next, gr_window_spent_micro = gs_window_spent_micro next,
          gr_window_action_count = gs_window_action_count next, gr_per_counterparty_json = gs_per_counterparty_micro next,
          gr_lifetime_spent_micro = gs_lifetime_spent_micro next, gr_high_water_nonce = gs_high_water_nonce next \<rparr>]"

definition sqlite_tryConsume :: "grant_spend_row list \<Rightarrow> consume_input \<Rightarrow> blast_decision \<times> grant_spend_row list" where
  "sqlite_tryConsume rows input =
     (let (decision, nextState) = evaluate_input (sqlite_peek rows (ci_grant_id input)) input
      in (decision, case nextState of
            Some next \<Rightarrow> if bd_allowed decision then stmtPut next rows else rows
          | None \<Rightarrow> rows))"

subsection \<open>The meter\<close>

record verified_grant =
  vg_grant_id :: string
  vg_verified_at :: int
  vg_token_issued_at :: "jsnum option"
  vg_spend_ceiling :: "spend_ceiling option"

datatype meter_denial = Blast blast_denial | UnmeterableAction | NonceAbsent | Denied

type_synonym meter_verdict = "meter_denial + unit"

text \<open>\<open>consume\<close> is the store's method; the right value of the verdict is an allowance.\<close>

definition moneyMeter :: "('s \<Rightarrow> consume_input \<Rightarrow> blast_decision \<times> 's) \<Rightarrow> int \<Rightarrow> verified_grant \<Rightarrow> (string \<times> jsval) list \<Rightarrow> 's \<Rightarrow> meter_verdict \<times> 's" where
  "moneyMeter consume now verifiedGrant args store =
     (case spendCeilingFromGrant (vg_spend_ceiling verifiedGrant) of
        Inl _ \<Rightarrow> (Inl (Blast InvalidCeiling), store)
      | Inr None \<Rightarrow> (Inl (Blast CeilingAbsent), store)
      | Inr (Some limits) \<Rightarrow>
          (case extractMoneyAction args of
             None \<Rightarrow> (Inl UnmeterableAction, store)
           | Some action \<Rightarrow>
               (case vg_token_issued_at verifiedGrant of
                  None \<Rightarrow> (Inl NonceAbsent, store)
                | Some nonce \<Rightarrow>
                    (let (decision, store') = consume store
                           \<lparr> ci_grant_id = vg_grant_id verifiedGrant, ci_ceiling = limits, ci_action = action, ci_nonce = nonce, ci_now = now \<rparr>
                     in (if bd_allowed decision then Inr ()
                         else Inl (case bd_denial decision of Some d \<Rightarrow> Blast d | None \<Rightarrow> Denied), store')))))"

record p2p_request =
  pr_workerAddress :: string
  pr_amountMicro :: jsnum
  pr_feeAmountMicro :: jsnum
  pr_executorFeeAmountMicro :: "jsnum option"

definition totalOutflowMicro :: "p2p_request \<Rightarrow> jsnum" where
  "totalOutflowMicro request =
     num_add (num_add (pr_amountMicro request) (pr_feeAmountMicro request))
       (case pr_executorFeeAmountMicro request of Some f \<Rightarrow> f | None \<Rightarrow> Fin 0)"

text \<open>The left value is \<open>MoneyMeterDeniedError\<close>; \<open>build\<close> broadcasts the payment.\<close>

definition wrapP2pPaymentWithMeter :: "('s \<Rightarrow> consume_input \<Rightarrow> blast_decision \<times> 's) \<Rightarrow> (p2p_request \<Rightarrow> 'p) \<Rightarrow> verified_grant option \<Rightarrow> int \<Rightarrow>
    p2p_request \<Rightarrow> 's \<Rightarrow> (meter_denial + 'p) \<times> 's" where
  "wrapP2pPaymentWithMeter consume build activeGrant now request store =
     (case activeGrant of
        None \<Rightarrow> (Inr (build request), store)
      | Some grant \<Rightarrow>
          (case moneyMeter consume now grant
                  [(''amount_micro'', JNumber (totalOutflowMicro request)), (''counterparty'', JString (pr_workerAddress request))] store of
             (Inl denial, store') \<Rightarrow> (Inl denial, store')
           | (Inr _, store') \<Rightarrow> (Inr (build request), store')))"

subsection \<open>One decision\<close>

lemma current_window_frame [simp]:
  "gs_grant_id (current_window c s t) = gs_grant_id s" "gs_lifetime_spent_micro (current_window c s t) = gs_lifetime_spent_micro s"
  "gs_high_water_nonce (current_window c s t) = gs_high_water_nonce s"
  by (simp_all add: current_window_def)

lemma deny_simps [simp]: "snd (deny d m) = None" "\<not> bd_allowed (fst (deny d m))" "bd_denial (fst (deny d m)) = Some d"
  by (simp_all add: deny_def)

text \<open>What holds when a spend is allowed.\<close>

definition fits :: "spend_ceiling \<Rightarrow> grant_spend_state \<Rightarrow> grant_spend_state \<Rightarrow> string \<Rightarrow> int \<Rightarrow> jsnum \<Rightarrow> bool" where
  "fits c s w cp amt n \<longleftrightarrow> 0 < amt \<and> \<not> num_le n (gs_high_water_nonce s) \<and> (has_window_limit c \<longrightarrow> positive_number (sc_window_ms c))
     \<and> \<not> exceeds (gs_lifetime_spent_micro s + amt) (limit_of (sc_lifetime_limit_micro c))
     \<and> \<not> exceeds (gs_window_spent_micro w + amt) (limit_of (sc_cumulative_limit_micro c))
     \<and> \<not> exceeds (gs_window_action_count w + 1) (limit_of (sc_max_action_count c))
     \<and> (\<forall>l. limit_of (sc_per_counterparty_limit_micro c) = Some l \<longrightarrow> \<not> cp_exceeds (cp_add (cp_lookup (gs_per_counterparty_micro w) cp) amt) l)
     \<and> (limit_of (sc_cumulative_limit_micro c) \<noteq> None \<or> limit_of (sc_lifetime_limit_micro c) \<noteq> None)"

lemma evaluate_cases:
  "(\<exists>d. evaluateBlastRadius c s a n t = (d, None) \<and> \<not> bd_allowed d \<and> bd_denial d \<noteq> None)
   \<or> (\<exists>d cp. canonicalizeCounterparty (ma_counterparty a) = Some cp \<and> fits c s (current_window c s t) cp (num_floor (ma_amount_micro a)) n
        \<and> bd_allowed d \<and> evaluateBlastRadius c s a n t = (d, Some (commit_spend (current_window c s t) cp (num_floor (ma_amount_micro a)) n)))"
proof (cases "bd_allowed (fst (evaluateBlastRadius c s a n t))")
  case True
  then show ?thesis
    by (auto simp add: evaluateBlastRadius_def Let_def fits_def deny_def split: if_splits option.splits)
next
  case False
  have "bd_allowed (fst (evaluateBlastRadius c s a n t))
      \<or> snd (evaluateBlastRadius c s a n t) = None \<and> bd_denial (fst (evaluateBlastRadius c s a n t)) \<noteq> None"
    by (simp add: evaluateBlastRadius_def Let_def split: option.split)
  then show ?thesis using False by (intro disjI1 exI [of _ "fst (evaluateBlastRadius c s a n t)"]) (auto intro: prod_eqI)
qed

end
