(* ===== verification/GrantBounds.thy ===== *)
theory GrantBounds
  imports GrantMeter
begin

text \<open>
  What the meter of \<open>GrantMeter\<close> promises over any sequence of calls, whichever store is behind it: the interface
  \<open>grant_spend_store\<close>, the bounds proved from it, and its interpretations on the in-memory and the SQLite store.
\<close>

subsection \<open>Sequences of metered calls\<close>

type_synonym metered_call = "verified_grant \<times> (string \<times> jsval) list \<times> int"

text \<open>The calls that were allowed, and the store they leave.\<close>

fun run_meter :: "('s \<Rightarrow> consume_input \<Rightarrow> blast_decision \<times> 's) \<Rightarrow> metered_call list \<Rightarrow> 's \<Rightarrow> metered_call list \<times> 's" where
  "run_meter consume [] s = ([], s)"
| "run_meter consume ((g, args, now) # calls) s =
     (let (verdict, s') = moneyMeter consume now g args s; (allowed, s'') = run_meter consume calls s'
      in (if verdict = Inr () then (g, args, now) # allowed else allowed, s''))"

definition call_grant :: "metered_call \<Rightarrow> string" where
  "call_grant call = vg_grant_id (fst call)"

definition call_nonce :: "metered_call \<Rightarrow> jsnum" where
  "call_nonce call = (case vg_token_issued_at (fst call) of Some n \<Rightarrow> n | None \<Rightarrow> NaN)"

definition call_time :: "metered_call \<Rightarrow> int" where
  "call_time call = snd (snd call)"

definition call_amount :: "metered_call \<Rightarrow> int" where
  "call_amount call = (case extractMoneyAction (fst (snd call)) of Some a \<Rightarrow> num_floor (ma_amount_micro a) | None \<Rightarrow> 0)"

definition call_counterparty :: "metered_call \<Rightarrow> string option" where
  "call_counterparty call = Option.bind (extractMoneyAction (fst (snd call))) (canonicalizeCounterparty \<circ> ma_counterparty)"

text \<open>The calls under one grant.\<close>

definition of_grant :: "string \<Rightarrow> metered_call list \<Rightarrow> metered_call list" where
  "of_grant gid calls = filter (\<lambda>call. call_grant call = gid) calls"

definition carries :: "string \<Rightarrow> spend_ceiling \<Rightarrow> metered_call list \<Rightarrow> bool" where
  \<comment> \<open>the ceiling is part of the signed grant\<close>
  "carries gid c calls \<longleftrightarrow> (\<forall>call \<in> set calls. call_grant call = gid \<longrightarrow> vg_spend_ceiling (fst call) = Some c)"

lemma of_grant_Cons [simp]: "of_grant gid (call # calls) = (if call_grant call = gid then call # of_grant gid calls else of_grant gid calls)"
  by (simp add: of_grant_def)

lemma of_grant_Nil [simp]: "of_grant gid [] = []"
  by (simp add: of_grant_def)

lemma carries_Cons [simp]:
  "carries gid c (call # calls) \<longleftrightarrow> (call_grant call = gid \<longrightarrow> vg_spend_ceiling (fst call) = Some c) \<and> carries gid c calls"
  by (auto simp add: carries_def)

text \<open>The accumulator a call works on.\<close>

definition known_state :: "grant_spend_state option \<Rightarrow> string \<Rightarrow> int \<Rightarrow> grant_spend_state" where
  "known_state known gid now = (case known of Some s \<Rightarrow> s | None \<Rightarrow> freshGrantSpendState gid now)"

lemma known_state_simps [simp]: "known_state (Some s) gid now = s" "known_state None gid now = freshGrantSpendState gid now"
  by (simp_all add: known_state_def)

text \<open>An allowed call under the ceiling \<open>c\<close>, in terms of the accumulators before and after.\<close>

definition spends :: "spend_ceiling \<Rightarrow> metered_call \<Rightarrow> grant_spend_state \<Rightarrow> grant_spend_state \<Rightarrow> bool" where
  "spends c call s s' \<longleftrightarrow> (\<exists>cp. call_counterparty call = Some cp
     \<and> fits c s (current_window c s (call_time call)) cp (call_amount call) (call_nonce call)
     \<and> s' = commit_spend (current_window c s (call_time call)) cp (call_amount call) (call_nonce call))"

lemma spends_frame:
  assumes "spends c call s s'"
  shows "gs_lifetime_spent_micro s' = gs_lifetime_spent_micro s + call_amount call" "gs_high_water_nonce s' = call_nonce call"
    "0 < call_amount call" "\<not> num_le (call_nonce call) (gs_high_water_nonce s)"
    "limit_of (sc_lifetime_limit_micro c) = Some l \<Longrightarrow> gs_lifetime_spent_micro s' \<le> l"
  using assms by (auto simp add: spends_def fits_def commit_spend_def exceeds_def)

lemma fresh_started [simp]: "gs_window_started_at (freshGrantSpendState gid t) = t"
  by (simp add: freshGrantSpendState_def)

definition reset_window :: "grant_spend_state \<Rightarrow> int \<Rightarrow> grant_spend_state" where
  "reset_window s t = s\<lparr>gs_window_started_at := t, gs_window_spent_micro := 0, gs_window_action_count := 0, gs_per_counterparty_micro := []\<rparr>"

lemma current_window_cases:
  assumes "sc_window_ms c = JNumber (Fin (of_int w))"
  obtains "current_window c s t = s" | "current_window c s t = reset_window s t" "gs_window_started_at s + w \<le> t" "0 < w"
proof -
  have le: "(of_int (gs_window_started_at s) + of_int w \<le> (of_int t :: rat)) = (gs_window_started_at s + w \<le> t)"
    by (metis of_int_add of_int_le_iff)
  show ?thesis
  proof (cases "gs_window_started_at s + w \<le> t \<and> 0 < w \<and> has_window_limit c")
    case True
    then show ?thesis using le assms by (intro that(2)) (simp_all add: current_window_def reset_window_def window_end_def num_lt_def)
  next
    case False
    then show ?thesis using le assms by (intro that(1)) (auto simp add: current_window_def window_end_def num_lt_def)
  qed
qed

text \<open>
  A quantity that grows with the allowed calls of a window and starts again at zero in the next one: the money spent,
  the number of actions, the money spent on one counterparty.
\<close>

locale windowed =
  fixes c :: spend_ceiling
    and quantity :: "grant_spend_state \<Rightarrow> int"
    and share :: "metered_call \<Rightarrow> int"
    and good :: "grant_spend_state \<Rightarrow> bool"
    and bound :: int
  assumes fresh: "good (freshGrantSpendState gid t)" "quantity (freshGrantSpendState gid t) = 0"
    and reset: "good s \<Longrightarrow> good (reset_window s t)" "quantity (reset_window s t) = 0"
    and quantity_nonneg: "good s \<Longrightarrow> 0 \<le> quantity s"
    and share_nonneg: "call_amount call > 0 \<Longrightarrow> 0 \<le> share call"
    and spent: "spends c call s s' \<Longrightarrow> good s \<Longrightarrow> good s' \<and> quantity s' = quantity (current_window c s (call_time call)) + share call
      \<and> (0 < share call \<longrightarrow> quantity s' \<le> bound)"
    and bound_nonneg: "0 \<le> bound"
begin

definition slack :: "int \<Rightarrow> grant_spend_state option \<Rightarrow> int" where
  "slack t st = (case st of None \<Rightarrow> bound
     | Some st \<Rightarrow> max 0 (bound - quantity st) + (if t \<le> gs_window_started_at st then 0 else bound))"

lemma slack_nonneg: "0 \<le> slack t st"
  using bound_nonneg by (simp add: slack_def split: option.split)

lemma slack_twice: "(\<And>s. st = Some s \<Longrightarrow> good s) \<Longrightarrow> slack t st \<le> 2 * bound"
proof (cases st)
  case None
  then show ?thesis using bound_nonneg by (simp add: slack_def)
next
  case (Some s)
  moreover assume "\<And>s. st = Some s \<Longrightarrow> good s"
  ultimately have "0 \<le> quantity s" using quantity_nonneg by blast
  then show ?thesis using bound_nonneg Some by (simp add: slack_def)
qed

lemma slack_step:
  assumes w: "sc_window_ms c = JNumber (Fin (of_int w))" and sp: "spends c call (known_state st gid (call_time call)) s'"
    and good: "\<And>s. st = Some s \<Longrightarrow> good s" and t: "t \<le> call_time call" "call_time call < t + w"
  shows "good s' \<and> share call + slack t (Some s') \<le> slack t st"
proof -
  let ?s = "known_state st gid (call_time call)" and ?cw = "current_window c (known_state st gid (call_time call)) (call_time call)"
  have g: "good ?s" using good fresh(1) by (cases st) simp_all
  have k: "0 \<le> share call" using spends_frame(3) [OF sp] by (rule share_nonneg)
  have s': "good s'" "quantity s' = quantity ?cw + share call" "0 < share call \<longrightarrow> quantity s' \<le> bound"
    using spent [OF sp g] by blast+
  have start: "gs_window_started_at s' = gs_window_started_at ?cw" using sp by (auto simp add: spends_def commit_spend_def)
  from w show ?thesis
  proof (cases rule: current_window_cases [where s = ?s and t = "call_time call"])
    case 1
    then show ?thesis using s' start k bound_nonneg t by (cases st) (auto simp add: slack_def fresh(2))
  next
    case 2
    then obtain s where s: "st = Some s" using 2(3) by (cases st) auto
    have q: "quantity s' = share call" "t \<le> gs_window_started_at s'" "\<not> t \<le> gs_window_started_at s"
      using 2 s' start t reset(2) s by (simp_all add: reset_window_def)
    then show ?thesis using s'(1,3) k bound_nonneg s by (auto simp add: slack_def)
  qed
qed

end

subsection \<open>The interface of a store\<close>

locale grant_spend_store =
  fixes peek :: "'s \<Rightarrow> string \<Rightarrow> grant_spend_state option"
    and consume :: "'s \<Rightarrow> consume_input \<Rightarrow> blast_decision \<times> 's"
  assumes consume_decides: "fst (consume s i) = fst (evaluate_input (peek s (ci_grant_id i)) i)"
    and peek_consume: "peek (snd (consume s i)) gid =
      (case snd (evaluate_input (peek s (ci_grant_id i)) i) of
         Some next \<Rightarrow> if gid = ci_grant_id i then Some next else peek s gid
       | None \<Rightarrow> peek s gid)"
begin

lemma consume_cases:
  "(\<exists>d. \<not> bd_allowed d \<and> bd_denial d \<noteq> None \<and> fst (consume s i) = d \<and> peek (snd (consume s i)) = peek s)
   \<or> (\<exists>d cp. bd_allowed d \<and> fst (consume s i) = d \<and> canonicalizeCounterparty (ma_counterparty (ci_action i)) = Some cp
        \<and> (let st = known_state (peek s (ci_grant_id i)) (ci_grant_id i) (ci_now i); w = current_window (ci_ceiling i) st (ci_now i);
               amt = num_floor (ma_amount_micro (ci_action i))
           in fits (ci_ceiling i) st w cp amt (ci_nonce i)
              \<and> peek (snd (consume s i)) = (peek s)(ci_grant_id i := Some (commit_spend w cp amt (ci_nonce i)))))"
proof -
  let ?st = "known_state (peek s (ci_grant_id i)) (ci_grant_id i) (ci_now i)"
  let ?e = "evaluateBlastRadius (ci_ceiling i) ?st (ci_action i) (ci_nonce i) (ci_now i)"
  have e: "evaluate_input (peek s (ci_grant_id i)) i = ?e" by (simp add: evaluate_input_def known_state_def)
  consider (no) d where "?e = (d, None)" "\<not> bd_allowed d" "bd_denial d \<noteq> None"
    | (yes) d cp where "canonicalizeCounterparty (ma_counterparty (ci_action i)) = Some cp" "bd_allowed d"
        "fits (ci_ceiling i) ?st (current_window (ci_ceiling i) ?st (ci_now i)) cp (num_floor (ma_amount_micro (ci_action i))) (ci_nonce i)"
        "?e = (d, Some (commit_spend (current_window (ci_ceiling i) ?st (ci_now i)) cp (num_floor (ma_amount_micro (ci_action i))) (ci_nonce i)))"
    using evaluate_cases [of "ci_ceiling i" ?st "ci_action i" "ci_nonce i" "ci_now i"] by blast
  then show ?thesis
  proof cases
    case no
    then have "peek (snd (consume s i)) = peek s" by (intro ext) (simp add: peek_consume e)
    then show ?thesis using no consume_decides [of s i] by (auto simp add: e)
  next
    case yes
    then have "peek (snd (consume s i)) = (peek s)(ci_grant_id i := Some (commit_spend (current_window (ci_ceiling i) ?st (ci_now i)) cp
        (num_floor (ma_amount_micro (ci_action i))) (ci_nonce i)))"
      by (intro ext) (simp add: peek_consume e)
    then show ?thesis using yes consume_decides [of s i] unfolding Let_def e by (intro disjI2 exI [of _ d] exI [of _ cp]) simp
  qed
qed

lemma meter_cases:
  obtains "fst (moneyMeter consume now g args s) \<noteq> Inr ()" "peek (snd (moneyMeter consume now g args s)) = peek s"
  | c s' where "fst (moneyMeter consume now g args s) = Inr ()" "vg_spend_ceiling g = Some c"
      "spends c (g, args, now) (known_state (peek s (vg_grant_id g)) (vg_grant_id g) now) s'"
      "peek (snd (moneyMeter consume now g args s)) = (peek s)(vg_grant_id g := Some s')"
      "list_all (\<lambda>f. \<not> malformed c f) (CEILING_LIMIT_FIELDS @ [(''window_ms'', sc_window_ms)])"
proof (cases "\<exists>c a n. spendCeilingFromGrant (vg_spend_ceiling g) = Inr (Some c) \<and> extractMoneyAction args = Some a \<and> vg_token_issued_at g = Some n")
  case False
  then have "fst (moneyMeter consume now g args s) \<noteq> Inr () \<and> snd (moneyMeter consume now g args s) = s"
    by (auto simp add: moneyMeter_def split: sum.split option.split)
  then show ?thesis using that(1) by simp
next
  case True
  then obtain c a n where c: "spendCeilingFromGrant (vg_spend_ceiling g) = Inr (Some c)" and a: "extractMoneyAction args = Some a"
    and n: "vg_token_issued_at g = Some n" by blast
  let ?i = "\<lparr> ci_grant_id = vg_grant_id g, ci_ceiling = c, ci_action = a, ci_nonce = n, ci_now = now \<rparr>"
  let ?st = "known_state (peek s (vg_grant_id g)) (vg_grant_id g) now"
  have m: "moneyMeter consume now g args s =
      (if bd_allowed (fst (consume s ?i)) then Inr () else Inl (case bd_denial (fst (consume s ?i)) of Some d \<Rightarrow> Blast d | None \<Rightarrow> Denied),
       snd (consume s ?i))"
    by (simp add: moneyMeter_def c a n case_prod_beta)
  have c': "vg_spend_ceiling g = Some c" "list_all (\<lambda>f. \<not> malformed c f) (CEILING_LIMIT_FIELDS @ [(''window_ms'', sc_window_ms)])"
    using c by (auto simp add: spendCeilingFromGrant_def find_None_iff list_all_iff split: option.splits)
  have sp: "spends c (g, args, now) ?st (commit_spend (current_window c ?st now) cp (num_floor (ma_amount_micro a)) n)"
    if "canonicalizeCounterparty (ma_counterparty a) = Some cp" "fits c ?st (current_window c ?st now) cp (num_floor (ma_amount_micro a)) n" for cp
    using that by (simp add: spends_def call_counterparty_def call_amount_def call_nonce_def call_time_def a n)
  show ?thesis
    using consume_cases [of s ?i]
  proof (elim disjE exE conjE)
    fix d assume "\<not> bd_allowed d" "fst (consume s ?i) = d" "peek (snd (consume s ?i)) = peek s"
    then show ?thesis by (intro that(1)) (simp_all add: m)
  next
    fix d cp assume "bd_allowed d" "fst (consume s ?i) = d" "canonicalizeCounterparty (ma_counterparty (ci_action ?i)) = Some cp"
      "let st = known_state (peek s (ci_grant_id ?i)) (ci_grant_id ?i) (ci_now ?i); w = current_window (ci_ceiling ?i) st (ci_now ?i);
         amt = num_floor (ma_amount_micro (ci_action ?i))
       in fits (ci_ceiling ?i) st w cp amt (ci_nonce ?i) \<and> peek (snd (consume s ?i)) = (peek s)(ci_grant_id ?i := Some (commit_spend w cp amt (ci_nonce ?i)))"
    then show ?thesis by (intro that(2) [OF _ c'(1) sp _ c'(2)]) (simp_all add: m Let_def)
  qed
qed

lemma run_Cons:
  "run_meter consume (call # calls) s =
     (let (verdict, s') = moneyMeter consume (call_time call) (fst call) (fst (snd call)) s
      in (if verdict = Inr () then call # fst (run_meter consume calls s') else fst (run_meter consume calls s'), snd (run_meter consume calls s')))"
  by (cases call) (simp add: call_time_def case_prod_beta Let_def)

text \<open>One call, seen from the accumulator of one grant.\<close>

lemma call_step:
  assumes "carries gid c (call # calls)"
  obtains s' where "run_meter consume (call # calls) s = run_meter consume calls s'
      \<or> call_grant call \<noteq> gid \<and> run_meter consume (call # calls) s = (call # fst (run_meter consume calls s'), snd (run_meter consume calls s'))"
    "peek s' gid = peek s gid"
  | s' st' where "run_meter consume (call # calls) s = (call # fst (run_meter consume calls s'), snd (run_meter consume calls s'))"
    "call_grant call = gid" "spends c call (known_state (peek s gid) gid (call_time call)) st'" "peek s' gid = Some st'"
    "list_all (\<lambda>f. \<not> malformed c f) (CEILING_LIMIT_FIELDS @ [(''window_ms'', sc_window_ms)])"
proof -
  obtain g args now where call: "call = (g, args, now)" by (cases call)
  let ?s' = "snd (moneyMeter consume now g args s)"
  have r: "run_meter consume (call # calls) s =
      (if fst (moneyMeter consume now g args s) = Inr () then call # fst (run_meter consume calls ?s') else fst (run_meter consume calls ?s'),
       snd (run_meter consume calls ?s'))"
    unfolding run_Cons by (simp add: call call_time_def case_prod_beta Let_def)
  show ?thesis
  proof (cases rule: meter_cases [of now g args s])
    case 1
    then show ?thesis using r by (intro that(1) [of ?s']) simp_all
  next
    case (2 c' st')
    show ?thesis
    proof (cases "call_grant call = gid")
      case True
      then have "c' = c" using 2(2) assms by (simp add: call)
      then show ?thesis using 2 r True by (intro that(2) [of ?s' st']) (simp_all add: call call_grant_def call_time_def)
    next
      case False
      then show ?thesis using 2 r by (intro that(1) [of ?s']) (simp_all add: call call_grant_def)
    qed
  qed
qed

definition lifetime_of :: "'s \<Rightarrow> string \<Rightarrow> int" where
  "lifetime_of s gid = (case peek s gid of Some st \<Rightarrow> gs_lifetime_spent_micro st | None \<Rightarrow> 0)"

definition nonce_of :: "'s \<Rightarrow> string \<Rightarrow> jsnum" where
  "nonce_of s gid = (case peek s gid of Some st \<Rightarrow> gs_high_water_nonce st | None \<Rightarrow> Fin (-1))"

lemma known_lifetime: "gs_lifetime_spent_micro (known_state (peek s gid) gid t) = lifetime_of s gid"
  by (simp add: lifetime_of_def freshGrantSpendState_def split: option.split)

lemma known_nonce: "gs_high_water_nonce (known_state (peek s gid) gid t) = nonce_of s gid"
  by (simp add: nonce_of_def freshGrantSpendState_def split: option.split)

lemma run_lifetime:
  assumes "carries gid c calls" and "limit_of (sc_lifetime_limit_micro c) = Some l" and "lifetime_of s gid \<le> l"
  shows "lifetime_of s gid + sum_list (map call_amount (of_grant gid (fst (run_meter consume calls s)))) = lifetime_of (snd (run_meter consume calls s)) gid
    \<and> lifetime_of (snd (run_meter consume calls s)) gid \<le> l"
  using assms
proof (induction calls arbitrary: s)
  case Nil
  then show ?case by simp
next
  case (Cons call calls)
  from Cons.prems(1) show ?case
  proof (cases rule: call_step [where s = s])
    case (1 s')
    then have "lifetime_of s' gid = lifetime_of s gid" by (simp add: lifetime_of_def)
    then show ?thesis using 1 Cons.IH [of s'] Cons.prems by auto
  next
    case (2 s' st')
    then have l: "lifetime_of s' gid = lifetime_of s gid + call_amount call" "lifetime_of s' gid \<le> l"
      using spends_frame [OF 2(3)] Cons.prems(2) by (simp_all add: lifetime_of_def known_lifetime)
    then show ?thesis using 2 Cons.IH [of s'] Cons.prems by auto
  qed
qed

lemma run_nonces:
  assumes "carries gid c calls" and "\<forall>call \<in> set (of_grant gid calls). call_nonce call \<noteq> NaN" and "nonce_of s gid \<noteq> NaN"
  shows "sorted_wrt num_lt (nonce_of s gid # map call_nonce (of_grant gid (fst (run_meter consume calls s))))"
  using assms
proof (induction calls arbitrary: s)
  case Nil
  then show ?case by simp
next
  case (Cons call calls)
  from Cons.prems(1) show ?case
  proof (cases rule: call_step [where s = s])
    case (1 s')
    then have "nonce_of s' gid = nonce_of s gid" by (simp add: nonce_of_def)
    then show ?thesis using 1 Cons.IH [of s'] Cons.prems by (auto split: if_splits)
  next
    case (2 s' st')
    have n: "nonce_of s' gid = call_nonce call" "\<not> num_le (call_nonce call) (nonce_of s gid)"
      using spends_frame [OF 2(3)] 2(4) by (simp_all add: nonce_of_def known_nonce)
    have lt: "num_lt (nonce_of s gid) (call_nonce call)"
      using n(2) Cons.prems(2,3) num_le_total [of "nonce_of s gid" "call_nonce call"] 2(2) by (auto simp add: num_lt_def)
    have "sorted_wrt num_lt (nonce_of s' gid # map call_nonce (of_grant gid (fst (run_meter consume calls s'))))"
      using Cons.IH [of s'] Cons.prems 2(2) n(1) by simp
    then show ?thesis using 2(1,2) lt n(1) num_lt_trans [OF lt] by auto
  qed
qed

end

text \<open>In a store, over the calls whose clock readings lie within one window length.\<close>

locale windowed_store = grant_spend_store + windowed
begin

lemma run_window:
  assumes "sc_window_ms c = JNumber (Fin (of_int w))" and "carries gid c calls" and "\<And>st. peek s gid = Some st \<Longrightarrow> good st"
    and "\<forall>call \<in> set (of_grant gid calls). t \<le> call_time call \<and> call_time call < t + w"
  shows "(\<forall>st. peek (snd (run_meter consume calls s)) gid = Some st \<longrightarrow> good st)
    \<and> sum_list (map share (of_grant gid (fst (run_meter consume calls s)))) \<le> slack t (peek s gid)"
  using assms(2-)
proof (induction calls arbitrary: s)
  case Nil
  then show ?case using slack_nonneg by simp
next
  case (Cons call calls)
  from Cons.prems(1) show ?case
  proof (cases rule: call_step [where s = s])
    case (1 s')
    then show ?thesis using Cons.IH [of s'] Cons.prems by (auto split: if_splits)
  next
    case (2 s' st')
    have "good st' \<and> share call + slack t (Some st') \<le> slack t (peek s gid)"
      using slack_step [OF assms(1) 2(3), where t = t] Cons.prems 2(2) by auto
    moreover have "(\<forall>st. peek (snd (run_meter consume calls s')) gid = Some st \<longrightarrow> good st)
        \<and> sum_list (map share (of_grant gid (fst (run_meter consume calls s')))) \<le> slack t (peek s' gid)"
      using Cons.IH [of s'] Cons.prems calculation 2(2,4) by simp
    ultimately show ?thesis using 2(1,2,4) by auto
  qed
qed

lemma run_good:
  assumes "sc_window_ms c = JNumber (Fin (of_int w))" and "carries gid c calls" and "\<And>st. peek s gid = Some st \<Longrightarrow> good st"
  shows "\<forall>st. peek (snd (run_meter consume calls s)) gid = Some st \<longrightarrow> good st"
  using assms(2-)
proof (induction calls arbitrary: s)
  case Nil
  then show ?case by simp
next
  case (Cons call calls)
  from Cons.prems(1) show ?case
  proof (cases rule: call_step [where s = s])
    case (1 s')
    then show ?thesis using Cons.IH [of s'] Cons.prems by (auto split: if_splits)
  next
    case (2 s' st')
    have "good (known_state (peek s gid) gid (call_time call))" using Cons.prems(2) fresh(1) by (cases "peek s gid") simp_all
    then have "good st'" using spent [OF 2(3)] by simp
    then show ?thesis using 2 Cons.IH [of s'] Cons.prems by auto
  qed
qed

end

subsection \<open>The limits of a window\<close>

datatype window_dim = Money | Actions | PaidTo string

definition dim_limit :: "spend_ceiling \<Rightarrow> window_dim \<Rightarrow> int option" where
  \<comment> \<open>the limit on a counterparty does not bind the names that every object inherits\<close>
  "dim_limit c d = (case d of Money \<Rightarrow> limit_of (sc_cumulative_limit_micro c) | Actions \<Rightarrow> limit_of (sc_max_action_count c)
     | PaidTo cp \<Rightarrow> if cp \<in> set object_prototype_names then None else limit_of (sc_per_counterparty_limit_micro c))"

definition dim_quantity :: "spend_ceiling \<Rightarrow> window_dim \<Rightarrow> grant_spend_state \<Rightarrow> int" where
  "dim_quantity c d s = (if dim_limit c d = None then 0 else
     (case d of Money \<Rightarrow> gs_window_spent_micro s | Actions \<Rightarrow> gs_window_action_count s
      | PaidTo cp \<Rightarrow> cp_value (cp_lookup (gs_per_counterparty_micro s) cp)))"

definition dim_share :: "spend_ceiling \<Rightarrow> window_dim \<Rightarrow> metered_call \<Rightarrow> int" where
  "dim_share c d call = (if dim_limit c d = None then 0 else
     (case d of Money \<Rightarrow> call_amount call | Actions \<Rightarrow> 1 | PaidTo cp \<Rightarrow> if call_counterparty call = Some cp then call_amount call else 0))"

definition dim_bound :: "spend_ceiling \<Rightarrow> window_dim \<Rightarrow> int" where
  "dim_bound c d = (case dim_limit c d of Some l \<Rightarrow> max 0 l | None \<Rightarrow> 0)"

definition sound_entry :: "string \<Rightarrow> cp_amount \<Rightarrow> bool" where
  "sound_entry cp v \<longleftrightarrow> (case v of NotNumeric \<Rightarrow> cp \<in> set object_prototype_names | Amount a \<Rightarrow> cp \<notin> set object_prototype_names \<and> 0 \<le> a)"

definition sound_window :: "grant_spend_state \<Rightarrow> bool" where
  "sound_window s \<longleftrightarrow> 0 \<le> gs_window_spent_micro s \<and> 0 \<le> gs_window_action_count s
     \<and> (\<forall>cp. sound_entry cp (cp_lookup (gs_per_counterparty_micro s) cp))"

lemma cp_lookup_set: "cp_lookup (jsm_set cp v m) cp' = (if cp' = cp then v else cp_lookup m cp')"
  by (simp add: cp_lookup_def jsm_get_set)

lemma sound_entry_add: "sound_entry cp v \<Longrightarrow> 0 \<le> a \<Longrightarrow> sound_entry cp (cp_add v a)"
  by (cases v) (simp_all add: sound_entry_def)

lemma sound_empty: "sound_entry cp (cp_lookup [] cp)"
  by (simp add: sound_entry_def cp_lookup_def)

lemma sound_reset: "sound_window (reset_window s t)"
  by (simp add: sound_window_def reset_window_def sound_empty)

lemma sound_current: "sound_window s \<Longrightarrow> sound_window (current_window c s t)"
  using sound_reset [of s t] by (auto simp add: current_window_def reset_window_def)

lemma sound_commit: "sound_window w \<Longrightarrow> 0 < a \<Longrightarrow> sound_window (commit_spend w cp a n)"
  by (auto simp add: sound_window_def commit_spend_def cp_lookup_set sound_entry_add)

lemma sound_spends: "spends c call s s' \<Longrightarrow> sound_window s \<Longrightarrow> sound_window s'"
  using sound_commit sound_current by (metis fits_def spends_def)

lemma dim_spent:
  assumes sp: "spends c call s s'" and g: "sound_window s"
  shows "dim_quantity c d s' = dim_quantity c d (current_window c s (call_time call)) + dim_share c d call
    \<and> (0 < dim_share c d call \<longrightarrow> dim_quantity c d s' \<le> dim_bound c d)"
proof (cases "dim_limit c d")
  case None
  then show ?thesis by (simp add: dim_quantity_def dim_share_def)
next
  case (Some l)
  let ?w = "current_window c s (call_time call)"
  obtain cp where cp: "call_counterparty call = Some cp" and f: "fits c s ?w cp (call_amount call) (call_nonce call)"
    and s': "s' = commit_spend ?w cp (call_amount call) (call_nonce call)"
    using sp by (auto simp add: spends_def)
  have g': "sound_window ?w" using sound_current [OF g] .
  show ?thesis
  proof (cases d)
    case Money
    then show ?thesis using Some f s' by (auto simp add: dim_quantity_def dim_share_def dim_bound_def dim_limit_def commit_spend_def fits_def exceeds_def)
  next
    case Actions
    then show ?thesis using Some f s' by (auto simp add: dim_quantity_def dim_share_def dim_bound_def dim_limit_def commit_spend_def fits_def exceeds_def)
  next
    case (PaidTo cp')
    have l: "limit_of (sc_per_counterparty_limit_micro c) = Some l" "cp' \<notin> set object_prototype_names"
      using Some PaidTo by (auto simp add: dim_limit_def split: if_splits)
    obtain a where a: "cp_lookup (gs_per_counterparty_micro ?w) cp' = Amount a"
      using g' l(2) by (cases "cp_lookup (gs_per_counterparty_micro ?w) cp'") (auto simp add: sound_window_def sound_entry_def split: cp_amount.splits)
    have "cp = cp' \<Longrightarrow> a + call_amount call \<le> l" using f l(1) a by (auto simp add: fits_def)
    then show ?thesis using Some PaidTo cp a s' by (auto simp add: dim_quantity_def dim_share_def dim_bound_def commit_spend_def cp_lookup_set)
  qed
qed

interpretation dims: windowed c "dim_quantity c d" "dim_share c d" sound_window "dim_bound c d" for c d
proof unfold_locales
  show "sound_window (freshGrantSpendState gid t)" for gid t by (simp add: sound_window_def freshGrantSpendState_def sound_empty)
  show "dim_quantity c d (freshGrantSpendState gid t) = 0" for gid t
    by (simp add: dim_quantity_def freshGrantSpendState_def cp_lookup_def dim_limit_def split: window_dim.split)
  show "sound_window (reset_window s t)" for s t by (rule sound_reset)
  show "dim_quantity c d (reset_window s t) = 0" for s t
    by (simp add: dim_quantity_def reset_window_def cp_lookup_def dim_limit_def split: window_dim.split)
  show "0 \<le> dim_quantity c d s" if "sound_window s" for s
  proof -
    have "sound_entry cp v \<Longrightarrow> 0 \<le> cp_value v" for cp v by (cases v) (simp_all add: sound_entry_def)
    then have "0 \<le> cp_value (cp_lookup (gs_per_counterparty_micro s) cp)" for cp using that unfolding sound_window_def by blast
    then show ?thesis using that by (auto simp add: dim_quantity_def sound_window_def split: window_dim.split)
  qed
  show "0 \<le> dim_share c d call" if "0 < call_amount call" for call
    using that by (auto simp add: dim_share_def split: window_dim.split)
  show "sound_window s' \<and> dim_quantity c d s' = dim_quantity c d (current_window c s (call_time call)) + dim_share c d call
      \<and> (0 < dim_share c d call \<longrightarrow> dim_quantity c d s' \<le> dim_bound c d)" if "spends c call s s'" "sound_window s" for call s s'
    using sound_spends [OF that] dim_spent [OF that] by blast
  show "0 \<le> dim_bound c d" by (simp add: dim_bound_def split: option.split)
qed

subsection \<open>The two stores\<close>

interpretation mem_spend: grant_spend_store jsm_get tryConsume
proof unfold_locales
  fix s :: spend_states and i :: consume_input and gid :: string
  show "fst (tryConsume s i) = fst (evaluate_input (jsm_get s (ci_grant_id i)) i)" by (simp add: tryConsume_def case_prod_beta)
  show "jsm_get (snd (tryConsume s i)) gid = (case snd (evaluate_input (jsm_get s (ci_grant_id i)) i) of
      Some next \<Rightarrow> if gid = ci_grant_id i then Some next else jsm_get s gid | None \<Rightarrow> jsm_get s gid)"
    using evaluate_cases [of "ci_ceiling i"
        "case jsm_get s (ci_grant_id i) of Some s \<Rightarrow> s | None \<Rightarrow> freshGrantSpendState (ci_grant_id i) (ci_now i)" "ci_action i" "ci_nonce i" "ci_now i"]
    by (auto simp add: tryConsume_def evaluate_input_def jsm_get_set)
qed

lemma sqlite_peek_put:
  "sqlite_peek (stmtPut next rows) gid = (if gid = gs_grant_id next then Some next else sqlite_peek rows gid)"
proof -
  have "find (\<lambda>row. gr_grant_id row = gid) (filter (\<lambda>row. gr_grant_id row \<noteq> gs_grant_id next) rows) =
      (if gid = gs_grant_id next then None else find (\<lambda>row. gr_grant_id row = gid) rows)"
    by (induction rows) auto
  then show ?thesis by (auto simp add: sqlite_peek_def stmtPut_def find_append split: option.split)
qed

lemma sqlite_peek_id: "sqlite_peek rows gid = Some s \<Longrightarrow> gs_grant_id s = gid"
  by (auto simp add: sqlite_peek_def dest: find_Some_iff [THEN iffD1])

interpretation sqlite_spend: grant_spend_store sqlite_peek sqlite_tryConsume
proof unfold_locales
  fix s :: "grant_spend_row list" and i :: consume_input and gid :: string
  let ?st = "case sqlite_peek s (ci_grant_id i) of Some s \<Rightarrow> s | None \<Rightarrow> freshGrantSpendState (ci_grant_id i) (ci_now i)"
  show "fst (sqlite_tryConsume s i) = fst (evaluate_input (sqlite_peek s (ci_grant_id i)) i)" by (simp add: sqlite_tryConsume_def case_prod_beta)
  have id: "gs_grant_id ?st = ci_grant_id i" using sqlite_peek_id by (auto simp add: freshGrantSpendState_def split: option.split)
  show "sqlite_peek (snd (sqlite_tryConsume s i)) gid = (case snd (evaluate_input (sqlite_peek s (ci_grant_id i)) i) of
      Some next \<Rightarrow> if gid = ci_grant_id i then Some next else sqlite_peek s gid | None \<Rightarrow> sqlite_peek s gid)"
    using evaluate_cases [of "ci_ceiling i" ?st "ci_action i" "ci_nonce i" "ci_now i"] id
    by (auto simp add: sqlite_tryConsume_def evaluate_input_def sqlite_peek_put commit_spend_def)
qed

interpretation mem_window: windowed_store jsm_get tryConsume c "dim_quantity c d" "dim_share c d" sound_window "dim_bound c d" for c d ..

interpretation sqlite_window: windowed_store sqlite_peek sqlite_tryConsume c "dim_quantity c d" "dim_share c d" sound_window "dim_bound c d" for c d ..

text \<open>Two stores that hold the same accumulators allow the same calls.\<close>

lemma consume_agree:
  assumes "jsm_get s = sqlite_peek rows"
  shows "fst (tryConsume s i) = fst (sqlite_tryConsume rows i) \<and> jsm_get (snd (tryConsume s i)) = sqlite_peek (snd (sqlite_tryConsume rows i))"
  by (auto simp add: mem_spend.consume_decides sqlite_spend.consume_decides mem_spend.peek_consume sqlite_spend.peek_consume assms fun_eq_iff
      split: option.split)

lemma meter_agree:
  assumes "jsm_get s = sqlite_peek rows"
  shows "fst (moneyMeter tryConsume now g args s) = fst (moneyMeter sqlite_tryConsume now g args rows)
    \<and> jsm_get (snd (moneyMeter tryConsume now g args s)) = sqlite_peek (snd (moneyMeter sqlite_tryConsume now g args rows))"
  using consume_agree [OF assms] assms by (simp add: moneyMeter_def case_prod_beta split: sum.split option.split)

lemma runs_agree:
  "jsm_get s = sqlite_peek rows \<Longrightarrow> fst (run_meter tryConsume calls s) = fst (run_meter sqlite_tryConsume calls rows)"
proof (induction calls arbitrary: s rows)
  case Nil
  then show ?case by simp
next
  case (Cons call calls)
  let ?s' = "snd (moneyMeter tryConsume (call_time call) (fst call) (fst (snd call)) s)"
  let ?r' = "snd (moneyMeter sqlite_tryConsume (call_time call) (fst call) (fst (snd call)) rows)"
  have "fst (run_meter tryConsume calls ?s') = fst (run_meter sqlite_tryConsume calls ?r')"
    using Cons.IH meter_agree [OF Cons.prems] by blast
  then show ?case unfolding mem_spend.run_Cons sqlite_spend.run_Cons
    using meter_agree [OF Cons.prems] by (simp add: case_prod_beta Let_def)
qed

lemma peek_empty: "jsm_get [] = sqlite_peek []"
  by (simp add: fun_eq_iff sqlite_peek_def)

subsection \<open>What a standing grant bounds\<close>


definition demo_ceiling :: spend_ceiling where
  "demo_ceiling = \<lparr> sc_cumulative_limit_micro = JNumber (Fin 10), sc_per_counterparty_limit_micro = JNumber (Fin 6), sc_max_action_count = JUndefined,
     sc_lifetime_limit_micro = JNumber (Fin 100), sc_window_ms = JNumber (Fin 1000) \<rparr>"

definition demo_call :: "int \<Rightarrow> int \<Rightarrow> string \<Rightarrow> metered_call" where
  "demo_call t a cp = (\<lparr> vg_grant_id = ''g'', vg_verified_at = 0, vg_token_issued_at = Some (Fin (of_int t)), vg_spend_ceiling = Some demo_ceiling \<rparr>,
     [(''amount_micro'', JNumber (Fin (of_int a))), (''counterparty'', JString cp)], t)"

lemma carries_demo: "carries ''g'' demo_ceiling [demo_call t a cp, demo_call t' a' cp']"
  by (simp add: carries_def demo_call_def)


lemma dim_window:
  assumes "sc_window_ms c = JNumber (Fin (of_int w))" and "carries gid c (earlier @ calls)" and "dim_limit c d = Some l" and "0 \<le> l"
    and "\<forall>call \<in> set (of_grant gid calls). t \<le> call_time call \<and> call_time call < t + w"
  shows "sum_list (map (dim_share c d) (of_grant gid (fst (run_meter sqlite_tryConsume calls (snd (run_meter sqlite_tryConsume earlier [])))))) \<le> 2 * l"
proof -
  let ?s = "snd (run_meter sqlite_tryConsume earlier [])"
  have c: "carries gid c earlier" "carries gid c calls" using assms(2) by (auto simp add: carries_def)
  have "\<forall>st. sqlite_peek ?s gid = Some st \<longrightarrow> sound_window st"
    by (rule sqlite_window.run_good [OF assms(1) c(1)]) (simp add: sqlite_peek_def)
  then have g: "sqlite_peek ?s gid = Some st \<Longrightarrow> sound_window st" for st by blast
  have "dims.slack c d t (sqlite_peek ?s gid) \<le> 2 * dim_bound c d" by (rule dims.slack_twice) (rule g)
  moreover have "sum_list (map (dim_share c d) (of_grant gid (fst (run_meter sqlite_tryConsume calls ?s)))) \<le> dims.slack c d t (sqlite_peek ?s gid)"
    using sqlite_window.run_window [OF assms(1) c(2) g assms(5)] by blast
  ultimately show ?thesis using assms(3,4) by (simp add: dim_bound_def)
qed

text \<open>
  (C24) In any stretch of time shorter than the window, a grant whose calls all carry one ceiling lets out at most twice its cumulative limit, in at most
  twice the allowed number of actions (the limits non-negative), and to a counterparty at most twice the limit per counterparty, unless the counterparty is named like a property that every object
  inherits: for such a name the limit per counterparty does not bind. The windows follow each other without overlap: a stretch meets at most two of them.
\<close>

theorem window_ceilings_hold:
  assumes "sc_window_ms c = JNumber (Fin (of_int w))" and "carries gid c (earlier @ calls)"
    and "\<forall>call \<in> set (of_grant gid calls). t \<le> call_time call \<and> call_time call < t + w"
    and "let_out = of_grant gid (fst (run_meter sqlite_tryConsume calls (snd (run_meter sqlite_tryConsume earlier []))))"
  shows "(\<forall>l \<ge> 0. limit_of (sc_cumulative_limit_micro c) = Some l \<longrightarrow> sum_list (map call_amount let_out) \<le> 2 * l)
    \<and> (\<forall>l \<ge> 0. limit_of (sc_max_action_count c) = Some l \<longrightarrow> int (length let_out) \<le> 2 * l)
    \<and> (\<forall>l \<ge> 0. \<forall>cp. limit_of (sc_per_counterparty_limit_micro c) = Some l \<and> cp \<notin> set object_prototype_names
         \<longrightarrow> sum_list (map call_amount (filter (\<lambda>call. call_counterparty call = Some cp) let_out)) \<le> 2 * l)"
proof (intro conjI allI impI)
  note w = dim_window [OF assms(1,2) _ _ assms(3), folded assms(4)]
  fix l :: int assume l: "0 \<le> l"
  show "sum_list (map call_amount let_out) \<le> 2 * l" if "limit_of (sc_cumulative_limit_micro c) = Some l"
    using w [of Money l] l that by (simp add: dim_limit_def dim_share_def [abs_def])
  show "int (length let_out) \<le> 2 * l" if "limit_of (sc_max_action_count c) = Some l"
    using w [of Actions l] l that by (simp add: dim_limit_def dim_share_def [abs_def] sum_list_triv)
  show "sum_list (map call_amount (filter (\<lambda>call. call_counterparty call = Some cp) let_out)) \<le> 2 * l"
    if "limit_of (sc_per_counterparty_limit_micro c) = Some l \<and> cp \<notin> set object_prototype_names" for cp
    using w [of "PaidTo cp" l] l that by (simp add: dim_limit_def dim_share_def [abs_def] sum_list_map_filter')
qed

lemma window_ceilings_hold_witness:
  "sum_list (map call_amount (of_grant ''g'' (fst (run_meter sqlite_tryConsume [demo_call 5 4 ''w'', demo_call 6 4 ''w'']
     (snd (run_meter sqlite_tryConsume [] [])))))) \<le> 20"
proof -
  have "sc_window_ms demo_ceiling = JNumber (Fin (of_int 1000))" "limit_of (sc_cumulative_limit_micro demo_ceiling) = Some 10"
    by (simp_all add: demo_ceiling_def)
  moreover have "\<forall>call \<in> set (of_grant ''g'' [demo_call 5 4 ''w'', demo_call 6 4 ''w'']). 0 \<le> call_time call \<and> call_time call < 0 + 1000"
    by (simp add: of_grant_def demo_call_def call_time_def)
  moreover have "carries ''g'' demo_ceiling ([] @ [demo_call 5 4 ''w'', demo_call 6 4 ''w''])" using carries_demo by simp
  ultimately show ?thesis using window_ceilings_hold [of demo_ceiling 1000 "''g''" "[]" "[demo_call 5 4 ''w'', demo_call 6 4 ''w'']" 0] by simp
qed

text \<open>The factor two is reached up to one unit: nineteen units leave within four milliseconds under a limit of ten per second.\<close>

lemmas meter_eval = run_meter.simps moneyMeter_def spendCeilingFromGrant_def CEILING_LIMIT_FIELDS_def malformed_def extractMoneyAction_def own_prop_def
  sqlite_tryConsume_def evaluate_input_def evaluateBlastRadius_def canonicalizeCounterparty_def is_evm_address_def js_trim_def is_space_def
  Let_def has_window_limit_def current_window_def window_end_def num_lt_def commit_spend_def freshGrantSpendState_def exceeds_def deny_def
  stmtPut_def sqlite_peek_def cp_lookup_def jsm_get_def jsm_set_def isSafeInteger_def max_safe_integer_def object_prototype_names_def

lemma window_is_not_sliding:
  "fst (run_meter sqlite_tryConsume [demo_call 998 5 ''v'', demo_call 999 4 ''w'', demo_call 1000 6 ''v'', demo_call 1001 4 ''w'']
      (snd (run_meter sqlite_tryConsume [demo_call 0 1 ''w''] []))) =
     [demo_call 998 5 ''v'', demo_call 999 4 ''w'', demo_call 1000 6 ''v'', demo_call 1001 4 ''w'']"
  by (simp add: demo_call_def demo_ceiling_def meter_eval)

text \<open>
  The limit per counterparty does not bind a counterparty that is called like a property every object
  inherits, such as \<open>constructor\<close>: however much was paid to it, no call is refused on that limit.
\<close>

theorem inherited_name_escapes_limit:
  assumes "extractMoneyAction args = Some a" and "canonicalizeCounterparty (ma_counterparty a) = Some cp" and "cp \<in> set object_prototype_names"
    and "sc_window_ms c = JNumber (Fin (of_int w))" and "carries (vg_grant_id g) c earlier"
  shows "fst (moneyMeter sqlite_tryConsume now g args (snd (run_meter sqlite_tryConsume earlier []))) \<noteq> Inl (Blast PerCounterpartyExceeded)"
proof -
  let ?s = "snd (run_meter sqlite_tryConsume earlier [])"
  have "\<forall>st. sqlite_peek ?s (vg_grant_id g) = Some st \<longrightarrow> sound_window st"
    by (rule sqlite_window.run_good [OF assms(4,5)]) (simp add: sqlite_peek_def)
  then have g: "sound_window (known_state (sqlite_peek ?s (vg_grant_id g)) (vg_grant_id g) t)" for t
    using dims.fresh(1) by (cases "sqlite_peek ?s (vg_grant_id g)") simp_all
  have nn: "cp_lookup (gs_per_counterparty_micro (current_window c' st t)) cp = NotNumeric" if "sound_window st" for c' st t
    using sound_current [OF that, of c' t] assms(3)
    by (cases "cp_lookup (gs_per_counterparty_micro (current_window c' st t)) cp") (auto simp add: sound_window_def sound_entry_def split: cp_amount.splits)
  have "bd_denial (fst (evaluateBlastRadius c' st a n t)) \<noteq> Some PerCounterpartyExceeded" if "sound_window st" for c' st n t
    using nn [OF that] by (simp add: evaluateBlastRadius_def Let_def assms(2) split: option.split)
  then show ?thesis using g assms(1)
    by (auto simp add: moneyMeter_def case_prod_beta sqlite_spend.consume_decides evaluate_input_def known_state_def
        split: sum.split option.split if_splits)
qed

lemma inherited_name_escapes_limit_witness:
  "fst (moneyMeter sqlite_tryConsume 3 (fst (demo_call 3 5 ''constructor'')) (fst (snd (demo_call 3 5 ''constructor'')))
     (snd (run_meter sqlite_tryConsume [demo_call 1 2 ''constructor'', demo_call 2 3 ''constructor''] []))) \<noteq> Inl (Blast PerCounterpartyExceeded)"
proof (rule inherited_name_escapes_limit)
  show "extractMoneyAction (fst (snd (demo_call 3 5 ''constructor''))) = Some \<lparr> ma_amount_micro = Fin 5, ma_counterparty = ''constructor'' \<rparr>"
    by (simp add: demo_call_def extractMoneyAction_def own_prop_def isSafeInteger_def max_safe_integer_def js_trim_def is_space_def)
  show "canonicalizeCounterparty (ma_counterparty \<lparr> ma_amount_micro = Fin 5, ma_counterparty = ''constructor'' \<rparr>) = Some ''constructor''"
    by (simp add: canonicalizeCounterparty_def is_evm_address_def js_trim_def is_space_def)
  show "''constructor'' \<in> set object_prototype_names" by (simp add: object_prototype_names_def)
  show "sc_window_ms demo_ceiling = JNumber (Fin (of_int 1000))" by (simp add: demo_ceiling_def)
  show "carries (vg_grant_id (fst (demo_call 3 5 ''constructor''))) demo_ceiling [demo_call 1 2 ''constructor'', demo_call 2 3 ''constructor'']"
    by (simp add: carries_def demo_call_def)
qed

end
