(* ===== verification/PolicyGate.thy ===== *)
theory PolicyGate
  imports GrantMeter TrustAlgebra
begin

text \<open>
  The gate between the agent and its tools, \<open>packages/policy/src/policy-gate.ts\<close>, with the budget of a turn (\<open>budget.ts\<close>) and the
  in-memory audit trail (\<open>audit.ts\<close>). The gate's state is its configuration, the clock reading of the last
  budget reset, the cache of tool profiles and the audit rows; \<open>validate\<close> threads it. The host name of a URL, the clock and the
  fresh call ids are arguments. A reason is a constructor instead of its text. No tool is named like a property
  that every object inherits.
\<close>

subsection \<open>Turns, decisions and configuration\<close>

record turn_context =
  tc_turnId :: string
  tc_runId :: "string option"
  tc_toolCallCount :: rat
  tc_turnStartMs :: rat
  tc_costAccumulated :: rat
  tc_callerMotebitId :: "string option"
  tc_callerTrustLevel :: "agent_trust_level option"
  tc_remoteMotebitType :: "string option"
  tc_delegationScope :: "string option"
  tc_verifiedGrant :: "verified_grant option"

record budget_remaining =
  bu_calls :: rat
  bu_timeMs :: rat
  bu_cost :: rat

record approval_quorum =
  aq_threshold :: int
  aq_approvers :: "string list"
  aq_risk_floor :: "string option"

record quorum_meta =
  qm_required :: int
  qm_approvers :: "string list"
  qm_collected :: "string list"

datatype gate_reason = OnDenyList | OutsideScope | AboveDenyThreshold risk_level risk_level | AboveMaxRisk risk_level risk_level
  | CallsExhausted | TimeExhausted | CostExhausted | OutsidePaths string | InvalidUrl string | OutsideDomains string
  | CallerBlocked string | NeedsOwner | ApprovalSatisfied string | InjectionBlocked | InjectionWarned | OperatorMode bool

record policy_decision =
  pd_allowed :: bool
  pd_requiresApproval :: bool
  pd_reason :: "gate_reason option"
  pd_budgetRemaining :: "budget_remaining option"
  pd_quorum :: "quorum_meta option"
  pd_missing_authority :: "authority_delta option"
  pd_callId :: "string option"

definition plain_decision :: "bool \<Rightarrow> bool \<Rightarrow> gate_reason option \<Rightarrow> policy_decision" where
  "plain_decision allowed approval reason = \<lparr> pd_allowed = allowed, pd_requiresApproval = approval, pd_reason = reason,
     pd_budgetRemaining = None, pd_quorum = None, pd_missing_authority = None, pd_callId = None \<rparr>"

definition refused :: "gate_reason \<Rightarrow> policy_decision" where
  "refused reason = plain_decision False False (Some reason)"

subsection \<open>The budget of a turn\<close>

record budget_config =
  bc_maxCallsPerTurn :: rat
  bc_maxTurnDurationMs :: rat
  bc_maxCostPerTurn :: rat
  bc_resetAfterSeconds :: rat

definition DEFAULT_BUDGET :: budget_config where
  "DEFAULT_BUDGET = \<lparr> bc_maxCallsPerTurn = 10, bc_maxTurnDurationMs = 120000, bc_maxCostPerTurn = 0, bc_resetAfterSeconds = 3600 \<rparr>"

record budget_result =
  bk_allowed :: bool
  bk_reason :: "gate_reason option"
  bk_remaining :: budget_remaining
  bk_budgetReset :: bool

definition shouldReset :: "budget_config \<Rightarrow> rat \<Rightarrow> rat \<Rightarrow> bool" where
  "shouldReset config lastResetAt now \<longleftrightarrow> \<not> bc_resetAfterSeconds config \<le> 0 \<and> now - lastResetAt \<ge> bc_resetAfterSeconds config * 1000"

definition budget_check :: "budget_config \<Rightarrow> rat \<Rightarrow> turn_context \<Rightarrow> rat \<Rightarrow> budget_result \<times> rat" where
  \<comment> \<open>the second component is the new \<open>lastResetAt\<close>\<close>
  "budget_check config now ctx lastResetAt =
     (let budgetReset = shouldReset config lastResetAt now;
          elapsed = now - tc_turnStartMs ctx;
          callsRemaining = max 0 (bc_maxCallsPerTurn config - tc_toolCallCount ctx);
          timeRemaining = max 0 (bc_maxTurnDurationMs config - elapsed);
          costRemaining = (if bc_maxCostPerTurn config > 0 then max 0 (bc_maxCostPerTurn config - tc_costAccumulated ctx) else - 1)
      in if budgetReset then
           (\<lparr> bk_allowed = True, bk_reason = None,
              bk_remaining = \<lparr> bu_calls = bc_maxCallsPerTurn config, bu_timeMs = bc_maxTurnDurationMs config,
                bu_cost = (if bc_maxCostPerTurn config > 0 then bc_maxCostPerTurn config else - 1) \<rparr>,
              bk_budgetReset = True \<rparr>, now)
         else if callsRemaining \<le> 0 then
           (\<lparr> bk_allowed = False, bk_reason = Some CallsExhausted,
              bk_remaining = \<lparr> bu_calls = 0, bu_timeMs = timeRemaining, bu_cost = costRemaining \<rparr>, bk_budgetReset = False \<rparr>, lastResetAt)
         else if timeRemaining \<le> 0 then
           (\<lparr> bk_allowed = False, bk_reason = Some TimeExhausted,
              bk_remaining = \<lparr> bu_calls = callsRemaining, bu_timeMs = 0, bu_cost = costRemaining \<rparr>, bk_budgetReset = False \<rparr>, lastResetAt)
         else if bc_maxCostPerTurn config > 0 \<and> costRemaining \<le> 0 then
           (\<lparr> bk_allowed = False, bk_reason = Some CostExhausted,
              bk_remaining = \<lparr> bu_calls = callsRemaining, bu_timeMs = timeRemaining, bu_cost = 0 \<rparr>, bk_budgetReset = False \<rparr>, lastResetAt)
         else
           (\<lparr> bk_allowed = True, bk_reason = None,
              bk_remaining = \<lparr> bu_calls = callsRemaining, bu_timeMs = timeRemaining, bu_cost = costRemaining \<rparr>, bk_budgetReset = False \<rparr>, lastResetAt))"

subsection \<open>The audit trail\<close>

record tool_result_row =
  tr_ok :: bool
  tr_durationMs :: rat

record injection_warning =
  iw_detected :: bool
  iw_patterns :: "string list"

record tool_audit_entry =
  te_turnId :: string
  te_runId :: "string option"
  te_callId :: string
  te_tool :: string
  te_args :: "(string \<times> jsval) list"
  te_decision :: policy_decision
  te_result :: "tool_result_row option"
  te_injection :: "injection_warning option"
  te_timestamp :: rat

record audit_sink =
  as_entries :: "tool_audit_entry list"
  as_maxEntries :: nat

definition newInMemoryAuditSink :: "nat \<Rightarrow> audit_sink" where
  "newInMemoryAuditSink maxEntries = \<lparr> as_entries = [], as_maxEntries = maxEntries \<rparr>"

definition slice_last :: "nat \<Rightarrow> 'a list \<Rightarrow> 'a list" where
  \<comment> \<open>\<open>slice(-n)\<close>; \<open>slice(-0)\<close> is \<open>slice(0)\<close>\<close>
  "slice_last n xs = (if n = 0 then xs else drop (length xs - n) xs)"

definition sink_append :: "tool_audit_entry \<Rightarrow> audit_sink \<Rightarrow> audit_sink" where
  "sink_append entry sink =
     (let entries = as_entries sink @ [entry]
      in sink\<lparr>as_entries := (if length entries > as_maxEntries sink then slice_last (as_maxEntries sink) entries else entries)\<rparr>)"

fun last_index :: "('a \<Rightarrow> bool) \<Rightarrow> 'a list \<Rightarrow> nat option" where
  "last_index P [] = None"
| "last_index P (x # xs) = (case last_index P xs of Some i \<Rightarrow> Some (Suc i) | None \<Rightarrow> if P x then Some 0 else None)"

definition sink_complete :: "tool_audit_entry \<Rightarrow> audit_sink \<Rightarrow> audit_sink" where
  "sink_complete entry sink =
     (case last_index (\<lambda>e. te_callId e = te_callId entry) (as_entries sink) of
        Some i \<Rightarrow> sink\<lparr>as_entries := (as_entries sink)[i := (as_entries sink ! i)\<lparr>te_result := te_result entry, te_timestamp := te_timestamp entry\<rparr>]\<rparr>
      | None \<Rightarrow> sink_append entry sink)"

record audit_stats =
  st_distinctTurns :: nat
  st_totalToolCalls :: nat
  st_succeeded :: nat
  st_blocked :: nat
  st_failed :: nat

definition queryStatsSince :: "rat \<Rightarrow> audit_sink \<Rightarrow> audit_stats" where
  "queryStatsSince afterTimestamp sink =
     (let recent = filter (\<lambda>e. te_timestamp e > afterTimestamp) (as_entries sink);
          result_is = (\<lambda>b e. pd_allowed (te_decision e) \<and> (case te_result e of Some r \<Rightarrow> tr_ok r = b | None \<Rightarrow> False))
      in \<lparr> st_distinctTurns = length (remdups (map te_turnId recent)), st_totalToolCalls = length recent,
           st_succeeded = length (filter (result_is True) recent),
           st_blocked = length (filter (\<lambda>e. \<not> pd_allowed (te_decision e)) recent),
           st_failed = length (filter (result_is False) recent) \<rparr>)"

text \<open>\<open>SENSITIVE_KEY_RE\<close>: an occurrence of one of the words, without regard to case; the last alternative of the pattern adds nothing.\<close>

fun contains :: "string \<Rightarrow> string \<Rightarrow> bool" where
  "contains p [] = (p = [])"
| "contains p (c # cs) = (starts_with (c # cs) p \<or> contains p cs)"

definition is_sensitive_key :: "string \<Rightarrow> bool" where
  "is_sensitive_key k \<longleftrightarrow> list_ex (\<lambda>p. contains p (map to_lower k)) [''key'', ''token'', ''password'', ''secret'', ''credential'', ''auth'']"

fun nonempty_string :: "jsval \<Rightarrow> bool" where
  "nonempty_string (JString s) = (s \<noteq> [])"
| "nonempty_string _ = False"

definition redactSensitiveArgs :: "(string \<times> jsval) list \<Rightarrow> (string \<times> jsval) list" where
  "redactSensitiveArgs args =
     map (\<lambda>(k, v). (k, if is_sensitive_key k \<and> nonempty_string v then JString ''[REDACTED]'' else v)) args"

definition logDecision :: "rat \<Rightarrow> string \<Rightarrow> string \<Rightarrow> string \<Rightarrow> (string \<times> jsval) list \<Rightarrow> policy_decision \<Rightarrow> string option \<Rightarrow> audit_sink \<Rightarrow> audit_sink" where
  "logDecision now turnId callId tool args decision runId sink =
     sink_append \<lparr> te_turnId = turnId, te_runId = runId, te_callId = callId, te_tool = tool, te_args = redactSensitiveArgs args,
       te_decision = decision, te_result = None, te_injection = None, te_timestamp = now \<rparr> sink"

definition logResult :: "rat \<Rightarrow> string \<Rightarrow> string \<Rightarrow> string \<Rightarrow> (string \<times> jsval) list \<Rightarrow> policy_decision \<Rightarrow> bool \<Rightarrow> rat \<Rightarrow> string option \<Rightarrow> audit_sink \<Rightarrow> audit_sink" where
  "logResult now turnId callId tool args decision success durationMs runId sink =
     sink_complete \<lparr> te_turnId = turnId, te_runId = runId, te_callId = callId, te_tool = tool, te_args = redactSensitiveArgs args,
       te_decision = decision, te_result = Some \<lparr> tr_ok = success, tr_durationMs = durationMs \<rparr>, te_injection = None, te_timestamp = now \<rparr> sink"

definition logInjection :: "rat \<Rightarrow> string \<Rightarrow> string \<Rightarrow> string \<Rightarrow> (string \<times> jsval) list \<Rightarrow> injection_warning \<Rightarrow> bool \<Rightarrow> string option \<Rightarrow> audit_sink \<Rightarrow> audit_sink" where
  "logInjection now turnId callId tool args injection blocked runId sink =
     sink_append \<lparr> te_turnId = turnId, te_runId = runId, te_callId = callId, te_tool = tool, te_args = args,
       te_decision = plain_decision (\<not> blocked) False (Some (if blocked then InjectionBlocked else InjectionWarned)),
       te_result = None, te_injection = Some injection, te_timestamp = now \<rparr> sink"

text \<open>Recovery: the calls that were let through and never closed.\<close>

record call_slot =
  cs_intent :: "tool_audit_entry option"
  cs_resolved :: bool

definition is_injection_row :: "tool_audit_entry \<Rightarrow> bool" where
  "is_injection_row e \<longleftrightarrow> pd_reason (te_decision e) \<in> {Some InjectionBlocked, Some InjectionWarned}"

definition is_intent :: "tool_audit_entry \<Rightarrow> bool" where
  "is_intent e \<longleftrightarrow> pd_allowed (te_decision e) \<and> \<not> pd_requiresApproval (te_decision e) \<and> \<not> is_injection_row e \<and> te_injection e = None"

definition slot_step :: "(string, call_slot) jsmap \<Rightarrow> tool_audit_entry \<Rightarrow> (string, call_slot) jsmap" where
  "slot_step byCall e =
     (let slot = (case jsm_get byCall (te_callId e) of Some s \<Rightarrow> s | None \<Rightarrow> \<lparr> cs_intent = None, cs_resolved = False \<rparr>);
          slot = (if te_result e \<noteq> None then slot\<lparr>cs_resolved := True\<rparr> else slot);
          slot = (if is_intent e then slot\<lparr>cs_intent := (case cs_intent slot of Some i \<Rightarrow> Some i | None \<Rightarrow> Some e)\<rparr> else slot)
      in jsm_set (te_callId e) slot byCall)"

definition findUnresolvedActions :: "tool_audit_entry list \<Rightarrow> tool_audit_entry list" where
  "findUnresolvedActions entries =
     concat (map (\<lambda>slot. case cs_intent slot of Some i \<Rightarrow> if \<not> cs_resolved slot then [i] else [] | None \<Rightarrow> [])
       (jsm_values (foldl slot_step [] entries)))"

definition countCompletedActions :: "tool_audit_entry list \<Rightarrow> nat" where
  "countCompletedActions entries = length (remdups (map te_callId (filter (\<lambda>e. te_result e \<noteq> None) entries)))"

subsection \<open>The gate\<close>

record policy_config =
  pc_operatorMode :: bool
  pc_maxRiskLevel :: "risk_level option"
  pc_requireApprovalAbove :: "risk_level option"
  pc_denyAbove :: "risk_level option"
  pc_budget :: budget_config
  pc_toolAllowList :: "string list option"
  pc_toolDenyList :: "string list option"
  pc_pathAllowList :: "string list option"
  pc_domainAllowList :: "string list option"
  pc_riskOverrides :: "(string, risk_level) jsmap"
  pc_approvalQuorum :: "approval_quorum option"

record policy_gate =
  pg_config :: policy_config
  pg_lastResetAt :: rat
  pg_profileCache :: "(string, tool_risk_profile) jsmap"
  pg_audit :: audit_sink

definition newPolicyGate :: "policy_config \<Rightarrow> nat \<Rightarrow> rat \<Rightarrow> policy_gate" where
  "newPolicyGate config maxEntries now =
     \<lparr> pg_config = config, pg_lastResetAt = now, pg_profileCache = [], pg_audit = newInMemoryAuditSink maxEntries \<rparr>"

definition parseScopeSet :: "string \<Rightarrow> string list" where
  "parseScopeSet scope = (if scope = ''*'' then [''*''] else filter (\<lambda>s. length s > 0) (map js_trim (js_split CHR '','' scope)))"

definition in_scope :: "string \<Rightarrow> string \<Rightarrow> bool" where
  "in_scope scope toolName \<longleftrightarrow> ''*'' \<in> set (parseScopeSet scope) \<or> toolName \<in> set (parseScopeSet scope)"

definition listed :: "string \<Rightarrow> string list option \<Rightarrow> bool" where
  "listed x xs \<longleftrightarrow> (case xs of Some ys \<Rightarrow> x \<in> set ys | None \<Rightarrow> False)"

definition getEffectiveMaxRisk :: "policy_config \<Rightarrow> risk_level" where
  "getEffectiveMaxRisk config = (case pc_maxRiskLevel config of Some r \<Rightarrow> r | None \<Rightarrow> if pc_operatorMode config then R4_MONEY else R1_DRAFT)"

definition setOperatorMode :: "rat \<Rightarrow> string \<Rightarrow> bool \<Rightarrow> policy_gate \<Rightarrow> policy_gate" where
  "setOperatorMode now uuid enabled gate =
     (let previous = pc_operatorMode (pg_config gate);
          gate = gate\<lparr>pg_config := (pg_config gate)\<lparr>pc_operatorMode := enabled\<rparr>, pg_profileCache := []\<rparr>
      in if previous \<noteq> enabled
         then gate\<lparr>pg_audit := logDecision now ''system'' uuid ''__operator_mode_change'' [(''from'', JBool previous), (''to'', JBool enabled)]
                (plain_decision True False (Some (OperatorMode enabled))) None (pg_audit gate)\<rparr>
         else gate)"

definition classify_fresh :: "policy_config \<Rightarrow> tool_definition \<Rightarrow> tool_risk_profile" where
  "classify_fresh config tool =
     (let profile = classifyTool tool
      in case jsm_get (pc_riskOverrides config) (td_name tool) of
           Some r \<Rightarrow> profile\<lparr>rp_risk := r, rp_requiresApproval := (rp_requiresApproval profile \<or> R2_WRITE \<le> r)\<rparr>
         | None \<Rightarrow> profile)"

definition classify :: "tool_definition \<Rightarrow> policy_gate \<Rightarrow> tool_risk_profile \<times> policy_gate" where
  "classify tool gate =
     (case jsm_get (pg_profileCache gate) (td_name tool) of
        Some cached \<Rightarrow> (cached, gate)
      | None \<Rightarrow> (let profile = classify_fresh (pg_config gate) tool
                 in (profile, gate\<lparr>pg_profileCache := jsm_set (td_name tool) profile (pg_profileCache gate)\<rparr>)))"

definition grantCoversTool :: "turn_context \<Rightarrow> string \<Rightarrow> bool" where
  "grantCoversTool ctx toolName \<longleftrightarrow> (case tc_delegationScope ctx of Some scope \<Rightarrow> in_scope scope toolName | None \<Rightarrow> False)"

definition offers :: "turn_context option \<Rightarrow> tool_definition \<Rightarrow> policy_gate \<Rightarrow> bool \<times> policy_gate" where
  "offers ctx tool gate =
     (let config = pg_config gate
      in if listed (td_name tool) (pc_toolDenyList config) then (False, gate)
         else if pc_toolAllowList config \<noteq> None \<and> \<not> listed (td_name tool) (pc_toolAllowList config) then (False, gate)
         else (let (profile, gate) = classify tool gate
               in (isToolAllowed profile (getEffectiveMaxRisk config)
                   \<or> (case ctx of
                        Some ctx \<Rightarrow> tc_verifiedGrant ctx \<noteq> None \<and> grantCoversTool ctx (td_name tool) \<and> rp_risk profile \<le> R4_MONEY
                          \<and> (case pc_denyAbove config of Some d \<Rightarrow> rp_risk profile \<le> d | None \<Rightarrow> True)
                      | None \<Rightarrow> False), gate)))"

fun filterTools :: "turn_context option \<Rightarrow> tool_definition list \<Rightarrow> policy_gate \<Rightarrow> tool_definition list \<times> policy_gate" where
  "filterTools ctx [] gate = ([], gate)"
| "filterTools ctx (tool # tools) gate =
     (let (keep, gate) = offers ctx tool gate; (rest, gate) = filterTools ctx tools gate
      in (if keep then tool # rest else rest, gate))"

definition parseRiskFloor :: "string \<Rightarrow> risk_level" where
  "parseRiskFloor floor_name =
     (if floor_name = ''R1_DRAFT'' then R1_DRAFT else if floor_name = ''R2_WRITE'' then R2_WRITE
      else if floor_name = ''R3_EXECUTE'' then R3_EXECUTE else if floor_name = ''R4_MONEY'' then R4_MONEY else R0_READ)"

definition path_allowed :: "string \<Rightarrow> string \<Rightarrow> bool" where
  "path_allowed argPath p \<longleftrightarrow> argPath = p \<or> starts_with argPath (if ends_with p ''/'' then p else p @ ''/'')"

definition domain_allowed :: "string \<Rightarrow> string \<Rightarrow> bool" where
  "domain_allowed hostname d \<longleftrightarrow> hostname = d \<or> ends_with hostname (''.'' @ d)"

text \<open>A non-empty string argument.\<close>

definition string_arg :: "(string \<times> jsval) list \<Rightarrow> string \<Rightarrow> string option" where
  "string_arg args k = (case own_prop args k of JString s \<Rightarrow> if s = [] then None else Some s | _ \<Rightarrow> None)"

text \<open>Steps 6 to 8c: whether the call has to pause for approval.\<close>

definition trust_adjusted :: "turn_context \<Rightarrow> bool \<Rightarrow> bool" where
  "trust_adjusted ctx needsApproval = (if tc_callerTrustLevel ctx \<in> {Some FirstContact, Some Unknown} then True else needsApproval)"

definition type_adjusted :: "turn_context \<Rightarrow> risk_level \<Rightarrow> bool \<Rightarrow> bool" where
  "type_adjusted ctx risk needsApproval =
     (if tc_remoteMotebitType ctx = Some ''service'' then (if needsApproval \<and> risk \<le> R1_DRAFT then False else needsApproval)
      else if tc_remoteMotebitType ctx = Some ''personal'' then (if R0_READ < risk then True else needsApproval)
      else needsApproval)"

definition remoteCaller :: "turn_context \<Rightarrow> bool" where
  "remoteCaller ctx \<longleftrightarrow> tc_callerMotebitId ctx \<noteq> None \<or> tc_callerTrustLevel ctx \<noteq> None \<or> tc_remoteMotebitType ctx \<noteq> None"

definition needs_approval :: "policy_config \<Rightarrow> tool_definition \<Rightarrow> tool_risk_profile \<Rightarrow> turn_context \<Rightarrow> bool" where
  "needs_approval config tool profile ctx =
     (let needsApproval = (case (pc_requireApprovalAbove config, pc_denyAbove config) of
            (Some approvalAbove, Some _) \<Rightarrow> approvalAbove < rp_risk profile | _ \<Rightarrow> rp_requiresApproval profile);
          needsApproval = trust_adjusted ctx needsApproval;
          needsApproval = type_adjusted ctx (rp_risk profile) needsApproval;
          needsApproval = (if remoteCaller ctx \<and> td_requiresApproval tool = Some True \<and> \<not> needsApproval then True else needsApproval);
          needsApproval = (if R4_MONEY \<le> rp_risk profile \<and> \<not> needsApproval \<and> tc_verifiedGrant ctx = None then True else needsApproval)
      in if needsApproval \<and> R4_MONEY \<le> rp_risk profile \<and> tc_verifiedGrant ctx \<noteq> None \<and> grantCoversTool ctx (td_name tool)
         then False else needsApproval)"

definition quorum_for :: "policy_config \<Rightarrow> risk_level \<Rightarrow> bool \<Rightarrow> quorum_meta option" where
  "quorum_for config risk needsApproval =
     (case pc_approvalQuorum config of
        Some quorum \<Rightarrow>
          if needsApproval \<and> aq_threshold quorum > 1
             \<and> (case aq_risk_floor quorum of None \<Rightarrow> True | Some f \<Rightarrow> f = [] \<or> parseRiskFloor f \<le> risk)
          then Some \<lparr> qm_required = aq_threshold quorum, qm_approvers = aq_approvers quorum, qm_collected = [] \<rparr>
          else None
      | None \<Rightarrow> None)"

definition raise_delta :: "risk_level \<Rightarrow> turn_context \<Rightarrow> quorum_meta option \<Rightarrow> authority_delta option" where
  "raise_delta risk ctx quorumMeta =
     (if R4_MONEY \<le> risk \<and> tc_verifiedGrant ctx = None then Some (grantRequiredDelta risk)
      else map_option (\<lambda>q. quorumShortfallDelta (qm_required q - int (length (qm_collected q)))) quorumMeta)"

text \<open>Steps 1 to 3: the refusals that do not look at the budget.\<close>

definition posture_refusal :: "policy_config \<Rightarrow> tool_definition \<Rightarrow> tool_risk_profile \<Rightarrow> turn_context \<Rightarrow> policy_decision option" where
  "posture_refusal config tool profile ctx =
     (if listed (td_name tool) (pc_toolDenyList config) then Some (refused OnDenyList)
      else if (case tc_delegationScope ctx of Some scope \<Rightarrow> \<not> in_scope scope (td_name tool) | None \<Rightarrow> False)
      then Some ((refused OutsideScope)\<lparr>pd_missing_authority := Some (scopeDelta (td_name tool))\<rparr>)
      else (case (pc_requireApprovalAbove config, pc_denyAbove config) of
              (Some _, Some denyAbove) \<Rightarrow>
                if denyAbove < rp_risk profile
                then Some ((refused (AboveDenyThreshold (rp_risk profile) denyAbove))\<lparr>pd_missing_authority := Some (postureDelta (rp_risk profile) denyAbove)\<rparr>)
                else None
            | _ \<Rightarrow>
                if \<not> isToolAllowed profile (getEffectiveMaxRisk config)
                then Some ((refused (AboveMaxRisk (rp_risk profile) (getEffectiveMaxRisk config)))
                       \<lparr>pd_missing_authority := Some (postureDelta (rp_risk profile) (getEffectiveMaxRisk config))\<rparr>)
                else None))"

text \<open>Steps 4 and 5, and the blocked caller of step 7.\<close>

definition argument_refusal :: "(string \<Rightarrow> string option) \<Rightarrow> policy_config \<Rightarrow> (string \<times> jsval) list \<Rightarrow> turn_context \<Rightarrow> policy_decision option" where
  "argument_refusal url_hostname config args ctx =
     (let badPath = (case (pc_pathAllowList config, string_arg args ''path'') of
            (Some paths, Some argPath) \<Rightarrow> if list_ex (path_allowed argPath) paths then None else Some (refused (OutsidePaths argPath))
          | _ \<Rightarrow> None);
          badUrl = (case (pc_domainAllowList config, string_arg args ''url'') of
            (Some domains, Some url) \<Rightarrow>
              if domains = [] then None
              else (case url_hostname url of
                      None \<Rightarrow> Some (refused (InvalidUrl url))
                    | Some hostname \<Rightarrow> if list_ex (domain_allowed hostname) domains then None else Some (refused (OutsideDomains hostname)))
          | _ \<Rightarrow> None);
          blocked = (if tc_callerTrustLevel ctx = Some Blocked
            then Some (refused (CallerBlocked (case tc_callerMotebitId ctx of Some m \<Rightarrow> m | None \<Rightarrow> ''unknown''))) else None)
      in option_or badPath (option_or badUrl blocked))"

definition decide :: "(string \<Rightarrow> string option) \<Rightarrow> bool \<Rightarrow> policy_config \<Rightarrow> tool_definition \<Rightarrow> tool_risk_profile \<Rightarrow> (string \<times> jsval) list \<Rightarrow>
    turn_context \<Rightarrow> rat \<Rightarrow> rat \<Rightarrow> policy_decision \<times> rat" where
  \<comment> \<open>the decision, and the time of the last budget reset\<close>
  "decide url_hostname noApprovalChannel config tool profile args ctx now lastResetAt =
     (case posture_refusal config tool profile ctx of Some d \<Rightarrow> (d, lastResetAt)
      | None \<Rightarrow>
          (let (budgetResult, lastResetAt) = budget_check (pc_budget config) now ctx lastResetAt
           in if \<not> bk_allowed budgetResult
              then ((plain_decision False False (bk_reason budgetResult))\<lparr>pd_budgetRemaining := Some (bk_remaining budgetResult)\<rparr>, lastResetAt)
              else (case argument_refusal url_hostname config args ctx of Some d \<Rightarrow> (d, lastResetAt)
                    | None \<Rightarrow>
                        (let needsApproval = needs_approval config tool profile ctx;
                             quorumMeta = quorum_for config (rp_risk profile) needsApproval;
                             raiseDelta = raise_delta (rp_risk profile) ctx quorumMeta
                         in if needsApproval \<and> noApprovalChannel then (refused NeedsOwner, lastResetAt)
                            else (\<lparr> pd_allowed = True, pd_requiresApproval = needsApproval, pd_reason = None,
                                    pd_budgetRemaining = Some (bk_remaining budgetResult), pd_quorum = quorumMeta,
                                    pd_missing_authority = (if needsApproval then raiseDelta else None), pd_callId = None \<rparr>, lastResetAt)))))"

text \<open>Every return of \<open>evaluate\<close> is preceded by the audit row of its decision.\<close>

definition evaluate :: "(string \<Rightarrow> string option) \<Rightarrow> bool \<Rightarrow> rat \<Rightarrow> string \<Rightarrow> tool_definition \<Rightarrow> (string \<times> jsval) list \<Rightarrow> turn_context \<Rightarrow>
    policy_gate \<Rightarrow> policy_decision \<times> policy_gate" where
  "evaluate url_hostname noApprovalChannel now callId tool args ctx gate =
     (let (profile, gate) = classify tool gate;
          (decision, lastResetAt) = decide url_hostname noApprovalChannel (pg_config gate) tool profile args ctx now (pg_lastResetAt gate)
      in (decision, gate\<lparr>pg_lastResetAt := lastResetAt,
            pg_audit := logDecision now (tc_turnId ctx) callId (td_name tool) args decision (tc_runId ctx) (pg_audit gate)\<rparr>))"

definition validate :: "(string \<Rightarrow> string option) \<Rightarrow> bool \<Rightarrow> rat \<Rightarrow> string \<Rightarrow> tool_definition \<Rightarrow> (string \<times> jsval) list \<Rightarrow> turn_context \<Rightarrow>
    policy_gate \<Rightarrow> policy_decision \<times> policy_gate" where
  "validate url_hostname noApprovalChannel now callId tool args ctx gate =
     (let (decision, gate) = evaluate url_hostname noApprovalChannel now callId tool args ctx gate
      in (decision\<lparr>pd_callId := Some callId\<rparr>, gate))"

definition withoutApprovalChannel :: "(string \<Rightarrow> string option) \<Rightarrow> rat \<Rightarrow> string \<Rightarrow> tool_definition \<Rightarrow> (string \<times> jsval) list \<Rightarrow> turn_context \<Rightarrow>
    policy_gate \<Rightarrow> policy_decision \<times> policy_gate" where
  "withoutApprovalChannel url_hostname = validate url_hostname True"

definition recordApprovalSatisfied :: "rat \<Rightarrow> turn_context \<Rightarrow> policy_decision \<Rightarrow> string \<Rightarrow> (string \<times> jsval) list \<Rightarrow> string \<Rightarrow> policy_gate \<Rightarrow> policy_gate" where
  "recordApprovalSatisfied now ctx decision tool args by_whom gate =
     (case pd_callId decision of None \<Rightarrow> gate
      | Some callId \<Rightarrow> gate\<lparr>pg_audit := logDecision now (tc_turnId ctx) callId tool args
          (decision\<lparr>pd_allowed := True, pd_requiresApproval := False, pd_reason := Some (ApprovalSatisfied by_whom)\<rparr>) (tc_runId ctx) (pg_audit gate)\<rparr>)"

definition recordResult :: "rat \<Rightarrow> turn_context \<Rightarrow> policy_decision \<Rightarrow> string \<Rightarrow> (string \<times> jsval) list \<Rightarrow> bool \<Rightarrow> rat \<Rightarrow> policy_gate \<Rightarrow> policy_gate" where
  "recordResult now ctx decision tool args success durationMs gate =
     (case pd_callId decision of None \<Rightarrow> gate
      | Some callId \<Rightarrow> gate\<lparr>pg_audit := logResult now (tc_turnId ctx) callId tool args decision success durationMs (tc_runId ctx) (pg_audit gate)\<rparr>)"

definition createTurnContext :: "string \<Rightarrow> rat \<Rightarrow> string option \<Rightarrow> turn_context" where
  "createTurnContext uuid now runId =
     \<lparr> tc_turnId = uuid, tc_runId = runId, tc_toolCallCount = 0, tc_turnStartMs = now, tc_costAccumulated = 0, tc_callerMotebitId = None,
       tc_callerTrustLevel = None, tc_remoteMotebitType = None, tc_delegationScope = None, tc_verifiedGrant = None \<rparr>"

definition recordToolCall :: "rat \<Rightarrow> turn_context \<Rightarrow> turn_context" where
  "recordToolCall cost ctx = ctx\<lparr>tc_toolCallCount := tc_toolCallCount ctx + 1, tc_costAccumulated := tc_costAccumulated ctx + cost\<rparr>"

end
