(* ===== verification/PolicyAuthority.thy ===== *)
theory PolicyAuthority
  imports PolicyGate
begin

text \<open>
  What the gate of \<open>PolicyGate\<close> guarantees: a call that runs without a human is authorised, another principal's turn
  never pauses, the audit trail keeps no secret argument and shows every call that a crash left open.
\<close>

subsection \<open>Decisions\<close>

lemma classify_frame [simp]:
  "pg_config (snd (classify tool gate)) = pg_config gate" "pg_lastResetAt (snd (classify tool gate)) = pg_lastResetAt gate"
  "pg_audit (snd (classify tool gate)) = pg_audit gate"
  by (simp_all add: classify_def Let_def split: option.split)

lemma validate_decision:
  "fst (validate url noch now callId tool args ctx gate) =
     (fst (decide url noch (pg_config gate) tool (fst (classify tool gate)) args ctx now (pg_lastResetAt gate)))\<lparr>pd_callId := Some callId\<rparr>"
  by (simp add: validate_def evaluate_def case_prod_beta Let_def)

lemma validate_gate:
  "snd (validate url noch now callId tool args ctx gate) =
     (snd (classify tool gate))
       \<lparr>pg_lastResetAt := snd (decide url noch (pg_config gate) tool (fst (classify tool gate)) args ctx now (pg_lastResetAt gate)),
        pg_audit := logDecision now (tc_turnId ctx) callId (td_name tool) args
          (fst (decide url noch (pg_config gate) tool (fst (classify tool gate)) args ctx now (pg_lastResetAt gate))) (tc_runId ctx) (pg_audit gate)\<rparr>"
  by (simp add: validate_def evaluate_def case_prod_beta Let_def)

lemma refused_simps [simp]: "\<not> pd_allowed (refused r)" "\<not> pd_requiresApproval (refused r)"
  by (simp_all add: refused_def plain_decision_def)

lemma posture_refusal_denies: "posture_refusal config tool profile ctx = Some d \<Longrightarrow> \<not> pd_allowed d \<and> \<not> pd_requiresApproval d"
  by (auto simp add: posture_refusal_def split: if_splits option.splits)

lemma argument_refusal_denies: "argument_refusal url config args ctx = Some d \<Longrightarrow> \<not> pd_allowed d \<and> \<not> pd_requiresApproval d"
  by (auto simp add: argument_refusal_def option_or_def Let_def split: if_splits option.splits)

text \<open>The first step that refuses decides; a call that no step refuses is allowed, paused or not.\<close>

lemma decide_cases:
  assumes "decide url noch config tool profile args ctx now r0 = (d, r1)"
  obtains "\<not> pd_allowed d" "\<not> pd_requiresApproval d"
  | "pd_allowed d" "posture_refusal config tool profile ctx = None" "bk_allowed (fst (budget_check (pc_budget config) now ctx r0))"
    "argument_refusal url config args ctx = None" "pd_requiresApproval d = needs_approval config tool profile ctx"
    "\<not> (needs_approval config tool profile ctx \<and> noch)"
proof (cases "pd_allowed d")
  case True
  then have "posture_refusal config tool profile ctx = None" "argument_refusal url config args ctx = None"
      "bk_allowed (fst (budget_check (pc_budget config) now ctx r0))"
      "pd_requiresApproval d = needs_approval config tool profile ctx" "\<not> (needs_approval config tool profile ctx \<and> noch)"
    using assms posture_refusal_denies [of config tool profile ctx d] argument_refusal_denies [of url config args ctx d]
    by (auto simp add: decide_def Let_def case_prod_beta plain_decision_def split: if_splits option.splits)
  then show ?thesis using True that(2) by blast
next
  case False
  have "\<not> pd_requiresApproval d"
    using assms False posture_refusal_denies [of config tool profile ctx d] argument_refusal_denies [of url config args ctx d]
    by (auto simp add: decide_def Let_def case_prod_beta plain_decision_def split: if_splits option.splits)
  then show ?thesis using False that(1) by blast
qed

lemma allowed_reason:
  assumes "pd_allowed (fst (decide url noch config tool profile args ctx now r0))"
  shows "pd_reason (fst (decide url noch config tool profile args ctx now r0)) = None"
proof (cases "posture_refusal config tool profile ctx")
  case posture: None
  show ?thesis
  proof (cases "argument_refusal url config args ctx")
    case None
    then show ?thesis using assms posture by (auto simp add: decide_def case_prod_beta Let_def plain_decision_def)
  next
    case (Some d)
    then show ?thesis using assms posture argument_refusal_denies [OF Some] by (auto simp add: decide_def case_prod_beta Let_def plain_decision_def)
  qed
next
  case (Some d)
  then show ?thesis using assms posture_refusal_denies [OF Some] by (simp add: decide_def)
qed

definition risk_ceiling :: "policy_config \<Rightarrow> risk_level" where
  "risk_ceiling config = (case (pc_requireApprovalAbove config, pc_denyAbove config) of (Some _, Some d) \<Rightarrow> d | _ \<Rightarrow> getEffectiveMaxRisk config)"

lemma posture_accepts:
  assumes "posture_refusal config tool profile ctx = None"
  shows "\<not> listed (td_name tool) (pc_toolDenyList config)" "tc_delegationScope ctx = Some scope \<Longrightarrow> in_scope scope (td_name tool)"
    "rp_risk profile \<le> risk_ceiling config"
  using assms by (auto simp add: posture_refusal_def risk_ceiling_def isToolAllowed_def split: if_splits option.splits)

lemma not_blocked: "argument_refusal url config args ctx = None \<Longrightarrow> tc_callerTrustLevel ctx \<noteq> Some Blocked"
  by (auto simp add: argument_refusal_def option_or_def Let_def split: if_splits option.splits)

lemma no_approval_needed:
  assumes "\<not> needs_approval config tool profile ctx"
  shows "rp_risk profile = R4_MONEY \<Longrightarrow> tc_verifiedGrant ctx \<noteq> None"
    "remoteCaller ctx \<Longrightarrow> td_requiresApproval tool = Some True \<Longrightarrow>
      R4_MONEY \<le> rp_risk profile \<and> tc_verifiedGrant ctx \<noteq> None \<and> grantCoversTool ctx (td_name tool)"
    "tc_callerTrustLevel ctx \<in> {Some FirstContact, Some Unknown} \<Longrightarrow>
      tc_remoteMotebitType ctx = Some ''service'' \<and> rp_risk profile \<le> R1_DRAFT
      \<or> R4_MONEY \<le> rp_risk profile \<and> tc_verifiedGrant ctx \<noteq> None \<and> grantCoversTool ctx (td_name tool)"
  using assms by (auto simp add: needs_approval_def trust_adjusted_def type_adjusted_def Let_def split: if_splits option.splits)

text \<open>
  (C4) A tool call that the gate lets run without a human is authorised: the tool is not on the deny list, lies in the
  delegated scope and below the risk ceiling; the caller is not blocked; moving money takes a verified grant, whatever the trust, the
  caller's type, the presets. A tool that declares an approval floor runs on its own for a remote caller only if it moves money under a verified
  grant whose scope covers it; so does any tool for a caller not yet known, unless it is a read or a draft for a service.
\<close>

theorem auto_execution_is_authorized:
  assumes "fst (validate url noch now callId tool args ctx gate) = d" and "pd_allowed d" and "\<not> pd_requiresApproval d"
    and "rp_risk (fst (classify tool gate)) = risk"
  shows "\<not> listed (td_name tool) (pc_toolDenyList (pg_config gate))
    \<and> (\<forall>scope. tc_delegationScope ctx = Some scope \<longrightarrow> in_scope scope (td_name tool))
    \<and> risk \<le> risk_ceiling (pg_config gate)
    \<and> tc_callerTrustLevel ctx \<noteq> Some Blocked
    \<and> (risk = R4_MONEY \<longrightarrow> tc_verifiedGrant ctx \<noteq> None)
    \<and> (remoteCaller ctx \<and> td_requiresApproval tool = Some True
         \<longrightarrow> risk = R4_MONEY \<and> tc_verifiedGrant ctx \<noteq> None \<and> grantCoversTool ctx (td_name tool))
    \<and> (tc_callerTrustLevel ctx \<in> {Some FirstContact, Some Unknown}
         \<longrightarrow> tc_remoteMotebitType ctx = Some ''service'' \<and> risk \<le> R1_DRAFT
           \<or> risk = R4_MONEY \<and> tc_verifiedGrant ctx \<noteq> None \<and> grantCoversTool ctx (td_name tool))"
proof -
  let ?p = "fst (classify tool gate)"
  obtain d' r1 where d': "decide url noch (pg_config gate) tool ?p args ctx now (pg_lastResetAt gate) = (d', r1)" by fastforce
  have d: "pd_allowed d'" "\<not> pd_requiresApproval d'" using assms(1-3) unfolding validate_decision d' by auto
  from d' show ?thesis
  proof (cases rule: decide_cases)
    case 1
    then show ?thesis using d by simp
  next
    case 2
    then have "\<not> needs_approval (pg_config gate) tool ?p ctx" using d by simp
    moreover have "R4_MONEY \<le> risk \<longleftrightarrow> risk = R4_MONEY" by (cases risk) (simp_all add: less_eq_risk_level_def)
    ultimately show ?thesis
      using no_approval_needed [of "pg_config gate" tool ?p ctx] posture_accepts [OF 2(2)] not_blocked [OF 2(4)] assms(4) by auto
  qed
qed

definition demo_config :: policy_config where
  "demo_config = \<lparr> pc_operatorMode = True, pc_maxRiskLevel = None, pc_requireApprovalAbove = Some R1_DRAFT, pc_denyAbove = Some R4_MONEY,
     pc_budget = DEFAULT_BUDGET, pc_toolAllowList = None, pc_toolDenyList = None, pc_pathAllowList = None, pc_domainAllowList = None,
     pc_riskOverrides = [], pc_approvalQuorum = None \<rparr>"

definition demo_tool :: "string \<Rightarrow> string \<Rightarrow> tool_definition" where
  "demo_tool name description = \<lparr> td_name = name, td_description = description, td_requiresApproval = None, td_riskHint = None \<rparr>"

definition demo_gate :: policy_gate where
  "demo_gate = newPolicyGate demo_config 100 0"

definition demo_turn :: turn_context where
  "demo_turn = (createTurnContext ''t'' 0 None)\<lparr>tc_delegationScope := Some ''pay, search'', tc_verifiedGrant :=
     Some \<lparr> vg_grant_id = ''g'', vg_verified_at = 0, vg_token_issued_at = None, vg_spend_ceiling = None \<rparr>\<rparr>"

lemmas gate_eval = demo_config_def demo_tool_def demo_gate_def demo_turn_def newPolicyGate_def createTurnContext_def validate_decision classify_def
  classify_fresh_def classifyTool_def first_rule_def RISK_RULES_def DATA_CLASS_RULES_def matches_def is_word_char_def to_lower_def option_or_def
  decide_def posture_refusal_def listed_def in_scope_def parseScopeSet_def js_trim_def is_space_def budget_check_def shouldReset_def DEFAULT_BUDGET_def
  argument_refusal_def string_arg_def own_prop_def needs_approval_def trust_adjusted_def type_adjusted_def remoteCaller_def grantCoversTool_def
  quorum_for_def less_risk_level_def less_eq_risk_level_def isToolAllowed_def getEffectiveMaxRisk_def refused_def plain_decision_def Let_def

lemma demo_pay_auto:
  "pd_allowed (fst (validate url False 5 ''c'' (demo_tool ''pay'' ''pays an invoice'') [] demo_turn demo_gate))
   \<and> \<not> pd_requiresApproval (fst (validate url False 5 ''c'' (demo_tool ''pay'' ''pays an invoice'') [] demo_turn demo_gate))
   \<and> rp_risk (fst (classify (demo_tool ''pay'' ''pays an invoice'') demo_gate)) = R4_MONEY"
  by (simp add: gate_eval)

definition demo_floor_tool :: tool_definition where
  "demo_floor_tool = (demo_tool ''pay'' ''pays an invoice'')\<lparr>td_requiresApproval := Some True\<rparr>"

definition demo_remote_turn :: turn_context where
  "demo_remote_turn = demo_turn\<lparr>tc_callerMotebitId := Some ''peer''\<rparr>"

lemma demo_floor_auto:
  "pd_allowed (fst (validate url False 5 ''c'' demo_floor_tool [] demo_remote_turn demo_gate))
   \<and> \<not> pd_requiresApproval (fst (validate url False 5 ''c'' demo_floor_tool [] demo_remote_turn demo_gate))
   \<and> rp_risk (fst (classify demo_floor_tool demo_gate)) = R4_MONEY"
  by (simp add: gate_eval demo_floor_tool_def demo_remote_turn_def)

lemma auto_execution_is_authorized_witness:
  "in_scope ''pay, search'' ''pay'' \<and> R4_MONEY \<le> risk_ceiling demo_config \<and> grantCoversTool demo_remote_turn ''pay''"
  using auto_execution_is_authorized [OF refl, of "\<lambda>_. None" False 5 "''c''" demo_floor_tool "[]" demo_remote_turn demo_gate R4_MONEY]
    demo_floor_auto [of "\<lambda>_. None"]
  by (simp add: demo_remote_turn_def demo_turn_def demo_floor_tool_def demo_tool_def demo_gate_def newPolicyGate_def remoteCaller_def)

text \<open>A grant clears the approval floor of a tool that moves money, also for a remote caller.\<close>

lemma grant_clears_floor:
  "remoteCaller demo_remote_turn \<and> td_requiresApproval demo_floor_tool = Some True
   \<and> pd_allowed (fst (validate url False 5 ''c'' demo_floor_tool [] demo_remote_turn demo_gate))
   \<and> \<not> pd_requiresApproval (fst (validate url False 5 ''c'' demo_floor_tool [] demo_remote_turn demo_gate))"
  using demo_floor_auto by (simp add: demo_remote_turn_def demo_floor_tool_def remoteCaller_def)

subsection \<open>Turns without an approval channel\<close>

text \<open>
  For another principal's turn the gate decides as for the owner's, except that a call which would pause for approval
  is refused: the decision never pauses and never allows what the ordinary gate would not run on its own.
\<close>

theorem foreign_turn_never_pauses:
  "fst (withoutApprovalChannel url now callId tool args ctx gate) =
     (let d = fst (validate url False now callId tool args ctx gate)
      in if pd_requiresApproval d then (refused NeedsOwner)\<lparr>pd_callId := Some callId\<rparr> else d)
   \<and> \<not> pd_requiresApproval (fst (withoutApprovalChannel url now callId tool args ctx gate))"
proof -
  let ?p = "fst (classify tool gate)"
  let ?D = "\<lambda>noch. decide url noch (pg_config gate) tool ?p args ctx now (pg_lastResetAt gate)"
  have "fst (?D True) = (if pd_requiresApproval (fst (?D False)) then refused NeedsOwner else fst (?D False))"
  proof (cases "posture_refusal (pg_config gate) tool ?p ctx")
    case None
    then show ?thesis
      using argument_refusal_denies [of url "pg_config gate" args ctx]
      by (cases "argument_refusal url (pg_config gate) args ctx") (simp_all add: decide_def case_prod_beta Let_def plain_decision_def)
  next
    case (Some d)
    then show ?thesis using posture_refusal_denies [OF Some] by (simp add: decide_def)
  qed
  then show ?thesis by (simp add: withoutApprovalChannel_def validate_decision Let_def)
qed

subsection \<open>The audit trail\<close>

definition gate_logInjection :: "rat \<Rightarrow> string \<Rightarrow> string \<Rightarrow> string \<Rightarrow> (string \<times> jsval) list \<Rightarrow> injection_warning \<Rightarrow> bool \<Rightarrow> string option \<Rightarrow> policy_gate \<Rightarrow> policy_gate" where
  "gate_logInjection now turnId callId tool args injection blocked runId gate =
     gate\<lparr>pg_audit := logInjection now turnId callId tool args injection blocked runId (pg_audit gate)\<rparr>"

text \<open>Every operation of the gate that changes it.\<close>

datatype gate_op =
  Validate bool rat string tool_definition "(string \<times> jsval) list" turn_context
| Satisfied rat turn_context policy_decision string "(string \<times> jsval) list" string
| Completed rat turn_context policy_decision string "(string \<times> jsval) list" bool rat
| SetMode rat string bool
| Injected rat string string string "(string \<times> jsval) list" injection_warning bool "string option"

fun gate_step :: "(string \<Rightarrow> string option) \<Rightarrow> gate_op \<Rightarrow> policy_gate \<Rightarrow> policy_gate" where
  "gate_step url (Validate noch now callId tool args ctx) gate = snd (validate url noch now callId tool args ctx gate)"
| "gate_step url (Satisfied now ctx d tool args by_whom) gate = recordApprovalSatisfied now ctx d tool args by_whom gate"
| "gate_step url (Completed now ctx d tool args success ms) gate = recordResult now ctx d tool args success ms gate"
| "gate_step url (SetMode now uuid enabled) gate = setOperatorMode now uuid enabled gate"
| "gate_step url (Injected now turnId callId tool args injection blocked runId) gate = gate_logInjection now turnId callId tool args injection blocked runId gate"

definition hides_secrets :: "(string \<times> jsval) list \<Rightarrow> bool" where
  "hides_secrets args \<longleftrightarrow> (\<forall>(k, v) \<in> set args. is_sensitive_key k \<and> nonempty_string v \<longrightarrow> v = JString ''[REDACTED]'')"

definition sink_wf :: "audit_sink \<Rightarrow> bool" where
  "sink_wf sink \<longleftrightarrow> (\<forall>e \<in> set (as_entries sink). te_injection e = None \<longrightarrow> hides_secrets (te_args e)) \<and> (0 < as_maxEntries sink \<longrightarrow> length (as_entries sink) \<le> as_maxEntries sink)"

lemma redact_hides [simp]: "hides_secrets (redactSensitiveArgs args)"
  by (auto simp add: hides_secrets_def redactSensitiveArgs_def)

lemma last_index_props: "last_index P xs = Some i \<Longrightarrow> i < length xs \<and> P (xs ! i)"
  by (induction xs arbitrary: i) (auto split: option.splits if_splits)

lemma last_index_None: "last_index P xs = None \<longleftrightarrow> (\<forall>x \<in> set xs. \<not> P x)"
  by (induction xs) (auto split: option.splits if_splits)

lemma append_wf: "sink_wf sink \<Longrightarrow> te_injection e = None \<longrightarrow> hides_secrets (te_args e) \<Longrightarrow> sink_wf (sink_append e sink)"
  by (auto simp add: sink_wf_def sink_append_def slice_last_def Let_def dest: in_set_dropD)

lemma complete_wf: "sink_wf sink \<Longrightarrow> te_injection e = None \<longrightarrow> hides_secrets (te_args e) \<Longrightarrow> sink_wf (sink_complete e sink)"
proof -
  assume wf: "sink_wf sink" and e: "te_injection e = None \<longrightarrow> hides_secrets (te_args e)"
  show ?thesis
  proof (cases "last_index (\<lambda>x. te_callId x = te_callId e) (as_entries sink)")
    case None
    then show ?thesis using append_wf [OF wf e] by (simp add: sink_complete_def)
  next
    case (Some i)
    then have "as_entries sink ! i \<in> set (as_entries sink)" using last_index_props [OF Some] by simp
    then show ?thesis using wf Some by (auto simp add: sink_complete_def sink_wf_def dest!: set_update_subset_insert [THEN subsetD])
  qed
qed

lemma gate_step_wf: "sink_wf (pg_audit gate) \<Longrightarrow> sink_wf (pg_audit (gate_step url step gate))"
  by (cases step) (simp_all add: validate_gate recordApprovalSatisfied_def recordResult_def setOperatorMode_def logDecision_def logResult_def gate_logInjection_def logInjection_def
      append_wf complete_wf Let_def split: option.split)

lemma sink_capacity [simp]: "as_maxEntries (sink_append e sink) = as_maxEntries sink" "as_maxEntries (sink_complete e sink) = as_maxEntries sink"
  by (simp_all add: sink_append_def sink_complete_def Let_def split: option.split)

lemma gate_step_capacity: "as_maxEntries (pg_audit (gate_step url step gate)) = as_maxEntries (pg_audit gate)"
  by (cases step) (simp_all add: validate_gate recordApprovalSatisfied_def recordResult_def setOperatorMode_def logDecision_def logResult_def gate_logInjection_def logInjection_def
      Let_def split: option.split)

text \<open>
  (C31) Whatever passes through a new gate, the audit trail stays within its capacity, and no row but that of a detected injection holds a
  secret argument: under a key that looks like one of a secret it has no text but the mark of redaction. The rows of detected
  injections are the exception; they store the arguments as they are.
\<close>

theorem audit_trail_hides_secrets:
  assumes "0 < maxEntries" and "gate = fold (gate_step url) steps (newPolicyGate config maxEntries t)"
  shows "length (as_entries (pg_audit gate)) \<le> maxEntries
    \<and> (\<forall>e \<in> set (as_entries (pg_audit gate)). te_injection e = None \<longrightarrow>
         (\<forall>(k, v) \<in> set (te_args e). is_sensitive_key k \<and> nonempty_string v \<longrightarrow> v = JString ''[REDACTED]''))"
proof -
  have "sink_wf (pg_audit (fold (gate_step url) steps g)) \<and> as_maxEntries (pg_audit (fold (gate_step url) steps g)) = as_maxEntries (pg_audit g)"
    if "sink_wf (pg_audit g)" for g
    using that by (induction steps arbitrary: g) (simp_all add: gate_step_wf gate_step_capacity)
  moreover have "sink_wf (pg_audit (newPolicyGate config maxEntries t))" "as_maxEntries (pg_audit (newPolicyGate config maxEntries t)) = maxEntries"
    by (simp_all add: newPolicyGate_def newInMemoryAuditSink_def sink_wf_def)
  ultimately have "sink_wf (pg_audit gate)" "as_maxEntries (pg_audit gate) = maxEntries" using assms(2) by simp_all
  then show ?thesis using assms(1) unfolding sink_wf_def hides_secrets_def by simp
qed

definition demo_secret_steps :: "gate_op list" where
  "demo_secret_steps = [Validate False 1 ''c'' (demo_tool ''get'' ''a page'') [(''api_key'', JString ''s'')] demo_turn,
     Injected 2 ''t'' ''c'' ''get'' [(''api_key'', JString ''s'')] \<lparr> iw_detected = True, iw_patterns = [] \<rparr> False None]"

lemma demo_secret_keys:
  "map (\<lambda>e. (te_injection e = None, map fst (te_args e))) (as_entries (pg_audit (fold (gate_step (\<lambda>_. None)) demo_secret_steps (newPolicyGate demo_config 100 0))))
    = [(True, [''api_key'']), (False, [''api_key''])]"
  by (simp add: demo_secret_steps_def validate_gate logDecision_def gate_logInjection_def logInjection_def newPolicyGate_def newInMemoryAuditSink_def sink_append_def
      redactSensitiveArgs_def case_prod_beta comp_def)

lemma audit_trail_hides_secrets_witness:
  "\<exists>e f. as_entries (pg_audit (fold (gate_step (\<lambda>_. None)) demo_secret_steps (newPolicyGate demo_config 100 0))) = [e, f]
    \<and> (\<forall>v. (''api_key'', v) \<in> set (te_args e) \<and> nonempty_string v \<longrightarrow> v = JString ''[REDACTED]'')"
proof -
  from demo_secret_keys obtain e f where
    ef: "as_entries (pg_audit (fold (gate_step (\<lambda>_. None)) demo_secret_steps (newPolicyGate demo_config 100 0))) = [e, f]" "te_injection e = None"
    by (auto simp add: map_eq_Cons_conv)
  have "is_sensitive_key ''api_key''" by code_simp
  then show ?thesis
    using audit_trail_hides_secrets [OF _ refl, of 100 "\<lambda>_. None" demo_secret_steps demo_config 0] ef by fastforce
qed

text \<open>The row of a detected injection is the exception: it stores the arguments as they are.\<close>

lemma injection_row_keeps_secrets:
  "map te_args (as_entries (logInjection 0 ''t'' ''c'' ''fetch'' [(''api_key'', JString ''s3cret'')] \<lparr> iw_detected = True, iw_patterns = [] \<rparr> True None
     (newInMemoryAuditSink 100))) = [[(''api_key'', JString ''s3cret'')]]"
  by (simp add: logInjection_def newInMemoryAuditSink_def sink_append_def)

subsection \<open>Recovery after a crash\<close>

definition has_call :: "string \<Rightarrow> tool_audit_entry \<Rightarrow> bool" where
  "has_call k e \<longleftrightarrow> te_callId e = k"

lemma find_in_set: "find P xs = Some x \<Longrightarrow> x \<in> set xs"
  by (auto simp add: find_Some_iff)

lemma slots:
  "jsm_wf (foldl slot_step [] es)
   \<and> jsm_get (foldl slot_step [] es) k =
       (if \<exists>e \<in> set es. has_call k e
        then Some \<lparr> cs_intent = find (\<lambda>e. has_call k e \<and> is_intent e) es, cs_resolved = (\<exists>e \<in> set es. has_call k e \<and> te_result e \<noteq> None) \<rparr>
        else None)"
proof (induction es rule: rev_induct)
  case Nil
  then show ?case by simp
next
  case (snoc e es)
  have none: "find (\<lambda>x. has_call k x \<and> is_intent x) es = None" if "\<not> (\<exists>x \<in> set es. has_call k x)"
    using that by (auto simp add: find_None_iff)
  show ?case
  proof (cases "te_callId e = k")
    case True
    then show ?thesis using snoc.IH none by (auto simp add: slot_step_def Let_def find_append has_call_def split: option.splits)
  next
    case False
    then show ?thesis using snoc.IH by (auto simp add: slot_step_def Let_def find_append has_call_def split: option.split)
  qed
qed

lemma unresolved_iff:
  "e \<in> set (findUnresolvedActions es) \<longleftrightarrow>
     find (\<lambda>x. has_call (te_callId e) x \<and> is_intent x) es = Some e \<and> (\<forall>x \<in> set es. has_call (te_callId e) x \<longrightarrow> te_result x = None)"
proof -
  let ?m = "foldl slot_step [] es"
  have wf: "jsm_wf ?m" and get: "jsm_get ?m k = (if \<exists>e \<in> set es. has_call k e
        then Some \<lparr> cs_intent = find (\<lambda>e. has_call k e \<and> is_intent e) es, cs_resolved = (\<exists>e \<in> set es. has_call k e \<and> te_result e \<noteq> None) \<rparr>
        else None)" for k
    using slots by blast+
  have id: "has_call k i" if "find (\<lambda>e. has_call k e \<and> is_intent e) es = Some i" for k i
    using that by (auto simp add: find_Some_iff)
  have "e \<in> set (findUnresolvedActions es) \<longleftrightarrow> (\<exists>slot \<in> set (jsm_values ?m). cs_intent slot = Some e \<and> \<not> cs_resolved slot)"
    by (auto simp add: findUnresolvedActions_def split: option.splits if_splits) metis
  also have "\<dots> \<longleftrightarrow> (\<exists>k slot. jsm_get ?m k = Some slot \<and> cs_intent slot = Some e \<and> \<not> cs_resolved slot)"
    using jsm_values_iff [OF wf] by blast
  also have "\<dots> \<longleftrightarrow> (\<exists>k. (\<exists>x \<in> set es. has_call k x) \<and> find (\<lambda>x. has_call k x \<and> is_intent x) es = Some e
      \<and> (\<forall>x \<in> set es. has_call k x \<longrightarrow> te_result x = None))"
    by (auto simp add: get split: if_splits)
  also have "\<dots> \<longleftrightarrow> find (\<lambda>x. has_call (te_callId e) x \<and> is_intent x) es = Some e \<and> (\<forall>x \<in> set es. has_call (te_callId e) x \<longrightarrow> te_result x = None)"
  proof
    assume "\<exists>k. (\<exists>x \<in> set es. has_call k x) \<and> find (\<lambda>x. has_call k x \<and> is_intent x) es = Some e
      \<and> (\<forall>x \<in> set es. has_call k x \<longrightarrow> te_result x = None)"
    then obtain k where k: "find (\<lambda>x. has_call k x \<and> is_intent x) es = Some e" "\<forall>x \<in> set es. has_call k x \<longrightarrow> te_result x = None" by blast
    moreover have "k = te_callId e" using id [OF k(1)] by (simp add: has_call_def)
    ultimately show "find (\<lambda>x. has_call (te_callId e) x \<and> is_intent x) es = Some e \<and> (\<forall>x \<in> set es. has_call (te_callId e) x \<longrightarrow> te_result x = None)" by simp
  next
    assume *: "find (\<lambda>x. has_call (te_callId e) x \<and> is_intent x) es = Some e \<and> (\<forall>x \<in> set es. has_call (te_callId e) x \<longrightarrow> te_result x = None)"
    have "e \<in> set es" using find_in_set [OF conjunct1 [OF *]] .
    then show "\<exists>k. (\<exists>x \<in> set es. has_call k x) \<and> find (\<lambda>x. has_call k x \<and> is_intent x) es = Some e
      \<and> (\<forall>x \<in> set es. has_call k x \<longrightarrow> te_result x = None)"
      using * by (intro exI [of _ "te_callId e"]) (auto simp add: has_call_def)
  qed
  finally show ?thesis .
qed

definition open_calls :: "policy_gate \<Rightarrow> string set" where
  "open_calls gate = te_callId ` set (findUnresolvedActions (as_entries (pg_audit gate)))"

lemma open_calls_iff:
  "k \<in> open_calls gate \<longleftrightarrow> (\<exists>e \<in> set (as_entries (pg_audit gate)). has_call k e \<and> is_intent e)
     \<and> (\<forall>e \<in> set (as_entries (pg_audit gate)). has_call k e \<longrightarrow> te_result e = None)"
proof
  assume "k \<in> open_calls gate"
  then show "(\<exists>e \<in> set (as_entries (pg_audit gate)). has_call k e \<and> is_intent e) \<and> (\<forall>e \<in> set (as_entries (pg_audit gate)). has_call k e \<longrightarrow> te_result e = None)"
    by (auto simp add: open_calls_def unresolved_iff dest: find_Some_iff [THEN iffD1]) (metis nth_mem find_Some_iff)
next
  assume *: "(\<exists>e \<in> set (as_entries (pg_audit gate)). has_call k e \<and> is_intent e) \<and> (\<forall>e \<in> set (as_entries (pg_audit gate)). has_call k e \<longrightarrow> te_result e = None)"
  then obtain e where e: "find (\<lambda>e. has_call k e \<and> is_intent e) (as_entries (pg_audit gate)) = Some e"
    by (cases "find (\<lambda>e. has_call k e \<and> is_intent e) (as_entries (pg_audit gate))") (auto simp add: find_None_iff)
  then have "te_callId e = k" by (auto simp add: find_Some_iff has_call_def)
  then show "k \<in> open_calls gate" using e * by (auto simp add: open_calls_def unresolved_iff intro!: image_eqI [of _ _ e])
qed

lemma entries_append:
  "length (as_entries sink) < as_maxEntries sink \<Longrightarrow> as_entries (sink_append e sink) = as_entries sink @ [e]"
  by (simp add: sink_append_def)

text \<open>What is open of a call is read off its own rows, and a step about another call leaves them.\<close>

fun op_call :: "gate_op \<Rightarrow> string option" where
  "op_call (Validate _ _ callId _ _ _) = Some callId"
| "op_call (Satisfied _ _ d _ _ _) = pd_callId d"
| "op_call (Completed _ _ d _ _ _ _) = pd_callId d"
| "op_call (SetMode _ uuid _) = Some uuid"
| "op_call (Injected _ _ callId _ _ _ _ _) = Some callId"

definition rows_of :: "string \<Rightarrow> policy_gate \<Rightarrow> tool_audit_entry list" where
  "rows_of k gate = filter (has_call k) (as_entries (pg_audit gate))"

lemma open_rows: "k \<in> open_calls gate \<longleftrightarrow> (\<exists>e \<in> set (rows_of k gate). is_intent e) \<and> (\<forall>e \<in> set (rows_of k gate). te_result e = None)"
  by (auto simp add: open_calls_iff rows_of_def)

lemma filter_update_other: "\<not> P (xs ! i) \<Longrightarrow> \<not> P y \<Longrightarrow> filter P (xs[i := y]) = filter P xs"
  by (induction xs arbitrary: i) (auto split: nat.split)

lemma complete_other:
  assumes "length (as_entries sink) < as_maxEntries sink" and "te_callId e \<noteq> k"
  shows "filter (has_call k) (as_entries (sink_complete e sink)) = filter (has_call k) (as_entries sink)
    \<and> length (as_entries (sink_complete e sink)) \<le> Suc (length (as_entries sink))"
proof (cases "last_index (\<lambda>x. te_callId x = te_callId e) (as_entries sink)")
  case None
  then show ?thesis using assms by (simp add: sink_complete_def entries_append has_call_def)
next
  case (Some i)
  then have "te_callId (as_entries sink ! i) = te_callId e" using last_index_props by fast
  then show ?thesis using Some assms by (simp add: sink_complete_def filter_update_other has_call_def)
qed

lemma step_other:
  assumes "op_call step \<noteq> Some k" and "length (as_entries (pg_audit gate)) < as_maxEntries (pg_audit gate)"
  shows "rows_of k (gate_step url step gate) = rows_of k gate
    \<and> length (as_entries (pg_audit (gate_step url step gate))) \<le> Suc (length (as_entries (pg_audit gate)))"
  using assms complete_other [OF assms(2)]
  by (cases step) (auto simp add: rows_of_def validate_gate recordApprovalSatisfied_def recordResult_def setOperatorMode_def logDecision_def logResult_def
      gate_logInjection_def logInjection_def entries_append has_call_def Let_def split: option.split)

lemma steps_other:
  assumes "\<forall>step \<in> set steps. op_call step \<noteq> Some k" and "length (as_entries (pg_audit gate)) + length steps \<le> as_maxEntries (pg_audit gate)"
  shows "rows_of k (fold (gate_step url) steps gate) = rows_of k gate"
  using assms
proof (induction steps arbitrary: gate)
  case (Cons step steps)
  then have "rows_of k (gate_step url step gate) = rows_of k gate"
    and "length (as_entries (pg_audit (gate_step url step gate))) \<le> Suc (length (as_entries (pg_audit gate)))"
    using step_other [of step k gate url] by simp_all
  with Cons show ?case by (simp add: gate_step_capacity)
qed simp

lemma result_closes:
  assumes "callId \<in> te_callId ` set (as_entries (pg_audit gate))" and "pd_callId d = Some callId"
  shows "callId \<notin> open_calls (recordResult now ctx d tool args success ms gate)"
proof -
  obtain i where i: "last_index (\<lambda>e. te_callId e = callId) (as_entries (pg_audit gate)) = Some i"
    using assms(1) last_index_None [of "\<lambda>e. te_callId e = callId" "as_entries (pg_audit gate)"] by auto
  then have "i < length (as_entries (pg_audit gate))" "te_callId (as_entries (pg_audit gate) ! i) = callId" using last_index_props by fast+
  moreover define x where "x = (as_entries (pg_audit gate) ! i)\<lparr>te_result := Some \<lparr>tr_ok = success, tr_durationMs = ms\<rparr>, te_timestamp := now\<rparr>"
  ultimately have "x \<in> set ((as_entries (pg_audit gate))[i := x])" "te_callId x = callId" by (simp_all add: set_update_memI)
  then have "x \<in> set (rows_of callId (recordResult now ctx d tool args success ms gate))"
    by (simp add: rows_of_def recordResult_def assms(2) logResult_def sink_complete_def i has_call_def x_def)
  moreover have "te_result x \<noteq> None" by (simp add: x_def)
  ultimately have "\<exists>e \<in> set (rows_of callId (recordResult now ctx d tool args success ms gate)). te_result e \<noteq> None" by blast
  then show ?thesis by (auto simp add: open_rows)
qed

text \<open>
  (C25) The audit trail shows what a crash leaves open, as long as it has room. The row of a call is written before the call can run; whatever then happens
  to other calls, the call is among the unresolved ones exactly if it was let through without a pause, and it leaves them when its
  result is recorded; neither its decision nor its result changes what is open of other calls. The trail must not have reached its
  capacity on the way: beyond it the oldest rows are dropped.
\<close>

theorem crash_window_is_visible:
  assumes "validate url noch now callId tool args ctx gate = (d, gate1)" and "gate2 = fold (gate_step url) steps gate1"
    and "gate3 = recordResult now' ctx d (td_name tool) args success ms gate2"
    and "callId \<notin> te_callId ` set (as_entries (pg_audit gate))" and "\<forall>step \<in> set steps. op_call step \<noteq> Some callId"
    and "length (as_entries (pg_audit gate)) + length steps < as_maxEntries (pg_audit gate)"
  shows "(callId \<in> open_calls gate2 \<longleftrightarrow> pd_allowed d \<and> \<not> pd_requiresApproval d) \<and> callId \<notin> open_calls gate3
    \<and> (\<forall>k. k \<noteq> callId \<longrightarrow> (k \<in> open_calls gate1 \<longleftrightarrow> k \<in> open_calls gate) \<and> (k \<in> open_calls gate3 \<longleftrightarrow> k \<in> open_calls gate2))"
proof -
  let ?d = "fst (decide url noch (pg_config gate) tool (fst (classify tool gate)) args ctx now (pg_lastResetAt gate))"
  let ?es = "as_entries (pg_audit gate)"
  let ?e = "\<lparr> te_turnId = tc_turnId ctx, te_runId = tc_runId ctx, te_callId = callId, te_tool = td_name tool, te_args = redactSensitiveArgs args,
       te_decision = ?d, te_result = None, te_injection = None, te_timestamp = now \<rparr>"
  have d: "d = ?d\<lparr>pd_callId := Some callId\<rparr>" using validate_decision [of url noch now callId tool args ctx gate] assms(1) by simp
  have g1: "as_entries (pg_audit gate1) = ?es @ [?e]" and cap: "as_maxEntries (pg_audit gate1) = as_maxEntries (pg_audit gate)"
    using validate_gate [of url noch now callId tool args ctx gate] assms(1,6) by (simp_all add: logDecision_def entries_append)
  have own: "rows_of callId gate2 = [?e]"
    using steps_other [OF assms(5), of gate1 url] assms(2,4,6) by (auto simp add: g1 cap rows_of_def has_call_def filter_empty_conv)
  have "pd_reason ?d \<notin> {Some InjectionBlocked, Some InjectionWarned}" if "pd_allowed ?d"
    using allowed_reason [OF that] by simp
  then have "is_intent ?e \<longleftrightarrow> pd_allowed d \<and> \<not> pd_requiresApproval d" by (auto simp add: is_intent_def is_injection_row_def d)
  then have 1: "callId \<in> open_calls gate2 \<longleftrightarrow> pd_allowed d \<and> \<not> pd_requiresApproval d" by (simp add: open_rows own)
  have "?e \<in> set (rows_of callId gate2)" by (simp add: own)
  then have "?e \<in> set (as_entries (pg_audit gate2))" by (simp add: rows_of_def)
  then have here: "callId \<in> te_callId ` set (as_entries (pg_audit gate2))" by force
  then have 2: "callId \<notin> open_calls gate3" using result_closes [OF here, of d] assms(3) d by simp
  have "rows_of k gate3 = rows_of k gate2" if "k \<noteq> callId" for k
  proof -
    obtain i where i: "last_index (\<lambda>e. te_callId e = callId) (as_entries (pg_audit gate2)) = Some i"
      using here last_index_None [of "\<lambda>e. te_callId e = callId" "as_entries (pg_audit gate2)"] by auto
    then have "te_callId (as_entries (pg_audit gate2) ! i) = callId" using last_index_props by fast
    then show ?thesis using that i d assms(3) by (simp add: rows_of_def recordResult_def logResult_def sink_complete_def filter_update_other has_call_def)
  qed
  moreover have "rows_of k gate1 = rows_of k gate" if "k \<noteq> callId" for k using that by (simp add: rows_of_def g1 has_call_def)
  ultimately show ?thesis using 1 2 by (simp add: open_rows)
qed

lemma crash_window_is_visible_witness:
  "''c'' \<in> open_calls (fold (gate_step (\<lambda>_. None)) [Validate False 6 ''b'' (demo_tool ''get'' ''a page'') [] demo_turn]
     (snd (validate (\<lambda>_. None) False 5 ''c'' (demo_tool ''pay'' ''pays an invoice'') [] demo_turn demo_gate)))"
proof -
  obtain d g where v: "validate (\<lambda>_. None) False 5 ''c'' (demo_tool ''pay'' ''pays an invoice'') [] demo_turn demo_gate = (d, g)" by fastforce
  have "''c'' \<notin> te_callId ` set (as_entries (pg_audit demo_gate))"
    "\<forall>step \<in> set [Validate False 6 ''b'' (demo_tool ''get'' ''a page'') [] demo_turn]. op_call step \<noteq> Some ''c''"
    "length (as_entries (pg_audit demo_gate)) + length [Validate False 6 ''b'' (demo_tool ''get'' ''a page'') [] demo_turn] < as_maxEntries (pg_audit demo_gate)"
    by (simp_all add: demo_gate_def newPolicyGate_def newInMemoryAuditSink_def)
  from crash_window_is_visible [OF v refl refl this, of 6 True 1] demo_pay_auto [of "\<lambda>_. None"] show ?thesis by (simp add: v)
qed

subsection \<open>Configured fences\<close>

text \<open>
  The allow list restricts the tools that are offered, not the calls that are validated: a tool that is not on
  the list is never offered, and the decision on a call to it is the one made without a list.
\<close>

theorem allow_list_not_validated:
  assumes "pc_toolAllowList (pg_config gate) = Some tools" and "td_name tool \<notin> set tools"
  shows "\<not> fst (offers turn tool gate)
    \<and> fst (validate url noch now callId tool args ctx gate) =
        fst (validate url noch now callId tool args ctx (gate\<lparr>pg_config := (pg_config gate)\<lparr>pc_toolAllowList := None\<rparr>\<rparr>))"
proof
  show "\<not> fst (offers turn tool gate)" using assms by (simp add: offers_def listed_def Let_def)
  let ?gate = "gate\<lparr>pg_config := (pg_config gate)\<lparr>pc_toolAllowList := None\<rparr>\<rparr>"
  have "fst (classify tool ?gate) = fst (classify tool gate)" by (simp add: classify_def classify_fresh_def Let_def split: option.split)
  moreover have "decide url noch (pg_config ?gate) tool p args ctx now r = decide url noch (pg_config gate) tool p args ctx now r" for p r
  proof -
    have "getEffectiveMaxRisk ((pg_config gate)\<lparr>pc_toolAllowList := None\<rparr>) = getEffectiveMaxRisk (pg_config gate)" by (simp add: getEffectiveMaxRisk_def)
    then have "posture_refusal (pg_config ?gate) tool p ctx = posture_refusal (pg_config gate) tool p ctx"
      by (simp add: posture_refusal_def split: option.split)
    moreover have "argument_refusal url (pg_config ?gate) args ctx = argument_refusal url (pg_config gate) args ctx" by (simp add: argument_refusal_def)
    moreover have "needs_approval (pg_config ?gate) tool p ctx = needs_approval (pg_config gate) tool p ctx" by (simp add: needs_approval_def)
    moreover have "quorum_for (pg_config ?gate) risk b = quorum_for (pg_config gate) risk b" for risk b by (simp add: quorum_for_def)
    moreover have "pc_budget (pg_config ?gate) = pc_budget (pg_config gate)" by simp
    ultimately show ?thesis unfolding decide_def by presburger
  qed
  ultimately show "fst (validate url noch now callId tool args ctx gate) = fst (validate url noch now callId tool args ctx ?gate)"
    by (simp add: validate_decision)
qed

lemma allow_list_not_validated_witness:
  "\<not> fst (offers None (demo_tool ''get'' ''a page'') (demo_gate\<lparr>pg_config := demo_config\<lparr>pc_toolAllowList := Some [''search'']\<rparr>\<rparr>))"
proof (rule allow_list_not_validated [THEN conjunct1])
  show "pc_toolAllowList (pg_config (demo_gate\<lparr>pg_config := demo_config\<lparr>pc_toolAllowList := Some [''search'']\<rparr>\<rparr>)) = Some [''search'']" by simp
  show "td_name (demo_tool ''get'' ''a page'') \<notin> set [''search'']" by (simp add: demo_tool_def)
qed

text \<open>The allowed paths are compared as text: a path that climbs out of its prefix passes.\<close>

lemma dotted_path_allowed: "path_allowed ''/home/user/project/../../other/file'' ''/home/user/project''"
  by (simp add: path_allowed_def ends_with_def starts_with_def)

text \<open>A due budget reset lets one call through; the counters of the turn stay, and the next call is refused again.\<close>

lemma reset_lets_one_call_through:
  "let ctx = demo_turn\<lparr>tc_toolCallCount := 10\<rparr>; (first, t) = budget_check DEFAULT_BUDGET 3600000 ctx 0; (second, _) = budget_check DEFAULT_BUDGET 3600001 ctx t
   in bk_allowed first \<and> \<not> bk_allowed second"
  by (simp add: budget_check_def DEFAULT_BUDGET_def shouldReset_def demo_turn_def createTurnContext_def Let_def)

end
