(* ===== verification/CanonicalJson.thy ===== *)
theory CanonicalJson
  imports JsValue
begin

text \<open>
  Deterministic JSON with sorted keys, in the two versions of the program: that of the audit chain
  (\<open>packages/policy/src/audit-chain.ts\<close>), which writes \<open>undefined\<close> as \<open>null\<close>, and that of every signed artifact
  (\<open>packages/crypto/src/signing.ts\<close>), which skips it. \<open>JSON.stringify\<close> of a text is modelled; the text of a finite number is a
  parameter, of which \<open>number_text\<close> says what is relied on. Both versions are faithful: they tell apart any two values that differ
  in more than the order of their keys.
\<close>

subsection \<open>Texts and numbers\<close>

definition json_escape :: "char \<Rightarrow> string" where
  "json_escape c =
     (let n = of_char c :: nat
      in if n = 34 \<or> n = 92 then [CHR 0x5C, c]
         else if n = 8 then [CHR 0x5C, CHR ''b'']
         else if n = 9 then [CHR 0x5C, CHR ''t'']
         else if n = 10 then [CHR 0x5C, CHR ''n'']
         else if n = 12 then [CHR 0x5C, CHR ''f'']
         else if n = 13 then [CHR 0x5C, CHR ''r'']
         else if n < 32 then [CHR 0x5C, CHR ''u''] @ pad_start 4 CHR ''0'' (to_hex n)
         else [c])"

definition json_string :: "string \<Rightarrow> string" where
  "json_string s = CHR 0x22 # concat (map json_escape s) @ [CHR 0x22]"

definition number_chars :: "char set" where
  "number_chars = set ''+-.0123456789e''"

definition number_text :: "(rat \<Rightarrow> string) \<Rightarrow> bool" where
  "number_text num \<longleftrightarrow> inj num \<and> (\<forall>x. num x \<noteq> [] \<and> set (num x) \<subseteq> number_chars)"

subsection \<open>The two encoders\<close>

definition by_name :: "string \<times> 'a \<Rightarrow> string \<times> 'a \<Rightarrow> int" where
  "by_name a b = code_point_order (fst a) (fst b)"

lemma size_member: "(k, v) \<in> set ps \<Longrightarrow> size v < Suc (size_list (size_prod (\<lambda>_. 0) size) ps)"
  by (induction ps) auto

function canonicalJson :: "(rat \<Rightarrow> string) \<Rightarrow> jsval \<Rightarrow> string" where
  "canonicalJson num JUndefined = ''null''"
| "canonicalJson num JNull = ''null''"
| "canonicalJson num (JBool b) = (if b then ''true'' else ''false'')"
| "canonicalJson num (JNumber n) = (case n of Fin x \<Rightarrow> num x | _ \<Rightarrow> ''null'')"
| "canonicalJson num (JString s) = json_string s"
| "canonicalJson num (JArray xs) = ''['' @ js_join '','' (map (canonicalJson num) xs) @ '']''"
| "canonicalJson num (JObject ps) =
     CHR 0x7B # js_join '','' (map (\<lambda>(k, v). json_string k @ '':'' @ canonicalJson num v) (js_sort by_name ps)) @ [CHR 0x7D]"
  by pat_completeness auto
termination
  by (relation "measure (size \<circ> snd)") (auto simp add: size_member size_list_estimation' less_Suc_eq_le)

text \<open>
  The signing version gives \<open>undefined\<close> for \<open>undefined\<close>; \<open>join\<close> turns that into the empty text, which is what
  \<open>signing_text\<close> gives for it.
\<close>

function signing_text :: "(rat \<Rightarrow> string) \<Rightarrow> jsval \<Rightarrow> string" where
  "signing_text num JUndefined = []"
| "signing_text num JNull = ''null''"
| "signing_text num (JBool b) = (if b then ''true'' else ''false'')"
| "signing_text num (JNumber n) = (case n of Fin x \<Rightarrow> num x | _ \<Rightarrow> ''null'')"
| "signing_text num (JString s) = json_string s"
| "signing_text num (JArray xs) = ''['' @ js_join '','' (map (signing_text num) xs) @ '']''"
| "signing_text num (JObject ps) =
     CHR 0x7B # js_join '','' (map (\<lambda>(k, v). json_string k @ '':'' @ signing_text num v)
       (filter (\<lambda>(k, v). v \<noteq> JUndefined) (js_sort by_name ps))) @ [CHR 0x7D]"
  by pat_completeness auto
termination
  by (relation "measure (size \<circ> snd)") (auto simp add: size_member size_list_estimation' less_Suc_eq_le)

definition signing_canonicalJson :: "(rat \<Rightarrow> string) \<Rightarrow> jsval \<Rightarrow> string option" where
  "signing_canonicalJson num v = (if v = JUndefined then None else Some (signing_text num v))"

subsection \<open>Normal forms\<close>

text \<open>A value without \<open>undefined\<close> or numbers that are not finite, written with its keys in the order they come.\<close>

function render :: "(rat \<Rightarrow> string) \<Rightarrow> jsval \<Rightarrow> string" where
  "render num JUndefined = []"
| "render num JNull = ''null''"
| "render num (JBool b) = (if b then ''true'' else ''false'')"
| "render num (JNumber n) = (case n of Fin x \<Rightarrow> num x | _ \<Rightarrow> ''null'')"
| "render num (JString s) = json_string s"
| "render num (JArray xs) = CHR ''['' # js_join '','' (map (render num) xs) @ '']''"
| "render num (JObject ps) = CHR 0x7B # js_join '','' (map (\<lambda>(k, v). json_string k @ CHR '':'' # render num v) ps) @ [CHR 0x7D]"
  by pat_completeness auto
termination
  by (relation "measure (size \<circ> snd)") (auto simp add: size_member size_list_estimation' less_Suc_eq_le)

function plain :: "jsval \<Rightarrow> bool" where
  "plain JUndefined = False"
| "plain JNull = True"
| "plain (JBool b) = True"
| "plain (JNumber n) = is_finite n"
| "plain (JString s) = True"
| "plain (JArray xs) = (\<forall>x \<in> set xs. plain x)"
| "plain (JObject ps) = (\<forall>(k, v) \<in> set ps. plain v)"
  by pat_completeness auto
termination
  by (relation "measure size") (auto simp add: size_member size_list_estimation' less_Suc_eq_le)

function audit_norm :: "jsval \<Rightarrow> jsval" where
  "audit_norm JUndefined = JNull"
| "audit_norm JNull = JNull"
| "audit_norm (JBool b) = JBool b"
| "audit_norm (JNumber n) = (if is_finite n then JNumber n else JNull)"
| "audit_norm (JString s) = JString s"
| "audit_norm (JArray xs) = JArray (map audit_norm xs)"
| "audit_norm (JObject ps) = JObject (map (\<lambda>(k, v). (k, audit_norm v)) (js_sort by_name ps))"
  by pat_completeness auto
termination
  by (relation "measure size") (auto simp add: size_member size_list_estimation' less_Suc_eq_le)

function signing_norm :: "jsval \<Rightarrow> jsval" where
  "signing_norm JUndefined = JUndefined"
| "signing_norm JNull = JNull"
| "signing_norm (JBool b) = JBool b"
| "signing_norm (JNumber n) = (if is_finite n then JNumber n else JNull)"
| "signing_norm (JString s) = JString s"
| "signing_norm (JArray xs) = JArray (map signing_norm xs)"
| "signing_norm (JObject ps) = JObject (map (\<lambda>(k, v). (k, signing_norm v)) (filter (\<lambda>(k, v). v \<noteq> JUndefined) (js_sort by_name ps)))"
  by pat_completeness auto
termination
  by (relation "measure size") (auto simp add: size_member size_list_estimation' less_Suc_eq_le)

text \<open>No \<open>undefined\<close> as the item of an array, at any depth that is written.\<close>

function items_defined :: "jsval \<Rightarrow> bool" where
  "items_defined (JArray xs) = (\<forall>x \<in> set xs. x \<noteq> JUndefined \<and> items_defined x)"
| "items_defined (JObject ps) = (\<forall>(k, v) \<in> set ps. items_defined v)"
| "items_defined JUndefined = True"
| "items_defined JNull = True"
| "items_defined (JBool b) = True"
| "items_defined (JNumber n) = True"
| "items_defined (JString s) = True"
  by pat_completeness auto
termination
  by (relation "measure size") (auto simp add: size_member size_list_estimation' less_Suc_eq_le)

lemma number_cases: "(case n of Fin x \<Rightarrow> num x | _ \<Rightarrow> ''null'') = render num (if is_finite n then JNumber n else JNull)"
  by (cases n) simp_all

lemma canonicalJson_render: "canonicalJson num v = render num (audit_norm v)"
proof (induction num v rule: canonicalJson.induct)
  case (6 num xs)
  then have eq: "map (canonicalJson num) xs = map (render num \<circ> audit_norm) xs" by simp
  show ?case unfolding canonicalJson.simps audit_norm.simps render.simps map_map eq by simp
next
  case (7 num ps)
  then have eq: "map (\<lambda>(k, v). json_string k @ '':'' @ canonicalJson num v) (js_sort by_name ps) =
      map ((\<lambda>(k, v). json_string k @ CHR '':'' # render num v) \<circ> (\<lambda>(k, v). (k, audit_norm v))) (js_sort by_name ps)"
    by (intro map_cong) auto
  show ?case unfolding canonicalJson.simps audit_norm.simps render.simps map_map eq by simp
qed (simp_all add: number_cases split: jsnum.split)

lemma signing_text_render: "signing_text num v = render num (signing_norm v)"
proof (induction num v rule: signing_text.induct)
  case (6 num xs)
  then have eq: "map (signing_text num) xs = map (render num \<circ> signing_norm) xs" by simp
  show ?case unfolding signing_text.simps signing_norm.simps render.simps map_map eq by simp
next
  case (7 num ps)
  then have eq: "map (\<lambda>(k, v). json_string k @ '':'' @ signing_text num v) (filter (\<lambda>(k, v). v \<noteq> JUndefined) (js_sort by_name ps)) =
      map ((\<lambda>(k, v). json_string k @ CHR '':'' # render num v) \<circ> (\<lambda>(k, v). (k, signing_norm v))) (filter (\<lambda>(k, v). v \<noteq> JUndefined) (js_sort by_name ps))"
    by (intro map_cong) auto
  show ?case unfolding signing_text.simps signing_norm.simps render.simps map_map eq by simp
qed (simp_all add: number_cases split: jsnum.split)

lemma audit_norm_plain: "plain (audit_norm v)"
  by (induction v rule: audit_norm.induct) auto

lemma signing_norm_plain: "items_defined v \<Longrightarrow> v \<noteq> JUndefined \<Longrightarrow> plain (signing_norm v)"
  by (induction v rule: signing_norm.induct) auto

subsection \<open>A text determines its value\<close>

fun unescape :: "string \<Rightarrow> char" where
  "unescape [c] = c"
| "unescape [_, d] = (if d = CHR ''b'' then CHR 0x08 else if d = CHR ''t'' then CHR 0x09 else if d = CHR ''n'' then CHR 0x0A
     else if d = CHR ''f'' then CHR 0x0C else if d = CHR ''r'' then CHR 0x0D else d)"
| "unescape (_ # _ # h) = char_of (hex_value h)"
| "unescape [] = CHR ''0''"

definition well_escaped :: "char \<Rightarrow> bool" where
  "well_escaped c \<longleftrightarrow> unescape (json_escape c) = c \<and>
     (case json_escape c of
        [a] \<Rightarrow> a \<noteq> CHR 0x5C \<and> a \<noteq> CHR 0x22
      | [a, b] \<Rightarrow> a = CHR 0x5C \<and> b \<noteq> CHR ''u''
      | a # b # h \<Rightarrow> a = CHR 0x5C \<and> b = CHR ''u'' \<and> length h = 4
      | [] \<Rightarrow> False)"

lemma unicode_escape: "n < 32 \<Longrightarrow> \<exists>a b c d. pad_start 4 CHR ''0'' (to_hex n) = [a, b, c, d] \<and> hex_value [a, b, c, d] = n"
proof -
  assume "n < 32"
  then have "n div 16 < 16" by simp
  then have "length (to_hex n) \<le> 2" by (simp add: to_hex.simps [of n] to_hex.simps [of "n div 16"])
  then have "length (pad_start 4 CHR ''0'' (to_hex n)) = Suc (Suc (Suc (Suc 0)))" by (simp add: pad_start_def)
  then obtain a b c d where "pad_start 4 CHR ''0'' (to_hex n) = [a, b, c, d]" by (auto simp add: length_Suc_conv)
  then show ?thesis by (metis hex_value_pad hex_value_to_hex)
qed

lemma well_escaped_all: "well_escaped c"
proof -
  let ?n = "of_char c :: nat"
  consider "?n \<in> {34, 92, 8, 9, 10, 12, 13}" | "?n \<notin> {34, 92, 8, 9, 10, 12, 13}" "?n < 32" | "?n \<notin> {34, 92, 8, 9, 10, 12, 13}" "\<not> ?n < 32" by blast
  then show ?thesis
  proof cases
    case 1
    then have "?n \<in> (of_char :: char \<Rightarrow> nat) ` {CHR 0x22, CHR 0x5C, CHR 0x08, CHR 0x09, CHR 0x0A, CHR 0x0C, CHR 0x0D}" by simp
    then have "c \<in> {CHR 0x22, CHR 0x5C, CHR 0x08, CHR 0x09, CHR 0x0A, CHR 0x0C, CHR 0x0D}" unfolding image_iff of_char_eq_iff by blast
    then show ?thesis by (elim insertE) (simp_all add: well_escaped_def json_escape_def)
  next
    case 2
    then obtain a b d e where "json_escape c = [CHR 0x5C, CHR ''u'', a, b, d, e]" "hex_value [a, b, d, e] = ?n"
      using unicode_escape [of ?n] by (auto simp add: json_escape_def Let_def)
    then show ?thesis by (simp add: well_escaped_def)
  next
    case 3
    then have "json_escape c = [c]" "c \<noteq> CHR 0x5C" "c \<noteq> CHR 0x22" by (auto simp add: json_escape_def Let_def)
    then show ?thesis by (simp add: well_escaped_def)
  qed
qed

lemma escape_prefix_free:
  assumes "json_escape c @ x = json_escape d @ y"
  shows "c = d \<and> x = y"
proof -
  have "json_escape c = json_escape d"
    using assms well_escaped_all [of c] well_escaped_all [of d]
    by (auto simp add: well_escaped_def append_eq_Cons_conv split: list.splits)
  then show ?thesis using assms well_escaped_all [of c] well_escaped_all [of d] by (metis same_append_eq well_escaped_def)
qed

lemma escape_hd: "\<exists>a h. json_escape c = a # h \<and> a \<noteq> CHR 0x22"
  using well_escaped_all [of c] by (auto simp add: well_escaped_def split: list.splits)

lemma escapes_prefix_free:
  "concat (map json_escape a) @ CHR 0x22 # r = concat (map json_escape b) @ CHR 0x22 # s \<Longrightarrow> a = b \<and> r = s"
proof (induction a arbitrary: b)
  case Nil
  then show ?case using escape_hd [of "hd b"] by (cases b) auto
next
  case (Cons c a)
  show ?case
  proof (cases b)
    case Nil
    then show ?thesis using Cons.prems escape_hd [of c] by auto
  next
    case (Cons d b')
    then have "c = d" "concat (map json_escape a) @ CHR 0x22 # r = concat (map json_escape b') @ CHR 0x22 # s"
      using Cons.prems escape_prefix_free [of c _ d] by auto
    then show ?thesis using Cons.IH Cons by blast
  qed
qed

lemma string_prefix_free: "json_string a @ r = json_string b @ s \<Longrightarrow> a = b \<and> r = s"
  using escapes_prefix_free [of a r b s] by (simp add: json_string_def)

definition delims :: "char set" where
  "delims = {CHR '','', CHR '']'', CHR 0x7D}"

definition delimited :: "string \<Rightarrow> bool" where
  "delimited r \<longleftrightarrow> (case r of [] \<Rightarrow> True | c # _ \<Rightarrow> c \<in> delims)"

lemma delimited_Cons [simp]: "delimited (c # r) \<longleftrightarrow> c \<in> delims"
  by (simp add: delimited_def)

lemma number_chars_delims: "c \<in> number_chars \<Longrightarrow> c \<notin> delims"
  by (auto simp add: number_chars_def delims_def)

lemma number_prefix_free:
  assumes "number_text num" and "delimited r" and "delimited s" and "num x @ r = num y @ s"
  shows "x = y \<and> r = s"
proof -
  have take: "takeWhile (\<lambda>c. c \<in> number_chars) (num x @ r) = num x" if "delimited r" for x r
  proof -
    have "\<forall>c \<in> set (num x). c \<in> number_chars" using assms(1) by (auto simp add: number_text_def)
    moreover have "takeWhile (\<lambda>c. c \<in> number_chars) r = []" using that number_chars_delims by (cases r) auto
    ultimately show ?thesis by (simp add: takeWhile_append2)
  qed
  have "num x = num y" using take [OF assms(2)] take [OF assms(3)] assms(4) by metis
  then show ?thesis using assms(1,4) by (auto simp add: number_text_def dest: injD)
qed

text \<open>The first character tells the kind of a value.\<close>

definition kind_of_char :: "char \<Rightarrow> nat" where
  "kind_of_char c = (if c = CHR ''n'' then 0 else if c = CHR ''t'' \<or> c = CHR ''f'' then 1 else if c \<in> number_chars then 2
     else if c = CHR 0x22 then 3 else if c = CHR ''['' then 4 else 5)"

fun kind :: "jsval \<Rightarrow> nat" where
  "kind (JBool b) = 1"
| "kind (JNumber n) = 2"
| "kind (JString s) = 3"
| "kind (JArray xs) = 4"
| "kind (JObject ps) = 5"
| "kind _ = 0"

lemma render_head:
  assumes "number_text num" and "plain v"
  obtains c h where "render num v = c # h" "kind_of_char c = kind v" "c \<notin> delims"
proof (cases v)
  case (JNumber n)
  then obtain x where n: "n = Fin x" using assms(2) by (cases n) auto
  obtain c h where "num x = c # h" "c \<in> number_chars"
  proof (cases "num x")
    case Nil
    then show ?thesis using assms(1) by (simp add: number_text_def)
  next
    case (Cons c h)
    moreover have "set (num x) \<subseteq> number_chars" using assms(1) by (simp add: number_text_def)
    ultimately show ?thesis using that [of c h] by simp
  qed
  moreover from this have "kind_of_char c = 2" by (auto simp add: kind_of_char_def number_chars_def)
  ultimately show ?thesis using that [of c h] JNumber n number_chars_delims by simp
next
  case (JBool b)
  then show ?thesis using that [of "if b then CHR ''t'' else CHR ''f''"] by (cases b) (auto simp add: kind_of_char_def delims_def)
qed (use assms(2) that in \<open>auto simp add: kind_of_char_def number_chars_def delims_def json_string_def split: if_splits\<close>)

lemma join_cons: "js_join sep (x # xs) = x @ concat (map (\<lambda>y. sep @ y) xs)"
  by (induction xs arbitrary: x) auto

text \<open>A list of texts, each of which ends where the next begins.\<close>

lemma tail_delimited: "c \<in> delims \<Longrightarrow> delimited (concat (map (\<lambda>x. CHR '','' # f x) zs) @ c # t)"
  by (cases zs) (auto simp add: delims_def)

lemma tails_prefix_free:
  assumes "\<And>x y r s. x \<in> set xs \<Longrightarrow> y \<in> set ys \<Longrightarrow> delimited r \<Longrightarrow> delimited s \<Longrightarrow> f x @ r = f y @ s \<Longrightarrow> x = y \<and> r = s"
    and "c \<in> delims" and "c \<noteq> CHR '',''"
    and "concat (map (\<lambda>x. CHR '','' # f x) xs) @ c # r = concat (map (\<lambda>y. CHR '','' # f y) ys) @ c # s"
  shows "xs = ys \<and> r = s"
  using assms(1,4)
proof (induction xs arbitrary: ys)
  case Nil
  then show ?case using assms(3) by (cases ys) auto
next
  case (Cons x xs)
  show ?case
  proof (cases ys)
    case Nil
    then show ?thesis using Cons.prems(2) assms(3) by auto
  next
    case (Cons y ys')
    then have "x = y \<and> concat (map (\<lambda>x. CHR '','' # f x) xs) @ c # r = concat (map (\<lambda>y. CHR '','' # f y) ys') @ c # s"
      using Cons.prems by (intro Cons.prems(1)) (auto simp add: tail_delimited [OF assms(2)])
    then show ?thesis using Cons.IH [of ys'] Cons.prems(1) Cons by auto
  qed
qed

lemma joined_prefix_free:
  assumes "\<And>x y r s. x \<in> set xs \<Longrightarrow> y \<in> set ys \<Longrightarrow> delimited r \<Longrightarrow> delimited s \<Longrightarrow> f x @ r = f y @ s \<Longrightarrow> x = y \<and> r = s"
    and head: "\<And>x. x \<in> set xs \<union> set ys \<Longrightarrow> \<exists>a h. f x = a # h \<and> a \<notin> delims"
    and c: "c \<in> delims" "c \<noteq> CHR '',''"
    and eq: "js_join '','' (map f xs) @ c # r = js_join '','' (map f ys) @ c # s"
  shows "xs = ys \<and> r = s"
proof (cases xs)
  case Nil
  then show ?thesis using eq head [of "hd ys"] c(1) by (cases ys) (auto simp add: join_cons)
next
  case xs: (Cons x xs')
  show ?thesis
  proof (cases ys)
    case Nil
    then show ?thesis using eq head [of x] c(1) xs by (auto simp add: join_cons)
  next
    case (Cons y ys')
    then have "f x @ concat (map (\<lambda>x. CHR '','' # f x) xs') @ c # r = f y @ concat (map (\<lambda>y. CHR '','' # f y) ys') @ c # s"
      using eq xs by (simp add: join_cons comp_def)
    then have *: "x = y \<and> concat (map (\<lambda>x. CHR '','' # f x) xs') @ c # r = concat (map (\<lambda>y. CHR '','' # f y) ys') @ c # s"
      using xs Cons by (intro assms(1) tail_delimited c(1)) simp_all
    then have "xs' = ys' \<and> r = s" using assms(1) xs Cons by (intro tails_prefix_free [where f = f, OF _ c]) auto
    then show ?thesis using * xs Cons by simp
  qed
qed

lemma same_kind:
  assumes "number_text num" and "plain u" and "plain v" and "render num u @ r = render num v @ s"
  shows "kind u = kind v"
proof -
  obtain c h where c: "render num u = c # h" "kind_of_char c = kind u" using render_head [OF assms(1,2)] .
  obtain d k where d: "render num v = d # k" "kind_of_char d = kind v" using render_head [OF assms(1,3)] .
  have "c = d" using assms(4) c(1) d(1) by simp
  then show ?thesis using c(2) d(2) by simp
qed

lemma render_prefix_free:
  "number_text num \<Longrightarrow> plain u \<Longrightarrow> plain v \<Longrightarrow> delimited r \<Longrightarrow> delimited s \<Longrightarrow> render num u @ r = render num v @ s \<Longrightarrow> u = v \<and> r = s"
proof (induction num u arbitrary: v r s rule: render.induct)
  case (2 num)
  then have "v = JNull" using same_kind [OF 2(1,2,3,6)] by (cases v) simp_all
  then show ?case using 2 by simp
next
  case (3 num b)
  then obtain b' where "v = JBool b'" using same_kind [OF 3(1,2,3,6)] by (cases v) simp_all
  then show ?case using 3(6) by (auto split: if_splits)
next
  case (4 num n)
  then obtain m where v: "v = JNumber m" using same_kind [OF 4(1,2,3,6)] by (cases v) simp_all
  obtain x y where "n = Fin x" "m = Fin y" using 4(2,3) v by (cases n; cases m) simp_all
  then show ?case using number_prefix_free [OF 4(1,4,5), of x y] 4(6) v by simp
next
  case (5 num t)
  then obtain t' where v: "v = JString t'" using same_kind [OF 5(1,2,3,6)] by (cases v) simp_all
  then show ?case using string_prefix_free [of t r t' s] 5(6) by simp
next
  case (6 num xs)
  obtain ys where v: "v = JArray ys" using same_kind [OF 6(2,3,4,7)] 6(4) by (cases v) simp_all
  have "xs = ys \<and> r = s"
  proof (rule joined_prefix_free [where f = "render num"])
    show "x = y \<and> r' = s'" if "x \<in> set xs" "y \<in> set ys" "delimited r'" "delimited s'" "render num x @ r' = render num y @ s'" for x y r' s'
      using 6(1) [OF that(1) 6(2) _ _ that(3-5)] 6(3,4) v that(1,2) by simp
    show "\<exists>a h. render num x = a # h \<and> a \<notin> delims" if "x \<in> set xs \<union> set ys" for x
    proof -
      have "plain x" using that 6(3,4) v by auto
      then show ?thesis by (rule render_head [OF 6(2)]) blast
    qed
    show "CHR '']'' \<in> delims" "CHR '']'' \<noteq> CHR '',''" by (simp_all add: delims_def)
    show "js_join '','' (map (render num) xs) @ CHR '']'' # r = js_join '','' (map (render num) ys) @ CHR '']'' # s" using 6(7) v by simp
  qed
  then show ?case using v by simp
next
  case (7 num ps)
  let ?f = "\<lambda>(k, v). json_string k @ CHR '':'' # render num v"
  obtain qs where v: "v = JObject qs" using same_kind [OF 7(2,3,4,7)] 7(4) by (cases v) simp_all
  have "ps = qs \<and> r = s"
  proof (rule joined_prefix_free [where f = ?f])
    show "x = y \<and> r' = s'" if xy: "x \<in> set ps" "y \<in> set qs" "delimited r'" "delimited s'" "?f x @ r' = ?f y @ s'" for x y r' s'
    proof -
      obtain k a l b where p: "x = (k, a)" "y = (l, b)" by (cases x, cases y)
      then have "json_string k @ CHR '':'' # render num a @ r' = json_string l @ CHR '':'' # render num b @ s'" using xy(5) by simp
      then have kl: "k = l" and ab: "render num a @ r' = render num b @ s'" using string_prefix_free by blast+
      have "plain a" "plain b" using 7(3,4) v xy(1,2) p by auto
      from 7(1) [OF xy(1) p(1) [symmetric] 7(2) this xy(3,4) ab] show ?thesis using kl p by blast
    qed
    show "\<exists>a h. ?f x = a # h \<and> a \<notin> delims" for x by (cases x) (simp add: json_string_def delims_def)
    show "CHR 0x7D \<in> delims" "CHR 0x7D \<noteq> CHR '',''" by (simp_all add: delims_def)
    show "js_join '','' (map ?f ps) @ CHR 0x7D # r = js_join '','' (map ?f qs) @ CHR 0x7D # s" using 7(7) v by simp
  qed
  then show ?case using v by simp
qed simp

lemma render_inj: "number_text num \<Longrightarrow> plain u \<Longrightarrow> plain v \<Longrightarrow> render num u = render num v \<longleftrightarrow> u = v"
  using render_prefix_free [of num u v "[]" "[]"] by (auto simp add: delimited_def)

lemma canonicalJson_inj: "number_text num \<Longrightarrow> canonicalJson num a = canonicalJson num b \<longleftrightarrow> audit_norm a = audit_norm b"
  unfolding canonicalJson_render by (rule render_inj [OF _ audit_norm_plain audit_norm_plain])

text \<open>The order in which the keys of an object were set does not matter.\<close>

lemma js_sort_by_name: "js_sort by_name ps = sort_key fst ps"
proof (induction ps)
  case (Cons p ps)
  have "js_insert by_name p qs = insort_key fst p qs" for qs
    by (induction qs) (auto simp add: by_name_def code_point_order_def)
  then show ?case using Cons by simp
qed simp

lemma key_order_irrelevant:
  assumes "distinct (map fst ps)" and "mset qs = mset ps"
  shows "canonicalJson num (JObject qs) = canonicalJson num (JObject ps)" "signing_text num (JObject qs) = signing_text num (JObject ps)"
proof -
  have "inj_on fst (set qs)" using assms by (metis distinct_map set_mset_mset)
  then have "js_sort by_name qs = js_sort by_name ps"
    unfolding js_sort_by_name by (rule sort_key_inj_key_eq [rotated]) (simp_all add: assms(2))
  then show "canonicalJson num (JObject qs) = canonicalJson num (JObject ps)" "signing_text num (JObject qs) = signing_text num (JObject ps)" by simp_all
qed

text \<open>
  (C21) Canonical texts are faithful: in the version of the audit chain two values have the same text exactly if their normal forms are the
  same, that is, if they differ only in the order of their keys and in what this version writes alike, \<open>null\<close>, \<open>undefined\<close> and numbers that are not
  finite. In the version of signed artifacts the same holds, with absent keys and \<open>undefined\<close> ones written alike, for values whose arrays have no
  \<open>undefined\<close> item.
\<close>

theorem canonical_json_faithful:
  assumes "number_text num"
  shows "(canonicalJson num a = canonicalJson num b \<longleftrightarrow> audit_norm a = audit_norm b)
    \<and> (items_defined a \<and> items_defined b \<longrightarrow>
        (signing_canonicalJson num a = signing_canonicalJson num b \<longleftrightarrow> signing_norm a = signing_norm b))"
proof (intro conjI impI)
  show "canonicalJson num a = canonicalJson num b \<longleftrightarrow> audit_norm a = audit_norm b"
    by (rule canonicalJson_inj [OF assms(1)])
  assume d: "items_defined a \<and> items_defined b"
  show "signing_canonicalJson num a = signing_canonicalJson num b \<longleftrightarrow> signing_norm a = signing_norm b"
  proof (cases "a = JUndefined \<or> b = JUndefined")
    case True
    then show ?thesis using signing_norm_plain [of a] signing_norm_plain [of b] d
      by (auto simp add: signing_canonicalJson_def)
  next
    case False
    then show ?thesis unfolding signing_canonicalJson_def signing_text_render
      using render_inj [OF assms(1) signing_norm_plain signing_norm_plain] d by simp
  qed
qed

text \<open>As the item of an array, \<open>undefined\<close> disappears from a signed text.\<close>

lemma signing_text_drops_item: "signing_canonicalJson num (JArray [JUndefined]) = signing_canonicalJson num (JArray [])"
  by (simp add: signing_canonicalJson_def)

text \<open>A text of numbers to instantiate the parameter with: numerator and denominator.\<close>

definition demo_num :: "rat \<Rightarrow> string" where
  "demo_num x = to_dec (fst (quotient_of x)) @ ''e'' @ to_dec (snd (quotient_of x))"

definition dec_value :: "string \<Rightarrow> nat" where
  "dec_value s = foldl (\<lambda>a c. 10 * a + (of_char c - 48)) 0 s"

lemma dec_value_nat: "dec_value (to_dec_nat n) = n"
proof (induction n rule: to_dec_nat.induct)
  case (1 n)
  then show ?case by (cases "n < 10") (simp_all add: to_dec_nat.simps [of n] dec_value_def)
qed

lemma dec_chars: "set (to_dec_nat n) \<subseteq> set ''0123456789'' \<and> to_dec_nat n \<noteq> []"
proof (induction n rule: to_dec_nat.induct)
  case (1 n)
  have d: "char_of (48 + k) \<in> set ''0123456789''" if "k < 10" for k :: nat
  proof -
    have "k \<in> {0, 1, 2, 3, 4, 5, 6, 7, 8, 9}" using that by auto
    then have "(of_char (char_of (48 + k) :: char) :: nat) \<in> (of_char :: char \<Rightarrow> nat) ` set ''0123456789''" by (elim insertE) simp_all
    then show ?thesis unfolding image_iff of_char_eq_iff by blast
  qed
  show ?case using 1 d [of n] d [of "n mod 10"] by (cases "n < 10") (auto simp add: to_dec_nat.simps [of n])
qed

lemma to_dec_chars: "set (to_dec n) \<subseteq> set ''-0123456789'' \<and> to_dec n \<noteq> []"
proof -
  have "set (to_dec_nat k) \<subseteq> set ''-0123456789''" for k using dec_chars [of k] by (rule order_trans [OF conjunct1]) auto
  then show ?thesis using dec_chars [of "nat n"] by (simp add: to_dec_def)
qed

lemma to_dec_inj: "to_dec m = to_dec n \<Longrightarrow> m = n"
proof -
  assume eq: "to_dec m = to_dec n"
  have sign: "hd (to_dec k) = CHR ''-'' \<longleftrightarrow> k < 0" for k
  proof -
    have "hd (to_dec_nat (nat k)) \<in> set ''0123456789''" using dec_chars [of "nat k"] hd_in_set by blast
    then have "hd (to_dec_nat (nat k)) \<noteq> CHR ''-''" by auto
    then show ?thesis by (simp add: to_dec_def)
  qed
  have inj: "to_dec_nat i = to_dec_nat j \<Longrightarrow> i = j" for i j by (metis dec_value_nat)
  have "m < 0 \<longleftrightarrow> n < 0" using sign [of m] sign [of n] eq by simp
  then show ?thesis
  proof (cases "m < 0")
    case True
    then show ?thesis using eq \<open>m < 0 \<longleftrightarrow> n < 0\<close> inj [of "nat (- m)" "nat (- n)"] by (simp add: to_dec_def)
  next
    case False
    then show ?thesis using eq \<open>m < 0 \<longleftrightarrow> n < 0\<close> inj [of "nat m" "nat n"] by (simp add: to_dec_def)
  qed
qed

lemma demo_num_ok: "number_text demo_num"
proof -
  have no_e: "CHR ''e'' \<notin> set (to_dec k)" for k using to_dec_chars [of k] by auto
  have cut: "takeWhile (\<lambda>c. c \<noteq> CHR ''e'') (to_dec k @ CHR ''e'' # z) = to_dec k" for k z
    using no_e [of k] by (simp add: takeWhile_append)
  have "x = y" if "demo_num x = demo_num y" for x y
  proof -
    have eq: "to_dec (fst (quotient_of x)) @ CHR ''e'' # to_dec (snd (quotient_of x)) = to_dec (fst (quotient_of y)) @ CHR ''e'' # to_dec (snd (quotient_of y))"
      using that by (simp add: demo_num_def)
    then have "to_dec (fst (quotient_of x)) = to_dec (fst (quotient_of y))" by (metis cut)
    then have "fst (quotient_of x) = fst (quotient_of y) \<and> snd (quotient_of x) = snd (quotient_of y)" using eq to_dec_inj by auto
    then show ?thesis by (metis prod_eqI quotient_of_inject)
  qed
  moreover have "set (demo_num x) \<subseteq> number_chars" for x
  proof -
    have "set ''-0123456789'' \<subseteq> number_chars" by (simp add: number_chars_def)
    then have "set (to_dec k) \<subseteq> number_chars" for k using to_dec_chars [of k] by (blast intro: order_trans)
    moreover have "CHR ''e'' \<in> number_chars" by (simp add: number_chars_def)
    ultimately show ?thesis by (simp add: demo_num_def)
  qed
  moreover have "demo_num x \<noteq> []" for x by (simp add: demo_num_def)
  ultimately show ?thesis unfolding number_text_def inj_def by blast
qed

lemma canonical_json_faithful_witness:
  "canonicalJson demo_num (JArray [JString ''a'', JString ''b'']) \<noteq> canonicalJson demo_num (JArray [JString ''a'', JString ''b'', JNull])
   \<and> signing_canonicalJson demo_num (JObject [(''b'', JNull), (''a'', JUndefined)]) \<noteq> signing_canonicalJson demo_num (JObject [])"
  using canonical_json_faithful [OF demo_num_ok, of "JArray [JString ''a'', JString ''b'']" "JArray [JString ''a'', JString ''b'', JNull]"]
    canonical_json_faithful [OF demo_num_ok, of "JObject [(''b'', JNull), (''a'', JUndefined)]" "JObject []"]
  by (simp add: by_name_def code_point_order_def)

end
