(* ===== verification/AuditChain.thy ===== *)
theory AuditChain
  imports CanonicalJson
begin

text \<open>
  The hash chain of the audit log, \<open>packages/policy/src/audit-chain.ts\<close>, with its in-memory store. SHA-256 is a parameter, a list of bytes for each text, as is the
  text of a number; the texts that are hashed are those of \<open>CanonicalJson\<close>.
\<close>

subsection \<open>Entries and the store\<close>

definition GENESIS_HASH :: string where
  "GENESIS_HASH = ''genesis''"

record audit_draft =
  ae_entry_id :: string
  ae_timestamp :: rat
  ae_event_type :: string
  ae_actor_id :: string
  ae_data :: "(string \<times> jsval) list"

record audit_entry = audit_draft +
  ae_previous_hash :: string
  ae_hash :: string

type_synonym chain_store = "audit_entry list"

definition chain_append :: "audit_entry \<Rightarrow> chain_store \<Rightarrow> chain_store" where
  "chain_append entry store = store @ [entry]"

text \<open>\<open>slice(start, end)\<close> with indices that count from the end when negative.\<close>

definition slice_index :: "nat \<Rightarrow> int \<Rightarrow> nat" where
  "slice_index n i = (if i < 0 then nat (int n + i) else min (nat i) n)"

definition getEntries :: "int option \<Rightarrow> int option \<Rightarrow> chain_store \<Rightarrow> audit_entry list" where
  "getEntries frm til store =
     (let start = slice_index (length store) (case frm of Some i \<Rightarrow> i | None \<Rightarrow> 0);
          stop = slice_index (length store) (case til of Some i \<Rightarrow> i | None \<Rightarrow> int (length store))
      in take (stop - start) (drop start store))"

definition getHead :: "chain_store \<Rightarrow> audit_entry option" where
  "getHead store = (if length store = 0 then None else Some (store ! (length store - 1)))"

definition chain_count :: "chain_store \<Rightarrow> nat" where
  "chain_count store = length store"

subsection \<open>Appending and verifying\<close>

definition hash_input :: "(rat \<Rightarrow> string) \<Rightarrow> string \<Rightarrow> 'a audit_draft_scheme \<Rightarrow> string" where
  "hash_input num previousHash entry =
     canonicalJson num (JObject [(''previous_hash'', JString previousHash), (''entry_id'', JString (ae_entry_id entry)),
       (''timestamp'', JNumber (Fin (ae_timestamp entry))), (''event_type'', JString (ae_event_type entry)),
       (''actor_id'', JString (ae_actor_id entry)), (''data'', JObject (ae_data entry))])"

text \<open>The digest in hexadecimal, from the bytes of SHA-256; the functions below take the whole of it as \<open>sha\<close>.\<close>

definition sha256hex :: "(string \<Rightarrow> nat list) \<Rightarrow> string \<Rightarrow> string" where
  "sha256hex digest text = concat (map (\<lambda>b. pad_start 2 CHR ''0'' (to_hex b)) (digest text))"

definition computeEntryHash :: "(rat \<Rightarrow> string) \<Rightarrow> (string \<Rightarrow> string) \<Rightarrow> string \<Rightarrow> 'a audit_draft_scheme \<Rightarrow> string" where
  "computeEntryHash num sha previousHash entry = sha (hash_input num previousHash entry)"

definition getChainHead :: "chain_store \<Rightarrow> string" where
  "getChainHead store = (case getHead store of Some e \<Rightarrow> ae_hash e | None \<Rightarrow> GENESIS_HASH)"

definition appendAuditEntry :: "(rat \<Rightarrow> string) \<Rightarrow> (string \<Rightarrow> string) \<Rightarrow> chain_store \<Rightarrow> audit_draft \<Rightarrow> (audit_entry \<times> chain_store) result" where
  "appendAuditEntry num sha store entry =
     (if ae_entry_id entry = [] then throw (JsError ''entry_id must not be empty'')
      else
        (let previousHash = (case getHead store of Some h \<Rightarrow> ae_hash h | None \<Rightarrow> GENESIS_HASH);
             full = audit_draft.extend entry (audit_entry.fields previousHash (computeEntryHash num sha previousHash entry))
         in ok (full, chain_append full store)))"

datatype chain_verdict = ChainValid | BrokenAt int

text \<open>The loop of \<open>verifyAuditChain\<close>: \<open>expected\<close> is the hash the next entry has to refer to, \<open>None\<close> where the first entry of a range is trusted.\<close>

fun verify_loop :: "(rat \<Rightarrow> string) \<Rightarrow> (string \<Rightarrow> string) \<Rightarrow> string option \<Rightarrow> int \<Rightarrow> audit_entry list \<Rightarrow> chain_verdict" where
  "verify_loop num sha expected i [] = ChainValid"
| "verify_loop num sha expected i (entry # entries) =
     (if (case expected of Some h \<Rightarrow> ae_previous_hash entry \<noteq> h | None \<Rightarrow> False) then BrokenAt i
      else if ae_hash entry \<noteq> computeEntryHash num sha (ae_previous_hash entry) entry then BrokenAt i
      else verify_loop num sha (Some (ae_hash entry)) (i + 1) entries)"

definition verifyAuditChain :: "(rat \<Rightarrow> string) \<Rightarrow> (string \<Rightarrow> string) \<Rightarrow> int option \<Rightarrow> int option \<Rightarrow> chain_store \<Rightarrow> chain_verdict" where
  "verifyAuditChain num sha fromEntry toEntry store =
     (let startIndex = (case fromEntry of Some i \<Rightarrow> i | None \<Rightarrow> 0)
      in verify_loop num sha (if startIndex = 0 then Some GENESIS_HASH else None) startIndex (getEntries fromEntry toEntry store))"

subsection \<open>Chains that verify\<close>

fun linked :: "(rat \<Rightarrow> string) \<Rightarrow> (string \<Rightarrow> string) \<Rightarrow> string \<Rightarrow> audit_entry list \<Rightarrow> bool" where
  "linked num sha h [] = True"
| "linked num sha h (e # es) \<longleftrightarrow> ae_previous_hash e = h \<and> ae_hash e = sha (hash_input num h e) \<and> linked num sha (ae_hash e) es"

lemma verify_linked: "verify_loop num sha (Some h) i es = ChainValid \<longleftrightarrow> linked num sha h es"
  by (induction es arbitrary: h i) (auto simp add: computeEntryHash_def)

definition last_hash :: "string \<Rightarrow> audit_entry list \<Rightarrow> string" where
  "last_hash h es = (if es = [] then h else ae_hash (last es))"

lemma last_hash_simps [simp]: "last_hash h [] = h" "last_hash h (e # es) = last_hash (ae_hash e) es" "last_hash h (es @ [e]) = ae_hash e"
  by (simp_all add: last_hash_def)

lemma linked_append: "linked num sha h (xs @ ys) \<longleftrightarrow> linked num sha h xs \<and> linked num sha (last_hash h xs) ys"
  by (induction xs arbitrary: h) auto

lemma getChainHead_last: "getChainHead store = last_hash GENESIS_HASH store"
  by (simp add: getChainHead_def getHead_def last_hash_def last_conv_nth)

lemma whole_chain: "getEntries None None store = store"
  by (simp add: getEntries_def slice_index_def Let_def)

lemma verify_whole: "verifyAuditChain num sha None None store = ChainValid \<longleftrightarrow> linked num sha GENESIS_HASH store"
  by (simp add: verifyAuditChain_def whole_chain verify_linked)

fun append_all :: "(rat \<Rightarrow> string) \<Rightarrow> (string \<Rightarrow> string) \<Rightarrow> audit_draft list \<Rightarrow> chain_store \<Rightarrow> chain_store" where
  "append_all num sha [] store = store"
| "append_all num sha (d # ds) store =
     append_all num sha ds (case appendAuditEntry num sha store d of Inl _ \<Rightarrow> store | Inr (_, store') \<Rightarrow> store')"

lemma append_linked:
  assumes "linked num sha GENESIS_HASH store"
  shows "linked num sha GENESIS_HASH (case appendAuditEntry num sha store d of Inl _ \<Rightarrow> store | Inr (_, store') \<Rightarrow> store')"
proof (cases "ae_entry_id d = []")
  case True
  then show ?thesis using assms by (simp add: appendAuditEntry_def)
next
  case False
  let ?h = "getChainHead store"
  let ?full = "audit_draft.extend d (audit_entry.fields ?h (computeEntryHash num sha ?h d))"
  have "appendAuditEntry num sha store d = ok (?full, store @ [?full])"
    using False by (simp add: appendAuditEntry_def chain_append_def getChainHead_def Let_def)
  moreover have "linked num sha (last_hash GENESIS_HASH store) [?full]"
    by (simp add: audit_draft.defs audit_entry.defs computeEntryHash_def hash_input_def getChainHead_last)
  ultimately show ?thesis using assms by (simp add: linked_append)
qed

text \<open>
  Appending keeps the chain verifiable: whatever is appended to an empty store, with refused drafts among it, the whole
  chain verifies, and so does every range of it.
\<close>

theorem appended_chain_verifies:
  "verifyAuditChain num sha None None (append_all num sha drafts []) = ChainValid
   \<and> (0 \<le> i \<longrightarrow> 0 \<le> j \<longrightarrow> verifyAuditChain num sha (Some i) (Some j) (append_all num sha drafts []) = ChainValid)"
proof -
  have l: "linked num sha GENESIS_HASH (append_all num sha drafts store)" if "linked num sha GENESIS_HASH store" for store
    using that by (induction drafts arbitrary: store) (simp_all add: append_linked)
  let ?s = "append_all num sha drafts []"
  have range: "verifyAuditChain num sha (Some i) (Some j) ?s = ChainValid" if "0 \<le> i" "0 \<le> j"
  proof -
    let ?a = "min (nat i) (length ?s)" and ?n = "min (nat j) (length ?s) - min (nat i) (length ?s)"
    have e: "getEntries (Some i) (Some j) ?s = take ?n (drop ?a ?s)" using that by (simp add: getEntries_def slice_index_def Let_def)
    have "linked num sha GENESIS_HASH ?s" using l by simp
    then have "linked num sha GENESIS_HASH (take ?a ?s @ take ?n (drop ?a ?s) @ drop ?n (drop ?a ?s))" unfolding append_take_drop_id .
    then have m: "linked num sha (last_hash GENESIS_HASH (take ?a ?s)) (take ?n (drop ?a ?s))" by (simp add: linked_append)
    show ?thesis
    proof (cases "i = 0")
      case True
      then show ?thesis using m unfolding verifyAuditChain_def e by (simp add: verify_linked)
    next
      case False
      then show ?thesis using m unfolding verifyAuditChain_def e by (cases "take ?n (drop ?a ?s)") (auto simp add: verify_linked computeEntryHash_def simp del: take_eq_Nil)
    qed
  qed
  show ?thesis using l [of "[]"] range by (auto simp add: verify_whole)
qed

definition demo_draft :: "string \<Rightarrow> audit_draft" where
  "demo_draft i = \<lparr> ae_entry_id = i, ae_timestamp = 0, ae_event_type = ''tool_call'', ae_actor_id = ''m'', ae_data = [] \<rparr>"

lemma appended_chain_verifies_witness:
  "verifyAuditChain demo_num (\<lambda>t. ''x'' @ t) (Some 1) (Some 2) (append_all demo_num (\<lambda>t. ''x'' @ t) [demo_draft ''a'', demo_draft ''b''] []) = ChainValid"
  using appended_chain_verifies [of demo_num "\<lambda>t. ''x'' @ t" "[demo_draft ''a'', demo_draft ''b'']" 1 2] by simp

subsection \<open>Tamper evidence\<close>

text \<open>What a chain commits to: every field of every entry, the data up to its canonical form.\<close>

definition content :: "audit_entry \<Rightarrow> string \<times> string \<times> rat \<times> string \<times> string \<times> jsval \<times> string" where
  "content e = (ae_previous_hash e, ae_entry_id e, ae_timestamp e, ae_event_type e, ae_actor_id e, audit_norm (JObject (ae_data e)), ae_hash e)"

definition hashed :: "(rat \<Rightarrow> string) \<Rightarrow> chain_store \<Rightarrow> string set" where
  "hashed num store = (\<lambda>e. hash_input num (ae_previous_hash e) e) ` set store"

lemma hash_input_inj:
  assumes "number_text num" and "hash_input num p d = hash_input num q e"
  shows "p = q \<and> ae_entry_id d = ae_entry_id e \<and> ae_timestamp d = ae_timestamp e \<and> ae_event_type d = ae_event_type e
    \<and> ae_actor_id d = ae_actor_id e \<and> audit_norm (JObject (ae_data d)) = audit_norm (JObject (ae_data e))"
  using assms(2) unfolding hash_input_def canonicalJson_inj [OF assms(1)] by (simp add: by_name_def code_point_order_def)

lemma same_head:
  assumes num: "number_text num" and sha: "\<And>t. sha t \<noteq> GENESIS_HASH"
  shows "linked num sha GENESIS_HASH xs \<Longrightarrow> linked num sha GENESIS_HASH ys \<Longrightarrow> last_hash GENESIS_HASH xs = last_hash GENESIS_HASH ys
    \<Longrightarrow> map content xs = map content ys \<or> (\<exists>t \<in> hashed num xs. \<exists>u \<in> hashed num ys. t \<noteq> u \<and> sha t = sha u)"
proof (induction xs arbitrary: ys rule: rev_induct)
  case Nil
  then show ?case using sha [THEN not_sym] by (cases ys rule: rev_cases) (auto simp add: linked_append)
next
  case (snoc e xs)
  obtain f zs where ys: "ys = zs @ [f]"
    using snoc.prems sha sha [THEN not_sym] by (cases ys rule: rev_cases) (auto simp add: linked_append)
  have e: "linked num sha GENESIS_HASH xs" "ae_previous_hash e = last_hash GENESIS_HASH xs" "ae_hash e = sha (hash_input num (ae_previous_hash e) e)"
    and f: "linked num sha GENESIS_HASH zs" "ae_previous_hash f = last_hash GENESIS_HASH zs" "ae_hash f = sha (hash_input num (ae_previous_hash f) f)"
    and h: "ae_hash e = ae_hash f"
    using snoc.prems ys by (auto simp add: linked_append)
  show ?case
  proof (cases "hash_input num (ae_previous_hash e) e = hash_input num (ae_previous_hash f) f")
    case True
    note same = hash_input_inj [OF num True]
    have "map content xs = map content zs \<or> (\<exists>t \<in> hashed num xs. \<exists>u \<in> hashed num zs. t \<noteq> u \<and> sha t = sha u)"
      using snoc.IH [OF e(1) f(1)] same e(2) f(2) by simp
    moreover have "content e = content f" using same h by (simp add: content_def)
    ultimately show ?thesis unfolding ys by (auto simp add: hashed_def)
  next
    case False
    then show ?thesis using e(3) f(3) h by (auto simp add: ys hashed_def)
  qed
qed

text \<open>What SHA-256 promises of its form: 32 bytes.\<close>

definition sha256_form :: "(string \<Rightarrow> nat list) \<Rightarrow> bool" where
  "sha256_form digest \<longleftrightarrow> (\<forall>t. length (digest t) = 32 \<and> (\<forall>b \<in> set (digest t). b < 256))"

lemma hex_byte: "b < 256 \<Longrightarrow> length (pad_start 2 CHR ''0'' (to_hex b)) = 2"
proof (cases "b < 16")
  case True
  then show ?thesis by (subst to_hex.simps) (simp add: pad_start_def)
next
  case False
  moreover assume "b < 256"
  ultimately have "to_hex b = hex_digit (b div 16) # [hex_digit (b mod 16)]"
    by (subst to_hex.simps, subst to_hex.simps) auto
  then show ?thesis by (simp add: pad_start_def)
qed

lemma concat_pairs:
  "(\<And>x. x \<in> set xs \<union> set ys \<Longrightarrow> length (f x) = 2) \<Longrightarrow> length xs = length ys \<Longrightarrow> concat (map f xs) = concat (map f ys) \<Longrightarrow> map f xs = map f ys"
  by (induction xs ys rule: list_induct2') auto

lemma sha256hex_length: "sha256_form digest \<Longrightarrow> length (sha256hex digest t) = 64"
proof -
  assume "sha256_form digest"
  then have "\<forall>b \<in> set (digest t). b < 256" "length (digest t) = 32" by (simp_all add: sha256_form_def)
  moreover have "\<forall>b \<in> set bs. b < 256 \<Longrightarrow> length (concat (map (\<lambda>b. pad_start 2 CHR ''0'' (to_hex b)) bs)) = 2 * length bs" for bs
    by (induction bs) (simp_all add: hex_byte)
  ultimately show ?thesis by (simp add: sha256hex_def)
qed

lemma sha256hex_eq: "sha256_form digest \<Longrightarrow> sha256hex digest t = sha256hex digest u \<Longrightarrow> digest t = digest u"
proof -
  assume form: "sha256_form digest" and eq: "sha256hex digest t = sha256hex digest u"
  have "map (\<lambda>b. pad_start 2 CHR ''0'' (to_hex b)) (digest t) = map (\<lambda>b. pad_start 2 CHR ''0'' (to_hex b)) (digest u)"
    using eq form by (intro concat_pairs) (auto simp add: sha256hex_def sha256_form_def hex_byte)
  moreover have "inj (\<lambda>b. pad_start 2 CHR ''0'' (to_hex b))" by (rule injI) (simp add: padded_hex_inj)
  ultimately show ?thesis by (simp add: inj_map_eq_map)
qed

text \<open>
  (C7) The head hash commits to the whole trail: two chains that both verify and have the same head have as many entries and agree, entry by entry, in
  the hashes, the id, the time, the type and the actor, and in the data up to their canonical form (key order, and the values the canonical text
  writes alike); or two different texts that were hashed along them have the same SHA-256. Of SHA-256 only the form of a digest is relied on, 32 bytes.
\<close>

theorem chain_head_commits:
  assumes "number_text num" and "sha256_form digest"
    and "verifyAuditChain num (sha256hex digest) None None xs = ChainValid" and "verifyAuditChain num (sha256hex digest) None None ys = ChainValid"
    and "getChainHead xs = getChainHead ys"
  shows "map content xs = map content ys \<or> (\<exists>t \<in> hashed num xs. \<exists>u \<in> hashed num ys. t \<noteq> u \<and> digest t = digest u)"
proof -
  have "sha256hex digest t \<noteq> GENESIS_HASH" for t
  proof
    assume "sha256hex digest t = GENESIS_HASH"
    then have "length GENESIS_HASH = 64" using sha256hex_length [OF assms(2), of t] by simp
    then show False by (simp add: GENESIS_HASH_def)
  qed
  then have "map content xs = map content ys \<or> (\<exists>t \<in> hashed num xs. \<exists>u \<in> hashed num ys. t \<noteq> u \<and> sha256hex digest t = sha256hex digest u)"
    using same_head [OF assms(1)] assms(3-) by (simp add: verify_whole getChainHead_last)
  then show ?thesis using sha256hex_eq [OF assms(2)] by blast
qed

text \<open>A digest that is the same for all texts makes the two cases visible: the chains of two different entries have the same head, and a collision shows.\<close>

definition demo_digest :: "string \<Rightarrow> nat list" where
  "demo_digest t = replicate 32 0"

definition demo_chain :: "string \<Rightarrow> chain_store" where
  "demo_chain i = append_all demo_num (sha256hex demo_digest) [demo_draft i] []"

lemma demo_chain_facts:
  "verifyAuditChain demo_num (sha256hex demo_digest) None None (demo_chain i) = ChainValid"
  "i \<noteq> [] \<Longrightarrow> getChainHead (demo_chain i) = sha256hex demo_digest []" "i \<noteq> [] \<Longrightarrow> map ae_entry_id (demo_chain i) = [i]"
proof -
  show "verifyAuditChain demo_num (sha256hex demo_digest) None None (demo_chain i) = ChainValid"
    unfolding demo_chain_def using append_linked [of demo_num "sha256hex demo_digest" "[]" "demo_draft i"] by (simp add: verify_whole)
  show "i \<noteq> [] \<Longrightarrow> getChainHead (demo_chain i) = sha256hex demo_digest []" "i \<noteq> [] \<Longrightarrow> map ae_entry_id (demo_chain i) = [i]"
    by (simp_all add: demo_chain_def appendAuditEntry_def demo_draft_def getHead_def chain_append_def getChainHead_def audit_draft.defs audit_entry.defs
        computeEntryHash_def sha256hex_def demo_digest_def Let_def)
qed

lemma chain_head_commits_witness:
  "getChainHead (demo_chain ''a'') = getChainHead (demo_chain ''b'') \<and> map content (demo_chain ''a'') \<noteq> map content (demo_chain ''b'')
   \<and> (\<exists>t \<in> hashed demo_num (demo_chain ''a''). \<exists>u \<in> hashed demo_num (demo_chain ''b''). t \<noteq> u \<and> demo_digest t = demo_digest u)"
proof -
  have form: "sha256_form demo_digest" by (simp add: sha256_form_def demo_digest_def)
  have head: "getChainHead (demo_chain ''a'') = getChainHead (demo_chain ''b'')" by (simp add: demo_chain_facts)
  have "map content (demo_chain ''a'') \<noteq> map content (demo_chain ''b'')"
    using demo_chain_facts(3) [of "''a''"] demo_chain_facts(3) [of "''b''"] by (auto simp add: content_def)
  then show ?thesis using head chain_head_commits [OF demo_num_ok form demo_chain_facts(1) demo_chain_facts(1) head] by blast
qed

end
