(* ===== verification/RelaySeq.thy ===== *)
theory RelaySeq
  imports Complex_Main EventLog
begin

text \<open>
  The relay's ingest sequence, \<open>services/relay/src/event-seq.ts\<close>: the number the relay stamps on every stored event of an
  identity (the triggers and the backfill of migration 46 in \<open>migrations.ts\<close>), the page a device pulls after a cursor, and
  the redaction of what is served (\<open>redaction.ts\<close>). The tables are lists of rows in rowid order; a payload is the parsed
  JSON object (it is stored as its text and parsed back). A run of the relay is any sequence of inserts and deletes.
  The interface \<open>seq_stream\<close> says what a transport cursor needs of the relay; it is interpreted on these definitions.
\<close>

subsection \<open>Redaction of what the relay serves\<close>

definition SYNC_SAFE_SENSITIVITY :: "js_value list" where
  "SYNC_SAFE_SENSITIVITY = [JStr ''none'', JStr ''personal'']"

definition js_in :: "string \<Rightarrow> payload \<Rightarrow> bool" where
  \<comment> \<open>\<open>key in payload\<close>, for the keys the source asks about\<close>
  "js_in k p \<longleftrightarrow> jsm_has p k"

definition is_true :: "payload \<Rightarrow> string \<Rightarrow> bool" where
  "is_true p k \<longleftrightarrow> jsm_get p k = Some (JBool True)"

definition nullish_or :: "js_value option \<Rightarrow> js_value \<Rightarrow> js_value" where
  \<comment> \<open>\<open>v ?? d\<close>\<close>
  "nullish_or v d = (case v of None \<Rightarrow> d | Some JNull \<Rightarrow> d | Some x \<Rightarrow> x)"

definition redactMemoryFormedPayload :: "payload \<Rightarrow> payload option" where
  "redactMemoryFormedPayload p =
     (if is_true p ''_encrypted'' then None
      else if is_true p ''redacted'' then None
      else (let sensitivity = nullish_or (jsm_get p ''sensitivity'') (JStr ''none'')
            in if sensitivity \<in> set SYNC_SAFE_SENSITIVITY then None
               else Some (jsm_set ''redacted_sensitivity'' sensitivity
                      (jsm_set ''redacted'' (JBool True) (jsm_set ''content'' (JStr ''[REDACTED]'') p)))))"

definition stripConsolidationManifest :: "payload \<Rightarrow> payload option" where
  "stripConsolidationManifest p =
     (if \<not> js_in ''mutation_manifest'' p then None else Some (jsm_delete ''mutation_manifest'' p))"

definition redactMemoryAuditPayload :: "payload \<Rightarrow> payload option" where
  "redactMemoryAuditPayload p =
     (if is_true p ''_encrypted'' then None
      else if is_true p ''redacted'' then None
      else if \<not> js_in ''turn_message'' p \<and> \<not> js_in ''missed_patterns'' p then None
      else Some (jsm_set ''redacted'' (JBool True) (jsm_delete ''missed_patterns'' (jsm_delete ''turn_message'' p))))"

definition redactMemoryConsolidatedPayload :: "payload \<Rightarrow> payload option" where
  "redactMemoryConsolidatedPayload p =
     (if is_true p ''_encrypted'' then None
      else if is_true p ''redacted'' then None
      else if \<not> js_in ''reason'' p then None
      else Some (jsm_set ''redacted'' (JBool True) (jsm_set ''reason'' (JStr ''[REDACTED]'') p)))"

definition with_payload :: "event_entry \<Rightarrow> payload option \<Rightarrow> event_entry" where
  \<comment> \<open>\<open>redacted ? { ...e, payload: redacted } : e\<close>\<close>
  "with_payload e r = (case r of None \<Rightarrow> e | Some p \<Rightarrow> e\<lparr>ev_payload := Some p\<rparr>)"

definition redact_event :: "event_entry \<Rightarrow> event_entry" where
  "redact_event e =
     (case ev_payload e of None \<Rightarrow> e
      | Some p \<Rightarrow>
          (if ev_event_type e = ''memory_formed'' then with_payload e (redactMemoryFormedPayload p)
           else if ev_event_type e = ''consolidation_receipt_signed'' then with_payload e (stripConsolidationManifest p)
           else if ev_event_type e = ''memory_audit'' then with_payload e (redactMemoryAuditPayload p)
           else if ev_event_type e = ''memory_consolidated'' then with_payload e (redactMemoryConsolidatedPayload p)
           else e))"

definition redactSensitiveEvents :: "event_entry list \<Rightarrow> event_entry list" where
  "redactSensitiveEvents es = map redact_event es"

lemma with_payload_keeps [simp]:
  "ev_event_id (with_payload e r) = ev_event_id e" "ev_motebit_id (with_payload e r) = ev_motebit_id e"
  "ev_version_clock (with_payload e r) = ev_version_clock e" "ev_event_type (with_payload e r) = ev_event_type e"
  by (simp_all add: with_payload_def split: option.splits)

lemma redact_event_keeps [simp]:
  "ev_event_id (redact_event e) = ev_event_id e" "ev_motebit_id (redact_event e) = ev_motebit_id e"
  "ev_version_clock (redact_event e) = ev_version_clock e" "ev_event_type (redact_event e) = ev_event_type e"
  by (simp_all add: redact_event_def split: option.splits)

subsection \<open>The tables and their triggers\<close>

record seq_row =
  sr_motebit_id :: string
  sr_seq :: int
  sr_event_id :: string

record node_row =
  nd_node_id :: string
  nd_motebit_id :: string
  nd_tombstoned :: bool

record relay_log =
  rl_events :: "event_entry list"
  rl_seq :: "seq_row list"
  rl_counter :: "(string, int) jsmap"
  rl_nodes :: "node_row list"

definition last_seq :: "string \<Rightarrow> relay_log \<Rightarrow> int" where
  "last_seq m db = (case jsm_get (rl_counter db) m of None \<Rightarrow> 0 | Some n \<Rightarrow> n)"

text \<open>
  \<open>relay_event_seq_stamp\<close>: the counter is incremented and read back in the same statement. The writers insert with
  \<open>OR IGNORE\<close>, which SQLite applies to the trigger's own insert as well.
\<close>

definition seq_stamp :: "event_entry \<Rightarrow> relay_log \<Rightarrow> relay_log" where
  "seq_stamp e db =
     (let m = ev_motebit_id e;
          counter = jsm_set m (case jsm_get (rl_counter db) m of None \<Rightarrow> 1 | Some n \<Rightarrow> n + 1) (rl_counter db);
          row = \<lparr> sr_motebit_id = m, sr_seq = the (jsm_get counter m), sr_event_id = ev_event_id e \<rparr>;
          conflict = list_ex (\<lambda>r. sr_event_id r = sr_event_id row \<or> sr_motebit_id r = m \<and> sr_seq r = sr_seq row) (rl_seq db)
      in db\<lparr>rl_counter := counter, rl_seq := (if conflict then rl_seq db else rl_seq db @ [row])\<rparr>)"

definition insert_event :: "event_entry \<Rightarrow> relay_log \<Rightarrow> relay_log" where
  \<comment> \<open>\<open>INSERT OR IGNORE INTO events\<close>; a duplicate id inserts no row and fires no trigger\<close>
  "insert_event e db =
     (if list_ex (\<lambda>x. ev_event_id x = ev_event_id e) (rl_events db) then db
      else seq_stamp e (db\<lparr>rl_events := rl_events db @ [e]\<rparr>))"

definition delete_events :: "(event_entry \<Rightarrow> bool) \<Rightarrow> relay_log \<Rightarrow> relay_log" where
  \<comment> \<open>\<open>DELETE FROM events\<close>, with \<open>relay_event_seq_unstamp\<close> for every deleted row\<close>
  "delete_events P db =
     (let gone = map ev_event_id (filter P (rl_events db))
      in db\<lparr>rl_events := filter (\<lambda>e. \<not> P e) (rl_events db),
            rl_seq := filter (\<lambda>r. sr_event_id r \<notin> set gone) (rl_seq db)\<rparr>)"

fun row_numbers :: "event_entry list \<Rightarrow> (string, int) jsmap \<Rightarrow> seq_row list" where
  \<comment> \<open>\<open>ROW_NUMBER() OVER (PARTITION BY motebit_id ORDER BY rowid ASC)\<close>\<close>
  "row_numbers [] counts = []"
| "row_numbers (e # es) counts =
     (let n = (case jsm_get counts (ev_motebit_id e) of None \<Rightarrow> 1 | Some n \<Rightarrow> n + 1)
      in \<lparr> sr_motebit_id = ev_motebit_id e, sr_seq = n, sr_event_id = ev_event_id e \<rparr>
         # row_numbers es (jsm_set (ev_motebit_id e) n counts))"

fun max_seqs :: "seq_row list \<Rightarrow> (string, int) jsmap \<Rightarrow> (string, int) jsmap" where
  \<comment> \<open>\<open>SELECT motebit_id, MAX(seq) ... GROUP BY motebit_id\<close>\<close>
  "max_seqs [] acc = acc"
| "max_seqs (r # rs) acc =
     max_seqs rs (jsm_set (sr_motebit_id r)
       (case jsm_get acc (sr_motebit_id r) of None \<Rightarrow> sr_seq r | Some n \<Rightarrow> max n (sr_seq r)) acc)"

definition backfill :: "event_entry list \<Rightarrow> node_row list \<Rightarrow> relay_log" where
  \<comment> \<open>the tables of the sequence were created by the same migration; the nodes are another table\<close>
  "backfill events nodes =
     (let rows = row_numbers events []
      in \<lparr> rl_events = events, rl_seq = rows, rl_counter = max_seqs rows [], rl_nodes = nodes \<rparr>)"

datatype append_error = EmptyEventId | EmptyMotebitId

definition appendBoundEvent :: "string \<Rightarrow> event_entry \<Rightarrow> relay_log \<Rightarrow> append_error + bool \<times> relay_log" where
  "appendBoundEvent owner e db =
     (if ev_motebit_id e \<noteq> owner then Inr (False, db)
      else if ev_event_id e = [] then Inl EmptyEventId
      else if ev_motebit_id e = [] then Inl EmptyMotebitId
      else Inr (True, insert_event e db))"

subsection \<open>The push route\<close>

definition tombstoneNodeOwned :: "string \<Rightarrow> string \<Rightarrow> node_row list \<Rightarrow> node_row list" where
  "tombstoneNodeOwned nodeId m = map (\<lambda>r. if nd_node_id r = nodeId \<and> nd_motebit_id r = m then r\<lparr>nd_tombstoned := True\<rparr> else r)"

definition propagateMemoryDeletion :: "string \<Rightarrow> string \<Rightarrow> relay_log \<Rightarrow> int \<times> relay_log" where
  "propagateMemoryDeletion m nodeId db =
     (int (length (filter (redactable m nodeId) (rl_events db))),
      db\<lparr>rl_events := map (\<lambda>e. if redactable m nodeId e then e\<lparr>ev_payload := map_option redact_payload (ev_payload e)\<rparr> else e) (rl_events db),
         rl_nodes := tombstoneNodeOwned nodeId m (rl_nodes db)\<rparr>)"

definition propagateDeletionForEvent :: "event_entry \<Rightarrow> string \<Rightarrow> relay_log \<Rightarrow> relay_log" where
  "propagateDeletionForEvent e pathMotebitId db =
     (if ev_event_type e \<noteq> ''delete_requested'' then db
      else if ev_motebit_id e \<noteq> pathMotebitId then db
      else (case ev_payload e of None \<Rightarrow> db
            | Some p \<Rightarrow>
                (if jsm_get p ''target_type'' \<noteq> Some (JStr ''memory'') then db
                 else (case jsm_get p ''target_id'' of
                         Some (JStr i) \<Rightarrow> (if i = [] then db else snd (propagateMemoryDeletion pathMotebitId i db))
                       | _ \<Rightarrow> db))))"

definition receipt_signature :: "event_entry \<Rightarrow> js_value option" where
  \<comment> \<open>\<open>e.payload?.receipt?.signature\<close>\<close>
  "receipt_signature e =
     (case ev_payload e of None \<Rightarrow> None
      | Some p \<Rightarrow> (case jsm_get p ''receipt'' of Some (JObj r) \<Rightarrow> map_of r ''signature'' | _ \<Rightarrow> None))"

definition is_receipt_replay :: "event_entry \<Rightarrow> relay_log \<Rightarrow> bool" where
  "is_receipt_replay e db =
     (case receipt_signature e of
        Some (JStr sig) \<Rightarrow> sig \<noteq> [] \<and> list_ex (\<lambda>x. ev_motebit_id x = ev_motebit_id e \<and> receipt_signature x = Some (JStr sig)) (rl_events db)
      | _ \<Rightarrow> False)"

record push_outcome =
  po_accepted :: int
  po_duplicates :: int

fun push_loop :: "string \<Rightarrow> event_entry list \<Rightarrow> push_outcome \<Rightarrow> relay_log \<Rightarrow> (append_error + push_outcome) \<times> relay_log" where
  \<comment> \<open>an error ends the request; the rows written before it stay\<close>
  "push_loop owner [] out db = (Inr out, db)"
| "push_loop owner (e # es) out db =
     (if is_receipt_replay e db then push_loop owner es (out\<lparr>po_duplicates := po_duplicates out + 1\<rparr>) db
      else (case appendBoundEvent owner e db of
              Inl err \<Rightarrow> (Inl err, db)
            | Inr (False, db') \<Rightarrow> push_loop owner es out db'
            | Inr (True, db') \<Rightarrow> push_loop owner es (out\<lparr>po_accepted := po_accepted out + 1\<rparr>) (propagateDeletionForEvent e owner db')))"

datatype push_error = PathIdentityMismatch | ForeignEntry | AppendFailed append_error

definition bindSyncEntries :: "string option \<Rightarrow> event_entry list \<Rightarrow> string \<Rightarrow> push_error + string" where
  "bindSyncEntries presenter entries motebitId =
     (if presenter \<noteq> None \<and> presenter \<noteq> Some motebitId then Inl PathIdentityMismatch
      else if list_all (\<lambda>e. ev_motebit_id e = motebitId) entries then Inr motebitId
      else Inl ForeignEntry)"

definition sync_push :: "string option \<Rightarrow> string \<Rightarrow> event_entry list \<Rightarrow> relay_log \<Rightarrow> (push_error + push_outcome) \<times> relay_log" where
  "sync_push presenter motebitId events db =
     (case bindSyncEntries presenter events motebitId of
        Inl err \<Rightarrow> (Inl err, db)
      | Inr owner \<Rightarrow>
          (case push_loop owner (redactSensitiveEvents events) \<lparr> po_accepted = 0, po_duplicates = 0 \<rparr> db of
             (Inl err, db') \<Rightarrow> (Inl (AppendFailed err), db')
           | (Inr out, db') \<Rightarrow> (Inr out, db')))"

subsection \<open>The page after a cursor\<close>

definition EVENT_SEQ_PAGE_MAX :: int where
  "EVENT_SEQ_PAGE_MAX = 1000"

fun digits_value :: "string \<Rightarrow> int \<Rightarrow> int" where
  "digits_value [] n = n"
| "digits_value (c # cs) n = digits_value cs (10 * n + (of_char c - 48))"

definition is_digit :: "char \<Rightarrow> bool" where
  "is_digit c \<longleftrightarrow> (let n = of_char c :: nat in 48 \<le> n \<and> n \<le> 57)"

datatype seq_cursor = NoCursor | Cursor int | RefusedCursor

definition parseSeqCursor :: "string option \<Rightarrow> seq_cursor" where
  \<comment> \<open>fifteen digits are a safe integer\<close>
  "parseSeqCursor raw =
     (case raw of None \<Rightarrow> NoCursor
      | Some s \<Rightarrow> (if list_all is_digit s \<and> 1 \<le> length s \<and> length s \<le> 15 then Cursor (digits_value s 0) else RefusedCursor))"

record seq_pull_body =
  sb_motebit_id :: string
  sb_events :: "(int \<times> event_entry) list"
  sb_after_seq :: int
  sb_next_seq :: int
  sb_has_more :: bool
  sb_latest_seq :: int

record served_row =
  sv_seq :: int
  sv_stored :: event_entry
  sv_served :: event_entry

definition joined_rows :: "string \<Rightarrow> relay_log \<Rightarrow> (int \<times> event_entry) list" where
  \<comment> \<open>\<open>relay_event_seq s JOIN events e ON e.event_id = s.event_id WHERE s.motebit_id = ? AND e.motebit_id = ?\<close>\<close>
  "joined_rows m db =
     concat (map (\<lambda>r. map (\<lambda>e. (sr_seq r, e)) (filter (\<lambda>e. ev_event_id e = sr_event_id r \<and> ev_motebit_id e = m) (rl_events db)))
       (filter (\<lambda>r. sr_motebit_id r = m) (rl_seq db)))"

definition by_seq :: "int \<times> event_entry \<Rightarrow> int \<times> event_entry \<Rightarrow> int" where
  "by_seq a b = fst a - fst b"

definition page_size :: "int \<Rightarrow> int" where
  "page_size limit = max 1 (min limit EVENT_SEQ_PAGE_MAX)"

definition readEventsAfterSeq :: "string \<Rightarrow> int \<Rightarrow> int \<Rightarrow> relay_log \<Rightarrow> seq_pull_body \<times> served_row list" where
  "readEventsAfterSeq motebitId afterSeq limit db =
     (let pageSize = page_size limit;
          rows = take (nat (pageSize + 1)) (js_sort by_seq (filter (\<lambda>(s, e). s > afterSeq) (joined_rows motebitId db)));
          latest = last_seq motebitId db;
          hasMore = int (length rows) > pageSize;
          pageRows = (if hasMore then take (nat pageSize) rows else rows);
          served = map (\<lambda>(s, e). \<lparr> sv_seq = s, sv_stored = e, sv_served = redact_event e \<rparr>) pageRows;
          nextSeq = (if pageRows \<noteq> [] then fst (List.last pageRows) else afterSeq)
      in (\<lparr> sb_motebit_id = motebitId, sb_events = map (\<lambda>r. (sv_seq r, sv_served r)) served, sb_after_seq = afterSeq,
            sb_next_seq = nextSeq, sb_has_more = hasMore, sb_latest_seq = latest \<rparr>, served))"

subsection \<open>Runs of the relay and what they keep\<close>

datatype relay_op = RPush "string option" string "event_entry list" | RDelete "string list"

fun relay_step :: "relay_op \<Rightarrow> relay_log \<Rightarrow> relay_log" where
  "relay_step (RPush presenter m es) db = snd (sync_push presenter m es db)"
| "relay_step (RDelete ids) db = delete_events (\<lambda>e. ev_event_id e \<in> set ids) db"

definition relay_run :: "relay_op list \<Rightarrow> relay_log \<Rightarrow> relay_log" where
  "relay_run ops db = foldl (\<lambda>db op. relay_step op db) db ops"

definition row_key :: "seq_row \<Rightarrow> string \<times> string" where
  "row_key r = (sr_event_id r, sr_motebit_id r)"

definition event_key :: "event_entry \<Rightarrow> string \<times> string" where
  "event_key e = (ev_event_id e, ev_motebit_id e)"

definition relay_wf :: "relay_log \<Rightarrow> bool" where
  "relay_wf db \<longleftrightarrow> distinct (map ev_event_id (rl_events db)) \<and> distinct (map sr_event_id (rl_seq db))
     \<and> distinct (map (\<lambda>r. (sr_motebit_id r, sr_seq r)) (rl_seq db))
     \<and> list_all (\<lambda>r. 1 \<le> sr_seq r \<and> sr_seq r \<le> last_seq (sr_motebit_id r) db) (rl_seq db)
     \<and> row_key ` set (rl_seq db) = event_key ` set (rl_events db)
     \<and> list_all (\<lambda>(m, n). 0 \<le> n) (rl_counter db)"

definition plaintext :: "event_entry \<Rightarrow> bool" where
  \<comment> \<open>\<open>classifyEventPayload\<close> answers \<open>plaintext\<close>: an object without the \<open>_encrypted\<close> marker\<close>
  "plaintext e \<longleftrightarrow> (case ev_payload e of None \<Rightarrow> False | Some p \<Rightarrow> \<not> jsm_has p ''_encrypted'')"

definition same_event :: "event_entry \<Rightarrow> event_entry \<Rightarrow> bool" where
  \<comment> \<open>the same event up to the redaction of its payload\<close>
  "same_event e e' \<longleftrightarrow> event_key e = event_key e' \<and> ev_version_clock e = ev_version_clock e' \<and> plaintext e = plaintext e'"

definition live :: "string \<Rightarrow> relay_log \<Rightarrow> (int \<times> event_entry) set" where
  "live m db = set (joined_rows m db)"

definition evolves :: "relay_log \<Rightarrow> relay_log \<Rightarrow> bool" where
  "evolves db db' \<longleftrightarrow> relay_wf db' \<and> (\<forall>m. last_seq m db \<le> last_seq m db'
     \<and> (\<forall>s e'. (s, e') \<in> live m db' \<longrightarrow> s \<le> last_seq m db \<longrightarrow> (\<exists>e. (s, e) \<in> live m db \<and> same_event e e')))"

lemma same_event_refl [simp]: "same_event e e"
  by (simp add: same_event_def)

lemma same_event_trans: "same_event a b \<Longrightarrow> same_event b c \<Longrightarrow> same_event a c"
  by (simp add: same_event_def)

lemma live_iff: "(s, e) \<in> live m db \<longleftrightarrow>
   e \<in> set (rl_events db) \<and> ev_motebit_id e = m
     \<and> (\<exists>r \<in> set (rl_seq db). sr_motebit_id r = m \<and> sr_seq r = s \<and> sr_event_id r = ev_event_id e)"
  by (auto simp add: live_def joined_rows_def)

lemma evolves_refl: "relay_wf db \<Longrightarrow> evolves db db"
  unfolding evolves_def using same_event_refl by blast

lemma evolves_trans:
  assumes "evolves a b" and "evolves b c" shows "evolves a c"
  unfolding evolves_def
proof (intro conjI allI impI)
  show "relay_wf c" using assms by (simp add: evolves_def)
  fix m
  show "last_seq m a \<le> last_seq m c" using assms unfolding evolves_def by (meson order_trans)
  fix s e assume "(s, e) \<in> live m c" "s \<le> last_seq m a"
  moreover from this have "s \<le> last_seq m b" using assms unfolding evolves_def by (meson order_trans)
  ultimately obtain e1 where "(s, e1) \<in> live m b" "same_event e1 e" using assms(2) unfolding evolves_def by blast
  moreover from this obtain e2 where "(s, e2) \<in> live m a" "same_event e2 e1"
    using assms(1) \<open>s \<le> last_seq m a\<close> unfolding evolves_def by blast
  ultimately show "\<exists>e'. (s, e') \<in> live m a \<and> same_event e' e" using same_event_trans by blast
qed

text \<open>What \<open>relay_wf\<close> gives of the rows that are live.\<close>

lemma last_seq_nonneg: "relay_wf db \<Longrightarrow> 0 \<le> last_seq m db"
  by (auto simp add: relay_wf_def last_seq_def jsm_get_def list_all_iff dest!: map_of_SomeD split: option.splits)

lemma relay_wf_seq: "relay_wf db \<Longrightarrow> r \<in> set (rl_seq db) \<Longrightarrow> 1 \<le> sr_seq r \<and> sr_seq r \<le> last_seq (sr_motebit_id r) db"
  by (simp add: relay_wf_def list_all_iff)

lemma relay_wf_keys: "relay_wf db \<Longrightarrow> row_key ` set (rl_seq db) = event_key ` set (rl_events db)"
  by (simp add: relay_wf_def)

lemma live_bounds: "relay_wf db \<Longrightarrow> (s, e) \<in> live m db \<Longrightarrow> 1 \<le> s \<and> s \<le> last_seq m db \<and> ev_motebit_id e = m"
  by (auto simp add: live_iff relay_wf_def list_all_iff)

lemma every_event_is_live:
  assumes "relay_wf db" and "e \<in> set (rl_events db)"
  shows "\<exists>s. (s, e) \<in> live (ev_motebit_id e) db"
proof -
  have "event_key e \<in> row_key ` set (rl_seq db)" using assms by (simp add: relay_wf_def)
  then obtain r where "r \<in> set (rl_seq db)" "row_key r = event_key e" by auto
  then show ?thesis using assms by (auto simp add: live_iff row_key_def event_key_def)
qed

lemma live_functional:
  assumes "relay_wf db" and "(s, e) \<in> live m db" and "(s, e') \<in> live m db"
  shows "e = e'"
proof -
  obtain r r' where r: "r \<in> set (rl_seq db)" "r' \<in> set (rl_seq db)" "sr_motebit_id r = m" "sr_motebit_id r' = m"
    "sr_seq r = s" "sr_seq r' = s" "sr_event_id r = ev_event_id e" "sr_event_id r' = ev_event_id e'"
    using assms by (auto simp add: live_iff)
  have "inj_on (\<lambda>r. (sr_motebit_id r, sr_seq r)) (set (rl_seq db))" using assms by (simp add: relay_wf_def distinct_map)
  then have "r = r'" using r by (auto dest: inj_onD)
  then have "ev_event_id e = ev_event_id e'" using r by simp
  then show ?thesis using assms by (auto simp add: relay_wf_def distinct_map live_iff dest: inj_onD)
qed

subsubsection \<open>Inserts\<close>

lemma last_seq_stamp: "last_seq m (seq_stamp e db) = (if m = ev_motebit_id e then last_seq m db + 1 else last_seq m db)"
  by (auto simp add: last_seq_def seq_stamp_def Let_def jsm_get_set split: option.splits)

lemma next_number: "(case jsm_get (rl_counter db) m of None \<Rightarrow> 1 | Some n \<Rightarrow> n + 1) = last_seq m db + 1"
  by (simp add: last_seq_def split: option.splits)

lemma stamp_row:
  assumes wf: "relay_wf db" and new: "\<not> list_ex (\<lambda>x. ev_event_id x = ev_event_id e) (rl_events db)"
  shows "rl_seq (seq_stamp e (db\<lparr>rl_events := rl_events db @ [e]\<rparr>))
    = rl_seq db @ [\<lparr> sr_motebit_id = ev_motebit_id e, sr_seq = last_seq (ev_motebit_id e) db + 1, sr_event_id = ev_event_id e \<rparr>]"
proof -
  have ids: "sr_event_id r \<noteq> ev_event_id e" if "r \<in> set (rl_seq db)" for r
  proof -
    have "row_key r \<in> event_key ` set (rl_events db)" using relay_wf_keys [OF wf] that by blast
    then show ?thesis using new by (auto simp add: row_key_def event_key_def list_ex_iff)
  qed
  have seqs: "sr_seq r \<noteq> last_seq (ev_motebit_id e) db + 1" if "r \<in> set (rl_seq db)" "sr_motebit_id r = ev_motebit_id e" for r
  proof -
    have "sr_seq r \<le> last_seq (ev_motebit_id e) db" using relay_wf_seq [OF wf that(1)] that(2) by simp
    then show ?thesis by simp
  qed
  have "\<not> list_ex (\<lambda>r. sr_event_id r = ev_event_id e
      \<or> sr_motebit_id r = ev_motebit_id e \<and> sr_seq r = last_seq (ev_motebit_id e) db + 1) (rl_seq db)"
    using ids seqs unfolding list_ex_iff by blast
  then show ?thesis unfolding seq_stamp_def by (simp add: Let_def next_number)
qed

lemma insert_event_events: "rl_events (insert_event e db)
    = (if list_ex (\<lambda>x. ev_event_id x = ev_event_id e) (rl_events db) then rl_events db else rl_events db @ [e])"
  by (simp add: insert_event_def seq_stamp_def Let_def)

lemma last_seq_events [simp]: "last_seq m (db\<lparr>rl_events := es\<rparr>) = last_seq m db" "last_seq m (db\<lparr>rl_seq := rs\<rparr>) = last_seq m db"
  "last_seq m (db\<lparr>rl_nodes := ns\<rparr>) = last_seq m db"
  by (simp_all add: last_seq_def)

lemma counter_stamp_nonneg:
  "list_all (\<lambda>(m, n). 0 \<le> n) (rl_counter db) \<Longrightarrow> list_all (\<lambda>(m, n). 0 \<le> n) (rl_counter (seq_stamp e db))"
  by (auto simp add: seq_stamp_def Let_def list_all_iff jsm_get_def
      dest!: set_jsm_set [THEN subsetD] map_of_SomeD split: option.splits)

lemma insert_event_evolves:
  assumes wf: "relay_wf db"
  shows "evolves db (insert_event e db)"
proof (cases "list_ex (\<lambda>x. ev_event_id x = ev_event_id e) (rl_events db)")
  case True
  then show ?thesis using evolves_refl [OF wf] by (simp add: insert_event_def)
next
  case False
  let ?db = "insert_event e db"
  let ?row = "\<lparr> sr_motebit_id = ev_motebit_id e, sr_seq = last_seq (ev_motebit_id e) db + 1, sr_event_id = ev_event_id e \<rparr>"
  have seq: "rl_seq ?db = rl_seq db @ [?row]" using stamp_row [OF wf False] False by (simp add: insert_event_def)
  have ev: "rl_events ?db = rl_events db @ [e]" using False by (simp add: insert_event_events)
  have lst: "last_seq m ?db = (if m = ev_motebit_id e then last_seq m db + 1 else last_seq m db)" for m
    using False by (simp add: insert_event_def last_seq_stamp)
  have ids: "sr_event_id ` set (rl_seq db) = ev_event_id ` set (rl_events db)"
  proof -
    have "fst ` row_key ` set (rl_seq db) = fst ` event_key ` set (rl_events db)" using wf by (simp add: relay_wf_def)
    then show ?thesis by (simp add: image_image row_key_def event_key_def)
  qed
  have noid: "sr_event_id r \<noteq> ev_event_id e" if "r \<in> set (rl_seq db)" for r
    using that False ids by (metis (mono_tags, lifting) imageE image_eqI list_ex_iff)
  have "relay_wf ?db"
    unfolding relay_wf_def seq ev
  proof (intro conjI)
    show "distinct (map ev_event_id (rl_events db @ [e]))" using wf False by (auto simp add: relay_wf_def list_ex_iff)
    show "distinct (map sr_event_id (rl_seq db @ [?row]))" using wf False ids by (auto simp add: relay_wf_def list_ex_iff)
    show "distinct (map (\<lambda>r. (sr_motebit_id r, sr_seq r)) (rl_seq db @ [?row]))"
      using wf by (fastforce simp add: relay_wf_def list_all_iff)
    show "list_all (\<lambda>r. 1 \<le> sr_seq r \<and> sr_seq r \<le> last_seq (sr_motebit_id r) ?db) (rl_seq db @ [?row])"
      using wf last_seq_nonneg [OF wf] by (fastforce simp add: relay_wf_def list_all_iff lst)
    show "row_key ` set (rl_seq db @ [?row]) = event_key ` set (rl_events db @ [e])"
      using wf by (simp add: relay_wf_def row_key_def event_key_def)
    show "list_all (\<lambda>(m, n). 0 \<le> n) (rl_counter ?db)"
      using wf False counter_stamp_nonneg [of "db\<lparr>rl_events := rl_events db @ [e]\<rparr>"] by (simp add: relay_wf_def insert_event_def)
  qed
  moreover have "(s, e') \<in> live m db" if "(s, e') \<in> live m ?db" "s \<le> last_seq m db" for m s e'
    using that noid wf by (auto simp add: live_iff seq ev)
  moreover have "last_seq m db \<le> last_seq m ?db" for m by (simp add: lst)
  ultimately show ?thesis unfolding evolves_def using same_event_refl by blast
qed

subsubsection \<open>Deletes and rewrites\<close>

lemma delete_events_evolves:
  assumes wf: "relay_wf db"
  shows "evolves db (delete_events P db)"
proof -
  let ?db = "delete_events P db"
  have ev: "rl_events ?db = filter (\<lambda>e. \<not> P e) (rl_events db)"
    and sq: "rl_seq ?db = filter (\<lambda>r. sr_event_id r \<notin> ev_event_id ` {e \<in> set (rl_events db). P e}) (rl_seq db)"
    and lst: "last_seq m ?db = last_seq m db" and ctr: "rl_counter ?db = rl_counter db" for m
    by (simp_all add: delete_events_def last_seq_def)
  have inj: "inj_on ev_event_id (set (rl_events db))" using wf by (simp add: relay_wf_def distinct_map)
  have keys: "row_key ` set (rl_seq ?db) = event_key ` set (rl_events ?db)"
  proof (intro set_eqI iffI)
    fix k assume "k \<in> row_key ` set (rl_seq ?db)"
    then obtain r where r: "r \<in> set (rl_seq db)" "sr_event_id r \<notin> ev_event_id ` {e \<in> set (rl_events db). P e}" "k = row_key r"
      by (auto simp add: sq)
    have "k \<in> event_key ` set (rl_events db)" unfolding r(3) using relay_wf_keys [OF wf] r(1) by blast
    then show "k \<in> event_key ` set (rl_events ?db)" using r by (auto simp add: ev row_key_def event_key_def)
  next
    fix k assume "k \<in> event_key ` set (rl_events ?db)"
    then obtain e where e: "e \<in> set (rl_events db)" "\<not> P e" "k = event_key e" by (auto simp add: ev)
    have "k \<in> row_key ` set (rl_seq db)" unfolding e(3) using relay_wf_keys [OF wf] e(1) by blast
    then obtain r where r: "r \<in> set (rl_seq db)" "k = row_key r" by auto
    then have "ev_event_id e \<notin> ev_event_id ` {e \<in> set (rl_events db). P e}" using e inj by (auto dest: inj_onD)
    then show "k \<in> row_key ` set (rl_seq ?db)" using r e by (auto simp add: sq row_key_def event_key_def)
  qed
  have "relay_wf ?db"
    using wf keys unfolding relay_wf_def lst ctr by (auto simp add: ev sq list_all_iff distinct_map_filter)
  moreover have "live m ?db \<subseteq> live m db" for m by (auto simp add: live_iff ev sq)
  ultimately show ?thesis unfolding evolves_def using lst same_event_refl by (metis order_refl subsetD)
qed

lemma rewrite_events_evolves:
  assumes wf: "relay_wf db" and same: "\<And>e. same_event e (f e)"
  shows "evolves db (db\<lparr>rl_events := map f (rl_events db), rl_nodes := ns\<rparr>)"
proof -
  have key: "event_key (f e) = event_key e" for e using same [of e] by (simp add: same_event_def)
  then have id: "ev_event_id (f e) = ev_event_id e" and mb: "ev_motebit_id (f e) = ev_motebit_id e" for e
    by (simp_all add: event_key_def)
  have "relay_wf (db\<lparr>rl_events := map f (rl_events db), rl_nodes := ns\<rparr>)"
    using wf by (simp add: relay_wf_def comp_def id image_image key)
  moreover have "\<exists>e. (s, e) \<in> live m db \<and> same_event e e'" if l: "(s, e') \<in> live m (db\<lparr>rl_events := map f (rl_events db), rl_nodes := ns\<rparr>)" for m s e'
  proof -
    obtain e where e: "e \<in> set (rl_events db)" "e' = f e" using l by (auto simp add: live_iff)
    then have "(s, e) \<in> live m db" using l by (auto simp add: live_iff id mb)
    then show ?thesis using e same [of e] by blast
  qed
  ultimately show ?thesis unfolding evolves_def by (simp add: last_seq_def)
qed

lemma redact_payload_marker: "jsm_has (redact_payload p) ''_encrypted'' = jsm_has p ''_encrypted''"
  by (simp add: redact_payload_def jsm_has_iff jsm_get_set)

lemma redacted_same_event: "same_event e (if redactable m i e then e\<lparr>ev_payload := map_option redact_payload (ev_payload e)\<rparr> else e)"
  by (auto simp add: same_event_def event_key_def plaintext_def redact_payload_marker split: option.splits)

lemma propagate_evolves: "relay_wf db \<Longrightarrow> evolves db (propagateDeletionForEvent e m db)"
  using rewrite_events_evolves [OF _ redacted_same_event] evolves_refl
  by (auto simp add: propagateDeletionForEvent_def propagateMemoryDeletion_def split: option.splits js_value.splits)

subsubsection \<open>Whole runs\<close>

lemma evolves_wf: "evolves db db' \<Longrightarrow> relay_wf db'"
  by (simp add: evolves_def)

lemma push_loop_evolves: "relay_wf db \<Longrightarrow> evolves db (snd (push_loop owner es out db))"
proof (induction es arbitrary: out db)
  case Nil
  then show ?case by (simp add: evolves_refl)
next
  case (Cons e es)
  have step: "evolves db db'" if "appendBoundEvent owner e db = Inr (b, db')" for b db'
    using that Cons.prems insert_event_evolves evolves_refl by (auto simp add: appendBoundEvent_def split: if_splits)
  have propd: "evolves db (propagateDeletionForEvent e owner db')" if "appendBoundEvent owner e db = Inr (b, db')" for b db'
    using evolves_trans [OF step [OF that] propagate_evolves [OF evolves_wf [OF step [OF that]]]] .
  have cont: "evolves db (snd (push_loop owner es out' (if b then propagateDeletionForEvent e owner db' else db')))"
    if "appendBoundEvent owner e db = Inr (b, db')" for b db' out'
  proof -
    let ?db = "if b then propagateDeletionForEvent e owner db' else db'"
    have "evolves db ?db" using that step [OF that] by (cases b) (simp_all add: propd)
    with Cons.IH [OF evolves_wf [OF this]] show ?thesis by (rule evolves_trans [rotated])
  qed
  show ?case
  proof (cases "is_receipt_replay e db")
    case True
    then show ?thesis using Cons by simp
  next
    case False
    then show ?thesis
      using cont evolves_refl [OF Cons.prems] by (cases "appendBoundEvent owner e db") (force split: bool.splits)+
  qed
qed

lemma relay_step_evolves: "relay_wf db \<Longrightarrow> evolves db (relay_step op db)"
proof (cases op)
  case (RPush presenter m es)
  assume "relay_wf db"
  then show ?thesis using push_loop_evolves evolves_refl
    by (simp add: RPush sync_push_def split: sum.splits prod.splits) (metis snd_conv)
qed (simp add: delete_events_evolves)

lemma relay_run_evolves: "relay_wf db \<Longrightarrow> evolves db (relay_run ops db)"
proof (induction ops arbitrary: db)
  case (Cons op ops)
  then show ?case using relay_step_evolves [of db op] evolves_trans evolves_wf by (fastforce simp add: relay_run_def)
qed (simp add: relay_run_def evolves_refl)

subsection \<open>What a page shows\<close>

definition page_order :: "string \<Rightarrow> int \<Rightarrow> relay_log \<Rightarrow> (int \<times> event_entry) list" where
  "page_order m a db = js_sort by_seq (filter (\<lambda>(s, e). s > a) (joined_rows m db))"

lemma set_page_order: "set (page_order m a db) = {(s, e) \<in> live m db. s > a}"
  by (auto simp add: page_order_def live_def)

lemma distinct_concat_keys:
  assumes "distinct (map g rs)" and "\<And>r. r \<in> set rs \<Longrightarrow> distinct (map fst (f r)) \<and> fst ` set (f r) \<subseteq> {g r}"
  shows "distinct (map fst (concat (map f rs)))"
  using assms
proof (induction rs)
  case (Cons r rs)
  have other: "k \<noteq> g r" if "x \<in> set rs" "k \<in> fst ` set (f x)" for x k
  proof -
    have "k = g x" using Cons.prems(2) [of x] that by auto
    then show ?thesis using Cons.prems(1) that(1) by (auto simp add: image_iff)
  qed
  have "fst ` set (f r) \<inter> fst ` (\<Union>x\<in>set rs. set (f x)) = {}"
  proof (rule ccontr)
    assume "fst ` set (f r) \<inter> fst ` (\<Union>x\<in>set rs. set (f x)) \<noteq> {}"
    then obtain k x where "k \<in> fst ` set (f r)" "x \<in> set rs" "k \<in> fst ` set (f x)" by blast
    then show False using other [of x k] Cons.prems(2) [of r] by auto
  qed
  moreover have "distinct (map fst (concat (map f rs)))" using Cons by simp
  ultimately show ?case using Cons.prems(2) [of r] by simp
qed simp

lemma distinct_joined_rows:
  assumes wf: "relay_wf db"
  shows "distinct (map fst (joined_rows m db))"
  unfolding joined_rows_def
proof (rule distinct_concat_keys)
  have "distinct (map (\<lambda>r. (sr_motebit_id r, sr_seq r)) (rl_seq db))" using wf by (simp add: relay_wf_def)
  then show "distinct (map sr_seq (filter (\<lambda>r. sr_motebit_id r = m) (rl_seq db)))"
    by (auto simp add: distinct_map inj_on_def)
next
  fix r
  let ?same = "filter (\<lambda>e. ev_event_id e = sr_event_id r \<and> ev_motebit_id e = m) (rl_events db)"
  have d: "distinct (map ev_event_id ?same)" using wf by (simp add: relay_wf_def distinct_map_filter)
  have "set (map ev_event_id ?same) \<subseteq> {sr_event_id r}" by auto
  from card_mono [OF _ this] have "length ?same \<le> 1" using distinct_card [OF d] by simp
  then show "distinct (map fst (map (Pair (sr_seq r)) ?same)) \<and> fst ` set (map (Pair (sr_seq r)) ?same) \<subseteq> {sr_seq r}"
    by (cases ?same) (auto simp add: le_Suc_eq)
qed

lemma sorted_page_order:
  assumes wf: "relay_wf db"
  shows "sorted_wrt (\<lambda>x y. fst x < fst y) (page_order m a db)"
proof -
  have "by_seq = (\<lambda>x y. fst x - fst y)" by (intro ext) (simp add: by_seq_def)
  then have "sorted_wrt (\<lambda>x y. fst x - fst y \<le> 0) (page_order m a db)"
    unfolding page_order_def using by_key_asc.sorted_js_sort by metis
  then have "sorted (map fst (page_order m a db))" by (simp add: sorted_map)
  moreover have "distinct (map fst (page_order m a db))"
    using distinct_joined_rows [OF wf, of m] by (simp add: page_order_def distinct_map_filter)
  ultimately have "sorted_wrt (<) (map fst (page_order m a db))" by (simp add: strict_sorted_iff)
  then show ?thesis by (simp add: sorted_wrt_map)
qed

text \<open>A page is the first \<open>page_size\<close> rows in order; one more row is read to see whether another page follows.\<close>

lemma read_page:
  fixes db :: relay_log and m :: string and a limit :: int
  defines "n \<equiv> nat (page_size limit)" and "L \<equiv> page_order m a db"
  shows "fst (readEventsAfterSeq m a limit db) =
    \<lparr> sb_motebit_id = m, sb_events = map (\<lambda>(s, e). (s, redact_event e)) (take n L), sb_after_seq = a,
      sb_next_seq = (if take n L \<noteq> [] then fst (List.last (take n L)) else a),
      sb_has_more = (n < length L), sb_latest_seq = last_seq m db \<rparr>"
proof -
  have size: "nat (page_size limit + 1) = n + 1" "1 \<le> page_size limit" by (simp_all add: n_def page_size_def)
  have "(int (length (take (n + 1) L)) > page_size limit) = (n < length L)" using size by (auto simp add: n_def)
  moreover have "(if n < length L then take n (take (n + 1) L) else take (n + 1) L) = take n L" by simp
  ultimately show ?thesis using size
    by (simp add: readEventsAfterSeq_def Let_def page_order_def [symmetric] L_def [symmetric] n_def [symmetric] comp_def case_prod_beta)
qed

lemma take_below_last:
  assumes "sorted_wrt (\<lambda>x y. fst x < (fst y :: int)) L" and "x \<in> set L" and "take n L \<noteq> []"
  shows "x \<in> set (take n L) \<longleftrightarrow> fst x \<le> fst (List.last (take n L))"
proof
  assume x: "x \<in> set (take n L)"
  have "sorted_wrt (\<lambda>x y. fst x < fst y) (butlast (take n L) @ [List.last (take n L)])"
    using sorted_wrt_take [OF assms(1)] assms(3) by simp
  then have "\<forall>y \<in> set (butlast (take n L)). fst y < fst (List.last (take n L))" by (simp add: sorted_wrt_append)
  moreover have "x \<in> set (butlast (take n L) @ [List.last (take n L)])" using x assms(3) by simp
  ultimately show "fst x \<le> fst (List.last (take n L))" by auto
next
  assume le: "fst x \<le> fst (List.last (take n L))"
  have "sorted_wrt (\<lambda>x y. fst x < fst y) (take n L @ drop n L)" using assms(1) by simp
  then have "x \<notin> set (drop n L)" using le last_in_set [OF assms(3)] unfolding sorted_wrt_append by fastforce
  then show "x \<in> set (take n L)" using assms(2) by (metis Un_iff append_take_drop_id set_append)
qed

lemma page_next:
  fixes db :: relay_log and m :: string and a limit :: int
  defines "body \<equiv> fst (readEventsAfterSeq m a limit db)"
  assumes wf: "relay_wf db"
  shows page_exact: "set (sb_events body) = {(s, redact_event e) | s e. (s, e) \<in> live m db \<and> a < s \<and> s \<le> sb_next_seq body}"
    and page_more: "sb_has_more body \<longleftrightarrow> (\<exists>s e. (s, e) \<in> live m db \<and> sb_next_seq body < s)"
    and page_cursor: "a \<le> sb_next_seq body" "sb_next_seq body \<le> max a (last_seq m db)" "sb_has_more body \<Longrightarrow> a < sb_next_seq body"
    and page_latest: "sb_latest_seq body = last_seq m db"
    and page_full: "sb_has_more body \<Longrightarrow> length (sb_events body) = nat (page_size limit)"
proof -
  define n where "n = nat (page_size limit)"
  define L where "L = page_order m a db"
  have n: "0 < n" by (simp add: n_def page_size_def)
  have body: "body = \<lparr> sb_motebit_id = m, sb_events = map (\<lambda>(s, e). (s, redact_event e)) (take n L), sb_after_seq = a,
      sb_next_seq = (if take n L \<noteq> [] then fst (List.last (take n L)) else a),
      sb_has_more = (n < length L), sb_latest_seq = last_seq m db \<rparr>"
    unfolding body_def read_page n_def L_def ..
  have srt: "sorted_wrt (\<lambda>x y. fst x < fst y) L" using sorted_page_order [OF wf] by (simp add: L_def)
  have setL: "set L = {(s, e) \<in> live m db. s > a}" by (simp add: L_def set_page_order)
  have empty: "take n L = [] \<longleftrightarrow> L = []" using n by simp
  have page: "(s, e) \<in> set (take n L) \<longleftrightarrow> (s, e) \<in> live m db \<and> a < s \<and> s \<le> sb_next_seq body" for s e
  proof (cases "L = []")
    case True
    then show ?thesis using setL by (auto simp add: body)
  next
    case False
    then show ?thesis using take_below_last [OF srt, of "(s, e)" n] setL set_take_subset [of n L] empty by (auto simp add: body)
  qed
  then show "set (sb_events body) = {(s, redact_event e) | s e. (s, e) \<in> live m db \<and> a < s \<and> s \<le> sb_next_seq body}"
    by (force simp add: body)
  have last_live: "L \<noteq> [] \<Longrightarrow> \<exists>e. (sb_next_seq body, e) \<in> live m db \<and> a < sb_next_seq body"
  proof -
    assume "L \<noteq> []"
    then have "List.last (take n L) \<in> set L" using last_in_set [of "take n L"] set_take_subset [of n L] empty by blast
    moreover have "sb_next_seq body = fst (List.last (take n L))" using \<open>L \<noteq> []\<close> empty by (simp add: body)
    ultimately show ?thesis unfolding setL by (cases "List.last (take n L)") auto
  qed
  show "sb_latest_seq body = last_seq m db" by (simp add: body)
  show "a \<le> sb_next_seq body" using last_live by (cases "L = []") (auto simp add: body)
  show "sb_next_seq body \<le> max a (last_seq m db)" using last_live live_bounds [OF wf] by (cases "L = []") (fastforce simp add: body)+
  show "sb_has_more body \<Longrightarrow> a < sb_next_seq body" using last_live by (cases "L = []") (auto simp add: body)
  show "sb_has_more body \<Longrightarrow> length (sb_events body) = nat (page_size limit)" by (simp add: body n_def)
  show "sb_has_more body \<longleftrightarrow> (\<exists>s e. (s, e) \<in> live m db \<and> sb_next_seq body < s)"
  proof
    assume "sb_has_more body"
    then have "L \<noteq> []" "drop n L \<noteq> []" by (auto simp add: body)
    then obtain x where x: "x \<in> set (drop n L)" by (metis last_in_set)
    have "sorted_wrt (\<lambda>x y. fst x < fst y) (take n L @ drop n L)" using srt by simp
    then have "fst (List.last (take n L)) < fst x" using x last_in_set [of "take n L"] empty \<open>L \<noteq> []\<close>
      unfolding sorted_wrt_append by blast
    then have "sb_next_seq body < fst x" using empty \<open>L \<noteq> []\<close> by (simp add: body)
    moreover have "x \<in> live m db" using in_set_dropD [OF x] unfolding setL by auto
    ultimately show "\<exists>s e. (s, e) \<in> live m db \<and> sb_next_seq body < s" by (metis prod.collapse)
  next
    assume "\<exists>s e. (s, e) \<in> live m db \<and> sb_next_seq body < s"
    then obtain s e where se: "(s, e) \<in> live m db" "sb_next_seq body < s" by blast
    have "a \<le> sb_next_seq body" using last_live by (cases "L = []") (auto simp add: body)
    then have "(s, e) \<in> set L" "(s, e) \<notin> set (take n L)" using se setL page by auto
    then show "sb_has_more body" by (metis (mono_tags, lifting) body seq_pull_body.select_convs(5) not_less take_all)
  qed
qed

subsection \<open>The backfill\<close>

text \<open>
  The migration numbers the events already held as if the triggers had been there from the first insert on.
\<close>

definition emptyRelayLog :: "node_row list \<Rightarrow> relay_log" where
  "emptyRelayLog nodes = \<lparr> rl_events = [], rl_seq = [], rl_counter = [], rl_nodes = nodes \<rparr>"

lemma emptyRelayLog_wf [simp]: "relay_wf (emptyRelayLog nodes)"
  by (simp add: emptyRelayLog_def relay_wf_def)

lemma backfill_from:
  assumes "relay_wf db" and "distinct (map ev_event_id (rl_events db @ es))"
  shows "foldl (\<lambda>db e. insert_event e db) db es =
    \<lparr> rl_events = rl_events db @ es, rl_seq = rl_seq db @ row_numbers es (rl_counter db),
      rl_counter = max_seqs (row_numbers es (rl_counter db)) (rl_counter db), rl_nodes = rl_nodes db \<rparr>"
  using assms
proof (induction es arbitrary: db)
  case (Cons e es)
  have new: "\<not> list_ex (\<lambda>x. ev_event_id x = ev_event_id e) (rl_events db)"
    using Cons.prems(2) by (auto simp add: list_ex_iff) (metis imageI)
  let ?n = "last_seq (ev_motebit_id e) db + 1"
  have db': "insert_event e db = \<lparr> rl_events = rl_events db @ [e],
      rl_seq = rl_seq db @ [\<lparr> sr_motebit_id = ev_motebit_id e, sr_seq = ?n, sr_event_id = ev_event_id e \<rparr>],
      rl_counter = jsm_set (ev_motebit_id e) ?n (rl_counter db), rl_nodes = rl_nodes db \<rparr>"
    using stamp_row [OF Cons.prems(1) new] new
    by (simp add: insert_event_def) (simp add: seq_stamp_def Let_def next_number)
  let ?r = "\<lparr> sr_motebit_id = ev_motebit_id e, sr_seq = ?n, sr_event_id = ev_event_id e \<rparr>"
  have mx: "(case jsm_get (rl_counter db) (ev_motebit_id e) of None \<Rightarrow> sr_seq ?r | Some k \<Rightarrow> max k (sr_seq ?r)) = ?n"
    by (simp add: last_seq_def split: option.splits)
  have "relay_wf (insert_event e db)" using evolves_wf [OF insert_event_evolves [OF Cons.prems(1)]] .
  then have "foldl (\<lambda>db e. insert_event e db) (insert_event e db) es =
    \<lparr> rl_events = rl_events (insert_event e db) @ es, rl_seq = rl_seq (insert_event e db) @ row_numbers es (rl_counter (insert_event e db)),
      rl_counter = max_seqs (row_numbers es (rl_counter (insert_event e db))) (rl_counter (insert_event e db)),
      rl_nodes = rl_nodes (insert_event e db) \<rparr>"
    using Cons.IH Cons.prems(2) by (simp add: db')
  then show ?case by (simp add: Let_def next_number) (simp add: db' mx)
qed simp

text \<open>(C35) The migration that introduced the sequence leaves the relay in the state it would have had if the triggers had numbered
  every event from the first insert on.\<close>

theorem backfill_as_if_stamped:
  assumes "distinct (map ev_event_id events)"
  shows "backfill events nodes = foldl (\<lambda>db e. insert_event e db) (emptyRelayLog nodes) events"
  using backfill_from [of "emptyRelayLog nodes" events] assms by (simp add: emptyRelayLog_wf) (simp add: backfill_def emptyRelayLog_def Let_def)

definition demo_event :: "string \<Rightarrow> string \<Rightarrow> int \<Rightarrow> event_entry" where
  "demo_event i m c = \<lparr> ev_event_id = i, ev_motebit_id = m, ev_device_id = None, ev_timestamp = c, ev_event_type = ''t'',
     ev_payload = Some [], ev_version_clock = c, ev_tombstoned = False \<rparr>"

lemma backfill_demo:
  "map sr_seq (rl_seq (backfill [demo_event ''a'' ''m'' 1, demo_event ''b'' ''n'' 1, demo_event ''c'' ''m'' 1] [])) = [1, 1, 2]"
  by (simp add: backfill_def Let_def demo_event_def jsm_get_set)

theorem backfill_as_if_stamped_witness:
  "map sr_seq (rl_seq (foldl (\<lambda>db e. insert_event e db) (emptyRelayLog [])
      [demo_event ''a'' ''m'' 1, demo_event ''b'' ''n'' 1, demo_event ''c'' ''m'' 1])) = [1, 1, 2]"
proof -
  have "distinct (map ev_event_id [demo_event ''a'' ''m'' 1, demo_event ''b'' ''n'' 1, demo_event ''c'' ''m'' 1])"
    by (simp add: demo_event_def)
  from backfill_as_if_stamped [OF this] show ?thesis using backfill_demo by (rule subst)
qed

lemma backfill_wf: "distinct (map ev_event_id events) \<Longrightarrow> relay_wf (backfill events nodes)"
proof -
  assume d: "distinct (map ev_event_id events)"
  have "relay_wf (foldl (\<lambda>db e. insert_event e db) db es)" if "relay_wf db" for db es
    using that by (induction es arbitrary: db) (simp_all add: evolves_wf [OF insert_event_evolves])
  moreover have "backfill events nodes = foldl (\<lambda>db e. insert_event e db) (emptyRelayLog nodes) events"
    using backfill_from [of "emptyRelayLog nodes" events] d by simp (simp add: backfill_def emptyRelayLog_def Let_def)
  ultimately show ?thesis by simp
qed

end
