(* ===== verification/EventPayload.thy ===== *)
theory EventPayload
  imports RelaySeq "HOL-Library.Word" "HOL-Library.Countable"
begin

text \<open>
  The end-to-end envelope of an event's payload, \<open>packages/sync-engine/src/event-payload.ts\<close>, and the adapter that seals and opens
  it, \<open>encrypted-adapter.ts\<close>. Bytes are 8-bit words and Base64 is written out. The JSON text of a value, the UTF-8 encoding
  and the authenticated cipher are parameters (\<open>codec\<close>); what the code relies on is \<open>codec_ok\<close>.
\<close>

type_synonym bytes = "8 word list"

subsection \<open>Base64\<close>

definition b64_alphabet :: string where
  "b64_alphabet = ''ABCDEFGHIJKLMNOPQRSTUVWXYZabcdefghijklmnopqrstuvwxyz0123456789+/''"

definition b64_char :: "nat \<Rightarrow> char" where
  "b64_char n = b64_alphabet ! n"

fun index_of :: "'a \<Rightarrow> 'a list \<Rightarrow> nat option" where
  "index_of x [] = None"
| "index_of x (y # ys) = (if x = y then Some 0 else map_option Suc (index_of x ys))"

definition b64_val :: "char \<Rightarrow> nat option" where
  "b64_val c = index_of c b64_alphabet"

definition is_b64 :: "char \<Rightarrow> bool" where
  "is_b64 c \<longleftrightarrow> b64_val c \<noteq> None"

definition val :: "char \<Rightarrow> nat" where
  "val c = the (b64_val c)"

fun toBase64 :: "bytes \<Rightarrow> string" where
  "toBase64 [] = []"
| "toBase64 [a] = [b64_char (unat a div 4), b64_char (unat a mod 4 * 16), CHR ''='', CHR ''='']"
| "toBase64 [a, b] = [b64_char (unat a div 4), b64_char (unat a mod 4 * 16 + unat b div 16), b64_char (unat b mod 16 * 4), CHR ''='']"
| "toBase64 (a # b # c # rest) =
     b64_char (unat a div 4) # b64_char (unat a mod 4 * 16 + unat b div 16) # b64_char (unat b mod 16 * 4 + unat c div 64)
       # b64_char (unat c mod 64) # toBase64 rest"

fun strict_b64 :: "string \<Rightarrow> bool" where
  \<comment> \<open>\<open>STRICT_B64\<close>: groups of four, the last of which may be padded\<close>
  "strict_b64 [] = True"
| "strict_b64 [p, q, r, s] \<longleftrightarrow> is_b64 p \<and> is_b64 q \<and> (is_b64 r \<and> (is_b64 s \<or> s = CHR ''='') \<or> r = CHR ''='' \<and> s = CHR ''='')"
| "strict_b64 (p # q # r # s # rest) \<longleftrightarrow> is_b64 p \<and> is_b64 q \<and> is_b64 r \<and> is_b64 s \<and> strict_b64 rest"
| "strict_b64 _ = False"

definition byte :: "nat \<Rightarrow> 8 word" where
  "byte n = word_of_nat n"

fun fromBase64 :: "string \<Rightarrow> bytes" where
  \<comment> \<open>on strict text, the only text it is called on\<close>
  "fromBase64 (p # q # r # s # rest) =
     (if r = CHR ''='' then [byte (val p * 4 + val q div 16)]
      else if s = CHR ''='' then [byte (val p * 4 + val q div 16), byte (val q mod 16 * 16 + val r div 4)]
      else byte (val p * 4 + val q div 16) # byte (val q mod 16 * 16 + val r div 4) # byte (val r mod 4 * 64 + val s) # fromBase64 rest)"
| "fromBase64 _ = []"

definition b64Bytes :: "js_value option \<Rightarrow> bytes option" where
  "b64Bytes v = (case v of Some (JStr s) \<Rightarrow> (if s = [] \<or> \<not> strict_b64 s then None else Some (fromBase64 s)) | _ \<Rightarrow> None)"

lemma index_of_nth: "distinct xs \<Longrightarrow> n < length xs \<Longrightarrow> index_of (xs ! n) xs = Some n"
proof (induction xs arbitrary: n)
  case (Cons x xs)
  then show ?case by (cases n) auto
qed simp

lemma b64_alphabet_facts: "length b64_alphabet = 64" "distinct b64_alphabet" "CHR ''='' \<notin> set b64_alphabet"
  by (simp_all add: b64_alphabet_def)

lemma b64_char_facts:
  assumes "n < 64"
  shows "val (b64_char n) = n" and "is_b64 (b64_char n)" and "b64_char n \<noteq> CHR ''=''"
proof -
  have i: "b64_val (b64_char n) = Some n"
    using assms index_of_nth [OF b64_alphabet_facts(2)] by (simp add: b64_val_def b64_char_def b64_alphabet_facts(1))
  then show "val (b64_char n) = n" "is_b64 (b64_char n)" by (simp_all add: val_def is_b64_def)
  show "b64_char n \<noteq> CHR ''=''" using assms b64_alphabet_facts nth_mem [of n b64_alphabet] by (metis b64_char_def)
qed

lemma byte_less: "unat (a :: 8 word) < 256"
  using unsigned_less [of a] by simp

lemma byte_unat [simp]: "byte (unat a) = a"
  by (simp add: byte_def)

lemma byte_parts:
  fixes a b c :: "8 word"
  shows "unat a div 4 < 64" "unat a mod 4 * 16 + unat b div 16 < 64" "unat b mod 16 * 4 + unat c div 64 < 64" "unat c mod 64 < 64"
    "unat a mod 4 * 16 < 64" "unat b mod 16 * 4 < 64"
  using byte_less [of a] byte_less [of b] byte_less [of c] by linarith+

lemma byte_quotients:
  fixes b :: "8 word"
  shows "unat b div 16 div 16 = 0" "unat b div 16 mod 16 = unat b div 16" "unat b div 64 div 4 = 0" "unat b div 64 mod 4 = unat b div 64"
proof -
  have "unat b div 16 < 16" "unat b div 64 < 4" using byte_less [of b] by linarith+
  then show "unat b div 16 div 16 = 0" "unat b div 16 mod 16 = unat b div 16" "unat b div 64 div 4 = 0" "unat b div 64 mod 4 = unat b div 64"
    by simp_all
qed

lemmas b64_group = byte_parts b64_char_facts byte_quotients

lemma strict_toBase64: "strict_b64 (toBase64 bs)"
proof (induction bs rule: toBase64.induct)
  case (4 a b c rest)
  then show ?case by (cases "toBase64 rest") (simp_all add: b64_group)
qed (simp_all add: b64_group)

lemma from_toBase64: "fromBase64 (toBase64 bs) = bs"
  by (induction bs rule: toBase64.induct) (simp_all add: b64_group)

lemma toBase64_empty: "toBase64 bs = [] \<longleftrightarrow> bs = []"
  by (cases bs rule: toBase64.cases) simp_all

lemma b64Bytes_toBase64: "bs \<noteq> [] \<Longrightarrow> b64Bytes (Some (JStr (toBase64 bs))) = Some bs"
  by (simp add: b64Bytes_def strict_toBase64 from_toBase64 toBase64_empty)

subsection \<open>The envelope\<close>

record encrypted_payload =
  ep_ciphertext :: bytes
  ep_nonce :: bytes
  ep_tag :: bytes

record envelope_data =
  en_payload :: encrypted_payload
  en_version :: "int option"

definition NONCE_BYTES :: nat where "NONCE_BYTES = 12"
definition TAG_BYTES :: nat where "TAG_BYTES = 16"

text \<open>
  \<open>JSON.stringify\<close> and \<open>JSON.parse\<close>, the text encoder and decoder, and the cipher of \<open>@motebit/encryption\<close>; the randomness of the
  nonce is an argument of \<open>encrypt\<close>.
\<close>

record ('key, 'rnd) codec =
  cd_stringify :: "js_value \<Rightarrow> string"
  cd_parse :: "string \<Rightarrow> js_value option"
  cd_encode :: "string \<Rightarrow> bytes"
  cd_decode :: "bytes \<Rightarrow> string"
  cd_encrypt :: "'rnd \<Rightarrow> bytes \<Rightarrow> 'key \<Rightarrow> encrypted_payload"
  cd_decrypt :: "encrypted_payload \<Rightarrow> 'key \<Rightarrow> bytes option"

definition encodeEnvelopeData :: "('key, 'rnd) codec \<Rightarrow> encrypted_payload \<Rightarrow> int \<Rightarrow> string" where
  "encodeEnvelopeData cd p version =
     cd_stringify cd (JObj [(''c'', JStr (toBase64 (ep_ciphertext p))), (''n'', JStr (toBase64 (ep_nonce p))),
       (''t'', JStr (toBase64 (ep_tag p))), (''v'', JNum (of_int version))])"

fun key_version :: "js_value \<Rightarrow> int option" where
  \<comment> \<open>a positive safe integer\<close>
  "key_version (JNum x) = (if x = of_int \<lfloor>x\<rfloor> \<and> isSafeInteger \<lfloor>x\<rfloor> \<and> 0 < x then Some \<lfloor>x\<rfloor> else None)"
| "key_version _ = None"

definition parseEnvelopeData :: "('key, 'rnd) codec \<Rightarrow> js_value option \<Rightarrow> envelope_data option" where
  "parseEnvelopeData cd data =
     (case data of
        Some (JStr text) \<Rightarrow>
          (case cd_parse cd text of
             Some (JObj obj) \<Rightarrow>
               (let hasV = jsm_has obj ''v''
                in if length obj \<noteq> (if hasV then 4 else 3) \<or> \<not> jsm_has obj ''c'' \<or> \<not> jsm_has obj ''n'' \<or> \<not> jsm_has obj ''t'' then None
                   else if hasV \<and> key_version (the (jsm_get obj ''v'')) = None then None
                   else (case (b64Bytes (jsm_get obj ''c''), b64Bytes (jsm_get obj ''n''), b64Bytes (jsm_get obj ''t'')) of
                           (Some ciphertext, Some nonce, Some tag) \<Rightarrow>
                             (if length nonce \<noteq> NONCE_BYTES \<or> length tag \<noteq> TAG_BYTES then None
                              else Some \<lparr> en_payload = \<lparr> ep_ciphertext = ciphertext, ep_nonce = nonce, ep_tag = tag \<rparr>,
                                          en_version = (if hasV then key_version (the (jsm_get obj ''v'')) else None) \<rparr>)
                         | _ \<Rightarrow> None))
           | _ \<Rightarrow> None)
      | _ \<Rightarrow> None)"

datatype payload_form = E2e | Plaintext | Malformed

definition classifyEventPayload :: "('key, 'rnd) codec \<Rightarrow> payload option \<Rightarrow> payload_form" where
  \<comment> \<open>none is a payload that is not an object; a stored value has no \<open>undefined\<close> fields\<close>
  "classifyEventPayload cd payload =
     (case payload of
        None \<Rightarrow> Malformed
      | Some p \<Rightarrow>
          (case jsm_get p ''_encrypted'' of
             None \<Rightarrow> Plaintext
           | Some marker \<Rightarrow>
               (if marker \<noteq> JBool True then Malformed
                else if length p \<noteq> 2 \<or> \<not> jsm_has p ''_data'' then Malformed
                else if parseEnvelopeData cd (jsm_get p ''_data'') \<noteq> None then E2e else Malformed)))"

definition isEncryptedPayload :: "('key, 'rnd) codec \<Rightarrow> payload option \<Rightarrow> bool" where
  "isEncryptedPayload cd payload \<longleftrightarrow> classifyEventPayload cd payload = E2e"

datatype payload_mode = E2eMode | RawMode

fun assertPushable :: "('key, 'rnd) codec \<Rightarrow> event_entry list \<Rightarrow> payload_mode \<Rightarrow> string option" where
  \<comment> \<open>the event the refusal names, if any\<close>
  "assertPushable cd entries RawMode = None"
| "assertPushable cd [] E2eMode = None"
| "assertPushable cd (e # es) E2eMode = (if \<not> isEncryptedPayload cd (ev_payload e) then Some (ev_event_id e) else assertPushable cd es E2eMode)"

subsection \<open>Sealing and opening\<close>

record 'key key_provider =
  kp_current :: "'key \<times> int"
  kp_getKey :: "int \<Rightarrow> 'key option"

definition singleKeyProvider :: "'key \<Rightarrow> 'key key_provider" where
  "singleKeyProvider k = \<lparr> kp_current = (k, 1), kp_getKey = (\<lambda>v. if v = 1 then Some k else None) \<rparr>"

definition encryptPayload :: "('key, 'rnd) codec \<Rightarrow> 'key key_provider \<Rightarrow> 'rnd \<Rightarrow> payload \<Rightarrow> string" where
  "encryptPayload cd kp rnd p =
     (let (key, version) = kp_current kp
      in encodeEnvelopeData cd (cd_encrypt cd rnd (cd_encode cd (cd_stringify cd (JObj p))) key) version)"

definition sealEntry :: "('key, 'rnd) codec \<Rightarrow> 'key key_provider \<Rightarrow> 'rnd \<Rightarrow> event_entry \<Rightarrow> payload \<Rightarrow> event_entry" where
  \<comment> \<open>what \<open>append\<close> hands to the inner adapter for an entry with payload \<open>p\<close>\<close>
  "sealEntry cd kp rnd e p = e\<lparr>ev_payload := Some [(''_encrypted'', JBool True), (''_data'', JStr (encryptPayload cd kp rnd p))]\<rparr>"

datatype open_error = NotAnEnvelope | KeyNotFound int | DecryptFailed | NotJson

definition openEnvelope :: "('key, 'rnd) codec \<Rightarrow> 'key key_provider \<Rightarrow> event_entry \<Rightarrow> open_error + event_entry" where
  "openEnvelope cd kp e =
     (case classifyEventPayload cd (ev_payload e) of
        Malformed \<Rightarrow> Inl NotAnEnvelope
      | Plaintext \<Rightarrow> Inr e
      | E2e \<Rightarrow>
          (let data = the (parseEnvelopeData cd (jsm_get (the (ev_payload e)) ''_data''));
               version = (case en_version data of None \<Rightarrow> 1 | Some v \<Rightarrow> v)
           in case kp_getKey kp version of
                None \<Rightarrow> Inl (KeyNotFound version)
              | Some key \<Rightarrow>
                  (case cd_decrypt cd (en_payload data) key of
                     None \<Rightarrow> Inl DecryptFailed
                   | Some text \<Rightarrow>
                       (case cd_parse cd (cd_decode cd text) of
                          None \<Rightarrow> Inl NotJson
                        | Some (JObj p) \<Rightarrow> Inr (e\<lparr>ev_payload := Some p\<rparr>)
                        | Some _ \<Rightarrow> Inr (e\<lparr>ev_payload := None\<rparr>)))))"

text \<open>What the code relies on of its libraries.\<close>

definition codec_ok :: "('key, 'rnd) codec \<Rightarrow> bool" where
  "codec_ok cd \<longleftrightarrow> (\<forall>p. cd_parse cd (cd_stringify cd (JObj p)) = Some (JObj p)) \<and> (\<forall>t. cd_decode cd (cd_encode cd t) = t)
     \<and> (\<forall>t. cd_stringify cd t \<noteq> []) \<and> (\<forall>t. t \<noteq> [] \<longrightarrow> cd_encode cd t \<noteq> [])
     \<and> (\<forall>rnd t k. cd_decrypt cd (cd_encrypt cd rnd t k) k = Some t \<and> (t \<noteq> [] \<longrightarrow> ep_ciphertext (cd_encrypt cd rnd t k) \<noteq> [])
         \<and> length (ep_nonce (cd_encrypt cd rnd t k)) = NONCE_BYTES \<and> length (ep_tag (cd_encrypt cd rnd t k)) = TAG_BYTES)"

definition provider_ok :: "'key key_provider \<Rightarrow> bool" where
  \<comment> \<open>the current key is found again under its version, a positive safe integer\<close>
  "provider_ok kp \<longleftrightarrow> kp_getKey kp (snd (kp_current kp)) = Some (fst (kp_current kp))
     \<and> 0 < snd (kp_current kp) \<and> isSafeInteger (snd (kp_current kp))"

lemma parse_encoded:
  assumes "codec_ok cd" and "ep_ciphertext p \<noteq> []" and "length (ep_nonce p) = NONCE_BYTES" and "length (ep_tag p) = TAG_BYTES"
    and "0 < v" and "isSafeInteger v"
  shows "parseEnvelopeData cd (Some (JStr (encodeEnvelopeData cd p v))) = Some \<lparr> en_payload = p, en_version = Some v \<rparr>"
proof -
  have ne: "ep_nonce p \<noteq> []" "ep_tag p \<noteq> []" using assms(3,4) by (auto simp add: NONCE_BYTES_def TAG_BYTES_def)
  show ?thesis
    using assms ne unfolding codec_ok_def
    by (simp add: parseEnvelopeData_def encodeEnvelopeData_def jsm_has_def jsm_get_def b64Bytes_toBase64)
qed

lemma sealed_envelope:
  assumes "codec_ok cd" and "provider_ok kp"
  shows "parseEnvelopeData cd (Some (JStr (encryptPayload cd kp rnd p)))
    = Some \<lparr> en_payload = cd_encrypt cd rnd (cd_encode cd (cd_stringify cd (JObj p))) (fst (kp_current kp)), en_version = Some (snd (kp_current kp)) \<rparr>"
proof -
  obtain key version where kv: "kp_current kp = (key, version)" by fastforce
  show ?thesis
    using assms parse_encoded [OF assms(1)] unfolding codec_ok_def provider_ok_def kv encryptPayload_def by simp
qed

lemma classify_sealed:
  assumes "codec_ok cd" and "provider_ok kp"
  shows "classifyEventPayload cd (ev_payload (sealEntry cd kp rnd e p)) = E2e"
  using sealed_envelope [OF assms] by (simp add: classifyEventPayload_def sealEntry_def jsm_get_def jsm_has_def)

text \<open>(C33) An event sealed under the current key opens, under the same provider, to exactly the event with its payload, and every
  adapter that insists on encryption accepts it.\<close>

theorem envelope_round_trip:
  assumes "codec_ok cd" and "provider_ok kp"
  shows "openEnvelope cd kp (sealEntry cd kp rnd e p) = Inr (e\<lparr>ev_payload := Some p\<rparr>)
    \<and> assertPushable cd [sealEntry cd kp rnd e p] mode = None"
proof
  show "openEnvelope cd kp (sealEntry cd kp rnd e p) = Inr (e\<lparr>ev_payload := Some p\<rparr>)"
    using assms classify_sealed [OF assms] sealed_envelope [OF assms]
    by (simp add: openEnvelope_def sealEntry_def jsm_get_def codec_ok_def provider_ok_def)
  show "assertPushable cd [sealEntry cd kp rnd e p] mode = None"
    using classify_sealed [OF assms] by (cases mode) (simp_all add: isEncryptedPayload_def)
qed

text \<open>A codec for the examples: texts number the values, the cipher leaves its text readable.\<close>

instance js_value :: countable
  by countable_datatype

definition demo_codec :: "(unit, unit) codec" where
  "demo_codec = \<lparr> cd_stringify = (\<lambda>v. replicate (Suc (to_nat v)) CHR ''x''),
     cd_parse = (\<lambda>s. if s = [] then None else Some (from_nat (length s - 1))),
     cd_encode = map (\<lambda>c. word_of_nat (of_char c)), cd_decode = map (\<lambda>w. char_of (unat w)),
     cd_encrypt = (\<lambda>_ t _. \<lparr> ep_ciphertext = t, ep_nonce = replicate NONCE_BYTES 0, ep_tag = replicate TAG_BYTES 0 \<rparr>),
     cd_decrypt = (\<lambda>p _. Some (ep_ciphertext p)) \<rparr>"

lemma byte_of_char: "char_of (unat (word_of_nat (of_char c) :: 8 word)) = c"
proof -
  have "(of_char c :: nat) < 256" by (rule nat_of_char_less_256)
  then show ?thesis by (simp add: unsigned_of_nat take_bit_nat_eq_self)
qed

lemma demo_codec_ok: "codec_ok demo_codec"
  by (simp add: codec_ok_def demo_codec_def comp_def byte_of_char)

lemma single_key_ok: "provider_ok (singleKeyProvider k)"
  by (simp add: provider_ok_def singleKeyProvider_def isSafeInteger_def max_safe_integer_def)

theorem envelope_round_trip_witness:
  "openEnvelope demo_codec (singleKeyProvider ()) (sealEntry demo_codec (singleKeyProvider ()) () (demo_event ''a'' ''m'' 1) [(''k'', JNull)])
     = Inr ((demo_event ''a'' ''m'' 1)\<lparr>ev_payload := Some [(''k'', JNull)]\<rparr>)"
  using envelope_round_trip [OF demo_codec_ok single_key_ok] by blast

text \<open>What the three answers mean, and that opening keeps everything but the payload.\<close>

lemma classify_plaintext: "classifyEventPayload cd (ev_payload e) = Plaintext \<longleftrightarrow> plaintext e"
  by (auto simp add: classifyEventPayload_def plaintext_def jsm_has_iff split: option.splits if_splits)

lemma openEnvelope_keeps:
  "openEnvelope cd kp e = Inr e' \<Longrightarrow> \<exists>p. e' = e\<lparr>ev_payload := p\<rparr>"
  by (auto simp add: openEnvelope_def Let_def split: payload_form.splits option.splits js_value.splits intro: exI [of _ "ev_payload e"])

text \<open>A transport that insists on encryption accepts a batch exactly when every payload in it is the marker and a well-formed
  envelope and nothing else; one that is not refuses the batch whole, naming the first such event.\<close>

theorem e2e_push_is_sealed:
  "assertPushable cd entries E2eMode =
     map_option ev_event_id (find (\<lambda>e. \<not> isEncryptedPayload cd (ev_payload e)) entries)
   \<and> (isEncryptedPayload cd (ev_payload e) \<longleftrightarrow>
        (\<exists>data env. ev_payload e \<in> {Some [(''_encrypted'', JBool True), (''_data'', data)], Some [(''_data'', data), (''_encrypted'', JBool True)]}
           \<and> parseEnvelopeData cd (Some data) = Some env))"
proof
  show "assertPushable cd entries E2eMode = map_option ev_event_id (find (\<lambda>e. \<not> isEncryptedPayload cd (ev_payload e)) entries)"
    by (induction entries) simp_all
  show "isEncryptedPayload cd (ev_payload e) \<longleftrightarrow>
        (\<exists>data env. ev_payload e \<in> {Some [(''_encrypted'', JBool True), (''_data'', data)], Some [(''_data'', data), (''_encrypted'', JBool True)]}
           \<and> parseEnvelopeData cd (Some data) = Some env)"
    (is "_ \<longleftrightarrow> ?exact")
  proof
    assume "isEncryptedPayload cd (ev_payload e)"
    then obtain p d where p: "ev_payload e = Some p" "jsm_get p ''_encrypted'' = Some (JBool True)" "length p = 2"
      "jsm_get p ''_data'' = Some d" "parseEnvelopeData cd (Some d) \<noteq> None"
      by (auto simp add: isEncryptedPayload_def classifyEventPayload_def jsm_has_iff split: option.splits if_splits)
    obtain x y where "p = [x, y]" using p(3) by (auto simp add: length_Suc_conv numeral_2_eq_2)
    with p show ?exact by (cases x; cases y) (auto simp add: jsm_get_def split: if_splits)
  next
    assume ?exact
    then show "isEncryptedPayload cd (ev_payload e)"
      by (auto simp add: isEncryptedPayload_def classifyEventPayload_def jsm_get_def jsm_has_def)
  qed
qed

end
