(* ===== verification/SeqCursor.thy ===== *)
theory SeqCursor
  imports Complex_Main RelaySeq
begin

text \<open>
  A device's pull by the relay's ingest sequence, \<open>packages/sync-engine/src/seq-cursor.ts\<close>: the cursor store with its record of
  skipped events, what the relay is known to hold, the deduplication of a page and the pull loop. The device's state is the local
  event log, the cursor store, the record of what each relay holds and the list of skips reported through \<open>onSkipped\<close>. The remote
  is a state of its own that may change with every request and may fail one. The interface \<open>relay_stream\<close> says
  what a remote promises about its pages; the lemmas about the cursor are proved in it, and it is interpreted on the relay's page.
\<close>

subsection \<open>The cursor store\<close>

record skipped_event =
  sk_event_id :: string
  sk_seq :: "int option"
  sk_detail :: "string option"

record seq_cursor_store =
  cs_cursors :: "(string, int) jsmap"
  cs_skipped :: "(string \<times> skipped_event) list"
  cs_totals :: "(string, int) jsmap"

definition SKIPPED_SYNC_EVENTS_KEPT :: nat where
  "SKIPPED_SYNC_EVENTS_KEPT = 1000"

definition emptyCursorStore :: seq_cursor_store where
  "emptyCursorStore = \<lparr> cs_cursors = [], cs_skipped = [], cs_totals = [] \<rparr>"

definition getSyncSeqCursor :: "string \<Rightarrow> seq_cursor_store \<Rightarrow> int option" where
  "getSyncSeqCursor key cs = jsm_get (cs_cursors cs) key"

definition setSyncSeqCursor :: "string \<Rightarrow> int \<Rightarrow> seq_cursor_store \<Rightarrow> seq_cursor_store" where
  "setSyncSeqCursor key n cs = cs\<lparr>cs_cursors := jsm_set key n (cs_cursors cs)\<rparr>"

definition listSyncSeqCursorKeys :: "string \<Rightarrow> seq_cursor_store \<Rightarrow> string list" where
  "listSyncSeqCursorKeys pre cs = filter (\<lambda>k. starts_with k pre) (jsm_keys (cs_cursors cs))"

definition recordSkippedSyncEvent :: "string \<Rightarrow> skipped_event \<Rightarrow> seq_cursor_store \<Rightarrow> seq_cursor_store" where
  "recordSkippedSyncEvent key sk cs =
     (if list_ex (\<lambda>(k, s). k = key \<and> sk_event_id s = sk_event_id sk) (cs_skipped cs) then cs
      else (let skipped = cs_skipped cs @ [(key, sk)];
                total = (case jsm_get (cs_totals cs) key of None \<Rightarrow> 0 | Some n \<Rightarrow> n) + 1;
                mine = filter (\<lambda>(k, s). k = key) skipped
            in cs\<lparr>cs_skipped := foldl (\<lambda>xs old. remove1 old xs) skipped (take (length mine - SKIPPED_SYNC_EVENTS_KEPT) mine),
                  cs_totals := jsm_set key total (cs_totals cs)\<rparr>))"

definition countSkippedSyncEvents :: "string \<Rightarrow> seq_cursor_store \<Rightarrow> int" where
  "countSkippedSyncEvents key cs = (case jsm_get (cs_totals cs) key of None \<Rightarrow> 0 | Some n \<Rightarrow> n)"

definition skipped_of :: "string \<Rightarrow> seq_cursor_store \<Rightarrow> (string \<times> skipped_event) list" where
  "skipped_of key cs = filter (\<lambda>(k, s). k = key) (cs_skipped cs)"

subsection \<open>What a relay is known to hold\<close>

type_synonym relay_held = "(string, (string, int) jsmap) jsmap"

definition RELAY_HELD_KEPT :: nat where
  "RELAY_HELD_KEPT = 50000"

lemma starts_with_length: "starts_with s p \<Longrightarrow> length p \<le> length s"
  unfolding starts_with_def by (metis length_take min.cobounded1)

function (sequential) relayStreamOfKey :: "string \<Rightarrow> string" where
  \<comment> \<open>the leading matches of \<open>e2e:\<close> and \<open>raw:\<close> removed\<close>
  "relayStreamOfKey key =
     (if starts_with key ''e2e:'' then relayStreamOfKey (drop 4 key)
      else if starts_with key ''raw:'' then relayStreamOfKey (drop 4 key)
      else key)"
  by pat_completeness auto
termination
  by (relation "measure length") (auto dest: starts_with_length)

declare relayStreamOfKey.simps [simp del]

fun note_held :: "event_entry list \<Rightarrow> (string, int) jsmap \<Rightarrow> (string, int) jsmap" where
  "note_held [] held = held"
| "note_held (e # es) held = note_held es (jsm_set (ev_event_id e) (ev_version_clock e) (jsm_delete (ev_event_id e) held))"

definition noteRelayHolds :: "string \<Rightarrow> event_entry list \<Rightarrow> relay_held \<Rightarrow> relay_held" where
  \<comment> \<open>the loop that deletes first keys while more than the bound are kept drops the surplus\<close>
  "noteRelayHolds relayStream events perRelay =
     (let held = note_held events (case jsm_get perRelay relayStream of None \<Rightarrow> [] | Some h \<Rightarrow> h)
      in jsm_set relayStream (drop (length held - RELAY_HELD_KEPT) held) perRelay)"

definition relayHolds :: "string \<Rightarrow> string \<Rightarrow> relay_held \<Rightarrow> bool" where
  "relayHolds relayStream eventId perRelay =
     (case jsm_get perRelay relayStream of None \<Rightarrow> False | Some held \<Rightarrow> jsm_has held eventId)"

subsection \<open>Deduplicating a page\<close>

definition getHeldEventIds :: "string list \<Rightarrow> event_store \<Rightarrow> string set" where
  \<comment> \<open>of the stores that look ids up by key\<close>
  "getHeldEventIds ids s = set (filter (\<lambda>i. i \<in> set ids) (event_ids s))"

definition min_clock :: "event_entry list \<Rightarrow> int" where
  \<comment> \<open>asked of non-empty lists only\<close>
  "min_clock es = Min (set (map ev_version_clock es))"

fun take_fresh :: "event_entry list \<Rightarrow> string set \<Rightarrow> event_entry list" where
  "take_fresh [] held = []"
| "take_fresh (e # es) held =
     (if ev_event_id e \<in> held then take_fresh es held else e # take_fresh es (insert (ev_event_id e) held))"

definition after_clock :: "string \<Rightarrow> int \<Rightarrow> event_filter" where
  "after_clock m c = \<lparr> ef_motebit_id = Some m, ef_event_types = None, ef_after_timestamp = None, ef_before_timestamp = None,
     ef_after_version_clock = Some c, ef_limit = None \<rparr>"

definition filterUnseen :: "bool \<Rightarrow> event_store \<Rightarrow> string \<Rightarrow> event_entry list \<Rightarrow> event_entry list" where
  \<comment> \<open>the flag tells whether the local store looks ids up by key\<close>
  "filterUnseen byKey localStore motebitId events =
     (let mine = filter (\<lambda>e. ev_motebit_id e = motebitId) events
      in if mine = [] then []
         else take_fresh mine
           (if byKey then getHeldEventIds (map ev_event_id mine) localStore
            else set (map ev_event_id (log_query (after_clock motebitId (min_clock mine - 1)) localStore))))"

subsection \<open>The pull\<close>

datatype seq_pull_result =
    SeqPage "(int \<times> event_entry) list" int bool int \<comment> \<open>entries, \<open>nextSeq\<close>, \<open>hasMore\<close>, \<open>latestSeq\<close>\<close>
  | ClockPage "event_entry list"

record 'r seq_source =
  ss_key :: string
  ss_pull :: "int \<Rightarrow> int \<Rightarrow> 'r \<Rightarrow> (string + seq_pull_result) \<times> 'r"
  ss_decode :: "(event_entry \<Rightarrow> string + event_entry) option"

record sync_client =
  sc_local :: event_store
  sc_cursors :: seq_cursor_store
  sc_held :: relay_held
  sc_reported :: "skipped_event list"

datatype pull_mode = SeqMode | ClockMode

record pull_outcome =
  pl_mode :: pull_mode
  pl_fresh :: "event_entry list"
  pl_skipped :: "skipped_event list"
  pl_encryptedOnRawPath :: int

definition MAX_SEQ_PAGES_PER_PULL :: nat where
  "MAX_SEQ_PAGES_PER_PULL = 100"

definition skip_event :: "string \<Rightarrow> skipped_event \<Rightarrow> pull_outcome \<times> sync_client \<Rightarrow> pull_outcome \<times> sync_client" where
  "skip_event key sk = (\<lambda>(out, c).
     (out\<lparr>pl_skipped := pl_skipped out @ [sk]\<rparr>,
      c\<lparr>sc_cursors := recordSkippedSyncEvent key sk (sc_cursors c), sc_reported := sc_reported c @ [sk]\<rparr>))"

definition append_fresh :: "event_entry \<Rightarrow> pull_outcome \<times> sync_client \<Rightarrow> pull_outcome \<times> sync_client" where
  "append_fresh e = (\<lambda>(out, c). (out\<lparr>pl_fresh := pl_fresh out @ [e]\<rparr>, c\<lparr>sc_local := log_append e (sc_local c)\<rparr>))"

fun apply_unseen :: "'r seq_source \<Rightarrow> (string \<Rightarrow> int option) \<Rightarrow> event_entry list \<Rightarrow> pull_outcome \<times> sync_client \<Rightarrow> pull_outcome \<times> sync_client" where
  "apply_unseen src seqOf [] x = x"
| "apply_unseen src seqOf (e # es) x =
     apply_unseen src seqOf es
       (case ss_decode src of
          Some decode \<Rightarrow>
            (case decode e of
               Inl err \<Rightarrow> skip_event (ss_key src) \<lparr> sk_event_id = ev_event_id e, sk_seq = seqOf (ev_event_id e), sk_detail = Some err \<rparr> x
             | Inr entry \<Rightarrow> append_fresh entry x)
        | None \<Rightarrow>
            (if \<not> plaintext e then (case x of (out, c) \<Rightarrow> (out\<lparr>pl_encryptedOnRawPath := pl_encryptedOnRawPath out + 1\<rparr>, c))
             else append_fresh e x))"

fun page_events :: "seq_pull_result \<Rightarrow> event_entry list" where
  "page_events (SeqPage entries _ _ _) = map snd entries"
| "page_events (ClockPage events) = events"

definition note_page :: "'r seq_source \<Rightarrow> string \<Rightarrow> seq_pull_result \<Rightarrow> sync_client \<Rightarrow> sync_client" where
  "note_page src motebitId res c =
     c\<lparr>sc_held := noteRelayHolds (relayStreamOfKey (ss_key src)) (filter (\<lambda>e. ev_motebit_id e = motebitId) (page_events res)) (sc_held c)\<rparr>"

definition seqs_of :: "(int \<times> event_entry) list \<Rightarrow> string \<Rightarrow> int option" where
  \<comment> \<open>a later entry of the same id overwrites an earlier one\<close>
  "seqs_of entries i = map_of (rev (map (\<lambda>(s, e). (ev_event_id e, s)) entries)) i"

definition save_cursor :: "'r seq_source \<Rightarrow> int \<Rightarrow> int \<Rightarrow> bool \<Rightarrow> sync_client \<Rightarrow> sync_client" where
  "save_cursor src cursor nextSeq resetOnce c =
     (if nextSeq > cursor then c\<lparr>sc_cursors := setSyncSeqCursor (ss_key src) nextSeq (sc_cursors c)\<rparr>
      else if resetOnce \<and> nextSeq = 0 then c\<lparr>sc_cursors := setSyncSeqCursor (ss_key src) 0 (sc_cursors c)\<rparr>
      else c)"

definition process_page :: "'r seq_source \<Rightarrow> bool \<Rightarrow> string \<Rightarrow> (string \<Rightarrow> int option) \<Rightarrow> event_entry list \<Rightarrow>
    pull_outcome \<times> sync_client \<Rightarrow> pull_outcome \<times> sync_client" where
  "process_page src byKey motebitId seqOf events = (\<lambda>(out, c).
     apply_unseen src seqOf (filterUnseen byKey (sc_local c) motebitId events) (out, c))"

function (sequential) pull_loop :: "'r seq_source \<Rightarrow> bool \<Rightarrow> string \<Rightarrow> int \<Rightarrow> nat \<Rightarrow> int \<Rightarrow> bool \<Rightarrow> pull_outcome \<Rightarrow> sync_client \<Rightarrow> 'r \<Rightarrow>
    (string + pull_outcome) \<times> sync_client \<times> 'r" where
  "pull_loop src byKey motebitId fallback 0 cursor resetOnce out c r = (Inr out, c, r)"
| "pull_loop src byKey motebitId fallback (Suc pages) cursor resetOnce out c r =
     (case ss_pull src cursor fallback r of
        (Inl err, r') \<Rightarrow> (Inl err, c, r')
      | (Inr (ClockPage events), r') \<Rightarrow>
          (let (out', c') = process_page src byKey motebitId (\<lambda>_. None) events (out, note_page src motebitId (ClockPage events) c)
           in (Inr (out'\<lparr>pl_mode := ClockMode\<rparr>), c', r'))
      | (Inr (SeqPage entries nextSeq hasMore latestSeq), r') \<Rightarrow>
          (let c1 = note_page src motebitId (SeqPage entries nextSeq hasMore latestSeq) c
           in if latestSeq < cursor \<and> \<not> resetOnce
              then pull_loop src byKey motebitId fallback (Suc pages) 0 True out c1 r'
              else (let (out', c2) = process_page src byKey motebitId (seqs_of entries) (map snd entries) (out, c1);
                        c3 = save_cursor src cursor nextSeq resetOnce c2;
                        cursor' = (if nextSeq > cursor then nextSeq else cursor)
                    in if \<not> hasMore then (Inr out', c3, r')
                       else pull_loop src byKey motebitId fallback pages cursor' resetOnce out' c3 r')))"
  by pat_completeness auto
termination
  by (relation "measure (\<lambda>(src, byKey, m, f, pages, cursor, resetOnce, out, c, r). pages + (if resetOnce then 0 else 1))")
     (auto split: if_splits)

definition emptyOutcome :: pull_outcome where
  "emptyOutcome = \<lparr> pl_mode = SeqMode, pl_fresh = [], pl_skipped = [], pl_encryptedOnRawPath = 0 \<rparr>"

definition cursor_of :: "string \<Rightarrow> sync_client \<Rightarrow> int" where
  "cursor_of key c = (case getSyncSeqCursor key (sc_cursors c) of None \<Rightarrow> 0 | Some n \<Rightarrow> n)"

definition pullBySeq :: "'r seq_source \<Rightarrow> bool \<Rightarrow> string \<Rightarrow> int \<Rightarrow> nat option \<Rightarrow> sync_client \<Rightarrow> 'r \<Rightarrow>
    (string + pull_outcome) \<times> sync_client \<times> 'r" where
  "pullBySeq src byKey motebitId fallback maxPages c r =
     pull_loop src byKey motebitId fallback (case maxPages of None \<Rightarrow> MAX_SEQ_PAGES_PER_PULL | Some n \<Rightarrow> n)
       (cursor_of (ss_key src) c) False emptyOutcome c r"

subsection \<open>The record of skipped events\<close>

definition skip_key :: "string \<times> skipped_event \<Rightarrow> string \<times> string" where
  "skip_key = (\<lambda>(k, s). (k, sk_event_id s))"

definition skips_wf :: "seq_cursor_store \<Rightarrow> bool" where
  "skips_wf cs \<longleftrightarrow> distinct (map skip_key (cs_skipped cs))
     \<and> (\<forall>key. length (skipped_of key cs) \<le> SKIPPED_SYNC_EVENTS_KEPT \<and> int (length (skipped_of key cs)) \<le> countSkippedSyncEvents key cs)"

lemma foldl_remove1: "distinct xs \<Longrightarrow> foldl (\<lambda>xs old. remove1 old xs) xs ys = filter (\<lambda>x. x \<notin> set ys) xs"
proof (induction ys arbitrary: xs)
  case (Cons y ys)
  have "filter (\<lambda>x. x \<notin> set ys) (removeAll y xs) = filter (\<lambda>x. x \<notin> set (y # ys)) xs"
    by (auto simp add: removeAll_filter_not_eq intro: filter_cong)
  then show ?case using Cons by (simp add: distinct_remove1_removeAll distinct_removeAll)
qed simp

lemma filter_not_taken:
  assumes "distinct xs"
  shows "filter (\<lambda>x. x \<notin> set (take n xs)) xs = drop n xs"
proof -
  have "filter (\<lambda>x. x \<notin> set (take n xs)) (take n xs @ drop n xs) = drop n xs"
    using assms set_take_disj_set_drop_if_distinct [of xs n n] by (simp only: filter_append) (auto intro: filter_True)
  then show ?thesis by simp
qed

text \<open>A new skip is kept as the newest of its stream's rows, of which the oldest go beyond the bound; other streams keep theirs.\<close>

lemma record_skipped:
  assumes wf: "skips_wf cs" and new: "(key, sk_event_id sk) \<notin> set (map skip_key (cs_skipped cs))"
  defines "cs' \<equiv> recordSkippedSyncEvent key sk cs"
  shows "skipped_of key cs' = drop (length (skipped_of key cs) + 1 - SKIPPED_SYNC_EVENTS_KEPT) (skipped_of key cs @ [(key, sk)])"
    and "k \<noteq> key \<Longrightarrow> skipped_of k cs' = skipped_of k cs"
    and "countSkippedSyncEvents k cs' = countSkippedSyncEvents k cs + (if k = key then 1 else 0)"
    and "distinct (map skip_key (cs_skipped cs'))"
proof -
  let ?all = "cs_skipped cs @ [(key, sk)]"
  let ?mine = "filter (\<lambda>(k, s). k = key) ?all"
  let ?old = "take (length ?mine - SKIPPED_SYNC_EVENTS_KEPT) ?mine"
  have "\<not> list_ex (\<lambda>(k, s). k = key \<and> sk_event_id s = sk_event_id sk) (cs_skipped cs)"
    using new by (force simp add: list_ex_iff skip_key_def)
  then have cs': "cs' = cs\<lparr>cs_skipped := foldl (\<lambda>xs old. remove1 old xs) ?all ?old,
      cs_totals := jsm_set key ((case jsm_get (cs_totals cs) key of None \<Rightarrow> 0 | Some n \<Rightarrow> n) + 1) (cs_totals cs)\<rparr>"
    by (simp add: cs'_def recordSkippedSyncEvent_def Let_def)
  have dk: "distinct (map skip_key ?all)" using wf new by (simp add: skips_wf_def) (simp add: skip_key_def)
  then have d: "distinct ?all" by (simp only: distinct_map)
  have rows: "cs_skipped cs' = filter (\<lambda>x. x \<notin> set ?old) ?all" unfolding cs' foldl_remove1 [OF d] by simp
  have mine: "?mine = skipped_of key cs @ [(key, sk)]" by (simp add: skipped_of_def)
  have "skipped_of key cs' = filter (\<lambda>x. x \<notin> set ?old) ?mine"
    unfolding skipped_of_def rows filter_filter by (rule filter_cong) auto
  also have "\<dots> = drop (length ?mine - SKIPPED_SYNC_EVENTS_KEPT) ?mine" by (rule filter_not_taken) (use d in simp)
  finally show "skipped_of key cs' = drop (length (skipped_of key cs) + 1 - SKIPPED_SYNC_EVENTS_KEPT) (skipped_of key cs @ [(key, sk)])"
    unfolding mine by simp
  show "distinct (map skip_key (cs_skipped cs'))" unfolding rows using dk by (rule distinct_map_filter)
  show "countSkippedSyncEvents k cs' = countSkippedSyncEvents k cs + (if k = key then 1 else 0)"
    by (simp add: cs' countSkippedSyncEvents_def jsm_get_set split: option.splits)
  assume "k \<noteq> key"
  have "x \<notin> set ?old" if "fst x = k" for x using that \<open>k \<noteq> key\<close> by (auto dest!: in_set_takeD)
  then have "filter (\<lambda>x. (case x of (k', s) \<Rightarrow> k' = k) \<and> x \<notin> set ?old) ?all = filter (\<lambda>(k', s). k' = k) ?all"
    by (intro filter_cong) (auto simp del: set_append)
  then show "skipped_of k cs' = skipped_of k cs" using \<open>k \<noteq> key\<close> by (simp add: skipped_of_def rows conj_commute)
qed

lemma recorded_skip_is_noop:
  "(key, sk_event_id sk) \<in> set (map skip_key (cs_skipped cs)) \<Longrightarrow> recordSkippedSyncEvent key sk cs = cs"
  by (force simp add: recordSkippedSyncEvent_def list_ex_iff skip_key_def)

lemma record_skipped_wf: "skips_wf cs \<Longrightarrow> skips_wf (recordSkippedSyncEvent key sk cs)"
proof (cases "(key, sk_event_id sk) \<in> set (map skip_key (cs_skipped cs))")
  case False
  assume wf: "skips_wf cs"
  note r = record_skipped [OF wf False]
  have "length (skipped_of k (recordSkippedSyncEvent key sk cs)) \<le> SKIPPED_SYNC_EVENTS_KEPT
    \<and> int (length (skipped_of k (recordSkippedSyncEvent key sk cs))) \<le> countSkippedSyncEvents k (recordSkippedSyncEvent key sk cs)" for k
  proof (cases "k = key")
    case True
    have "int (length (skipped_of key cs)) \<le> countSkippedSyncEvents key cs" using wf by (simp add: skips_wf_def)
    moreover have "length (skipped_of key (recordSkippedSyncEvent key sk cs)) \<le> Suc (length (skipped_of key cs))"
      unfolding r(1) length_drop by simp
    moreover have "length (skipped_of key (recordSkippedSyncEvent key sk cs)) \<le> SKIPPED_SYNC_EVENTS_KEPT"
      unfolding r(1) length_drop by simp
    ultimately show ?thesis using True r(3) [of key] by simp
  qed (use wf r(2,3) in \<open>simp add: skips_wf_def\<close>)
  then show ?thesis using r(4) by (simp add: skips_wf_def)
qed (simp add: recorded_skip_is_noop)

definition record_all :: "(string \<times> skipped_event) list \<Rightarrow> seq_cursor_store" where
  "record_all calls = foldl (\<lambda>cs (k, sk). recordSkippedSyncEvent k sk cs) emptyCursorStore calls"

lemma record_all_wf: "skips_wf (record_all calls)"
proof (induction calls rule: rev_induct)
  case Nil
  then show ?case
    by (simp add: record_all_def skips_wf_def emptyCursorStore_def skipped_of_def countSkippedSyncEvents_def SKIPPED_SYNC_EVENTS_KEPT_def)
next
  case (snoc x xs)
  then show ?case by (simp add: record_all_def record_skipped_wf split: prod.splits)
qed

text \<open>(C34) However many undecryptable events a stream meets, at most a thousand rows are kept for it, the newest among them, and the total
  never counts fewer than are kept.\<close>

theorem skips_stay_bounded:
  "length (skipped_of key (record_all calls)) \<le> SKIPPED_SYNC_EVENTS_KEPT
   \<and> int (length (skipped_of key (record_all calls))) \<le> countSkippedSyncEvents key (record_all calls)
   \<and> list_ex (\<lambda>(k, s). sk_event_id s = sk_event_id sk) (skipped_of key (record_all (calls @ [(key, sk)])))"
proof (intro conjI)
  let ?cs = "record_all calls"
  have wf: "skips_wf ?cs" by (rule record_all_wf)
  then show "length (skipped_of key ?cs) \<le> SKIPPED_SYNC_EVENTS_KEPT" "int (length (skipped_of key ?cs)) \<le> countSkippedSyncEvents key ?cs"
    by (simp_all add: skips_wf_def)
  have cs': "record_all (calls @ [(key, sk)]) = recordSkippedSyncEvent key sk ?cs" by (simp add: record_all_def)
  show "list_ex (\<lambda>(k, s). sk_event_id s = sk_event_id sk) (skipped_of key (record_all (calls @ [(key, sk)])))"
  proof (cases "(key, sk_event_id sk) \<in> set (map skip_key (cs_skipped ?cs))")
    case True
    then show ?thesis unfolding cs' by (force simp add: recorded_skip_is_noop skipped_of_def skip_key_def list_ex_iff)
  next
    case False
    have "length (skipped_of key ?cs) + 1 - SKIPPED_SYNC_EVENTS_KEPT \<le> length (skipped_of key ?cs)"
      by (simp add: SKIPPED_SYNC_EVENTS_KEPT_def)
    then show ?thesis unfolding cs' using record_skipped(1) [OF wf False] by (simp add: list_ex_iff)
  qed
qed

subsection \<open>What one page does to the device\<close>

definition handled :: "'r seq_source \<Rightarrow> sync_client \<Rightarrow> event_entry \<Rightarrow> bool" where
  \<comment> \<open>the event was stored here, or reported as undecryptable, or is one a raw source leaves to the encrypted path\<close>
  "handled src c e \<longleftrightarrow> ev_event_id e \<in> es_seenIds (sc_local c) \<or> ev_event_id e \<in> sk_event_id ` set (sc_reported c)
     \<or> ss_decode src = None \<and> \<not> plaintext e"

definition extends :: "sync_client \<Rightarrow> sync_client \<Rightarrow> bool" where
  "extends c c' \<longleftrightarrow> es_seenIds (sc_local c) \<subseteq> es_seenIds (sc_local c') \<and> set (sc_reported c) \<subseteq> set (sc_reported c')
     \<and> (log_wf (sc_local c) \<longrightarrow> log_wf (sc_local c'))"

definition decode_keeps_ids :: "'r seq_source \<Rightarrow> bool" where
  "decode_keeps_ids src \<longleftrightarrow> (\<forall>decode e e'. ss_decode src = Some decode \<longrightarrow> decode e = Inr e' \<longrightarrow> ev_event_id e' = ev_event_id e)"

lemma extends_refl [simp]: "extends c c"
  by (simp add: extends_def)

lemma extends_trans: "extends a b \<Longrightarrow> extends b c \<Longrightarrow> extends a c"
  by (auto simp add: extends_def)

lemma handled_extends: "handled src c e \<Longrightarrow> extends c c' \<Longrightarrow> handled src c' e"
  by (auto simp add: handled_def extends_def)

lemma handled_same: "handled src c e \<Longrightarrow> same_event e e' \<Longrightarrow> handled src c e'"
  by (simp add: handled_def same_event_def event_key_def)

lemma log_append_seen: "es_seenIds (log_append e s) = insert (ev_event_id e) (es_seenIds s)"
  by (auto simp add: log_append_def)

lemma log_append_wf: "log_wf s \<Longrightarrow> log_wf (log_append e s)"
  using run_op_wf [of s "OpAppend e"] by simp

definition apply_one :: "'r seq_source \<Rightarrow> (string \<Rightarrow> int option) \<Rightarrow> event_entry \<Rightarrow> pull_outcome \<times> sync_client \<Rightarrow> pull_outcome \<times> sync_client" where
  "apply_one src seqOf e x = apply_unseen src seqOf [e] x"

lemma apply_unseen_Cons: "apply_unseen src seqOf (e # es) x = apply_unseen src seqOf es (apply_one src seqOf e x)"
  by (simp add: apply_one_def)

lemmas apply_one_simps = apply_one_def skip_event_def append_fresh_def log_append_seen log_append_wf recordSkippedSyncEvent_def

lemma apply_one_step:
  assumes "decode_keeps_ids src"
  shows "extends (snd x) (snd (apply_one src seqOf e x))"
    and "cs_cursors (sc_cursors (snd (apply_one src seqOf e x))) = cs_cursors (sc_cursors (snd x))"
    and "handled src (snd (apply_one src seqOf e x)) e"
    and "sc_held (snd (apply_one src seqOf e x)) = sc_held (snd x)"
proof -
  obtain out c where x: "x = (out, c)" by fastforce
  show "extends (snd x) (snd (apply_one src seqOf e x))"
    "cs_cursors (sc_cursors (snd (apply_one src seqOf e x))) = cs_cursors (sc_cursors (snd x))"
    "sc_held (snd (apply_one src seqOf e x)) = sc_held (snd x)"
    unfolding x by (auto simp add: apply_one_simps extends_def Let_def split: option.splits sum.splits if_splits)
  show "handled src (snd (apply_one src seqOf e x)) e"
    using assms unfolding x by (auto simp add: apply_one_simps handled_def decode_keeps_ids_def split: option.splits sum.splits)
qed

lemma apply_unseen_step:
  assumes "decode_keeps_ids src"
  shows "extends (snd x) (snd (apply_unseen src seqOf es x))
    \<and> cs_cursors (sc_cursors (snd (apply_unseen src seqOf es x))) = cs_cursors (sc_cursors (snd x))
    \<and> (\<forall>e \<in> set es. handled src (snd (apply_unseen src seqOf es x)) e)
    \<and> sc_held (snd (apply_unseen src seqOf es x)) = sc_held (snd x)"
proof (induction es arbitrary: x)
  case (Cons e es)
  show ?case
    unfolding apply_unseen_Cons using Cons.IH [of "apply_one src seqOf e x"] apply_one_step [OF assms, where x = x and seqOf = seqOf and e = e]
    by (auto intro: extends_trans handled_extends)
qed simp

lemma take_fresh_covers:
  "e \<in> set es \<Longrightarrow> ev_event_id e \<in> held \<or> (\<exists>e' \<in> set (take_fresh es held). ev_event_id e' = ev_event_id e)"
proof (induction es arbitrary: held)
  case (Cons a es)
  then show ?case using Cons.IH [of held] Cons.IH [of "insert (ev_event_id a) held"] by auto
qed simp

lemma take_fresh_subset: "set (take_fresh es held) \<subseteq> set es"
  by (induction es arbitrary: held) auto

lemma filterUnseen_covers:
  assumes "e \<in> set events" and "ev_motebit_id e = m"
  shows "ev_event_id e \<in> set (event_ids s) \<or> (\<exists>e' \<in> set (filterUnseen byKey s m events). ev_event_id e' = ev_event_id e)"
proof -
  let ?mine = "filter (\<lambda>e. ev_motebit_id e = m) events"
  have e: "e \<in> set ?mine" using assms by simp
  then have ne: "?mine \<noteq> []" by (metis empty_iff empty_set)
  show ?thesis
    using take_fresh_covers [OF e, of "if byKey then getHeldEventIds (map ev_event_id ?mine) s
        else set (map ev_event_id (log_query (after_clock m (min_clock ?mine - 1)) s))"] ne
    by (auto simp add: filterUnseen_def Let_def getHeldEventIds_def event_ids_def log_query_def after_clock_def when_given_def split: if_splits)
qed

lemma filterUnseen_subset: "set (filterUnseen byKey s m events) \<subseteq> {e \<in> set events. ev_motebit_id e = m}"
proof
  fix e assume "e \<in> set (filterUnseen byKey s m events)"
  then have "e \<in> set (filter (\<lambda>e. ev_motebit_id e = m) events)"
    using take_fresh_subset [of "filter (\<lambda>e. ev_motebit_id e = m) events"] by (auto simp add: filterUnseen_def Let_def split: if_splits)
  then show "e \<in> {e \<in> set events. ev_motebit_id e = m}" by simp
qed

lemma process_page_step:
  assumes "decode_keeps_ids src" and wf: "log_wf (sc_local c)"
    and same: "\<forall>e \<in> set events. \<forall>e' \<in> set events. ev_event_id e = ev_event_id e' \<longrightarrow> plaintext e = plaintext e'"
    and x'_def: "x' = process_page src byKey m seqOf events (out, c)"
  shows "extends c (snd x')" and "cs_cursors (sc_cursors (snd x')) = cs_cursors (sc_cursors c)"
    and "e \<in> set events \<Longrightarrow> ev_motebit_id e = m \<Longrightarrow> handled src (snd x') e"
    and "sc_held (snd x') = sc_held c"
proof -
  let ?unseen = "filterUnseen byKey (sc_local c) m events"
  have step: "extends c (snd x') \<and> cs_cursors (sc_cursors (snd x')) = cs_cursors (sc_cursors c)
      \<and> (\<forall>e \<in> set ?unseen. handled src (snd x') e) \<and> sc_held (snd x') = sc_held c"
    using apply_unseen_step [OF assms(1), of "(out, c)" seqOf ?unseen] by (simp add: x'_def process_page_def)
  then show "extends c (snd x')" "cs_cursors (sc_cursors (snd x')) = cs_cursors (sc_cursors c)" "sc_held (snd x') = sc_held c" by auto
  assume e: "e \<in> set events" "ev_motebit_id e = m"
  then consider "ev_event_id e \<in> set (event_ids (sc_local c))" | e' where "e' \<in> set ?unseen" "ev_event_id e' = ev_event_id e"
    using filterUnseen_covers by blast
  then show "handled src (snd x') e"
  proof cases
    case 1
    then show ?thesis using wf step by (auto simp add: handled_def extends_def log_wf_def)
  next
    case 2
    then have "e' \<in> set events" using filterUnseen_subset [of byKey "sc_local c" m events] by blast
    then have "plaintext e' = plaintext e" using same e(1) 2(2) by blast
    moreover have "handled src (snd x') e'" using 2(1) step by simp
    ultimately show ?thesis using 2(2) by (simp add: handled_def)
  qed
qed

subsection \<open>What a relay stream promises, and what the cursor then means\<close>

text \<open>
  \<open>live_at r\<close> are the events of the identity the remote holds with their numbers, \<open>latest_at r\<close> the largest number it has assigned.
  Between requests the remote may number new events above \<open>latest_at\<close>, erase some and redact payloads; a page after a cursor shows every event up to
  the next cursor it names.
\<close>

definition stream_tracks :: "'r seq_source \<Rightarrow> (int \<times> event_entry) set \<Rightarrow> int \<Rightarrow> sync_client \<Rightarrow> int \<Rightarrow> bool" where
  \<comment> \<open>every event the remote holds at or below the cursor was handled\<close>
  "stream_tracks src evs latest c cur \<longleftrightarrow> log_wf (sc_local c) \<and> 0 \<le> cur \<and> cur \<le> latest
     \<and> (\<forall>s e. (s, e) \<in> evs \<longrightarrow> s \<le> cur \<longrightarrow> handled src c e)"

locale relay_stream =
  fixes src :: "'r seq_source" and m :: string and live_at :: "'r \<Rightarrow> (int \<times> event_entry) set"
    and latest_at :: "'r \<Rightarrow> int" and good :: "'r \<Rightarrow> bool" and psize :: int
  assumes pull_later: "good r \<Longrightarrow> ss_pull src cur f r = (a, r') \<Longrightarrow>
      good r' \<and> latest_at r \<le> latest_at r' \<and> (\<forall>s e'. (s, e') \<in> live_at r' \<longrightarrow> s \<le> latest_at r \<longrightarrow> (\<exists>e. (s, e) \<in> live_at r \<and> same_event e e'))"
    and pull_shows: "good r \<Longrightarrow> ss_pull src cur f r = (Inr (SeqPage entries next_seq has_more latest), r') \<Longrightarrow> (s, e) \<in> live_at r' \<Longrightarrow>
      cur < s \<Longrightarrow> s \<le> next_seq \<Longrightarrow> \<exists>e'. (s, e') \<in> set entries \<and> same_event e e'"
    and pull_cursor: "good r \<Longrightarrow> ss_pull src cur f r = (Inr (SeqPage entries next_seq has_more latest), r') \<Longrightarrow>
      latest = latest_at r' \<and> cur \<le> next_seq \<and> next_seq \<le> max cur (latest_at r')
      \<and> (if has_more then cur + psize \<le> next_seq else (\<forall>s e. (s, e) \<in> live_at r' \<longrightarrow> s \<le> next_seq))"
    and pull_ids: "good r \<Longrightarrow> ss_pull src cur f r = (Inr (SeqPage entries next_seq has_more latest), r') \<Longrightarrow>
      e \<in> snd ` set entries \<Longrightarrow> e' \<in> snd ` set entries \<Longrightarrow> ev_event_id e = ev_event_id e' \<Longrightarrow> plaintext e = plaintext e'"
    and pull_by_seq: "good r \<Longrightarrow> ss_pull src cur f r \<noteq> (Inr (ClockPage events), r')"
    and live_range: "good r \<Longrightarrow> (s, e) \<in> live_at r \<Longrightarrow> 1 \<le> s \<and> ev_motebit_id e = m"
    and top_nonneg: "good r \<Longrightarrow> 0 \<le> latest_at r"
    and decodes: "decode_keeps_ids src"
begin

abbreviation tracks :: "'r \<Rightarrow> sync_client \<Rightarrow> int \<Rightarrow> bool" where
  "tracks r c cur \<equiv> stream_tracks src (live_at r) (latest_at r) c cur"

lemma tracks_zero: "good r \<Longrightarrow> log_wf (sc_local c) \<Longrightarrow> tracks r c 0"
  using live_range top_nonneg by (fastforce simp add: stream_tracks_def)

lemma tracks_later:
  assumes "good r" and "ss_pull src cur' f r = (a, r')" and "tracks r c cur"
  shows "tracks r' c cur"
proof -
  have "handled src c e'" if "(s, e') \<in> live_at r'" "s \<le> cur" for s e'
    using pull_later [OF assms(1,2)] assms(3) that handled_same unfolding stream_tracks_def by (meson order_trans)
  then show ?thesis using pull_later [OF assms(1,2)] assms(3) unfolding stream_tracks_def by auto
qed

lemma note_page_simps [simp]:
  "sc_local (note_page src m res c) = sc_local c" "sc_cursors (note_page src m res c) = sc_cursors c"
  "sc_reported (note_page src m res c) = sc_reported c"
  by (simp_all add: note_page_def)

lemma handled_note [simp]: "handled src (note_page src m res c) e = handled src c e"
  by (simp add: handled_def)

lemma tracks_page:
  assumes "good r" and "ss_pull src cur f r = (Inr (SeqPage entries next_seq has_more latest), r')" and "tracks r c cur"
    and "process_page src byKey m (seqs_of entries) (map snd entries) (out, note_page src m res c) = (out', c')"
  shows "tracks r' c' next_seq" and "cs_cursors (sc_cursors c') = cs_cursors (sc_cursors c)"
proof -
  have same: "\<forall>e \<in> set (map snd entries). \<forall>e' \<in> set (map snd entries). ev_event_id e = ev_event_id e' \<longrightarrow> plaintext e = plaintext e'"
  proof (intro ballI impI)
    fix e e' assume "e \<in> set (map snd entries)" "e' \<in> set (map snd entries)" "ev_event_id e = ev_event_id e'"
    then show "plaintext e = plaintext e'" using pull_ids [OF assms(1,2), of e e'] by simp
  qed
  have tr: "tracks r' c cur" using tracks_later [OF assms(1,2,3)] .
  then have wf: "log_wf (sc_local (note_page src m res c))" by (simp add: stream_tracks_def)
  note step = process_page_step [OF decodes wf same assms(4) [symmetric]]
  show "cs_cursors (sc_cursors c') = cs_cursors (sc_cursors c)" using step(2) by simp
  have "handled src c' e" if e: "(s, e) \<in> live_at r'" "s \<le> next_seq" for s e
  proof (cases "s \<le> cur")
    case True
    then have "handled src (note_page src m res c) e" using tr e by (simp add: stream_tracks_def)
    from handled_extends [OF this] show ?thesis using step(1) by simp
  next
    case False
    then obtain e' where e': "(s, e') \<in> set entries" "same_event e e'" using pull_shows [OF assms(1,2) e(1)] e(2) by auto
    have g: "good r'" using pull_later [OF assms(1,2)] by simp
    have "ev_motebit_id e' = m" using e' live_range [OF g e(1)] by (simp add: same_event_def event_key_def)
    then have "handled src c' e'" using step(3) [of e'] e' by force
    then show ?thesis using e' by (simp add: handled_def same_event_def event_key_def)
  qed
  moreover have "log_wf (sc_local c')" using step(1) wf by (simp add: extends_def)
  ultimately show "tracks r' c' next_seq" using tr pull_cursor [OF assms(1,2)] by (auto simp add: stream_tracks_def)
qed

lemma cursor_of_save: "cur \<le> next_seq \<Longrightarrow> cursor_of (ss_key src) (save_cursor src cur next_seq reset c)
   = (if next_seq > cur \<or> reset \<and> next_seq = 0 then next_seq else cursor_of (ss_key src) c)"
  by (auto simp add: cursor_of_def save_cursor_def getSyncSeqCursor_def setSyncSeqCursor_def)

lemma tracks_save [simp]: "tracks r (save_cursor src cur next_seq reset c) k = tracks r c k"
  by (simp add: stream_tracks_def handled_def save_cursor_def)

lemma cursor_of_same: "cs_cursors (sc_cursors c') = cs_cursors (sc_cursors c) \<Longrightarrow> cursor_of k c' = cursor_of k c"
  by (simp add: cursor_of_def getSyncSeqCursor_def)

text \<open>One answered page: the cursor it leaves is stored and tracked, whether or not the loop restarted from zero before it.\<close>

lemma page_tracks:
  assumes g: "good r" and p: "ss_pull src cur f r = (Inr (SeqPage entries next_seq has_more latest), r1)" and tr: "tracks r c cur"
    and st: "cursor_of (ss_key src) c = cur \<or> reset \<and> cur = 0"
    and pp: "process_page src byKey m (seqs_of entries) (map snd entries) (out, note_page src m res c) = (out2, c2)"
  defines "c3 \<equiv> save_cursor src cur next_seq reset c2"
  shows "tracks r1 c3 (cursor_of (ss_key src) c3)" and "cursor_of (ss_key src) c3 = next_seq"
    and "(if next_seq > cur then next_seq else cur) = next_seq" and "\<not> latest < cur"
proof -
  note cu = pull_cursor [OF g p]
  show "\<not> latest < cur" using cu tracks_later [OF g p tr] by (auto simp add: stream_tracks_def)
  show "(if next_seq > cur then next_seq else cur) = next_seq" using cu by auto
  have t3: "tracks r1 c3 next_seq" and same: "cs_cursors (sc_cursors c2) = cs_cursors (sc_cursors c)"
    using tracks_page [OF g p tr pp] by (simp_all add: c3_def)
  show stored: "cursor_of (ss_key src) c3 = next_seq"
    using cu st cursor_of_save [of cur next_seq reset c2] cursor_of_same [OF same] by (auto simp add: c3_def)
  show "tracks r1 c3 (cursor_of (ss_key src) c3)" using t3 stored by simp
qed

lemma pull_answers:
  assumes "good r" and "ss_pull src cur f r = (a, r1)"
  obtains err where "a = Inl err" | entries next_seq has_more latest where "a = Inr (SeqPage entries next_seq has_more latest)"
  using pull_by_seq [OF assms(1)] assms(2) by (metis seq_pull_result.exhaust sum.exhaust)

lemma pull_loop_tracks:
  assumes "pull_loop src byKey m f pages cur reset out c r = (res, c', r')"
    and "good r" and "tracks r c cur" and "cursor_of (ss_key src) c = cur"
  shows "tracks r' c' (cursor_of (ss_key src) c') \<and> good r'"
  using assms
proof (induction pages arbitrary: cur out c r)
  case (Suc pages)
  obtain a r1 where p: "ss_pull src cur f r = (a, r1)" by fastforce
  have g1: "good r1" using pull_later [OF Suc.prems(2) p] by simp
  from Suc.prems(2) p show ?case
  proof (cases rule: pull_answers)
    case (1 err)
    then have "c' = c" "r' = r1" using Suc.prems(1) p by auto
    then show ?thesis using tracks_later [OF Suc.prems(2) p Suc.prems(3)] Suc.prems(4) g1 by simp
  next
    case (2 entries next_seq has_more latest)
    obtain out2 c2 where pp: "process_page src byKey m (seqs_of entries) (map snd entries)
        (out, note_page src m (SeqPage entries next_seq has_more latest) c) = (out2, c2)" by fastforce
    note pt = page_tracks [where reset = reset, OF Suc.prems(2) p [unfolded 2] Suc.prems(3) disjI1 [OF Suc.prems(4)] pp]
    show ?thesis
    proof (cases has_more)
      case False
      then have "c' = save_cursor src cur next_seq reset c2" "r' = r1" using Suc.prems(1) p 2 pp pt(4) by (auto simp add: Let_def)
      then show ?thesis using pt(1) g1 by blast
    next
      case True
      then have "pull_loop src byKey m f pages next_seq reset out2 (save_cursor src cur next_seq reset c2) r1 = (res, c', r')"
        using Suc.prems(1) p 2 pp pt by (simp add: Let_def)
      then show ?thesis using Suc.IH g1 pt by (metis (no_types))
    qed
  qed
qed simp

lemma pull_tracks:
  assumes "pullBySeq src byKey m f maxPages c r = (res, c', r')" and "good r" and "tracks r c (cursor_of (ss_key src) c)"
  shows "tracks r' c' (cursor_of (ss_key src) c') \<and> good r'"
  using pull_loop_tracks [OF assms(1) [unfolded pullBySeq_def] assms(2,3) refl] .

text \<open>
  A remote whose sequence lies below the stored cursor was restored from an older copy. The loop starts over from zero, and a
  pull that returns leaves a tracked cursor, whatever the stored one was.
\<close>

lemma pull_loop_restart:
  assumes run: "pull_loop src byKey m f (Suc pages) 0 True out c r = (Inr res, c', r')" and g: "good r" and wf: "log_wf (sc_local c)"
  shows "tracks r' c' (cursor_of (ss_key src) c') \<and> good r'"
proof -
  obtain a r1 where p: "ss_pull src 0 f r = (a, r1)" by fastforce
  have g1: "good r1" using pull_later [OF g p] by simp
  from g p show ?thesis
  proof (cases rule: pull_answers)
    case (1 err)
    then show ?thesis using run p by simp
  next
    case (2 entries next_seq has_more latest)
    obtain out2 c2 where pp: "process_page src byKey m (seqs_of entries) (map snd entries)
        (out, note_page src m (SeqPage entries next_seq has_more latest) c) = (out2, c2)" by fastforce
    note pt = page_tracks [where reset = True, OF g p [unfolded 2] tracks_zero [OF g wf] _ pp, simplified]
    show ?thesis
    proof (cases has_more)
      case False
      then have "c' = save_cursor src 0 next_seq True c2" "r' = r1" using run p 2 pp pt(4) by (auto simp add: Let_def)
      then show ?thesis using pt(1) g1 by simp
    next
      case True
      then have "pull_loop src byKey m f pages next_seq True out2 (save_cursor src 0 next_seq True c2) r1 = (Inr res, c', r')"
        using run p 2 pp pt by (simp add: Let_def)
      from pull_loop_tracks [OF this g1] show ?thesis using pt by simp
    qed
  qed
qed

lemma restored_pull_tracks:
  assumes run: "pullBySeq src byKey m f maxPages c r = (Inr res, c', r')" and "maxPages \<noteq> Some 0" and g: "good r" and wf: "log_wf (sc_local c)"
    and first: "ss_pull src (cursor_of (ss_key src) c) f r = (Inr (SeqPage entries next_seq has_more latest), r1)"
    and below: "latest < cursor_of (ss_key src) c"
  shows "tracks r' c' (cursor_of (ss_key src) c')"
proof -
  obtain n where n: "(case maxPages of None \<Rightarrow> MAX_SEQ_PAGES_PER_PULL | Some n \<Rightarrow> n) = Suc n"
    using assms(2) by (cases "case maxPages of None \<Rightarrow> MAX_SEQ_PAGES_PER_PULL | Some n \<Rightarrow> n")
      (auto simp add: MAX_SEQ_PAGES_PER_PULL_def split: option.splits)
  have "pull_loop src byKey m f (Suc n) 0 True emptyOutcome (note_page src m (SeqPage entries next_seq has_more latest) c) r1 = (Inr res, c', r')"
    using run first below by (simp add: pullBySeq_def n Let_def)
  from pull_loop_restart [OF this] show ?thesis using pull_later [OF g first] wf by simp
qed

text \<open>
  A pull that returns has handled every event the remote holds, unless it ran out of pages; then its cursor has advanced by the whole
  allowance.
\<close>

lemma pull_loop_complete:
  assumes "pull_loop src byKey m f pages cur reset out c r = (Inr res, c', r')"
    and "good r" and "tracks r c cur" and "cursor_of (ss_key src) c = cur"
  shows "cur + int pages * psize \<le> cursor_of (ss_key src) c' \<or> (\<forall>s e. (s, e) \<in> live_at r' \<longrightarrow> handled src c' e)"
  using assms
proof (induction pages arbitrary: cur out c r)
  case (Suc pages)
  obtain a r1 where p: "ss_pull src cur f r = (a, r1)" by fastforce
  have g1: "good r1" using pull_later [OF Suc.prems(2) p] by simp
  from Suc.prems(2) p show ?case
  proof (cases rule: pull_answers)
    case (1 err)
    then show ?thesis using Suc.prems(1) p by simp
  next
    case (2 entries next_seq has_more latest)
    obtain out2 c2 where pp: "process_page src byKey m (seqs_of entries) (map snd entries)
        (out, note_page src m (SeqPage entries next_seq has_more latest) c) = (out2, c2)" by fastforce
    note pt = page_tracks [where reset = reset, OF Suc.prems(2) p [unfolded 2] Suc.prems(3) disjI1 [OF Suc.prems(4)] pp]
    note cu = pull_cursor [OF Suc.prems(2) p [unfolded 2]]
    show ?thesis
    proof (cases has_more)
      case False
      then have "c' = save_cursor src cur next_seq reset c2" "r' = r1" using Suc.prems(1) p 2 pp pt(4) by (auto simp add: Let_def)
      then show ?thesis using pt(1,2) cu False by (simp only: stream_tracks_def) (metis (no_types))
    next
      case True
      then have "pull_loop src byKey m f pages next_seq reset out2 (save_cursor src cur next_seq reset c2) r1 = (Inr res, c', r')"
        using Suc.prems(1) p 2 pp pt by (simp add: Let_def)
      from Suc.IH [OF this g1] pt(1,2) have "next_seq + int pages * psize \<le> cursor_of (ss_key src) c' \<or> (\<forall>s e. (s, e) \<in> live_at r' \<longrightarrow> handled src c' e)"
        by simp
      then show ?thesis using cu True by (auto simp add: algebra_simps)
    qed
  qed
qed simp

lemma pull_complete:
  assumes run: "pullBySeq src byKey m f maxPages c r = (Inr res, c', r')" and g: "good r" and tr: "tracks r c (cursor_of (ss_key src) c)"
    and enough: "latest_at r' < cursor_of (ss_key src) c + int (case maxPages of None \<Rightarrow> MAX_SEQ_PAGES_PER_PULL | Some n \<Rightarrow> n) * psize"
    and "(s, e) \<in> live_at r'"
  shows "handled src c' e"
proof -
  have "cursor_of (ss_key src) c' \<le> latest_at r'" using pull_tracks [OF run g tr] by (simp add: stream_tracks_def)
  then show ?thesis
    using pull_loop_complete [OF run [unfolded pullBySeq_def] g tr refl] enough assms(5) by auto
qed

end

end
