(* ===== verification/SyncDelivery.thy ===== *)
theory SyncDelivery
  imports SeqCursor EventPayload
begin

text \<open>
  A device and its relay together: the device pulls by the relay's page (\<open>services/relay/src/event-seq.ts\<close> under the route of
  \<open>sync-routes.ts\<close>) while other devices push, retention deletes and requests fail, between any two requests of one pull. The relay's
  page is an instance of the interface \<open>relay_stream\<close>.
\<close>

subsection \<open>The pull route and the relay as a source\<close>

datatype pull_answer = BadCursor | PullRefused push_error | SeqAnswer seq_pull_body | ClockAnswer "event_entry list"

definition pull_route :: "(string \<Rightarrow> int \<Rightarrow> bool) \<Rightarrow> string option \<Rightarrow> string \<Rightarrow> string option \<Rightarrow> string option \<Rightarrow> string option \<Rightarrow> relay_log \<Rightarrow> pull_answer" where
  \<comment> \<open>\<open>below text n\<close> is \<open>Number(text) < n\<close>\<close>
  "pull_route below presenter motebitId after_seq limit after_clk db =
     (case parseSeqCursor after_seq of
        RefusedCursor \<Rightarrow> BadCursor
      | Cursor afterSeq \<Rightarrow>
          (case bindSyncEntries presenter [] motebitId of
             Inl err \<Rightarrow> PullRefused err
           | Inr owner \<Rightarrow>
               (let lmt = (case parseSeqCursor limit of Cursor n \<Rightarrow> (if n > 0 then n else EVENT_SEQ_PAGE_MAX) | _ \<Rightarrow> EVENT_SEQ_PAGE_MAX)
                in SeqAnswer (fst (readEventsAfterSeq owner afterSeq lmt db))))
      | NoCursor \<Rightarrow>
          (let afterClock = (case after_clk of None \<Rightarrow> ''0'' | Some t \<Rightarrow> t);
               events = js_sort (\<lambda>a b. ev_version_clock a - ev_version_clock b)
                 (filter (\<lambda>e. ev_motebit_id e = motebitId \<and> below afterClock (ev_version_clock e)) (rl_events db))
           in ClockAnswer (redactSensitiveEvents events)))"

definition page_of_body :: "seq_pull_body \<Rightarrow> seq_pull_result" where
  "page_of_body b = SeqPage (sb_events b) (sb_next_seq b) (sb_has_more b) (sb_latest_seq b)"

text \<open>
  What happens before each request of a pull is scheduled: the relay's operations since the last one, and the page limit the device asks for,
  or none when the request fails. A request past the schedule finds a quiet relay.
\<close>

type_synonym remote = "relay_log \<times> (relay_op list \<times> int option) list"

fun relay_pull :: "string \<Rightarrow> int \<Rightarrow> int \<Rightarrow> remote \<Rightarrow> (string + seq_pull_result) \<times> remote" where
  "relay_pull m cur fallback (db, []) = (Inr (page_of_body (fst (readEventsAfterSeq m cur EVENT_SEQ_PAGE_MAX db))), (db, []))"
| "relay_pull m cur fallback (db, (ops, lmt) # rest) =
     (let db' = relay_run ops db
      in (case lmt of None \<Rightarrow> Inl ''Pull failed'' | Some l \<Rightarrow> Inr (page_of_body (fst (readEventsAfterSeq m cur l db'))), (db', rest)))"

text \<open>A device without a sync key reads raw; one with a key opens each envelope, and an error it throws has a message.\<close>

datatype ('key, 'rnd) sync_mode = Raw | E2E "open_error \<Rightarrow> string" "('key, 'rnd) codec" "'key key_provider"

fun decodeEvent :: "('key, 'rnd) sync_mode \<Rightarrow> (event_entry \<Rightarrow> string + event_entry) option" where
  "decodeEvent Raw = None"
| "decodeEvent (E2E message cd kp) = Some (\<lambda>e. case openEnvelope cd kp e of Inl err \<Rightarrow> Inl (message err) | Inr e' \<Rightarrow> Inr e')"

definition relay_source :: "string \<Rightarrow> string \<Rightarrow> ('key, 'rnd) sync_mode \<Rightarrow> remote seq_source" where
  "relay_source key m mode = \<lparr> ss_key = key, ss_pull = relay_pull m, ss_decode = decodeEvent mode \<rparr>"

lemma decodeEvent_keeps: "decode_keeps_ids (relay_source key m mode)"
  by (cases mode) (auto simp add: decode_keeps_ids_def relay_source_def dest!: openEnvelope_keeps split: sum.splits)

definition good_remote :: "int \<Rightarrow> remote \<Rightarrow> bool" where
  "good_remote psize r \<longleftrightarrow> relay_wf (fst r) \<and> list_all (\<lambda>(ops, lmt). case lmt of None \<Rightarrow> True | Some l \<Rightarrow> psize \<le> page_size l) (snd r)"

lemma relay_pull_db:
  assumes p: "p \<le> EVENT_SEQ_PAGE_MAX" and g: "good_remote p r" and pull: "relay_pull m cur f r = (a, r')"
  shows "good_remote p r'" and "evolves (fst r) (fst r')"
    and "isl a \<or> (\<exists>l. p \<le> page_size l \<and> a = Inr (page_of_body (fst (readEventsAfterSeq m cur l (fst r')))))"
proof -
  obtain db sched where r: "r = (db, sched)" by fastforce
  have "good_remote p r' \<and> evolves (fst r) (fst r')
    \<and> (isl a \<or> (\<exists>l. p \<le> page_size l \<and> a = Inr (page_of_body (fst (readEventsAfterSeq m cur l (fst r'))))))"
  proof (cases sched)
    case Nil
    have "p \<le> page_size EVENT_SEQ_PAGE_MAX" using p by (simp add: page_size_def)
    then show ?thesis using g pull evolves_refl by (auto simp add: r Nil good_remote_def)
  next
    case (Cons x rest)
    obtain ops lmt where x: "x = (ops, lmt)" by fastforce
    have "evolves db (relay_run ops db)" using g relay_run_evolves by (simp add: r good_remote_def)
    then show ?thesis using g pull evolves_wf by (cases lmt) (auto simp add: r Cons x good_remote_def Let_def)
  qed
  then show "good_remote p r'" "evolves (fst r) (fst r')"
    "isl a \<or> (\<exists>l. p \<le> page_size l \<and> a = Inr (page_of_body (fst (readEventsAfterSeq m cur l (fst r')))))" by blast+
qed

lemma same_event_redact: "same_event e (redact_event e)"
proof -
  have marker: "jsm_has p' ''_encrypted'' = jsm_has p ''_encrypted''"
    if "redactMemoryFormedPayload p = Some p' \<or> stripConsolidationManifest p = Some p' \<or> redactMemoryAuditPayload p = Some p'
      \<or> redactMemoryConsolidatedPayload p = Some p'" for p p'
    using that by (auto simp add: redactMemoryFormedPayload_def stripConsolidationManifest_def redactMemoryAuditPayload_def
        redactMemoryConsolidatedPayload_def jsm_has_iff jsm_get_set jsm_get_delete Let_def split: if_splits)
  have "plaintext (with_payload e r) = plaintext e" if "ev_payload e = Some p" "\<And>p'. r = Some p' \<Longrightarrow> jsm_has p' ''_encrypted'' = jsm_has p ''_encrypted''" for r p
    using that by (cases r) (auto simp add: plaintext_def with_payload_def)
  then have "plaintext (redact_event e) = plaintext e"
    using marker by (auto simp add: redact_event_def split: option.splits)
  then show ?thesis by (simp add: same_event_def event_key_def)
qed

lemma live_id_unique:
  assumes "relay_wf db" and "(s, e) \<in> live m db" and "(s', e') \<in> live m db" and "ev_event_id e = ev_event_id e'"
  shows "e = e'"
  using assms by (auto simp add: live_iff relay_wf_def distinct_map dest: inj_onD)

lemma page_advance:
  assumes wf: "relay_wf db" and more: "sb_has_more (fst (readEventsAfterSeq m a l db))"
  shows "a + page_size l \<le> sb_next_seq (fst (readEventsAfterSeq m a l db))"
proof -
  let ?L = "page_order m a db" and ?b = "fst (readEventsAfterSeq m a l db)" and ?n = "nat (page_size l)"
  have seqs: "map fst (sb_events ?b) = map fst (take ?n ?L)" by (simp add: read_page comp_def case_prod_beta)
  have "sorted_wrt (<) (map fst (take ?n ?L))"
    using sorted_wrt_take [OF sorted_page_order [OF wf]] by (simp add: sorted_wrt_map)
  then have d: "distinct (map fst (sb_events ?b))" unfolding seqs by (simp only: strict_sorted_iff)
  have "set (map fst (sb_events ?b)) \<subseteq> {a <.. sb_next_seq ?b}" using page_exact [OF wf] by auto
  from card_mono [OF _ this] distinct_card [OF d] have "length (sb_events ?b) \<le> nat (sb_next_seq ?b - a)" by simp
  then show ?thesis using page_full [OF wf more] page_cursor(1) [OF wf, of a m l] by (simp add: page_size_def)
qed

text \<open>The relay keeps the interface, for every page size up to the largest the relay serves.\<close>

lemma relay_pull_page:
  assumes p: "p \<le> EVENT_SEQ_PAGE_MAX" and g: "good_remote p r"
    and pull: "relay_pull m cur f r = (Inr (SeqPage entries next_seq has_more latest), r')"
  shows "set entries = {(s, redact_event e) | s e. (s, e) \<in> live m (fst r') \<and> cur < s \<and> s \<le> next_seq}"
    and "latest = last_seq m (fst r') \<and> cur \<le> next_seq \<and> next_seq \<le> max cur (last_seq m (fst r'))
      \<and> (if has_more then cur + p \<le> next_seq else (\<forall>s e. (s, e) \<in> live m (fst r') \<longrightarrow> s \<le> next_seq))"
proof -
  have wf: "relay_wf (fst r')" using relay_pull_db(1) [OF p g pull] by (simp add: good_remote_def)
  obtain l where l: "p \<le> page_size l" "Inr (SeqPage entries next_seq has_more latest) = (Inr (page_of_body (fst (readEventsAfterSeq m cur l (fst r')))) :: string + _)"
    using relay_pull_db(3) [OF p g pull] by auto
  let ?b = "fst (readEventsAfterSeq m cur l (fst r'))"
  have b: "entries = sb_events ?b" "next_seq = sb_next_seq ?b" "has_more = sb_has_more ?b" "latest = sb_latest_seq ?b"
    using l(2) by (simp_all add: page_of_body_def)
  show "set entries = {(s, redact_event e) | s e. (s, e) \<in> live m (fst r') \<and> cur < s \<and> s \<le> next_seq}"
    unfolding b by (rule page_exact [OF wf])
  have "if has_more then cur + p \<le> next_seq else (\<forall>s e. (s, e) \<in> live m (fst r') \<longrightarrow> s \<le> next_seq)"
  proof (cases has_more)
    case True
    then show ?thesis using page_advance [OF wf, of m cur l] l(1) by (simp add: b)
  next
    case False
    then show ?thesis using page_more [OF wf, of m cur l] by (simp add: b) (meson not_le_imp_less)
  qed
  then show "latest = last_seq m (fst r') \<and> cur \<le> next_seq \<and> next_seq \<le> max cur (last_seq m (fst r'))
      \<and> (if has_more then cur + p \<le> next_seq else (\<forall>s e. (s, e) \<in> live m (fst r') \<longrightarrow> s \<le> next_seq))"
    unfolding b using page_cursor(1) [OF wf, of cur m l] page_cursor(2) [OF wf, of m cur l] page_latest [OF wf] by simp
qed

lemma relay_page_plaintext:
  assumes wf: "relay_wf db" and ents: "set entries = {(s, redact_event e) | s e. (s, e) \<in> live m db \<and> cur < s \<and> s \<le> n}"
    and "e \<in> snd ` set entries" and "e' \<in> snd ` set entries" and id: "ev_event_id e = ev_event_id e'"
  shows "plaintext e = plaintext e'"
proof -
  obtain s d s' d' where d: "(s, d) \<in> live m db" "(s', d') \<in> live m db" "e = redact_event d" "e' = redact_event d'"
    using assms(3,4) unfolding ents by auto
  then have "d = d'" using live_id_unique [OF wf d(1,2)] id by simp
  then show ?thesis using d by simp
qed

lemma relay_keeps_stream:
  assumes p: "p \<le> EVENT_SEQ_PAGE_MAX"
  shows "relay_stream (relay_source key m mode) m (\<lambda>r. live m (fst r)) (\<lambda>r. last_seq m (fst r)) (good_remote p) p"
proof (unfold_locales, goal_cases)
  case (1 r cur f a r')
  then show ?case using relay_pull_db(1,2) [OF p 1(1)] unfolding relay_source_def evolves_def by simp
next
  case (2 r cur f entries next_seq has_more latest r' s e)
  then have "set entries = {(s, redact_event e) | s e. (s, e) \<in> live m (fst r') \<and> cur < s \<and> s \<le> next_seq}"
    using relay_pull_page(1) [OF p 2(1)] by (simp add: relay_source_def)
  then show ?case using 2 same_event_redact by blast
next
  case (3 r cur f entries next_seq has_more latest r')
  then have "relay_pull m cur f r = (Inr (SeqPage entries next_seq has_more latest), r')" by (simp add: relay_source_def)
  from relay_pull_page(2) [OF p 3(1) this] show ?case .
next
  case (4 r cur f entries next_seq has_more latest r' e e')
  have pull: "relay_pull m cur f r = (Inr (SeqPage entries next_seq has_more latest), r')" using 4(2) by (simp add: relay_source_def)
  have "relay_wf (fst r')" using relay_pull_db(1) [OF p 4(1) pull] by (simp add: good_remote_def)
  from relay_page_plaintext [OF this relay_pull_page(1) [OF p 4(1) pull]] show ?case using 4 by blast
next
  case (5 r cur f events r')
  show ?case
  proof
    assume "ss_pull (relay_source key m mode) cur f r = (Inr (ClockPage events), r')"
    then show False using relay_pull_db(3) [OF p 5, of m cur f "Inr (ClockPage events)" r'] by (auto simp add: relay_source_def page_of_body_def)
  qed
next
  case (6 r s e)
  then show ?case using live_bounds by (fastforce simp add: good_remote_def)
next
  case (7 r)
  then show ?case using last_seq_nonneg by (simp add: good_remote_def)
qed (rule decodeEvent_keeps)

interpretation relay_pages: relay_stream "relay_source key m mode" m "\<lambda>r. live m (fst r)" "\<lambda>r. last_seq m (fst r)" "good_remote 1" 1
  for key m mode
  by (rule relay_keeps_stream) (simp add: EVENT_SEQ_PAGE_MAX_def)

interpretation full_pages: relay_stream "relay_source key m mode" m "\<lambda>r. live m (fst r)" "\<lambda>r. last_seq m (fst r)"
    "good_remote EVENT_SEQ_PAGE_MAX" EVENT_SEQ_PAGE_MAX
  for key m mode
  by (rule relay_keeps_stream) simp

subsection \<open>Histories of a device and its relay\<close>

datatype sync_op =
    RelayRuns "relay_op list" \<comment> \<open>other devices push, retention deletes\<close>
  | DeviceRuns "log_op list" \<comment> \<open>the device writes, compacts and erases locally\<close>
  | DevicePulls int "nat option" "(relay_op list \<times> int option) list"

fun sync_step :: "string \<Rightarrow> ('key, 'rnd) sync_mode \<Rightarrow> bool \<Rightarrow> string \<Rightarrow> sync_op \<Rightarrow> relay_log \<times> sync_client \<Rightarrow> relay_log \<times> sync_client" where
  "sync_step key mode byKey m (RelayRuns ops) (db, c) = (relay_run ops db, c)"
| "sync_step key mode byKey m (DeviceRuns ops) (db, c) = (db, c\<lparr>sc_local := log_run ops (sc_local c)\<rparr>)"
| "sync_step key mode byKey m (DevicePulls fallback maxPages sched) (db, c) =
     (case pullBySeq (relay_source key m mode) byKey m fallback maxPages c (db, sched) of (_, c', (db', _)) \<Rightarrow> (db', c'))"

definition sync_history :: "string \<Rightarrow> ('key, 'rnd) sync_mode \<Rightarrow> bool \<Rightarrow> string \<Rightarrow> sync_op list \<Rightarrow> relay_log \<times> sync_client \<Rightarrow> relay_log \<times> sync_client" where
  "sync_history key mode byKey m ops x = foldl (\<lambda>x op. sync_step key mode byKey m op x) x ops"

definition newClient :: sync_client where
  "newClient = \<lparr> sc_local = emptyEventStore, sc_cursors = emptyCursorStore, sc_held = [], sc_reported = [] \<rparr>"

definition tracked :: "string \<Rightarrow> ('key, 'rnd) sync_mode \<Rightarrow> string \<Rightarrow> relay_log \<times> sync_client \<Rightarrow> bool" where
  "tracked key mode m = (\<lambda>(db, c). relay_wf db \<and> stream_tracks (relay_source key m mode) (live m db) (last_seq m db) c (cursor_of key c))"

lemma any_limit: "list_all (\<lambda>(ops, lmt). case lmt of None \<Rightarrow> True | Some l \<Rightarrow> 1 \<le> page_size l) sched"
  by (auto simp add: list_all_iff page_size_def split: option.splits)

lemma ss_key_relay [simp]: "ss_key (relay_source key m mode) = key"
  by (simp add: relay_source_def)

lemma sync_step_tracked:
  assumes "tracked key mode m (db, c)"
  shows "tracked key mode m (sync_step key mode byKey m op (db, c))"
proof (cases op)
  case (RelayRuns ops)
  have ev: "evolves db (relay_run ops db)" using assms relay_run_evolves by (simp add: tracked_def)
  have "handled (relay_source key m mode) c e'" if e': "(s, e') \<in> live m (relay_run ops db)" "s \<le> cursor_of key c" for s e'
  proof -
    have "s \<le> last_seq m db" using e'(2) assms by (simp add: tracked_def stream_tracks_def)
    then obtain e where "(s, e) \<in> live m db" "same_event e e'" using ev e'(1) unfolding evolves_def by blast
    then show ?thesis using assms e'(2) handled_same unfolding tracked_def stream_tracks_def by blast
  qed
  moreover have "last_seq m db \<le> last_seq m (relay_run ops db)" using ev unfolding evolves_def by blast
  ultimately show ?thesis using assms ev by (auto simp add: RelayRuns tracked_def stream_tracks_def evolves_wf)
next
  case (DeviceRuns ops)
  have "handled (relay_source key m mode) (c\<lparr>sc_local := log_run ops (sc_local c)\<rparr>) e" if "handled (relay_source key m mode) c e" for e
    using that log_run_seen by (auto simp add: handled_def)
  then show ?thesis using assms log_run_wf by (auto simp add: DeviceRuns tracked_def stream_tracks_def cursor_of_def)
next
  case (DevicePulls fallback maxPages sched)
  obtain res c' db' sched' where run: "pullBySeq (relay_source key m mode) byKey m fallback maxPages c (db, sched) = (res, c', (db', sched'))"
    by (metis prod_cases3 surj_pair)
  have "good_remote 1 (db, sched)" using assms any_limit by (simp add: tracked_def good_remote_def)
  from relay_pages.pull_tracks [OF run this] show ?thesis
    using assms by (simp add: DevicePulls run tracked_def good_remote_def)
qed

lemma sync_history_tracked: "tracked key mode m x \<Longrightarrow> tracked key mode m (sync_history key mode byKey m ops x)"
proof (induction ops arbitrary: x)
  case (Cons op ops)
  then show ?case using sync_step_tracked [of key mode m "fst x" "snd x"] by (simp add: sync_history_def)
qed (simp add: sync_history_def)

lemma tracked_start:
  assumes "relay_wf db" and "log_wf (sc_local c)" and "getSyncSeqCursor key (sc_cursors c) = None"
  shows "tracked key mode m (db, c)"
proof -
  have "cursor_of key c = 0" using assms(3) by (simp add: cursor_of_def)
  moreover have "\<not> s \<le> 0" if "(s, e) \<in> live m db" for s e using live_bounds [OF assms(1) that] by simp
  ultimately show ?thesis using assms last_seq_nonneg by (auto simp add: tracked_def stream_tracks_def)
qed

lemma handled_relay: "handled (relay_source key m mode) c e \<longleftrightarrow> ev_event_id e \<in> es_seenIds (sc_local c)
   \<or> ev_event_id e \<in> sk_event_id ` set (sc_reported c) \<or> mode = Raw \<and> \<not> plaintext e"
  by (cases mode) (simp_all add: handled_def relay_source_def)

text \<open>(C8) In every history of a device and its relay, with other devices pushing, retention deleting and requests failing between any two
  pages, the cursor never passes an event the device lost: each event the relay holds at or below the cursor was stored
  by the device, or reported as one it could not decrypt, or is an encrypted one that a raw pull leaves to the encrypted path.\<close>

theorem cursor_passes_no_event:
  assumes "relay_wf db0" and "log_wf (sc_local c0)" and "getSyncSeqCursor key (sc_cursors c0) = None"
    and "sync_history key mode byKey m ops (db0, c0) = (db, c)" and "(s, e) \<in> live m db" and "s \<le> cursor_of key c"
  shows "ev_event_id e \<in> es_seenIds (sc_local c) \<or> ev_event_id e \<in> sk_event_id ` set (sc_reported c) \<or> mode = Raw \<and> \<not> plaintext e"
  using sync_history_tracked [OF tracked_start [OF assms(1,2,3)], of mode m byKey ops] assms(4-6)
  by (simp add: tracked_def stream_tracks_def handled_relay)

definition demo_events :: "event_entry list" where
  "demo_events = [demo_event ''a'' ''m'' 1, demo_event ''b'' ''m'' 1]"

definition demo_history :: "relay_log \<times> sync_client" where
  "demo_history = sync_history ''k'' (Raw :: (unit, unit) sync_mode) True ''m'' [DevicePulls 0 (Some (Suc 0)) []] (backfill demo_events [], newClient)"

lemma demo_events_distinct: "distinct (map ev_event_id demo_events)"
  by (simp add: demo_events_def demo_event_def)

lemmas pull_eval = sync_history_def pullBySeq_def relay_source_def backfill_def Let_def jsm_get_set page_of_body_def readEventsAfterSeq_def
  joined_rows_def by_seq_def page_size_def EVENT_SEQ_PAGE_MAX_def redact_event_def newClient_def emptyEventStore_def
  emptyCursorStore_def cursor_of_def getSyncSeqCursor_def setSyncSeqCursor_def note_page_def noteRelayHolds_def relayStreamOfKey.simps
  starts_with_def process_page_def filterUnseen_def getHeldEventIds_def append_fresh_def log_append_def plaintext_def event_ids_def
  save_cursor_def last_seq_def emptyOutcome_def jsm_set_def jsm_get_def jsm_has_def jsm_delete_def demo_event_def seqs_of_def
  RELAY_HELD_KEPT_def relay_run_def sync_push_def bindSyncEntries_def redactSensitiveEvents_def is_receipt_replay_def receipt_signature_def
  appendBoundEvent_def insert_event_def seq_stamp_def propagateDeletionForEvent_def delete_events_def MAX_SEQ_PAGES_PER_PULL_def

lemma demo_history_eval:
  "(2, demo_event ''b'' ''m'' 1) \<in> live ''m'' (fst demo_history)" "cursor_of ''k'' (snd demo_history) = 2"
  by (simp_all add: demo_history_def demo_events_def live_def pull_eval)

lemma newClient_ok: "log_wf (sc_local newClient)" "getSyncSeqCursor key (sc_cursors newClient) = None"
  by (simp_all add: newClient_def emptyEventStore_def log_wf_def event_ids_def emptyCursorStore_def getSyncSeqCursor_def)

theorem cursor_passes_no_event_witness:
  "ev_event_id (demo_event ''b'' ''m'' 1) \<in> es_seenIds (sc_local (snd demo_history))
   \<or> ev_event_id (demo_event ''b'' ''m'' 1) \<in> sk_event_id ` set (sc_reported (snd demo_history))
   \<or> (Raw :: (unit, unit) sync_mode) = Raw \<and> \<not> plaintext (demo_event ''b'' ''m'' 1)"
proof (rule cursor_passes_no_event)
  show "relay_wf (backfill demo_events [])" by (rule backfill_wf [OF demo_events_distinct])
  show "log_wf (sc_local newClient)" "getSyncSeqCursor ''k'' (sc_cursors newClient) = None" by (rule newClient_ok)+
  show "sync_history ''k'' (Raw :: (unit, unit) sync_mode) True ''m'' [DevicePulls 0 (Some (Suc 0)) []] (backfill demo_events [], newClient)
      = (fst demo_history, snd demo_history)" by (simp add: demo_history_def)
  show "(2, demo_event ''b'' ''m'' 1) \<in> live ''m'' (fst demo_history)" by (rule demo_history_eval)
  show "2 \<le> cursor_of ''k'' (snd demo_history)" by (simp add: demo_history_eval)
qed

subsection \<open>A pull catches up\<close>

definition answered :: "(relay_op list \<times> int option) list \<Rightarrow> bool" where
  \<comment> \<open>no request fails, and every one asks for a full page\<close>
  "answered sched \<longleftrightarrow> list_all (\<lambda>(ops, lmt). \<exists>l. lmt = Some l \<and> EVENT_SEQ_PAGE_MAX \<le> page_size l) sched"

lemma answered_good: "relay_wf db \<Longrightarrow> answered sched \<Longrightarrow> good_remote EVENT_SEQ_PAGE_MAX (db, sched)"
  by (auto simp add: answered_def good_remote_def list_all_iff split: option.splits)

lemma answered_pull:
  assumes "answered (snd r)" and "relay_pull m cur f r = (a, r')"
  shows "answered (snd r') \<and> (\<exists>es n h l. a = Inr (SeqPage es n h l))"
proof -
  obtain db sched where r: "r = (db, sched)" by fastforce
  show ?thesis using assms by (cases sched) (auto simp add: r answered_def page_of_body_def Let_def)
qed

lemma answered_returns:
  assumes "answered (snd r)"
  shows "\<exists>out. fst (pull_loop (relay_source key m mode) byKey m' f pages cur reset out0 c r) = Inr out"
  using assms
proof (induction "relay_source key m mode" byKey m' f pages cur reset out0 c r rule: pull_loop.induct)
  case (2 byKey m' f pages cur reset out0 c r)
  obtain a r' where p: "relay_pull m cur f r = (a, r')" by (cases "relay_pull m cur f r")
  from answered_pull [OF 2(3) p] obtain es n h l where a: "a = Inr (SeqPage es n h l)" and ans: "answered (snd r')" by blast
  have p': "ss_pull (relay_source key m mode) cur f r = (Inr (SeqPage es n h l), r')" using p a by (simp add: relay_source_def)
  show ?case using 2(1,2) p' ans by (auto simp add: Let_def split: prod.splits)
qed simp

text \<open>(C32) A pull whose requests are answered returns, and if the numbers assigned since the last one fit in its pages it leaves the device
  having handled every event of the identity that the relay then holds, although the relay went on changing under it.\<close>

theorem pull_catches_up:
  assumes "tracked key mode m (db, c)" and "answered sched"
    and "pullBySeq (relay_source key m mode) byKey m fallback maxPages c (db, sched) = (res, c', (db', sched'))"
    and "last_seq m db' < cursor_of key c + int (case maxPages of None \<Rightarrow> MAX_SEQ_PAGES_PER_PULL | Some n \<Rightarrow> n) * EVENT_SEQ_PAGE_MAX"
  shows "\<exists>out. res = Inr out \<and> (\<forall>e \<in> set (rl_events db'). ev_motebit_id e = m \<longrightarrow>
     ev_event_id e \<in> es_seenIds (sc_local c') \<or> ev_event_id e \<in> sk_event_id ` set (sc_reported c') \<or> mode = Raw \<and> \<not> plaintext e)"
proof -
  obtain out where out: "res = Inr out"
    using answered_returns [of "(db, sched)" key m mode byKey m fallback] assms(2,3) unfolding pullBySeq_def by (metis fst_conv snd_conv)
  have g: "good_remote EVENT_SEQ_PAGE_MAX (db, sched)" using assms answered_good by (simp add: tracked_def)
  note run = assms(3) [unfolded out]
  have tr: "stream_tracks (relay_source key m mode) (live m (fst (db, sched))) (last_seq m (fst (db, sched))) c (cursor_of (ss_key (relay_source key m mode)) c)"
    using assms(1) by (simp add: tracked_def)
  have "relay_wf db'" using full_pages.pull_tracks [OF run g tr] by (simp add: good_remote_def)
  have "handled (relay_source key m mode) c' e" if e: "e \<in> set (rl_events db')" "ev_motebit_id e = m" for e
  proof -
    obtain s where "(s, e) \<in> live m db'" using every_event_is_live [OF \<open>relay_wf db'\<close> e(1)] e(2) by auto
    then show ?thesis using full_pages.pull_complete [OF run g tr, of s e] assms(4) by simp
  qed
  then show ?thesis using out by (simp add: handled_relay)
qed

definition demo_catch_up :: "(string + pull_outcome) \<times> sync_client \<times> remote" where
  "demo_catch_up = pullBySeq (relay_source ''k'' ''m'' (Raw :: (unit, unit) sync_mode)) True ''m'' 0 (Some (Suc 0)) newClient
     (backfill demo_events [], [([RPush None ''m'' [demo_event ''c'' ''m'' 2]], Some 1000)])"

lemma demo_catch_up_eval: "last_seq ''m'' (fst (snd (snd demo_catch_up))) = 3"
  by (simp add: demo_catch_up_def demo_events_def pull_eval)

theorem pull_catches_up_witness:
  "\<exists>out. fst demo_catch_up = Inr out \<and> (\<forall>e \<in> set (rl_events (fst (snd (snd demo_catch_up)))). ev_motebit_id e = ''m'' \<longrightarrow>
     ev_event_id e \<in> es_seenIds (sc_local (fst (snd demo_catch_up)))
     \<or> ev_event_id e \<in> sk_event_id ` set (sc_reported (fst (snd demo_catch_up))) \<or> (Raw :: (unit, unit) sync_mode) = Raw \<and> \<not> plaintext e)"
proof (rule pull_catches_up)
  show "tracked ''k'' (Raw :: (unit, unit) sync_mode) ''m'' (backfill demo_events [], newClient)"
    by (rule tracked_start [OF backfill_wf [OF demo_events_distinct] newClient_ok])
  show "answered [([RPush None ''m'' [demo_event ''c'' ''m'' 2]], Some 1000)]"
    by (simp add: answered_def page_size_def EVENT_SEQ_PAGE_MAX_def)
  show "pullBySeq (relay_source ''k'' ''m'' (Raw :: (unit, unit) sync_mode)) True ''m'' 0 (Some (Suc 0)) newClient
     (backfill demo_events [], [([RPush None ''m'' [demo_event ''c'' ''m'' 2]], Some 1000)])
     = (fst demo_catch_up, fst (snd demo_catch_up), (fst (snd (snd demo_catch_up)), snd (snd (snd demo_catch_up))))"
    by (simp add: demo_catch_up_def)
  show "last_seq ''m'' (fst (snd (snd demo_catch_up)))
      < cursor_of ''k'' newClient + int (case Some (Suc 0) of None \<Rightarrow> MAX_SEQ_PAGES_PER_PULL | Some n \<Rightarrow> n) * EVENT_SEQ_PAGE_MAX"
    unfolding demo_catch_up_eval by (simp add: pull_eval)
qed

subsection \<open>A restored relay\<close>

text \<open>
  A relay restored from an older copy numbers again from below a device's cursor. The device notices while the relay's largest number is
  still below its cursor; once others have pushed past it, the numbers look like new ones and the events under the cursor are not
  asked for.
\<close>

definition restored_pull :: "relay_op list \<Rightarrow> (string + pull_outcome) \<times> sync_client \<times> remote" where
  "restored_pull since = pullBySeq (relay_source ''k'' ''m'' (Raw :: (unit, unit) sync_mode)) True ''m'' 0 (Some (Suc 0)) (snd demo_history)
     (relay_run since (backfill [demo_event ''a'' ''m'' 1] []), [])"

definition held_after :: "(string + pull_outcome) \<times> sync_client \<times> remote \<Rightarrow> string list" where
  "held_after x = event_ids (sc_local (fst (snd x)))"

lemma demo_client: "snd demo_history = \<lparr> sc_local = \<lparr> es_events = demo_events, es_seenIds = {''a'', ''b''} \<rparr>,
    sc_cursors = \<lparr> cs_cursors = [(''k'', 2)], cs_skipped = [], cs_totals = [] \<rparr>, sc_held = [(''k'', [(''a'', 1), (''b'', 1)])], sc_reported = [] \<rparr>"
  by (simp add: demo_history_def demo_events_def pull_eval insert_commute)

lemma overtaken_restore_skips:
  "held_after (restored_pull [RPush None ''m'' [demo_event ''c'' ''m'' 2, demo_event ''d'' ''m'' 3]]) = [''a'', ''b'', ''d'']"
  by (simp add: restored_pull_def demo_client held_after_def demo_events_def pull_eval)

end
