(* ===== verification/SyncPush.thy ===== *)
theory SyncPush
  imports SeqCursor
begin

text \<open>
  The push side of \<open>packages/sync-engine/src/index.ts\<close>: the keys of push cursors and of the markers beside them, the push cursor that
  moves only past acknowledged events, the floor below which compaction may delete, and the engine's steps between two
  awaits. The engine keeps its cursors in one store, beside the log. A read of that store may fail: \<open>broken\<close> says which keys, and a failed
  read is none.
\<close>

subsection \<open>Keys of the cursor store\<close>

record remote_store =
  rm_seqKey :: "string option" \<comment> \<open>of a source that pulls by sequence\<close>
  rm_streamKey :: "string option" \<comment> \<open>\<open>relayStreamKey\<close>, of a socket\<close>
  rm_transport :: nat \<comment> \<open>the adapter instance a push goes out through\<close>
  rm_reports :: bool \<comment> \<open>it has \<open>hasLiveWork\<close>\<close>

definition PUSH_CURSOR_PREFIX :: string where "PUSH_CURSOR_PREFIX = ''push:''"
definition SYNC_INTENT_PREFIX :: string where "SYNC_INTENT_PREFIX = ''intent:sync''"
definition SYNC_INTENT_RECORDED :: int where "SYNC_INTENT_RECORDED = 1"
definition SYNC_INTENT_CLEARED :: int where "SYNC_INTENT_CLEARED = - 1"

definition pushCursorKey :: "remote_store \<Rightarrow> string \<Rightarrow> string" where
  "pushCursorKey remote motebitId =
     (case rm_seqKey remote of Some k \<Rightarrow> ''push:'' @ k
      | None \<Rightarrow> (case rm_streamKey remote of Some n \<Rightarrow> ''push:relay:'' @ n | None \<Rightarrow> ''push:#'' @ motebitId))"

definition relayStreamOfPushKey :: "string \<Rightarrow> string" where
  "relayStreamOfPushKey key =
     (let rest = (if starts_with key PUSH_CURSOR_PREFIX then drop (length PUSH_CURSOR_PREFIX) key else key)
      in if starts_with rest ''relay:'' then drop (length ''relay:'') rest else relayStreamOfKey rest)"

definition relayStreamOf :: "remote_store \<Rightarrow> string option" where
  "relayStreamOf remote = (case rm_seqKey remote of Some k \<Rightarrow> Some (relayStreamOfKey k) | None \<Rightarrow> rm_streamKey remote)"

definition syncIntentKey :: "string \<Rightarrow> string" where
  "syncIntentKey motebitId = SYNC_INTENT_PREFIX @ ''#'' @ motebitId"

definition retiredStreamKey :: "string \<Rightarrow> string" where
  "retiredStreamKey stream = ''retired:push:'' @ stream"

definition pushAckedAtKey :: "string \<Rightarrow> string" where
  "pushAckedAtKey stream = ''ackedat:push:'' @ stream"

fun relayUrlOfStream :: "string \<Rightarrow> string option" where
  "relayUrlOfStream stream =
     (let url = (if CHR ''#'' \<in> set stream then rev (tl (dropWhile (\<lambda>c. c \<noteq> CHR ''#'') (rev stream))) else stream)
      in if url = [] then None else Some url)"

definition is_blank :: "char \<Rightarrow> bool" where
  "is_blank c \<longleftrightarrow> (let n = of_char c :: nat in 9 \<le> n \<and> n \<le> 13 \<or> n = 32 \<or> n = 160)"

definition relayStreamOfUrl :: "string \<Rightarrow> string \<Rightarrow> string" where
  "relayStreamOfUrl url motebitId =
     rev (dropWhile (\<lambda>c. c = CHR ''/'') (dropWhile is_blank (rev (dropWhile is_blank url)))) @ ''#'' @ motebitId"

subsection \<open>The sync intent\<close>

datatype sync_intent = IntentRecorded | IntentCleared | IntentNever

type_synonym faults = "string \<Rightarrow> bool"

definition readCursor :: "faults \<Rightarrow> string \<Rightarrow> seq_cursor_store \<Rightarrow> int option option" where
  "readCursor broken key cs = (if broken key then None else Some (getSyncSeqCursor key cs))"

definition listKeys :: "faults \<Rightarrow> string \<Rightarrow> seq_cursor_store \<Rightarrow> string list option" where
  "listKeys broken pre cs = (if broken pre then None else Some (listSyncSeqCursorKeys pre cs))"

definition recordSyncIntent :: "string \<Rightarrow> seq_cursor_store \<Rightarrow> seq_cursor_store" where
  "recordSyncIntent motebitId cs = setSyncSeqCursor (syncIntentKey motebitId) SYNC_INTENT_RECORDED cs"

definition clearSyncIntent :: "string \<Rightarrow> seq_cursor_store \<Rightarrow> seq_cursor_store" where
  "clearSyncIntent motebitId cs = setSyncSeqCursor (syncIntentKey motebitId) SYNC_INTENT_CLEARED cs"

definition readSyncIntent :: "faults \<Rightarrow> string \<Rightarrow> seq_cursor_store \<Rightarrow> sync_intent option" where
  "readSyncIntent broken motebitId cs =
     (case readCursor broken (syncIntentKey motebitId) cs of
        None \<Rightarrow> None
      | Some None \<Rightarrow> Some IntentNever
      | Some (Some v) \<Rightarrow> Some (if v = SYNC_INTENT_CLEARED then IntentCleared else IntentRecorded))"

fun any_recorded :: "faults \<Rightarrow> string list \<Rightarrow> seq_cursor_store \<Rightarrow> bool option" where
  "any_recorded broken [] cs = Some False"
| "any_recorded broken (k # ks) cs =
     (case readCursor broken k cs of
        None \<Rightarrow> None
      | Some v \<Rightarrow> (if v = Some SYNC_INTENT_RECORDED then Some True else any_recorded broken ks cs))"

definition anySyncIntentRecorded :: "faults \<Rightarrow> seq_cursor_store \<Rightarrow> bool option" where
  "anySyncIntentRecorded broken cs =
     (case listKeys broken SYNC_INTENT_PREFIX cs of None \<Rightarrow> None | Some ks \<Rightarrow> any_recorded broken ks cs)"

datatype retire_error = NotThisIdentitysStream

definition of_identity :: "string \<Rightarrow> string \<Rightarrow> bool" where
  "of_identity motebitId stream \<longleftrightarrow> ends_with stream (''#'' @ motebitId)"

definition retireRelayStream :: "string \<Rightarrow> string \<Rightarrow> int \<Rightarrow> seq_cursor_store \<Rightarrow> retire_error + seq_cursor_store" where
  "retireRelayStream motebitId stream now cs =
     (if \<not> of_identity motebitId stream then Inl NotThisIdentitysStream
      else Inr (setSyncSeqCursor (retiredStreamKey stream) (max 1 now) cs))"

subsection \<open>The compaction floor\<close>

fun gather :: "faults \<Rightarrow> string option \<Rightarrow> string list \<Rightarrow> seq_cursor_store \<Rightarrow> (string, int) jsmap \<Rightarrow> (string, int) jsmap option" where
  "gather broken motebitId [] cs acked = Some acked"
| "gather broken motebitId (key # keys) cs acked =
     (let stream = relayStreamOfPushKey key
      in if (case motebitId of None \<Rightarrow> False | Some m \<Rightarrow> \<not> of_identity m stream) then gather broken motebitId keys cs acked
         else (case readCursor broken key cs of
                 None \<Rightarrow> None
               | Some v \<Rightarrow>
                   (let cursor = (case v of None \<Rightarrow> 0 | Some n \<Rightarrow> n);
                        old = (case jsm_get acked stream of None \<Rightarrow> 0 | Some n \<Rightarrow> n)
                    in gather broken motebitId keys cs (jsm_set stream (max old cursor) acked))))"

definition gatherStreams :: "faults \<Rightarrow> string option \<Rightarrow> string list \<Rightarrow> seq_cursor_store \<Rightarrow> (string, int) jsmap option" where
  \<comment> \<open>\<open>linked\<close> are the keys linked in this process\<close>
  "gatherStreams broken motebitId linked cs =
     (case listKeys broken PUSH_CURSOR_PREFIX cs of
        None \<Rightarrow> None
      | Some persisted \<Rightarrow> gather broken motebitId (linked @ filter (\<lambda>k. k \<notin> set linked) persisted) cs [])"

definition streamRetiredAt :: "faults \<Rightarrow> string \<Rightarrow> seq_cursor_store \<Rightarrow> int option option" where
  "streamRetiredAt broken stream cs =
     (case readCursor broken (retiredStreamKey stream) cs of
        None \<Rightarrow> None
      | Some v \<Rightarrow> Some (case v of None \<Rightarrow> None | Some t \<Rightarrow> (if t > 0 then Some t else None)))"

fun drop_retired :: "faults \<Rightarrow> string list \<Rightarrow> string set \<Rightarrow> seq_cursor_store \<Rightarrow> (string, int) jsmap \<Rightarrow> (string, int) jsmap option" where
  "drop_retired broken [] exclude cs acked = Some acked"
| "drop_retired broken (stream # streams) exclude cs acked =
     (case streamRetiredAt broken stream cs of
        None \<Rightarrow> None
      | Some retired \<Rightarrow>
          drop_retired broken streams exclude cs (if stream \<in> exclude \<or> retired \<noteq> None then jsm_delete stream acked else acked))"

record floor_options =
  fo_syncConfigured :: "bool option"
  fo_motebitId :: "string option"

definition floorExcluding :: "faults \<Rightarrow> string list \<Rightarrow> seq_cursor_store \<Rightarrow> int \<Rightarrow> floor_options \<Rightarrow> string set \<Rightarrow> int" where
  "floorExcluding broken linked cs requested opts exclude =
     (case gatherStreams broken (fo_motebitId opts) linked cs of
        None \<Rightarrow> 0
      | Some all \<Rightarrow>
          (case drop_retired broken (jsm_keys all) exclude cs all of
             None \<Rightarrow> 0
           | Some acked \<Rightarrow>
               (if acked \<noteq> [] then foldl min requested (jsm_values acked)
                else (case (case fo_motebitId opts of
                              Some m \<Rightarrow> map_option (\<lambda>i. i = IntentRecorded) (readSyncIntent broken m cs)
                            | None \<Rightarrow> anySyncIntentRecorded broken cs) of
                        None \<Rightarrow> 0
                      | Some intended \<Rightarrow> (if fo_syncConfigured opts = Some True \<or> intended then 0 else requested)))))"

definition pushCompactionFloor :: "faults \<Rightarrow> string list \<Rightarrow> seq_cursor_store \<Rightarrow> int \<Rightarrow> floor_options \<Rightarrow> int" where
  "pushCompactionFloor broken linked cs requested opts = floorExcluding broken linked cs requested opts {}"

subsection \<open>The push cursor\<close>

definition byClockThenId :: "event_entry \<Rightarrow> event_entry \<Rightarrow> int" where
  "byClockThenId a b =
     (if ev_version_clock a \<noteq> ev_version_clock b then ev_version_clock a - ev_version_clock b
      else code_point_order (ev_event_id a) (ev_event_id b))"

function (sequential) ackedPushCursor :: "int \<Rightarrow> event_entry list \<Rightarrow> string set \<Rightarrow> int" where
  \<comment> \<open>one call per clock group\<close>
  "ackedPushCursor safe [] acked = safe"
| "ackedPushCursor safe (e # es) acked =
     (let clock = ev_version_clock e;
          group = takeWhile (\<lambda>x. ev_version_clock x = clock) (e # es)
      in if \<not> list_all (\<lambda>x. ev_event_id x \<in> acked) group then safe
         else ackedPushCursor clock (dropWhile (\<lambda>x. ev_version_clock x = clock) (e # es)) acked)"
  by pat_completeness auto
termination
  by (relation "measure (\<lambda>(s, es, a). length es)") (auto simp add: less_Suc_eq_le length_dropWhile_le)

lemma clock_group:
  assumes "sorted (map ev_version_clock (e # es))"
  defines "same \<equiv> (\<lambda>x. ev_version_clock x = ev_version_clock e)"
  shows "set (takeWhile same (e # es)) = {x \<in> set (e # es). ev_version_clock x \<le> ev_version_clock e}"
    and "set (dropWhile same (e # es)) = {x \<in> set (e # es). ev_version_clock e < ev_version_clock x}"
    and "sorted (map ev_version_clock (dropWhile same (e # es)))"
proof -
  have low: "ev_version_clock e \<le> ev_version_clock x" if "x \<in> set (e # es)" for x using assms(1) that by auto
  have drop: "ev_version_clock e < ev_version_clock x" if "x \<in> set (dropWhile same (e # es))" for x
    using assms(1) that
  proof (induction es)
    case Nil
    then show ?case by (simp add: same_def)
  next
    case (Cons y ys)
    then show ?case by (cases "same y") (auto simp add: same_def)
  qed
  have take: "same x" if "x \<in> set (takeWhile same (e # es))" for x using that by (rule set_takeWhileD [THEN conjunct2])
  have all: "set (e # es) = set (takeWhile same (e # es)) \<union> set (dropWhile same (e # es))"
    by (metis set_append takeWhile_dropWhile_id)
  show "set (takeWhile same (e # es)) = {x \<in> set (e # es). ev_version_clock x \<le> ev_version_clock e}"
  proof (intro set_eqI iffI)
    fix x assume x: "x \<in> set (takeWhile same (e # es))"
    then have "x \<in> set (e # es)" using all by blast
    then show "x \<in> {x \<in> set (e # es). ev_version_clock x \<le> ev_version_clock e}" using take [OF x] by (simp add: same_def)
  next
    fix x assume x: "x \<in> {x \<in> set (e # es). ev_version_clock x \<le> ev_version_clock e}"
    then have "\<not> ev_version_clock e < ev_version_clock x" by simp
    then have "x \<notin> set (dropWhile same (e # es))" using drop by blast
    then show "x \<in> set (takeWhile same (e # es))" using x all by blast
  qed
  show "set (dropWhile same (e # es)) = {x \<in> set (e # es). ev_version_clock e < ev_version_clock x}"
  proof (intro set_eqI iffI)
    fix x assume x: "x \<in> set (dropWhile same (e # es))"
    then show "x \<in> {x \<in> set (e # es). ev_version_clock e < ev_version_clock x}" using all drop [OF x] by blast
  next
    fix x assume x: "x \<in> {x \<in> set (e # es). ev_version_clock e < ev_version_clock x}"
    then have "\<not> same x" by (simp add: same_def)
    then have "x \<notin> set (takeWhile same (e # es))" using take by blast
    then show "x \<in> set (dropWhile same (e # es))" using x all by blast
  qed
  show "sorted (map ev_version_clock (dropWhile same (e # es)))" 
    using sorted_wrt_drop [OF assms(1)] by (simp only: dropWhile_eq_drop drop_map)
qed

text \<open>The push cursor is the largest clock at or below which every event is acknowledged, or stays where it is.\<close>

lemma ackedPushCursor_spec:
  assumes "sorted (map ev_version_clock es)" and "\<forall>e \<in> set es. safe < ev_version_clock e"
  shows "safe \<le> ackedPushCursor safe es acked"
    and "ackedPushCursor safe es acked = safe \<or> ackedPushCursor safe es acked \<in> ev_version_clock ` set es"
    and "\<forall>e \<in> set es. ev_version_clock e \<le> ackedPushCursor safe es acked \<longrightarrow> ev_event_id e \<in> acked"
    and "\<forall>x \<in> set es. (\<forall>e \<in> set es. ev_version_clock e \<le> ev_version_clock x \<longrightarrow> ev_event_id e \<in> acked) \<longrightarrow>
      ev_version_clock x \<le> ackedPushCursor safe es acked"
proof -
  have "safe \<le> ackedPushCursor safe es acked
    \<and> (ackedPushCursor safe es acked = safe \<or> ackedPushCursor safe es acked \<in> ev_version_clock ` set es)
    \<and> (\<forall>e \<in> set es. ev_version_clock e \<le> ackedPushCursor safe es acked \<longrightarrow> ev_event_id e \<in> acked)
    \<and> (\<forall>x \<in> set es. (\<forall>e \<in> set es. ev_version_clock e \<le> ev_version_clock x \<longrightarrow> ev_event_id e \<in> acked) \<longrightarrow>
        ev_version_clock x \<le> ackedPushCursor safe es acked)"
    (is "?P safe es")
    using assms
  proof (induction safe es acked rule: ackedPushCursor.induct)
    case (2 safe e es acked)
    let ?c = "ev_version_clock e" and ?rest = "dropWhile (\<lambda>x. ev_version_clock x = ev_version_clock e) (e # es)"
    let ?group = "takeWhile (\<lambda>x. ev_version_clock x = ev_version_clock e) (e # es)"
    note g = clock_group [OF 2(2)]
    have low: "?c \<le> ev_version_clock x" if "x \<in> set (e # es)" for x using 2(2) that by auto
    show ?case
    proof (cases "list_all (\<lambda>x. ev_event_id x \<in> acked) ?group")
      case False
      then obtain y where y: "y \<in> set (e # es)" "ev_version_clock y \<le> ?c" "ev_event_id y \<notin> acked"
        using g(1) unfolding list_all_iff by blast
      have res: "ackedPushCursor safe (e # es) acked = safe" using False by (simp add: Let_def)
      show ?thesis unfolding res using 2(3) y low by (meson order_trans not_le order_refl)
    next
      case True
      have res: "ackedPushCursor safe (e # es) acked = ackedPushCursor ?c ?rest acked" using True by (simp add: Let_def)
      have "\<forall>x \<in> set ?rest. ?c < ev_version_clock x" unfolding g(2) by blast
      note IH = 2(1) [OF refl refl _ g(3) this]
      have grp: "ev_event_id x \<in> acked" if "x \<in> set (e # es)" "ev_version_clock x \<le> ?c" for x
        using True g(1) that unfolding list_all_iff by blast
      have "safe < ?c" using 2(3) by simp
      let ?r = "ackedPushCursor ?c ?rest acked"
      have r: "?c \<le> ?r" "?r = ?c \<or> ?r \<in> ev_version_clock ` set ?rest"
        "\<And>x. x \<in> set ?rest \<Longrightarrow> ev_version_clock x \<le> ?r \<Longrightarrow> ev_event_id x \<in> acked"
        "\<And>x. x \<in> set ?rest \<Longrightarrow> (\<forall>y \<in> set ?rest. ev_version_clock y \<le> ev_version_clock x \<longrightarrow> ev_event_id y \<in> acked) \<Longrightarrow> ev_version_clock x \<le> ?r"
        using IH True by blast+
      have rest: "x \<in> set ?rest \<longleftrightarrow> x \<in> set (e # es) \<and> ?c < ev_version_clock x" for x unfolding g(2) by blast
      show ?thesis unfolding res
      proof (intro conjI ballI impI)
        show "safe \<le> ?r" using r(1) \<open>safe < ?c\<close> by simp
        show "?r = safe \<or> ?r \<in> ev_version_clock ` set (e # es)" using r(2) rest by auto
        show "ev_event_id x \<in> acked" if "x \<in> set (e # es)" "ev_version_clock x \<le> ?r" for x
          using that grp r(3) rest by (meson not_le)
        show "ev_version_clock x \<le> ?r" if "x \<in> set (e # es)"
          "\<forall>y \<in> set (e # es). ev_version_clock y \<le> ev_version_clock x \<longrightarrow> ev_event_id y \<in> acked" for x
        proof (cases "ev_version_clock x \<le> ?c")
          case False
          then show ?thesis using r(4) [of x] that rest by (meson not_le)
        qed (use r(1) in simp)
      qed
    qed
  qed simp
  then show "safe \<le> ackedPushCursor safe es acked"
    "ackedPushCursor safe es acked = safe \<or> ackedPushCursor safe es acked \<in> ev_version_clock ` set es"
    "\<forall>e \<in> set es. ev_version_clock e \<le> ackedPushCursor safe es acked \<longrightarrow> ev_event_id e \<in> acked"
    "\<forall>x \<in> set es. (\<forall>e \<in> set es. ev_version_clock e \<le> ev_version_clock x \<longrightarrow> ev_event_id e \<in> acked) \<longrightarrow>
      ev_version_clock x \<le> ackedPushCursor safe es acked"
    by blast+
qed

subsection \<open>The engine between two awaits\<close>

type_synonym in_flight = "(string, nat) jsmap" \<comment> \<open>event id to the transport its push went out through\<close>

record sync_engine =
  se_motebit_id :: string
  se_batch_size :: nat
  se_client :: sync_client
  se_remote :: "remote_store option"
  se_last_version_clock :: int
  se_knownRemote :: "(string, int) jsmap"
  se_outstanding :: "(string, in_flight) jsmap"
  se_ackedAbove :: "(string, string set) jsmap"
  se_aboveCursor :: "(string, event_entry list) jsmap"
  se_streamOfKey :: "(string, string option) jsmap"
  se_linked :: "string list" \<comment> \<open>\<open>connectedPushStreams\<close> of the local store\<close>

definition MAX_PUSH_BATCHES_PER_SYNC :: nat where "MAX_PUSH_BATCHES_PER_SYNC = 50"
definition MAX_KNOWN_REMOTE :: nat where "MAX_KNOWN_REMOTE = 10000"

definition newEngine :: "string \<Rightarrow> nat \<Rightarrow> sync_client \<Rightarrow> sync_engine" where
  "newEngine motebitId batch_size client =
     \<lparr> se_motebit_id = motebitId, se_batch_size = batch_size, se_client = client, se_remote = None, se_last_version_clock = 0,
       se_knownRemote = [], se_outstanding = [], se_ackedAbove = [], se_aboveCursor = [], se_streamOfKey = [], se_linked = [] \<rparr>"

definition put_cursor :: "string \<Rightarrow> int \<Rightarrow> sync_engine \<Rightarrow> sync_engine" where
  "put_cursor key n g = g\<lparr>se_client := (se_client g)\<lparr>sc_cursors := setSyncSeqCursor key n (sc_cursors (se_client g))\<rparr>\<rparr>"

definition connectRemote :: "remote_store \<Rightarrow> sync_engine \<Rightarrow> sync_engine" where
  \<comment> \<open>the enrolment of the key is queued: see \<open>enrollStream\<close>\<close>
  "connectRemote remote g =
     (let key = pushCursorKey remote (se_motebit_id g)
      in g\<lparr>se_remote := Some remote, se_linked := (if key \<in> set (se_linked g) then se_linked g else se_linked g @ [key]), se_knownRemote := []\<rparr>)"

definition enrollStream :: "string \<Rightarrow> sync_engine \<Rightarrow> sync_engine" where
  "enrollStream key g =
     (let cs = sc_cursors (se_client g);
          g' = (if getSyncSeqCursor key cs = None then put_cursor key 0 g else g);
          retired = retiredStreamKey (relayStreamOfPushKey key)
      in if (case getSyncSeqCursor retired (sc_cursors (se_client g')) of None \<Rightarrow> 0 | Some t \<Rightarrow> t) > 0 then put_cursor retired 0 g' else g')"

definition noteHeldByRelay :: "event_entry list \<Rightarrow> sync_engine \<Rightarrow> sync_engine" where
  "noteHeldByRelay events g =
     g\<lparr>se_knownRemote := foldl (\<lambda>known e. jsm_set (ev_event_id e) (ev_version_clock e) known)
        (if length (se_knownRemote g) > MAX_KNOWN_REMOTE then [] else se_knownRemote g) events\<rparr>"

definition known_held :: "sync_engine \<Rightarrow> string option \<Rightarrow> string set \<Rightarrow> string \<Rightarrow> bool" where
  \<comment> \<open>acknowledged, pulled from the relay, or seen in its stream\<close>
  "known_held g stream acked i \<longleftrightarrow> i \<in> acked \<or> jsm_has (se_knownRemote g) i
     \<or> (case stream of None \<Rightarrow> False | Some s \<Rightarrow> relayHolds s i (sc_held (se_client g)))"

fun push_window :: "sync_engine \<Rightarrow> string option \<Rightarrow> nat \<Rightarrow> event_entry list \<Rightarrow> string set \<Rightarrow> in_flight \<Rightarrow> event_entry list \<Rightarrow>
    string set \<times> in_flight \<times> event_entry list" where
  \<comment> \<open>the new set of acknowledged ids, the pushes in flight, and the events handed to the adapter, in order\<close>
  "push_window g stream transport [] acked flying sent = (acked, flying, sent)"
| "push_window g stream transport (e # es) acked flying sent =
     (if known_held g stream acked (ev_event_id e) then push_window g stream transport es (insert (ev_event_id e) acked) flying sent
      else if jsm_has flying (ev_event_id e) then push_window g stream transport es acked flying sent
      else push_window g stream transport es acked (jsm_set (ev_event_id e) transport flying) (sent @ [e]))"

definition pushEvents :: "(nat \<Rightarrow> string \<Rightarrow> bool) \<Rightarrow> remote_store \<Rightarrow> sync_engine \<Rightarrow> event_entry list \<times> sync_engine" where
  \<comment> \<open>up to the wait for the answers; \<open>holds\<close> is \<open>holdsPush\<close> of a transport\<close>
  "pushEvents holds remote g =
     (let m = se_motebit_id g;
          key = pushCursorKey remote m;
          stream = relayStreamOf remote;
          cursor = cursor_of key (se_client g);
          pending = js_sort byClockThenId (filter (\<lambda>e. ev_motebit_id e = m \<and> ev_version_clock e > cursor)
            (log_query (after_clock m cursor) (sc_local (se_client g))));
          flying0 = (case jsm_get (se_outstanding g) key of None \<Rightarrow> [] | Some f \<Rightarrow> f);
          flying1 = filter (\<lambda>(i, via). via = rm_transport remote \<or> holds via i) flying0;
          flying2 = (if rm_reports remote then flying1 else []);
          acked0 = (case jsm_get (se_ackedAbove g) key of None \<Rightarrow> {} | Some a \<Rightarrow> a);
          (acked, flying, sent) = push_window g stream (rm_transport remote)
            (take (MAX_PUSH_BATCHES_PER_SYNC * se_batch_size g) pending) acked0 flying2 []
      in (sent, g\<lparr>se_streamOfKey := jsm_set key stream (se_streamOfKey g), se_last_version_clock := cursor,
              se_aboveCursor := jsm_set key pending (se_aboveCursor g), se_outstanding := jsm_set key flying (se_outstanding g),
              se_ackedAbove := jsm_set key acked (se_ackedAbove g)\<rparr>))"

definition settle :: "string \<Rightarrow> string \<Rightarrow> sync_engine \<Rightarrow> sync_engine" where
  "settle key i g = (case jsm_get (se_outstanding g) key of None \<Rightarrow> g
     | Some f \<Rightarrow> g\<lparr>se_outstanding := jsm_set key (jsm_delete i f) (se_outstanding g)\<rparr>)"

definition pushAcked :: "string \<Rightarrow> string \<Rightarrow> sync_engine \<Rightarrow> sync_engine" where
  \<comment> \<open>the relay acknowledged a push sent for \<open>key\<close>\<close>
  "pushAcked key i g =
     (let acked = (case jsm_get (se_ackedAbove g) key of None \<Rightarrow> {} | Some a \<Rightarrow> a)
      in settle key i (g\<lparr>se_ackedAbove := jsm_set key (insert i acked) (se_ackedAbove g)\<rparr>))"

definition pushFailed :: "string \<Rightarrow> string \<Rightarrow> sync_engine \<Rightarrow> sync_engine" where
  "pushFailed key i g = settle key i g"

definition advance :: "string \<Rightarrow> int \<Rightarrow> sync_engine \<Rightarrow> sync_engine" where
  \<comment> \<open>\<open>now\<close> is the time noted for the acknowledgment\<close>
  "advance key now g =
     (let stream = (case jsm_get (se_streamOfKey g) key of None \<Rightarrow> None | Some s \<Rightarrow> s)
      in case (jsm_get (se_aboveCursor g) key, jsm_get (se_ackedAbove g) key) of
           (Some events, Some acked) \<Rightarrow>
             (let cursor = cursor_of key (se_client g);
                  over = dropWhile (\<lambda>e. ev_version_clock e \<le> cursor) events;
                  complete = set (map ev_event_id (takeWhile (\<lambda>e. known_held g stream acked (ev_event_id e)) over));
                  next_clock = ackedPushCursor cursor over complete
              in if next_clock > cursor
                 then (let g1 = put_cursor (pushAckedAtKey (relayStreamOfPushKey key)) now (put_cursor key next_clock g);
                           passed = takeWhile (\<lambda>e. ev_version_clock e \<le> next_clock) over
                       in g1\<lparr>se_ackedAbove := jsm_set key (acked - set (map ev_event_id passed)) (se_ackedAbove g),
                             se_aboveCursor := jsm_set key (drop (length passed) over) (se_aboveCursor g),
                             se_last_version_clock := (case se_remote g of
                                Some r \<Rightarrow> (if pushCursorKey r (se_motebit_id g) = key then next_clock else se_last_version_clock g)
                              | None \<Rightarrow> se_last_version_clock g),
                             se_knownRemote := filter (\<lambda>(i, clock). clock > next_clock) (se_knownRemote g)\<rparr>)
                 else g)
         | _ \<Rightarrow> g)"

definition pullPage :: "'r seq_source \<Rightarrow> bool \<Rightarrow> int \<Rightarrow> bool \<Rightarrow> seq_pull_result \<Rightarrow> sync_engine \<Rightarrow> sync_engine" where
  \<comment> \<open>one page of a pull, with the engine's \<open>onPage\<close>: the events it appended are held by the relay\<close>
  "pullPage src byKey cursor resetOnce res g =
     (let m = se_motebit_id g;
          c1 = note_page src m res (se_client g);
          seqOf = (case res of SeqPage entries _ _ _ \<Rightarrow> seqs_of entries | ClockPage _ \<Rightarrow> (\<lambda>_. None));
          (out, c2) = process_page src byKey m seqOf (page_events res) (emptyOutcome, c1);
          c3 = (case res of SeqPage _ nextSeq _ _ \<Rightarrow> save_cursor src cursor nextSeq resetOnce c2 | ClockPage _ \<Rightarrow> c2)
      in noteHeldByRelay (pl_fresh out) (g\<lparr>se_client := c3\<rparr>))"

definition pullByClock :: "event_entry list \<Rightarrow> sync_engine \<Rightarrow> sync_engine" where
  \<comment> \<open>a remote that cannot pull by sequence: its answer to the clock query\<close>
  "pullByClock remoteEvents g =
     (let c = se_client g;
          localClock = getLatestClock (se_motebit_id g) (sc_local c);
          newEvents = filter (\<lambda>e. ev_version_clock e > localClock) remoteEvents
      in noteHeldByRelay newEvents (g\<lparr>se_client := c\<lparr>sc_local := foldl (\<lambda>s e. log_append e s) (sc_local c) newEvents\<rparr>\<rparr>))"

record conflict_edge =
  ce_local :: event_entry
  ce_remote :: event_entry

definition detectConflicts :: "event_entry list \<Rightarrow> event_entry list \<Rightarrow> conflict_edge list" where
  "detectConflicts pushed pulled =
     concat (map (\<lambda>l. map (\<lambda>r. \<lparr> ce_local = l, ce_remote = r \<rparr>)
       (filter (\<lambda>r. ev_version_clock l = ev_version_clock r \<and> ev_event_id l \<noteq> ev_event_id r) pulled)) pushed)"

subsection \<open>Compaction\<close>

definition compactUpTo :: "faults \<Rightarrow> bool option \<Rightarrow> int \<Rightarrow> sync_engine \<Rightarrow> sync_engine" where
  \<comment> \<open>the runtime's one place that deletes; \<open>answer\<close> is whether a relay is configured, none when undecided\<close>
  "compactUpTo broken answer requested g =
     (let m = se_motebit_id g;
          configured = (case answer of None \<Rightarrow> True | Some b \<Rightarrow> b);
          cs = (if answer = Some True then recordSyncIntent m (sc_cursors (se_client g)) else sc_cursors (se_client g));
          g1 = g\<lparr>se_client := (se_client g)\<lparr>sc_cursors := cs\<rparr>\<rparr>;
          bound = pushCompactionFloor broken (se_linked g) cs requested \<lparr> fo_syncConfigured = Some configured, fo_motebitId = Some m \<rparr>
      in if bound \<le> 0 then g1
         else g1\<lparr>se_client := (se_client g1)\<lparr>sc_local := snd (log_compact m bound (sc_local (se_client g1)))\<rparr>\<rparr>)"

definition compact_log :: "faults \<Rightarrow> bool option \<Rightarrow> int \<Rightarrow> sync_engine \<Rightarrow> sync_engine" where
  \<comment> \<open>\<open>compact\<close>; the state snapshot it saves first is not part of the log\<close>
  "compact_log broken answer compactionThreshold g =
     (if compactionThreshold = 0 then g
      else (let eventCount = countEvents (se_motebit_id g) (sc_local (se_client g))
            in if eventCount < 0 \<or> eventCount < compactionThreshold then g
               else (let clock = getLatestClock (se_motebit_id g) (sc_local (se_client g))
                     in if clock = 0 then g else compactUpTo broken answer (clock - 1) g)))"

definition autoCompact :: "faults \<Rightarrow> bool option \<Rightarrow> int \<Rightarrow> sync_engine \<Rightarrow> sync_engine" where
  "autoCompact broken answer compactionThreshold g =
     (if compactionThreshold \<le> 0 then g
      else (let count = countEvents (se_motebit_id g) (sc_local (se_client g))
            in if count \<ge> compactionThreshold
               then (let clock = getLatestClock (se_motebit_id g) (sc_local (se_client g))
                     in if clock > 0 then compactUpTo broken answer (clock - 1) g else g)
               else g))"

end
