(* ===== verification/SyncSafety.thy ===== *)
theory SyncSafety
  imports SyncPush
begin

text \<open>
  What the push cursor and the compaction floor of \<open>packages/sync-engine/src/index.ts\<close> promise, over every interleaving of the engine's
  steps: connecting to relays, pushes, late acknowledgments, pages of pulls still running, local writes and compaction. The world
  adds to the engine what each relay stream has acknowledged or served, and which events this device wrote itself.
\<close>

subsection \<open>Keys\<close>

lemma starts_with_append [simp]: "starts_with (p @ s) p"
  by (simp add: starts_with_def)

lemma starts_with_iff: "starts_with s p \<longleftrightarrow> (\<exists>t. s = p @ t)"
  unfolding starts_with_def by (metis append_take_drop_id append_eq_conv_conj)

definition source_key :: "string \<Rightarrow> bool" where
  "source_key k \<longleftrightarrow> starts_with k ''raw:'' \<or> starts_with k ''e2e:''"

definition remote_ok :: "remote_store \<Rightarrow> bool" where
  \<comment> \<open>the keys the adapters name: \<open>raw:\<close> for HTTP, \<open>e2e:\<close> for the encrypting wrapper\<close>
  "remote_ok remote \<longleftrightarrow> (case rm_seqKey remote of None \<Rightarrow> True | Some k \<Rightarrow> source_key k)"

definition push_key :: "string \<Rightarrow> bool" where
  "push_key k \<longleftrightarrow> starts_with k PUSH_CURSOR_PREFIX"

lemma pushCursorKey_push: "push_key (pushCursorKey remote m)"
  by (simp add: push_key_def PUSH_CURSOR_PREFIX_def pushCursorKey_def starts_with_def split: option.splits)

lemma source_key_not_relay: "source_key k \<Longrightarrow> \<not> starts_with k ''relay:''"
  by (auto simp add: source_key_def starts_with_iff)

lemma stream_of_remote:
  assumes "remote_ok remote" and "relayStreamOf remote = Some s"
  shows "relayStreamOfPushKey (pushCursorKey remote m) = s"
  using assms source_key_not_relay
  by (auto simp add: relayStreamOf_def pushCursorKey_def relayStreamOfPushKey_def remote_ok_def PUSH_CURSOR_PREFIX_def starts_with_def Let_def
      split: option.splits)

lemma other_keys_not_push:
  "source_key k \<Longrightarrow> \<not> push_key k" "\<not> push_key (retiredStreamKey s)" "\<not> push_key (pushAckedAtKey s)" "\<not> push_key (syncIntentKey m)"
  by (auto simp add: source_key_def push_key_def PUSH_CURSOR_PREFIX_def starts_with_iff retiredStreamKey_def pushAckedAtKey_def
      syncIntentKey_def SYNC_INTENT_PREFIX_def)

subsection \<open>The invariant\<close>

definition own_events :: "string set \<Rightarrow> event_store \<Rightarrow> event_entry set" where
  "own_events own loc = {e \<in> set (es_events loc). ev_event_id e \<in> own}"

definition log_ok :: "string \<Rightarrow> event_store \<Rightarrow> string set \<Rightarrow> bool" where
  "log_ok m loc own \<longleftrightarrow> log_wf loc \<and> own \<subseteq> es_seenIds loc \<and> (\<forall>e \<in> own_events own loc. ev_motebit_id e = m)
     \<and> (\<forall>e \<in> set (of_motebit m loc). 1 \<le> ev_version_clock e)"

definition marks_ok :: "event_store \<Rightarrow> string set \<Rightarrow> (string, int) jsmap \<Rightarrow> relay_held \<Rightarrow> (string, string set) jsmap \<Rightarrow>
    (string, string option) jsmap \<Rightarrow> (string \<times> string) set \<Rightarrow> bool" where
  \<comment> \<open>what counts as delivered was delivered, as far as this device's own events go\<close>
  "marks_ok loc own known held acked streams stored \<longleftrightarrow>
     (\<forall>e \<in> own_events own loc. \<not> jsm_has known (ev_event_id e)) \<and> (\<forall>i. jsm_has known i \<longrightarrow> i \<in> es_seenIds loc)
     \<and> (\<forall>key a i. jsm_get acked key = Some a \<longrightarrow> i \<in> a \<longrightarrow> i \<in> es_seenIds loc)
     \<and> (\<forall>s i. relayHolds s i held \<longrightarrow> (s, i) \<in> stored)
     \<and> (\<forall>key a i. jsm_get acked key = Some a \<longrightarrow> i \<in> a \<longrightarrow> i \<in> own \<longrightarrow> (relayStreamOfPushKey key, i) \<in> stored)
     \<and> (\<forall>key s. jsm_get streams key = Some (Some s) \<longrightarrow> s = relayStreamOfPushKey key)"

definition cursors_ok :: "string \<Rightarrow> event_store \<Rightarrow> string set \<Rightarrow> (string, event_entry list) jsmap \<Rightarrow> (string \<Rightarrow> int) \<Rightarrow> (string \<times> string) set \<Rightarrow> bool" where
  "cursors_ok m loc own over cur stored \<longleftrightarrow>
     (\<forall>key. push_key key \<longrightarrow> cur key \<le> getLatestClock m loc
        \<and> (\<forall>e \<in> own_events own loc. ev_version_clock e \<le> cur key \<longrightarrow> (relayStreamOfPushKey key, ev_event_id e) \<in> stored))
     \<and> (\<forall>key l. jsm_get over key = Some l \<longrightarrow> push_key key \<and> sorted (map ev_version_clock l) \<and> (\<forall>x \<in> set l. ev_version_clock x \<le> getLatestClock m loc)
        \<and> (\<forall>e \<in> own_events own loc. cur key < ev_version_clock e \<longrightarrow> e \<in> set l \<or> (\<forall>x \<in> set l. ev_version_clock x < ev_version_clock e)))"

record push_world =
  pw_engine :: sync_engine
  pw_stored :: "(string \<times> string) set"
  pw_own :: "string set"

definition world_ok :: "push_world \<Rightarrow> bool" where
  "world_ok w \<longleftrightarrow>
     (let g = pw_engine w; c = se_client g
      in log_ok (se_motebit_id g) (sc_local c) (pw_own w)
         \<and> marks_ok (sc_local c) (pw_own w) (se_knownRemote g) (sc_held c) (se_ackedAbove g) (se_streamOfKey g) (pw_stored w)
         \<and> cursors_ok (se_motebit_id g) (sc_local c) (pw_own w) (se_aboveCursor g) (\<lambda>k. cursor_of k c) (pw_stored w))"

lemma clock_le_latest: "e \<in> set (of_motebit m s) \<Longrightarrow> ev_version_clock e \<le> getLatestClock m s"
  by (auto simp add: getLatestClock_def max_clock_def)

lemma own_latest:
  assumes "log_ok m loc own" and "e \<in> own_events own loc"
  shows "ev_version_clock e \<le> getLatestClock m loc"
proof -
  have "e \<in> set (of_motebit m loc)" using assms by (auto simp add: log_ok_def own_events_def of_motebit_def)
  then show ?thesis by (rule clock_le_latest)
qed

lemma latest_nonneg:
  assumes "log_ok m loc own"
  shows "0 \<le> getLatestClock m loc"
proof (cases "of_motebit m loc")
  case Nil
  then show ?thesis by (simp add: getLatestClock_def)
next
  case (Cons e es)
  then have "1 \<le> ev_version_clock e" "ev_version_clock e \<le> max_clock (of_motebit m loc)"
    using assms by (simp_all add: log_ok_def max_clock_def)
  then show ?thesis using Cons by (simp add: getLatestClock_def)
qed

lemma latest_mono:
  assumes "set (of_motebit m loc) \<subseteq> set (of_motebit m loc')" and "log_ok m loc' own"
  shows "getLatestClock m loc \<le> getLatestClock m loc'"
proof (cases "of_motebit m loc = []")
  case True
  then show ?thesis using latest_nonneg [OF assms(2)] by (simp add: getLatestClock_def)
next
  case False
  then have "of_motebit m loc' \<noteq> []" using assms(1) by auto
  moreover have "max_clock (of_motebit m loc) \<le> max_clock (of_motebit m loc')"
    unfolding max_clock_def using False assms(1) by (intro Max_mono) auto
  ultimately show ?thesis using False by (simp add: getLatestClock_def)
qed

subsection \<open>Changes that keep it\<close>

lemma marks_mono:
  assumes "marks_ok loc own known held acked streams stored" and "own_events own loc' \<subseteq> own_events own loc"
    and "es_seenIds loc \<subseteq> es_seenIds loc'" and "stored \<subseteq> stored'"
  shows "marks_ok loc' own known held acked streams stored'"
  using assms unfolding marks_ok_def by blast

lemma cursors_okD:
  assumes "cursors_ok m loc own over cur stored"
  shows "push_key k \<Longrightarrow> cur k \<le> getLatestClock m loc"
    and "push_key k \<Longrightarrow> e \<in> own_events own loc \<Longrightarrow> ev_version_clock e \<le> cur k \<Longrightarrow> (relayStreamOfPushKey k, ev_event_id e) \<in> stored"
    and "jsm_get over k = Some l \<Longrightarrow> push_key k" "jsm_get over k = Some l \<Longrightarrow> sorted (map ev_version_clock l)"
    and "jsm_get over k = Some l \<Longrightarrow> x \<in> set l \<Longrightarrow> ev_version_clock x \<le> getLatestClock m loc"
    and "jsm_get over k = Some l \<Longrightarrow> e \<in> own_events own loc \<Longrightarrow> cur k < ev_version_clock e \<Longrightarrow>
      e \<in> set l \<or> (\<forall>x \<in> set l. ev_version_clock x < ev_version_clock e)"
  using assms unfolding cursors_ok_def by blast+

lemma cursors_mono:
  assumes c: "cursors_ok m loc own over cur stored" and own: "own_events own loc' \<subseteq> own_events own loc"
    and latest: "getLatestClock m loc \<le> getLatestClock m loc'" and "stored \<subseteq> stored'" and cur: "\<And>k. push_key k \<Longrightarrow> cur' k = cur k"
  shows "cursors_ok m loc' own over cur' stored'"
  unfolding cursors_ok_def
proof (intro conjI allI impI ballI)
  fix key assume k: "push_key key"
  show "cur' key \<le> getLatestClock m loc'" using cursors_okD(1) [OF c k] latest cur [OF k] by simp
  show "(relayStreamOfPushKey key, ev_event_id e) \<in> stored'" if "e \<in> own_events own loc'" "ev_version_clock e \<le> cur' key" for e
    using cursors_okD(2) [OF c k, of e] own that cur [OF k] assms(4) by auto
next
  fix key l assume l: "jsm_get over key = Some l"
  show k: "push_key key" "sorted (map ev_version_clock l)" using cursors_okD(3,4) [OF c l] by simp_all
  show "ev_version_clock x \<le> getLatestClock m loc'" if "x \<in> set l" for x using cursors_okD(5) [OF c l that] latest by simp
  show "e \<in> set l \<or> (\<forall>x \<in> set l. ev_version_clock x < ev_version_clock e)" if "e \<in> own_events own loc'" "cur' key < ev_version_clock e" for e
    using cursors_okD(6) [OF c l, of e] own that cur [OF k(1)] by auto
qed

lemma marks_known:
  assumes "marks_ok loc own known held acked streams stored"
    and "\<And>i. jsm_has known' i \<Longrightarrow> jsm_has known i \<or> i \<in> es_seenIds loc \<and> i \<notin> ev_event_id ` own_events own loc"
  shows "marks_ok loc own known' held acked streams stored"
proof -
  have "\<not> jsm_has known' (ev_event_id e)" if "e \<in> own_events own loc" for e
    using assms(2) [of "ev_event_id e"] that assms(1) unfolding marks_ok_def by blast
  moreover have "i \<in> es_seenIds loc" if "jsm_has known' i" for i
    using assms(2) [OF that] assms(1) unfolding marks_ok_def by blast
  ultimately show ?thesis using assms(1) unfolding marks_ok_def by blast
qed

lemma marks_held:
  assumes "marks_ok loc own known held acked streams stored" and "\<And>s i. relayHolds s i held' \<Longrightarrow> relayHolds s i held \<or> (s, i) \<in> stored"
  shows "marks_ok loc own known held' acked streams stored"
  using assms unfolding marks_ok_def by blast

lemma marks_acked:
  assumes "marks_ok loc own known held acked streams stored"
    and "\<And>i. i \<in> a \<Longrightarrow> (\<exists>b. jsm_get acked key = Some b \<and> i \<in> b) \<or> i \<in> es_seenIds loc \<and> (i \<in> own \<longrightarrow> (relayStreamOfPushKey key, i) \<in> stored)"
  shows "marks_ok loc own known held (jsm_set key a acked) streams stored"
proof -
  have "i \<in> es_seenIds loc \<and> (i \<in> own \<longrightarrow> (relayStreamOfPushKey key, i) \<in> stored)" if "i \<in> a" for i
    using assms(2) [OF that] assms(1) unfolding marks_ok_def by blast
  then have "i \<in> es_seenIds loc \<and> (i \<in> own \<longrightarrow> (relayStreamOfPushKey k, i) \<in> stored)" if "jsm_get (jsm_set key a acked) k = Some b" "i \<in> b" for k b i
    using that assms(1) unfolding marks_ok_def jsm_get_set by (cases "k = key") auto
  then show ?thesis using assms(1) unfolding marks_ok_def by blast
qed

lemma marks_streams:
  assumes "marks_ok loc own known held acked streams stored" and "\<And>s. st = Some s \<Longrightarrow> s = relayStreamOfPushKey key"
  shows "marks_ok loc own known held acked (jsm_set key st streams) stored"
proof -
  have "s = relayStreamOfPushKey k" if "jsm_get (jsm_set key st streams) k = Some (Some s)" for k s
    using that assms unfolding marks_ok_def jsm_get_set by (cases "k = key") auto
  then show ?thesis using assms(1) unfolding marks_ok_def by blast
qed

lemma cursor_of_put: "cursor_of k (se_client (put_cursor key n g)) = (if k = key then n else cursor_of k (se_client g))"
  by (simp add: put_cursor_def cursor_of_def getSyncSeqCursor_def setSyncSeqCursor_def jsm_get_set)

lemma put_cursor_other [simp]:
  "se_motebit_id (put_cursor key n g) = se_motebit_id g" "sc_local (se_client (put_cursor key n g)) = sc_local (se_client g)"
  "sc_held (se_client (put_cursor key n g)) = sc_held (se_client g)" "se_knownRemote (put_cursor key n g) = se_knownRemote g"
  "se_ackedAbove (put_cursor key n g) = se_ackedAbove g" "se_aboveCursor (put_cursor key n g) = se_aboveCursor g"
  "se_streamOfKey (put_cursor key n g) = se_streamOfKey g" "se_linked (put_cursor key n g) = se_linked g"
  by (simp_all add: put_cursor_def)

subsection \<open>Moving the cursor\<close>

lemma sorted_drop_over:
  assumes "sorted (map ev_version_clock l)"
  shows "set (dropWhile (\<lambda>e. ev_version_clock e \<le> n) l) = {e \<in> set l. n < ev_version_clock e}"
    and "sorted (map ev_version_clock (dropWhile (\<lambda>e. ev_version_clock e \<le> n) l))"
proof -
  show "set (dropWhile (\<lambda>e. ev_version_clock e \<le> n) l) = {e \<in> set l. n < ev_version_clock e}"
    using assms
  proof (induction l)
    case (Cons x xs)
    then show ?case by (cases "ev_version_clock x \<le> n") auto
  qed simp
  show "sorted (map ev_version_clock (dropWhile (\<lambda>e. ev_version_clock e \<le> n) l))"
    using sorted_wrt_drop [OF assms] by (simp only: dropWhile_eq_drop drop_map)
qed

lemma advance_cursor_ok:
  assumes marks: "marks_ok loc own known held acked streams stored" and cursors: "cursors_ok m loc own over cur stored"
    and over: "jsm_get over key = Some l" and a: "jsm_get acked key = Some a"
    and stream: "\<And>s. stream = Some s \<Longrightarrow> s = relayStreamOfPushKey key"
    and held: "\<And>i. kh i \<longleftrightarrow> i \<in> a \<or> jsm_has known i \<or> (case stream of None \<Rightarrow> False | Some s \<Rightarrow> relayHolds s i held)"
  defines "over' \<equiv> dropWhile (\<lambda>e. ev_version_clock e \<le> cur key) l"
  defines "n \<equiv> ackedPushCursor (cur key) over' (set (map ev_event_id (takeWhile (\<lambda>e. kh (ev_event_id e)) over')))"
  shows "cursors_ok m loc own (jsm_set key (dropWhile (\<lambda>e. ev_version_clock e \<le> n) over') over) (cur(key := n)) stored"
proof -
  have l: "push_key key" "sorted (map ev_version_clock l)" "\<And>x. x \<in> set l \<Longrightarrow> ev_version_clock x \<le> getLatestClock m loc"
    "\<And>e. e \<in> own_events own loc \<Longrightarrow> cur key < ev_version_clock e \<Longrightarrow> e \<in> set l \<or> (\<forall>x \<in> set l. ev_version_clock x < ev_version_clock e)"
    using cursors over unfolding cursors_ok_def by blast+
  have old: "cur key \<le> getLatestClock m loc"
    "\<And>e. e \<in> own_events own loc \<Longrightarrow> ev_version_clock e \<le> cur key \<Longrightarrow> (relayStreamOfPushKey key, ev_event_id e) \<in> stored"
    using cursors l(1) unfolding cursors_ok_def by blast+
  have setover: "set over' = {e \<in> set l. cur key < ev_version_clock e}" and srt: "sorted (map ev_version_clock over')"
    unfolding over'_def using sorted_drop_over [OF l(2)] by simp_all
  then have "\<forall>e \<in> set over'. cur key < ev_version_clock e" by simp
  note spec = ackedPushCursor_spec [OF srt this, of "set (map ev_event_id (takeWhile (\<lambda>e. kh (ev_event_id e)) over'))", folded n_def]
  have inl: "e \<in> set over'" if e: "e \<in> own_events own loc" "cur key < ev_version_clock e" "ev_version_clock e \<le> n" for e
  proof -
    have "n \<in> ev_version_clock ` set over'" using spec(2) e(2,3) by auto
    then obtain x where "x \<in> set l" "n = ev_version_clock x" using setover by auto
    then have "e \<in> set l" using l(4) [OF e(1,2)] e(3) by fastforce
    then show ?thesis using setover e(2) by simp
  qed
  have deliv: "(relayStreamOfPushKey key, ev_event_id e) \<in> stored" if e: "e \<in> own_events own loc" "ev_version_clock e \<le> n" for e
  proof (cases "ev_version_clock e \<le> cur key")
    case False
    then have "ev_event_id e \<in> set (map ev_event_id (takeWhile (\<lambda>e. kh (ev_event_id e)) over'))" using spec(3) inl [OF e(1)] e(2) by auto
    then have "kh (ev_event_id e)" by (auto dest: set_takeWhileD)
    moreover have "\<not> jsm_has known (ev_event_id e)" using marks e(1) unfolding marks_ok_def by blast
    ultimately consider "ev_event_id e \<in> a" | s where "stream = Some s" "relayHolds s (ev_event_id e) held"
      unfolding held by (auto split: option.splits)
    then show ?thesis
    proof cases
      case 1
      then show ?thesis using marks a e(1) unfolding marks_ok_def own_events_def by blast
    next
      case 2
      then show ?thesis using marks stream unfolding marks_ok_def by blast
    qed
  qed (use old(2) e(1) in blast)
  have top: "n \<le> getLatestClock m loc" using spec(2) old(1) setover l(3) by auto
  have covers: "e \<in> set (dropWhile (\<lambda>e. ev_version_clock e \<le> n) over')
      \<or> (\<forall>x \<in> set (dropWhile (\<lambda>e. ev_version_clock e \<le> n) over'). ev_version_clock x < ev_version_clock e)"
    if "e \<in> own_events own loc" "n < ev_version_clock e" for e
    using l(4) [OF that(1)] that(2) spec(1) setover sorted_drop_over(1) [OF srt, of n] by auto
  have "\<forall>x \<in> set (dropWhile (\<lambda>e. ev_version_clock e \<le> n) over'). ev_version_clock x \<le> getLatestClock m loc"
    using sorted_drop_over(1) [OF srt, of n] setover l(3) by simp
  then show ?thesis
    using cursors l(1) deliv top covers sorted_drop_over(2) [OF srt, of n] unfolding cursors_ok_def jsm_get_set by auto
qed

lemma world_okD:
  assumes "world_ok w"
  shows "log_ok (se_motebit_id (pw_engine w)) (sc_local (se_client (pw_engine w))) (pw_own w)"
    and "marks_ok (sc_local (se_client (pw_engine w))) (pw_own w) (se_knownRemote (pw_engine w)) (sc_held (se_client (pw_engine w)))
      (se_ackedAbove (pw_engine w)) (se_streamOfKey (pw_engine w)) (pw_stored w)"
    and "cursors_ok (se_motebit_id (pw_engine w)) (sc_local (se_client (pw_engine w))) (pw_own w) (se_aboveCursor (pw_engine w))
      (\<lambda>k. cursor_of k (se_client (pw_engine w))) (pw_stored w)"
  using assms by (simp_all add: world_ok_def Let_def)

lemma advance_ok:
  assumes w: "world_ok w"
  shows "world_ok (w\<lparr>pw_engine := advance key now (pw_engine w)\<rparr>)"
proof -
  let ?g = "pw_engine w"
  define stream where "stream = (case jsm_get (se_streamOfKey ?g) key of None \<Rightarrow> None | Some s \<Rightarrow> s)"
  show ?thesis
  proof (cases "jsm_get (se_aboveCursor ?g) key = None \<or> jsm_get (se_ackedAbove ?g) key = None")
    case True
    then have "advance key now ?g = ?g" by (auto simp add: advance_def Let_def split: option.splits)
    then show ?thesis using w by simp
  next
    case False
    then obtain l a where la: "jsm_get (se_aboveCursor ?g) key = Some l" "jsm_get (se_ackedAbove ?g) key = Some a" by auto
    define over where "over = dropWhile (\<lambda>e. ev_version_clock e \<le> cursor_of key (se_client ?g)) l"
    define n where "n = ackedPushCursor (cursor_of key (se_client ?g)) over
      (set (map ev_event_id (takeWhile (\<lambda>e. known_held ?g stream a (ev_event_id e)) over)))"
    let ?passed = "takeWhile (\<lambda>e. ev_version_clock e \<le> n) over"
    let ?g1 = "put_cursor (pushAckedAtKey (relayStreamOfPushKey key)) now (put_cursor key n ?g)"
    have adv: "advance key now ?g = (if n > cursor_of key (se_client ?g) then
        ?g1\<lparr>se_ackedAbove := jsm_set key (a - set (map ev_event_id ?passed)) (se_ackedAbove ?g),
          se_aboveCursor := jsm_set key (drop (length ?passed) over) (se_aboveCursor ?g),
          se_last_version_clock := (case se_remote ?g of
             Some r \<Rightarrow> (if pushCursorKey r (se_motebit_id ?g) = key then n else se_last_version_clock ?g)
           | None \<Rightarrow> se_last_version_clock ?g),
          se_knownRemote := filter (\<lambda>(i, clock). clock > n) (se_knownRemote ?g)\<rparr> else ?g)"
      unfolding advance_def la over_def n_def stream_def Let_def prod.case option.case by (rule refl)
    have kh: "known_held ?g stream a i \<longleftrightarrow> i \<in> a \<or> jsm_has (se_knownRemote ?g) i
        \<or> (case stream of None \<Rightarrow> False | Some s \<Rightarrow> relayHolds s i (sc_held (se_client ?g)))" for i
      by (simp add: known_held_def)
    have st: "s = relayStreamOfPushKey key" if "stream = Some s" for s
      using that world_okD(2) [OF w] unfolding stream_def marks_ok_def by (auto split: option.splits)
    have cur: "cursors_ok (se_motebit_id ?g) (sc_local (se_client ?g)) (pw_own w)
        (jsm_set key (dropWhile (\<lambda>e. ev_version_clock e \<le> n) over) (se_aboveCursor ?g)) ((\<lambda>k. cursor_of k (se_client ?g))(key := n)) (pw_stored w)"
      using advance_cursor_ok [OF world_okD(2,3) [OF w] la st kh] unfolding over_def n_def .
    have pk: "push_key key" using cursors_okD(3) [OF world_okD(3) [OF w] la(1)] .
    have ne: "pushAckedAtKey x \<noteq> key" "key \<noteq> pushAckedAtKey x" for x using pk other_keys_not_push(3) [of x] by auto
    have cur1: "cursors_ok (se_motebit_id ?g) (sc_local (se_client ?g)) (pw_own w)
        (jsm_set key (dropWhile (\<lambda>e. ev_version_clock e \<le> n) over) (se_aboveCursor ?g)) (\<lambda>k. cursor_of k (se_client ?g1)) (pw_stored w)"
      by (rule cursors_mono [OF cur]) (use other_keys_not_push(3) ne in \<open>auto simp add: cursor_of_put\<close>)
    have m1: "marks_ok (sc_local (se_client ?g)) (pw_own w) (se_knownRemote ?g) (sc_held (se_client ?g))
        (jsm_set key (a - set (map ev_event_id ?passed)) (se_ackedAbove ?g)) (se_streamOfKey ?g) (pw_stored w)"
      by (rule marks_acked [OF world_okD(2) [OF w]]) (use la in auto)
    have m2: "marks_ok (sc_local (se_client ?g)) (pw_own w) (filter (\<lambda>(i, clock). clock > n) (se_knownRemote ?g)) (sc_held (se_client ?g))
        (jsm_set key (a - set (map ev_event_id ?passed)) (se_ackedAbove ?g)) (se_streamOfKey ?g) (pw_stored w)"
      by (rule marks_known [OF m1]) (auto simp add: jsm_has_def map_of_eq_None_iff)
    have "drop (length ?passed) over = dropWhile (\<lambda>e. ev_version_clock e \<le> n) over" by (simp add: dropWhile_eq_drop)
    then show ?thesis using w cur1 m2 world_okD(1) [OF w] by (simp add: adv world_ok_def Let_def)
  qed
qed

subsection \<open>Pushing\<close>

lemma byClockThenId_then: "byClockThenId = cmp_then (\<lambda>a b. ev_version_clock a - ev_version_clock b) (\<lambda>a b. code_point_order (ev_event_id a) (ev_event_id b))"
  by (intro ext) (simp add: byClockThenId_def cmp_then_def)

lemma sorted_pending: "sorted (map ev_version_clock (js_sort byClockThenId es))"
proof -
  have "js_comparator byClockThenId" unfolding byClockThenId_then
    by (rule js_comparator_then [OF by_key_asc.js_comparator_axioms js_comparator_map [OF code_points.js_comparator_axioms]]) auto
  then have "sorted_wrt (\<lambda>a b. byClockThenId a b \<le> 0) (js_sort byClockThenId es)" by (rule js_comparator.sorted_js_sort)
  then have "sorted_wrt (\<lambda>a b. ev_version_clock a \<le> ev_version_clock b) (js_sort byClockThenId es)"
    by (rule sorted_wrt_mono_rel [rotated]) (auto simp add: byClockThenId_def split: if_splits)
  then show ?thesis by (simp add: sorted_map)
qed

lemma push_window_acked:
  assumes "push_window g stream t es acked flying sent = (acked', flying', sent')" and "i \<in> acked'"
  shows "i \<in> acked \<or> (\<exists>e \<in> set es. ev_event_id e = i) \<and> (jsm_has (se_knownRemote g) i
    \<or> (case stream of None \<Rightarrow> False | Some s \<Rightarrow> relayHolds s i (sc_held (se_client g))))"
  using assms
proof (induction es arbitrary: acked flying sent)
  case (Cons e es)
  consider "known_held g stream acked (ev_event_id e)" | "\<not> known_held g stream acked (ev_event_id e)" "jsm_has flying (ev_event_id e)"
    | "\<not> known_held g stream acked (ev_event_id e)" "\<not> jsm_has flying (ev_event_id e)" by blast
  then show ?case
  proof cases
    case 1
    then have "push_window g stream t es (insert (ev_event_id e) acked) flying sent = (acked', flying', sent')" using Cons.prems by simp
    from Cons.IH [OF this Cons.prems(2)] show ?thesis using 1 unfolding known_held_def by auto
  next
    case 2
    then have "push_window g stream t es acked flying sent = (acked', flying', sent')" using Cons.prems by simp
    from Cons.IH [OF this Cons.prems(2)] show ?thesis by auto
  next
    case 3
    then have "push_window g stream t es acked (jsm_set (ev_event_id e) t flying) (sent @ [e]) = (acked', flying', sent')" using Cons.prems by simp
    from Cons.IH [OF this Cons.prems(2)] show ?thesis by auto
  qed
qed simp

lemma push_ok:
  assumes w: "world_ok w" and r: "remote_ok remote"
  shows "world_ok (w\<lparr>pw_engine := snd (pushEvents holds remote (pw_engine w))\<rparr>)"
proof -
  let ?g = "pw_engine w" and ?m = "se_motebit_id (pw_engine w)" and ?loc = "sc_local (se_client (pw_engine w))"
  define key where "key = pushCursorKey remote ?m"
  define cursor where "cursor = cursor_of key (se_client ?g)"
  define pending where "pending = js_sort byClockThenId (filter (\<lambda>e. ev_motebit_id e = ?m \<and> ev_version_clock e > cursor)
     (log_query (after_clock ?m cursor) ?loc))"
  obtain acked flying sent where win: "push_window ?g (relayStreamOf remote) (rm_transport remote)
      (take (MAX_PUSH_BATCHES_PER_SYNC * se_batch_size ?g) pending)
      (case jsm_get (se_ackedAbove ?g) key of None \<Rightarrow> {} | Some a \<Rightarrow> a)
      (if rm_reports remote then filter (\<lambda>(i, via). via = rm_transport remote \<or> holds via i)
         (case jsm_get (se_outstanding ?g) key of None \<Rightarrow> [] | Some f \<Rightarrow> f) else []) [] = (acked, flying, sent)"
    by (rule prod_cases3)
  have res: "snd (pushEvents holds remote ?g) = ?g\<lparr>se_streamOfKey := jsm_set key (relayStreamOf remote) (se_streamOfKey ?g), se_last_version_clock := cursor,
      se_aboveCursor := jsm_set key pending (se_aboveCursor ?g), se_outstanding := jsm_set key flying (se_outstanding ?g),
      se_ackedAbove := jsm_set key acked (se_ackedAbove ?g)\<rparr>"
    unfolding pushEvents_def Let_def
    by (simp only: key_def [symmetric] cursor_def [symmetric] pending_def [symmetric] win prod.case snd_conv)
  have pend: "set pending = {e \<in> set (of_motebit ?m ?loc). cursor < ev_version_clock e}"
    by (auto simp add: pending_def log_query_def after_clock_def when_given_def of_motebit_def)
  have pk: "push_key key" by (simp add: key_def pushCursorKey_push)
  have st: "s = relayStreamOfPushKey key" if "relayStreamOf remote = Some s" for s using stream_of_remote [OF r that] by (simp add: key_def)
  have marks: "marks_ok ?loc (pw_own w) (se_knownRemote ?g) (sc_held (se_client ?g)) (jsm_set key acked (se_ackedAbove ?g)) (se_streamOfKey ?g) (pw_stored w)"
  proof (rule marks_acked [OF world_okD(2) [OF w]])
    fix i assume "i \<in> acked"
    from push_window_acked [OF win this] consider b where "jsm_get (se_ackedAbove ?g) key = Some b" "i \<in> b"
      | e where "e \<in> set pending" "ev_event_id e = i" "jsm_has (se_knownRemote ?g) i
          \<or> (case relayStreamOf remote of None \<Rightarrow> False | Some s \<Rightarrow> relayHolds s i (sc_held (se_client ?g)))"
      by (auto split: option.splits dest: in_set_takeD)
    then show "(\<exists>b. jsm_get (se_ackedAbove ?g) key = Some b \<and> i \<in> b)
        \<or> i \<in> es_seenIds ?loc \<and> (i \<in> pw_own w \<longrightarrow> (relayStreamOfPushKey key, i) \<in> pw_stored w)"
    proof cases
      case 2
      have loc: "e \<in> set (es_events ?loc)" using 2(1) pend by (simp add: of_motebit_def)
      then have "i \<in> es_seenIds ?loc" using world_okD(1) [OF w] 2(2) by (auto simp add: log_ok_def log_wf_def event_ids_def)
      moreover have "(relayStreamOfPushKey key, i) \<in> pw_stored w" if "i \<in> pw_own w"
      proof -
        have "e \<in> own_events (pw_own w) ?loc" using loc 2(2) that by (simp add: own_events_def)
        then have "\<not> jsm_has (se_knownRemote ?g) i" using world_okD(2) [OF w] 2(2) unfolding marks_ok_def by blast
        then obtain s where "relayStreamOf remote = Some s" "relayHolds s i (sc_held (se_client ?g))" using 2(3) by (auto split: option.splits)
        then show ?thesis using world_okD(2) [OF w] st unfolding marks_ok_def by blast
      qed
      ultimately show ?thesis by blast
    qed blast
  qed
  have cur: "cursors_ok ?m ?loc (pw_own w) (jsm_set key pending (se_aboveCursor ?g)) (\<lambda>k. cursor_of k (se_client ?g)) (pw_stored w)"
  proof -
    have "ev_version_clock x \<le> getLatestClock ?m ?loc" if "x \<in> set pending" for x
    proof -
      have "x \<in> set (of_motebit ?m ?loc)" using that pend by simp
      then show ?thesis by (rule clock_le_latest)
    qed
    moreover have "e \<in> set pending" if "e \<in> own_events (pw_own w) ?loc" "cursor < ev_version_clock e" for e
      using that world_okD(1) [OF w] pend by (simp add: log_ok_def own_events_def of_motebit_def)
    moreover have "sorted (map ev_version_clock pending)" unfolding pending_def by (rule sorted_pending)
    ultimately show ?thesis
      using world_okD(3) [OF w] pk unfolding cursors_ok_def jsm_get_set cursor_def by auto
  qed
  show ?thesis using world_okD(1) [OF w] marks_streams [OF marks st] cur by (simp add: res world_ok_def Let_def)
qed

end
