(* ===== verification/SyncSteps.thy ===== *)
theory SyncSteps
  imports SyncSafety
begin

text \<open>
  The remaining steps of the sync engine keep the invariant of \<open>SyncSafety\<close>: pages of a pull, answers of relays, local writes,
  compaction and the markers beside the cursors. Last, what the compaction floor bounds.
\<close>

subsection \<open>Changes of the log\<close>

definition log_grows :: "string \<Rightarrow> string set \<Rightarrow> event_store \<Rightarrow> event_store \<Rightarrow> bool" where
  "log_grows m own s s' \<longleftrightarrow> own_events own s' = own_events own s \<and> es_seenIds s \<subseteq> es_seenIds s'
     \<and> set (of_motebit m s) \<subseteq> set (of_motebit m s')"

lemma log_grows_same [simp]: "log_grows m own s s"
  by (simp add: log_grows_def)

lemma log_grows_trans: "log_grows m own a b \<Longrightarrow> log_grows m own b c \<Longrightarrow> log_grows m own a c"
  by (auto simp add: log_grows_def)

lemma append_foreign:
  assumes "log_ok m s own" and "ev_motebit_id e = m \<Longrightarrow> 1 \<le> ev_version_clock e"
  shows "log_ok m (log_append e s) own" and "log_grows m own s (log_append e s)"
proof -
  have own: "own_events own (log_append e s) = own_events own s" using assms(1) by (auto simp add: own_events_def log_append_def log_ok_def)
  show "log_ok m (log_append e s) own"
    using assms log_append_wf [of s e] own by (auto simp add: log_ok_def log_append_seen) (auto simp add: log_append_def of_motebit_def split: if_splits)
  show "log_grows m own s (log_append e s)"
    using own by (auto simp add: log_grows_def log_append_seen) (auto simp add: log_append_def of_motebit_def)
qed

lemma world_grows:
  assumes w: "world_ok w" and log: "log_ok (se_motebit_id (pw_engine w)) loc (pw_own w)"
    and grow: "log_grows (se_motebit_id (pw_engine w)) (pw_own w) (sc_local (se_client (pw_engine w))) loc"
    and cur: "\<And>k. push_key k \<Longrightarrow> cursor_of k c = cursor_of k (se_client (pw_engine w))"
    and held: "\<And>s i. relayHolds s i (sc_held c) \<Longrightarrow> relayHolds s i (sc_held (se_client (pw_engine w))) \<or> (s, i) \<in> pw_stored w"
    and known: "\<And>i. jsm_has known i \<Longrightarrow> jsm_has (se_knownRemote (pw_engine w)) i
      \<or> i \<in> es_seenIds loc \<and> i \<notin> ev_event_id ` own_events (pw_own w) loc"
    and c: "sc_local c = loc"
  shows "world_ok (w\<lparr>pw_engine := (pw_engine w)\<lparr>se_client := c, se_knownRemote := known\<rparr>\<rparr>)"
proof -
  let ?g = "pw_engine w"
  have "marks_ok loc (pw_own w) (se_knownRemote ?g) (sc_held (se_client ?g)) (se_ackedAbove ?g) (se_streamOfKey ?g) (pw_stored w)"
    by (rule marks_mono [OF world_okD(2) [OF w]]) (use grow in \<open>auto simp add: log_grows_def\<close>)
  then have m: "marks_ok loc (pw_own w) known (sc_held c) (se_ackedAbove ?g) (se_streamOfKey ?g) (pw_stored w)"
    using marks_known [OF marks_held [OF _ held] known] by blast
  have "cursors_ok (se_motebit_id ?g) loc (pw_own w) (se_aboveCursor ?g) (\<lambda>k. cursor_of k c) (pw_stored w)"
  proof (rule cursors_mono [OF world_okD(3) [OF w] _ _ subset_refl cur])
    show "own_events (pw_own w) loc \<subseteq> own_events (pw_own w) (sc_local (se_client ?g))" using grow by (simp add: log_grows_def)
    show "getLatestClock (se_motebit_id ?g) (sc_local (se_client ?g)) \<le> getLatestClock (se_motebit_id ?g) loc"
      using latest_mono [OF _ log] grow by (simp add: log_grows_def)
  qed
  then show ?thesis using log m c by (simp add: world_ok_def Let_def)
qed

subsection \<open>A page of a pull\<close>

definition entry_ok :: "'r seq_source \<Rightarrow> event_entry \<Rightarrow> bool" where
  \<comment> \<open>decoding changes neither the id nor the clock\<close>
  "entry_ok src e \<longleftrightarrow> 1 \<le> ev_version_clock e
     \<and> (case ss_decode src of None \<Rightarrow> True
        | Some decode \<Rightarrow> (case decode e of Inl _ \<Rightarrow> True
            | Inr e' \<Rightarrow> ev_event_id e' = ev_event_id e \<and> ev_version_clock e' = ev_version_clock e))"

definition page_ok :: "'r seq_source \<Rightarrow> event_entry list \<Rightarrow> push_world \<Rightarrow> bool" where
  \<comment> \<open>a relay answers with events it stores, whose ids and clocks it serves as it received them\<close>
  "page_ok src events w \<longleftrightarrow>
     (let m = se_motebit_id (pw_engine w); mine = filter (\<lambda>e. ev_motebit_id e = m) events
      in source_key (ss_key src)
         \<and> (\<forall>e \<in> set mine. entry_ok src e \<and> (relayStreamOfKey (ss_key src), ev_event_id e) \<in> pw_stored w
              \<and> (\<forall>x \<in> own_events (pw_own w) (sc_local (se_client (pw_engine w))). ev_event_id x = ev_event_id e \<longrightarrow> ev_version_clock x = ev_version_clock e)))"

lemma take_fresh_not_held: "e \<in> set (take_fresh es held) \<Longrightarrow> ev_event_id e \<notin> held"
  by (induction es arbitrary: held) (auto split: if_splits)

lemma filterUnseen_not_own:
  assumes e: "e \<in> set (filterUnseen byKey s m events)" and "\<forall>x \<in> own_events own s. ev_motebit_id x = m"
    and "\<forall>e \<in> set (filter (\<lambda>e. ev_motebit_id e = m) events). \<forall>x \<in> own_events own s. ev_event_id x = ev_event_id e \<longrightarrow> ev_version_clock x = ev_version_clock e"
  shows "ev_event_id e \<notin> ev_event_id ` own_events own s"
proof
  let ?mine = "filter (\<lambda>e. ev_motebit_id e = m) events"
  let ?held = "if byKey then getHeldEventIds (map ev_event_id ?mine) s
    else set (map ev_event_id (log_query (after_clock m (min_clock ?mine - 1)) s))"
  assume "ev_event_id e \<in> ev_event_id ` own_events own s"
  then obtain x where x: "x \<in> own_events own s" "ev_event_id x = ev_event_id e" by auto
  have fresh: "e \<in> set (take_fresh ?mine ?held)" using e by (auto simp add: filterUnseen_def Let_def split: if_splits)
  then have mine: "e \<in> set ?mine" using take_fresh_subset by blast
  then have "ev_version_clock x = ev_version_clock e" using assms(3) x by blast
  moreover have "min_clock ?mine \<le> ev_version_clock e" unfolding min_clock_def using mine by (intro Min_le) auto
  moreover have "ev_motebit_id x = m" "x \<in> set (es_events s)" using assms(2) x by (auto simp add: own_events_def)
  ultimately have "ev_event_id e \<in> ?held"
    using x(2) mine by (auto simp add: getHeldEventIds_def event_ids_def log_query_def after_clock_def when_given_def intro!: image_eqI [where x = x])
  then show False using take_fresh_not_held [OF fresh] by blast
qed

definition applied_ok :: "string \<Rightarrow> string set \<Rightarrow> string set \<Rightarrow> pull_outcome \<times> sync_client \<Rightarrow> pull_outcome \<times> sync_client \<Rightarrow> bool" where
  "applied_ok m own ids x x' \<longleftrightarrow> log_ok m (sc_local (snd x')) own \<and> log_grows m own (sc_local (snd x)) (sc_local (snd x'))
     \<and> (\<forall>e \<in> set (pl_fresh (fst x')). ev_event_id e \<in> ids \<inter> es_seenIds (sc_local (snd x')) \<or> e \<in> set (pl_fresh (fst x)))
     \<and> cs_cursors (sc_cursors (snd x')) = cs_cursors (sc_cursors (snd x)) \<and> sc_held (snd x') = sc_held (snd x)"

lemma apply_one_ok:
  assumes "log_ok m (sc_local (snd x)) own" and "entry_ok src e"
  shows "applied_ok m own {ev_event_id e} x (apply_one src seqOf e x)"
proof -
  obtain out c where x: "x = (out, c)" by fastforce
  have add: "applied_ok m own {ev_event_id e} x (append_fresh e' x)" if "ev_event_id e' = ev_event_id e" "ev_version_clock e' = ev_version_clock e" for e'
    using append_foreign [of m "sc_local c" own e'] assms(1,2) that by (auto simp add: applied_ok_def append_fresh_def x log_append_seen entry_ok_def)
  have skip: "applied_ok m own {ev_event_id e} x (skip_event k sk x)" for k sk
    using assms(1) by (auto simp add: applied_ok_def skip_event_def x recordSkippedSyncEvent_def Let_def)
  show ?thesis
  proof (cases "ss_decode src")
    case None
    then have one: "apply_one src seqOf e x =
        (if \<not> plaintext e then (out\<lparr>pl_encryptedOnRawPath := pl_encryptedOnRawPath out + 1\<rparr>, c) else append_fresh e x)"
      by (simp add: apply_one_def x)
    have "applied_ok m own {ev_event_id e} x (out\<lparr>pl_encryptedOnRawPath := pl_encryptedOnRawPath out + 1\<rparr>, c)"
      using assms(1) by (simp add: applied_ok_def x)
    then show ?thesis unfolding one using add [of e] by simp
  next
    case (Some decode)
    show ?thesis
    proof (cases "decode e")
      case (Inl err)
      then show ?thesis using Some skip by (simp add: apply_one_def)
    next
      case (Inr e')
      then show ?thesis using Some add [of e'] assms(2) by (simp add: apply_one_def entry_ok_def)
    qed
  qed
qed

lemma applied_trans:
  assumes "applied_ok m own A x y" and "applied_ok m own B y z"
  shows "applied_ok m own (A \<union> B) x z"
proof -
  have "ev_event_id e \<in> (A \<union> B) \<inter> es_seenIds (sc_local (snd z)) \<or> e \<in> set (pl_fresh (fst x))" if "e \<in> set (pl_fresh (fst z))" for e
    using assms that unfolding applied_ok_def log_grows_def by blast
  then show ?thesis using assms log_grows_trans unfolding applied_ok_def by metis
qed

lemma apply_unseen_ok:
  assumes "log_ok m (sc_local (snd x)) own"
    and "\<forall>e \<in> set es. entry_ok src e"
  shows "applied_ok m own (ev_event_id ` set es) x (apply_unseen src seqOf es x)"
  using assms
proof (induction es arbitrary: x)
  case Nil
  then show ?case by (simp add: applied_ok_def)
next
  case (Cons e es)
  have one: "applied_ok m own {ev_event_id e} x (apply_one src seqOf e x)"
    by (rule apply_one_ok [OF Cons.prems(1)]) (use Cons.prems(2) in simp_all)
  have "log_ok m (sc_local (snd (apply_one src seqOf e x))) own" using one by (simp add: applied_ok_def)
  from applied_trans [OF one Cons.IH [OF this]] show ?case unfolding apply_unseen_Cons using Cons.prems(2) by simp
qed

lemma note_held_has: "jsm_has (note_held es h) i \<longleftrightarrow> i \<in> ev_event_id ` set es \<or> jsm_has h i"
  by (induction es arbitrary: h) (auto simp add: jsm_has_iff jsm_get_set jsm_get_delete)

lemma relayHolds_note:
  assumes "relayHolds s i (noteRelayHolds stream es held)"
  shows "relayHolds s i held \<or> s = stream \<and> i \<in> ev_event_id ` set es"
proof (cases "s = stream")
  case True
  let ?h = "case jsm_get held stream of None \<Rightarrow> [] | Some h \<Rightarrow> h"
  have "i \<in> set (jsm_keys (drop (length (note_held es ?h) - RELAY_HELD_KEPT) (note_held es ?h)))"
    using assms True by (simp add: relayHolds_def noteRelayHolds_def Let_def jsm_keys_iff)
  then have "i \<in> set (jsm_keys (note_held es ?h))" by (auto simp add: jsm_keys_def dest: in_set_dropD)
  then have "i \<in> ev_event_id ` set es \<or> jsm_has ?h i" by (simp only: jsm_keys_iff note_held_has)
  then show ?thesis using True by (auto simp add: relayHolds_def jsm_has_def split: option.splits)
qed (use assms in \<open>simp add: relayHolds_def noteRelayHolds_def Let_def\<close>)

lemma note_known_has:
  "jsm_has (foldl (\<lambda>known e. jsm_set (ev_event_id e) (ev_version_clock e) known) known es) i \<longleftrightarrow> i \<in> ev_event_id ` set es \<or> jsm_has known i"
  by (induction es arbitrary: known) (auto simp add: jsm_has_iff jsm_get_set)

lemma page_step_ok:
  assumes w: "world_ok w" and p: "page_ok src (page_events res) w"
  shows "world_ok (w\<lparr>pw_engine := pullPage src byKey cursor resetOnce res (pw_engine w)\<rparr>)"
proof -
  let ?g = "pw_engine w" and ?m = "se_motebit_id (pw_engine w)" and ?own = "pw_own w"
  let ?loc = "sc_local (se_client ?g)" and ?mine = "filter (\<lambda>e. ev_motebit_id e = ?m) (page_events res)"
  let ?seqOf = "case res of SeqPage entries _ _ _ \<Rightarrow> seqs_of entries | ClockPage _ \<Rightarrow> (\<lambda>_. None)"
  let ?unseen = "filterUnseen byKey ?loc ?m (page_events res)"
  let ?c1 = "note_page src ?m res (se_client ?g)"
  obtain out c2 where proc: "apply_unseen src ?seqOf ?unseen (emptyOutcome, ?c1) = (out, c2)" by fastforce
  define c3 where "c3 = (case res of SeqPage _ nextSeq _ _ \<Rightarrow> save_cursor src cursor nextSeq resetOnce c2 | ClockPage _ \<Rightarrow> c2)"
  have res: "pullPage src byKey cursor resetOnce res ?g = noteHeldByRelay (pl_fresh out) (?g\<lparr>se_client := c3\<rparr>)"
    using proc unfolding pullPage_def Let_def process_page_def c3_def by (simp add: note_page_def)
  have ok: "source_key (ss_key src)" using p unfolding page_ok_def Let_def by blast
  have mine: "entry_ok src e" "(relayStreamOfKey (ss_key src), ev_event_id e) \<in> pw_stored w"
      "\<forall>x \<in> own_events ?own ?loc. ev_event_id x = ev_event_id e \<longrightarrow> ev_version_clock x = ev_version_clock e"
    if "e \<in> set ?mine" for e
    using p that unfolding page_ok_def Let_def by blast+
  have log: "log_ok ?m ?loc ?own" using world_okD(1) [OF w] .
  have unseen: "e \<in> set ?mine" if "e \<in> set ?unseen" for e using filterUnseen_subset that by fastforce
  have app: "applied_ok ?m ?own (ev_event_id ` set ?unseen) (emptyOutcome, ?c1) (out, c2)"
    unfolding proc [symmetric] by (rule apply_unseen_ok) (use log unseen mine(1) in \<open>auto simp add: note_page_def\<close>)
  have notown: "ev_event_id e \<notin> ev_event_id ` own_events ?own ?loc" if "e \<in> set ?unseen" for e
    by (rule filterUnseen_not_own [OF that]) (use log mine(3) in \<open>auto simp add: log_ok_def\<close>)
  have c3: "sc_local c3 = sc_local c2" "sc_held c3 = sc_held c2" "k \<noteq> ss_key src \<Longrightarrow> cursor_of k c3 = cursor_of k c2" for k
    by (simp_all add: c3_def save_cursor_def cursor_of_def getSyncSeqCursor_def setSyncSeqCursor_def split: seq_pull_result.splits)
  have c2: "log_ok ?m (sc_local c2) ?own" "log_grows ?m ?own ?loc (sc_local c2)" "sc_held c2 = sc_held ?c1"
    "cursor_of k c2 = cursor_of k (se_client ?g)" for k
    using app by (simp_all add: applied_ok_def note_page_def cursor_of_def getSyncSeqCursor_def)
  define known where "known = foldl (\<lambda>known e. jsm_set (ev_event_id e) (ev_version_clock e) known)
    (if length (se_knownRemote ?g) > MAX_KNOWN_REMOTE then [] else se_knownRemote ?g) (pl_fresh out)"
  have new: "pullPage src byKey cursor resetOnce res ?g = ?g\<lparr>se_client := c3, se_knownRemote := known\<rparr>"
    unfolding res noteHeldByRelay_def known_def by simp
  have known: "jsm_has (se_knownRemote ?g) i \<or> i \<in> es_seenIds (sc_local c2) \<and> i \<notin> ev_event_id ` own_events ?own (sc_local c2)"
    if "jsm_has known i" for i
  proof -
    from that consider e where "e \<in> set (pl_fresh out)" "i = ev_event_id e" | "jsm_has (se_knownRemote ?g) i"
      unfolding known_def note_known_has by (auto simp add: jsm_has_def split: if_splits)
    then show ?thesis
    proof cases
      case 1
      then have "i \<in> ev_event_id ` set ?unseen \<inter> es_seenIds (sc_local c2)" using app by (simp add: applied_ok_def emptyOutcome_def)
      then show ?thesis using notown c2(2) by (auto simp add: log_grows_def)
    qed simp
  qed
  show ?thesis unfolding new
  proof (rule world_grows [OF w c2(1,2)])
    show "cursor_of k c3 = cursor_of k (se_client ?g)" if "push_key k" for k
    proof -
      have "k \<noteq> ss_key src" using that other_keys_not_push(1) [OF ok] by auto
      then show ?thesis by (simp add: c3(3) c2(4))
    qed
    show "relayHolds s i (sc_held (se_client ?g)) \<or> (s, i) \<in> pw_stored w" if "relayHolds s i (sc_held c3)" for s i
    proof -
      have "relayHolds s i (noteRelayHolds (relayStreamOfKey (ss_key src)) ?mine (sc_held (se_client ?g)))"
        using that by (simp add: c3(2) c2(3) note_page_def)
      from relayHolds_note [OF this] show ?thesis using mine(2) by blast
    qed
  qed (use known c3(1) in simp_all)
qed

lemma noted_page_ok:
  assumes w: "world_ok w" and p: "page_ok src (page_events res) w"
  shows "world_ok (w\<lparr>pw_engine := (pw_engine w)\<lparr>se_client := note_page src (se_motebit_id (pw_engine w)) res (se_client (pw_engine w))\<rparr>\<rparr>)"
proof -
  let ?g = "pw_engine w"
  have "relayHolds s i (sc_held (se_client ?g)) \<or> (s, i) \<in> pw_stored w"
    if "relayHolds s i (sc_held (note_page src (se_motebit_id ?g) res (se_client ?g)))" for s i
  proof -
    from that have "relayHolds s i (noteRelayHolds (relayStreamOfKey (ss_key src))
        (filter (\<lambda>e. ev_motebit_id e = se_motebit_id ?g) (page_events res)) (sc_held (se_client ?g)))" by (simp add: note_page_def)
    from relayHolds_note [OF this] show ?thesis using p unfolding page_ok_def Let_def by blast
  qed
  from world_grows [OF w world_okD(1) [OF w] log_grows_same _ this, where c = "note_page src (se_motebit_id ?g) res (se_client ?g)" and known = "se_knownRemote ?g"]
  show ?thesis by (simp add: note_page_def cursor_of_def)
qed

definition clock_answer_ok :: "event_entry list \<Rightarrow> push_world \<Rightarrow> bool" where
  "clock_answer_ok events w \<longleftrightarrow> (\<forall>e \<in> set events. \<forall>x \<in> own_events (pw_own w) (sc_local (se_client (pw_engine w))).
     ev_event_id x = ev_event_id e \<longrightarrow> ev_version_clock x = ev_version_clock e)"

lemma append_all_foreign:
  assumes "log_ok m s own" and "\<forall>e \<in> set es. 1 \<le> ev_version_clock e"
  shows "log_ok m (foldl (\<lambda>s e. log_append e s) s es) own \<and> log_grows m own s (foldl (\<lambda>s e. log_append e s) s es)
    \<and> ev_event_id ` set es \<subseteq> es_seenIds (foldl (\<lambda>s e. log_append e s) s es)"
  using assms
proof (induction es arbitrary: s)
  case (Cons e es)
  have one: "log_ok m (log_append e s) own" "log_grows m own s (log_append e s)" using append_foreign Cons.prems by auto
  note IH = Cons.IH [OF one(1)]
  have "ev_event_id e \<in> es_seenIds (foldl (\<lambda>s e. log_append e s) (log_append e s) es)"
    using IH Cons.prems(2) log_append_seen [of e s] by (auto simp add: log_grows_def)
  then show ?case using IH Cons.prems(2) log_grows_trans [OF one(2)] by auto
qed simp

lemma clock_pull_ok:
  assumes w: "world_ok w" and p: "clock_answer_ok events w"
  shows "world_ok (w\<lparr>pw_engine := pullByClock events (pw_engine w)\<rparr>)"
proof -
  let ?g = "pw_engine w" and ?m = "se_motebit_id (pw_engine w)" and ?own = "pw_own w"
  let ?loc = "sc_local (se_client ?g)"
  define new where "new = filter (\<lambda>e. ev_version_clock e > getLatestClock ?m ?loc) events"
  define loc where "loc = foldl (\<lambda>s e. log_append e s) ?loc new"
  define known where "known = foldl (\<lambda>known e. jsm_set (ev_event_id e) (ev_version_clock e) known)
    (if length (se_knownRemote ?g) > MAX_KNOWN_REMOTE then [] else se_knownRemote ?g) new"
  have res: "pullByClock events ?g = ?g\<lparr>se_client := (se_client ?g)\<lparr>sc_local := loc\<rparr>, se_knownRemote := known\<rparr>"
    unfolding pullByClock_def Let_def noteHeldByRelay_def known_def loc_def new_def by simp
  note log = world_okD(1) [OF w]
  have "\<forall>e \<in> set new. 1 \<le> ev_version_clock e" using latest_nonneg [OF log] by (auto simp add: new_def)
  note all = append_all_foreign [OF log this, folded loc_def]
  have notown: "ev_event_id e \<notin> ev_event_id ` own_events ?own loc" if "e \<in> set new" for e
  proof
    assume "ev_event_id e \<in> ev_event_id ` own_events ?own loc"
    then obtain x where x: "x \<in> own_events ?own ?loc" "ev_event_id x = ev_event_id e" using all by (auto simp add: log_grows_def)
    then have "ev_version_clock x = ev_version_clock e" using p that unfolding clock_answer_ok_def new_def by auto
    then show False using own_latest [OF log x(1)] that by (simp add: new_def)
  qed
  have known: "jsm_has (se_knownRemote ?g) i \<or> i \<in> es_seenIds loc \<and> i \<notin> ev_event_id ` own_events ?own loc" if "jsm_has known i" for i
    using that notown all unfolding known_def note_known_has by (auto simp add: jsm_has_def split: if_splits)
  show ?thesis unfolding res
    by (rule world_grows [OF w conjunct1 [OF all] conjunct1 [OF conjunct2 [OF all]]]) (use known in \<open>auto simp add: cursor_of_def\<close>)
qed

subsection \<open>The other steps\<close>

lemma world_cursors:
  assumes w: "world_ok w" and "\<And>k. push_key k \<Longrightarrow> cursor_of k c = cursor_of k (se_client (pw_engine w))"
    and "sc_local c = sc_local (se_client (pw_engine w))" "sc_held c = sc_held (se_client (pw_engine w))"
    and "se_motebit_id g = se_motebit_id (pw_engine w)" "se_client g = c" "se_knownRemote g = [] \<or> se_knownRemote g = se_knownRemote (pw_engine w)"
      "se_ackedAbove g = se_ackedAbove (pw_engine w)" "se_aboveCursor g = se_aboveCursor (pw_engine w)" "se_streamOfKey g = se_streamOfKey (pw_engine w)"
    and stored: "pw_stored w \<subseteq> stored"
  shows "world_ok (w\<lparr>pw_engine := g, pw_stored := stored\<rparr>)"
proof -
  let ?g = "pw_engine w"
  have m: "marks_ok (sc_local (se_client ?g)) (pw_own w) (se_knownRemote g) (sc_held (se_client ?g)) (se_ackedAbove ?g) (se_streamOfKey ?g) stored"
    by (rule marks_mono [OF marks_known [OF world_okD(2) [OF w]] subset_refl subset_refl stored]) (use assms(7) in \<open>auto simp add: jsm_has_def\<close>)
  have "cursors_ok (se_motebit_id ?g) (sc_local (se_client ?g)) (pw_own w) (se_aboveCursor ?g) (\<lambda>k. cursor_of k c) stored"
    by (rule cursors_mono [OF world_okD(3) [OF w] subset_refl order_refl stored assms(2)])
  then show ?thesis using world_okD(1) [OF w] m assms(3-10) by (simp add: world_ok_def Let_def)
qed

lemma connect_ok:
  assumes "world_ok w"
  shows "world_ok (w\<lparr>pw_engine := connectRemote remote (pw_engine w)\<rparr>)"
  using world_cursors [OF assms _ _ _ _ _ _ _ _ _ subset_refl, of "se_client (pw_engine w)" "connectRemote remote (pw_engine w)"]
  by (simp add: connectRemote_def Let_def)

lemma enroll_cursors:
  assumes "push_key key"
  shows "push_key k \<Longrightarrow> cursor_of k (se_client (enrollStream key g)) = cursor_of k (se_client g)"
    and "sc_local (se_client (enrollStream key g)) = sc_local (se_client g)" "sc_held (se_client (enrollStream key g)) = sc_held (se_client g)"
    and "se_motebit_id (enrollStream key g) = se_motebit_id g" "se_knownRemote (enrollStream key g) = se_knownRemote g"
    and "se_ackedAbove (enrollStream key g) = se_ackedAbove g" "se_aboveCursor (enrollStream key g) = se_aboveCursor g"
    and "se_streamOfKey (enrollStream key g) = se_streamOfKey g"
proof -
  have "retiredStreamKey s \<noteq> k" if "push_key k" for s using that other_keys_not_push(2) by auto
  then show "push_key k \<Longrightarrow> cursor_of k (se_client (enrollStream key g)) = cursor_of k (se_client g)"
    unfolding enrollStream_def Let_def by (auto simp add: cursor_of_put) (auto simp add: cursor_of_def)
qed (simp_all add: enrollStream_def Let_def)

lemma enroll_ok:
  assumes "world_ok w" and "push_key key"
  shows "world_ok (w\<lparr>pw_engine := enrollStream key (pw_engine w)\<rparr>)"
  using world_cursors [OF assms(1) _ _ _ _ refl _ _ _ _ subset_refl, of "enrollStream key (pw_engine w)"] enroll_cursors [OF assms(2)] by simp

lemma write_cursor_ok:
  assumes "world_ok w" and "\<not> push_key key"
  shows "world_ok (w\<lparr>pw_engine := put_cursor key n (pw_engine w)\<rparr>)"
proof -
  have "cursor_of k (se_client (put_cursor key n (pw_engine w))) = cursor_of k (se_client (pw_engine w))" if "push_key k" for k
    using that assms(2) by (auto simp add: cursor_of_put)
  then show ?thesis using world_cursors [OF assms(1) _ _ _ _ refl _ _ _ _ subset_refl, of "put_cursor key n (pw_engine w)"] by simp
qed

lemma stores_ok:
  assumes "world_ok w"
  shows "world_ok (w\<lparr>pw_stored := insert x (pw_stored w)\<rparr>)"
  using world_cursors [OF assms refl refl refl refl refl disjI2 refl refl refl subset_insertI, OF refl, of x] by simp

lemma settle_same [simp]:
  "se_motebit_id (settle key i g) = se_motebit_id g" "se_client (settle key i g) = se_client g" "se_knownRemote (settle key i g) = se_knownRemote g"
  "se_ackedAbove (settle key i g) = se_ackedAbove g" "se_aboveCursor (settle key i g) = se_aboveCursor g" "se_streamOfKey (settle key i g) = se_streamOfKey g"
  "se_linked (settle key i g) = se_linked g"
  by (simp_all add: settle_def split: option.splits)

lemma failed_ok: "world_ok w \<Longrightarrow> world_ok (w\<lparr>pw_engine := pushFailed key i (pw_engine w)\<rparr>)"
  by (simp add: world_ok_def Let_def pushFailed_def)

lemma acked_ok:
  assumes w: "world_ok w" and stored: "(relayStreamOfPushKey key, i) \<in> pw_stored w" and seen: "i \<in> es_seenIds (sc_local (se_client (pw_engine w)))"
  shows "world_ok (w\<lparr>pw_engine := pushAcked key i (pw_engine w)\<rparr>)"
proof -
  let ?a = "case jsm_get (se_ackedAbove (pw_engine w)) key of None \<Rightarrow> {} | Some a \<Rightarrow> a"
  have "(\<exists>b. jsm_get (se_ackedAbove (pw_engine w)) key = Some b \<and> j \<in> b) \<or> j \<in> es_seenIds (sc_local (se_client (pw_engine w)))
      \<and> (j \<in> pw_own w \<longrightarrow> (relayStreamOfPushKey key, j) \<in> pw_stored w)" if "j \<in> insert i ?a" for j
    using that stored seen by (auto split: option.splits)
  from marks_acked [OF world_okD(2) [OF w] this, of "insert i ?a"] show ?thesis
    using world_okD(1,3) [OF w] by (simp add: pushAcked_def Let_def world_ok_def)
qed

lemma write_ok:
  assumes w: "world_ok w" and m: "ev_motebit_id e = se_motebit_id (pw_engine w)"
    and new: "ev_event_id e \<notin> es_seenIds (sc_local (se_client (pw_engine w)))"
    and app: "appendWithClock e (sc_local (se_client (pw_engine w))) = Inr (clock, loc)"
  shows "world_ok (w\<lparr>pw_engine := (pw_engine w)\<lparr>se_client := (se_client (pw_engine w))\<lparr>sc_local := loc\<rparr>\<rparr>, pw_own := insert (ev_event_id e) (pw_own w)\<rparr>)"
proof -
  let ?g = "pw_engine w" and ?m = "se_motebit_id (pw_engine w)" and ?own = "insert (ev_event_id e) (pw_own w)"
  let ?loc = "sc_local (se_client ?g)" and ?e = "e\<lparr>ev_version_clock := getLatestClock (se_motebit_id (pw_engine w)) (sc_local (se_client (pw_engine w))) + 1\<rparr>"
  note log = world_okD(1) [OF w] and marks = world_okD(2) [OF w] and cursors = world_okD(3) [OF w]
  have loc: "loc = log_append ?e ?loc" using app appendWithClock_fresh [OF new] m by auto
  then have events: "es_events loc = es_events ?loc @ [?e]" and seen: "es_seenIds loc = insert (ev_event_id e) (es_seenIds ?loc)"
    using new by (simp_all add: log_append_def)
  have notin: "ev_event_id x \<noteq> ev_event_id e" if "x \<in> set (es_events ?loc)" for x
    using that new log by (auto simp add: log_ok_def log_wf_def event_ids_def)
  have own: "own_events ?own loc = insert ?e (own_events (pw_own w) ?loc)" using notin by (auto simp add: own_events_def events)
  have latest: "getLatestClock ?m ?loc \<le> getLatestClock ?m loc" "getLatestClock ?m ?loc + 1 \<le> getLatestClock ?m loc"
  proof -
    have "?e \<in> set (of_motebit ?m loc)" using m by (simp add: of_motebit_def events)
    then have "ev_version_clock ?e \<le> getLatestClock ?m loc" by (rule clock_le_latest)
    then show "getLatestClock ?m ?loc + 1 \<le> getLatestClock ?m loc" "getLatestClock ?m ?loc \<le> getLatestClock ?m loc" by simp_all
  qed
  have "log_wf loc" using log log_append_wf [of ?loc ?e] loc by (simp add: log_ok_def)
  then have log': "log_ok ?m loc ?own"
    using log m latest_nonneg [OF log] own seen by (auto simp add: log_ok_def of_motebit_def events)
  have marks': "marks_ok loc ?own (se_knownRemote ?g) (sc_held (se_client ?g)) (se_ackedAbove ?g) (se_streamOfKey ?g) (pw_stored w)"
    using marks new unfolding marks_ok_def own seen by auto
  have "cursors_ok ?m loc ?own (se_aboveCursor ?g) (\<lambda>k. cursor_of k (se_client ?g)) (pw_stored w)"
    using cursors latest unfolding cursors_ok_def own by fastforce
  then show ?thesis using log' marks' by (simp add: world_ok_def Let_def cursor_of_def)
qed

lemma compact_latest:
  assumes "log_ok m s own" and "bound \<le> getLatestClock m s - 1"
  shows "getLatestClock m (snd (log_compact m bound s)) = getLatestClock m s"
proof (cases "of_motebit m s = []")
  case True
  then show ?thesis by (simp add: getLatestClock_def log_compact_def Let_def of_motebit_def filter_empty_conv)
next
  case False
  let ?es = "of_motebit m s" and ?es' = "of_motebit m (snd (log_compact m bound s))"
  have es': "?es' = filter (\<lambda>e. ev_version_clock e > bound) ?es"
    by (auto simp add: of_motebit_def log_compact_def Let_def intro: filter_cong)
  have "max_clock ?es \<in> set (map ev_version_clock ?es)" unfolding max_clock_def using False by (intro Max_in) auto
  then obtain x where x: "x \<in> set ?es" "ev_version_clock x = max_clock ?es" by auto
  then have "x \<in> set ?es'" using False assms(2) by (simp add: es' getLatestClock_def)
  moreover have "max_clock ?es' = max_clock ?es" unfolding max_clock_def
  proof (rule Max_eqI)
    show "y \<le> Max (set (map ev_version_clock ?es))" if "y \<in> set (map ev_version_clock ?es')" for y using that es' by auto
    show "Max (set (map ev_version_clock ?es)) \<in> set (map ev_version_clock ?es')"
      using \<open>x \<in> set ?es'\<close> x(2) unfolding max_clock_def [symmetric] by force
  qed simp
  ultimately show ?thesis using False by (auto simp add: getLatestClock_def)
qed

lemma compacted_ok:
  assumes w: "world_ok w" and b: "bound \<le> getLatestClock (se_motebit_id (pw_engine w)) (sc_local (se_client (pw_engine w))) - 1"
  shows "world_ok (w\<lparr>pw_engine := (pw_engine w)\<lparr>se_client := (se_client (pw_engine w))\<lparr>sc_local :=
    snd (log_compact (se_motebit_id (pw_engine w)) bound (sc_local (se_client (pw_engine w))))\<rparr>\<rparr>\<rparr>)"
proof -
  let ?g = "pw_engine w" and ?m = "se_motebit_id (pw_engine w)" and ?loc = "sc_local (se_client (pw_engine w))"
  let ?loc' = "snd (log_compact ?m bound ?loc)"
  have events: "set (es_events ?loc') \<subseteq> set (es_events ?loc)" "es_seenIds ?loc' = es_seenIds ?loc" by (auto simp add: log_compact_def Let_def)
  then have own: "own_events (pw_own w) ?loc' \<subseteq> own_events (pw_own w) ?loc" by (auto simp add: own_events_def)
  have "log_wf ?loc'" using world_okD(1) [OF w] run_op_wf [of ?loc "OpCompact ?m bound"] by (simp add: log_ok_def)
  then have "log_ok ?m ?loc' (pw_own w)" using world_okD(1) [OF w] own events by (auto simp add: log_ok_def of_motebit_def)
  moreover have "marks_ok ?loc' (pw_own w) (se_knownRemote ?g) (sc_held (se_client ?g)) (se_ackedAbove ?g) (se_streamOfKey ?g) (pw_stored w)"
    by (rule marks_mono [OF world_okD(2) [OF w] own]) (simp_all add: events)
  moreover have "cursors_ok ?m ?loc' (pw_own w) (se_aboveCursor ?g) (\<lambda>k. cursor_of k (se_client ?g)) (pw_stored w)"
    by (rule cursors_mono [OF world_okD(3) [OF w] own]) (use compact_latest [OF world_okD(1) [OF w] b] in simp_all)
  ultimately show ?thesis by (simp add: world_ok_def Let_def cursor_of_def)
qed

subsection \<open>What the floor bounds\<close>

definition stored_cursor :: "string \<Rightarrow> seq_cursor_store \<Rightarrow> int" where
  "stored_cursor key cs = (case getSyncSeqCursor key cs of None \<Rightarrow> 0 | Some n \<Rightarrow> n)"

definition retired :: "string \<Rightarrow> seq_cursor_store \<Rightarrow> bool" where
  "retired stream cs \<longleftrightarrow> stored_cursor (retiredStreamKey stream) cs > 0"

lemma gather_streams:
  assumes "gather broken (Some m) keys cs acked = Some all"
  shows "jsm_has all s \<longleftrightarrow> jsm_has acked s \<or> (\<exists>key \<in> set keys. relayStreamOfPushKey key = s \<and> of_identity m s)"
    and "jsm_get all s = Some v \<Longrightarrow> 0 < v \<Longrightarrow> jsm_get acked s = Some v
      \<or> (\<exists>key \<in> set keys. relayStreamOfPushKey key = s \<and> stored_cursor key cs = v)"
proof -
  have "(jsm_has all s \<longleftrightarrow> jsm_has acked s \<or> (\<exists>key \<in> set keys. relayStreamOfPushKey key = s \<and> of_identity m s))
    \<and> (\<forall>v. jsm_get all s = Some v \<longrightarrow> 0 < v \<longrightarrow> jsm_get acked s = Some v
      \<or> (\<exists>key \<in> set keys. relayStreamOfPushKey key = s \<and> stored_cursor key cs = v))"
    using assms
  proof (induction keys arbitrary: acked)
    case (Cons key keys)
    let ?s = "relayStreamOfPushKey key"
    let ?v = "max (case jsm_get acked ?s of None \<Rightarrow> 0 | Some n \<Rightarrow> n) (stored_cursor key cs)"
    show ?case
    proof (cases "of_identity m ?s")
      case True
      then have "gather broken (Some m) keys cs (jsm_set ?s ?v acked) = Some all"
        using Cons.prems by (auto simp add: Let_def readCursor_def stored_cursor_def split: if_splits)
      note IH = Cons.IH [OF this]
      have same: "jsm_get acked s = Some v \<or> s = ?s \<and> stored_cursor key cs = v" if "jsm_get (jsm_set ?s ?v acked) s = Some v" "0 < v" for v
        using that by (auto simp add: jsm_get_set max_def split: option.splits if_splits)
      have "jsm_has (jsm_set ?s ?v acked) s \<longleftrightarrow> jsm_has acked s \<or> s = ?s" by (auto simp add: jsm_has_iff jsm_get_set)
      then have "jsm_has all s \<longleftrightarrow> jsm_has acked s \<or> (\<exists>key \<in> set (key # keys). relayStreamOfPushKey key = s \<and> of_identity m s)"
        using conjunct1 [OF IH] True by auto
      moreover have "jsm_get acked s = Some v \<or> (\<exists>key \<in> set (key # keys). relayStreamOfPushKey key = s \<and> stored_cursor key cs = v)"
        if "jsm_get all s = Some v" "0 < v" for v
        using conjunct2 [OF IH, rule_format, OF that] same [OF _ that(2)] by auto
      ultimately show ?thesis by blast
    next
      case False
      then have "gather broken (Some m) keys cs acked = Some all" using Cons.prems by (simp add: Let_def)
      from Cons.IH [OF this] show ?thesis using False by auto
    qed
  qed simp
  then show "jsm_has all s \<longleftrightarrow> jsm_has acked s \<or> (\<exists>key \<in> set keys. relayStreamOfPushKey key = s \<and> of_identity m s)"
    "jsm_get all s = Some v \<Longrightarrow> 0 < v \<Longrightarrow> jsm_get acked s = Some v
      \<or> (\<exists>key \<in> set keys. relayStreamOfPushKey key = s \<and> stored_cursor key cs = v)" by blast+
qed

lemma drop_retired_get:
  assumes "drop_retired broken streams exclude cs acked = Some left"
  shows "jsm_get left s = (if s \<in> set streams \<and> (s \<in> exclude \<or> retired s cs) then None else jsm_get acked s)"
  using assms
proof (induction streams arbitrary: acked)
  case (Cons stream streams)
  let ?acked = "if stream \<in> exclude \<or> retired stream cs then jsm_delete stream acked else acked"
  have "drop_retired broken streams exclude cs ?acked = Some left"
    using Cons.prems
    by (auto simp add: streamRetiredAt_def readCursor_def retired_def stored_cursor_def split: option.splits if_splits)
  from Cons.IH [OF this] show ?case by (auto simp add: jsm_get_delete)
qed simp

lemma foldl_min_le: "foldl min n xs \<le> (n :: int)"
proof (induction xs arbitrary: n)
  case (Cons y ys)
  from Cons [of "min n y"] show ?case by simp
qed simp

lemma foldl_min_le_elem: "x \<in> set xs \<Longrightarrow> foldl min n xs \<le> (x :: int)"
proof (induction xs arbitrary: n)
  case (Cons y ys)
  then show ?case using foldl_min_le [of "min n y" ys] by auto
qed simp

definition tracked_keys :: "string list \<Rightarrow> seq_cursor_store \<Rightarrow> string set" where
  "tracked_keys linked cs = set linked \<union> set (listSyncSeqCursorKeys PUSH_CURSOR_PREFIX cs)"

lemma floor_bounds:
  assumes pos: "0 < floorExcluding broken linked cs requested opts exclude" and m: "fo_motebitId opts = Some m"
  shows "floorExcluding broken linked cs requested opts exclude \<le> requested"
    and "key \<in> tracked_keys linked cs \<Longrightarrow> of_identity m (relayStreamOfPushKey key) \<Longrightarrow> relayStreamOfPushKey key \<notin> exclude \<Longrightarrow>
      \<not> retired (relayStreamOfPushKey key) cs \<Longrightarrow>
      \<exists>key' \<in> tracked_keys linked cs. relayStreamOfPushKey key' = relayStreamOfPushKey key
        \<and> floorExcluding broken linked cs requested opts exclude \<le> stored_cursor key' cs"
proof -
  let ?keys = "linked @ filter (\<lambda>k. k \<notin> set linked) (listSyncSeqCursorKeys PUSH_CURSOR_PREFIX cs)"
  let ?floor = "floorExcluding broken linked cs requested opts exclude"
  have keys: "set ?keys = tracked_keys linked cs" by (auto simp add: tracked_keys_def)
  obtain all where all: "gather broken (Some m) ?keys cs [] = Some all" "gatherStreams broken (fo_motebitId opts) linked cs = Some all"
    using pos by (auto simp add: floorExcluding_def gatherStreams_def listKeys_def m split: option.splits if_splits)
  obtain left where left: "drop_retired broken (jsm_keys all) exclude cs all = Some left"
    using pos all(2) by (auto simp add: floorExcluding_def split: option.splits)
  show "?floor \<le> requested"
    using pos foldl_min_le by (auto simp add: floorExcluding_def split: option.splits if_splits)
  assume k: "key \<in> tracked_keys linked cs" "of_identity m (relayStreamOfPushKey key)" "relayStreamOfPushKey key \<notin> exclude"
    "\<not> retired (relayStreamOfPushKey key) cs"
  let ?s = "relayStreamOfPushKey key"
  have "jsm_has all ?s" using gather_streams(1) [OF all(1), of ?s] k(1,2) keys by auto
  then obtain v where v: "jsm_get all ?s = Some v" by (auto simp add: jsm_has_iff)
  then have get: "jsm_get left ?s = Some v" using drop_retired_get [OF left, of ?s] k(3,4) by simp
  then have "left \<noteq> []" by auto
  then have fl: "?floor = foldl min requested (jsm_values left)" using all(2) left by (simp add: floorExcluding_def)
  have "v \<in> set (jsm_values left)" using get by (force simp add: jsm_get_def jsm_values_def dest: map_of_SomeD)
  then have "?floor \<le> v" unfolding fl by (rule foldl_min_le_elem)
  then show "\<exists>key' \<in> tracked_keys linked cs. relayStreamOfPushKey key' = ?s \<and> ?floor \<le> stored_cursor key' cs"
    using gather_streams(2) [OF all(1) v] pos keys by auto
qed

end
