(* ===== verification/SyncRuns.thy ===== *)
theory SyncRuns
  imports SyncSteps
begin

text \<open>
  Runs of the sync engine. \<open>push_step\<close> is one uninterrupted piece of the engine, of a relay or of the device; pieces of different
  pulls, pushes and reconnects interleave freely; of a source a page's processing reads the key and the decoder only. Every run keeps the invariant of \<open>SyncSafety\<close>, so compaction deletes nothing of
  this device's own that an active relay has not received. The last section holds runs in which the engine does what its comments rule out.
\<close>

definition fresh_world :: "string \<Rightarrow> nat \<Rightarrow> push_world" where
  "fresh_world m batch =
     \<lparr> pw_engine = newEngine m batch \<lparr> sc_local = emptyEventStore, sc_cursors = emptyCursorStore, sc_held = [], sc_reported = [] \<rparr>,
       pw_stored = {}, pw_own = {} \<rparr>"

abbreviation log_of :: "push_world \<Rightarrow> event_store" where
  "log_of w \<equiv> sc_local (se_client (pw_engine w))"

abbreviation cursors_of :: "push_world \<Rightarrow> seq_cursor_store" where
  "cursors_of w \<equiv> sc_cursors (se_client (pw_engine w))"

abbreviation in_world :: "push_world \<Rightarrow> sync_engine \<Rightarrow> push_world" where
  "in_world w g \<equiv> w\<lparr>pw_engine := g\<rparr>"

inductive push_step :: "push_world \<Rightarrow> push_world \<Rightarrow> bool" where
  Connect: "remote_ok remote \<Longrightarrow> push_step w (in_world w (connectRemote remote (pw_engine w)))"
| Enroll: "key \<in> set (se_linked (pw_engine w)) \<Longrightarrow> push_step w (in_world w (enrollStream key (pw_engine w)))"
| Push: "remote_ok remote \<Longrightarrow> push_step w (in_world w (snd (pushEvents holds remote (pw_engine w))))"
| Stores: "push_step w (w\<lparr>pw_stored := insert x (pw_stored w)\<rparr>)"
| Acked: "(relayStreamOfPushKey key, i) \<in> pw_stored w \<Longrightarrow> i \<in> es_seenIds (log_of w) \<Longrightarrow> push_step w (in_world w (pushAcked key i (pw_engine w)))"
| Failed: "push_step w (in_world w (pushFailed key i (pw_engine w)))"
| Settle: "push_step w (in_world w (advance key now (pw_engine w)))"
| Page: "page_ok (src :: unit seq_source) (page_events res) w \<Longrightarrow> push_step w (in_world w (pullPage src byKey cursor resetOnce res (pw_engine w)))"
| Restarted_page: "page_ok (src :: unit seq_source) (page_events res) w \<Longrightarrow>
    push_step w (in_world w ((pw_engine w)\<lparr>se_client := note_page src (se_motebit_id (pw_engine w)) res (se_client (pw_engine w))\<rparr>))"
| Clock_pull: "clock_answer_ok events w \<Longrightarrow> push_step w (in_world w (pullByClock events (pw_engine w)))"
| Write: "ev_motebit_id e = se_motebit_id (pw_engine w) \<Longrightarrow> ev_event_id e \<notin> es_seenIds (log_of w) \<Longrightarrow>
    appendWithClock e (log_of w) = Inr (clock, loc) \<Longrightarrow>
    push_step w (in_world w ((pw_engine w)\<lparr>se_client := (se_client (pw_engine w))\<lparr>sc_local := loc\<rparr>\<rparr>)\<lparr>pw_own := insert (ev_event_id e) (pw_own w)\<rparr>)"
| Intent: "cs = recordSyncIntent (se_motebit_id (pw_engine w)) (cursors_of w) \<or> cs = clearSyncIntent (se_motebit_id (pw_engine w)) (cursors_of w) \<Longrightarrow>
    push_step w (in_world w ((pw_engine w)\<lparr>se_client := (se_client (pw_engine w))\<lparr>sc_cursors := cs\<rparr>\<rparr>))"
| Retire: "retireRelayStream (se_motebit_id (pw_engine w)) stream now (cursors_of w) = Inr cs \<Longrightarrow>
    push_step w (in_world w ((pw_engine w)\<lparr>se_client := (se_client (pw_engine w))\<lparr>sc_cursors := cs\<rparr>\<rparr>))"
| Compact: "requested \<le> getLatestClock (se_motebit_id (pw_engine w)) (log_of w) - 1 \<Longrightarrow>
    push_step w (in_world w (compactUpTo broken answer requested (pw_engine w)))"
| Recreate: "push_step w (in_world w (newEngine (se_motebit_id (pw_engine w)) batch ((se_client (pw_engine w))\<lparr>sc_held := [], sc_reported := []\<rparr>)))"

subsection \<open>Every run keeps the invariant\<close>

lemma with_cursors: "g\<lparr>se_client := (se_client g)\<lparr>sc_cursors := setSyncSeqCursor key n (sc_cursors (se_client g))\<rparr>\<rparr> = put_cursor key n g"
  by (simp add: put_cursor_def)

definition floor_opts :: "bool option \<Rightarrow> string \<Rightarrow> floor_options" where
  "floor_opts answer m = \<lparr> fo_syncConfigured = Some (case answer of None \<Rightarrow> True | Some b \<Rightarrow> b), fo_motebitId = Some m \<rparr>"

lemma compactUpTo_parts:
  obtains g1 bound where
    "g1 = (if answer = Some True then put_cursor (syncIntentKey (se_motebit_id g)) SYNC_INTENT_RECORDED g else g)"
    and "bound = pushCompactionFloor broken (se_linked g) (sc_cursors (se_client g1)) requested (floor_opts answer (se_motebit_id g))"
    and "compactUpTo broken answer requested g = (if bound \<le> 0 then g1
      else g1\<lparr>se_client := (se_client g1)\<lparr>sc_local := snd (log_compact (se_motebit_id g) bound (sc_local (se_client g)))\<rparr>\<rparr>)"
    and "0 < bound \<Longrightarrow> bound \<le> requested"
proof -
  let ?g1 = "if answer = Some True then put_cursor (syncIntentKey (se_motebit_id g)) SYNC_INTENT_RECORDED g else g"
  let ?bound = "pushCompactionFloor broken (se_linked g) (sc_cursors (se_client ?g1)) requested (floor_opts answer (se_motebit_id g))"
  have "compactUpTo broken answer requested g = (if ?bound \<le> 0 then ?g1
      else ?g1\<lparr>se_client := (se_client ?g1)\<lparr>sc_local := snd (log_compact (se_motebit_id g) ?bound (sc_local (se_client g)))\<rparr>\<rparr>)"
    by (simp add: compactUpTo_def Let_def floor_opts_def put_cursor_def recordSyncIntent_def)
  moreover have "0 < ?bound \<Longrightarrow> ?bound \<le> requested" unfolding pushCompactionFloor_def by (rule floor_bounds(1)) (simp_all add: floor_opts_def)
  ultimately show thesis using that by blast
qed

lemma compactUpTo_ok:
  assumes w: "world_ok w" and r: "requested \<le> getLatestClock (se_motebit_id (pw_engine w)) (log_of w) - 1"
  shows "world_ok (in_world w (compactUpTo broken answer requested (pw_engine w)))"
proof -
  obtain g1 bound where
    g1: "g1 = (if answer = Some True then put_cursor (syncIntentKey (se_motebit_id (pw_engine w))) SYNC_INTENT_RECORDED (pw_engine w) else pw_engine w)"
    and "bound = pushCompactionFloor broken (se_linked (pw_engine w)) (sc_cursors (se_client g1)) requested (floor_opts answer (se_motebit_id (pw_engine w)))"
    and res: "compactUpTo broken answer requested (pw_engine w) = (if bound \<le> 0 then g1
      else g1\<lparr>se_client := (se_client g1)\<lparr>sc_local := snd (log_compact (se_motebit_id (pw_engine w)) bound (log_of w))\<rparr>\<rparr>)"
    and bound: "0 < bound \<Longrightarrow> bound \<le> requested"
    by (rule compactUpTo_parts [where g = "pw_engine w" and answer = answer and broken = broken and requested = requested]) blast
  have w1: "world_ok (in_world w g1)" using w write_cursor_ok [OF w other_keys_not_push(4)] by (simp add: g1)
  have same: "se_motebit_id g1 = se_motebit_id (pw_engine w)" "sc_local (se_client g1) = log_of w" by (simp_all add: g1)
  show ?thesis
  proof (cases "bound \<le> 0")
    case False
    then have "bound \<le> getLatestClock (se_motebit_id (pw_engine (in_world w g1))) (log_of (in_world w g1)) - 1" using bound r by (simp add: same)
    from compacted_ok [OF w1 this] show ?thesis using False by (simp add: res same)
  qed (use w1 res in simp)
qed

lemma step_ok:
  assumes "push_step w w'" and w: "world_ok w" and linked: "\<forall>k \<in> set (se_linked (pw_engine w)). push_key k"
  shows "world_ok w'"
  using assms(1)
proof cases
  case (Intent cs)
  have "in_world w ((pw_engine w)\<lparr>se_client := (se_client (pw_engine w))\<lparr>sc_cursors := cs\<rparr>\<rparr>)
      \<in> range (\<lambda>n. in_world w (put_cursor (syncIntentKey (se_motebit_id (pw_engine w))) n (pw_engine w)))"
    using Intent(2) by (auto simp add: recordSyncIntent_def clearSyncIntent_def with_cursors)
  then show ?thesis using Intent(1) write_cursor_ok [OF w other_keys_not_push(4)] by auto
next
  case (Retire stream now cs)
  then have "cs = setSyncSeqCursor (retiredStreamKey stream) (max 1 now) (cursors_of w)" by (simp add: retireRelayStream_def split: if_splits)
  then show ?thesis using Retire(1) write_cursor_ok [OF w other_keys_not_push(2)] by (simp add: with_cursors)
next
  case (Write e clock loc)
  then show ?thesis using write_ok [OF w] by simp
next
  case (Recreate batch)
  have "marks_ok (log_of w) (pw_own w) [] [] [] [] (pw_stored w)" by (simp add: marks_ok_def jsm_has_def relayHolds_def)
  moreover have "cursors_ok (se_motebit_id (pw_engine w)) (log_of w) (pw_own w) [] (\<lambda>k. cursor_of k (se_client (pw_engine w))) (pw_stored w)"
    using world_okD(3) [OF w] by (simp add: cursors_ok_def)
  ultimately show ?thesis using world_okD(1) [OF w] Recreate(1) by (simp add: world_ok_def Let_def newEngine_def cursor_of_def)
qed (use w linked connect_ok enroll_ok push_ok stores_ok acked_ok failed_ok advance_ok page_step_ok noted_page_ok clock_pull_ok compactUpTo_ok in auto)

lemma linked_step:
  "push_step w w' \<Longrightarrow> \<forall>k \<in> set (se_linked (pw_engine w)). push_key k \<Longrightarrow> \<forall>k \<in> set (se_linked (pw_engine w')). push_key k"
  by (induction rule: push_step.induct)
    (auto simp add: connectRemote_def enrollStream_def pushEvents_def pushAcked_def pushFailed_def advance_def pullPage_def pullByClock_def
      noteHeldByRelay_def compactUpTo_def newEngine_def pushCursorKey_push Let_def split: option.splits prod.splits if_splits)

lemma motebit_step: "push_step w w' \<Longrightarrow> se_motebit_id (pw_engine w') = se_motebit_id (pw_engine w)"
  by (induction rule: push_step.induct)
    (auto simp add: connectRemote_def enrollStream_def pushEvents_def pushAcked_def pushFailed_def advance_def pullPage_def pullByClock_def
      noteHeldByRelay_def compactUpTo_def newEngine_def Let_def split: option.splits prod.splits if_splits)

lemma put_cursor_has: "jsm_has (cs_cursors (sc_cursors (se_client (put_cursor k n g)))) key \<longleftrightarrow> key = k \<or> jsm_has (cs_cursors (sc_cursors (se_client g))) key"
  by (auto simp add: put_cursor_def setSyncSeqCursor_def jsm_has_iff jsm_get_set)

lemma set_cursor_has: "jsm_has (cs_cursors cs) key \<Longrightarrow> jsm_has (cs_cursors (setSyncSeqCursor k n cs)) key"
  by (auto simp add: setSyncSeqCursor_def jsm_has_iff jsm_get_set)

lemma apply_unseen_cursors: "cs_cursors (sc_cursors (snd (apply_unseen src seqOf es x))) = cs_cursors (sc_cursors (snd x))"
proof (induction es arbitrary: x)
  case (Cons e es)
  have "cs_cursors (sc_cursors (snd (apply_one src seqOf e x))) = cs_cursors (sc_cursors (snd x))"
    by (cases x) (auto simp add: apply_one_def skip_event_def append_fresh_def recordSkippedSyncEvent_def Let_def split: option.splits sum.splits)
  then show ?case using Cons by (simp only: apply_unseen_Cons)
qed simp

lemma apply_unseen_result: "apply_unseen src seqOf es x = (out, c) \<Longrightarrow> cs_cursors (sc_cursors c) = cs_cursors (sc_cursors (snd x))"
  using apply_unseen_cursors [of src seqOf es x] by simp

lemma page_cursors:
  "jsm_has (cs_cursors (sc_cursors (se_client g))) key \<Longrightarrow> jsm_has (cs_cursors (sc_cursors (se_client (pullPage src byKey cursor resetOnce res g)))) key"
  by (auto simp add: pullPage_def noteHeldByRelay_def process_page_def note_page_def save_cursor_def Let_def set_cursor_has
      split: prod.splits seq_pull_result.splits dest!: apply_unseen_result)

lemma advance_cursors:
  "jsm_has (cs_cursors (sc_cursors (se_client g))) key \<Longrightarrow> jsm_has (cs_cursors (sc_cursors (se_client (advance k now g)))) key"
  by (simp add: advance_def Let_def put_cursor_has split: option.splits)

lemma compact_cursors:
  "jsm_has (cs_cursors (sc_cursors (se_client g))) key \<Longrightarrow> jsm_has (cs_cursors (sc_cursors (se_client (compactUpTo broken answer requested g)))) key"
  by (simp add: compactUpTo_def Let_def recordSyncIntent_def set_cursor_has)

lemma cursor_step:
  "push_step w w' \<Longrightarrow> jsm_has (cs_cursors (cursors_of w)) key \<Longrightarrow> jsm_has (cs_cursors (cursors_of w')) key"
proof (induction rule: push_step.induct)
  case (Retire w stream now cs)
  then show ?case by (auto simp add: retireRelayStream_def set_cursor_has split: if_splits)
next
  case (Intent cs w)
  then show ?case by (auto simp add: recordSyncIntent_def clearSyncIntent_def set_cursor_has)
qed (simp_all add: page_cursors advance_cursors compact_cursors connectRemote_def enrollStream_def pushEvents_def pushAcked_def pushFailed_def
    pullByClock_def noteHeldByRelay_def newEngine_def note_page_def put_cursor_has Let_def split: prod.splits)

lemma run_ok:
  assumes "rtranclp push_step (fresh_world m batch) w"
  shows "world_ok w" and "\<forall>k \<in> set (se_linked (pw_engine w)). push_key k" and "se_motebit_id (pw_engine w) = m"
proof -
  have "world_ok w \<and> (\<forall>k \<in> set (se_linked (pw_engine w)). push_key k) \<and> se_motebit_id (pw_engine w) = m"
    using assms
  proof (induction rule: rtranclp_induct)
    case base
    then show ?case
      by (simp add: fresh_world_def newEngine_def world_ok_def log_ok_def marks_ok_def cursors_ok_def log_wf_def event_ids_def own_events_def
          of_motebit_def emptyEventStore_def jsm_has_def relayHolds_def cursor_of_def getSyncSeqCursor_def emptyCursorStore_def getLatestClock_def)
  next
    case (step w w')
    then show ?case using step_ok linked_step motebit_step by blast
  qed
  then show "world_ok w" "\<forall>k \<in> set (se_linked (pw_engine w)). push_key k" "se_motebit_id (pw_engine w) = m" by simp_all
qed

lemma run_cursor: "rtranclp push_step w w' \<Longrightarrow> jsm_has (cs_cursors (cursors_of w)) key \<Longrightarrow> jsm_has (cs_cursors (cursors_of w')) key"
  by (induction rule: rtranclp_induct) (auto intro: cursor_step)

subsection \<open>Compaction loses nothing\<close>

text \<open>
  (C9) However connects, pushes, late acknowledgments, pages of running pulls, writes, restarts and compactions interleave: an event this
  device wrote that compaction deletes was stored by every relay of this identity, one whose stream was ever enrolled or is linked now, that
  the operator has not retired.
\<close>

theorem compaction_loses_nothing:
  assumes run: "rtranclp push_step (fresh_world m batch) w0" "rtranclp push_step w0 w"
    and key: "push_key key \<and> jsm_has (cs_cursors (cursors_of w0)) key \<or> key \<in> set (se_linked (pw_engine w))"
    and stream: "of_identity m (relayStreamOfPushKey key)" and active: "\<not> retired (relayStreamOfPushKey key) (cursors_of w)"
    and e: "e \<in> own_events (pw_own w) (log_of w)"
    and gone: "e \<notin> set (es_events (sc_local (se_client (compactUpTo broken answer requested (pw_engine w)))))"
  shows "(relayStreamOfPushKey key, ev_event_id e) \<in> pw_stored w"
proof -
  let ?g = "pw_engine w" and ?s = "relayStreamOfPushKey key"
  note inv = run_ok [OF rtranclp_trans [OF run]]
  obtain g1 bound where
    g1: "g1 = (if answer = Some True then put_cursor (syncIntentKey (se_motebit_id ?g)) SYNC_INTENT_RECORDED ?g else ?g)"
    and bound: "bound = pushCompactionFloor broken (se_linked ?g) (sc_cursors (se_client g1)) requested (floor_opts answer (se_motebit_id ?g))"
    and res: "compactUpTo broken answer requested ?g = (if bound \<le> 0 then g1
      else g1\<lparr>se_client := (se_client g1)\<lparr>sc_local := snd (log_compact (se_motebit_id ?g) bound (log_of w))\<rparr>\<rparr>)"
    and "0 < bound \<Longrightarrow> bound \<le> requested"
    by (rule compactUpTo_parts [where g = "pw_engine w" and answer = answer and broken = broken and requested = requested]) blast
  have pos: "0 < bound" "ev_version_clock e \<le> bound"
    using gone e g1 by (auto simp add: res own_events_def log_compact_def Let_def split: if_splits)
  have keep: "stored_cursor k (sc_cursors (se_client g1)) = stored_cursor k (cursors_of w)" if "k \<noteq> syncIntentKey m" for k
    using that by (simp add: g1 stored_cursor_def put_cursor_def getSyncSeqCursor_def setSyncSeqCursor_def inv(3))
  have "jsm_has (cs_cursors (sc_cursors (se_client g1))) k" if "jsm_has (cs_cursors (cursors_of w)) k" for k
    using that by (auto simp add: g1 put_cursor_def setSyncSeqCursor_def jsm_has_iff jsm_get_set)
  then have tracked: "key \<in> tracked_keys (se_linked ?g) (sc_cursors (se_client g1))"
    using key run_cursor [OF run(2)] by (auto simp add: tracked_keys_def listSyncSeqCursorKeys_def push_key_def jsm_keys_iff)
  have "\<not> retired ?s (sc_cursors (se_client g1))" using active keep by (simp add: retired_def retiredStreamKey_def syncIntentKey_def SYNC_INTENT_PREFIX_def)
  then obtain k where k: "k \<in> tracked_keys (se_linked ?g) (sc_cursors (se_client g1))" "relayStreamOfPushKey k = ?s"
      "bound \<le> stored_cursor k (sc_cursors (se_client g1))"
    using floor_bounds(2) [of broken "se_linked ?g" "sc_cursors (se_client g1)" requested "floor_opts answer (se_motebit_id ?g)" "{}" m key] tracked stream pos(1)
    by (auto simp add: bound pushCompactionFloor_def floor_opts_def inv(3))
  have pk: "push_key k" using k(1) inv(2) by (auto simp add: tracked_keys_def listSyncSeqCursorKeys_def push_key_def)
  then have "k \<noteq> syncIntentKey m" using other_keys_not_push(4) by auto
  then have "ev_version_clock e \<le> cursor_of k (se_client ?g)" using k(3) pos(2) keep by (simp add: cursor_of_def stored_cursor_def)
  then show ?thesis using cursors_okD(2) [OF world_okD(3) [OF inv(1)] pk e] k(2) by simp
qed

subsubsection \<open>A run with a relay\<close>

definition demo_remote :: "string \<Rightarrow> remote_store" where
  "demo_remote key = \<lparr> rm_seqKey = Some key, rm_streamKey = None, rm_transport = 0, rm_reports = True \<rparr>"

definition demo_local :: "event_entry list \<Rightarrow> seq_cursor_store \<Rightarrow> sync_client" where
  "demo_local es cs = \<lparr> sc_local = \<lparr> es_events = es, es_seenIds = set (map ev_event_id es) \<rparr>, sc_cursors = cs, sc_held = [], sc_reported = [] \<rparr>"

definition demo_world :: "event_entry list \<Rightarrow> push_world" where
  "demo_world es = \<lparr> pw_engine = newEngine ''m'' 10 (demo_local es emptyCursorStore), pw_stored = {}, pw_own = set (map ev_event_id es) \<rparr>"

lemma demo_write:
  assumes "ev_event_id e \<notin> set (map ev_event_id es)" and "ev_motebit_id e = ''m''"
    and "ev_version_clock e = getLatestClock ''m'' \<lparr> es_events = es, es_seenIds = set (map ev_event_id es) \<rparr> + 1"
  shows "push_step (demo_world es) (demo_world (es @ [e]))"
proof -
  let ?s = "\<lparr> es_events = es, es_seenIds = set (map ev_event_id es) \<rparr>"
  have "e\<lparr>ev_version_clock := getLatestClock (ev_motebit_id e) ?s + 1\<rparr> = e" using assms(2,3) by simp
  then have "appendWithClock e ?s = Inr (ev_version_clock e, \<lparr> es_events = es @ [e], es_seenIds = insert (ev_event_id e) (set (map ev_event_id es)) \<rparr>)"
    using assms appendWithClock_fresh [of e ?s] by (simp add: log_append_def)
  moreover have "log_of (demo_world es) = ?s" by (simp add: demo_world_def newEngine_def demo_local_def)
  ultimately have "appendWithClock e (log_of (demo_world es))
      = Inr (ev_version_clock e, \<lparr> es_events = es @ [e], es_seenIds = insert (ev_event_id e) (set (map ev_event_id es)) \<rparr>)" by simp
  from push_step.Write [of e "demo_world es", OF _ _ this] show ?thesis
    using assms(1,2) by (simp add: demo_world_def newEngine_def demo_local_def)
qed

definition demo_own :: "event_entry list" where
  "demo_own = [demo_event ''a'' ''m'' 1, demo_event ''b'' ''m'' 2]"

lemma demo_writes: "rtranclp push_step (fresh_world ''m'' 10) (demo_world demo_own)"
proof -
  let ?a = "demo_event ''a'' ''m'' 1" and ?b = "demo_event ''b'' ''m'' 2"
  have "fresh_world ''m'' 10 = demo_world []"
    by (simp add: fresh_world_def demo_world_def demo_local_def emptyEventStore_def)
  moreover have "push_step (demo_world []) (demo_world ([] @ [?a]))"
    by (rule demo_write) (simp_all add: demo_event_def getLatestClock_def of_motebit_def)
  moreover have "push_step (demo_world [?a]) (demo_world ([?a] @ [?b]))"
    by (rule demo_write) (simp_all add: demo_event_def getLatestClock_def of_motebit_def max_clock_def)
  ultimately show ?thesis unfolding demo_own_def by (auto intro: rtranclp.intros)
qed

definition demo_key :: string where
  "demo_key = ''push:raw:A#m''"

definition demo_pushed :: sync_engine where
  \<comment> \<open>connected to relay A, both events sent, the first acknowledged\<close>
  "demo_pushed = pushAcked demo_key ''a'' (snd (pushEvents (\<lambda>_ _. False) (demo_remote ''raw:A#m'')
     (connectRemote (demo_remote ''raw:A#m'') (pw_engine (demo_world demo_own)))))"

definition demo_acked :: push_world where
  "demo_acked = \<lparr> pw_engine = advance demo_key 5 demo_pushed, pw_stored = {(''A#m'', ''a'')}, pw_own = {''a'', ''b''} \<rparr>"

lemma demo_stream: "relayStreamOfPushKey demo_key = ''A#m''" "relayStreamOfKey ''raw:A#m'' = ''A#m''"
  "pushCursorKey (demo_remote ''raw:A#m'') ''m'' = demo_key" "remote_ok (demo_remote ''raw:A#m'')" "push_key demo_key"
  by (simp_all add: demo_key_def relayStreamOfPushKey_def PUSH_CURSOR_PREFIX_def starts_with_def relayStreamOfKey.simps pushCursorKey_def demo_remote_def
      remote_ok_def source_key_def push_key_def)

lemma demo_run: "rtranclp push_step (fresh_world ''m'' 10) demo_acked"
proof -
  let ?w = "demo_world demo_own" and ?r = "demo_remote ''raw:A#m''"
  define w1 where "w1 = in_world ?w (connectRemote ?r (pw_engine ?w))"
  define w2 where "w2 = in_world w1 (snd (pushEvents (\<lambda>_ _. False) ?r (pw_engine w1)))"
  define w3 where "w3 = w2\<lparr>pw_stored := insert (''A#m'', ''a'') (pw_stored w2)\<rparr>"
  define w4 where "w4 = in_world w3 (pushAcked demo_key ''a'' (pw_engine w3))"
  have "log_of w3 = log_of ?w" by (simp add: w3_def w2_def w1_def pushEvents_def connectRemote_def Let_def split: prod.splits)
  then have seen: "''a'' \<in> es_seenIds (log_of w3)" by (simp add: demo_world_def newEngine_def demo_local_def demo_own_def demo_event_def)
  have "push_step ?w w1" unfolding w1_def by (rule push_step.Connect) (rule demo_stream)
  moreover have "push_step w1 w2" unfolding w2_def by (rule push_step.Push) (rule demo_stream)
  moreover have "push_step w2 w3" unfolding w3_def by (rule push_step.Stores)
  moreover have "push_step w3 w4" unfolding w4_def by (rule push_step.Acked) (use seen in \<open>simp_all add: demo_stream w3_def\<close>)
  moreover have "push_step w4 (in_world w4 (advance demo_key 5 (pw_engine w4)))" by (rule push_step.Settle)
  moreover have "in_world w4 (advance demo_key 5 (pw_engine w4)) = demo_acked"
    by (simp add: w4_def w3_def w2_def w1_def demo_acked_def demo_pushed_def demo_world_def demo_own_def demo_event_def)
  ultimately show ?thesis using demo_writes by (auto intro: rtranclp.intros)
qed

lemma demo_remote_simps: "rm_transport (demo_remote k) = 0" "rm_reports (demo_remote k)" "relayStreamOf (demo_remote ''raw:A#m'') = Some ''A#m''"
  by (simp_all add: demo_remote_def relayStreamOf_def demo_stream)

lemmas push_eval = pushAcked_def settle_def pushEvents_def connectRemote_def advance_def known_held_def relayHolds_def newEngine_def
  demo_local_def demo_world_def put_cursor_def setSyncSeqCursor_def getSyncSeqCursor_def cursor_of_def emptyCursorStore_def jsm_has_def jsm_get_def
  jsm_set_def jsm_delete_def log_query_def after_clock_def when_given_def byClockThenId_def
  MAX_PUSH_BATCHES_PER_SYNC_def demo_event_def demo_own_def demo_stream demo_remote_simps Let_def

lemma demo_pushed_eval:
  "demo_pushed = (pw_engine (demo_world demo_own))\<lparr>se_remote := Some (demo_remote ''raw:A#m''), se_linked := [demo_key],
       se_streamOfKey := [(demo_key, Some ''A#m'')], se_aboveCursor := [(demo_key, demo_own)],
       se_outstanding := [(demo_key, [(''b'', 0)])], se_ackedAbove := [(demo_key, {''a''})]\<rparr>"
  by (simp add: demo_pushed_def push_eval)

lemma demo_acked_eval:
  "log_of demo_acked = log_of (demo_world demo_own)" "se_linked (pw_engine demo_acked) = [demo_key]" "se_motebit_id (pw_engine demo_acked) = ''m''"
  "cs_cursors (cursors_of demo_acked) = [(demo_key, 1), (pushAckedAtKey ''A#m'', 5)]"
  by (simp_all add: demo_acked_def demo_pushed_eval push_eval pushAckedAtKey_def) (simp_all add: demo_key_def)

lemmas floor_eval = compactUpTo_def recordSyncIntent_def pushCompactionFloor_def floorExcluding_def gatherStreams_def listKeys_def
  listSyncSeqCursorKeys_def jsm_keys_def jsm_values_def readCursor_def streamRetiredAt_def PUSH_CURSOR_PREFIX_def starts_with_def
  of_identity_def ends_with_def syncIntentKey_def SYNC_INTENT_PREFIX_def SYNC_INTENT_RECORDED_def retiredStreamKey_def pushAckedAtKey_def

lemma demo_floor: "pushCompactionFloor (\<lambda>_. False) [demo_key] \<lparr> cs_cursors = [(demo_key, 1), (pushAckedAtKey ''A#m'', 5), (syncIntentKey ''m'', 1)], cs_skipped = [], cs_totals = [] \<rparr> 1
  \<lparr> fo_syncConfigured = Some True, fo_motebitId = Some ''m'' \<rparr> = 1"
  by (simp add: floor_eval demo_stream jsm_get_def jsm_set_def jsm_delete_def Let_def getSyncSeqCursor_def) (simp add: demo_key_def)

theorem compaction_loses_nothing_witness:
  "(''A#m'', ''a'') \<in> pw_stored demo_acked
   \<and> demo_event ''a'' ''m'' 1 \<notin> set (es_events (sc_local (se_client (compactUpTo (\<lambda>_. False) (Some True) 1 (pw_engine demo_acked)))))"
proof -
  have cs: "cursors_of demo_acked = \<lparr> cs_cursors = [(demo_key, 1), (pushAckedAtKey ''A#m'', 5)], cs_skipped = [], cs_totals = [] \<rparr>"
    by (simp add: demo_acked_def demo_pushed_eval push_eval pushAckedAtKey_def) (simp_all add: demo_key_def)
  have gone: "demo_event ''a'' ''m'' 1 \<notin> set (es_events (sc_local (se_client (compactUpTo (\<lambda>_. False) (Some True) 1 (pw_engine demo_acked)))))"
    using demo_floor by (simp add: compactUpTo_def Let_def demo_acked_eval cs recordSyncIntent_def setSyncSeqCursor_def jsm_set_def SYNC_INTENT_RECORDED_def
      demo_key_def syncIntentKey_def SYNC_INTENT_PREFIX_def pushAckedAtKey_def log_compact_def demo_event_def)
  have e: "demo_event ''a'' ''m'' 1 \<in> own_events (pw_own demo_acked) (log_of demo_acked)"
    by (simp add: demo_acked_eval own_events_def demo_world_def newEngine_def demo_local_def demo_own_def) (simp add: demo_acked_def demo_event_def)
  have stream: "of_identity ''m'' (relayStreamOfPushKey demo_key)" by (simp add: demo_stream of_identity_def ends_with_def starts_with_def)
  have active: "\<not> retired (relayStreamOfPushKey demo_key) (cursors_of demo_acked)"
    by (simp add: demo_stream retired_def stored_cursor_def getSyncSeqCursor_def cs jsm_get_def retiredStreamKey_def pushAckedAtKey_def demo_key_def)
  show ?thesis
    using gone compaction_loses_nothing [OF demo_run rtranclp.rtrancl_refl, of demo_key, OF _ stream active e gone]
    by (simp add: demo_acked_eval demo_stream) (simp add: demo_event_def)
qed

subsection \<open>The floor fails closed\<close>

lemma gather_broken:
  assumes "key \<in> set keys" and "of_identity m (relayStreamOfPushKey key)" and "broken key"
  shows "gather broken (Some m) keys cs acked = None"
  using assms(1)
proof (induction keys arbitrary: acked)
  case (Cons k keys)
  then show ?case using assms(2,3) by (auto simp add: readCursor_def Let_def split: option.splits)
qed simp

lemma drop_retired_broken:
  "s \<in> set streams \<Longrightarrow> broken (retiredStreamKey s) \<Longrightarrow> drop_retired broken streams exclude cs acked = None"
  by (induction streams arbitrary: acked) (auto simp add: streamRetiredAt_def readCursor_def split: option.splits)

definition active_stream :: "string \<Rightarrow> string list \<Rightarrow> seq_cursor_store \<Rightarrow> string \<Rightarrow> bool" where
  "active_stream m linked cs s \<longleftrightarrow> (\<exists>key \<in> tracked_keys linked cs. relayStreamOfPushKey key = s) \<and> of_identity m s \<and> \<not> retired s cs"

definition unreadable :: "faults \<Rightarrow> string \<Rightarrow> string list \<Rightarrow> seq_cursor_store \<Rightarrow> bool" where
  "unreadable broken m linked cs \<longleftrightarrow> broken PUSH_CURSOR_PREFIX
     \<or> (\<exists>key \<in> tracked_keys linked cs. of_identity m (relayStreamOfPushKey key) \<and> (broken key \<or> broken (retiredStreamKey (relayStreamOfPushKey key))))"

lemma floor_unreadable:
  assumes "unreadable broken m linked cs" and m: "fo_motebitId opts = Some m"
  shows "pushCompactionFloor broken linked cs requested opts = 0"
proof -
  let ?keys = "linked @ filter (\<lambda>k. k \<notin> set linked) (listSyncSeqCursorKeys PUSH_CURSOR_PREFIX cs)"
  have keys: "set ?keys = tracked_keys linked cs" by (auto simp add: tracked_keys_def)
  show ?thesis
  proof (cases "gatherStreams broken (Some m) linked cs")
    case None
    then show ?thesis by (simp add: pushCompactionFloor_def floorExcluding_def m)
  next
    case (Some all)
    then have all: "gather broken (Some m) ?keys cs [] = Some all" and "\<not> broken PUSH_CURSOR_PREFIX"
      by (simp_all add: gatherStreams_def listKeys_def split: if_splits)
    then obtain key where k: "key \<in> set ?keys" "of_identity m (relayStreamOfPushKey key)" "broken key \<or> broken (retiredStreamKey (relayStreamOfPushKey key))"
      using assms(1) keys unfolding unreadable_def by blast
    then have "broken (retiredStreamKey (relayStreamOfPushKey key))" using gather_broken [OF k(1,2)] all by fastforce
    moreover have "relayStreamOfPushKey key \<in> set (jsm_keys all)"
      using gather_streams(1) [OF all] k(1,2) by (auto simp add: jsm_keys_iff)
    ultimately have "drop_retired broken (jsm_keys all) {} cs all = None" by (intro drop_retired_broken)
    then show ?thesis using Some by (simp add: pushCompactionFloor_def floorExcluding_def m)
  qed
qed

lemma floor_without_streams:
  assumes none: "\<nexists>s. active_stream m linked cs s" and m: "fo_motebitId opts = Some m"
    and "fo_syncConfigured opts = Some True \<or> broken (syncIntentKey m) \<or> readSyncIntent broken m cs = Some IntentRecorded"
  shows "pushCompactionFloor broken linked cs requested opts = 0"
proof (cases "gatherStreams broken (Some m) linked cs")
  case (Some all)
  let ?keys = "linked @ filter (\<lambda>k. k \<notin> set linked) (listSyncSeqCursorKeys PUSH_CURSOR_PREFIX cs)"
  have all: "gather broken (Some m) ?keys cs [] = Some all" using Some by (simp add: gatherStreams_def listKeys_def split: if_splits)
  show ?thesis
  proof (cases "drop_retired broken (jsm_keys all) {} cs all")
    case None
    then show ?thesis using Some by (simp add: pushCompactionFloor_def floorExcluding_def m)
  next
    case left: (Some left)
    have "jsm_get left s = None" for s
    proof (cases "jsm_has all s")
      case True
      then have "retired s cs" using gather_streams(1) [OF all, of s] none by (auto simp add: active_stream_def tracked_keys_def jsm_has_def)
      then show ?thesis using drop_retired_get [OF left, of s] True by (simp add: jsm_keys_iff)
    qed (use drop_retired_get [OF left, of s] in \<open>simp add: jsm_has_def jsm_get_def\<close>)
    then have "s \<notin> set (jsm_keys left)" for s by (simp add: jsm_keys_iff jsm_has_iff)
    then have "left = []" by (cases left) (auto simp add: jsm_keys_def)
    then show ?thesis using Some left assms(3)
      by (auto simp add: pushCompactionFloor_def floorExcluding_def m readSyncIntent_def readCursor_def split: option.splits)
  qed
qed (simp add: pushCompactionFloor_def floorExcluding_def m)

text \<open>
  (C36) The floor fails closed. When the list of streams, a cursor of this identity or a retirement marker cannot be read, nothing is
  deleted; and with no active stream nothing is deleted either, as long as a relay is configured, that is undecided, or the recorded intent says so or
  cannot be read.
\<close>

theorem floor_fails_closed:
  assumes "unreadable broken (se_motebit_id g) (se_linked g) (sc_cursors (se_client g))
    \<or> (\<nexists>s. active_stream (se_motebit_id g) (se_linked g) (sc_cursors (se_client g)) s)
      \<and> (answer \<noteq> Some False \<or> broken (syncIntentKey (se_motebit_id g))
         \<or> readSyncIntent broken (se_motebit_id g) (sc_cursors (se_client g)) = Some IntentRecorded)"
  shows "sc_local (se_client (compactUpTo broken answer requested g)) = sc_local (se_client g)"
proof -
  let ?m = "se_motebit_id g"
  obtain g1 bound where
    g1: "g1 = (if answer = Some True then put_cursor (syncIntentKey ?m) SYNC_INTENT_RECORDED g else g)"
    and bound: "bound = pushCompactionFloor broken (se_linked g) (sc_cursors (se_client g1)) requested (floor_opts answer ?m)"
    and res: "compactUpTo broken answer requested g = (if bound \<le> 0 then g1
      else g1\<lparr>se_client := (se_client g1)\<lparr>sc_local := snd (log_compact ?m bound (sc_local (se_client g)))\<rparr>\<rparr>)"
    and "0 < bound \<Longrightarrow> bound \<le> requested"
    by (rule compactUpTo_parts [where g = g and answer = answer and broken = broken and requested = requested]) blast
  let ?cs = "sc_cursors (se_client g)" and ?cs1 = "sc_cursors (se_client g1)"
  have notpush: "\<not> starts_with (syncIntentKey ?m) PUSH_CURSOR_PREFIX" using other_keys_not_push(4) [of ?m] by (simp add: push_key_def)
  have tracked: "tracked_keys (se_linked g) ?cs1 = tracked_keys (se_linked g) ?cs"
    using notpush by (auto simp add: g1 tracked_keys_def listSyncSeqCursorKeys_def put_cursor_def setSyncSeqCursor_def jsm_keys_set)
  have ret: "retired s ?cs1 = retired s ?cs" for s
    by (simp add: g1 retired_def stored_cursor_def put_cursor_def getSyncSeqCursor_def setSyncSeqCursor_def jsm_get_set
        retiredStreamKey_def syncIntentKey_def SYNC_INTENT_PREFIX_def)
  have m: "fo_motebitId (floor_opts answer ?m) = Some ?m" by (simp add: floor_opts_def)
  have "bound = 0"
  proof (cases "unreadable broken ?m (se_linked g) ?cs")
    case True
    then have "unreadable broken ?m (se_linked g) ?cs1" by (simp add: unreadable_def tracked)
    then show ?thesis unfolding bound by (rule floor_unreadable [OF _ m])
  next
    case False
    then have "\<nexists>s. active_stream ?m (se_linked g) ?cs1 s" using assms by (simp add: active_stream_def tracked ret)
    moreover have "fo_syncConfigured (floor_opts answer ?m) = Some True \<or> broken (syncIntentKey ?m) \<or> readSyncIntent broken ?m ?cs1 = Some IntentRecorded"
      using False assms by (cases answer) (auto simp add: floor_opts_def g1)
    ultimately show ?thesis unfolding bound by (intro floor_without_streams [OF _ m]) auto
  qed
  then show ?thesis by (simp add: res g1)
qed

theorem floor_fails_closed_witness:
  "sc_local (se_client (compactUpTo (\<lambda>k. k = demo_key) (Some False) 1 (pw_engine demo_acked))) = log_of demo_acked
   \<and> sc_local (se_client (compactUpTo (\<lambda>_. False) None 1 (pw_engine (demo_world demo_own)))) = log_of (demo_world demo_own)"
proof -
  have "of_identity ''m'' (relayStreamOfPushKey demo_key)" by (simp add: demo_stream of_identity_def ends_with_def starts_with_def)
  then have "unreadable (\<lambda>k. k = demo_key) ''m'' [demo_key] cs" for cs by (auto simp add: unreadable_def tracked_keys_def)
  moreover have "\<nexists>s. active_stream ''m'' [] emptyCursorStore s"
    by (simp add: active_stream_def tracked_keys_def listSyncSeqCursorKeys_def emptyCursorStore_def jsm_keys_def)
  ultimately show ?thesis
    using floor_fails_closed [of "\<lambda>k. k = demo_key" "pw_engine demo_acked"]
      floor_fails_closed [of "\<lambda>_. False" "pw_engine (demo_world demo_own)" None 1]
    by (simp add: demo_acked_eval) (simp add: demo_world_def newEngine_def demo_local_def)
qed

subsection \<open>Where the code falls short of its comments\<close>

text \<open>
  Connecting to another relay forgets what the previous one served, but a pull from the previous relay that is still running notes its next
  page afterwards. The new relay's push cursor then passes an event that relay has never been sent.
\<close>

definition demo_page :: seq_pull_result where
  "demo_page = SeqPage [(1, demo_event ''x'' ''m'' 1)] 1 False 1"

definition demo_source :: "unit seq_source" where
  "demo_source = \<lparr> ss_key = ''raw:B#m'', ss_pull = (\<lambda>_ _ r. (Inr demo_page, r)), ss_decode = None \<rparr>"

definition leak_world :: push_world where
  "leak_world = \<lparr> pw_engine = pullPage demo_source True 0 False demo_page
       (connectRemote (demo_remote ''raw:A#m'') (pw_engine (fresh_world ''m'' 10))), pw_stored = {(''B#m'', ''x'')}, pw_own = {} \<rparr>"

lemma leak_eval:
  "log_of leak_world = \<lparr> es_events = [demo_event ''x'' ''m'' 1], es_seenIds = {''x''} \<rparr>" "se_knownRemote (pw_engine leak_world) = [(''x'', 1)]"
  "se_motebit_id (pw_engine leak_world) = ''m''" "cursor_of demo_key (se_client (pw_engine leak_world)) = 0"
  "se_ackedAbove (pw_engine leak_world) = []" "se_outstanding (pw_engine leak_world) = []" "se_batch_size (pw_engine leak_world) = 10"
  "se_streamOfKey (pw_engine leak_world) = []" "se_aboveCursor (pw_engine leak_world) = []"
  by (simp_all add: leak_world_def demo_source_def demo_page_def pullPage_def process_page_def note_page_def filterUnseen_def getHeldEventIds_def
      event_ids_def append_fresh_def plaintext_def save_cursor_def noteHeldByRelay_def emptyOutcome_def fresh_world_def emptyEventStore_def log_append_def
      push_eval) (simp_all add: demo_key_def)

lemma leak_reachable: "rtranclp push_step (fresh_world ''m'' 10) leak_world"
proof -
  define w0 where "w0 = fresh_world ''m'' 10"
  define w1 where "w1 = w0\<lparr>pw_stored := insert (''B#m'', ''x'') (pw_stored w0)\<rparr>"
  define w2 where "w2 = in_world w1 (connectRemote (demo_remote ''raw:A#m'') (pw_engine w1))"
  have "push_step w0 w1" unfolding w1_def by (rule push_step.Stores)
  moreover have "push_step w1 w2" unfolding w2_def by (rule push_step.Connect) (rule demo_stream)
  moreover have "page_ok demo_source (page_events demo_page) w2"
    by (simp add: page_ok_def demo_source_def demo_page_def source_key_def starts_with_def relayStreamOfKey.simps entry_ok_def demo_event_def
        own_events_def w2_def w1_def w0_def fresh_world_def newEngine_def)
  then have "push_step w2 (in_world w2 (pullPage demo_source True 0 False demo_page (pw_engine w2)))" by (rule push_step.Page)
  moreover have "in_world w2 (pullPage demo_source True 0 False demo_page (pw_engine w2)) = leak_world"
    by (simp add: leak_world_def w2_def w1_def w0_def fresh_world_def)
  ultimately show ?thesis unfolding w0_def [symmetric] by (auto intro: rtranclp.intros)
qed

lemma running_pull_leaks:
  "\<exists>w. rtranclp push_step (fresh_world ''m'' 10) w \<and> es_events (log_of w) = [demo_event ''x'' ''m'' 1]
     \<and> cursor_of demo_key (se_client (pw_engine w)) = 1 \<and> (\<forall>i. (''A#m'', i) \<notin> pw_stored w)
     \<and> fst (pushEvents (\<lambda>_ _. False) (demo_remote ''raw:A#m'') (pw_engine leak_world)) = []"
proof -
  let ?g = "snd (pushEvents (\<lambda>_ _. False) (demo_remote ''raw:A#m'') (pw_engine leak_world))"
  let ?w1 = "in_world leak_world ?g"
  let ?w2 = "in_world ?w1 (advance demo_key 5 (pw_engine ?w1))"
  have "push_step leak_world ?w1" by (rule push_step.Push) (rule demo_stream)
  moreover have "push_step ?w1 ?w2" by (rule push_step.Settle)
  ultimately have run: "rtranclp push_step (fresh_world ''m'' 10) ?w2" using leak_reachable by (meson rtranclp.rtrancl_into_rtrancl)
  have push: "pushEvents (\<lambda>_ _. False) (demo_remote ''raw:A#m'') (pw_engine leak_world) = ([], (pw_engine leak_world)\<lparr>
      se_streamOfKey := [(demo_key, Some ''A#m'')], se_last_version_clock := 0, se_aboveCursor := [(demo_key, [demo_event ''x'' ''m'' 1])],
      se_outstanding := [(demo_key, [])], se_ackedAbove := [(demo_key, {''x''})]\<rparr>)"
    unfolding pushEvents_def Let_def leak_eval demo_stream
    by (simp add: leak_eval demo_remote_simps log_query_def after_clock_def when_given_def known_held_def jsm_has_def jsm_set_def MAX_PUSH_BATCHES_PER_SYNC_def demo_event_def)
  have "cursor_of demo_key (se_client (advance demo_key 5 ?g)) = 1" "log_of ?w2 = log_of leak_world"
    unfolding push snd_conv advance_def Let_def
    by (simp_all add: jsm_get_def leak_eval demo_event_def known_held_def cursor_of_put)
      (simp_all add: leak_eval put_cursor_def cursor_of_def getSyncSeqCursor_def setSyncSeqCursor_def jsm_get_set pushAckedAtKey_def demo_key_def)
  moreover have "pw_stored ?w2 = {(''B#m'', ''x'')}" by (simp add: leak_world_def)
  ultimately show ?thesis using run push by (intro exI [of _ ?w2]) (simp add: leak_eval)
qed

text \<open>
  A retention horizon may delete every event of the log, and the next event then starts again at clock 1, at or below the push cursor:
  it is never sent, whatever relay the engine pushes to.
\<close>

lemma restarted_clock_is_never_pushed:
  assumes empty: "of_motebit (se_motebit_id g) (sc_local (se_client g)) = []" and new: "ev_event_id e \<notin> es_seenIds (sc_local (se_client g))"
    and m: "ev_motebit_id e = se_motebit_id g" and cursor: "1 \<le> cursor_of (pushCursorKey remote (se_motebit_id g)) (se_client g)"
  shows "\<exists>loc. appendWithClock e (sc_local (se_client g)) = Inr (1, loc)
    \<and> fst (pushEvents holds remote (g\<lparr>se_client := (se_client g)\<lparr>sc_local := loc\<rparr>\<rparr>)) = []"
proof -
  let ?loc = "log_append (e\<lparr>ev_version_clock := 1\<rparr>) (sc_local (se_client g))"
  let ?g = "g\<lparr>se_client := (se_client g)\<lparr>sc_local := ?loc\<rparr>\<rparr>"
  have app: "appendWithClock e (sc_local (se_client g)) = Inr (1, ?loc)"
    using appendWithClock_fresh [OF new] empty m by (simp add: getLatestClock_def)
  have "filter (\<lambda>x. ev_motebit_id x = se_motebit_id g \<and> ev_version_clock x > n) (log_query (after_clock (se_motebit_id g) n) ?loc) = []" if "1 \<le> n" for n
    using that empty by (auto simp add: log_query_def after_clock_def when_given_def log_append_def of_motebit_def filter_empty_conv)
  moreover have "cursor_of k (se_client ?g) = cursor_of k (se_client g)" for k by (simp add: cursor_of_def)
  ultimately have "fst (pushEvents holds remote ?g) = []" using cursor by (simp add: pushEvents_def Let_def)
  then show ?thesis using app by blast
qed

text \<open>
  Connecting to a retired relay lifts the retirement only when the queued enrolment runs. Until then the floor still ignores the relay, and
  compaction deletes an event it has never received.
\<close>

definition demo_retired :: sync_engine where
  "demo_retired = newEngine ''m'' 10 (demo_local demo_own
     \<lparr> cs_cursors = [(demo_key, 0), (''push:raw:B#m'', 1), (retiredStreamKey ''A#m'', 9)], cs_skipped = [], cs_totals = [] \<rparr>)"

lemma demo_reconnect:
  "connectRemote (demo_remote ''raw:A#m'') demo_retired = demo_retired\<lparr>se_remote := Some (demo_remote ''raw:A#m''), se_linked := [demo_key]\<rparr>"
  by (simp add: demo_retired_def connectRemote_def newEngine_def demo_stream Let_def)

lemma demo_enroll:
  "enrollStream demo_key (demo_retired\<lparr>se_remote := r, se_linked := [demo_key]\<rparr>) = demo_retired\<lparr>se_remote := r, se_linked := [demo_key],
     se_client := demo_local demo_own \<lparr> cs_cursors = [(demo_key, 0), (''push:raw:B#m'', 1), (retiredStreamKey ''A#m'', 0)], cs_skipped = [], cs_totals = [] \<rparr>\<rparr>"
  by (simp add: demo_retired_def enrollStream_def newEngine_def demo_stream Let_def demo_local_def getSyncSeqCursor_def setSyncSeqCursor_def
      put_cursor_def jsm_get_def jsm_set_def retiredStreamKey_def demo_key_def demo_stream(1) [unfolded demo_key_def])

lemma stream_b: "relayStreamOfPushKey ''push:raw:B#m'' = ''B#m''"
  by (simp add: relayStreamOfPushKey_def PUSH_CURSOR_PREFIX_def starts_with_def relayStreamOfKey.simps)

lemma demo_reconnect_floor:
  "pushCompactionFloor (\<lambda>_. False) [demo_key] \<lparr> cs_cursors = [(demo_key, 0), (''push:raw:B#m'', 1), (retiredStreamKey ''A#m'', t)], cs_skipped = [], cs_totals = [] \<rparr> 1
    \<lparr> fo_syncConfigured = Some True, fo_motebitId = Some ''m'' \<rparr> = (if t > 0 then 1 else 0)"
  by (simp add: floor_eval demo_stream stream_b jsm_get_def jsm_set_def jsm_delete_def Let_def getSyncSeqCursor_def)
    (simp add: demo_key_def)

lemma reconnected_relay_is_not_waited_for:
  "cursor_of demo_key (se_client (connectRemote (demo_remote ''raw:A#m'') demo_retired)) = 0
   \<and> es_events (sc_local (se_client (compactUpTo (\<lambda>_. False) None 1 (connectRemote (demo_remote ''raw:A#m'') demo_retired)))) = [demo_event ''b'' ''m'' 2]
   \<and> es_events (sc_local (se_client (compactUpTo (\<lambda>_. False) None 1
       (enrollStream demo_key (connectRemote (demo_remote ''raw:A#m'') demo_retired))))) = demo_own"
  unfolding demo_reconnect demo_enroll
  by (simp add: demo_retired_def newEngine_def demo_local_def compactUpTo_def Let_def demo_reconnect_floor log_compact_def demo_own_def demo_event_def
      cursor_of_def getSyncSeqCursor_def jsm_get_def)

end
