(* ===== verification/SyncFloor.thy ===== *)
theory SyncFloor
  imports SyncRuns
begin

text \<open>
  The report on a pinned compaction floor, \<open>syncFloorReport\<close> and \<open>pinnedFloor\<close> of \<open>packages/sync-engine/src/index.ts\<close>: which streams hold the
  floor, how many events retiring them frees, and when an operator should hear of it. A read that fails makes the report fail.
  The lemmas relate the counts to what compaction deletes once the operator has retired the named streams.
\<close>

subsection \<open>The report\<close>

record relay_stream_report =
  rr_stream :: string
  rr_relayUrl :: "string option"
  rr_acked :: int
  rr_lastAckAt :: "int option"
  rr_retiredAt :: "int option"
  rr_holdsFloor :: bool
  rr_heldBack :: nat
  rr_tiedWith :: "string list"
  rr_heldBackTied :: nat

record sync_floor_report =
  fr_motebitId :: string
  fr_intent :: sync_intent
  fr_requested :: int
  fr_floor :: int
  fr_streams :: "relay_stream_report list"

definition stream_report :: "faults \<Rightarrow> seq_cursor_store \<Rightarrow> int \<Rightarrow> int \<Rightarrow> string \<times> int \<Rightarrow> relay_stream_report option" where
  "stream_report broken cs requested fl = (\<lambda>(stream, cursor).
     (case streamRetiredAt broken stream cs of
        None \<Rightarrow> None
      | Some retiredAt \<Rightarrow>
          (case readCursor broken (pushAckedAtKey stream) cs of
             None \<Rightarrow> None
           | Some t \<Rightarrow>
               Some \<lparr> rr_stream = stream, rr_relayUrl = relayUrlOfStream stream, rr_acked = cursor,
                 rr_lastAckAt = (case t of Some n \<Rightarrow> (if n > 0 then Some n else None) | None \<Rightarrow> None),
                 rr_retiredAt = retiredAt, rr_holdsFloor = (retiredAt = None \<and> fl < requested \<and> cursor = fl),
                 rr_heldBack = 0, rr_tiedWith = [], rr_heldBackTied = 0 \<rparr>)))"

fun all_some :: "'a option list \<Rightarrow> 'a list option" where
  "all_some [] = Some []"
| "all_some (x # xs) = (case x of None \<Rightarrow> None | Some y \<Rightarrow> map_option ((#) y) (all_some xs))"

definition freed :: "faults \<Rightarrow> string list \<Rightarrow> seq_cursor_store \<Rightarrow> int \<Rightarrow> floor_options \<Rightarrow> event_entry list \<Rightarrow> string set \<Rightarrow> nat" where
  "freed broken linked cs requested opts over exclude =
     length (filter (\<lambda>e. ev_version_clock e \<le> floorExcluding broken linked cs requested opts exclude) over)"

definition fill_holder :: "(string set \<Rightarrow> nat) \<Rightarrow> relay_stream_report list \<Rightarrow> relay_stream_report \<Rightarrow> relay_stream_report" where
  \<comment> \<open>the loop over the holders; the others keep their zeros\<close>
  "fill_holder free holders s =
     (let tiedFrees = (if holders \<noteq> [] then free (set (map rr_stream holders)) else 0)
      in if rr_holdsFloor s
         then s\<lparr>rr_heldBack := (if length holders = 1 then tiedFrees else free {rr_stream s}),
                rr_tiedWith := js_sort code_point_order (filter (\<lambda>h. h \<noteq> rr_stream s) (map rr_stream holders)),
                rr_heldBackTied := tiedFrees\<rparr>
         else s)"

definition by_acked :: "(string \<Rightarrow> string \<Rightarrow> int) \<Rightarrow> relay_stream_report \<Rightarrow> relay_stream_report \<Rightarrow> int" where
  \<comment> \<open>\<open>a.acked - b.acked || a.stream.localeCompare(b.stream)\<close>\<close>
  "by_acked localeCompare a b = (if rr_acked a - rr_acked b \<noteq> 0 then rr_acked a - rr_acked b else localeCompare (rr_stream a) (rr_stream b))"

definition syncFloorReport :: "(string \<Rightarrow> string \<Rightarrow> int) \<Rightarrow> faults \<Rightarrow> sync_engine \<Rightarrow> int option \<Rightarrow> bool option \<Rightarrow> sync_floor_report option" where
  \<comment> \<open>over the store of an engine; none when a read throws\<close>
  "syncFloorReport localeCompare broken g requested_opt syncConfigured =
     (let m = se_motebit_id g; loc = sc_local (se_client g); cs = sc_cursors (se_client g); linked = se_linked g;
          requested = (case requested_opt of Some r \<Rightarrow> r | None \<Rightarrow> max 0 (getLatestClock m loc - 1));
          opts = \<lparr> fo_syncConfigured = syncConfigured, fo_motebitId = Some m \<rparr>;
          fl = pushCompactionFloor broken linked cs requested opts
      in case readSyncIntent broken m cs of
           None \<Rightarrow> None
         | Some intent \<Rightarrow>
             (case gatherStreams broken (Some m) linked cs of
                None \<Rightarrow> None
              | Some acked \<Rightarrow>
                  (let over = (if fl < requested
                        then filter (\<lambda>e. ev_motebit_id e = m \<and> ev_version_clock e > fl) (log_query (after_clock m fl) loc) else [])
                   in case all_some (map (stream_report broken cs requested fl) acked) of
                        None \<Rightarrow> None
                      | Some streams \<Rightarrow>
                          (let free = freed broken linked cs requested opts over;
                               filled = map (fill_holder free (filter rr_holdsFloor streams)) streams
                           in Some \<lparr> fr_motebitId = m, fr_intent = intent, fr_requested = requested, fr_floor = fl,
                                fr_streams = js_sort (by_acked localeCompare) filled \<rparr>))))"

definition PINNED_FLOOR_STALE_MS :: int where
  "PINNED_FLOOR_STALE_MS = 7 * 86400000"

datatype pin_reason = NeverAcked | StaleAck

record pinned_floor =
  pf_stream :: relay_stream_report
  pf_streams :: "relay_stream_report list"
  pf_heldBack :: nat
  pf_reason :: pin_reason

definition pinnedFloor :: "sync_floor_report \<Rightarrow> int \<Rightarrow> int \<Rightarrow> pinned_floor option" where
  "pinnedFloor report now staleMs =
     (let holders = filter (\<lambda>s. rr_retiredAt s = None \<and> rr_holdsFloor s) (fr_streams report)
      in case holders of
           [] \<Rightarrow> None
         | holder # _ \<Rightarrow>
             (if rr_heldBackTied holder = 0 then None
              else if list_all (\<lambda>s. rr_acked s = 0) holders
                then Some \<lparr> pf_stream = holder, pf_streams = holders, pf_heldBack = rr_heldBackTied holder, pf_reason = NeverAcked \<rparr>
              else if list_all (\<lambda>s. case rr_lastAckAt s of None \<Rightarrow> True | Some t \<Rightarrow> now - t > staleMs) holders
                then Some \<lparr> pf_stream = holder, pf_streams = holders, pf_heldBack = rr_heldBackTied holder, pf_reason = StaleAck \<rparr>
              else None))"

subsection \<open>Retiring the streams the floor excludes\<close>

fun retire_all :: "string \<Rightarrow> int \<Rightarrow> string list \<Rightarrow> seq_cursor_store \<Rightarrow> seq_cursor_store" where
  \<comment> \<open>the operator retires one stream after the other\<close>
  "retire_all m now [] cs = cs"
| "retire_all m now (s # ss) cs = (case retireRelayStream m s now cs of Inl _ \<Rightarrow> cs | Inr cs' \<Rightarrow> retire_all m now ss cs')"

lemma retire_all_keeps:
  "(\<And>s. k \<noteq> retiredStreamKey s) \<Longrightarrow> getSyncSeqCursor k (retire_all m now ss cs) = getSyncSeqCursor k cs"
  by (induction m now ss cs rule: retire_all.induct)
    (auto simp add: retireRelayStream_def getSyncSeqCursor_def setSyncSeqCursor_def jsm_get_set)

lemma retire_all_retired:
  assumes "\<forall>s \<in> set ss. of_identity m s"
  shows "retired s (retire_all m now ss cs) \<longleftrightarrow> s \<in> set ss \<or> retired s cs"
  using assms
proof (induction ss arbitrary: cs)
  case (Cons a ss)
  have "retired s (setSyncSeqCursor (retiredStreamKey a) (max 1 now) cs) \<longleftrightarrow> s = a \<or> retired s cs"
    by (auto simp add: retired_def stored_cursor_def getSyncSeqCursor_def setSyncSeqCursor_def jsm_get_set retiredStreamKey_def)
  then show ?case using Cons by (auto simp add: retireRelayStream_def)
qed simp

lemma retire_all_push_keys: "listSyncSeqCursorKeys PUSH_CURSOR_PREFIX (retire_all m now ss cs) = listSyncSeqCursorKeys PUSH_CURSOR_PREFIX cs"
proof (induction m now ss cs rule: retire_all.induct)
  case (2 m now s ss cs)
  have "\<not> starts_with (retiredStreamKey s) PUSH_CURSOR_PREFIX" using other_keys_not_push(2) by (simp add: push_key_def)
  then have "listSyncSeqCursorKeys PUSH_CURSOR_PREFIX (setSyncSeqCursor (retiredStreamKey s) n cs) = listSyncSeqCursorKeys PUSH_CURSOR_PREFIX cs" for n
    by (simp add: listSyncSeqCursorKeys_def setSyncSeqCursor_def jsm_keys_set)
  then show ?case using 2 by (auto simp add: retireRelayStream_def)
qed simp

lemma gather_cong:
  "(\<And>k. k \<in> set keys \<Longrightarrow> getSyncSeqCursor k cs' = getSyncSeqCursor k cs) \<Longrightarrow> gather broken m keys cs' acked = gather broken m keys cs acked"
  by (induction keys arbitrary: acked) (auto simp add: readCursor_def Let_def split: option.splits)

lemma drop_retired_cong:
  assumes "\<And>s. s \<in> set streams \<Longrightarrow> retired s cs' \<longleftrightarrow> s \<in> exclude \<or> retired s cs"
  shows "drop_retired (\<lambda>_. False) streams {} cs' acked = drop_retired (\<lambda>_. False) streams exclude cs acked"
  using assms
proof (induction streams arbitrary: acked)
  case (Cons s streams)
  have "\<exists>r. streamRetiredAt (\<lambda>_. False) s c = Some r \<and> (r \<noteq> None \<longleftrightarrow> retired s c)" for c
    by (auto simp add: streamRetiredAt_def readCursor_def retired_def stored_cursor_def split: option.splits)
  then obtain r r' where "streamRetiredAt (\<lambda>_. False) s cs = Some r" "r \<noteq> None \<longleftrightarrow> retired s cs"
    "streamRetiredAt (\<lambda>_. False) s cs' = Some r'" "r' \<noteq> None \<longleftrightarrow> retired s cs'" by metis
  then show ?case using Cons by simp
qed simp

lemma floor_after_retiring:
  assumes "\<forall>s \<in> set ss. of_identity m s" and push: "\<forall>k \<in> set linked. push_key k" and m: "fo_motebitId opts = Some m"
  shows "pushCompactionFloor (\<lambda>_. False) linked (retire_all m now ss cs) requested opts
    = floorExcluding (\<lambda>_. False) linked cs requested opts (set ss)"
proof -
  let ?cs = "retire_all m now ss cs" and ?keys = "linked @ filter (\<lambda>k. k \<notin> set linked) (listSyncSeqCursorKeys PUSH_CURSOR_PREFIX cs)"
  have "gather (\<lambda>_. False) (Some m) ?keys ?cs [] = gather (\<lambda>_. False) (Some m) ?keys cs []"
  proof (rule gather_cong, rule retire_all_keeps)
    fix k s assume "k \<in> set ?keys"
    then have "push_key k" using push by (auto simp add: listSyncSeqCursorKeys_def push_key_def)
    then show "k \<noteq> retiredStreamKey s" using other_keys_not_push(2) by auto
  qed
  then have g: "gatherStreams (\<lambda>_. False) (Some m) linked ?cs = gatherStreams (\<lambda>_. False) (Some m) linked cs"
    by (simp add: gatherStreams_def listKeys_def retire_all_push_keys)
  have i: "readSyncIntent (\<lambda>_. False) m ?cs = readSyncIntent (\<lambda>_. False) m cs"
    using retire_all_keeps [of "syncIntentKey m" m now ss cs]
    by (simp add: readSyncIntent_def readCursor_def syncIntentKey_def SYNC_INTENT_PREFIX_def retiredStreamKey_def)
  have d: "drop_retired (\<lambda>_. False) (jsm_keys all) {} ?cs all = drop_retired (\<lambda>_. False) (jsm_keys all) (set ss) cs all" for all
    by (rule drop_retired_cong) (rule retire_all_retired [OF assms(1)])
  show ?thesis unfolding pushCompactionFloor_def floorExcluding_def m option.case g i d by (rule refl)
qed

subsection \<open>What the report says\<close>

definition freed_by :: "sync_engine \<Rightarrow> bool option \<Rightarrow> int \<Rightarrow> int \<Rightarrow> string list \<Rightarrow> nat" where
  \<comment> \<open>events compaction deletes above the present floor once the streams are retired\<close>
  "freed_by g syncConfigured requested now ss =
     (let m = se_motebit_id g; cs = sc_cursors (se_client g);
          opts = \<lparr> fo_syncConfigured = syncConfigured, fo_motebitId = Some m \<rparr>;
          before = pushCompactionFloor (\<lambda>_. False) (se_linked g) cs requested opts;
          after = pushCompactionFloor (\<lambda>_. False) (se_linked g) (retire_all m now ss cs) requested opts
      in length (filter (\<lambda>e. before < ev_version_clock e \<and> ev_version_clock e \<le> after) (of_motebit m (sc_local (se_client g)))))"

lemma all_some_map: "all_some (map f xs) = Some ys \<Longrightarrow> length ys = length xs \<and> (\<forall>i < length xs. f (xs ! i) = Some (ys ! i))"
proof (induction xs arbitrary: ys)
  case (Cons x xs)
  then obtain y zs where ys: "ys = y # zs" "f x = Some y" "all_some (map f xs) = Some zs" by (auto split: option.splits)
  show ?case using Cons.IH [OF ys(3)] ys(1,2) by (auto simp add: nth_Cons split: nat.splits)
qed simp

lemma all_some_in: "all_some (map f xs) = Some ys \<Longrightarrow> y \<in> set ys \<Longrightarrow> \<exists>x \<in> set xs. f x = Some y"
  by (metis all_some_map in_set_conv_nth)

lemma stream_reportD:
  assumes "stream_report broken cs requested fl (stream, c) = Some t"
  shows "rr_stream t = stream" "rr_acked t = c" "rr_holdsFloor t \<longleftrightarrow> \<not> retired stream cs \<and> fl < requested \<and> c = fl"
    and "rr_retiredAt t \<noteq> None \<longleftrightarrow> retired stream cs"
proof -
  obtain r l where r: "streamRetiredAt broken stream cs = Some r" and t: "t = \<lparr> rr_stream = stream, rr_relayUrl = relayUrlOfStream stream, rr_acked = c,
      rr_lastAckAt = l, rr_retiredAt = r, rr_holdsFloor = (r = None \<and> fl < requested \<and> c = fl), rr_heldBack = 0, rr_tiedWith = [], rr_heldBackTied = 0 \<rparr>"
    using assms by (auto simp del: relayUrlOfStream.simps simp add: stream_report_def split: option.splits)
  have "r \<noteq> None \<longleftrightarrow> retired stream cs"
  proof (cases "getSyncSeqCursor (retiredStreamKey stream) cs")
    case (Some n)
    then have "r = (if n > 0 then Some n else None)" using r by (simp add: streamRetiredAt_def readCursor_def split: if_splits)
    then show ?thesis by (simp add: retired_def stored_cursor_def Some)
  qed (use r in \<open>auto simp add: streamRetiredAt_def readCursor_def retired_def stored_cursor_def split: if_splits\<close>)
  then show "rr_stream t = stream" "rr_acked t = c" "rr_holdsFloor t \<longleftrightarrow> \<not> retired stream cs \<and> fl < requested \<and> c = fl"
    "rr_retiredAt t \<noteq> None \<longleftrightarrow> retired stream cs" unfolding t by auto
qed

lemma fill_holder_same [simp]:
  "rr_stream (fill_holder free hs s) = rr_stream s" "rr_holdsFloor (fill_holder free hs s) = rr_holdsFloor s"
  "rr_retiredAt (fill_holder free hs s) = rr_retiredAt s" "rr_acked (fill_holder free hs s) = rr_acked s"
  by (simp_all add: fill_holder_def Let_def)

lemma report_parts:
  assumes "syncFloorReport lc broken g req conf = Some rep"
  obtains acked streams over opts where "opts = \<lparr> fo_syncConfigured = conf, fo_motebitId = Some (se_motebit_id g) \<rparr>"
    and "fr_floor rep = pushCompactionFloor broken (se_linked g) (sc_cursors (se_client g)) (fr_requested rep) opts"
    and "gatherStreams broken (Some (se_motebit_id g)) (se_linked g) (sc_cursors (se_client g)) = Some acked"
    and "over = (if fr_floor rep < fr_requested rep then filter (\<lambda>e. ev_version_clock e > fr_floor rep) (of_motebit (se_motebit_id g) (sc_local (se_client g))) else [])"
    and "all_some (map (stream_report broken (sc_cursors (se_client g)) (fr_requested rep) (fr_floor rep)) acked) = Some streams"
    and "set (fr_streams rep) = set (map (fill_holder (freed broken (se_linked g) (sc_cursors (se_client g)) (fr_requested rep) opts over)
      (filter rr_holdsFloor streams)) streams)"
proof -
  have q: "filter (\<lambda>e. ev_motebit_id e = m \<and> ev_version_clock e > n) (log_query (after_clock m n) s) = filter (\<lambda>e. ev_version_clock e > n) (of_motebit m s)" for m n s
    by (auto simp add: log_query_def after_clock_def when_given_def of_motebit_def intro: filter_cong)
  show thesis
    using assms that unfolding syncFloorReport_def Let_def q by (auto split: option.splits)
qed

lemma report_counts_what_retiring_frees:
  assumes rep: "syncFloorReport lc (\<lambda>_. False) g req conf = Some rep" and linked: "\<forall>k \<in> set (se_linked g). push_key k"
    and s: "s \<in> set (fr_streams rep)" "rr_holdsFloor s"
    and tied: "holders = map rr_stream (filter rr_holdsFloor (fr_streams rep))"
  shows "rr_heldBack s = freed_by g conf (fr_requested rep) now [rr_stream s]
    \<and> rr_heldBackTied s = freed_by g conf (fr_requested rep) now holders
    \<and> rr_acked s = fr_floor rep \<and> \<not> retired (rr_stream s) (sc_cursors (se_client g))"
proof -
  let ?m = "se_motebit_id g" and ?cs = "sc_cursors (se_client g)" and ?linked = "se_linked g" and ?loc = "sc_local (se_client g)"
  obtain acked streams over opts where opts: "opts = \<lparr> fo_syncConfigured = conf, fo_motebitId = Some ?m \<rparr>"
    and fl: "fr_floor rep = pushCompactionFloor (\<lambda>_. False) ?linked ?cs (fr_requested rep) opts"
    and acked: "gatherStreams (\<lambda>_. False) (Some ?m) ?linked ?cs = Some acked"
    and over: "over = (if fr_floor rep < fr_requested rep then filter (\<lambda>e. ev_version_clock e > fr_floor rep) (of_motebit ?m ?loc) else [])"
    and all: "all_some (map (stream_report (\<lambda>_. False) ?cs (fr_requested rep) (fr_floor rep)) acked) = Some streams"
    and filled: "set (fr_streams rep) = set (map (fill_holder (freed (\<lambda>_. False) ?linked ?cs (fr_requested rep) opts over) (filter rr_holdsFloor streams)) streams)"
    using report_parts [OF rep] .
  let ?free = "freed (\<lambda>_. False) ?linked ?cs (fr_requested rep) opts over"
  have reported: "\<exists>c. (rr_stream t, c) \<in> set acked \<and> stream_report (\<lambda>_. False) ?cs (fr_requested rep) (fr_floor rep) (rr_stream t, c) = Some t"
    if "t \<in> set streams" for t
    using all_some_in [OF all that] stream_reportD(1) by fastforce
  have idn: "of_identity ?m (rr_stream t)" if "t \<in> set streams" for t
  proof -
    from acked obtain keys where "gather (\<lambda>_. False) (Some ?m) keys ?cs [] = Some acked" by (auto simp add: gatherStreams_def listKeys_def)
    moreover have "jsm_has acked (rr_stream t)" using reported [OF that] by (force simp add: jsm_keys_iff [symmetric] jsm_keys_def)
    ultimately show ?thesis using gather_streams(1) [of "\<lambda>_. False" ?m keys ?cs "[]" acked "rr_stream t"] by (auto simp add: jsm_has_def)
  qed
  have free: "?free (set ss) = freed_by g conf (fr_requested rep) now ss" if "fr_floor rep < fr_requested rep" "\<forall>x \<in> set ss. of_identity ?m x" for ss
    using floor_after_retiring [OF that(2) linked, of opts now ?cs "fr_requested rep"] that(1)
    by (simp add: freed_def over opts freed_by_def Let_def fl)
  obtain t where t: "t \<in> set streams" "s = fill_holder ?free (filter rr_holdsFloor streams) t" using s(1) filled by auto
  then have holds: "rr_holdsFloor t" using s(2) by simp
  obtain c where c: "stream_report (\<lambda>_. False) ?cs (fr_requested rep) (fr_floor rep) (rr_stream t, c) = Some t" using reported [OF t(1)] by blast
  then have lt: "fr_floor rep < fr_requested rep" and cur: "rr_acked t = fr_floor rep" "\<not> retired (rr_stream t) ?cs"
    using holds stream_reportD(2,3) [OF c] by simp_all
  have set_tied: "set holders = set (map rr_stream (filter rr_holdsFloor streams))"
    unfolding tied using filled by (auto simp add: image_iff) (metis fill_holder_same(1,2) image_eqI)+
  have tiedFree: "?free (set (map rr_stream (filter rr_holdsFloor streams))) = freed_by g conf (fr_requested rep) now holders"
    unfolding set_tied [symmetric] by (rule free [OF lt]) (use set_tied idn in auto)
  have one: "?free {rr_stream t} = freed_by g conf (fr_requested rep) now [rr_stream t]" using free [OF lt, of "[rr_stream t]"] idn [OF t(1)] by simp
  have "set (map rr_stream (filter rr_holdsFloor streams)) = {rr_stream t}" if "length (filter rr_holdsFloor streams) = 1"
  proof -
    obtain h where h: "filter rr_holdsFloor streams = [h]" using \<open>length (filter rr_holdsFloor streams) = 1\<close> by (auto simp add: length_Suc_conv)
    have "t \<in> set (filter rr_holdsFloor streams)" using t(1) holds by simp
    then show ?thesis using h by simp
  qed
  moreover have "filter rr_holdsFloor streams \<noteq> []" using t(1) holds by (auto simp add: filter_empty_conv)
  ultimately show ?thesis using t(2) holds one tiedFree cur by (simp add: fill_holder_def Let_def)
qed

lemma report_holders:
  assumes "syncFloorReport lc broken g req conf = Some rep" and "s \<in> set (fr_streams rep)" and "rr_holdsFloor s"
  shows "rr_retiredAt s = None"
proof -
  obtain acked streams over opts where
    all: "all_some (map (stream_report broken (sc_cursors (se_client g)) (fr_requested rep) (fr_floor rep)) acked) = Some streams"
    and filled: "set (fr_streams rep) = set (map (fill_holder (freed broken (se_linked g) (sc_cursors (se_client g)) (fr_requested rep) opts over)
      (filter rr_holdsFloor streams)) streams)"
    using report_parts [OF assms(1)] .
  then obtain t where t: "t \<in> set streams" "rr_holdsFloor t" "rr_retiredAt s = rr_retiredAt t" using assms(2,3) by auto
  from all_some_in [OF all t(1)] obtain st c where
    "stream_report broken (sc_cursors (se_client g)) (fr_requested rep) (fr_floor rep) (st, c) = Some t" by auto
  from stream_reportD(3,4) [OF this] show ?thesis using t by auto
qed

text \<open>
  (C37) A pinned floor that is reported is real: the streams named are active and stand exactly at the floor, retiring all of them frees exactly
  the reported number of events, more than none, and each stream's own count is what retiring it alone frees.
\<close>

theorem pinned_floor_is_real:
  assumes rep: "syncFloorReport localeCompare (\<lambda>_. False) g req conf = Some rep" and linked: "\<forall>k \<in> set (se_linked g). push_key k"
    and pin: "pinnedFloor rep now staleMs = Some p"
  shows "0 < pf_heldBack p \<and> pf_heldBack p = freed_by g conf (fr_requested rep) at_time (map rr_stream (pf_streams p))
    \<and> (\<forall>s \<in> set (pf_streams p). rr_acked s = fr_floor rep \<and> \<not> retired (rr_stream s) (sc_cursors (se_client g))
        \<and> rr_heldBack s = freed_by g conf (fr_requested rep) at_time [rr_stream s])
    \<and> (pf_reason p = NeverAcked \<longrightarrow> fr_floor rep = 0)"
proof -
  define holders where "holders = filter rr_holdsFloor (fr_streams rep)"
  have same: "filter (\<lambda>s. rr_retiredAt s = None \<and> rr_holdsFloor s) (fr_streams rep) = holders"
    unfolding holders_def using report_holders [OF rep] by (intro filter_cong) auto
  then obtain h hs where h: "holders = h # hs" "pf_streams p = holders" "pf_heldBack p = rr_heldBackTied h" "rr_heldBackTied h \<noteq> 0"
    and never: "pf_reason p = NeverAcked \<Longrightarrow> rr_acked h = 0"
    using pin unfolding pinnedFloor_def Let_def by (auto split: list.splits if_splits)
  have counts: "rr_heldBack s = freed_by g conf (fr_requested rep) at_time [rr_stream s]
      \<and> rr_heldBackTied s = freed_by g conf (fr_requested rep) at_time (map rr_stream holders)
      \<and> rr_acked s = fr_floor rep \<and> \<not> retired (rr_stream s) (sc_cursors (se_client g))" if "s \<in> set holders" for s
    by (rule report_counts_what_retiring_frees [OF rep linked]) (use that in \<open>auto simp add: holders_def\<close>)
  have "h \<in> set holders" using h(1) by simp
  then show ?thesis using counts h never by auto
qed

definition demo_pinned :: sync_engine where
  "demo_pinned = newEngine ''m'' 10 (demo_local demo_own \<lparr> cs_cursors = [(demo_key, 0)], cs_skipped = [], cs_totals = [] \<rparr>)"

definition demo_report :: sync_floor_report where
  "demo_report = \<lparr> fr_motebitId = ''m'', fr_intent = IntentNever, fr_requested = 1, fr_floor = 0, fr_streams =
     [\<lparr> rr_stream = ''A#m'', rr_relayUrl = Some ''A'', rr_acked = 0, rr_lastAckAt = None, rr_retiredAt = None, rr_holdsFloor = True,
        rr_heldBack = 1, rr_tiedWith = [], rr_heldBackTied = 1 \<rparr>] \<rparr>"

definition demo_cursors :: seq_cursor_store where
  "demo_cursors = \<lparr> cs_cursors = [(demo_key, 0)], cs_skipped = [], cs_totals = [] \<rparr>"

lemma demo_pinned_simps:
  "se_motebit_id demo_pinned = ''m''" "se_linked demo_pinned = []" "sc_cursors (se_client demo_pinned) = demo_cursors"
  "sc_local (se_client demo_pinned) = \<lparr> es_events = demo_own, es_seenIds = {''a'', ''b''} \<rparr>"
  by (simp_all add: demo_pinned_def newEngine_def demo_local_def demo_cursors_def demo_own_def demo_event_def)

lemma demo_gather: "gatherStreams (\<lambda>_. False) (Some ''m'') [] demo_cursors = Some [(''A#m'', 0)]"
  by (simp add: demo_cursors_def floor_eval demo_stream jsm_get_def jsm_set_def Let_def getSyncSeqCursor_def) (simp add: demo_key_def)

lemma demo_intent: "readSyncIntent (\<lambda>_. False) ''m'' demo_cursors = Some IntentNever"
  by (simp add: demo_cursors_def readSyncIntent_def readCursor_def getSyncSeqCursor_def jsm_get_def syncIntentKey_def SYNC_INTENT_PREFIX_def demo_key_def)

lemma demo_not_retired: "streamRetiredAt (\<lambda>_. False) ''A#m'' demo_cursors = Some None"
  by (simp add: demo_cursors_def streamRetiredAt_def readCursor_def getSyncSeqCursor_def jsm_get_def retiredStreamKey_def demo_key_def)

lemma demo_pinned_floor:
  "floorExcluding (\<lambda>_. False) [] demo_cursors 1 \<lparr> fo_syncConfigured = None, fo_motebitId = Some ''m'' \<rparr> ex = (if ''A#m'' \<in> ex then 1 else 0)"
  by (simp add: floorExcluding_def demo_gather demo_not_retired demo_intent jsm_keys_def jsm_values_def jsm_delete_def)

lemma demo_stream_report: "stream_report (\<lambda>_. False) demo_cursors 1 0 (''A#m'', 0) = Some
  \<lparr> rr_stream = ''A#m'', rr_relayUrl = Some ''A'', rr_acked = 0, rr_lastAckAt = None, rr_retiredAt = None, rr_holdsFloor = True,
    rr_heldBack = 0, rr_tiedWith = [], rr_heldBackTied = 0 \<rparr>"
  by (simp add: stream_report_def demo_not_retired) (simp add: demo_cursors_def readCursor_def getSyncSeqCursor_def jsm_get_def pushAckedAtKey_def demo_key_def)

lemma demo_clock: "getLatestClock ''m'' \<lparr> es_events = demo_own, es_seenIds = {''a'', ''b''} \<rparr> = 2"
  by (simp add: getLatestClock_def of_motebit_def max_clock_def demo_own_def demo_event_def)

lemma demo_over: "filter (\<lambda>e. ev_motebit_id e = ''m'' \<and> ev_version_clock e > 0) (log_query (after_clock ''m'' 0) \<lparr> es_events = demo_own, es_seenIds = {''a'', ''b''} \<rparr>) = demo_own"
  by (simp add: log_query_def after_clock_def when_given_def demo_own_def demo_event_def)

lemma demo_pinned_report: "syncFloorReport code_point_order (\<lambda>_. False) demo_pinned None None = Some demo_report"
proof -
  have "freed (\<lambda>_. False) [] demo_cursors 1 \<lparr> fo_syncConfigured = None, fo_motebitId = Some ''m'' \<rparr> demo_own {''A#m''} = 1"
    by (simp add: freed_def demo_pinned_floor demo_own_def demo_event_def)
  then show ?thesis
    by (simp add: syncFloorReport_def Let_def demo_pinned_simps demo_clock pushCompactionFloor_def demo_pinned_floor demo_intent demo_gather demo_over
        demo_stream_report fill_holder_def demo_report_def)
qed

lemma demo_pin:
  "pinnedFloor demo_report 0 PINNED_FLOOR_STALE_MS
   = Some \<lparr> pf_stream = hd (fr_streams demo_report), pf_streams = fr_streams demo_report, pf_heldBack = 1, pf_reason = NeverAcked \<rparr>"
  by (simp add: pinnedFloor_def demo_report_def)

lemma pinned_floor_is_real_witness:
  "freed_by demo_pinned None 1 5 [''A#m''] = 1 \<and> pinnedFloor demo_report 0 PINNED_FLOOR_STALE_MS \<noteq> None"
proof -
  have linked: "\<forall>k \<in> set (se_linked demo_pinned). push_key k" by (simp add: demo_pinned_simps)
  have "fr_requested demo_report = 1" "map rr_stream (fr_streams demo_report) = [''A#m'']" by (simp_all add: demo_report_def)
  then show ?thesis using pinned_floor_is_real [OF demo_pinned_report linked demo_pin, of 5] demo_pin by simp
qed

end
