(* ===== verification/TaskQueue.thy ===== *)
theory TaskQueue
  imports Prelude
begin

text \<open>
  The relay's durable task queue, \<open>services/relay/src/task-queue.ts\<close>: the entry of a task, the writes that may change it and the triggers the tables hold
  them to, expiry and eviction, the archive of answers and the guards on settlement rows. Also \<open>task-pin.ts\<close>, who may execute a pinned task, and
  the payee of \<open>p2p-payee.ts\<close>. A row is the entry as it is stored and read back. Fields of an entry that no operation here reads (prices, payment
  proofs) are left out; of two settlement tables both are kept. A write that throws leaves the tables as they were and is the left injection.
\<close>

subsection \<open>Entries\<close>

datatype task_status = TPending | TClaimed | TRunning | TCompleted | TFailed | TDenied | TExpired

record agent_task =
  tk_motebit_id :: string
  tk_submitted_at :: int
  tk_status :: task_status
  tk_claimed_by :: "string option"
  tk_required_capabilities :: "string list option"

datatype receipt_status = RCompleted | RFailed | RDenied

record execution_receipt =
  rc_task_id :: string
  rc_relay_task_id :: "string option"
  rc_motebit_id :: string
  rc_device_id :: "string option"
  rc_status :: receipt_status
  rc_result_hash :: string
  rc_signature :: string

datatype answer_door = ResultPost | McpForward | SubReceipt string | FederationResult string "string option"

datatype grant_presenter = WsGrant | ForwardGrant | SubmitterGrant

datatype undetermined_reason = ClaimerLost | ForwardUnanswered | UnansweredAtExpiry

record claim_lease =
  cl_presenter :: "grant_presenter option"
  cl_device_id :: string
  cl_device_verified :: bool
  cl_device_generated :: bool
  cl_authenticated_did :: "string option"
  cl_expires_at :: "int option"
  cl_undetermined_at :: "int option"
  cl_undetermined_reason :: "undetermined_reason option"

datatype settlement_mode = ModeRelay | ModeP2p

record task_entry =
  tq_task :: agent_task
  tq_receipt :: "execution_receipt option"
  tq_expiresAt :: int
  tq_submitted_by :: "string option"
  tq_origin_relay :: "string option"
  tq_settled :: "bool option"
  tq_settling :: "string option"
  tq_settle_via :: "answer_door option"
  tq_answer_version :: "int option"
  tq_settlement_mode :: "settlement_mode option"
  tq_target_agent :: "string option"
  tq_pinned_executor :: "string option"
  tq_planned_peer :: "string option" \<comment> \<open>\<open>p2p_admission.planned_peer\<close>\<close>
  tq_grant_id :: "string option"
  tq_claim_lease :: "claim_lease option"
  tq_expired_unclaimed :: "int option" \<comment> \<open>since when\<close>

subsection \<open>Pins and payees\<close>

record pin_input =
  pi_submitter :: "string option"
  pi_submitterIsIdentity :: bool
  pi_p2p :: bool
  pi_routedTo :: string
  pi_pathAgentId :: string
  pi_explicitTarget :: "string option"

definition taskPinOf :: "pin_input \<Rightarrow> string option" where
  "taskPinOf input =
     (if pi_p2p input then Some (pi_routedTo input)
      else if pi_explicitTarget input \<noteq> None then Some (pi_routedTo input)
      else if pi_submitter input \<noteq> None \<and> pi_submitterIsIdentity input \<and> pi_submitter input \<noteq> Some (pi_pathAgentId input)
        then Some (pi_routedTo input)
      else None)"

definition pinOf :: "task_entry \<Rightarrow> string option" where
  "pinOf entry = (case tq_pinned_executor entry of Some pin \<Rightarrow> (if pin \<noteq> [] then Some pin else None) | None \<Rightarrow> None)"

definition executorAllowed :: "string option \<Rightarrow> string \<Rightarrow> bool" where
  "executorAllowed pin executorId \<longleftrightarrow> pin = None \<or> pin = Some executorId"

definition candidatesUnderPin :: "string option \<Rightarrow> 'c list \<Rightarrow> ('c \<Rightarrow> string) \<Rightarrow> 'c list" where
  "candidatesUnderPin pin candidates idOf = (case pin of None \<Rightarrow> candidates | Some p \<Rightarrow> filter (\<lambda>c. idOf c = p) candidates)"

definition pinRefusesAnswer :: "task_entry \<Rightarrow> string \<Rightarrow> bool" where
  "pinRefusesAnswer entry signer \<longleftrightarrow> \<not> executorAllowed (pinOf entry) signer"

definition pinRefusesSettlement :: "task_entry \<Rightarrow> string \<Rightarrow> bool" where
  "pinRefusesSettlement entry payee \<longleftrightarrow> \<not> executorAllowed (pinOf entry) payee"

definition pinRefusesClaim :: "task_entry \<Rightarrow> string \<Rightarrow> bool" where
  "pinRefusesClaim entry claimant \<longleftrightarrow> \<not> executorAllowed (pinOf entry) claimant"

definition p2pPayeeOf :: "task_entry \<Rightarrow> string" where
  "p2pPayeeOf entry = (case tq_target_agent entry of Some t \<Rightarrow> (if t \<noteq> [] then t else tk_motebit_id (tq_task entry)) | None \<Rightarrow> tk_motebit_id (tq_task entry))"

definition receiptDischargesP2p :: "task_entry \<Rightarrow> string \<Rightarrow> bool" where
  "receiptDischargesP2p entry signerId \<longleftrightarrow> signerId = p2pPayeeOf entry"

subsection \<open>The tables\<close>

record archived_answer =
  aa_executor_id :: string
  aa_receipt :: execution_receipt
  aa_settling :: "string option"
  aa_settled :: bool
  aa_answer_version :: int
  aa_answered_at :: int

record settlement_row =
  sr_task_id :: string
  sr_receipt_signature :: "string option"
  sr_receipt_hash :: string

datatype route_origin = RouteAdmission | RouteInboundForward

record task_route =
  ro_task_id :: string
  ro_executor_id :: string
  ro_via_peer :: string
  ro_created_at :: int
  ro_origin :: route_origin
  ro_from_peer :: string

record relay_tasks =
  rk_queue :: "(string, task_entry) jsmap"
  rk_answers :: "(string, archived_answer) jsmap"
  rk_settlements :: "settlement_row list"
  rk_federation_settlements :: "settlement_row list"
  rk_routes :: "task_route list"
  rk_leased :: "string list" \<comment> \<open>the in-memory set of task ids holding a lease\<close>

datatype queue_error = StaleCopy | InsertAnswered | LeftQueue | ChangesAnswer | UpdateAborted | SettledFrozen | OneSettlement | UnclaimedSettlement

definition terminal :: "task_status \<Rightarrow> bool" where
  "terminal s \<longleftrightarrow> s = TCompleted \<or> s = TFailed \<or> s = TDenied"

definition answerOf :: "task_entry \<Rightarrow> execution_receipt option \<times> task_status option \<times> string option \<times> bool option" where
  "answerOf e = (tq_receipt e, (if terminal (tk_status (tq_task e)) then Some (tk_status (tq_task e)) else None), tq_settling e, tq_settled e)"

definition row_version :: "task_entry \<Rightarrow> int" where
  "row_version e = (case tq_answer_version e of None \<Rightarrow> 0 | Some v \<Rightarrow> v)"

definition stored_entry :: "int \<Rightarrow> task_entry \<Rightarrow> task_entry" where
  \<comment> \<open>\<open>entryToJson\<close> then \<open>rowToEntry\<close>: the grant id is not among the fields written\<close>
  "stored_entry version e = e\<lparr>tq_grant_id := None, tq_answer_version := Some version\<rparr>"

definition queue_get :: "relay_tasks \<Rightarrow> string \<Rightarrow> task_entry option" where
  "queue_get st taskId = jsm_get (rk_queue st) taskId"

definition settlementRowsFor :: "relay_tasks \<Rightarrow> string \<Rightarrow> settlement_row list" where
  "settlementRowsFor st taskId = filter (\<lambda>r. sr_task_id r = taskId) (rk_settlements st) @ filter (\<lambda>r. sr_task_id r = taskId) (rk_federation_settlements st)"

definition update_guard :: "task_entry \<Rightarrow> int \<Rightarrow> task_entry \<Rightarrow> bool" where
  \<comment> \<open>\<open>relay_task_queue_answer_update_guard\<close> lets the update through\<close>
  "update_guard old version new \<longleftrightarrow> row_version old \<le> version \<and> version \<le> row_version old + 1
     \<and> (version = row_version old \<longrightarrow> answerOf new = answerOf old)"

definition names_other :: "relay_tasks \<Rightarrow> string \<Rightarrow> string option \<Rightarrow> bool" where
  "names_other st taskId sig \<longleftrightarrow> (\<exists>r \<in> set (settlementRowsFor st taskId). sr_receipt_signature r \<noteq> None \<and> sr_receipt_signature r \<noteq> sig)"

definition frozen_guard :: "relay_tasks \<Rightarrow> string \<Rightarrow> task_entry \<Rightarrow> task_entry \<Rightarrow> bool" where
  \<comment> \<open>\<open>relay_task_queue_settled_frozen_guard\<close> lets the update through\<close>
  "frozen_guard st taskId old new \<longleftrightarrow>
     (tq_receipt new \<noteq> tq_receipt old \<longrightarrow>
        \<not> (tq_receipt old \<noteq> None \<and> settlementRowsFor st taskId \<noteq> []) \<and> \<not> names_other st taskId (map_option rc_signature (tq_receipt new)))
     \<and> (tq_settling new \<noteq> tq_settling old \<longrightarrow> \<not> names_other st taskId (tq_settling new))"

definition writeRow :: "relay_tasks \<Rightarrow> string \<Rightarrow> task_entry \<Rightarrow> int \<Rightarrow> int \<Rightarrow> queue_error + bool \<times> relay_tasks" where
  "writeRow st taskId entry version expectedVersion =
     (case queue_get st taskId of
        None \<Rightarrow> Inr (False, st)
      | Some old \<Rightarrow>
          (if row_version old \<noteq> expectedVersion then Inr (False, st)
           else if \<not> update_guard old version entry then Inl UpdateAborted
           else if \<not> frozen_guard st taskId old entry then Inl SettledFrozen
           else Inr (True, st\<lparr>rk_queue := jsm_set taskId (stored_entry version entry) (rk_queue st)\<rparr>)))"

definition queue_set :: "relay_tasks \<Rightarrow> string \<Rightarrow> task_entry \<Rightarrow> queue_error + relay_tasks" where
  "queue_set st taskId entry =
     (case queue_get st taskId of
        None \<Rightarrow>
          (if tq_answer_version entry \<noteq> None \<and> tq_answer_version entry \<noteq> Some 0 then Inl LeftQueue
           else if tq_receipt entry \<noteq> None \<or> terminal (tk_status (tq_task entry)) \<or> tq_settling entry \<noteq> None \<or> tq_settled entry \<noteq> None
             then Inl InsertAnswered
           else Inr (st\<lparr>rk_queue := jsm_set taskId (stored_entry 0 entry) (rk_queue st)\<rparr>))
      | Some stored \<Rightarrow>
          (if row_version entry \<noteq> row_version stored then Inl StaleCopy
           else if answerOf entry \<noteq> answerOf stored then Inl ChangesAnswer
           else (case writeRow st taskId entry (row_version stored) (row_version stored) of Inl err \<Rightarrow> Inl err | Inr (_, st') \<Rightarrow> Inr st')))"

definition archive_answer :: "string \<Rightarrow> archived_answer \<Rightarrow> relay_tasks \<Rightarrow> relay_tasks" where
  \<comment> \<open>the upsert, which replaces only an older version\<close>
  "archive_answer taskId a st =
     (case jsm_get (rk_answers st) taskId of
        None \<Rightarrow> st\<lparr>rk_answers := jsm_set taskId a (rk_answers st)\<rparr>
      | Some old \<Rightarrow> (if aa_answer_version a > aa_answer_version old then st\<lparr>rk_answers := jsm_set taskId a (rk_answers st)\<rparr> else st))"

definition writeAnswer :: "relay_tasks \<Rightarrow> int \<Rightarrow> string \<Rightarrow> int \<Rightarrow> (task_entry \<Rightarrow> task_entry) \<Rightarrow> queue_error + task_entry option \<times> relay_tasks" where
  \<comment> \<open>called with the answer capability\<close>
  "writeAnswer st now taskId expectedVersion mutate =
     (case queue_get st taskId of
        None \<Rightarrow> Inr (None, st)
      | Some current \<Rightarrow>
          (if row_version current \<noteq> expectedVersion then Inr (None, st)
           else (let e = (mutate current)\<lparr>tq_answer_version := Some (expectedVersion + 1)\<rparr>
                 in case writeRow st taskId e (expectedVersion + 1) expectedVersion of
                      Inl err \<Rightarrow> Inl err
                    | Inr (False, _) \<Rightarrow> Inr (None, st)
                    | Inr (True, st') \<Rightarrow>
                        Inr (Some e,
                          (case tq_receipt e of
                             None \<Rightarrow> st'
                           | Some r \<Rightarrow> archive_answer taskId \<lparr> aa_executor_id = rc_motebit_id r, aa_receipt = r, aa_settling = tq_settling e,
                               aa_settled = (tq_settled e = Some True), aa_answer_version = expectedVersion + 1, aa_answered_at = now \<rparr> st')))))"

subsection \<open>Expiry and eviction\<close>

definition heldClaim :: "task_entry \<Rightarrow> bool" where
  "heldClaim e \<longleftrightarrow> tq_settling e \<noteq> None \<and> tq_settled e \<noteq> Some True"

definition heldGrant :: "task_entry \<Rightarrow> bool" where
  "heldGrant e \<longleftrightarrow> tk_status (tq_task e) = TClaimed \<and> tq_receipt e = None"

definition unmarkedPending :: "task_entry \<Rightarrow> bool" where
  "unmarkedPending e \<longleftrightarrow> tk_status (tq_task e) = TPending \<and> tq_receipt e = None \<and> tq_expired_unclaimed e = None"

definition holdsUnsettledClaim :: "relay_tasks \<Rightarrow> string \<Rightarrow> bool" where
  "holdsUnsettledClaim st taskId \<longleftrightarrow> (case queue_get st taskId of None \<Rightarrow> False | Some e \<Rightarrow> heldClaim e)
     \<or> (case jsm_get (rk_answers st) taskId of None \<Rightarrow> False | Some a \<Rightarrow> aa_settling a \<noteq> None \<and> \<not> aa_settled a)"

definition cleanup :: "int \<Rightarrow> relay_tasks \<Rightarrow> relay_tasks" where
  "cleanup now st = st\<lparr>rk_queue := filter (\<lambda>(i, e). \<not> (tq_expiresAt e < now \<and> \<not> heldClaim e \<and> \<not> heldGrant e \<and> \<not> unmarkedPending e)) (rk_queue st)\<rparr>"

definition by_expiry :: "string \<times> task_entry \<Rightarrow> string \<times> task_entry \<Rightarrow> int" where
  "by_expiry a b = tq_expiresAt (snd a) - tq_expiresAt (snd b)"

definition evict :: "nat \<Rightarrow> relay_tasks \<Rightarrow> relay_tasks" where
  "evict maxSize st =
     (if length (rk_queue st) \<le> maxSize then st
      else (let oldest = take (length (rk_queue st) - maxSize)
                  (js_sort by_expiry (filter (\<lambda>(i, e). \<not> heldClaim e \<and> \<not> heldGrant e) (rk_queue st)))
            in st\<lparr>rk_queue := filter (\<lambda>(i, e). i \<notin> set (map fst oldest)) (rk_queue st)\<rparr>))"

definition unansweredPastExpiry :: "int \<Rightarrow> relay_tasks \<Rightarrow> string list" where
  "unansweredPastExpiry now st = map fst (filter (\<lambda>(i, e). tq_expiresAt e < now \<and> tq_receipt e = None
     \<and> (tk_status (tq_task e) = TPending \<or> tk_status (tq_task e) = TClaimed)) (rk_queue st))"

definition countBySubmitter :: "string \<Rightarrow> relay_tasks \<Rightarrow> nat" where
  "countBySubmitter submitterId st = length (filter (\<lambda>(i, e). tq_submitted_by e = Some submitterId
     \<and> (tk_status (tq_task e) = TPending \<or> tk_status (tq_task e) = TClaimed)) (rk_queue st))"

subsection \<open>Settlement rows\<close>

datatype settlement_table = RelaySettlements | FederationSettlements

definition claimed_for :: "relay_tasks \<Rightarrow> string \<Rightarrow> string \<Rightarrow> bool" where
  "claimed_for st taskId sig \<longleftrightarrow>
     (case queue_get st taskId of
        Some e \<Rightarrow> tq_settling e = Some sig
      | None \<Rightarrow> (case jsm_get (rk_answers st) taskId of Some a \<Rightarrow> aa_settling a = Some sig | None \<Rightarrow> False))"

definition known_task :: "relay_tasks \<Rightarrow> string \<Rightarrow> bool" where
  "known_task st taskId \<longleftrightarrow> queue_get st taskId \<noteq> None \<or> jsm_get (rk_answers st) taskId \<noteq> None"

definition insert_settlement :: "settlement_table \<Rightarrow> settlement_row \<Rightarrow> relay_tasks \<Rightarrow> queue_error + relay_tasks" where
  "insert_settlement table row st =
     (let t = sr_task_id row
      in if t \<noteq> [] \<and> settlementRowsFor st t \<noteq> [] then Inl OneSettlement
         else if t \<noteq> [] \<and> known_task st t \<and> \<not> (case sr_receipt_signature row of None \<Rightarrow> False | Some sig \<Rightarrow> claimed_for st t sig) then Inl UnclaimedSettlement
         else Inr (case table of
                RelaySettlements \<Rightarrow> st\<lparr>rk_settlements := rk_settlements st @ [row]\<rparr>
              | FederationSettlements \<Rightarrow> st\<lparr>rk_federation_settlements := rk_federation_settlements st @ [row]\<rparr>))"

end
