(* ===== verification/TaskClaim.thy ===== *)
theory TaskClaim
  imports TaskQueue
begin

text \<open>
  Who holds a task's grant, \<open>services/relay/src/task-claim.ts\<close>: the claim of a serving body, its lease, the relay's own forward, the passes that mark a
  task expired or undetermined, and which device a claim lets answer. Every operation reads and writes the entry in one synchronous turn; a
  refused write of the queue is the left injection.
\<close>

definition TASK_CLAIM_LEASE_MS :: int where "TASK_CLAIM_LEASE_MS = 30000"
definition EXPIRED_VISIBLE_MS :: int where "EXPIRED_VISIBLE_MS = 24 * 60 * 60 * 1000"

record claiming_peer =
  cp_deviceId :: string
  cp_deviceIdVerified :: "bool option"
  cp_capabilities :: "string list option"
  cp_authenticatedDid :: "string option"
  cp_deviceIdDeclared :: "bool option"

datatype claim_refusal = TaskNotFound | NotPinnedExecutor | AlreadyClaimed | ExpiredTask | LacksCapabilities

datatype claim_verdict = Granted "int option" | Refused claim_refusal

definition add_leased :: "string \<Rightarrow> relay_tasks \<Rightarrow> relay_tasks" where
  "add_leased taskId st = (if taskId \<in> set (rk_leased st) then st else st\<lparr>rk_leased := rk_leased st @ [taskId]\<rparr>)"

definition adoptLeases :: "relay_tasks \<Rightarrow> relay_tasks" where
  \<comment> \<open>the constructor, after a restart\<close>
  "adoptLeases st = st\<lparr>rk_leased := map fst (filter (\<lambda>(i, e). tk_status (tq_task e) = TClaimed
     \<and> (case tq_claim_lease e of None \<Rightarrow> False | Some l \<Rightarrow> cl_expires_at l \<noteq> None)) (rk_queue st))\<rparr>"

definition ws_lease :: "claiming_peer \<Rightarrow> int option \<Rightarrow> claim_lease" where
  "ws_lease peer expires =
     \<lparr> cl_presenter = Some WsGrant, cl_device_id = cp_deviceId peer, cl_device_verified = (cp_deviceIdVerified peer = Some True),
       cl_device_generated = (cp_deviceIdDeclared peer = Some False),
       cl_authenticated_did = (if cp_authenticatedDid peer \<noteq> Some (cp_deviceId peer) then cp_authenticatedDid peer else None),
       cl_expires_at = expires, cl_undetermined_at = None, cl_undetermined_reason = None \<rparr>"

definition claim :: "int \<Rightarrow> string \<Rightarrow> string \<Rightarrow> claiming_peer \<Rightarrow> bool \<Rightarrow> int \<Rightarrow> relay_tasks \<Rightarrow> queue_error + claim_verdict \<times> relay_tasks" where
  "claim leaseMs taskId motebitId peer lease now st =
     (case queue_get st taskId of
        None \<Rightarrow> Inr (Refused TaskNotFound, st)
      | Some entry \<Rightarrow>
          (if tk_motebit_id (tq_task entry) \<noteq> motebitId then Inr (Refused TaskNotFound, st)
           else if pinRefusesClaim entry motebitId then Inr (Refused NotPinnedExecutor, st)
           else if tk_status (tq_task entry) \<noteq> TPending \<or> tq_receipt entry \<noteq> None then Inr (Refused AlreadyClaimed, st)
           else if tq_expired_unclaimed entry \<noteq> None then Inr (Refused ExpiredTask, st)
           else if (let requiredCaps = (case tk_required_capabilities (tq_task entry) of None \<Rightarrow> [] | Some cs \<Rightarrow> cs)
                    in requiredCaps \<noteq> [] \<and> (case cp_capabilities peer of None \<Rightarrow> False | Some cs \<Rightarrow> \<not> list_all (\<lambda>c. c \<in> set cs) requiredCaps))
             then Inr (Refused LacksCapabilities, st)
           else
             (let entry' = entry\<lparr>tq_task := (tq_task entry)\<lparr>tk_status := TClaimed, tk_claimed_by := Some (cp_deviceId peer)\<rparr>,
                    tq_claim_lease := Some (ws_lease peer (if lease then Some (now + leaseMs) else None))\<rparr>
              in case queue_set st taskId entry' of
                   Inl err \<Rightarrow> Inl err
                 | Inr st' \<Rightarrow> Inr (if lease then (Granted (Some leaseMs), add_leased taskId st') else (Granted None, st')))))"

definition renew :: "int \<Rightarrow> string \<Rightarrow> string \<Rightarrow> string \<Rightarrow> int \<Rightarrow> relay_tasks \<Rightarrow> queue_error + bool \<times> relay_tasks" where
  "renew leaseMs taskId motebitId deviceId now st =
     (case queue_get st taskId of
        None \<Rightarrow> Inr (False, st)
      | Some entry \<Rightarrow>
          (case tq_claim_lease entry of
             None \<Rightarrow> Inr (False, st)
           | Some lease \<Rightarrow>
               (if tk_motebit_id (tq_task entry) \<noteq> motebitId \<or> tk_status (tq_task entry) \<noteq> TClaimed \<or> cl_expires_at lease = None
                  \<or> cl_device_id lease \<noteq> deviceId then Inr (False, st)
                else (case queue_set st taskId (entry\<lparr>tq_claim_lease := Some (lease\<lparr>cl_undetermined_at := None, cl_expires_at := Some (now + leaseMs)\<rparr>)\<rparr>) of
                        Inl err \<Rightarrow> Inl err
                      | Inr st' \<Rightarrow> Inr (True, add_leased taskId st')))))"

definition bare_lease :: "grant_presenter \<Rightarrow> string \<Rightarrow> claim_lease" where
  "bare_lease presenter device =
     \<lparr> cl_presenter = Some presenter, cl_device_id = device, cl_device_verified = False, cl_device_generated = False,
       cl_authenticated_did = None, cl_expires_at = None, cl_undetermined_at = None, cl_undetermined_reason = None \<rparr>"

definition grantForward :: "string \<Rightarrow> string \<Rightarrow> relay_tasks \<Rightarrow> queue_error + bool \<times> relay_tasks" where
  "grantForward taskId workerId st =
     (case queue_get st taskId of
        None \<Rightarrow> Inr (False, st)
      | Some entry \<Rightarrow>
          (if tk_status (tq_task entry) \<noteq> TPending \<or> tq_receipt entry \<noteq> None \<or> tq_expired_unclaimed entry \<noteq> None then Inr (False, st)
           else if pinRefusesClaim entry workerId then Inr (False, st)
           else (case queue_set st taskId (entry\<lparr>tq_task := (tq_task entry)\<lparr>tk_status := TClaimed, tk_claimed_by := Some (''mcp:'' @ workerId)\<rparr>,
                        tq_claim_lease := Some (bare_lease ForwardGrant (''mcp:'' @ workerId))\<rparr>) of
                   Inl err \<Rightarrow> Inl err
                 | Inr st' \<Rightarrow> Inr (True, st'))))"

definition forwardEnded :: "string \<Rightarrow> bool \<Rightarrow> int \<Rightarrow> relay_tasks \<Rightarrow> queue_error + task_entry option \<times> relay_tasks" where
  "forwardEnded taskId called now st =
     (case queue_get st taskId of
        None \<Rightarrow> Inr (None, st)
      | Some entry \<Rightarrow>
          (case tq_claim_lease entry of
             None \<Rightarrow> Inr (None, st)
           | Some lease \<Rightarrow>
               (if tq_receipt entry \<noteq> None \<or> tk_status (tq_task entry) \<noteq> TClaimed \<or> cl_presenter lease \<noteq> Some ForwardGrant then Inr (None, st)
                else if \<not> called
                  then (let entry' = entry\<lparr>tq_task := (tq_task entry)\<lparr>tk_status := TPending, tk_claimed_by := None\<rparr>, tq_claim_lease := None\<rparr>
                        in case queue_set st taskId entry' of Inl err \<Rightarrow> Inl err | Inr st' \<Rightarrow> Inr (Some entry', st'))
                else if cl_undetermined_at lease = None
                  then (case queue_set st taskId (entry\<lparr>tq_claim_lease :=
                              Some (lease\<lparr>cl_undetermined_at := Some now, cl_undetermined_reason := Some ForwardUnanswered\<rparr>)\<rparr>) of
                          Inl err \<Rightarrow> Inl err | Inr st' \<Rightarrow> Inr (None, st'))
                else Inr (None, st))))"

definition holdsUnresolvedGrant :: "string \<Rightarrow> relay_tasks \<Rightarrow> bool" where
  "holdsUnresolvedGrant taskId st = (case queue_get st taskId of None \<Rightarrow> False
     | Some entry \<Rightarrow> tq_receipt entry = None \<and> tk_status (tq_task entry) = TClaimed)"

definition lost_lease :: "task_entry \<Rightarrow> int \<Rightarrow> claim_lease" where
  "lost_lease entry now =
     (case tq_claim_lease entry of
        Some lease \<Rightarrow> lease\<lparr>cl_undetermined_at := Some now,
          cl_undetermined_reason := Some (if cl_expires_at lease \<noteq> None then ClaimerLost else UnansweredAtExpiry)\<rparr>
      | None \<Rightarrow> \<lparr> cl_presenter = None, cl_device_id = (case tk_claimed_by (tq_task entry) of None \<Rightarrow> ''unknown'' | Some d \<Rightarrow> d),
          cl_device_verified = False, cl_device_generated = False, cl_authenticated_did = None, cl_expires_at = None,
          cl_undetermined_at = Some now, cl_undetermined_reason = Some UnansweredAtExpiry \<rparr>)"

definition expire_one :: "int \<Rightarrow> string \<Rightarrow> relay_tasks \<Rightarrow> queue_error + bool \<times> relay_tasks" where
  \<comment> \<open>the body of the loop, and whether it changed the task\<close>
  "expire_one now taskId st =
     (case queue_get st taskId of
        None \<Rightarrow> Inr (False, st)
      | Some entry \<Rightarrow>
          (if tq_receipt entry \<noteq> None \<or> tq_expiresAt entry \<ge> now then Inr (False, st)
           else if tk_status (tq_task entry) = TPending
             then (if tq_expired_unclaimed entry \<noteq> None then Inr (False, st)
                   else map_sum id (Pair True) (queue_set st taskId
                     (entry\<lparr>tq_expired_unclaimed := Some now, tq_expiresAt := now + EXPIRED_VISIBLE_MS\<rparr>)))
           else if tk_status (tq_task entry) \<noteq> TClaimed then Inr (False, st)
           else if (case tq_claim_lease entry of None \<Rightarrow> False | Some l \<Rightarrow> cl_undetermined_at l \<noteq> None) then Inr (False, st)
           else if (case tq_claim_lease entry of None \<Rightarrow> False | Some l \<Rightarrow> (case cl_expires_at l of None \<Rightarrow> False | Some t \<Rightarrow> t > now)) then Inr (False, st)
           else map_sum id (Pair True) (queue_set st taskId (entry\<lparr>tq_claim_lease := Some (lost_lease entry now)\<rparr>))))"

fun expire_all :: "int \<Rightarrow> string list \<Rightarrow> string list \<Rightarrow> relay_tasks \<Rightarrow> queue_error + string list \<times> relay_tasks" where
  "expire_all now [] changed st = Inr (changed, st)"
| "expire_all now (taskId # ids) changed st =
     (case expire_one now taskId st of
        Inl err \<Rightarrow> Inl err
      | Inr (did, st') \<Rightarrow> expire_all now ids (if did then changed @ [taskId] else changed) st')"

definition expire :: "int \<Rightarrow> relay_tasks \<Rightarrow> queue_error + string list \<times> relay_tasks" where
  "expire now st = expire_all now (unansweredPastExpiry now st) [] st"

definition drop_leased :: "string \<Rightarrow> relay_tasks \<Rightarrow> relay_tasks" where
  "drop_leased taskId st = st\<lparr>rk_leased := filter (\<lambda>i. i \<noteq> taskId) (rk_leased st)\<rparr>"

definition sweep_one :: "int \<Rightarrow> string \<Rightarrow> relay_tasks \<Rightarrow> queue_error + bool \<times> relay_tasks" where
  "sweep_one now taskId st =
     (case queue_get st taskId of
        None \<Rightarrow> Inr (False, drop_leased taskId st)
      | Some entry \<Rightarrow>
          (case tq_claim_lease entry of
             None \<Rightarrow> Inr (False, drop_leased taskId st)
           | Some lease \<Rightarrow>
               (case cl_expires_at lease of
                  None \<Rightarrow> Inr (False, drop_leased taskId st)
                | Some t \<Rightarrow>
                    (if tq_receipt entry \<noteq> None \<or> tk_status (tq_task entry) \<noteq> TClaimed \<or> cl_undetermined_at lease \<noteq> None
                       then Inr (False, drop_leased taskId st)
                     else if t > now then Inr (False, st)
                     else map_sum id (Pair True) (queue_set (drop_leased taskId st) taskId
                       (entry\<lparr>tq_claim_lease := Some (lease\<lparr>cl_undetermined_at := Some now, cl_undetermined_reason := Some ClaimerLost\<rparr>)\<rparr>))))))"

fun sweep_all :: "int \<Rightarrow> string list \<Rightarrow> string list \<Rightarrow> relay_tasks \<Rightarrow> queue_error + string list \<times> relay_tasks" where
  "sweep_all now [] lost st = Inr (lost, st)"
| "sweep_all now (taskId # ids) lost st =
     (case sweep_one now taskId st of
        Inl err \<Rightarrow> Inl err
      | Inr (did, st') \<Rightarrow> sweep_all now ids (if did then lost @ [taskId] else lost) st')"

definition sweep :: "int \<Rightarrow> relay_tasks \<Rightarrow> queue_error + string list \<times> relay_tasks" where
  "sweep now st = sweep_all now (rk_leased st) [] st"

definition undeterminedOf :: "task_entry \<Rightarrow> (undetermined_reason \<times> int) option" where
  "undeterminedOf entry =
     (case tq_claim_lease entry of
        None \<Rightarrow> None
      | Some lease \<Rightarrow>
          (case cl_undetermined_at lease of
             None \<Rightarrow> None
           | Some since \<Rightarrow> (if tq_receipt entry \<noteq> None then None
               else Some (case cl_undetermined_reason lease of None \<Rightarrow> ClaimerLost | Some r \<Rightarrow> r, since))))"

definition expiredOf :: "task_entry \<Rightarrow> int option" where
  "expiredOf entry = (if tq_receipt entry \<noteq> None then None else tq_expired_unclaimed entry)"

definition grantToSubmitter :: "string option \<Rightarrow> task_entry \<Rightarrow> task_entry" where
  "grantToSubmitter submitter entry =
     (let name = ''submitter:'' @ (case submitter of None \<Rightarrow> ''operator'' | Some s \<Rightarrow> s)
      in entry\<lparr>tq_task := (tq_task entry)\<lparr>tk_status := TClaimed, tk_claimed_by := Some name\<rparr>, tq_claim_lease := Some (bare_lease SubmitterGrant name)\<rparr>)"

definition claimNamesAnswerer :: "task_entry \<Rightarrow> bool" where
  "claimNamesAnswerer entry = (case tq_claim_lease entry of None \<Rightarrow> False | Some l \<Rightarrow> cl_presenter l = None \<or> cl_presenter l = Some WsGrant)"

definition claimBindsSignedAnswerer :: "task_entry \<Rightarrow> bool" where
  "claimBindsSignedAnswerer entry \<longleftrightarrow> claimNamesAnswerer entry
     \<and> (case tq_claim_lease entry of None \<Rightarrow> True | Some l \<Rightarrow> \<not> cl_device_generated l)"

definition claimRefusesAnswer :: "task_entry \<Rightarrow> string option \<Rightarrow> bool" where
  "claimRefusesAnswer entry did =
     (case (tq_claim_lease entry, did) of
        (Some lease, Some d) \<Rightarrow> claimNamesAnswerer entry \<and> d \<noteq> cl_device_id lease \<and> Some d \<noteq> cl_authenticated_did lease
      | _ \<Rightarrow> False)"

end
