(* ===== verification/TaskAnswer.thy ===== *)
theory TaskAnswer
  imports TaskClaim
begin

text \<open>
  A task's answer, \<open>services/relay/src/task-answer.ts\<close>, with the routing record of \<open>task-routing.ts\<close> that says who may give it. \<open>answerTask\<close> waits for
  a signature check in its middle, so it is two pieces here: the checks on the entry as it was read first, and the write against the entry as it
  is after the wait. Key resolution and the check of a signature that is there are the parameter \<open>sigcheck\<close>: a refusal, or the key. So is the settlement step
  of a door; the rows it inserts pass the guards of \<open>TaskQueue\<close>.
\<close>

subsection \<open>The routing record\<close>

definition TASK_ROUTE_RETENTION_MS :: int where "TASK_ROUTE_RETENTION_MS = 7 * 24 * 60 * 60 * 1000"

definition recordTaskRoute :: "string \<Rightarrow> string \<Rightarrow> string \<Rightarrow> route_origin \<Rightarrow> string \<Rightarrow> int \<Rightarrow> relay_tasks \<Rightarrow> relay_tasks" where
  \<comment> \<open>the table's key is the task, the executor and the peer; a second insert is ignored\<close>
  "recordTaskRoute taskId executorId viaPeer origin fromPeer now st =
     (if executorId = [] then st
      else if list_ex (\<lambda>r. ro_task_id r = taskId \<and> ro_executor_id r = executorId \<and> ro_via_peer r = viaPeer) (rk_routes st) then st
      else st\<lparr>rk_routes := rk_routes st @ [\<lparr> ro_task_id = taskId, ro_executor_id = executorId, ro_via_peer = viaPeer, ro_created_at = now,
             ro_origin = origin, ro_from_peer = fromPeer \<rparr>]\<rparr>)"

definition taskRoutes :: "relay_tasks \<Rightarrow> string \<Rightarrow> route_origin \<Rightarrow> task_route list" where
  "taskRoutes st taskId origin = filter (\<lambda>r. ro_task_id r = taskId \<and> ro_origin r = origin) (rk_routes st)"

definition admittedBeforeTaskRoutes :: "int option \<Rightarrow> int \<Rightarrow> bool" where
  \<comment> \<open>\<open>epoch\<close> is when routes began to be recorded\<close>
  "admittedBeforeTaskRoutes epoch submittedAt = (case epoch of None \<Rightarrow> False | Some t \<Rightarrow> submittedAt < t)"

definition isRoutedExecutor :: "int option \<Rightarrow> relay_tasks \<Rightarrow> string \<Rightarrow> string \<Rightarrow> string \<Rightarrow> (string \<times> int) option \<Rightarrow> route_origin \<Rightarrow> bool" where
  "isRoutedExecutor epoch st taskId signer viaPeer legacy origin =
     (let routes = taskRoutes st taskId origin
      in if routes = []
         then viaPeer = [] \<and> (case legacy of None \<Rightarrow> False | Some (executor, submittedAt) \<Rightarrow> signer = executor \<and> admittedBeforeTaskRoutes epoch submittedAt)
         else list_ex (\<lambda>r. ro_executor_id r = signer \<and> ro_via_peer r = viaPeer) routes)"

definition receiptRelayTaskId :: "execution_receipt \<Rightarrow> string" where
  "receiptRelayTaskId receipt = (case rc_relay_task_id receipt of Some r \<Rightarrow> (if r \<noteq> [] then r else rc_task_id receipt) | None \<Rightarrow> rc_task_id receipt)"

definition cleanupTaskRoutes :: "int \<Rightarrow> relay_tasks \<Rightarrow> relay_tasks" where
  \<comment> \<open>of routes and archived answers; the deliveries to other relays are not modelled\<close>
  "cleanupTaskRoutes now st =
     (let cutoff = now - TASK_ROUTE_RETENTION_MS;
          st1 = st\<lparr>rk_routes := filter (\<lambda>r. \<not> (ro_created_at r < cutoff \<and> \<not> holdsUnsettledClaim st (ro_task_id r))) (rk_routes st)\<rparr>
      in st1\<lparr>rk_answers := filter (\<lambda>(i, a). \<not> (aa_answered_at a < cutoff \<and> \<not> (aa_settling a \<noteq> None \<and> \<not> aa_settled a)
             \<and> \<not> (\<not> aa_settled a \<and> jsm_has (rk_queue st1) i))) (rk_answers st1)\<rparr>)"

subsection \<open>Taking an answer\<close>

datatype answer_refusal = Gone | NotBound | NotPayee | NotPinned | NotRouted | NoKey | BadSignature | Answered | ClaimedByOther

record answer_taken =
  at_entry :: task_entry
  at_first :: bool
  at_replaced :: bool
  at_repeat :: bool

datatype answer_verdict = Took answer_taken | NotTook answer_refusal "execution_receipt option"

definition statusOf :: "execution_receipt \<Rightarrow> task_status" where
  "statusOf receipt = (case rc_status receipt of RCompleted \<Rightarrow> TCompleted | RDenied \<Rightarrow> TDenied | RFailed \<Rightarrow> TFailed)"

definition rowNames :: "settlement_row \<Rightarrow> execution_receipt \<Rightarrow> bool" where
  "rowNames row receipt =
     (case sr_receipt_signature row of
        Some s \<Rightarrow> s = rc_signature receipt
      | None \<Rightarrow> sr_receipt_hash row \<noteq> [] \<and> (sr_receipt_hash row = rc_result_hash receipt \<or> sr_receipt_hash row = rc_signature receipt))"

definition answerFrozen :: "relay_tasks \<Rightarrow> task_entry \<Rightarrow> string \<Rightarrow> bool" where
  "answerFrozen st entry taskId \<longleftrightarrow> tq_settled entry = Some True \<or> (tq_settling entry \<noteq> None \<and> tq_settling entry \<noteq> Some [])
     \<or> settlementRowsFor st taskId \<noteq> []"

datatype answer_rule = RuleTake | RuleReplace | RuleRepeat | RuleAnswered

definition answerRule :: "execution_receipt option \<Rightarrow> bool \<Rightarrow> execution_receipt \<Rightarrow> answer_rule" where
  "answerRule prior frozen incoming =
     (if (case prior of None \<Rightarrow> False | Some p \<Rightarrow> rc_signature p = rc_signature incoming \<and> rc_motebit_id p = rc_motebit_id incoming) then RuleRepeat
      else if frozen then RuleAnswered
      else (case prior of
              None \<Rightarrow> RuleTake
            | Some p \<Rightarrow> (if rc_status p \<noteq> RCompleted \<and> rc_status incoming = RCompleted then RuleReplace else RuleAnswered)))"

definition answeringDid :: "task_entry \<Rightarrow> string option \<Rightarrow> execution_receipt \<Rightarrow> string option" where
  \<comment> \<open>\<open>did\<close> is the presenter's device, none under the master token\<close>
  "answeringDid current did receipt =
     (if did \<noteq> None then did
      else if \<not> claimBindsSignedAnswerer current then None
      else Some (case rc_device_id receipt of Some d \<Rightarrow> d | None \<Rightarrow> []))"

definition routed :: "int option \<Rightarrow> relay_tasks \<Rightarrow> string \<Rightarrow> task_entry \<Rightarrow> execution_receipt \<Rightarrow> answer_door \<Rightarrow> bool" where
  "routed epoch st taskId entry receipt door =
     (case door of
        FederationResult viaPeer _ \<Rightarrow>
          (if taskRoutes st taskId RouteAdmission = [] \<and> tq_settlement_mode entry = Some ModeP2p \<and> tq_planned_peer entry = Some viaPeer
              \<and> admittedBeforeTaskRoutes epoch (tk_submitted_at (tq_task entry)) then True
           else isRoutedExecutor epoch st taskId (rc_motebit_id receipt) viaPeer None RouteAdmission)
      | _ \<Rightarrow> isRoutedExecutor epoch st taskId (rc_motebit_id receipt) [] (Some (tk_motebit_id (tq_task entry), tk_submitted_at (tq_task entry)))
          (if tq_origin_relay entry \<noteq> None then RouteInboundForward else RouteAdmission))"

definition answer_checks :: "int option \<Rightarrow> relay_tasks \<Rightarrow> string \<Rightarrow> execution_receipt \<Rightarrow> answer_door \<Rightarrow> answer_refusal option" where
  \<comment> \<open>steps 1 to 3, before the signature\<close>
  "answer_checks epoch st taskId receipt door =
     (case queue_get st taskId of
        None \<Rightarrow> Some Gone
      | Some entry \<Rightarrow>
          (if receiptRelayTaskId receipt \<noteq> taskId then Some NotBound
           else if tq_settlement_mode entry = Some ModeP2p \<and> \<not> receiptDischargesP2p entry (rc_motebit_id receipt) then Some NotPayee
           else if pinRefusesAnswer entry (rc_motebit_id receipt) then Some NotPinned
           else if \<not> routed epoch st taskId entry receipt door then Some NotRouted
           else None))"

definition answered_entry :: "execution_receipt \<Rightarrow> answer_door \<Rightarrow> int \<Rightarrow> task_entry \<Rightarrow> task_entry" where
  \<comment> \<open>the answer and its claim in one write; \<open>keep\<close> is now plus the retention\<close>
  "answered_entry receipt door keep e =
     e\<lparr>tq_receipt := Some receipt, tq_task := (tq_task e)\<lparr>tk_status := statusOf receipt\<rparr>, tq_expiresAt := max (tq_expiresAt e) keep,
       tq_settling := Some (rc_signature receipt), tq_settle_via := Some door\<rparr>"

definition claim_answer :: "string \<Rightarrow> answer_door \<Rightarrow> task_entry \<Rightarrow> task_entry" where
  "claim_answer signature door e = e\<lparr>tq_settling := Some signature, tq_settle_via := Some door\<rparr>"

definition took :: "task_entry option \<Rightarrow> bool \<Rightarrow> bool \<Rightarrow> answer_verdict" where
  "took written first replaced =
     (case written of
        None \<Rightarrow> NotTook Answered None
      | Some e \<Rightarrow> Took \<lparr> at_entry = e, at_first = first, at_replaced = replaced, at_repeat = False \<rparr>)"

definition write_took :: "queue_error + task_entry option \<times> relay_tasks \<Rightarrow> bool \<Rightarrow> bool \<Rightarrow> queue_error + answer_verdict \<times> relay_tasks" where
  "write_took res first replaced = map_sum id (\<lambda>(written, st'). (took written first replaced, st')) res"

definition answer_write :: "int \<Rightarrow> int \<Rightarrow> string \<Rightarrow> execution_receipt \<Rightarrow> answer_door \<Rightarrow> string option option \<Rightarrow> relay_tasks \<Rightarrow>
    queue_error + answer_verdict \<times> relay_tasks" where
  \<comment> \<open>step 5, in one synchronous turn; the presenter is given by a result POST only\<close>
  "answer_write now retainMs taskId receipt door presenter st =
     (case queue_get st taskId of
        None \<Rightarrow> Inr (NotTook Gone None, st)
      | Some current \<Rightarrow>
          (if (case presenter of None \<Rightarrow> False | Some did \<Rightarrow> claimRefusesAnswer current (answeringDid current did receipt)) then Inr (NotTook ClaimedByOther None, st)
           else (let rows = settlementRowsFor st taskId; v = row_version current
                 in if tq_receipt current = None \<and> rows \<noteq> []
                    then (if list_all (\<lambda>row. rowNames row receipt) rows \<and> (tq_settling current = None \<or> tq_settling current = Some (rc_signature receipt))
                          then write_took (writeAnswer st now taskId v
                            (\<lambda>e. (answered_entry receipt door (now + retainMs) e)\<lparr>tq_settled := Some True\<rparr>)) True False
                          else Inr (NotTook Answered None, st))
                    else (case answerRule (tq_receipt current) (answerFrozen st current taskId) receipt of
                            RuleAnswered \<Rightarrow> Inr (NotTook Answered (tq_receipt current), st)
                          | RuleRepeat \<Rightarrow>
                              (if tq_settled current \<noteq> Some True \<and> tq_settling current = None
                               then map_sum id (\<lambda>(written, st'). (Took \<lparr> at_entry = (case written of Some e \<Rightarrow> e | None \<Rightarrow> current),
                                      at_first = False, at_replaced = False, at_repeat = True \<rparr>, st'))
                                    (writeAnswer st now taskId v (claim_answer (rc_signature receipt) door))
                               else Inr (Took \<lparr> at_entry = current, at_first = False, at_replaced = False, at_repeat = True \<rparr>, st))
                          | RuleTake \<Rightarrow> write_took (writeAnswer st now taskId v (answered_entry receipt door (now + retainMs))) True False
                          | RuleReplace \<Rightarrow> write_took (writeAnswer st now taskId v (answered_entry receipt door (now + retainMs))) False True))))"

definition verifySignature :: "(answer_door \<Rightarrow> execution_receipt \<Rightarrow> answer_refusal + string) \<Rightarrow> answer_door \<Rightarrow> execution_receipt \<Rightarrow> answer_refusal + string" where
  \<comment> \<open>an empty signature is refused before any key is looked up\<close>
  "verifySignature sigcheck door receipt = (if rc_signature receipt = [] then Inl BadSignature else sigcheck door receipt)"

definition answerTask :: "int option \<Rightarrow> (answer_door \<Rightarrow> execution_receipt \<Rightarrow> answer_refusal + string) \<Rightarrow> int \<Rightarrow> int \<Rightarrow> string \<Rightarrow> execution_receipt \<Rightarrow> answer_door \<Rightarrow>
    string option option \<Rightarrow> relay_tasks \<Rightarrow> relay_tasks \<Rightarrow> queue_error + answer_verdict \<times> relay_tasks" where
  \<comment> \<open>\<open>before\<close> and \<open>st\<close> are the tables before and after the wait\<close>
  "answerTask epoch sigcheck now retainMs taskId receipt door presenter before st =
     (case answer_checks epoch before taskId receipt door of
        Some refusal \<Rightarrow> Inr (NotTook refusal None, st)
      | None \<Rightarrow>
          (case verifySignature sigcheck door receipt of
             Inl refusal \<Rightarrow> Inr (NotTook refusal None, st)
           | Inr _ \<Rightarrow> answer_write now retainMs taskId receipt door presenter st))"

definition claimStoredAnswer :: "int \<Rightarrow> string \<Rightarrow> answer_door \<Rightarrow> relay_tasks \<Rightarrow> queue_error + task_entry option \<times> relay_tasks" where
  "claimStoredAnswer now taskId door st =
     (case queue_get st taskId of
        None \<Rightarrow> Inr (None, st)
      | Some current \<Rightarrow>
          (case tq_receipt current of
             None \<Rightarrow> Inr (None, st)
           | Some r \<Rightarrow>
               (if tq_settling current \<noteq> None \<and> tq_settling current \<noteq> Some [] then Inr (Some current, st)
                else map_sum id (\<lambda>(claimed, st'). (case claimed of Some e \<Rightarrow> Some e | None \<Rightarrow> queue_get st' taskId, st'))
                  (writeAnswer st now taskId (row_version current) (claim_answer (rc_signature r) door)))))"

definition markTaskSettled :: "int \<Rightarrow> string \<Rightarrow> string \<Rightarrow> relay_tasks \<Rightarrow> queue_error + relay_tasks" where
  "markTaskSettled now taskId receiptSignature st =
     (case queue_get st taskId of
        None \<Rightarrow> Inr st
      | Some current \<Rightarrow>
          (if tq_settled current = Some True then Inr st
           else if tq_settling current \<noteq> Some receiptSignature then Inr st
           else map_sum id snd (writeAnswer st now taskId (row_version current) (\<lambda>e. e\<lparr>tq_settled := Some True, tq_settling := Some receiptSignature\<rparr>))))"

datatype settle_action = AlreadySettled | RefuseSettlement answer_refusal | MarkDuplicate execution_receipt | RunSettlement execution_receipt

definition admit_next :: "answer_taken \<Rightarrow> string \<Rightarrow> relay_tasks \<Rightarrow> settle_action" where
  \<comment> \<open>what \<open>admitReceipt\<close> does with a taken answer: nothing again, a mark, or the door's settlement step\<close>
  "admit_next verdict taskId st =
     (let entry = at_entry verdict
      in case tq_receipt entry of
           None \<Rightarrow> RefuseSettlement Answered
         | Some answer \<Rightarrow>
             (if tq_settled entry = Some True then AlreadySettled
              else if tq_settling entry \<noteq> Some (rc_signature answer) then RefuseSettlement Answered
              else if pinRefusesSettlement entry (rc_motebit_id answer) then RefuseSettlement NotPinned
              else if settlementRowsFor st taskId \<noteq> [] then MarkDuplicate answer
              else RunSettlement answer))"

subsection \<open>Admission and the periodic pass\<close>

definition queued_entry :: "agent_task \<Rightarrow> int \<Rightarrow> string option \<Rightarrow> string option \<Rightarrow> settlement_mode option \<Rightarrow> string option \<Rightarrow> string option \<Rightarrow>
    string option \<Rightarrow> string option \<Rightarrow> task_entry" where
  \<comment> \<open>an entry as an admission builds it\<close>
  "queued_entry task expiresAt submitter originRelay mode plannedPeer target pin grantId =
     \<lparr> tq_task = task, tq_receipt = None, tq_expiresAt = expiresAt, tq_submitted_by = submitter, tq_origin_relay = originRelay, tq_settled = None,
       tq_settling = None, tq_settle_via = None, tq_answer_version = None, tq_settlement_mode = mode, tq_target_agent = target,
       tq_pinned_executor = pin, tq_planned_peer = plannedPeer, tq_grant_id = grantId, tq_claim_lease = None, tq_expired_unclaimed = None \<rparr>"

definition submitted_task :: "string \<Rightarrow> int \<Rightarrow> string list option \<Rightarrow> agent_task" where
  "submitted_task motebitId now caps =
     \<lparr> tk_motebit_id = motebitId, tk_submitted_at = now, tk_status = TPending, tk_claimed_by = None, tk_required_capabilities = caps \<rparr>"

definition admit_task :: "string \<Rightarrow> task_entry \<Rightarrow> bool \<Rightarrow> int \<Rightarrow> relay_tasks \<Rightarrow> queue_error + relay_tasks" where
  \<comment> \<open>the queue's part of the admission transaction, and the route of the path agent\<close>
  "admit_task taskId queued submitterPresenter now st =
     (case queue_set st taskId (if submitterPresenter then grantToSubmitter (tq_submitted_by queued) queued else queued) of
        Inl err \<Rightarrow> Inl err
      | Inr st' \<Rightarrow> Inr (recordTaskRoute taskId (tk_motebit_id (tq_task queued)) [] RouteAdmission [] now st'))"

definition enqueue_forwarded :: "string \<Rightarrow> string \<Rightarrow> string \<Rightarrow> string option \<Rightarrow> string list option \<Rightarrow> bool \<Rightarrow> int \<Rightarrow> int \<Rightarrow> relay_tasks \<Rightarrow> queue_error + relay_tasks" where
  \<comment> \<open>a peer's forward: its route, then the task pinned to the agent it names\<close>
  "enqueue_forwarded taskId targetAgent originRelay submitter caps paid taskTtlMs now st =
     queue_set (recordTaskRoute taskId targetAgent [] RouteInboundForward originRelay now st) taskId
       (queued_entry (submitted_task targetAgent now caps) (now + taskTtlMs)
          (Some (case submitter of Some s \<Rightarrow> s | None \<Rightarrow> ''relay:'' @ originRelay)) (Some originRelay) (if paid then Some ModeP2p else None) None None
          (Some targetAgent) None)"

definition clear_planned_peer :: "string \<Rightarrow> relay_tasks \<Rightarrow> queue_error + relay_tasks" where
  \<comment> \<open>after a peer's definitive refusal\<close>
  "clear_planned_peer taskId st =
     (case queue_get st taskId of
        None \<Rightarrow> Inr st
      | Some entry \<Rightarrow> (if tq_planned_peer entry = None then Inr st else queue_set st taskId (entry\<lparr>tq_planned_peer := None\<rparr>)))"

definition present_forward :: "string \<Rightarrow> string \<Rightarrow> int \<Rightarrow> relay_tasks \<Rightarrow> queue_error + bool \<times> relay_tasks" where
  \<comment> \<open>\<open>presentViaMcp\<close> up to its first request: the grant, then the worker's route\<close>
  "present_forward taskId workerId now st =
     (case grantForward taskId workerId st of
        Inl err \<Rightarrow> Inl err
      | Inr (False, st') \<Rightarrow> Inr (False, st')
      | Inr (True, st') \<Rightarrow> Inr (True, recordTaskRoute taskId workerId [] RouteAdmission [] now st'))"

definition sweepTaskLifecycle :: "int \<Rightarrow> relay_tasks \<Rightarrow> queue_error + relay_tasks" where
  \<comment> \<open>the release of stale allocation holds is not part of these tables\<close>
  "sweepTaskLifecycle now st = (case expire now st of Inl err \<Rightarrow> Inl err | Inr (_, st') \<Rightarrow> Inr (cleanup now st'))"

end
