(* ===== verification/TaskLaws.thy ===== *)
theory TaskLaws
  imports TaskAnswer
begin

text \<open>
  What the operations of the relay's task tables may change. \<open>tended\<close> says that a task's answer, its pin and the other tables stand and that no task
  opens again; every claim, renewal, forward and expiry pass is such a change. The write of an answer is characterised by \<open>writeAnswer_cases\<close>.
\<close>

subsection \<open>Changes that leave the answers alone\<close>

definition openTask :: "task_entry \<Rightarrow> bool" where
  "openTask e \<longleftrightarrow> tk_status (tq_task e) = TPending \<and> tq_receipt e = None"

definition keeps :: "task_entry \<Rightarrow> task_entry \<Rightarrow> bool" where
  "keeps e e' \<longleftrightarrow> answerOf e' = answerOf e \<and> row_version e' = row_version e \<and> pinOf e' = pinOf e \<and> p2pPayeeOf e' = p2pPayeeOf e
     \<and> tq_settlement_mode e' = tq_settlement_mode e"

definition put_entry :: "string \<Rightarrow> task_entry \<Rightarrow> relay_tasks \<Rightarrow> relay_tasks" where
  "put_entry t e st = st\<lparr>rk_queue := jsm_set t e (rk_queue st)\<rparr>"

definition same_records :: "relay_tasks \<Rightarrow> relay_tasks \<Rightarrow> bool" where
  "same_records st st' \<longleftrightarrow> rk_answers st' = rk_answers st \<and> rk_settlements st' = rk_settlements st
     \<and> rk_federation_settlements st' = rk_federation_settlements st"

definition entry_kept :: "task_entry option \<Rightarrow> task_entry option \<Rightarrow> bool" where
  "entry_kept old new = (case new of None \<Rightarrow> True | Some e' \<Rightarrow> (case old of None \<Rightarrow> False | Some e \<Rightarrow> keeps e e' \<and> (openTask e' \<longrightarrow> openTask e) \<and> (heldGrant e \<longrightarrow> heldGrant e')))"

definition calm :: "relay_tasks \<Rightarrow> relay_tasks \<Rightarrow> bool" where
  "calm st st' \<longleftrightarrow> same_records st st' \<and> (jsm_wf (rk_queue st) \<longrightarrow> jsm_wf (rk_queue st')) \<and> (\<forall>t. entry_kept (queue_get st t) (queue_get st' t))"

definition tended :: "relay_tasks \<Rightarrow> relay_tasks \<Rightarrow> bool" where
  "tended st st' \<longleftrightarrow> calm st st' \<and> rk_routes st' = rk_routes st \<and> (\<forall>t. queue_get st' t = None \<longleftrightarrow> queue_get st t = None)"

lemma keeps_refl [simp]: "keeps e e"
  by (simp add: keeps_def)

lemma keeps_trans: "keeps a b \<Longrightarrow> keeps b c \<Longrightarrow> keeps a c"
  by (simp add: keeps_def)

lemma keeps_answer:
  assumes "keeps e e'"
  shows "tq_receipt e' = tq_receipt e" and "tq_settling e' = tq_settling e" and "tq_settled e' = tq_settled e"
  using assms by (auto simp add: keeps_def answerOf_def)

lemma stored_entry_fields [simp]:
  "answerOf (stored_entry v e) = answerOf e" "row_version (stored_entry v e) = v" "pinOf (stored_entry v e) = pinOf e"
  "p2pPayeeOf (stored_entry v e) = p2pPayeeOf e" "tq_settlement_mode (stored_entry v e) = tq_settlement_mode e"
  "tq_receipt (stored_entry v e) = tq_receipt e" "tq_settling (stored_entry v e) = tq_settling e" "tq_settled (stored_entry v e) = tq_settled e"
  "tq_task (stored_entry v e) = tq_task e"
  by (simp_all add: stored_entry_def answerOf_def row_version_def pinOf_def p2pPayeeOf_def split: option.splits)

lemma keeps_stored: "row_version e' = v \<Longrightarrow> keeps e (stored_entry v e') = keeps e e'"
  by (auto simp add: keeps_def)

lemma heldGrant_stored [simp]: "heldGrant (stored_entry v e) = heldGrant e"
  by (simp add: heldGrant_def stored_entry_def)

lemma openTask_stored [simp]: "openTask (stored_entry v e) = openTask e"
  by (simp add: openTask_def stored_entry_def)

lemma entry_kept_refl [simp]: "entry_kept x x"
  by (simp add: entry_kept_def split: option.splits)

lemma entry_kept_trans: "entry_kept a b \<Longrightarrow> entry_kept b c \<Longrightarrow> entry_kept a c"
  by (auto simp add: entry_kept_def split: option.splits intro: keeps_trans)

lemma same_records_refl [simp]: "same_records st st"
  by (simp add: same_records_def)

lemma same_records_trans: "same_records a b \<Longrightarrow> same_records b c \<Longrightarrow> same_records a c"
  by (simp add: same_records_def)

lemma calm_refl [simp]: "calm st st"
  by (simp add: calm_def)

lemma calm_trans: "calm a b \<Longrightarrow> calm b c \<Longrightarrow> calm a c"
  by (auto simp add: calm_def intro: same_records_trans entry_kept_trans)

lemma tended_refl [simp]: "tended st st"
  by (simp add: tended_def)

lemma tended_trans: "tended a b \<Longrightarrow> tended b c \<Longrightarrow> tended a c"
  by (auto simp add: tended_def intro: calm_trans)

lemma queue_get_put: "queue_get (put_entry t e st) t' = (if t' = t then Some e else queue_get st t')"
  by (simp add: put_entry_def queue_get_def jsm_get_set)

lemma same_records_put [simp]: "same_records st (put_entry t e st)"
  by (simp add: put_entry_def same_records_def)

lemma put_keeps_routes [simp]: "rk_routes (put_entry t e st) = rk_routes st"
  by (simp add: put_entry_def)

lemma put_keeps_answers [simp]: "rk_answers (put_entry t e st) = rk_answers st"
  by (simp add: put_entry_def)

lemma put_keeps_wf [simp]: "jsm_wf (rk_queue st) \<Longrightarrow> jsm_wf (rk_queue (put_entry t e st))"
  by (simp add: put_entry_def)

lemma tended_put:
  assumes "queue_get st t = Some e" and "keeps e e'" and "openTask e' \<Longrightarrow> openTask e" and "heldGrant e \<Longrightarrow> heldGrant e'"
  shows "tended st (put_entry t e' st)"
  using assms by (auto simp add: tended_def calm_def queue_get_put entry_kept_def split: option.splits)

lemma names_other_cong: "settlementRowsFor st t = settlementRowsFor st' t \<Longrightarrow> names_other st t s = names_other st' t s"
  by (simp add: names_other_def)

lemma queue_set_kept:
  assumes "queue_get st t = Some e" and "row_version e' = row_version e" and "answerOf e' = answerOf e"
  shows "queue_set st t e' = Inr (put_entry t (stored_entry (row_version e) e') st)"
  using assms by (simp add: queue_set_def writeRow_def update_guard_def frozen_guard_def put_entry_def answerOf_def)

lemma queue_set_tended:
  assumes "queue_get st t = Some e" and "keeps e e'" and "openTask e' \<Longrightarrow> openTask e" and "heldGrant e \<Longrightarrow> heldGrant e'"
  shows "\<exists>st'. queue_set st t e' = Inr st' \<and> tended st st' \<and> queue_get st' t = Some (stored_entry (row_version e) e')"
proof -
  have kept: "row_version e' = row_version e" "answerOf e' = answerOf e"
    using assms(2) by (simp_all add: keeps_def)
  have "tended st (put_entry t (stored_entry (row_version e) e') st)"
    using assms kept by (intro tended_put [of st t e]) (auto simp add: keeps_stored)
  then show ?thesis
    using queue_set_kept [OF assms(1) kept] by (auto simp add: queue_get_put)
qed

lemma queue_get_leased [simp]: "queue_get (st\<lparr>rk_leased := l\<rparr>) t = queue_get st t"
  by (simp add: queue_get_def)

lemma queue_get_add_leased [simp]: "queue_get (add_leased t st) t' = queue_get st t'"
  by (simp add: add_leased_def)

lemma tended_leased: "tended st (st\<lparr>rk_leased := l\<rparr>)"
  by (simp add: tended_def calm_def same_records_def)

lemma tended_add_leased: "tended st (add_leased t st)"
  by (simp add: add_leased_def tended_leased)

lemma tended_then_leased: "tended st st' \<Longrightarrow> tended st (add_leased t st')"
  by (rule tended_trans [OF _ tended_add_leased])

lemma tended_drop_leased: "tended st (drop_leased t st)"
  by (simp add: drop_leased_def tended_leased)

lemma queue_get_drop_leased [simp]: "queue_get (drop_leased t st) t' = queue_get st t'"
  by (simp add: drop_leased_def)

lemma keeps_fields:
  assumes "tq_receipt e' = tq_receipt e" and "tq_settling e' = tq_settling e" and "tq_settled e' = tq_settled e"
    and "tq_answer_version e' = tq_answer_version e" and "tq_pinned_executor e' = tq_pinned_executor e"
    and "tq_target_agent e' = tq_target_agent e" and "tk_motebit_id (tq_task e') = tk_motebit_id (tq_task e)"
    and "tq_settlement_mode e' = tq_settlement_mode e"
    and "tk_status (tq_task e') = tk_status (tq_task e) \<or> \<not> terminal (tk_status (tq_task e')) \<and> \<not> terminal (tk_status (tq_task e))"
  shows "keeps e e'"
  using assms by (auto simp add: keeps_def answerOf_def row_version_def pinOf_def p2pPayeeOf_def split: option.splits)

subsection \<open>Grants, leases and expiry are such changes\<close>

lemma claim_effect:
  "\<exists>v st'. claim leaseMs t m peer lease now st = Inr (v, st') \<and> tended st st'
     \<and> (\<forall>ms. v = Granted ms \<longrightarrow> (\<exists>e e'. queue_get st t = Some e \<and> openTask e \<and> queue_get st' t = Some e' \<and> \<not> openTask e'))"
proof (cases "queue_get st t")
  case None
  then show ?thesis
    by (simp add: claim_def)
next
  case (Some e)
  define e' where "e' = e\<lparr>tq_task := (tq_task e)\<lparr>tk_status := TClaimed, tk_claimed_by := Some (cp_deviceId peer)\<rparr>,
    tq_claim_lease := Some (ws_lease peer (if lease then Some (now + leaseMs) else None))\<rparr>"
  have closed: "\<not> openTask e'"
    by (simp add: e'_def openTask_def)
  have "\<exists>st'. queue_set st t e' = Inr st' \<and> tended st st' \<and> queue_get st' t = Some (stored_entry (row_version e) e')" if "openTask e"
    using that by (intro queue_set_tended Some keeps_fields) (auto simp add: e'_def openTask_def heldGrant_def terminal_def)
  then show ?thesis
    using Some closed by (auto simp add: claim_def openTask_def Let_def simp flip: e'_def intro!: tended_then_leased)
qed

lemma set_lease_effect:
  assumes "queue_get st t = Some e"
  shows "\<exists>st'. queue_set st t (e\<lparr>tq_claim_lease := l\<rparr>) = Inr st' \<and> tended st st'"
  using queue_set_tended [OF assms keeps_fields, of "e\<lparr>tq_claim_lease := l\<rparr>"] by (auto simp add: openTask_def heldGrant_def)

lemma renew_effect: "\<exists>b st'. renew leaseMs t m d now st = Inr (b, st') \<and> tended st st'"
proof (cases "queue_get st t")
  case None
  then show ?thesis
    by (auto simp add: renew_def)
next
  case (Some e)
  show ?thesis
  proof (cases "tq_claim_lease e")
    case None
    then show ?thesis
      using Some by (auto simp add: renew_def)
  next
    case (Some l)
    obtain st' where "queue_set st t (e\<lparr>tq_claim_lease := Some (l\<lparr>cl_undetermined_at := None, cl_expires_at := Some (now + leaseMs)\<rparr>)\<rparr>) = Inr st'"
      and "tended st st'"
      using set_lease_effect [OF \<open>queue_get st t = Some e\<close>] by blast
    then show ?thesis
      using Some \<open>queue_get st t = Some e\<close> by (auto simp add: renew_def intro: tended_then_leased)
  qed
qed

lemma grantForward_effect:
  "\<exists>b st'. grantForward t w st = Inr (b, st') \<and> tended st st'
     \<and> (b \<longrightarrow> (\<exists>e e'. queue_get st t = Some e \<and> openTask e \<and> queue_get st' t = Some e' \<and> \<not> openTask e'))"
proof (cases "queue_get st t")
  case None
  then show ?thesis
    by (auto simp add: grantForward_def)
next
  case (Some e)
  define e' where "e' = e\<lparr>tq_task := (tq_task e)\<lparr>tk_status := TClaimed, tk_claimed_by := Some (''mcp:'' @ w)\<rparr>,
    tq_claim_lease := Some (bare_lease ForwardGrant (''mcp:'' @ w))\<rparr>"
  have closed: "\<not> openTask e'"
    by (simp add: e'_def openTask_def)
  have "\<exists>st'. queue_set st t e' = Inr st' \<and> tended st st' \<and> queue_get st' t = Some (stored_entry (row_version e) e')" if "openTask e"
    using that by (intro queue_set_tended Some keeps_fields) (auto simp add: e'_def openTask_def heldGrant_def terminal_def)
  then show ?thesis
    unfolding grantForward_def Some option.case e'_def [symmetric] using closed by (auto simp add: openTask_def ex_bool_eq)
qed

lemma forwardEnded_called_effect: "\<exists>b st'. forwardEnded t True now st = Inr (b, st') \<and> tended st st'"
proof (cases "queue_get st t")
  case None
  then show ?thesis
    by (simp add: forwardEnded_def)
next
  case (Some e)
  show ?thesis
  proof (cases "tq_claim_lease e")
    case None
    then show ?thesis
      using Some by (auto simp add: forwardEnded_def)
  next
    case (Some l)
    obtain st' where "queue_set st t (e\<lparr>tq_claim_lease := Some (l\<lparr>cl_undetermined_at := Some now, cl_undetermined_reason := Some ForwardUnanswered\<rparr>)\<rparr>) = Inr st'"
      and "tended st st'"
      using set_lease_effect [OF \<open>queue_get st t = Some e\<close>] by blast
    then show ?thesis
      using Some \<open>queue_get st t = Some e\<close> by (auto simp add: forwardEnded_def)
  qed
qed

lemma forwardEnded_released_effect:
  "\<exists>b st'. forwardEnded t False now st = Inr (b, st') \<and> (tended st st'
     \<or> (\<exists>e e'. queue_get st t = Some e \<and> heldGrant e \<and> keeps e e' \<and> st' = put_entry t e' st))"
proof (cases "queue_get st t")
  case None
  then show ?thesis
    by (simp add: forwardEnded_def)
next
  case (Some e)
  define e' where "e' = e\<lparr>tq_task := (tq_task e)\<lparr>tk_status := TPending, tk_claimed_by := None\<rparr>, tq_claim_lease := None\<rparr>"
  have kept: "keeps e e'" if "heldGrant e"
    using that by (intro keeps_fields) (auto simp add: e'_def heldGrant_def terminal_def)
  have "queue_set st t e' = Inr (put_entry t (stored_entry (row_version e) e') st) \<and> keeps e (stored_entry (row_version e) e')" if "heldGrant e"
    using kept [OF that] queue_set_kept [OF Some, of e'] keeps_stored [of e' "row_version e" e] by (simp add: keeps_def)
  then show ?thesis
    using Some by (auto simp add: forwardEnded_def heldGrant_def Let_def simp flip: e'_def split: option.splits)
qed

lemma expire_one_effect: "\<exists>b st'. expire_one now t st = Inr (b, st') \<and> tended st st'"
proof (cases "queue_get st t")
  case None
  then show ?thesis
    by (auto simp add: expire_one_def)
next
  case (Some e)
  obtain st1 where "queue_set st t (e\<lparr>tq_expired_unclaimed := Some now, tq_expiresAt := now + EXPIRED_VISIBLE_MS\<rparr>) = Inr st1" "tended st st1"
    using queue_set_tended [OF Some keeps_fields, of "e\<lparr>tq_expired_unclaimed := Some now, tq_expiresAt := now + EXPIRED_VISIBLE_MS\<rparr>"]
    by (auto simp add: openTask_def heldGrant_def)
  moreover obtain st2 where "queue_set st t (e\<lparr>tq_claim_lease := Some (lost_lease e now)\<rparr>) = Inr st2" "tended st st2"
    using set_lease_effect [OF Some] by blast
  ultimately show ?thesis
    using Some by (auto simp add: expire_one_def)
qed

lemma expire_all_effect: "\<exists>ids' st'. expire_all now ids changed st = Inr (ids', st') \<and> tended st st'"
proof (induction ids arbitrary: changed st)
  case (Cons t ids)
  obtain b st1 where one: "expire_one now t st = Inr (b, st1)" "tended st st1"
    using expire_one_effect by blast
  obtain ids' st2 where "expire_all now ids (if b then changed @ [t] else changed) st1 = Inr (ids', st2)" "tended st1 st2"
    using Cons.IH by blast
  then show ?case
    using one by (auto intro: tended_trans)
qed simp

lemma sweep_one_effect: "\<exists>b st'. sweep_one now t st = Inr (b, st') \<and> tended st st'"
proof (cases "queue_get st t")
  case None
  then show ?thesis
    by (auto simp add: sweep_one_def tended_drop_leased)
next
  case (Some e)
  have got: "queue_get (drop_leased t st) t = Some e"
    using Some by simp
  show ?thesis
  proof (cases "tq_claim_lease e")
    case None
    then show ?thesis
      using Some by (auto simp add: sweep_one_def tended_drop_leased)
  next
    case (Some l)
    obtain st' where "queue_set (drop_leased t st) t (e\<lparr>tq_claim_lease := Some (l\<lparr>cl_undetermined_at := Some now, cl_undetermined_reason := Some ClaimerLost\<rparr>)\<rparr>) = Inr st'"
      and "tended (drop_leased t st) st'"
      using set_lease_effect [OF got] by blast
    then show ?thesis
      using Some \<open>queue_get st t = Some e\<close> by (auto simp add: sweep_one_def tended_drop_leased split: option.splits intro: tended_trans [OF tended_drop_leased])
  qed
qed

lemma sweep_all_effect: "\<exists>ids' st'. sweep_all now ids lost st = Inr (ids', st') \<and> tended st st'"
proof (induction ids arbitrary: lost st)
  case (Cons t ids)
  obtain b st1 where one: "sweep_one now t st = Inr (b, st1)" "tended st st1"
    using sweep_one_effect by blast
  obtain ids' st2 where "sweep_all now ids (if b then lost @ [t] else lost) st1 = Inr (ids', st2)" "tended st1 st2"
    using Cons.IH by blast
  then show ?case
    using one by (auto intro: tended_trans)
qed simp

lemma clear_planned_peer_effect: "\<exists>st'. clear_planned_peer t st = Inr st' \<and> tended st st'"
proof (cases "queue_get st t")
  case (Some e)
  have "\<exists>st'. queue_set st t (e\<lparr>tq_planned_peer := None\<rparr>) = Inr st' \<and> tended st st'"
    using queue_set_tended [OF Some keeps_fields, of "e\<lparr>tq_planned_peer := None\<rparr>"] by (auto simp add: openTask_def heldGrant_def)
  then show ?thesis
    using Some by (simp add: clear_planned_peer_def)
qed (simp add: clear_planned_peer_def)

subsection \<open>Expiry and eviction only remove\<close>

lemma jsm_wf_filter: "jsm_wf m \<Longrightarrow> jsm_wf (filter P m)"
  by (simp add: jsm_wf_def distinct_map_filter)

lemma jsm_get_filter:
  assumes "jsm_wf m"
  shows "jsm_get (filter P m) k = (case jsm_get m k of None \<Rightarrow> None | Some v \<Rightarrow> if P (k, v) then Some v else None)"
proof -
  have iff: "jsm_get (filter P m) k = Some v \<longleftrightarrow> jsm_get m k = Some v \<and> P (k, v)" for v
    using jsm_in_set_iff [OF assms, of k v] jsm_in_set_iff [OF jsm_wf_filter [OF assms], of k v P] by auto
  show ?thesis
  proof (cases "jsm_get m k")
    case None
    then show ?thesis
      using iff by (metis option.case(1) option.distinct(1) option.exhaust)
  next
    case (Some v)
    then have "jsm_get (filter P m) k = (if P (k, v) then Some v else None)"
      using iff [of v] iff by (metis option.exhaust option.inject)
    then show ?thesis
      using Some by simp
  qed
qed

lemma queue_get_filter:
  assumes "jsm_wf (rk_queue st)"
  shows "queue_get (st\<lparr>rk_queue := filter P (rk_queue st)\<rparr>) t = (case queue_get st t of None \<Rightarrow> None | Some e \<Rightarrow> if P (t, e) then Some e else None)"
  using jsm_get_filter [OF assms] by (simp add: queue_get_def)

lemma calm_filter:
  assumes "jsm_wf (rk_queue st)"
  shows "calm st (st\<lparr>rk_queue := filter P (rk_queue st)\<rparr>)"
  by (auto simp add: calm_def same_records_def entry_kept_def jsm_wf_filter queue_get_filter [OF assms] split: option.splits)

lemma cleanup_effect:
  assumes "jsm_wf (rk_queue st)"
  shows "calm st (cleanup now st)"
    and "queue_get st t = Some e \<Longrightarrow> heldClaim e \<or> heldGrant e \<Longrightarrow> queue_get (cleanup now st) t = Some e"
  by (auto simp add: cleanup_def calm_filter [OF assms] queue_get_filter [OF assms])

lemma evict_effect:
  assumes "jsm_wf (rk_queue st)"
  shows "calm st (evict n st)"
    and "queue_get st t = Some e \<Longrightarrow> heldClaim e \<or> heldGrant e \<Longrightarrow> queue_get (evict n st) t = Some e"
proof -
  show "calm st (evict n st)"
    by (simp add: evict_def calm_filter [OF assms] Let_def)
next
  assume got: "queue_get st t = Some e" and held: "heldClaim e \<or> heldGrant e"
  define free where "free = js_sort by_expiry (filter (\<lambda>(i, e). \<not> heldClaim e \<and> \<not> heldGrant e) (rk_queue st))"
  have "t \<notin> set (map fst (take k free))" for k
  proof
    assume "t \<in> set (map fst (take k free))"
    then obtain e' where "(t, e') \<in> set free"
      by (auto dest: in_set_takeD)
    then have "queue_get st t = Some e' \<and> \<not> heldClaim e' \<and> \<not> heldGrant e'"
      using jsm_in_set_iff [OF assms] by (auto simp add: free_def queue_get_def)
    then show False
      using got held by simp
  qed
  then show "queue_get (evict n st) t = Some e"
    using got by (simp add: evict_def Let_def queue_get_filter [OF assms] flip: free_def)
qed

subsection \<open>The contract of the operations that tend entries\<close>

text \<open>Every operation of the claim registry, and the clearing of a planned peer, always returns and leaves answers, pins and the other tables alone.\<close>

locale tending =
  fixes tend :: "relay_tasks \<Rightarrow> queue_error + 'r \<times> relay_tasks"
  assumes tend_effect: "\<exists>r st'. tend st = Inr (r, st') \<and> tended st st'"
begin

lemma tend_returns: "tend st \<noteq> Inl err"
  using tend_effect [of st] by auto

lemma tend_tended: "tend st = Inr (r, st') \<Longrightarrow> tended st st'"
  using tend_effect [of st] by auto

lemma tend_calm: "tend st = Inr (r, st') \<Longrightarrow> calm st st'"
  using tend_tended by (simp add: tended_def)

end

interpretation claims: tending "claim leaseMs t m peer lease now" for leaseMs t m peer lease now
  by unfold_locales (use claim_effect in blast)

interpretation renewals: tending "renew leaseMs t m device now" for leaseMs t m device now
  by unfold_locales (rule renew_effect)

interpretation forwards: tending "grantForward t worker" for t worker
  by unfold_locales (use grantForward_effect in blast)

interpretation called_ends: tending "forwardEnded t True now" for t now
  by unfold_locales (rule forwardEnded_called_effect)

interpretation expiries: tending "expire now" for now
  by unfold_locales (simp add: expire_def expire_all_effect)

interpretation sweeps: tending "sweep now" for now
  by unfold_locales (simp add: sweep_def sweep_all_effect)

interpretation cleared_peers: tending "\<lambda>st. map_sum id (Pair ()) (clear_planned_peer t st)" for t
proof unfold_locales
  show "\<exists>r st'. map_sum id (Pair ()) (clear_planned_peer t st) = Inr (r, st') \<and> tended st st'" for st
    using clear_planned_peer_effect [of t st] by auto
qed

end
