(* ===== verification/TaskInv.thy ===== *)
theory TaskInv
  imports TaskLaws
begin

text \<open>
  The invariant of the relay's task tables: an answered entry is claimed for exactly its answer and was answered by someone its pin and its payment
  allow, the archive holds what the entry holds, and a settlement row of a known task names the claimed answer, once. Every operation keeps it.
\<close>

record answer_job =
  aj_task_id :: string
  aj_receipt :: execution_receipt
  aj_door :: answer_door
  aj_presenter :: "string option option"
  aj_before :: relay_tasks

definition answer_allowed :: "task_entry \<Rightarrow> execution_receipt \<Rightarrow> bool" where
  "answer_allowed e r \<longleftrightarrow> executorAllowed (pinOf e) (rc_motebit_id r) \<and> (tq_settlement_mode e = Some ModeP2p \<longrightarrow> rc_motebit_id r = p2pPayeeOf e)"

definition answer_fits :: "string \<Rightarrow> task_entry \<Rightarrow> bool" where
  "answer_fits t e = (case tq_receipt e of
       None \<Rightarrow> tq_settling e = None \<and> tq_settled e = None
     | Some r \<Rightarrow> tq_settling e = Some (rc_signature r) \<and> rc_signature r \<noteq> [] \<and> answer_allowed e r \<and> receiptRelayTaskId r = t)"

definition archive_fits :: "task_entry \<Rightarrow> archived_answer option \<Rightarrow> bool" where
  "archive_fits e archived = (case archived of
       None \<Rightarrow> tq_receipt e = None \<or> tq_settled e = Some True
     | Some a \<Rightarrow> tq_receipt e = Some (aa_receipt a) \<and> aa_executor_id a = rc_motebit_id (aa_receipt a) \<and> aa_settling a = tq_settling e
         \<and> aa_settled a = (tq_settled e = Some True) \<and> aa_answer_version a = row_version e)"

definition archive_claimed :: "archived_answer \<Rightarrow> bool" where
  "archive_claimed a \<longleftrightarrow> aa_settling a = Some (rc_signature (aa_receipt a))"

definition rows_fit :: "relay_tasks \<Rightarrow> string \<Rightarrow> bool" where
  "rows_fit st t \<longleftrightarrow> length (settlementRowsFor st t) \<le> 1
     \<and> (known_task st t \<longrightarrow> list_all (\<lambda>row. case sr_receipt_signature row of None \<Rightarrow> False | Some s \<Rightarrow> claimed_for st t s) (settlementRowsFor st t))"

definition task_ok :: "string set \<Rightarrow> relay_tasks \<Rightarrow> string \<Rightarrow> bool" where
  "task_ok admitted st t \<longleftrightarrow> (t \<notin> admitted \<longrightarrow> \<not> known_task st t)
     \<and> (\<forall>e. queue_get st t = Some e \<longrightarrow> t \<noteq> [] \<and> answer_fits t e \<and> archive_fits e (jsm_get (rk_answers st) t))
     \<and> (\<forall>a. jsm_get (rk_answers st) t = Some a \<longrightarrow> t \<noteq> [] \<and> archive_claimed a)
     \<and> (t \<noteq> [] \<longrightarrow> rows_fit st t)"

definition job_ok :: "int option \<Rightarrow> string set \<Rightarrow> relay_tasks \<Rightarrow> answer_job \<Rightarrow> bool" where
  "job_ok epoch admitted st j \<longleftrightarrow>
     (answer_checks epoch (aj_before j) (aj_task_id j) (aj_receipt j) (aj_door j) = None \<longrightarrow>
        aj_task_id j \<in> admitted \<and> receiptRelayTaskId (aj_receipt j) = aj_task_id j
        \<and> (\<forall>e. queue_get st (aj_task_id j) = Some e \<longrightarrow> answer_allowed e (aj_receipt j)))"

definition tables_ok :: "int option \<Rightarrow> string set \<Rightarrow> answer_job set \<Rightarrow> relay_tasks \<Rightarrow> bool" where
  "tables_ok epoch admitted jobs st \<longleftrightarrow> jsm_wf (rk_queue st) \<and> jsm_wf (rk_answers st) \<and> (\<forall>t. task_ok admitted st t) \<and> (\<forall>j\<in>jobs. job_ok epoch admitted st j)"

subsection \<open>Changes that leave the answers alone keep it\<close>

lemma answer_allowed_keeps: "keeps e e' \<Longrightarrow> answer_allowed e' r = answer_allowed e r"
  by (simp add: answer_allowed_def keeps_def)

lemma answer_fits_keeps: "keeps e e' \<Longrightarrow> answer_fits t e' = answer_fits t e"
  by (simp add: answer_fits_def keeps_answer answer_allowed_keeps split: option.splits)

lemma archive_fits_keeps: "keeps e e' \<Longrightarrow> archive_fits e' a = archive_fits e a"
  using keeps_answer [of e e'] by (simp add: archive_fits_def keeps_def split: option.splits)

lemma settlementRowsFor_same: "same_records st st' \<Longrightarrow> settlementRowsFor st' t = settlementRowsFor st t"
  by (simp add: same_records_def settlementRowsFor_def)

lemma claimed_answer_fits:
  assumes "answer_fits t e" and "tq_settling e = Some s"
  obtains r where "tq_receipt e = Some r" and "rc_signature r = s"
  using assms by (auto simp add: answer_fits_def split: option.splits)

lemma calm_known:
  assumes "calm st st'" and "known_task st' t"
  shows "known_task st t"
proof -
  have "entry_kept (queue_get st t) (queue_get st' t)" and "rk_answers st' = rk_answers st"
    using assms(1) by (auto simp add: calm_def same_records_def)
  then show ?thesis
    using assms(2) by (auto simp add: known_task_def entry_kept_def split: option.splits)
qed

lemma calm_claimed:
  assumes calm: "calm st st'" and ok: "task_ok admitted st t" and known: "known_task st' t" and claimed: "claimed_for st t s"
  shows "claimed_for st' t s"
proof (cases "queue_get st' t")
  case (Some e')
  have "entry_kept (queue_get st t) (Some e')"
    using calm Some by (metis calm_def)
  then obtain e where "queue_get st t = Some e" and "keeps e e'"
    by (auto simp add: entry_kept_def split: option.splits)
  then show ?thesis
    using claimed Some by (simp add: claimed_for_def keeps_answer)
next
  case None
  have same: "rk_answers st' = rk_answers st"
    using calm by (simp add: calm_def same_records_def)
  then obtain a where a: "jsm_get (rk_answers st) t = Some a"
    using known None by (auto simp add: known_task_def)
  have "aa_settling a = Some s"
  proof (cases "queue_get st t")
    case None
    then show ?thesis
      using claimed a by (simp add: claimed_for_def)
  next
    case (Some e)
    then have "archive_fits e (Some a)"
      using ok a by (simp add: task_ok_def)
    then show ?thesis
      using claimed Some by (simp add: claimed_for_def archive_fits_def)
  qed
  then show ?thesis
    using None a same by (simp add: claimed_for_def)
qed

lemma calm_task_ok:
  assumes calm: "calm st st'" and ok: "task_ok admitted st t"
  shows "task_ok admitted st' t"
proof -
  have same: "same_records st st'" "rk_answers st' = rk_answers st" and kept: "entry_kept (queue_get st t) (queue_get st' t)"
    using calm by (simp_all add: calm_def same_records_def)
  have entry: "t \<noteq> [] \<and> answer_fits t e' \<and> archive_fits e' (jsm_get (rk_answers st') t)" if got: "queue_get st' t = Some e'" for e'
  proof -
    obtain e where "queue_get st t = Some e" and "keeps e e'"
      using kept got by (auto simp add: entry_kept_def split: option.splits)
    then show ?thesis
      using ok same by (simp add: task_ok_def answer_fits_keeps archive_fits_keeps)
  qed
  have rows: "rows_fit st' t" if "t \<noteq> []"
  proof -
    have fit: "rows_fit st t"
      using ok that by (simp add: task_ok_def)
    have "case sr_receipt_signature row of None \<Rightarrow> False | Some s \<Rightarrow> claimed_for st' t s"
      if "known_task st' t" and "row \<in> set (settlementRowsFor st t)" for row
      using fit that calm_known [OF calm] calm_claimed [OF calm ok] by (auto simp add: rows_fit_def list_all_iff split: option.splits)
    then show ?thesis
      using fit settlementRowsFor_same [OF same(1), of t] by (auto simp add: rows_fit_def list_all_iff)
  qed
  show ?thesis
    using ok entry rows same(2) calm_known [OF calm] by (auto simp add: task_ok_def)
qed

lemma calm_job_ok:
  assumes "calm st st'" and "job_ok epoch admitted st j"
  shows "job_ok epoch admitted st' j"
proof -
  have "answer_allowed e' (aj_receipt j)"
    if "queue_get st' (aj_task_id j) = Some e'" and allowed: "\<And>e. queue_get st (aj_task_id j) = Some e \<Longrightarrow> answer_allowed e (aj_receipt j)" for e'
  proof -
    have "entry_kept (queue_get st (aj_task_id j)) (Some e')"
      using assms(1) that(1) by (metis calm_def)
    then show ?thesis
      using allowed by (auto simp add: entry_kept_def answer_allowed_keeps split: option.splits)
  qed
  then show ?thesis
    using assms(2) by (auto simp add: job_ok_def)
qed

lemma calm_tables_ok:
  assumes "calm st st'" and "tables_ok epoch admitted jobs st"
  shows "tables_ok epoch admitted jobs st'"
proof -
  have "rk_answers st' = rk_answers st" and "jsm_wf (rk_queue st) \<longrightarrow> jsm_wf (rk_queue st')"
    using assms(1) by (simp_all add: calm_def same_records_def)
  then show ?thesis
    using assms by (auto simp add: tables_ok_def intro: calm_task_ok calm_job_ok)
qed

context tending
begin

lemma tend_tables_ok: "tend st = Inr (r, st') \<Longrightarrow> tables_ok epoch admitted jobs st \<Longrightarrow> tables_ok epoch admitted jobs st'"
  by (rule calm_tables_ok [OF tend_calm])

end

lemma rows_fit_cong:
  assumes "rows_fit st t" and "settlementRowsFor st' t = settlementRowsFor st t" and "known_task st' t \<Longrightarrow> known_task st t"
    and "\<And>s. claimed_for st t s \<Longrightarrow> claimed_for st' t s"
  shows "rows_fit st' t"
  using assms by (auto simp add: rows_fit_def list_all_iff split: option.splits)

subsection \<open>The write of an answer keeps it\<close>

definition archived_of :: "int \<Rightarrow> task_entry \<Rightarrow> execution_receipt \<Rightarrow> int \<Rightarrow> archived_answer" where
  "archived_of now e r v = \<lparr> aa_executor_id = rc_motebit_id r, aa_receipt = r, aa_settling = tq_settling e, aa_settled = (tq_settled e = Some True),
     aa_answer_version = v, aa_answered_at = now \<rparr>"

definition answer_put :: "int \<Rightarrow> string \<Rightarrow> task_entry \<Rightarrow> execution_receipt \<Rightarrow> int \<Rightarrow> relay_tasks \<Rightarrow> relay_tasks" where
  "answer_put now t e r v st = (put_entry t (stored_entry v e) st)\<lparr>rk_answers := jsm_set t (archived_of now e r v) (rk_answers st)\<rparr>"

lemma answer_put_fields [simp]:
  "queue_get (answer_put now t e r v st) t' = (if t' = t then Some (stored_entry v e) else queue_get st t')"
  "jsm_get (rk_answers (answer_put now t e r v st)) t' = (if t' = t then Some (archived_of now e r v) else jsm_get (rk_answers st) t')"
  "settlementRowsFor (answer_put now t e r v st) t' = settlementRowsFor st t'"
  "rk_routes (answer_put now t e r v st) = rk_routes st"
  by (simp_all add: answer_put_def put_entry_def queue_get_def jsm_get_set settlementRowsFor_def)

lemma answer_put_wf:
  "jsm_wf (rk_queue st) \<Longrightarrow> jsm_wf (rk_queue (answer_put now t e r v st))" "jsm_wf (rk_answers st) \<Longrightarrow> jsm_wf (rk_answers (answer_put now t e r v st))"
  by (simp_all add: answer_put_def put_entry_def)

lemma writeAnswer_write:
  assumes got: "queue_get st t = Some e" and guard: "frozen_guard st t e (mutate e)" and r: "tq_receipt (mutate e) = Some r"
    and archived: "archive_fits e (jsm_get (rk_answers st) t)"
  shows "writeAnswer st now t (row_version e) mutate
    = Inr (Some ((mutate e)\<lparr>tq_answer_version := Some (row_version e + 1)\<rparr>), answer_put now t (mutate e) r (row_version e + 1) st)"
proof -
  define e' where "e' = (mutate e)\<lparr>tq_answer_version := Some (row_version e + 1)\<rparr>"
  define st1 where "st1 = put_entry t (stored_entry (row_version e + 1) (mutate e)) st"
  define a where "a = archived_of now (mutate e) r (row_version e + 1)"
  have "stored_entry (row_version e + 1) e' = stored_entry (row_version e + 1) (mutate e)"
    by (simp add: e'_def stored_entry_def)
  moreover have "frozen_guard st t e e'"
    using guard by (simp add: e'_def frozen_guard_def)
  ultimately have "writeRow st t e' (row_version e + 1) (row_version e) = Inr (True, st1)"
    using got by (simp add: writeRow_def update_guard_def st1_def put_entry_def)
  moreover have "archive_answer t a st1 = answer_put now t (mutate e) r (row_version e + 1) st"
    using archived by (auto simp add: archive_answer_def st1_def a_def put_entry_def answer_put_def archive_fits_def archived_of_def split: option.splits)
  moreover have "tq_receipt e' = Some r" "tq_settling e' = tq_settling (mutate e)" "tq_settled e' = tq_settled (mutate e)"
    using r by (simp_all add: e'_def)
  ultimately show ?thesis
    using got by (simp add: writeAnswer_def Let_def a_def archived_of_def flip: e'_def)
qed

lemma answer_put_known: "known_task (answer_put now t e' r v st) t' \<longleftrightarrow> t' = t \<or> known_task st t'"
  by (auto simp add: known_task_def)

lemma answer_put_claimed: "t' \<noteq> t \<Longrightarrow> claimed_for (answer_put now t e' r v st) t' s = claimed_for st t' s"
  by (simp add: claimed_for_def split: option.splits)

lemma answer_put_ok:
  assumes ok: "tables_ok epoch admitted jobs st" and got: "queue_get st t = Some e" and fits: "answer_fits t e'" and r: "tq_receipt e' = Some r"
    and pins: "pinOf e' = pinOf e" "p2pPayeeOf e' = p2pPayeeOf e" "tq_settlement_mode e' = tq_settlement_mode e"
    and claim: "settlementRowsFor st t \<noteq> [] \<Longrightarrow> tq_settling e' = tq_settling e"
  shows "tables_ok epoch admitted jobs (answer_put now t e' r v st)"
proof -
  let ?st' = "answer_put now t e' r v st"
  have task: "task_ok admitted st t'" for t'
    using ok by (simp add: tables_ok_def)
  have known: "known_task st t" and claimed: "claimed_for st t s \<longleftrightarrow> tq_settling e = Some s" for s
    using got by (simp_all add: known_task_def claimed_for_def)
  have fits': "answer_fits t (stored_entry v e')"
    using fits by (simp add: answer_fits_def answer_allowed_def split: option.splits)
  have "rows_fit ?st' t"
  proof -
    have "t \<noteq> []" and fit: "rows_fit st t"
      using task [of t] got by (auto simp add: task_ok_def)
    have "claimed_for ?st' t s \<longleftrightarrow> tq_settling e' = Some s" for s
      by (simp add: claimed_for_def)
    then show ?thesis
      using fit claim known claimed by (cases "settlementRowsFor st t = []") (auto simp add: rows_fit_def list_all_iff split: option.splits)
  qed
  moreover have "archive_claimed (archived_of now e' r v)"
    using fits r by (simp add: archive_claimed_def archived_of_def answer_fits_def)
  moreover have "archive_fits (stored_entry v e') (Some (archived_of now e' r v))"
    using r by (simp add: archive_fits_def archived_of_def)
  ultimately have "task_ok admitted ?st' t"
    using task [of t] got known fits' by (auto simp add: task_ok_def)
  moreover have "task_ok admitted ?st' t'" if "t' \<noteq> t" for t'
  proof -
    have "rows_fit ?st' t'" if "rows_fit st t'"
      using that \<open>t' \<noteq> t\<close> by (intro rows_fit_cong [OF that]) (simp_all add: answer_put_known answer_put_claimed)
    then show ?thesis
      using task [of t'] that by (simp add: task_ok_def answer_put_known)
  qed
  ultimately have tasks: "task_ok admitted ?st' t'" for t'
    by (cases "t' = t") auto
  have "job_ok epoch admitted ?st' j" if "j \<in> jobs" for j
  proof -
    have "job_ok epoch admitted st j"
      using ok that by (simp add: tables_ok_def)
    then show ?thesis
      using got pins by (auto simp add: job_ok_def answer_allowed_def split: if_splits)
  qed
  then show ?thesis
    using ok tasks by (simp add: tables_ok_def answer_put_wf)
qed

lemma unanswered_entry:
  assumes ok: "tables_ok epoch admitted jobs st" and got: "queue_get st t = Some e" and r: "tq_receipt e = None"
  shows "tq_settling e = None" and "tq_settled e = None" and "settlementRowsFor st t = []"
proof -
  have task: "task_ok admitted st t"
    using ok by (simp add: tables_ok_def)
  then show settling: "tq_settling e = None" and "tq_settled e = None"
    using got r by (simp_all add: task_ok_def answer_fits_def)
  have "t \<noteq> []" and "known_task st t"
    using task got by (simp_all add: task_ok_def known_task_def)
  then have "row \<notin> set (settlementRowsFor st t)" for row
    using task got settling by (auto simp add: task_ok_def rows_fit_def list_all_iff claimed_for_def split: option.splits)
  then show "settlementRowsFor st t = []"
    by (cases "settlementRowsFor st t") auto
qed

lemma answered_entry_frozen:
  assumes "tables_ok epoch admitted jobs st" and "queue_get st t = Some e" and "tq_receipt e = Some r"
  shows "tq_settling e = Some (rc_signature r)" and "rc_signature r \<noteq> []" and "answer_allowed e r" and "receiptRelayTaskId r = t" and "answerFrozen st e t"
proof -
  have "answer_fits t e"
    using assms(1,2) by (simp add: tables_ok_def task_ok_def)
  then show "tq_settling e = Some (rc_signature r)" and "rc_signature r \<noteq> []" and "answer_allowed e r" and "receiptRelayTaskId r = t" and "answerFrozen st e t"
    using assms(3) by (simp_all add: answer_fits_def answerFrozen_def)
qed

lemma answered_entry_fields [simp]:
  "tq_receipt (answered_entry r d k e) = Some r" "tq_settling (answered_entry r d k e) = Some (rc_signature r)"
  "tq_settled (answered_entry r d k e) = tq_settled e"
  "pinOf (answered_entry r d k e) = pinOf e" "p2pPayeeOf (answered_entry r d k e) = p2pPayeeOf e"
  "tq_settlement_mode (answered_entry r d k e) = tq_settlement_mode e"
  by (simp_all add: answered_entry_def pinOf_def p2pPayeeOf_def split: option.splits)

definition taken :: "int \<Rightarrow> int \<Rightarrow> execution_receipt \<Rightarrow> answer_door \<Rightarrow> task_entry \<Rightarrow> answer_verdict" where
  "taken now retainMs r d e = Took \<lparr> at_entry = (answered_entry r d (now + retainMs) e)\<lparr>tq_answer_version := Some (row_version e + 1)\<rparr>,
     at_first = True, at_replaced = False, at_repeat = False \<rparr>"

lemma answer_write_first:
  assumes ok: "tables_ok epoch admitted jobs st" and got: "queue_get st t = Some e" and none: "tq_receipt e = None"
    and unclaimed: "\<And>did. p = Some did \<Longrightarrow> \<not> claimRefusesAnswer e (answeringDid e did r)"
  shows "answer_write now retainMs t r d p st
    = Inr (taken now retainMs r d e, answer_put now t (answered_entry r d (now + retainMs) e) r (row_version e + 1) st)"
proof -
  note bare = unanswered_entry [OF ok got none]
  have "frozen_guard st t e (answered_entry r d (now + retainMs) e)"
    using bare by (simp add: frozen_guard_def names_other_def)
  moreover have "archive_fits e (jsm_get (rk_answers st) t)"
    using ok got by (simp add: tables_ok_def task_ok_def)
  ultimately have "writeAnswer st now t (row_version e) (answered_entry r d (now + retainMs))
    = Inr (Some ((answered_entry r d (now + retainMs) e)\<lparr>tq_answer_version := Some (row_version e + 1)\<rparr>),
           answer_put now t (answered_entry r d (now + retainMs) e) r (row_version e + 1) st)"
    using got by (intro writeAnswer_write) simp_all
  moreover have "answerRule (tq_receipt e) (answerFrozen st e t) r = RuleTake"
    using none bare by (simp add: answerRule_def answerFrozen_def)
  moreover have "\<not> (case p of None \<Rightarrow> False | Some did \<Rightarrow> claimRefusesAnswer e (answeringDid e did r))"
    using unclaimed by (simp split: option.splits)
  ultimately show ?thesis
    using got none bare by (simp add: answer_write_def Let_def write_took_def took_def taken_def)
qed

lemma answer_write_again:
  assumes ok: "tables_ok epoch admitted jobs st" and got: "queue_get st t = Some e" and some: "tq_receipt e = Some r0"
  shows "\<exists>v. answer_write now retainMs t r d p st = Inr (v, st) \<and> (\<forall>took. v = Took took \<longrightarrow> at_repeat took \<and> \<not> at_first took \<and> \<not> at_replaced took)"
proof -
  note frozen = answered_entry_frozen [OF ok got some]
  have "answerRule (tq_receipt e) (answerFrozen st e t) r = RuleRepeat \<or> answerRule (tq_receipt e) (answerFrozen st e t) r = RuleAnswered"
    using frozen(5) by (simp add: answerRule_def)
  then show ?thesis
    using got some frozen by (auto simp add: answer_write_def Let_def)
qed

lemma answer_write_ok:
  assumes ok: "tables_ok epoch admitted jobs st" and res: "answer_write now retainMs t r d p st = Inr (v, st')"
    and sig: "rc_signature r \<noteq> []" and bound: "receiptRelayTaskId r = t" and allowed: "\<And>e. queue_get st t = Some e \<Longrightarrow> answer_allowed e r"
  shows "st' = st \<or> (\<exists>e. queue_get st t = Some e \<and> tq_receipt e = None \<and> v = taken now retainMs r d e
    \<and> st' = answer_put now t (answered_entry r d (now + retainMs) e) r (row_version e + 1) st \<and> tables_ok epoch admitted jobs st')"
proof (cases "queue_get st t")
  case None
  then show ?thesis
    using res by (simp add: answer_write_def)
next
  case (Some e)
  note got = Some
  show ?thesis
  proof (cases "tq_receipt e")
    case (Some r0)
    then show ?thesis
      using answer_write_again [OF ok got Some] res by (metis Inr_inject prod.inject)
  next
    case None
    show ?thesis
    proof (cases "\<exists>did. p = Some did \<and> claimRefusesAnswer e (answeringDid e did r)")
      case True
      then show ?thesis
        using res got by (auto simp add: answer_write_def)
    next
      case False
      then have st': "st' = answer_put now t (answered_entry r d (now + retainMs) e) r (row_version e + 1) st" and v: "v = taken now retainMs r d e"
        using answer_write_first [OF ok got None, of p r now retainMs d] res by auto
      have "answer_fits t (answered_entry r d (now + retainMs) e)"
        using sig bound allowed [OF got] by (simp add: answer_fits_def answer_allowed_def)
      then have "tables_ok epoch admitted jobs st'"
        unfolding st' using unanswered_entry(3) [OF ok got None] by (intro answer_put_ok [OF ok got]) simp_all
      then show ?thesis
        using st' v got None by auto
    qed
  qed
qed

lemma settled_mark_fields [simp]:
  "pinOf (e\<lparr>tq_settled := x, tq_settling := y\<rparr>) = pinOf e" "p2pPayeeOf (e\<lparr>tq_settled := x, tq_settling := y\<rparr>) = p2pPayeeOf e"
  by (simp_all add: pinOf_def p2pPayeeOf_def split: option.splits)

lemma markTaskSettled_effect:
  assumes ok: "tables_ok epoch admitted jobs st"
  shows "\<exists>st'. markTaskSettled now t sig st = Inr st' \<and> tables_ok epoch admitted jobs st'
    \<and> (st' = st \<or> (\<exists>e r. queue_get st t = Some e \<and> tq_receipt e = Some r \<and>
        st' = answer_put now t (e\<lparr>tq_settled := Some True, tq_settling := tq_settling e\<rparr>) r (row_version e + 1) st))"
proof (cases "\<exists>e. queue_get st t = Some e \<and> tq_settled e \<noteq> Some True \<and> tq_settling e = Some sig")
  case False
  then show ?thesis
    using ok by (auto simp add: markTaskSettled_def split: option.splits)
next
  case True
  then obtain e where got: "queue_get st t = Some e" and open_: "tq_settled e \<noteq> Some True" and settling: "tq_settling e = Some sig"
    by blast
  define e' where "e' = e\<lparr>tq_settled := Some True, tq_settling := Some sig\<rparr>"
  have fits: "answer_fits t e" and archived: "archive_fits e (jsm_get (rk_answers st) t)"
    using ok got by (simp_all add: tables_ok_def task_ok_def)
  obtain r where r: "tq_receipt e = Some r" and sig: "rc_signature r = sig"
    using fits settling by (rule claimed_answer_fits)
  have "frozen_guard st t e e'"
    using settling by (simp add: frozen_guard_def e'_def)
  then have "writeAnswer st now t (row_version e) (\<lambda>e. e\<lparr>tq_settled := Some True, tq_settling := Some sig\<rparr>)
    = Inr (Some (e'\<lparr>tq_answer_version := Some (row_version e + 1)\<rparr>), answer_put now t e' r (row_version e + 1) st)"
    unfolding e'_def using r archived by (intro writeAnswer_write got) simp_all
  then have res: "markTaskSettled now t sig st = Inr (answer_put now t e' r (row_version e + 1) st)"
    using got open_ settling by (simp add: markTaskSettled_def)
  have "answer_fits t e'"
    using fits r sig settling by (simp add: answer_fits_def e'_def answer_allowed_def)
  then have "tables_ok epoch admitted jobs (answer_put now t e' r (row_version e + 1) st)"
    using r settling by (intro answer_put_ok [OF ok got]) (simp_all add: e'_def)
  moreover have "e' = e\<lparr>tq_settled := Some True, tq_settling := tq_settling e\<rparr>"
    using settling by (simp add: e'_def)
  ultimately show ?thesis
    using res got r by blast
qed

lemma claimStoredAnswer_effect:
  assumes ok: "tables_ok epoch admitted jobs st"
  shows "\<exists>x. claimStoredAnswer now t d st = Inr (x, st)"
proof (cases "queue_get st t")
  case None
  then show ?thesis
    by (simp add: claimStoredAnswer_def)
next
  case (Some e)
  show ?thesis
  proof (cases "tq_receipt e")
    case None
    then show ?thesis
      using Some by (simp add: claimStoredAnswer_def)
  next
    case (Some r)
    then show ?thesis
      using answered_entry_frozen [OF ok \<open>queue_get st t = Some e\<close> Some] \<open>queue_get st t = Some e\<close> by (simp add: claimStoredAnswer_def)
  qed
qed

subsection \<open>Settlement rows, routes and admissions keep it\<close>

lemma insert_settlement_tables:
  assumes "insert_settlement table row st = Inr st'"
  shows "rk_queue st' = rk_queue st" and "rk_answers st' = rk_answers st" and "rk_routes st' = rk_routes st"
    and "t \<noteq> sr_task_id row \<Longrightarrow> settlementRowsFor st' t = settlementRowsFor st t"
    and "sr_task_id row \<noteq> [] \<Longrightarrow> settlementRowsFor st (sr_task_id row) = [] \<and> settlementRowsFor st' (sr_task_id row) = [row]"
    and "sr_task_id row \<noteq> [] \<Longrightarrow> known_task st (sr_task_id row) \<Longrightarrow> \<exists>s. sr_receipt_signature row = Some s \<and> claimed_for st (sr_task_id row) s"
  using assms by (auto simp add: insert_settlement_def Let_def settlementRowsFor_def split: if_splits settlement_table.splits option.splits)

lemma insert_settlement_ok:
  assumes ok: "tables_ok epoch admitted jobs st" and ins: "insert_settlement table row st = Inr st'"
  shows "tables_ok epoch admitted jobs st'"
proof -
  note same = insert_settlement_tables [OF ins]
  have get: "queue_get st' t = queue_get st t" for t
    using same(1) by (simp add: queue_get_def)
  then have known: "known_task st' t = known_task st t" and claimed: "claimed_for st' t s = claimed_for st t s" for t s
    using same(2) by (simp_all add: known_task_def claimed_for_def split: option.splits)
  have "rows_fit st' t" if "rows_fit st t" "t \<noteq> []" for t
  proof (cases "t = sr_task_id row")
    case True
    then show ?thesis
      using that same(5,6) known claimed by (auto simp add: rows_fit_def list_all_iff)
  next
    case False
    then show ?thesis
      using that same(4) known claimed by (intro rows_fit_cong [OF that(1)]) simp_all
  qed
  then show ?thesis
    using ok get known same(1,2) by (simp add: tables_ok_def task_ok_def job_ok_def)
qed

lemma cleanupTaskRoutes_ok:
  assumes ok: "tables_ok epoch admitted jobs st"
  shows "tables_ok epoch admitted jobs (cleanupTaskRoutes now st)"
proof -
  define old where "old = (\<lambda>(i, a :: archived_answer). aa_answered_at a < now - TASK_ROUTE_RETENTION_MS \<and> \<not> (aa_settling a \<noteq> None \<and> \<not> aa_settled a)
    \<and> \<not> (\<not> aa_settled a \<and> jsm_has (rk_queue st) i))"
  let ?st' = "cleanupTaskRoutes now st"
  have wf: "jsm_wf (rk_answers st)"
    using ok by (simp add: tables_ok_def)
  have get: "queue_get ?st' t = queue_get st t" and rows: "settlementRowsFor ?st' t = settlementRowsFor st t" and queue: "rk_queue ?st' = rk_queue st" for t
    by (simp_all add: cleanupTaskRoutes_def Let_def queue_get_def settlementRowsFor_def)
  have answers: "rk_answers ?st' = filter (\<lambda>x. \<not> old x) (rk_answers st)"
    unfolding cleanupTaskRoutes_def Let_def old_def by (auto intro!: filter_cong)
  have kept: "jsm_get (rk_answers ?st') t = (case jsm_get (rk_answers st) t of None \<Rightarrow> None | Some a \<Rightarrow> if \<not> old (t, a) then Some a else None)" for t
    unfolding answers by (rule jsm_get_filter [OF wf])
  have "task_ok admitted ?st' t" for t
  proof -
    have task: "task_ok admitted st t"
      using ok by (simp add: tables_ok_def)
    have known: "known_task ?st' t \<Longrightarrow> known_task st t"
      using kept [of t] get by (auto simp add: known_task_def split: option.splits)
    have "archive_fits e (jsm_get (rk_answers ?st') t)" if "queue_get st t = Some e" and "archive_fits e (jsm_get (rk_answers st) t)" for e
      using that kept [of t] by (auto simp add: archive_fits_def old_def jsm_has_iff queue_get_def split: option.splits if_splits)
    moreover have "archive_claimed a \<and> t \<noteq> []" if "jsm_get (rk_answers ?st') t = Some a" for a
      using task that kept [of t] by (auto simp add: task_ok_def split: option.splits if_splits)
    moreover have "rows_fit ?st' t" if fit: "rows_fit st t"
    proof (cases "known_task ?st' t")
      case True
      have "claimed_for ?st' t s" if "claimed_for st t s" for s
        using that True kept [of t] get by (auto simp add: claimed_for_def known_task_def split: option.splits if_splits)
      then show ?thesis
        using known rows by (intro rows_fit_cong [OF fit]) simp_all
    next
      case False
      then show ?thesis
        using fit rows by (simp add: rows_fit_def)
    qed
    ultimately show ?thesis
      using task known get by (auto simp add: task_ok_def)
  qed
  then show ?thesis
    using ok get queue answers wf by (simp add: tables_ok_def job_ok_def jsm_wf_filter)
qed

lemma recordTaskRoute_calm: "calm st (recordTaskRoute t x p o' f now st)"
  by (simp add: recordTaskRoute_def calm_def same_records_def queue_get_def)

lemma recordTaskRoute_tables [simp]:
  "queue_get (recordTaskRoute t x p o' f now st) t' = queue_get st t'" "rk_answers (recordTaskRoute t x p o' f now st) = rk_answers st"
  "settlementRowsFor (recordTaskRoute t x p o' f now st) t' = settlementRowsFor st t'"
  "set (rk_routes st) \<subseteq> set (rk_routes (recordTaskRoute t x p o' f now st))"
  by (auto simp add: recordTaskRoute_def queue_get_def settlementRowsFor_def)

definition unanswered_new :: "task_entry \<Rightarrow> bool" where
  "unanswered_new e \<longleftrightarrow> tq_receipt e = None \<and> tq_settling e = None \<and> tq_settled e = None \<and> tq_answer_version e = None
     \<and> \<not> terminal (tk_status (tq_task e))"

lemma queue_set_new:
  assumes "queue_get st t = None" and "unanswered_new e"
  shows "queue_set st t e = Inr (put_entry t (stored_entry 0 e) st)"
  using assms by (simp add: queue_set_def unanswered_new_def put_entry_def)

lemma put_new_ok:
  assumes ok: "tables_ok epoch admitted jobs st" and fresh: "t \<notin> admitted" "t \<noteq> []" and rows: "settlementRowsFor st t = []" and e: "unanswered_new e"
  shows "tables_ok epoch (insert t admitted) jobs (put_entry t (stored_entry 0 e) st)"
proof -
  let ?st' = "put_entry t (stored_entry 0 e) st"
  have task: "task_ok admitted st t'" for t'
    using ok by (simp add: tables_ok_def)
  have answers: "rk_answers ?st' = rk_answers st" and same: "settlementRowsFor ?st' t' = settlementRowsFor st t'" for t'
    by (simp_all add: put_entry_def settlementRowsFor_def)
  have unknown: "jsm_get (rk_answers st) t = None"
    using task [of t] fresh by (simp add: task_ok_def known_task_def)
  have "answer_fits t (stored_entry 0 e)" and "archive_fits (stored_entry 0 e) None"
    using e by (simp_all add: answer_fits_def archive_fits_def unanswered_new_def)
  then have new: "task_ok (insert t admitted) ?st' t"
    using fresh rows unknown answers same by (simp add: task_ok_def queue_get_put rows_fit_def)
  have "task_ok (insert t admitted) ?st' t'" if "t' \<noteq> t" for t'
  proof -
    have "rows_fit ?st' t'" if "rows_fit st t'"
      using \<open>t' \<noteq> t\<close> same answers by (intro rows_fit_cong [OF that]) (auto simp add: known_task_def claimed_for_def queue_get_put split: option.splits)
    then show ?thesis
      using task [of t'] that answers by (auto simp add: task_ok_def queue_get_put known_task_def)
  qed
  then have "task_ok (insert t admitted) ?st' t'" for t'
    using new by (cases "t' = t") auto
  moreover have "job_ok epoch (insert t admitted) ?st' j" if "j \<in> jobs" for j
  proof -
    have "job_ok epoch admitted st j"
      using ok that by (simp add: tables_ok_def)
    then show ?thesis
      using fresh by (auto simp add: job_ok_def queue_get_put)
  qed
  ultimately show ?thesis
    using ok answers by (simp add: tables_ok_def)
qed

lemma queued_entry_new: "unanswered_new (queued_entry (submitted_task m now caps) exp sub orig mode peer target pin grant)"
  by (simp add: unanswered_new_def queued_entry_def submitted_task_def terminal_def)

lemma granted_entry_new: "unanswered_new e \<Longrightarrow> unanswered_new (grantToSubmitter sub e)"
  by (simp add: unanswered_new_def grantToSubmitter_def Let_def terminal_def)

lemma granted_entry_closed: "\<not> openTask (grantToSubmitter sub e)"
  by (simp add: openTask_def grantToSubmitter_def Let_def)

end
