(* ===== verification/TaskRuns.thy ===== *)
theory TaskRuns
  imports TaskInv
begin

text \<open>
  Runs of the relay over its task tables. \<open>task_step\<close> is one uninterrupted piece of the relay: an admission, a claim, the parts of the relay's own forward, a
  periodic pass, the two parts of an answer, a settlement row, a restart. Pieces of different requests interleave freely, and every piece reads a
  clock of its own. Beside the tables a world counts what may have executed each task. Three presenters take the one grant: a body whose claim was granted, a submitter that
  chose to present the task, and the relay's own forward, once its call went out. What the relay hands out without the grant is counted apart in \<open>tw_handouts\<close>: the dispatch
  token in the response of a submission that nothing routed, a token minted again when such a submission is retried, and a forward to a peer relay.
\<close>

record task_world =
  tw_tables :: relay_tasks
  tw_admitted :: "string set"
  tw_runs :: "string list"
  tw_forwards :: "(string \<times> bool) list" \<comment> \<open>under way, and whether the call was sent\<close>
  tw_jobs :: "answer_job list"
  tw_handouts :: "string list" \<comment> \<open>presented without the grant\<close>

definition empty_tables :: relay_tasks where
  "empty_tables = \<lparr> rk_queue = [], rk_answers = [], rk_settlements = [], rk_federation_settlements = [], rk_routes = [], rk_leased = [] \<rparr>"

definition fresh_tasks :: task_world where
  "fresh_tasks = \<lparr> tw_tables = empty_tables, tw_admitted = {}, tw_runs = [], tw_forwards = [], tw_jobs = [], tw_handouts = [] \<rparr>"

abbreviation admits :: "string \<Rightarrow> task_world \<Rightarrow> bool" where
  \<comment> \<open>an id the relay has not given out, and nothing of another relay was settled under\<close>
  "admits t w \<equiv> t \<noteq> [] \<and> t \<notin> tw_admitted w \<and> settlementRowsFor (tw_tables w) t = []"

inductive task_step :: "int option \<Rightarrow> (answer_door \<Rightarrow> execution_receipt \<Rightarrow> answer_refusal + string) \<Rightarrow> task_world \<Rightarrow> task_world \<Rightarrow> bool" for epoch sigcheck where
  Admit: "admits t w \<Longrightarrow>
    admit_task t (queued_entry (submitted_task m now caps) expires submitter None mode peer target pin grant) presents now (tw_tables w) = Inr st' \<Longrightarrow>
    task_step epoch sigcheck w (w\<lparr>tw_tables := st', tw_admitted := insert t (tw_admitted w), tw_runs := (if presents then t # tw_runs w else tw_runs w)\<rparr>)"
| Admit_forwarded: "admits t w \<Longrightarrow> enqueue_forwarded t agent origin submitter caps paid ttl now (tw_tables w) = Inr st' \<Longrightarrow>
    task_step epoch sigcheck w (w\<lparr>tw_tables := st', tw_admitted := insert t (tw_admitted w)\<rparr>)"
| Claim: "claim leaseMs t m peer lease now (tw_tables w) = Inr (verdict, st') \<Longrightarrow>
    task_step epoch sigcheck w (w\<lparr>tw_tables := st', tw_runs := (case verdict of Granted _ \<Rightarrow> t # tw_runs w | Refused _ \<Rightarrow> tw_runs w)\<rparr>)"
| Renew: "renew leaseMs t m device now (tw_tables w) = Inr (renewed, st') \<Longrightarrow> task_step epoch sigcheck w (w\<lparr>tw_tables := st'\<rparr>)"
| Forward: "present_forward t worker now (tw_tables w) = Inr (sent, st') \<Longrightarrow>
    task_step epoch sigcheck w (w\<lparr>tw_tables := st', tw_forwards := (if sent then (t, False) # tw_forwards w else tw_forwards w)\<rparr>)"
| Forward_calls: "(t, c) \<in> set (tw_forwards w) \<Longrightarrow> task_step epoch sigcheck w (w\<lparr>tw_forwards := (t, c') # remove1 (t, c) (tw_forwards w)\<rparr>)"
| Forward_ends: "(t, c) \<in> set (tw_forwards w) \<Longrightarrow> forwardEnded t c now (tw_tables w) = Inr (released, st') \<Longrightarrow>
    task_step epoch sigcheck w (w\<lparr>tw_tables := st', tw_forwards := remove1 (t, c) (tw_forwards w), tw_runs := (if c then t # tw_runs w else tw_runs w)\<rparr>)"
| Ttl_pass: "sweepTaskLifecycle now (tw_tables w) = Inr st' \<Longrightarrow> task_step epoch sigcheck w (w\<lparr>tw_tables := st'\<rparr>)"
| Sweep: "sweep now (tw_tables w) = Inr (lost, st') \<Longrightarrow> task_step epoch sigcheck w (w\<lparr>tw_tables := st'\<rparr>)"
| Evict: "task_step epoch sigcheck w (w\<lparr>tw_tables := evict maxSize (tw_tables w)\<rparr>)"
| Clean_routes: "task_step epoch sigcheck w (w\<lparr>tw_tables := cleanupTaskRoutes now (tw_tables w)\<rparr>)"
| Clear_peer: "clear_planned_peer t (tw_tables w) = Inr st' \<Longrightarrow> task_step epoch sigcheck w (w\<lparr>tw_tables := st'\<rparr>)"
| Route: "task_step epoch sigcheck w (w\<lparr>tw_tables := recordTaskRoute t executor peer RouteAdmission [] now (tw_tables w)\<rparr>)"
| Incidental_token: "t \<in> tw_admitted w \<Longrightarrow>
    task_step epoch sigcheck w (w\<lparr>tw_tables := recordTaskRoute t worker [] RouteAdmission [] now (tw_tables w), tw_handouts := t # tw_handouts w\<rparr>)"
| Token_again: "queue_get (tw_tables w) t = Some e \<Longrightarrow> tq_receipt e = None \<Longrightarrow> task_step epoch sigcheck w (w\<lparr>tw_handouts := t # tw_handouts w\<rparr>)"
| Peer_forward: "t \<in> tw_admitted w \<Longrightarrow> peer \<noteq> [] \<Longrightarrow>
    task_step epoch sigcheck w (w\<lparr>tw_tables := recordTaskRoute t worker peer RouteAdmission [] now (tw_tables w), tw_handouts := t # tw_handouts w\<rparr>)"
| Answer_arrives: "task_step epoch sigcheck w (w\<lparr>tw_jobs :=
      \<lparr> aj_task_id = t, aj_receipt = r, aj_door = d, aj_presenter = p, aj_before = tw_tables w \<rparr> # tw_jobs w\<rparr>)"
| Answer: "j \<in> set (tw_jobs w) \<Longrightarrow>
    answerTask epoch sigcheck now retainMs (aj_task_id j) (aj_receipt j) (aj_door j) (aj_presenter j) (aj_before j) (tw_tables w) = Inr (verdict, st') \<Longrightarrow>
    task_step epoch sigcheck w (w\<lparr>tw_tables := st', tw_jobs := remove1 j (tw_jobs w)\<rparr>)"
| Claim_stored: "claimStoredAnswer now t d (tw_tables w) = Inr (entry, st') \<Longrightarrow> task_step epoch sigcheck w (w\<lparr>tw_tables := st'\<rparr>)"
| Settle: "insert_settlement table row (tw_tables w) = Inr st' \<Longrightarrow> task_step epoch sigcheck w (w\<lparr>tw_tables := st'\<rparr>)"
| Mark_settled: "markTaskSettled now t sig (tw_tables w) = Inr st' \<Longrightarrow> task_step epoch sigcheck w (w\<lparr>tw_tables := st'\<rparr>)"
| Restart: "task_step epoch sigcheck w (w\<lparr>tw_tables := adoptLeases (tw_tables w), tw_forwards := [], tw_jobs := [],
      tw_runs := map fst (filter snd (tw_forwards w)) @ tw_runs w\<rparr>)"

definition executions :: "task_world \<Rightarrow> string \<Rightarrow> nat" where
  "executions w t = count_list (tw_runs w) t + count_list (tw_forwards w) (t, True) + count_list (tw_handouts w) t"

definition grants :: "task_world \<Rightarrow> string \<Rightarrow> nat" where
  "grants w t = count_list (tw_runs w) t + count_list (map fst (tw_forwards w)) t"

definition grants_ok :: "task_world \<Rightarrow> string \<Rightarrow> bool" where
  "grants_ok w t \<longleftrightarrow> grants w t \<le> 1 \<and> (t \<notin> tw_admitted w \<longrightarrow> grants w t = 0)
     \<and> (\<forall>e. queue_get (tw_tables w) t = Some e \<longrightarrow> openTask e \<longrightarrow> grants w t = 0)"

definition tasks_ok :: "int option \<Rightarrow> task_world \<Rightarrow> bool" where
  "tasks_ok epoch w \<longleftrightarrow> tables_ok epoch (tw_admitted w) (set (tw_jobs w)) (tw_tables w) \<and> (\<forall>t. grants_ok w t)"

subsection \<open>Grants\<close>

definition closing :: "relay_tasks \<Rightarrow> relay_tasks \<Rightarrow> bool" where
  "closing st st' \<longleftrightarrow> (\<forall>t e'. queue_get st' t = Some e' \<longrightarrow> openTask e' \<longrightarrow> (\<exists>e. queue_get st t = Some e \<and> openTask e))"

lemma calm_closing: "calm st st' \<Longrightarrow> closing st st'"
  by (fastforce simp add: calm_def closing_def entry_kept_def split: option.splits)

lemma same_queue_closing: "(\<And>t. queue_get st' t = queue_get st t) \<Longrightarrow> closing st st'"
  by (simp add: closing_def)

lemma closing_refl [simp]: "closing st st"
  by (simp add: closing_def)

lemma answer_put_closing: "\<not> openTask e' \<Longrightarrow> closing st (answer_put now t e' r v st)"
  by (simp add: closing_def)

lemma grants_ok_local:
  assumes ok: "grants_ok w t" and same: "grants w' t = grants w t" and sub: "tw_admitted w \<subseteq> tw_admitted w'"
    and closing: "\<And>e'. queue_get (tw_tables w') t = Some e' \<Longrightarrow> openTask e' \<Longrightarrow> \<exists>e. queue_get (tw_tables w) t = Some e \<and> openTask e"
  shows "grants_ok w' t"
proof -
  have "grants w t = 0" if "queue_get (tw_tables w') t = Some e'" and "openTask e'" for e'
    using ok closing [OF that] unfolding grants_ok_def by blast
  moreover have "grants w t \<le> 1" and "t \<notin> tw_admitted w' \<Longrightarrow> grants w t = 0"
    using ok subsetD [OF sub, of t] by (simp_all only: grants_ok_def) blast+
  ultimately show ?thesis
    unfolding grants_ok_def same by iprover
qed

lemma grants_ok_same:
  assumes "grants_ok w t" and "closing (tw_tables w) (tw_tables w')" and "grants w' t = grants w t" and "tw_admitted w \<subseteq> tw_admitted w'"
  shows "grants_ok w' t"
  using assms(2) by (intro grants_ok_local [OF assms(1,3,4)]) (simp add: closing_def)

lemma grants_ok_closing:
  assumes "\<And>t. grants_ok w t" and "closing (tw_tables w) (tw_tables w')" and "tw_runs w' = tw_runs w" and "tw_forwards w' = tw_forwards w"
    and "tw_admitted w \<subseteq> tw_admitted w'"
  shows "grants_ok w' t"
  by (rule grants_ok_same [OF assms(1,2) _ assms(5)]) (simp add: grants_def assms(3,4))

lemma grants_ok_more:
  assumes ok: "\<And>t. grants_ok w t" and closing: "closing (tw_tables w) (tw_tables w')"
    and more: "\<And>t'. grants w' t' = grants w t' + (if t' = t then 1 else 0)"
    and was: "grants w t = 0" and closed: "\<And>e. queue_get (tw_tables w') t = Some e \<Longrightarrow> \<not> openTask e"
    and admitted: "t \<in> tw_admitted w'" and sub: "tw_admitted w \<subseteq> tw_admitted w'"
  shows "grants_ok w' t'"
proof (cases "t' = t")
  case True
  have "grants w' t = 1"
    using more [of t] was by simp
  then show ?thesis
    using True closed admitted by (simp add: grants_ok_def)
next
  case False
  then show ?thesis
    using more [of t'] by (intro grants_ok_same [OF ok closing _ sub]) simp
qed

lemma open_has_no_grant:
  assumes "tasks_ok epoch w" and "queue_get (tw_tables w) t = Some e" and "openTask e"
  shows "grants w t = 0" and "t \<in> tw_admitted w"
proof -
  show "grants w t = 0"
    using assms by (simp add: tasks_ok_def grants_ok_def)
  have "known_task (tw_tables w) t"
    using assms(2) by (simp add: known_task_def)
  moreover have "task_ok (tw_admitted w) (tw_tables w) t"
    using assms(1) by (simp add: tasks_ok_def tables_ok_def)
  ultimately show "t \<in> tw_admitted w"
    by (auto simp add: task_ok_def)
qed

lemma count_fst_remove1:
  "x \<in> set xs \<Longrightarrow> count_list (map fst (remove1 x xs)) k + (if fst x = k then 1 else 0) = count_list (map fst xs) k"
  by (induction xs) auto

lemma count_fst_called: "count_list (map fst (filter snd xs)) k \<le> count_list (map fst xs) k"
  by (induction xs) auto

lemma count_called: "count_list xs (k, True) \<le> count_list (map fst xs) k"
  by (induction xs) auto

lemma executions_le_grants: "executions w t \<le> grants w t + count_list (tw_handouts w) t"
  by (simp add: executions_def grants_def count_called)

subsection \<open>Every step keeps the invariant\<close>

lemma tasks_ok_calm:
  assumes "tasks_ok epoch w" and "calm (tw_tables w) st'"
  shows "tasks_ok epoch (w\<lparr>tw_tables := st'\<rparr>)"
  using assms calm_tables_ok [OF assms(2)] grants_ok_closing [of w "w\<lparr>tw_tables := st'\<rparr>"]
  by (simp add: tasks_ok_def calm_closing)

lemma tasks_ok_handouts [simp]: "tasks_ok epoch (w\<lparr>tw_handouts := hs\<rparr>) = tasks_ok epoch w"
  by (simp add: tasks_ok_def grants_ok_def grants_def)

lemma handout_step_ok:
  assumes "tasks_ok epoch w"
  shows "tasks_ok epoch (w\<lparr>tw_tables := recordTaskRoute t x p o' f now (tw_tables w), tw_handouts := hs\<rparr>)"
  using tasks_ok_calm [OF assms recordTaskRoute_calm] tasks_ok_handouts [where w = "w\<lparr>tw_tables := recordTaskRoute t x p o' f now (tw_tables w)\<rparr>"] by simp

lemma tended_calm: "tended st st' \<Longrightarrow> calm st st'"
  by (simp add: tended_def)

lemma claim_step_ok:
  assumes ok: "tasks_ok epoch w" and res: "claim leaseMs t m peer lease now (tw_tables w) = Inr (verdict, st')"
  shows "tasks_ok epoch (w\<lparr>tw_tables := st', tw_runs := (case verdict of Granted _ \<Rightarrow> t # tw_runs w | Refused _ \<Rightarrow> tw_runs w)\<rparr>)"
proof -
  have calm: "calm (tw_tables w) st'"
    and granted: "\<And>ms. verdict = Granted ms \<Longrightarrow> \<exists>e e'. queue_get (tw_tables w) t = Some e \<and> openTask e \<and> queue_get st' t = Some e' \<and> \<not> openTask e'"
    using claim_effect [of leaseMs t m peer lease now "tw_tables w"] res by (auto simp add: tended_calm)
  show ?thesis
  proof (cases verdict)
    case (Refused x)
    then show ?thesis
      using tasks_ok_calm [OF ok calm] by simp
  next
    case (Granted ms)
    then obtain e e' where e: "queue_get (tw_tables w) t = Some e" "openTask e" and e': "queue_get st' t = Some e'" "\<not> openTask e'"
      using granted by blast
    have "grants_ok (w\<lparr>tw_tables := st', tw_runs := t # tw_runs w\<rparr>) t'" for t'
    proof (rule grants_ok_more [where w = w and t = t])
      show "grants_ok w t'" for t'
        using ok by (simp add: tasks_ok_def)
    qed (use open_has_no_grant [OF ok e] calm_closing [OF calm] e' in \<open>simp_all add: grants_def\<close>)
    then show ?thesis
      using ok calm_tables_ok [OF calm] Granted by (simp add: tasks_ok_def)
  qed
qed

lemma present_forward_effect:
  assumes "present_forward t worker now st = Inr (sent, st')"
  shows "calm st st'" and "sent \<Longrightarrow> \<exists>e e'. queue_get st t = Some e \<and> openTask e \<and> queue_get st' t = Some e' \<and> \<not> openTask e'"
proof -
  obtain b st1 where res: "grantForward t worker st = Inr (b, st1)" and "tended st st1"
    and granted: "b \<longrightarrow> (\<exists>e e'. queue_get st t = Some e \<and> openTask e \<and> queue_get st1 t = Some e' \<and> \<not> openTask e')"
    using grantForward_effect by blast
  then have "calm st st1"
    by (simp add: tended_calm)
  then show "calm st st'" and "sent \<Longrightarrow> \<exists>e e'. queue_get st t = Some e \<and> openTask e \<and> queue_get st' t = Some e' \<and> \<not> openTask e'"
    using assms res granted by (auto simp add: present_forward_def split: bool.splits intro: calm_trans [OF _ recordTaskRoute_calm])
qed

lemma forward_step_ok:
  assumes ok: "tasks_ok epoch w" and res: "present_forward t worker now (tw_tables w) = Inr (sent, st')"
  shows "tasks_ok epoch (w\<lparr>tw_tables := st', tw_forwards := (if sent then (t, False) # tw_forwards w else tw_forwards w)\<rparr>)"
proof -
  note calm = present_forward_effect(1) [OF res] and granted = present_forward_effect(2) [OF res]
  show ?thesis
  proof (cases sent)
    case False
    then show ?thesis
      using tasks_ok_calm [OF ok calm] by simp
  next
    case True
    then obtain e e' where e: "queue_get (tw_tables w) t = Some e" "openTask e" and e': "queue_get st' t = Some e'" "\<not> openTask e'"
      using granted by blast
    have "grants_ok (w\<lparr>tw_tables := st', tw_forwards := (t, False) # tw_forwards w\<rparr>) t'" for t'
    proof (rule grants_ok_more [where w = w and t = t])
      show "grants_ok w t'" for t'
        using ok by (simp add: tasks_ok_def)
    qed (use open_has_no_grant [OF ok e] calm_closing [OF calm] e' in \<open>simp_all add: grants_def\<close>)
    then show ?thesis
      using ok calm_tables_ok [OF calm] True by (simp add: tasks_ok_def)
  qed
qed

lemma forward_calls_ok:
  assumes ok: "tasks_ok epoch w" and f: "(t, c) \<in> set (tw_forwards w)"
  shows "tasks_ok epoch (w\<lparr>tw_forwards := (t, c') # remove1 (t, c) (tw_forwards w)\<rparr>)"
proof -
  have "grants_ok (w\<lparr>tw_forwards := (t, c') # remove1 (t, c) (tw_forwards w)\<rparr>) t'" for t'
  proof (rule grants_ok_same [where w = w])
    show "grants_ok w t'"
      using ok by (simp add: tasks_ok_def)
  qed (use count_fst_remove1 [OF f, of t'] in \<open>auto simp add: grants_def closing_def split: if_splits\<close>)
  then show ?thesis
    using ok by (simp add: tasks_ok_def)
qed

lemma one_forward:
  assumes ok: "tasks_ok epoch w" and f: "(t, c) \<in> set (tw_forwards w)"
  shows "grants w t = 1" and "count_list (tw_runs w) t = 0" and "count_list (map fst (remove1 (t, c) (tw_forwards w))) t = 0" and "t \<in> tw_admitted w"
proof -
  have "grants_ok w t"
    using ok by (simp add: tasks_ok_def)
  moreover have "count_list (map fst (remove1 (t, c) (tw_forwards w))) t + 1 = count_list (map fst (tw_forwards w)) t"
    using count_fst_remove1 [OF f, of t] by simp
  ultimately show "grants w t = 1" and "count_list (tw_runs w) t = 0" and "count_list (map fst (remove1 (t, c) (tw_forwards w))) t = 0"
    and "t \<in> tw_admitted w"
    unfolding grants_ok_def grants_def by fastforce+
qed

lemma forward_ends_called_ok:
  assumes ok: "tasks_ok epoch w" and f: "(t, True) \<in> set (tw_forwards w)" and res: "forwardEnded t True now (tw_tables w) = Inr (released, st')"
  shows "tasks_ok epoch (w\<lparr>tw_tables := st', tw_forwards := remove1 (t, True) (tw_forwards w), tw_runs := t # tw_runs w\<rparr>)"
proof -
  have calm: "calm (tw_tables w) st'"
    using res by (rule called_ends.tend_calm)
  have "grants_ok (w\<lparr>tw_tables := st', tw_forwards := remove1 (t, True) (tw_forwards w), tw_runs := t # tw_runs w\<rparr>) t'" for t'
  proof (rule grants_ok_same [where w = w])
    show "grants_ok w t'"
      using ok by (simp add: tasks_ok_def)
  qed (use count_fst_remove1 [OF f, of t'] calm_closing [OF calm] in \<open>auto simp add: grants_def split: if_splits\<close>)
  then show ?thesis
    using ok calm_tables_ok [OF calm] by (simp add: tasks_ok_def)
qed

lemma release_tables_ok:
  assumes ok: "tables_ok epoch admitted jobs st" and got: "queue_get st t = Some e" and kept: "keeps e e'"
  shows "tables_ok epoch admitted jobs (put_entry t e' st)"
proof -
  \<comment> \<open>only the status differs from a change that leaves the answers alone\<close>
  let ?st' = "put_entry t e' st"
  have answers: "rk_answers ?st' = rk_answers st" and rows: "settlementRowsFor ?st' t' = settlementRowsFor st t'" for t'
    by (simp_all add: put_entry_def settlementRowsFor_def)
  have claimed: "claimed_for ?st' t' s = claimed_for st t' s" and known: "known_task ?st' t' = known_task st t'" for t' s
    using got keeps_answer [OF kept] answers by (auto simp add: claimed_for_def known_task_def queue_get_put split: option.splits)
  have "task_ok admitted ?st' t'" for t'
  proof -
    have task: "task_ok admitted st t'"
      using ok by (simp add: tables_ok_def)
    have "rows_fit ?st' t'" if "rows_fit st t'"
      using rows known claimed by (intro rows_fit_cong [OF that]) simp_all
    then show ?thesis
      using task got answers known by (auto simp add: task_ok_def queue_get_put answer_fits_keeps [OF kept] archive_fits_keeps [OF kept])
  qed
  then show ?thesis
    using ok got answers by (auto simp add: tables_ok_def job_ok_def queue_get_put answer_allowed_keeps [OF kept])
qed

lemma forward_ends_unsent_ok:
  assumes ok: "tasks_ok epoch w" and f: "(t, False) \<in> set (tw_forwards w)" and res: "forwardEnded t False now (tw_tables w) = Inr (released, st')"
  shows "tasks_ok epoch (w\<lparr>tw_tables := st', tw_forwards := remove1 (t, False) (tw_forwards w)\<rparr>)"
proof -
  let ?w' = "w\<lparr>tw_tables := st', tw_forwards := remove1 (t, False) (tw_forwards w)\<rparr>"
  note one = one_forward [OF ok f]
  have tables: "tables_ok epoch (tw_admitted w) (set (tw_jobs w)) st' \<and> (\<forall>t'. t' \<noteq> t \<longrightarrow>
      (\<forall>e'. queue_get st' t' = Some e' \<longrightarrow> openTask e' \<longrightarrow> (\<exists>e. queue_get (tw_tables w) t' = Some e \<and> openTask e)))"
  proof -
    consider (tended) "tended (tw_tables w) st'"
      | (released) e e' where "queue_get (tw_tables w) t = Some e" "keeps e e'" "st' = put_entry t e' (tw_tables w)"
      using forwardEnded_released_effect [of t now "tw_tables w"] res by auto
    then show ?thesis
    proof cases
      case tended
      then have calm: "calm (tw_tables w) st'"
        by (rule tended_calm)
      show ?thesis
        using ok calm_tables_ok [OF calm] calm_closing [OF calm] by (simp add: tasks_ok_def closing_def)
    next
      case released
      then show ?thesis
        using ok release_tables_ok [OF _ released(1,2)] by (simp add: tasks_ok_def queue_get_put)
    qed
  qed
  have "grants_ok ?w' t'" for t'
  proof (cases "t' = t")
    case True
    have "grants ?w' t = 0"
      using one by (simp add: grants_def)
    then show ?thesis
      using True by (simp add: grants_ok_def)
  next
    case False
    have "grants ?w' t' = grants w t'"
      using False count_fst_remove1 [OF f, of t'] by (simp add: grants_def)
    moreover have "grants_ok w t'"
      using ok by (simp add: tasks_ok_def)
    ultimately show ?thesis
      using tables False unfolding grants_ok_def by fastforce
  qed
  then show ?thesis
    using tables by (simp add: tasks_ok_def)
qed

lemma admit_new_ok:
  assumes ok: "tasks_ok epoch w" and new: "admits t w" and e: "unanswered_new e" and runs: "presents \<Longrightarrow> \<not> openTask e"
    and calm: "calm (put_entry t (stored_entry 0 e) (tw_tables w)) st'" and get: "queue_get st' t = Some (stored_entry 0 e)"
  shows "tasks_ok epoch (w\<lparr>tw_tables := st', tw_admitted := insert t (tw_admitted w), tw_runs := (if presents then t # tw_runs w else tw_runs w)\<rparr>)"
proof -
  let ?w' = "w\<lparr>tw_tables := st', tw_admitted := insert t (tw_admitted w), tw_runs := (if presents then t # tw_runs w else tw_runs w)\<rparr>"
  have grants: "grants_ok w t'" for t'
    using ok by (simp add: tasks_ok_def)
  have "tables_ok epoch (insert t (tw_admitted w)) (set (tw_jobs w)) (put_entry t (stored_entry 0 e) (tw_tables w))"
    using ok new e by (intro put_new_ok) (simp_all add: tasks_ok_def)
  then have tables: "tables_ok epoch (insert t (tw_admitted w)) (set (tw_jobs w)) st'"
    by (rule calm_tables_ok [OF calm])
  have zero: "grants w t = 0"
    using grants [of t] new by (simp add: grants_ok_def)
  have "grants_ok ?w' t'" for t'
  proof (cases "t' = t")
    case True
    have "grants ?w' t = (if presents then 1 else 0)"
      using zero by (simp add: grants_def)
    then show ?thesis
      using True get runs by (simp add: grants_ok_def)
  next
    case False
    show ?thesis
    proof (rule grants_ok_local [where w = w])
      show "grants_ok w t'"
        by (rule grants)
      show "\<exists>e. queue_get (tw_tables w) t' = Some e \<and> openTask e" if "queue_get (tw_tables ?w') t' = Some e'" and "openTask e'" for e'
        using calm_closing [OF calm] that False by (fastforce simp add: closing_def queue_get_put)
    qed (use False in \<open>auto simp add: grants_def\<close>)
  qed
  then show ?thesis
    using tables by (simp add: tasks_ok_def)
qed

lemma admit_step_ok:
  assumes ok: "tasks_ok epoch w" and new: "admits t w"
    and res: "admit_task t (queued_entry (submitted_task m now caps) expires submitter None mode peer target pin grant) presents now (tw_tables w) = Inr st'"
  shows "tasks_ok epoch (w\<lparr>tw_tables := st', tw_admitted := insert t (tw_admitted w), tw_runs := (if presents then t # tw_runs w else tw_runs w)\<rparr>)"
proof -
  define q where "q = queued_entry (submitted_task m now caps) expires submitter None mode peer target pin grant"
  define e where "e = (if presents then grantToSubmitter (tq_submitted_by q) q else q)"
  have e: "unanswered_new e" and runs: "presents \<Longrightarrow> \<not> openTask e"
    using queued_entry_new by (simp_all add: e_def q_def granted_entry_new granted_entry_closed)
  have none: "queue_get (tw_tables w) t = None"
    using ok new by (auto simp add: tasks_ok_def tables_ok_def task_ok_def known_task_def)
  have "st' = recordTaskRoute t (tk_motebit_id (tq_task q)) [] RouteAdmission [] now (put_entry t (stored_entry 0 e) (tw_tables w))"
    using res queue_set_new [OF none e] by (simp add: admit_task_def flip: q_def e_def)
  then show ?thesis
    using recordTaskRoute_calm by (intro admit_new_ok [OF ok new e runs]) (simp_all add: queue_get_put)
qed

lemma enqueue_step_ok:
  assumes ok: "tasks_ok epoch w" and new: "admits t w"
    and res: "enqueue_forwarded t agent origin submitter caps paid ttl now (tw_tables w) = Inr st'"
  shows "tasks_ok epoch (w\<lparr>tw_tables := st', tw_admitted := insert t (tw_admitted w)\<rparr>)"
proof -
  define st1 where "st1 = recordTaskRoute t agent [] RouteInboundForward origin now (tw_tables w)"
  define e where "e = queued_entry (submitted_task agent now caps) (now + ttl) (Some (case submitter of Some s \<Rightarrow> s | None \<Rightarrow> ''relay:'' @ origin)) (Some origin)
    (if paid then Some ModeP2p else None) None None (Some agent) None"
  have e: "unanswered_new e"
    unfolding e_def by (rule queued_entry_new)
  have ok1: "tasks_ok epoch (w\<lparr>tw_tables := st1\<rparr>)"
    unfolding st1_def by (rule tasks_ok_calm [OF ok recordTaskRoute_calm])
  have new1: "admits t (w\<lparr>tw_tables := st1\<rparr>)"
    using new by (simp add: st1_def)
  have none: "queue_get st1 t = None"
    using ok1 new1 by (auto simp add: tasks_ok_def tables_ok_def task_ok_def known_task_def)
  have "st' = put_entry t (stored_entry 0 e) st1"
    using res queue_set_new [OF none e] unfolding enqueue_forwarded_def e_def [symmetric] st1_def [symmetric] by simp
  then show ?thesis
    using admit_new_ok [OF ok1 new1 e, of False st'] by (simp add: queue_get_put)
qed

lemma lifecycle_calm:
  assumes "jsm_wf (rk_queue st)" and "sweepTaskLifecycle now st = Inr st'"
  shows "calm st st'"
proof -
  obtain ids st1 where "expire now st = Inr (ids, st1)" and tended: "tended st st1"
    using expiries.tend_effect by blast
  then have "st' = cleanup now st1" and "jsm_wf (rk_queue st1)"
    using assms by (simp_all add: sweepTaskLifecycle_def tended_def calm_def)
  then show ?thesis
    using tended cleanup_effect(1) by (auto simp add: tended_def intro: calm_trans)
qed

lemma answer_job_effect:
  assumes ok: "tables_ok epoch admitted jobs st" and j: "j \<in> jobs"
    and res: "answerTask epoch sigcheck now retainMs (aj_task_id j) (aj_receipt j) (aj_door j) (aj_presenter j) (aj_before j) st = Inr (verdict, st')"
  shows "st' = st \<or> (\<exists>e. queue_get st (aj_task_id j) = Some e \<and> tq_receipt e = None \<and> verdict = taken now retainMs (aj_receipt j) (aj_door j) e
    \<and> st' = answer_put now (aj_task_id j) (answered_entry (aj_receipt j) (aj_door j) (now + retainMs) e) (aj_receipt j) (row_version e + 1) st
    \<and> tables_ok epoch admitted jobs st')"
proof (cases "answer_checks epoch (aj_before j) (aj_task_id j) (aj_receipt j) (aj_door j) = None
    \<and> (\<exists>k. verifySignature sigcheck (aj_door j) (aj_receipt j) = Inr k)")
  case False
  then show ?thesis
    using res by (auto simp add: answerTask_def split: option.splits sum.splits)
next
  case True
  then have wrote: "answer_write now retainMs (aj_task_id j) (aj_receipt j) (aj_door j) (aj_presenter j) st = Inr (verdict, st')"
    using res by (auto simp add: answerTask_def)
  have "rc_signature (aj_receipt j) \<noteq> []"
    using True by (auto simp add: verifySignature_def split: if_splits)
  moreover have "job_ok epoch admitted st j"
    using ok j by (simp add: tables_ok_def)
  ultimately show ?thesis
    using True by (intro answer_write_ok [OF ok wrote]) (simp_all add: job_ok_def)
qed

lemma tables_ok_fewer: "tables_ok epoch admitted jobs st \<Longrightarrow> jobs' \<subseteq> jobs \<Longrightarrow> tables_ok epoch admitted jobs' st"
  unfolding tables_ok_def by blast

lemma tables_step_ok:
  assumes "tasks_ok epoch w" and "tables_ok epoch (tw_admitted w) (set (tw_jobs w)) st'" and "closing (tw_tables w) st'" and "set jobs \<subseteq> set (tw_jobs w)"
  shows "tasks_ok epoch (w\<lparr>tw_tables := st', tw_jobs := jobs\<rparr>)"
proof -
  have grants: "grants_ok w t" for t
    using assms(1) by (simp add: tasks_ok_def)
  have "grants_ok (w\<lparr>tw_tables := st', tw_jobs := jobs\<rparr>) t" for t
    using assms(3) by (intro grants_ok_closing [OF grants]) simp_all
  then show ?thesis
    using tables_ok_fewer [OF assms(2,4)] by (simp add: tasks_ok_def)
qed

lemma tables_step_ok_jobs:
  assumes "tasks_ok epoch w" and "tables_ok epoch (tw_admitted w) (set (tw_jobs w)) st'" and "closing (tw_tables w) st'"
  shows "tasks_ok epoch (w\<lparr>tw_tables := st'\<rparr>)"
  using tables_step_ok [OF assms, of "tw_jobs w"] by simp

lemma answered_entry_closed [simp]: "\<not> openTask (answered_entry r d k e)"
  by (simp add: openTask_def)

lemma answer_step_ok:
  assumes ok: "tasks_ok epoch w" and j: "j \<in> set (tw_jobs w)"
    and res: "answerTask epoch sigcheck now retainMs (aj_task_id j) (aj_receipt j) (aj_door j) (aj_presenter j) (aj_before j) (tw_tables w) = Inr (verdict, st')"
  shows "tasks_ok epoch (w\<lparr>tw_tables := st', tw_jobs := remove1 j (tw_jobs w)\<rparr>)"
proof -
  have tables: "tables_ok epoch (tw_admitted w) (set (tw_jobs w)) (tw_tables w)"
    using ok by (simp add: tasks_ok_def)
  have "tables_ok epoch (tw_admitted w) (set (tw_jobs w)) st' \<and> closing (tw_tables w) st'"
    using answer_job_effect [OF tables j res] tables by (auto intro!: answer_put_closing)
  then show ?thesis
    by (intro tables_step_ok [OF ok] set_remove1_subset) simp_all
qed

lemma restart_step_ok:
  assumes ok: "tasks_ok epoch w"
  shows "tasks_ok epoch (w\<lparr>tw_tables := adoptLeases (tw_tables w), tw_forwards := [], tw_jobs := [],
      tw_runs := map fst (filter snd (tw_forwards w)) @ tw_runs w\<rparr>)"
proof -
  let ?w' = "w\<lparr>tw_tables := adoptLeases (tw_tables w), tw_forwards := [], tw_jobs := [], tw_runs := map fst (filter snd (tw_forwards w)) @ tw_runs w\<rparr>"
  have calm: "calm (tw_tables w) (adoptLeases (tw_tables w))"
    unfolding adoptLeases_def by (rule tended_calm [OF tended_leased])
  have fewer: "grants ?w' t \<le> grants w t" for t
    using count_fst_called [of "tw_forwards w" t] by (simp add: grants_def)
  have "grants_ok ?w' t" for t
  proof -
    have "grants_ok w t" and "queue_get (tw_tables ?w') t = queue_get (tw_tables w) t"
      using ok by (simp_all add: tasks_ok_def adoptLeases_def)
    then show ?thesis
      using fewer [of t] by (auto simp add: grants_ok_def)
  qed
  moreover have "tables_ok epoch (tw_admitted w) {} (adoptLeases (tw_tables w))"
    using ok by (intro tables_ok_fewer [OF calm_tables_ok [OF calm], where jobs = "set (tw_jobs w)"]) (simp_all add: tasks_ok_def)
  ultimately show ?thesis
    by (simp add: tasks_ok_def)
qed

lemma answer_arrives_ok:
  assumes ok: "tasks_ok epoch w"
  shows "tasks_ok epoch (w\<lparr>tw_jobs := \<lparr> aj_task_id = t, aj_receipt = r, aj_door = d, aj_presenter = p, aj_before = tw_tables w \<rparr> # tw_jobs w\<rparr>)"
proof -
  have task: "task_ok (tw_admitted w) (tw_tables w) t"
    using ok by (simp add: tasks_ok_def tables_ok_def)
  have "job_ok epoch (tw_admitted w) (tw_tables w) \<lparr> aj_task_id = t, aj_receipt = r, aj_door = d, aj_presenter = p, aj_before = tw_tables w \<rparr>"
    using task by (auto simp add: job_ok_def answer_checks_def answer_allowed_def pinRefusesAnswer_def receiptDischargesP2p_def task_ok_def known_task_def
        split: option.splits if_splits)
  moreover have "grants_ok (w\<lparr>tw_jobs := js\<rparr>) t'" for js t'
    using ok by (simp add: tasks_ok_def grants_ok_def grants_def)
  ultimately show ?thesis
    using ok by (simp add: tasks_ok_def tables_ok_def)
qed

lemma mark_settled_step_ok:
  assumes ok: "tasks_ok epoch w" and res: "markTaskSettled now t sig (tw_tables w) = Inr st'"
  shows "tasks_ok epoch (w\<lparr>tw_tables := st'\<rparr>)"
proof -
  have "tables_ok epoch (tw_admitted w) (set (tw_jobs w)) (tw_tables w)"
    using ok by (simp add: tasks_ok_def)
  from markTaskSettled_effect [OF this, of now t sig] have "tables_ok epoch (tw_admitted w) (set (tw_jobs w)) st' \<and> closing (tw_tables w) st'"
    using res by (auto simp add: openTask_def intro!: answer_put_closing)
  then show ?thesis
    using ok by (intro tables_step_ok_jobs) auto
qed

lemma tables_step_simple_ok:
  assumes ok: "tasks_ok epoch w"
  shows "insert_settlement table row (tw_tables w) = Inr st' \<Longrightarrow> tasks_ok epoch (w\<lparr>tw_tables := st'\<rparr>)"
    and "tasks_ok epoch (w\<lparr>tw_tables := cleanupTaskRoutes now (tw_tables w)\<rparr>)"
    and "claimStoredAnswer now t d (tw_tables w) = Inr (entry, st') \<Longrightarrow> tasks_ok epoch (w\<lparr>tw_tables := st'\<rparr>)"
proof -
  have tables: "tables_ok epoch (tw_admitted w) (set (tw_jobs w)) (tw_tables w)"
    using ok by (simp add: tasks_ok_def)
  show "tasks_ok epoch (w\<lparr>tw_tables := st'\<rparr>)" if "insert_settlement table row (tw_tables w) = Inr st'"
    using insert_settlement_ok [OF tables that] insert_settlement_tables(1) [OF that]
    by (intro tables_step_ok_jobs [OF ok] same_queue_closing) (simp_all add: queue_get_def)
  show "tasks_ok epoch (w\<lparr>tw_tables := cleanupTaskRoutes now (tw_tables w)\<rparr>)"
    using cleanupTaskRoutes_ok [OF tables]
    by (intro tables_step_ok_jobs [OF ok] same_queue_closing) (simp_all add: queue_get_def cleanupTaskRoutes_def Let_def)
  show "tasks_ok epoch (w\<lparr>tw_tables := st'\<rparr>)" if "claimStoredAnswer now t d (tw_tables w) = Inr (entry, st')"
    using claimStoredAnswer_effect [OF tables, of now t d] that ok by auto
qed

lemma task_step_ok: "task_step epoch sigcheck w w' \<Longrightarrow> tasks_ok epoch w \<Longrightarrow> tasks_ok epoch w'"
proof (induction rule: task_step.induct)
  case (Admit t w m now caps expires submitter mode peer target pin grant presents st')
  then show ?case by (intro admit_step_ok)
next
  case (Admit_forwarded t w agent origin submitter caps paid ttl now st')
  then show ?case by (intro enqueue_step_ok)
next
  case (Claim leaseMs t m peer lease now w verdict st')
  then show ?case by (intro claim_step_ok)
next
  case (Renew leaseMs t m device now w renewed st')
  then show ?case
    by (intro tasks_ok_calm renewals.tend_calm)
next
  case (Forward t worker now w sent st')
  then show ?case by (intro forward_step_ok)
next
  case (Forward_calls t c w c')
  then show ?case by (intro forward_calls_ok)
next
  case (Forward_ends t c w now released st')
  then show ?case
    by (cases c) (simp_all add: forward_ends_called_ok forward_ends_unsent_ok)
next
  case (Ttl_pass now w st')
  then show ?case
    by (intro tasks_ok_calm lifecycle_calm) (simp_all add: tasks_ok_def tables_ok_def)
next
  case (Sweep now w lost st')
  then show ?case
    by (intro tasks_ok_calm sweeps.tend_calm)
next
  case (Evict w maxSize)
  then show ?case
    by (intro tasks_ok_calm evict_effect(1)) (simp_all add: tasks_ok_def tables_ok_def)
next
  case (Clean_routes w now)
  then show ?case by (rule tables_step_simple_ok(2))
next
  case (Clear_peer t w st')
  then show ?case
    by (intro tasks_ok_calm cleared_peers.tend_calm [of t "tw_tables w"]) simp_all
next
  case (Route w t executor peer now)
  then show ?case by (intro tasks_ok_calm recordTaskRoute_calm)
next
  case (Incidental_token t w worker now)
  then show ?case by (intro handout_step_ok)
next
  case (Token_again w t e)
  then show ?case by simp
next
  case (Peer_forward t w peer worker now)
  then show ?case by (intro handout_step_ok)
next
  case (Answer_arrives w t r d p)
  then show ?case by (rule answer_arrives_ok)
next
  case (Answer j w now retainMs verdict st')
  then show ?case by (intro answer_step_ok)
next
  case (Claim_stored now t d w entry st')
  then show ?case by (intro tables_step_simple_ok(3))
next
  case (Settle table row w st')
  then show ?case by (intro tables_step_simple_ok(1))
next
  case (Mark_settled now t sig w st')
  then show ?case by (intro mark_settled_step_ok)
next
  case (Restart w)
  then show ?case by (rule restart_step_ok)
qed

lemma fresh_tasks_ok: "tasks_ok epoch fresh_tasks"
  by (simp add: tasks_ok_def fresh_tasks_def empty_tables_def tables_ok_def task_ok_def grants_ok_def grants_def known_task_def queue_get_def
      rows_fit_def settlementRowsFor_def)

lemma task_runs_ok: "(task_step epoch sigcheck)\<^sup>*\<^sup>* fresh_tasks w \<Longrightarrow> tasks_ok epoch w"
  by (induction rule: rtranclp_induct) (auto intro: fresh_tasks_ok task_step_ok)

end
