(* ===== verification/TaskSafety.thy ===== *)
theory TaskSafety
  imports TaskRuns
begin

text \<open>
  What a step over the relay's task tables keeps of an entry: its answer does not change and is archived as it stands, and an entry whose outcome is open is not dropped. The last
  section follows a task over any number of steps, also after its entry is gone.
\<close>

subsection \<open>What one step keeps of an entry\<close>

definition kept :: "relay_tasks \<Rightarrow> relay_tasks \<Rightarrow> bool" where
  "kept st st' \<longleftrightarrow> (\<forall>t e. queue_get st t = Some e \<longrightarrow>
     (\<forall>r. tq_receipt e = Some r \<longrightarrow> (\<forall>e'. queue_get st' t = Some e' \<longrightarrow> tq_receipt e' = Some r) \<and> (\<forall>a. jsm_get (rk_answers st') t = Some a \<longrightarrow> aa_receipt a = r))
     \<and> (heldClaim e \<or> heldGrant e \<longrightarrow> queue_get st' t \<noteq> None)
     \<and> (heldClaim e \<longrightarrow> jsm_get (rk_answers st') t \<noteq> None \<and> (\<forall>x\<in>set (rk_routes st). ro_task_id x = t \<longrightarrow> x \<in> set (rk_routes st'))))"

lemma tables_archive:
  assumes "tables_ok epoch admitted jobs st" and "queue_get st t = Some e"
  shows "archive_fits e (jsm_get (rk_answers st) t)" and "answer_fits t e"
  using assms by (simp_all add: tables_ok_def task_ok_def)

lemma claim_is_archived:
  assumes ok: "tables_ok epoch admitted jobs st" and got: "queue_get st t = Some e" and held: "heldClaim e"
  obtains r a where "tq_receipt e = Some r" and "jsm_get (rk_answers st) t = Some a" and "\<not> aa_settled a" and "aa_settling a \<noteq> None"
proof -
  obtain s where s: "tq_settling e = Some s" and open_: "tq_settled e \<noteq> Some True"
    using held by (auto simp add: heldClaim_def)
  obtain r where r: "tq_receipt e = Some r"
    using tables_archive(2) [OF ok got] s by (rule claimed_answer_fits)
  then obtain a where a: "jsm_get (rk_answers st) t = Some a"
    using tables_archive(1) [OF ok got] open_ by (cases "jsm_get (rk_answers st) t") (simp_all add: archive_fits_def)
  show thesis
    using tables_archive(1) [OF ok got] a open_ s by (intro that [OF r a]) (simp_all add: archive_fits_def)
qed

lemma archive_is_answer:
  assumes "tables_ok epoch admitted jobs st" and "queue_get st t = Some e" and "tq_receipt e = Some r" and "jsm_get (rk_answers st) t = Some a"
  shows "aa_receipt a = r"
  using tables_archive(1) [OF assms(1,2)] assms(3,4) by (simp add: archive_fits_def)

lemma kept_same_answers:
  assumes ok: "tables_ok epoch admitted jobs st" and answers: "rk_answers st' = rk_answers st"
    and receipts: "\<And>t e e'. queue_get st t = Some e \<Longrightarrow> queue_get st' t = Some e' \<Longrightarrow> tq_receipt e' = tq_receipt e"
    and held: "\<And>t e. queue_get st t = Some e \<Longrightarrow> heldClaim e \<or> heldGrant e \<Longrightarrow> queue_get st' t \<noteq> None"
    and routes: "set (rk_routes st) \<subseteq> set (rk_routes st')"
  shows "kept st st'"
  unfolding kept_def
proof (intro allI impI)
  fix t e assume got: "queue_get st t = Some e"
  have "(\<forall>e'. queue_get st' t = Some e' \<longrightarrow> tq_receipt e' = Some r) \<and> (\<forall>a. jsm_get (rk_answers st') t = Some a \<longrightarrow> aa_receipt a = r)"
    if "tq_receipt e = Some r" for r
    using receipts [OF got] archive_is_answer [OF ok got that] answers that by simp
  moreover have "jsm_get (rk_answers st') t \<noteq> None" if "heldClaim e"
    using ok got that answers by (auto elim: claim_is_archived)
  ultimately show "(\<forall>r. tq_receipt e = Some r \<longrightarrow> (\<forall>e'. queue_get st' t = Some e' \<longrightarrow> tq_receipt e' = Some r) \<and> (\<forall>a. jsm_get (rk_answers st') t = Some a \<longrightarrow> aa_receipt a = r))
     \<and> (heldClaim e \<or> heldGrant e \<longrightarrow> queue_get st' t \<noteq> None)
     \<and> (heldClaim e \<longrightarrow> jsm_get (rk_answers st') t \<noteq> None \<and> (\<forall>x\<in>set (rk_routes st). ro_task_id x = t \<longrightarrow> x \<in> set (rk_routes st')))"
    using held [OF got] routes by blast
qed

lemma calm_receipt:
  assumes "calm st st'" and "queue_get st t = Some e" and "queue_get st' t = Some e'"
  shows "tq_receipt e' = tq_receipt e"
proof -
  have "entry_kept (Some e) (Some e')"
    using assms by (metis calm_def)
  then show ?thesis
    by (simp add: entry_kept_def keeps_answer)
qed

lemma tended_kept:
  assumes "tables_ok epoch admitted jobs st" and "tended st st'"
  shows "kept st st'"
proof (rule kept_same_answers [OF assms(1)])
  show "rk_answers st' = rk_answers st" and "set (rk_routes st) \<subseteq> set (rk_routes st')"
    using assms(2) by (simp_all add: tended_def calm_def same_records_def)
  show "tq_receipt e' = tq_receipt e" if "queue_get st t = Some e" and "queue_get st' t = Some e'" for t e e'
    using calm_receipt [OF tended_calm [OF assms(2)] that] .
  show "queue_get st' t \<noteq> None" if "queue_get st t = Some e" for t e
    using assms(2) that by (auto simp add: tended_def)
qed

context tending
begin

lemma tend_kept: "tend st = Inr (r, st') \<Longrightarrow> tables_ok epoch admitted jobs st \<Longrightarrow> kept st st'"
  by (rule tended_kept [OF _ tend_tended])

end

lemma kept_answer_put:
  assumes ok: "tables_ok epoch admitted jobs st" and got: "queue_get st t = Some e" and r: "tq_receipt e' = Some r"
    and first: "tq_receipt e = None \<or> tq_receipt e = Some r"
  shows "kept st (answer_put now t e' r v st)"
proof -
  have "jsm_get (rk_answers st) t' \<noteq> None" if "queue_get st t' = Some e0" and "heldClaim e0" for t' e0
    using ok that by (auto elim: claim_is_archived)
  then show ?thesis
    using got r first archive_is_answer [OF ok] unfolding kept_def by (auto simp add: archived_of_def)
qed

lemma tended_held:
  assumes "tended st st'" and "queue_get st t = Some e" and "heldClaim e \<or> heldGrant e"
  obtains e' where "queue_get st' t = Some e'" and "heldClaim e' \<or> heldGrant e'"
proof -
  obtain e' where e': "queue_get st' t = Some e'"
    using assms(1,2) by (cases "queue_get st' t") (auto simp add: tended_def)
  have "entry_kept (Some e) (Some e')"
    using assms(1,2) e' by (metis tended_def calm_def)
  then show thesis
    using assms(3) e' keeps_answer [of e e'] by (intro that [OF e']) (auto simp add: entry_kept_def heldClaim_def)
qed

lemma lifecycle_kept:
  assumes ok: "tables_ok epoch admitted jobs st" and res: "sweepTaskLifecycle now st = Inr st'"
  shows "kept st st'"
proof -
  have wf: "jsm_wf (rk_queue st)"
    using ok by (simp add: tables_ok_def)
  obtain ids st1 where "expire now st = Inr (ids, st1)" and tended: "tended st st1"
    using expiries.tend_effect by blast
  then have st': "st' = cleanup now st1" and wf1: "jsm_wf (rk_queue st1)"
    using res wf by (simp_all add: sweepTaskLifecycle_def tended_def calm_def)
  show ?thesis
  proof (rule kept_same_answers [OF ok])
    show "rk_answers st' = rk_answers st" and "set (rk_routes st) \<subseteq> set (rk_routes st')"
      using tended by (simp_all add: st' cleanup_def tended_def calm_def same_records_def)
    show "tq_receipt e' = tq_receipt e" if "queue_get st t = Some e" and "queue_get st' t = Some e'" for t e e'
      using calm_receipt [OF lifecycle_calm [OF wf res] that] .
    show "queue_get st' t \<noteq> None" if "queue_get st t = Some e" and "heldClaim e \<or> heldGrant e" for t e
      using tended_held [OF tended that] cleanup_effect(2) [OF wf1] unfolding st' by (metis option.distinct(1))
  qed
qed

lemma evict_kept:
  assumes ok: "tables_ok epoch admitted jobs st"
  shows "kept st (evict n st)"
proof -
  have wf: "jsm_wf (rk_queue st)"
    using ok by (simp add: tables_ok_def)
  show ?thesis
  proof (rule kept_same_answers [OF ok])
    show "rk_answers (evict n st) = rk_answers st" and "set (rk_routes st) \<subseteq> set (rk_routes (evict n st))"
      by (simp_all add: evict_def Let_def)
    show "tq_receipt e' = tq_receipt e" if "queue_get st t = Some e" and "queue_get (evict n st) t = Some e'" for t e e'
      using calm_receipt [OF evict_effect(1) [OF wf] that] .
    show "queue_get (evict n st) t \<noteq> None" if "queue_get st t = Some e" and "heldClaim e \<or> heldGrant e" for t e
      using evict_effect(2) [OF wf that] by simp
  qed
qed

lemma same_queue_kept:
  assumes "tables_ok epoch admitted jobs st" and "rk_answers st' = rk_answers st" and "set (rk_routes st) \<subseteq> set (rk_routes st')"
    and "\<And>t e. queue_get st t = Some e \<Longrightarrow> queue_get st' t = Some e"
  shows "kept st st'"
  using assms(4) by (intro kept_same_answers [OF assms(1,2) _ _ assms(3)]) auto

lemma released_kept:
  assumes ok: "tables_ok epoch admitted jobs st" and "queue_get st t = Some e" and "keeps e e'"
  shows "kept st (put_entry t e' st)"
  using assms(2) keeps_answer(1) [OF assms(3)]
  by (intro kept_same_answers [OF ok]) (auto simp add: put_entry_def queue_get_def jsm_get_set split: if_splits)

lemma forwardEnded_kept:
  assumes ok: "tables_ok epoch admitted jobs st" and res: "forwardEnded t c now st = Inr (released, st')"
  shows "kept st st'"
proof (cases c)
  case True
  then show ?thesis
    using res ok by (auto intro: called_ends.tend_kept)
next
  case False
  then show ?thesis
    using forwardEnded_released_effect [of t now st] res tended_kept [OF ok] released_kept [OF ok] by auto
qed

lemma cleanupTaskRoutes_kept:
  assumes ok: "tables_ok epoch admitted jobs st"
  shows "kept st (cleanupTaskRoutes now st)"
proof -
  let ?st' = "cleanupTaskRoutes now st"
  have get: "queue_get ?st' t = queue_get st t" for t
    by (simp add: cleanupTaskRoutes_def Let_def queue_get_def)
  have wf: "jsm_wf (rk_answers st)"
    using ok by (simp add: tables_ok_def)
  have sub: "jsm_get (rk_answers st) t = Some a" if "jsm_get (rk_answers ?st') t = Some a" for t a
    using that by (auto simp add: cleanupTaskRoutes_def Let_def jsm_get_filter [OF wf] split: option.splits if_splits)
  have held: "jsm_get (rk_answers ?st') t \<noteq> None \<and> (\<forall>x\<in>set (rk_routes st). ro_task_id x = t \<longrightarrow> x \<in> set (rk_routes ?st'))"
    if got: "queue_get st t = Some e" and claim: "heldClaim e" for t e
  proof -
    obtain a where a: "jsm_get (rk_answers st) t = Some a" "\<not> aa_settled a" "aa_settling a \<noteq> None"
      using claim_is_archived [OF ok got claim] by blast
    have "holdsUnsettledClaim st t"
      using got claim by (simp add: holdsUnsettledClaim_def)
    then show ?thesis
      using a by (auto simp add: cleanupTaskRoutes_def Let_def jsm_get_filter [OF wf])
  qed
  show ?thesis
    unfolding kept_def get using archive_is_answer [OF ok] sub held by fastforce
qed

lemma admitted_kept:
  assumes ok: "tasks_ok epoch w" and new: "admits t w"
    and st': "st' = recordTaskRoute i x p o' f n (put_entry t e (tw_tables w)) \<or> st' = put_entry t e (recordTaskRoute i x p o' f n (tw_tables w))"
  shows "kept (tw_tables w) st'"
proof -
  have tables: "tables_ok epoch (tw_admitted w) (set (tw_jobs w)) (tw_tables w)"
    using ok by (simp add: tasks_ok_def)
  have none: "queue_get (tw_tables w) t = None"
    using tables new by (auto simp add: tables_ok_def task_ok_def known_task_def)
  have "queue_get st' t' = (if t' = t then Some e else queue_get (tw_tables w) t')" and "rk_answers st' = rk_answers (tw_tables w)"
    and "set (rk_routes (tw_tables w)) \<subseteq> set (rk_routes st')" for t'
    using st' by (auto simp add: queue_get_put intro: subsetD [OF recordTaskRoute_tables(4)])
  then show ?thesis
    using none by (intro same_queue_kept [OF tables]) auto
qed

lemmas admitted_kept_routed = admitted_kept [OF _ _ disjI1 [OF refl]]
lemmas admitted_kept_put = admitted_kept [OF _ _ disjI2 [OF refl]]

lemma tended_route_kept:
  assumes "tables_ok epoch admitted jobs st" and "tended st st1"
  shows "kept st (recordTaskRoute i x p o' f n st1)"
proof (rule kept_same_answers [OF assms(1)])
  show "rk_answers (recordTaskRoute i x p o' f n st1) = rk_answers st"
    using assms(2) by (simp add: tended_def calm_def same_records_def)
  show "set (rk_routes st) \<subseteq> set (rk_routes (recordTaskRoute i x p o' f n st1))"
    using assms(2) recordTaskRoute_tables(4) [of st1] by (simp add: tended_def)
  show "tq_receipt e' = tq_receipt e" if "queue_get st t = Some e" and "queue_get (recordTaskRoute i x p o' f n st1) t = Some e'" for t e e'
    using calm_receipt [OF tended_calm [OF assms(2)]] that by simp
  show "queue_get (recordTaskRoute i x p o' f n st1) t \<noteq> None" if "queue_get st t = Some e" for t e
    using assms(2) that by (auto simp add: tended_def)
qed

lemma present_forward_kept:
  assumes ok: "tables_ok epoch admitted jobs st" and res: "present_forward t worker now st = Inr (sent, st')"
  shows "kept st st'"
proof -
  obtain b st1 where "grantForward t worker st = Inr (b, st1)" and "tended st st1"
    using grantForward_effect by blast
  then show ?thesis
    using res tended_kept [OF ok] tended_route_kept [OF ok] by (cases b) (auto simp add: present_forward_def)
qed

lemma answer_job_kept:
  assumes ok: "tables_ok epoch admitted jobs st" and j: "j \<in> jobs"
    and res: "answerTask epoch sigcheck now retainMs (aj_task_id j) (aj_receipt j) (aj_door j) (aj_presenter j) (aj_before j) st = Inr (verdict, st')"
  shows "kept st st'"
  using answer_job_effect [OF assms] tended_kept [OF ok] kept_answer_put [OF ok] by auto

lemma mark_settled_kept:
  assumes ok: "tables_ok epoch admitted jobs st" and res: "markTaskSettled now t sig st = Inr st'"
  shows "kept st st'"
proof -
  consider "st' = st" | e r where "queue_get st t = Some e" "tq_receipt e = Some r"
      "st' = answer_put now t (e\<lparr>tq_settled := Some True, tq_settling := tq_settling e\<rparr>) r (row_version e + 1) st"
    using markTaskSettled_effect [OF ok, of now t sig] res by auto
  then show ?thesis
  proof cases
    case 1
    then show ?thesis
      using tended_kept [OF ok] by simp
  next
    case 2
    then show ?thesis
      using kept_answer_put [OF ok 2(1), of "e\<lparr>tq_settled := Some True, tq_settling := tq_settling e\<rparr>" r] by simp
  qed
qed

lemma admit_task_put:
  assumes "tasks_ok epoch w" and "admits t w" and "unanswered_new q" and "admit_task t q presents now (tw_tables w) = Inr st'"
  obtains e where "st' = recordTaskRoute t (tk_motebit_id (tq_task q)) [] RouteAdmission [] now (put_entry t e (tw_tables w))" and "tq_grant_id e = None"
proof -
  have "queue_get (tw_tables w) t = None"
    using assms(1,2) by (auto simp add: tasks_ok_def tables_ok_def task_ok_def known_task_def)
  then show thesis
    using assms(3,4) queue_set_new granted_entry_new
    by (intro that [of "stored_entry 0 (if presents then grantToSubmitter (tq_submitted_by q) q else q)"])
      (auto simp add: admit_task_def stored_entry_def split: if_splits)
qed

lemma task_step_kept: "task_step epoch sigcheck w w' \<Longrightarrow> tasks_ok epoch w \<Longrightarrow> kept (tw_tables w) (tw_tables w')"
proof (induction rule: task_step.induct)
  case (Admit t w m now caps expires submitter mode peer target pin grant presents st')
  obtain e where "st' = recordTaskRoute t (tk_motebit_id (tq_task (queued_entry (submitted_task m now caps) expires submitter None mode peer target pin grant))) []
      RouteAdmission [] now (put_entry t e (tw_tables w))"
    using admit_task_put [OF Admit.prems Admit.hyps(1) queued_entry_new Admit.hyps(2)] by blast
  then show ?case
    by (simp add: admitted_kept_routed [OF Admit.prems Admit.hyps(1)])
next
  case (Admit_forwarded t w agent origin submitter caps paid ttl now st')
  have "queue_get (recordTaskRoute t agent [] RouteInboundForward origin now (tw_tables w)) t = None"
    using Admit_forwarded.prems Admit_forwarded.hyps(1) by (auto simp add: tasks_ok_def tables_ok_def task_ok_def known_task_def)
  then obtain e where "st' = put_entry t e (recordTaskRoute t agent [] RouteInboundForward origin now (tw_tables w))"
    using Admit_forwarded.hyps(2) queue_set_new [OF _ queued_entry_new] unfolding enqueue_forwarded_def by (metis Inr_inject)
  then show ?case
    by (simp add: admitted_kept_put [OF Admit_forwarded.prems Admit_forwarded.hyps(1)])
next
  case (Claim leaseMs t m peer lease now w verdict st')
  then show ?case
    by (auto simp add: tasks_ok_def intro: claims.tend_kept)
next
  case (Renew leaseMs t m device now w renewed st')
  then show ?case
    by (auto simp add: tasks_ok_def intro: renewals.tend_kept)
next
  case (Forward t worker now w sent st')
  then show ?case
    by (auto simp add: tasks_ok_def intro: present_forward_kept)
next
  case (Forward_calls t c w c')
  then show ?case
    by (auto simp add: tasks_ok_def intro: tended_kept)
next
  case (Forward_ends t c w now released st')
  then show ?case
    by (auto simp add: tasks_ok_def intro: forwardEnded_kept)
next
  case (Ttl_pass now w st')
  then show ?case
    by (auto simp add: tasks_ok_def intro: lifecycle_kept)
next
  case (Sweep now w lost st')
  then show ?case
    by (auto simp add: tasks_ok_def intro: sweeps.tend_kept)
next
  case (Evict w maxSize)
  then show ?case
    by (auto simp add: tasks_ok_def intro: evict_kept)
next
  case (Clean_routes w now)
  then show ?case
    by (auto simp add: tasks_ok_def intro: cleanupTaskRoutes_kept)
next
  case (Clear_peer t w st')
  then show ?case
    by (auto simp add: tasks_ok_def intro!: cleared_peers.tend_kept [of t "tw_tables w"])
next
  case (Route w t executor peer now)
  then show ?case
    by (auto simp add: tasks_ok_def intro!: same_queue_kept intro: subsetD [OF recordTaskRoute_tables(4)])
next
  case (Incidental_token t w worker now)
  then show ?case
    by (auto simp add: tasks_ok_def intro!: same_queue_kept intro: subsetD [OF recordTaskRoute_tables(4)])
next
  case (Token_again w t e)
  then show ?case
    by (auto simp add: tasks_ok_def intro: tended_kept)
next
  case (Peer_forward t w peer worker now)
  then show ?case
    by (auto simp add: tasks_ok_def intro!: same_queue_kept intro: subsetD [OF recordTaskRoute_tables(4)])
next
  case (Answer_arrives w t r d p)
  then show ?case
    by (auto simp add: tasks_ok_def intro: tended_kept)
next
  case (Answer j w now retainMs verdict st')
  then show ?case
    by (auto simp add: tasks_ok_def intro: answer_job_kept)
next
  case (Claim_stored now t d w entry st')
  then show ?case
    using claimStoredAnswer_effect [of epoch "tw_admitted w" "set (tw_jobs w)" "tw_tables w" now t d] by (auto simp add: tasks_ok_def intro: tended_kept)
next
  case (Settle table row w st')
  then show ?case
    using insert_settlement_tables(1,2,3) [OF Settle.hyps] by (auto simp add: tasks_ok_def queue_get_def intro!: same_queue_kept)
next
  case (Mark_settled now t sig w st')
  then show ?case
    by (auto simp add: tasks_ok_def intro: mark_settled_kept)
next
  case (Restart w)
  then show ?case
    by (auto simp add: tasks_ok_def adoptLeases_def intro: tended_kept tended_leased)
qed

subsection \<open>What comes after an entry is gone\<close>

text \<open>A task id is given out once: an admitted task without an entry gets none again, and of its archived answer there is no more than before.\<close>

definition stays_gone :: "string set \<Rightarrow> relay_tasks \<Rightarrow> relay_tasks \<Rightarrow> bool" where
  "stays_gone admitted st st' \<longleftrightarrow> (\<forall>t\<in>admitted. queue_get st t = None \<longrightarrow> queue_get st' t = None
     \<and> (\<forall>a. jsm_get (rk_answers st') t = Some a \<longrightarrow> jsm_get (rk_answers st) t = Some a))"

lemma calm_gone: "calm st st' \<Longrightarrow> stays_gone admitted st st'"
  unfolding stays_gone_def
proof (intro ballI impI)
  fix t assume "calm st st'" and "queue_get st t = None"
  then have "entry_kept None (queue_get st' t)" and "rk_answers st' = rk_answers st"
    by (metis calm_def) (simp add: \<open>calm st st'\<close> [unfolded calm_def same_records_def])
  then show "queue_get st' t = None \<and> (\<forall>a. jsm_get (rk_answers st') t = Some a \<longrightarrow> jsm_get (rk_answers st) t = Some a)"
    by (simp add: entry_kept_def split: option.splits)
qed

lemma same_gone: "(\<And>t. queue_get st' t = queue_get st t) \<Longrightarrow> rk_answers st' = rk_answers st \<Longrightarrow> stays_gone admitted st st'"
  by (simp add: stays_gone_def)

lemma put_gone: "queue_get st t \<noteq> None \<or> t \<notin> admitted \<Longrightarrow> stays_gone admitted st (put_entry t e st)"
  by (auto simp add: stays_gone_def queue_get_put put_entry_def queue_get_def jsm_get_set)

lemma answer_put_gone: "queue_get st t \<noteq> None \<Longrightarrow> stays_gone admitted st (answer_put now t e r v st)"
  by (auto simp add: stays_gone_def)

lemma stays_gone_trans: "stays_gone admitted a b \<Longrightarrow> stays_gone admitted b c \<Longrightarrow> stays_gone admitted a c"
  by (auto simp add: stays_gone_def)

lemma forwardEnded_gone:
  assumes "forwardEnded t c now st = Inr (released, st')"
  shows "stays_gone admitted st st'"
proof (cases c)
  case True
  then show ?thesis
    using assms by (auto intro: calm_gone called_ends.tend_calm)
next
  case False
  then show ?thesis
    using forwardEnded_released_effect [of t now st] assms by (auto intro: calm_gone tended_calm put_gone)
qed

lemma task_step_gone: "task_step epoch sigcheck w w' \<Longrightarrow> tasks_ok epoch w \<Longrightarrow> tw_admitted w \<subseteq> tw_admitted w' \<and> stays_gone (tw_admitted w) (tw_tables w) (tw_tables w')"
proof (induction rule: task_step.induct)
  case (Admit t w m now caps expires submitter mode peer target pin grant presents st')
  obtain e where "st' = recordTaskRoute t (tk_motebit_id (tq_task (queued_entry (submitted_task m now caps) expires submitter None mode peer target pin grant))) []
      RouteAdmission [] now (put_entry t e (tw_tables w))"
    using admit_task_put [OF Admit.prems Admit.hyps(1) queued_entry_new Admit.hyps(2)] by blast
  then show ?case
    using Admit.hyps(1) by (auto intro: stays_gone_trans [OF put_gone calm_gone [OF recordTaskRoute_calm]])
next
  case (Admit_forwarded t w agent origin submitter caps paid ttl now st')
  have "queue_get (recordTaskRoute t agent [] RouteInboundForward origin now (tw_tables w)) t = None"
    using Admit_forwarded.prems Admit_forwarded.hyps(1) by (auto simp add: tasks_ok_def tables_ok_def task_ok_def known_task_def)
  then obtain e where "st' = put_entry t e (recordTaskRoute t agent [] RouteInboundForward origin now (tw_tables w))"
    using Admit_forwarded.hyps(2) queue_set_new [OF _ queued_entry_new] unfolding enqueue_forwarded_def by (metis Inr_inject)
  then show ?case
    using Admit_forwarded.hyps(1) by (auto intro: stays_gone_trans [OF calm_gone [OF recordTaskRoute_calm] put_gone])
next
  case (Claim leaseMs t m peer lease now w verdict st')
  then show ?case by (auto intro: calm_gone claims.tend_calm)
next
  case (Renew leaseMs t m device now w renewed st')
  then show ?case by (auto intro: calm_gone renewals.tend_calm)
next
  case (Forward t worker now w sent st')
  then show ?case by (auto intro: calm_gone present_forward_effect(1))
next
  case (Forward_calls t c w c')
  then show ?case by (simp add: same_gone)
next
  case (Forward_ends t c w now released st')
  then show ?case by (auto intro: forwardEnded_gone)
next
  case (Ttl_pass now w st')
  then show ?case by (auto simp add: tasks_ok_def tables_ok_def intro: calm_gone lifecycle_calm)
next
  case (Sweep now w lost st')
  then show ?case by (auto intro: calm_gone sweeps.tend_calm)
next
  case (Evict w maxSize)
  then show ?case by (auto simp add: tasks_ok_def tables_ok_def intro: calm_gone evict_effect(1))
next
  case (Clean_routes w now)
  then have "jsm_wf (rk_answers (tw_tables w))" by (simp add: tasks_ok_def tables_ok_def)
  then show ?case
    by (auto simp add: stays_gone_def cleanupTaskRoutes_def Let_def queue_get_def jsm_get_filter split: option.splits if_splits)
next
  case (Clear_peer t w st')
  then show ?case by (auto intro!: calm_gone cleared_peers.tend_calm [of t "tw_tables w"])
next
  case (Answer j w now retainMs verdict st')
  then have "tables_ok epoch (tw_admitted w) (set (tw_jobs w)) (tw_tables w)"
    by (simp add: tasks_ok_def)
  from answer_job_effect [OF this Answer.hyps] show ?case
    by (auto intro: answer_put_gone same_gone)
next
  case (Claim_stored now t d w entry st')
  then show ?case
    using claimStoredAnswer_effect [of epoch "tw_admitted w" "set (tw_jobs w)" "tw_tables w" now t d] by (auto simp add: tasks_ok_def intro: same_gone)
next
  case (Settle table row w st')
  then show ?case
    using insert_settlement_tables(1,2) [OF Settle.hyps] by (simp add: same_gone queue_get_def)
next
  case (Mark_settled now t sig w st')
  then show ?case
    using markTaskSettled_effect [of epoch "tw_admitted w" "set (tw_jobs w)" "tw_tables w" now t sig] by (auto simp add: tasks_ok_def intro: answer_put_gone same_gone)
next
  case (Restart w)
  then show ?case by (simp add: same_gone adoptLeases_def)
qed (simp_all add: same_gone)

text \<open>The answer of a task over any number of steps.\<close>

definition answered_with :: "task_world \<Rightarrow> string \<Rightarrow> execution_receipt \<Rightarrow> bool" where
  "answered_with w t r \<longleftrightarrow> t \<in> tw_admitted w \<and> (\<forall>e. queue_get (tw_tables w) t = Some e \<longrightarrow> tq_receipt e = Some r)
     \<and> (\<forall>a. jsm_get (rk_answers (tw_tables w)) t = Some a \<longrightarrow> aa_receipt a = r)"

lemma answered_with_start:
  assumes ok: "tasks_ok epoch w" and got: "queue_get (tw_tables w) t = Some e" and r: "tq_receipt e = Some r"
  shows "answered_with w t r"
proof -
  have "known_task (tw_tables w) t" using got by (simp add: known_task_def)
  then have "t \<in> tw_admitted w" using ok by (auto simp add: tasks_ok_def tables_ok_def task_ok_def)
  then show ?thesis
    using ok got r archive_is_answer by (fastforce simp add: answered_with_def tasks_ok_def)
qed

lemma answered_with_step:
  assumes step: "task_step epoch sigcheck w w'" and ok: "tasks_ok epoch w" and ans: "answered_with w t r"
  shows "answered_with w' t r"
proof (cases "queue_get (tw_tables w) t")
  case None
  then show ?thesis
    using task_step_gone [OF step ok] ans unfolding stays_gone_def answered_with_def by fastforce
next
  case (Some e)
  then show ?thesis
    using task_step_kept [OF step ok] task_step_gone [OF step ok] ans unfolding kept_def answered_with_def by blast
qed

lemma answered_with_runs: "(task_step epoch sigcheck)\<^sup>*\<^sup>* w w' \<Longrightarrow> tasks_ok epoch w \<Longrightarrow> answered_with w t r \<Longrightarrow> tasks_ok epoch w' \<and> answered_with w' t r"
  by (induction rule: rtranclp_induct) (auto intro: task_step_ok answered_with_step)

lemma unsettled_is_archived:
  assumes ok: "tables_ok epoch admitted jobs st" and got: "queue_get st t = Some e" and r: "tq_receipt e = Some r" and "tq_settled e \<noteq> Some True"
  shows "\<exists>a. jsm_get (rk_answers st) t = Some a \<and> aa_receipt a = r"
  using tables_archive(1) [OF ok got] r assms(4) by (cases "jsm_get (rk_answers st) t") (simp_all add: archive_fits_def)

end
