(* ===== verification/TaskProperties.thy ===== *)
theory TaskProperties
  imports TaskSafety
begin

text \<open>
  The properties of the relay's task tables, over every run of \<open>TaskRuns\<close>, with a concrete run for their witnesses: one task is admitted, claimed,
  answered with a failure, answered again, and settled. The last section holds what the code does and its comments say otherwise.
\<close>

subsection \<open>A concrete run\<close>

definition demo_task_check :: "answer_door \<Rightarrow> execution_receipt \<Rightarrow> answer_refusal + string" where
  "demo_task_check door receipt = Inr ''key''"

definition demo_task_receipt :: execution_receipt where
  "demo_task_receipt = \<lparr> rc_task_id = ''t1'', rc_relay_task_id = Some ''t1'', rc_motebit_id = ''bob'', rc_device_id = Some ''d1'', rc_status = RFailed,
     rc_result_hash = ''h'', rc_signature = ''s1'' \<rparr>"

definition demo_task_done :: execution_receipt where
  "demo_task_done = demo_task_receipt\<lparr>rc_status := RCompleted, rc_signature := ''s2''\<rparr>"

definition demo_task_peer :: claiming_peer where
  "demo_task_peer = \<lparr> cp_deviceId = ''d1'', cp_deviceIdVerified = Some True, cp_capabilities = None, cp_authenticatedDid = None, cp_deviceIdDeclared = Some True \<rparr>"

definition demo_task_queued :: task_entry where
  "demo_task_queued = queued_entry (submitted_task ''bob'' 0 None) 600000 (Some ''alice'') None (Some ModeP2p) None (Some ''bob'') (Some ''bob'') (Some ''g1'')"

definition tables_of :: "'e + relay_tasks \<Rightarrow> relay_tasks" where
  "tables_of res = (case res of Inl _ \<Rightarrow> empty_tables | Inr st \<Rightarrow> st)"

definition demo_task_admitted :: relay_tasks where
  "demo_task_admitted = tables_of (admit_task ''t1'' demo_task_queued False 0 empty_tables)"

definition demo_task_claimed :: relay_tasks where
  "demo_task_claimed = tables_of (map_sum id snd (claim TASK_CLAIM_LEASE_MS ''t1'' ''bob'' demo_task_peer True 1 demo_task_admitted))"

definition demo_task_answered :: relay_tasks where
  "demo_task_answered = tables_of (map_sum id snd (answerTask None demo_task_check 5 60000 ''t1'' demo_task_receipt ResultPost (Some (Some ''d1'')) demo_task_claimed demo_task_claimed))"

definition demo_task_row :: settlement_row where
  "demo_task_row = \<lparr> sr_task_id = ''t1'', sr_receipt_signature = Some ''s1'', sr_receipt_hash = ''h'' \<rparr>"

definition demo_task_settled :: relay_tasks where
  "demo_task_settled = tables_of (insert_settlement RelaySettlements demo_task_row demo_task_answered)"

lemma demo_task_admit: "admit_task ''t1'' demo_task_queued False 0 empty_tables = Inr demo_task_admitted"
  by code_simp

lemma demo_task_claim: "claim TASK_CLAIM_LEASE_MS ''t1'' ''bob'' demo_task_peer True 1 demo_task_admitted = Inr (Granted (Some 30000), demo_task_claimed)"
  by code_simp

lemma demo_task_answer:
  "\<exists>v. answerTask None demo_task_check 5 60000 ''t1'' demo_task_receipt ResultPost (Some (Some ''d1'')) demo_task_claimed demo_task_claimed = Inr (v, demo_task_answered)"
  by (rule exI [of _ "taken 5 60000 demo_task_receipt ResultPost (the (queue_get demo_task_claimed ''t1''))"]) code_simp

lemma demo_task_settle: "insert_settlement RelaySettlements demo_task_row demo_task_answered = Inr demo_task_settled"
  by code_simp

definition demo_task_world :: "relay_tasks \<Rightarrow> string list \<Rightarrow> answer_job list \<Rightarrow> task_world" where
  "demo_task_world st runs jobs = \<lparr> tw_tables = st, tw_admitted = {''t1''}, tw_runs = runs, tw_forwards = [], tw_jobs = jobs, tw_handouts = [] \<rparr>"

definition demo_task_job :: "execution_receipt \<Rightarrow> answer_job" where
  "demo_task_job r = \<lparr> aj_task_id = ''t1'', aj_receipt = r, aj_door = ResultPost, aj_presenter = Some (Some ''d1''), aj_before = demo_task_claimed \<rparr>"

lemma demo_task_step_admit: "task_step None demo_task_check fresh_tasks (demo_task_world demo_task_admitted [] [])"
proof -
  have "admits ''t1'' fresh_tasks"
    by (simp add: fresh_tasks_def empty_tables_def settlementRowsFor_def)
  moreover have "admit_task ''t1'' demo_task_queued False 0 (tw_tables fresh_tasks) = Inr demo_task_admitted"
    using demo_task_admit by (simp add: fresh_tasks_def)
  ultimately have "task_step None demo_task_check fresh_tasks (fresh_tasks\<lparr>tw_tables := demo_task_admitted, tw_admitted := insert ''t1'' (tw_admitted fresh_tasks),
      tw_runs := (if False then ''t1'' # tw_runs fresh_tasks else tw_runs fresh_tasks)\<rparr>)"
    unfolding demo_task_queued_def by (rule task_step.Admit)
  then show ?thesis
    by (simp add: demo_task_world_def fresh_tasks_def)
qed

lemma demo_task_step_claim: "task_step None demo_task_check (demo_task_world demo_task_admitted [] []) (demo_task_world demo_task_claimed [''t1''] [])"
  using task_step.Claim [where w = "demo_task_world demo_task_admitted [] []" and epoch = None and sigcheck = demo_task_check, simplified demo_task_world_def task_world.simps, OF demo_task_claim]
  by (simp add: demo_task_world_def)

lemma demo_task_step_arrive: "task_step None demo_task_check (demo_task_world demo_task_claimed [''t1''] jobs) (demo_task_world demo_task_claimed [''t1''] (demo_task_job r # jobs))"
  using task_step.Answer_arrives [of None demo_task_check "demo_task_world demo_task_claimed [''t1''] jobs" "''t1''" r ResultPost "Some (Some ''d1'')"]
  by (simp add: demo_task_world_def demo_task_job_def)

lemma demo_task_step_answer:
  "task_step None demo_task_check (demo_task_world demo_task_claimed [''t1''] [demo_task_job demo_task_receipt, demo_task_job demo_task_done]) (demo_task_world demo_task_answered [''t1''] [demo_task_job demo_task_done])"
proof -
  let ?w = "demo_task_world demo_task_claimed [''t1''] [demo_task_job demo_task_receipt, demo_task_job demo_task_done]"
  obtain v where "answerTask None demo_task_check 5 60000 (aj_task_id (demo_task_job demo_task_receipt)) (aj_receipt (demo_task_job demo_task_receipt)) (aj_door (demo_task_job demo_task_receipt))
      (aj_presenter (demo_task_job demo_task_receipt)) (aj_before (demo_task_job demo_task_receipt)) (tw_tables ?w) = Inr (v, demo_task_answered)"
    using demo_task_answer by (auto simp add: demo_task_job_def demo_task_world_def)
  from task_step.Answer [OF _ this] show ?thesis
    by (simp add: demo_task_world_def)
qed

lemma demo_task_step_settle:
  "task_step None demo_task_check (demo_task_world demo_task_answered [''t1''] [demo_task_job demo_task_done]) (demo_task_world demo_task_settled [''t1''] [demo_task_job demo_task_done])"
  using task_step.Settle [of RelaySettlements demo_task_row "demo_task_world demo_task_answered [''t1''] [demo_task_job demo_task_done]" demo_task_settled None demo_task_check] demo_task_settle
  by (simp add: demo_task_world_def)

lemma demo_task_run_answered: "(task_step None demo_task_check)\<^sup>*\<^sup>* fresh_tasks (demo_task_world demo_task_answered [''t1''] [demo_task_job demo_task_done])"
  using demo_task_step_admit demo_task_step_claim demo_task_step_arrive demo_task_step_answer by (meson rtranclp.rtrancl_refl rtranclp.rtrancl_into_rtrancl)

lemma demo_task_run_settled: "(task_step None demo_task_check)\<^sup>*\<^sup>* fresh_tasks (demo_task_world demo_task_settled [''t1''] [demo_task_job demo_task_done])"
  using demo_task_run_answered demo_task_step_settle by (rule rtranclp.rtrancl_into_rtrancl)

subsection \<open>Properties\<close>

lemma task_runs_tables:
  assumes "(task_step epoch sigcheck)\<^sup>*\<^sup>* fresh_tasks w"
  shows "tables_ok epoch (tw_admitted w) (set (tw_jobs w)) (tw_tables w)"
  using task_runs_ok [OF assms] by (simp add: tasks_ok_def)

text \<open>
  (C10) One task, one grant: whatever bodies claim, forwards start, fail or are cut off by a restart, leases lapse, passes run and answers arrive, and in any order, a task is
  granted to at most one presenter, and while it can still be claimed or forwarded, to none. So a task is handed out for execution at most once, and an open one not at
  all, beside what the relay hands out without taking the grant: incidental dispatch tokens, tokens minted again on a retry, and forwards to a peer relay. Those are the limits
  (2) and (5) that \<open>docs/doctrine/task-admission.md\<close> states; that a body runs only on its grant is the protocol of the bodies, not of this relay.
\<close>
theorem one_execution_per_task:
  assumes "(task_step epoch sigcheck)\<^sup>*\<^sup>* fresh_tasks w"
  shows "grants w t \<le> 1 \<and> executions w t \<le> 1 + count_list (tw_handouts w) t
    \<and> (\<forall>e. queue_get (tw_tables w) t = Some e \<longrightarrow> openTask e \<longrightarrow> grants w t = 0 \<and> executions w t = count_list (tw_handouts w) t)"
proof -
  have "grants_ok w t"
    using task_runs_ok [OF assms] by (simp add: tasks_ok_def)
  then have "grants w t \<le> 1" and "\<forall>e. queue_get (tw_tables w) t = Some e \<longrightarrow> openTask e \<longrightarrow> grants w t = 0"
    by (simp_all add: grants_ok_def)
  moreover have "executions w t = count_list (tw_handouts w) t" if "grants w t = 0"
    using executions_le_grants [of w t] that by (simp add: executions_def)
  ultimately show ?thesis
    using executions_le_grants [of w t] by (auto intro: le_trans)
qed

theorem one_execution_per_task_witness:
  "executions (demo_task_world demo_task_settled [''t1''] [demo_task_job demo_task_done]) ''t1'' = 1
   \<and> executions (demo_task_world demo_task_settled [''t1''] [demo_task_job demo_task_done]) ''t1''
     \<le> 1 + count_list (tw_handouts (demo_task_world demo_task_settled [''t1''] [demo_task_job demo_task_done])) ''t1''"
  using one_execution_per_task [OF demo_task_run_settled, of "''t1''"] by (simp add: executions_def demo_task_world_def)

text \<open>The bound is met: a task whose submission was answered with an incidental token can still be claimed, and is then out twice.\<close>

lemma incidental_token_beside_a_claim:
  "\<exists>w. (task_step None demo_task_check)\<^sup>*\<^sup>* fresh_tasks w \<and> grants w ''t1'' = 1 \<and> executions w ''t1'' = 2"
proof -
  let ?token = "\<lambda>w. w\<lparr>tw_tables := recordTaskRoute ''t1'' ''bob'' [] RouteAdmission [] 0 (tw_tables w), tw_handouts := ''t1'' # tw_handouts w\<rparr>"
  let ?w = "?token (demo_task_world demo_task_admitted [] [])"
  have same: "tw_tables ?w = demo_task_admitted"
    by (simp add: demo_task_world_def) code_simp
  have "task_step None demo_task_check (demo_task_world demo_task_admitted [] []) ?w"
    by (rule task_step.Incidental_token) (simp add: demo_task_world_def)
  moreover have "task_step None demo_task_check ?w (?w\<lparr>tw_tables := demo_task_claimed, tw_runs := ''t1'' # tw_runs ?w\<rparr>)"
  proof -
    have "claim TASK_CLAIM_LEASE_MS ''t1'' ''bob'' demo_task_peer True 1 (tw_tables ?w) = Inr (Granted (Some 30000), demo_task_claimed)"
      unfolding same by (rule demo_task_claim)
    from task_step.Claim [OF this, of None demo_task_check] show ?thesis
      by simp
  qed
  ultimately have "(task_step None demo_task_check)\<^sup>*\<^sup>* fresh_tasks (?w\<lparr>tw_tables := demo_task_claimed, tw_runs := ''t1'' # tw_runs ?w\<rparr>)"
    using demo_task_step_admit by (meson rtranclp.rtrancl_refl rtranclp.rtrancl_into_rtrancl)
  moreover have "grants (?w\<lparr>tw_tables := demo_task_claimed, tw_runs := ''t1'' # tw_runs ?w\<rparr>) ''t1'' = 1"
    and "executions (?w\<lparr>tw_tables := demo_task_claimed, tw_runs := ''t1'' # tw_runs ?w\<rparr>) ''t1'' = 2"
    by (simp_all add: grants_def executions_def demo_task_world_def)
  ultimately show ?thesis
    by blast
qed

text \<open>
  (C11) An answer and its settlement are one decision: in every run a task has at most one settlement row over both tables, and while the task is queued that row
  names the signature of the entry's own answer, which is bound to this task, comes from the agent the task is pinned to where it is pinned, and from
  the worker it was paid to where it was paid peer to peer.
\<close>
theorem settlement_names_the_answer:
  assumes "(task_step epoch sigcheck)\<^sup>*\<^sup>* fresh_tasks w" and "t \<noteq> []"
  shows "length (settlementRowsFor (tw_tables w) t) \<le> 1
    \<and> (\<forall>e row. queue_get (tw_tables w) t = Some e \<longrightarrow> row \<in> set (settlementRowsFor (tw_tables w) t) \<longrightarrow>
        (\<exists>r. tq_receipt e = Some r \<and> sr_receipt_signature row = Some (rc_signature r) \<and> receiptRelayTaskId r = t
          \<and> executorAllowed (pinOf e) (rc_motebit_id r) \<and> (tq_settlement_mode e = Some ModeP2p \<longrightarrow> rc_motebit_id r = p2pPayeeOf e)))"
proof -
  note ok = task_runs_tables [OF assms(1)]
  have fit: "rows_fit (tw_tables w) t"
    using ok assms(2) by (simp add: tables_ok_def task_ok_def)
  have "\<exists>r. tq_receipt e = Some r \<and> sr_receipt_signature row = Some (rc_signature r) \<and> receiptRelayTaskId r = t
      \<and> executorAllowed (pinOf e) (rc_motebit_id r) \<and> (tq_settlement_mode e = Some ModeP2p \<longrightarrow> rc_motebit_id r = p2pPayeeOf e)"
    if got: "queue_get (tw_tables w) t = Some e" and row: "row \<in> set (settlementRowsFor (tw_tables w) t)" for e row
  proof -
    have "known_task (tw_tables w) t"
      using got by (simp add: known_task_def)
    then obtain s where s: "sr_receipt_signature row = Some s" "tq_settling e = Some s"
      using fit row got by (auto simp add: rows_fit_def list_all_iff claimed_for_def split: option.splits)
    obtain r where "tq_receipt e = Some r" and "rc_signature r = s"
      using tables_archive(2) [OF ok got] s(2) by (rule claimed_answer_fits)
    then show ?thesis
      using s answered_entry_frozen(3,4) [OF ok got] by (auto simp add: answer_allowed_def)
  qed
  then show ?thesis
    using fit by (auto simp add: rows_fit_def)
qed

theorem settlement_names_the_answer_witness:
  "settlementRowsFor demo_task_settled ''t1'' = [demo_task_row] \<and> (\<exists>e r. queue_get demo_task_settled ''t1'' = Some e \<and> tq_receipt e = Some r \<and> rc_signature r = ''s1''
     \<and> rc_motebit_id r = p2pPayeeOf e)"
proof -
  have rows: "settlementRowsFor demo_task_settled ''t1'' = [demo_task_row]" and mode: "map_option tq_settlement_mode (queue_get demo_task_settled ''t1'') = Some (Some ModeP2p)"
    by code_simp+
  then obtain e where e: "queue_get demo_task_settled ''t1'' = Some e" "tq_settlement_mode e = Some ModeP2p"
    by auto
  have "tw_tables (demo_task_world demo_task_settled [''t1''] [demo_task_job demo_task_done]) = demo_task_settled"
    by (simp add: demo_task_world_def)
  then obtain r where "tq_receipt e = Some r" "sr_receipt_signature demo_task_row = Some (rc_signature r)" "rc_motebit_id r = p2pPayeeOf e"
    using settlement_names_the_answer [OF demo_task_run_settled, of "''t1''"] rows e by auto
  then show ?thesis
    using rows e by (auto simp add: demo_task_row_def)
qed

text \<open>
  (C12) A task's answer never changes, in tables that this code wrote from the start: once an entry holds a receipt, then after any further pieces of the relay the entry, where it
  is still there, holds that receipt; what the archive holds for the task, also after the entry is gone, is that receipt; while the entry is there and not settled the archive does
  hold it; and it was given by someone the pin and the payment allow. The rule that lets a completed answer replace a failed one (\<open>answerRule\<close>) is for entries that
  an earlier version answered without claiming them; no run from empty tables has one.
\<close>
theorem answers_never_change:
  assumes "(task_step epoch sigcheck)\<^sup>*\<^sup>* fresh_tasks w" and "(task_step epoch sigcheck)\<^sup>*\<^sup>* w w'"
    and "queue_get (tw_tables w) t = Some e" and "tq_receipt e = Some r"
  shows "(\<forall>e'. queue_get (tw_tables w') t = Some e' \<longrightarrow> tq_receipt e' = Some r)
    \<and> (\<forall>a. jsm_get (rk_answers (tw_tables w')) t = Some a \<longrightarrow> aa_receipt a = r)
    \<and> (\<forall>e'. queue_get (tw_tables w') t = Some e' \<longrightarrow> tq_settled e' \<noteq> Some True \<longrightarrow> (\<exists>a. jsm_get (rk_answers (tw_tables w')) t = Some a \<and> aa_receipt a = r))
    \<and> executorAllowed (pinOf e) (rc_motebit_id r) \<and> (tq_settlement_mode e = Some ModeP2p \<longrightarrow> rc_motebit_id r = p2pPayeeOf e)"
proof -
  note ok = task_runs_ok [OF assms(1)]
  have "answer_allowed e r"
    using task_runs_tables [OF assms(1)] assms(3,4) by (rule answered_entry_frozen(3))
  moreover have "tasks_ok epoch w'" and "answered_with w' t r"
    using answered_with_runs [OF assms(2) ok answered_with_start [OF ok assms(3,4)]] by simp_all
  ultimately show ?thesis
    using unsettled_is_archived [of epoch "tw_admitted w'" "set (tw_jobs w')" "tw_tables w'" t]
    by (simp add: answered_with_def answer_allowed_def tasks_ok_def)
qed

text \<open>The run goes on after the answer: it is settled, and another receipt, which waited for its signature check, arrives at the write.\<close>

definition demo_task_late :: relay_tasks where
  "demo_task_late = tables_of (map_sum id snd (answerTask None demo_task_check 6 60000 ''t1'' demo_task_done ResultPost (Some (Some ''d1'')) demo_task_claimed demo_task_settled))"

lemma demo_task_step_late:
  "task_step None demo_task_check (demo_task_world demo_task_settled [''t1''] [demo_task_job demo_task_done]) (demo_task_world demo_task_late [''t1''] [])"
proof -
  let ?w = "demo_task_world demo_task_settled [''t1''] [demo_task_job demo_task_done]"
  let ?a = "answerTask None demo_task_check 6 60000 ''t1'' demo_task_done ResultPost (Some (Some ''d1'')) demo_task_claimed demo_task_settled"
  have "\<not> isl ?a" by code_simp
  then obtain v where "?a = Inr (v, demo_task_late)"
    by (cases ?a) (auto simp add: demo_task_late_def tables_of_def)
  then have "answerTask None demo_task_check 6 60000 (aj_task_id (demo_task_job demo_task_done)) (aj_receipt (demo_task_job demo_task_done)) (aj_door (demo_task_job demo_task_done))
      (aj_presenter (demo_task_job demo_task_done)) (aj_before (demo_task_job demo_task_done)) (tw_tables ?w) = Inr (v, demo_task_late)"
    by (simp add: demo_task_job_def demo_task_world_def)
  from task_step.Answer [OF _ this] show ?thesis
    by (simp add: demo_task_world_def)
qed

theorem answers_never_change_witness:
  "map_option tq_receipt (queue_get demo_task_late ''t1'') = Some (Some demo_task_receipt)
   \<and> map_option aa_receipt (jsm_get (rk_answers demo_task_late) ''t1'') = Some demo_task_receipt"
proof -
  have before: "map_option tq_receipt (queue_get demo_task_answered ''t1'') = Some (Some demo_task_receipt)" and after: "queue_get demo_task_late ''t1'' \<noteq> None"
    and unsettled: "map_option tq_settled (queue_get demo_task_late ''t1'') \<noteq> Some (Some True)"
    by code_simp+
  then obtain e e' where e: "queue_get demo_task_answered ''t1'' = Some e" "tq_receipt e = Some demo_task_receipt"
    and e': "queue_get demo_task_late ''t1'' = Some e'" "tq_settled e' \<noteq> Some True"
    by auto
  have tables: "tw_tables (demo_task_world st runs jobs) = st" for st runs jobs
    by (simp add: demo_task_world_def)
  have run: "(task_step None demo_task_check)\<^sup>*\<^sup>* (demo_task_world demo_task_answered [''t1''] [demo_task_job demo_task_done]) (demo_task_world demo_task_late [''t1''] [])"
    using demo_task_step_settle demo_task_step_late by (meson rtranclp.rtrancl_refl rtranclp.rtrancl_into_rtrancl)
  show ?thesis
    using answers_never_change [OF demo_task_run_answered run, of "''t1''" e demo_task_receipt, unfolded tables, OF e] e' by auto
qed

text \<open>
  (C13) Nothing whose outcome is open is dropped: an entry that is granted and unanswered, or answered and claimed but not settled, is never removed by a pass, by the size
  cap or by anything else; and while a claim is unsettled its archived answer and every route of its task are kept, however old.
\<close>
theorem unresolved_tasks_are_kept:
  assumes "(task_step epoch sigcheck)\<^sup>*\<^sup>* fresh_tasks w" and "task_step epoch sigcheck w w'" and "queue_get (tw_tables w) t = Some e"
  shows "(heldClaim e \<or> heldGrant e \<longrightarrow> queue_get (tw_tables w') t \<noteq> None)
    \<and> (heldClaim e \<longrightarrow> jsm_get (rk_answers (tw_tables w')) t \<noteq> None
        \<and> (\<forall>route\<in>set (rk_routes (tw_tables w)). ro_task_id route = t \<longrightarrow> route \<in> set (rk_routes (tw_tables w'))))"
  using task_step_kept [OF assms(2) task_runs_ok [OF assms(1)]] assms(3) unfolding kept_def by blast

definition demo_task_years_later :: relay_tasks where
  "demo_task_years_later = cleanupTaskRoutes 100000000000 demo_task_answered"

theorem unresolved_tasks_are_kept_witness:
  "queue_get demo_task_years_later ''t1'' \<noteq> None \<and> jsm_get (rk_answers demo_task_years_later) ''t1'' \<noteq> None \<and> length (rk_routes demo_task_years_later) = 1"
proof -
  have held: "map_option heldClaim (queue_get demo_task_answered ''t1'') = Some True" and routes: "length (rk_routes demo_task_years_later) = 1"
    by code_simp+
  then obtain e where e: "queue_get demo_task_answered ''t1'' = Some e" "heldClaim e"
    by auto
  let ?w = "demo_task_world demo_task_answered [''t1''] [demo_task_job demo_task_done]"
  have "task_step None demo_task_check ?w (demo_task_world demo_task_years_later [''t1''] [demo_task_job demo_task_done])"
    using task_step.Clean_routes [of None demo_task_check ?w 100000000000] by (simp add: demo_task_world_def demo_task_years_later_def)
  from unresolved_tasks_are_kept [OF demo_task_run_answered this, of "''t1''" e] show ?thesis
    using e routes by (simp add: demo_task_world_def)
qed

text \<open>
  (C38) A checked answer is taken: when the checks on the entry as it was first read pass, the signature verifies, and the entry as it is after the wait is unanswered and its claim
  does not refuse the presenter, then the write goes through whatever happened in between: the entry holds the receipt with its status, is claimed for
  its signature, and the archive holds it too.
\<close>
theorem checked_answer_is_taken:
  assumes run: "(task_step epoch sigcheck)\<^sup>*\<^sup>* fresh_tasks w" and j: "j \<in> set (tw_jobs w)"
    and checks: "answer_checks epoch (aj_before j) (aj_task_id j) (aj_receipt j) (aj_door j) = None"
    and sig: "verifySignature sigcheck (aj_door j) (aj_receipt j) = Inr key"
    and got: "queue_get (tw_tables w) (aj_task_id j) = Some e" and none: "tq_receipt e = None"
    and unclaimed: "\<And>did. aj_presenter j = Some did \<Longrightarrow> \<not> claimRefusesAnswer e (answeringDid e did (aj_receipt j))"
  shows "\<exists>taken_answer st' e' a. answerTask epoch sigcheck now retainMs (aj_task_id j) (aj_receipt j) (aj_door j) (aj_presenter j) (aj_before j) (tw_tables w) = Inr (Took taken_answer, st')
    \<and> at_first taken_answer \<and> queue_get st' (aj_task_id j) = Some e' \<and> tq_receipt e' = Some (aj_receipt j) \<and> tk_status (tq_task e') = statusOf (aj_receipt j)
    \<and> tq_settling e' = Some (rc_signature (aj_receipt j)) \<and> jsm_get (rk_answers st') (aj_task_id j) = Some a \<and> aa_receipt a = aj_receipt j"
  using answer_write_first [OF task_runs_tables [OF run] got none, of "aj_presenter j" "aj_receipt j" now retainMs "aj_door j"] unclaimed checks sig
  by (auto simp add: answerTask_def taken_def archived_of_def answered_entry_def)

theorem checked_answer_is_taken_witness:
  "\<exists>taken_answer st' e'. answerTask None demo_task_check 5 60000 ''t1'' demo_task_receipt ResultPost (Some (Some ''d1'')) demo_task_claimed demo_task_claimed = Inr (Took taken_answer, st')
    \<and> at_first taken_answer \<and> queue_get st' ''t1'' = Some e' \<and> tq_receipt e' = Some demo_task_receipt"
proof -
  let ?w = "demo_task_world demo_task_claimed [''t1''] [demo_task_job demo_task_receipt, demo_task_job demo_task_done]"
  have run: "(task_step None demo_task_check)\<^sup>*\<^sup>* fresh_tasks ?w"
    using demo_task_step_admit demo_task_step_claim demo_task_step_arrive by (meson rtranclp.rtrancl_refl rtranclp.rtrancl_into_rtrancl)
  have job: "demo_task_job demo_task_receipt \<in> set (tw_jobs ?w)" and tables: "tw_tables ?w = demo_task_claimed"
    by (simp_all add: demo_task_world_def)
  have checks: "answer_checks None (aj_before (demo_task_job demo_task_receipt)) (aj_task_id (demo_task_job demo_task_receipt)) (aj_receipt (demo_task_job demo_task_receipt)) (aj_door (demo_task_job demo_task_receipt)) = None"
    and sig: "verifySignature demo_task_check (aj_door (demo_task_job demo_task_receipt)) (aj_receipt (demo_task_job demo_task_receipt)) = Inr ''key''"
    by code_simp+
  have entry: "(case queue_get demo_task_claimed ''t1'' of None \<Rightarrow> False | Some e \<Rightarrow> tq_receipt e = None \<and> \<not> claimRefusesAnswer e (answeringDid e (Some ''d1'') demo_task_receipt))"
    by code_simp
  then obtain e where e: "queue_get (tw_tables ?w) (aj_task_id (demo_task_job demo_task_receipt)) = Some e" "tq_receipt e = None"
    "\<not> claimRefusesAnswer e (answeringDid e (Some ''d1'') demo_task_receipt)"
    unfolding tables by (auto simp add: demo_task_job_def split: option.splits)
  have "\<not> claimRefusesAnswer e (answeringDid e did (aj_receipt (demo_task_job demo_task_receipt)))" if "aj_presenter (demo_task_job demo_task_receipt) = Some did" for did
    using e(3) that by (simp add: demo_task_job_def)
  from checked_answer_is_taken [OF run job checks sig e(1,2) this, of 5 60000] show ?thesis
    unfolding tables by (auto simp add: demo_task_job_def)
qed

subsection \<open>Where code and comments differ\<close>

text \<open>
  The module comment of \<open>task-answer.ts\<close> and the rule itself let a verified completed receipt replace a failed or denied one while the answer is
  unsettled. Every answer is claimed in the write that takes it, and a claimed answer is frozen, so on tables this code wrote the replacement never happens.
\<close>
theorem failed_answer_is_never_replaced:
  assumes run: "(task_step epoch sigcheck)\<^sup>*\<^sup>* fresh_tasks w"
    and res: "answerTask epoch sigcheck now retainMs t r d p before (tw_tables w) = Inr (Took taken_answer, st')"
  shows "\<not> at_replaced taken_answer"
proof -
  note ok = task_runs_tables [OF run]
  have wrote: "answer_write now retainMs t r d p (tw_tables w) = Inr (Took taken_answer, st')"
    using res by (auto simp add: answerTask_def split: option.splits sum.splits)
  then obtain e where got: "queue_get (tw_tables w) t = Some e"
    by (cases "queue_get (tw_tables w) t") (simp_all add: answer_write_def)
  show ?thesis
  proof (cases "tq_receipt e")
    case (Some r0)
    then show ?thesis
      using answer_write_again [OF ok got Some, of now retainMs r d p] wrote by auto
  next
    case None
    have "\<not> claimRefusesAnswer e (answeringDid e did r)" if "p = Some did" for did
      using wrote got that by (auto simp add: answer_write_def)
    then show ?thesis
      using answer_write_first [OF ok got None, of p r now retainMs d] wrote by (simp add: taken_def)
  qed
qed

text \<open>A receipt that completes a task answered as failed is refused as already answered.\<close>
theorem completed_after_failed_is_refused:
  "answerTask None demo_task_check 6 60000 ''t1'' demo_task_done ResultPost (Some (Some ''d1'')) demo_task_claimed demo_task_answered
    = Inr (NotTook Answered (Some demo_task_receipt), demo_task_answered)"
  by code_simp

text \<open>The grant id of a submission is documented as persisted for audit lineage; the stored entry has none.\<close>
theorem grant_id_is_not_stored: "map_option tq_grant_id (queue_get demo_task_admitted ''t1'') = Some None \<and> tq_grant_id demo_task_queued = Some ''g1''"
  by code_simp

end
