(* ===== verification/Idempotency.thy ===== *)
theory Idempotency
  imports TaskAnswer
begin

text \<open>
  One key admits one task and one payment proof admits one task, \<open>services/relay/src/idempotency.ts\<close>: the claims on idempotency keys and on the
  payment proofs of peer-to-peer tasks, and the admission transaction of \<open>tasks.ts\<close> that binds both to the queued task. Runs are over every
  interleaving of requests with one clock that does not run backwards; a world remembers which admissions were made under which claim.
\<close>

subsection \<open>Tables and operations\<close>

definition IDEMPOTENCY_TTL_MS :: int where "IDEMPOTENCY_TTL_MS = 24 * 60 * 60 * 1000"

datatype idem_status = Processing | Completed

record idem_record =
  ir_key :: string
  ir_motebit_id :: string
  ir_status :: idem_status
  ir_response_status :: "int option"
  ir_response_body :: "string option"
  ir_created_at :: int
  ir_completed_at :: "int option"
  ir_task_id :: "string option"

record proof_claim =
  pc_tx_hash :: string
  pc_task_id :: string
  pc_submitted_by :: string
  pc_submitter_verified :: bool
  pc_claimed_at :: int

record idem_db =
  id_keys :: "idem_record list"
  id_proofs :: "proof_claim list"

datatype idem_check = Proceed | Replay int string | Conflict "string option"

datatype admission_error = NotAnUnboundClaim | ProofAlreadyAdmitted proof_claim | QueueRefused queue_error

definition same_key :: "string \<Rightarrow> string \<Rightarrow> idem_record \<Rightarrow> bool" where
  "same_key key motebitId r \<longleftrightarrow> ir_key r = key \<and> ir_motebit_id r = motebitId"

definition checkIdempotency :: "int \<Rightarrow> string \<Rightarrow> string \<Rightarrow> idem_db \<Rightarrow> idem_check \<times> idem_db" where
  "checkIdempotency now key motebitId db =
     (case find (same_key key motebitId) (id_keys db) of
        None \<Rightarrow> (Proceed, db\<lparr>id_keys := id_keys db @ [\<lparr> ir_key = key, ir_motebit_id = motebitId, ir_status = Processing, ir_response_status = None,
            ir_response_body = None, ir_created_at = now, ir_completed_at = None, ir_task_id = None \<rparr>]\<rparr>)
      | Some existing \<Rightarrow>
          (case (ir_status existing, ir_response_status existing, ir_response_body existing) of
             (Completed, Some status, Some body) \<Rightarrow> (Replay status body, db)
           | _ \<Rightarrow> (Conflict (ir_task_id existing), db)))"

definition idempotencyClaimExists :: "string \<Rightarrow> string \<Rightarrow> idem_db \<Rightarrow> bool" where
  "idempotencyClaimExists key motebitId db \<longleftrightarrow> find (same_key key motebitId) (id_keys db) \<noteq> None"

definition update_keys :: "(idem_record \<Rightarrow> bool) \<Rightarrow> (idem_record \<Rightarrow> idem_record) \<Rightarrow> idem_db \<Rightarrow> nat \<times> idem_db" where
  \<comment> \<open>an UPDATE with its number of changed rows\<close>
  "update_keys P f db = (length (filter P (id_keys db)), db\<lparr>id_keys := map (\<lambda>r. if P r then f r else r) (id_keys db)\<rparr>)"

definition complete_row :: "int \<Rightarrow> int \<Rightarrow> string \<Rightarrow> idem_record \<Rightarrow> idem_record" where
  "complete_row now status body r = r\<lparr>ir_status := Completed, ir_response_status := Some status, ir_response_body := Some body, ir_completed_at := Some now\<rparr>"

definition completeIdempotency :: "int \<Rightarrow> string \<Rightarrow> string \<Rightarrow> int \<Rightarrow> string \<Rightarrow> idem_db \<Rightarrow> idem_db" where
  "completeIdempotency now key motebitId status body db = snd (update_keys (same_key key motebitId) (complete_row now status body) db)"

definition unbound_claim :: "string \<Rightarrow> string \<Rightarrow> idem_record \<Rightarrow> bool" where
  "unbound_claim key motebitId r \<longleftrightarrow> same_key key motebitId r \<and> ir_status r = Processing \<and> ir_task_id r = None"

definition bindIdempotencyClaimToTask :: "string \<Rightarrow> string \<Rightarrow> string \<Rightarrow> idem_db \<Rightarrow> admission_error + idem_db" where
  "bindIdempotencyClaimToTask key motebitId taskId db =
     (let (changes, db') = update_keys (unbound_claim key motebitId) (\<lambda>r. r\<lparr>ir_task_id := Some taskId\<rparr>) db
      in if changes \<noteq> 1 then Inl NotAnUnboundClaim else Inr db')"

definition recordAdmittedOutcome :: "int \<Rightarrow> string \<Rightarrow> string \<Rightarrow> string \<Rightarrow> int \<Rightarrow> string \<Rightarrow> idem_db \<Rightarrow> bool \<times> idem_db" where
  "recordAdmittedOutcome now key motebitId taskId status body db =
     (let (changes, db') = update_keys (\<lambda>r. same_key key motebitId r \<and> ir_task_id r = Some taskId \<and> ir_status r = Processing) (complete_row now status body) db
      in (changes > 0, db'))"

definition releaseIdempotency :: "string \<Rightarrow> string \<Rightarrow> idem_db \<Rightarrow> idem_db" where
  "releaseIdempotency key motebitId db = db\<lparr>id_keys := filter (\<lambda>r. \<not> unbound_claim key motebitId r) (id_keys db)\<rparr>"

definition cleanupIdempotencyKeys :: "int \<Rightarrow> idem_db \<Rightarrow> idem_db" where
  "cleanupIdempotencyKeys now db = db\<lparr>id_keys := filter (\<lambda>r. \<not> ir_created_at r < now - IDEMPOTENCY_TTL_MS) (id_keys db)\<rparr>"

definition p2pProofKey :: "string \<Rightarrow> string" where
  "p2pProofKey txHash = txHash"

definition findP2pProofClaim :: "string \<Rightarrow> idem_db \<Rightarrow> proof_claim option" where
  "findP2pProofClaim txHash db = find (\<lambda>c. pc_tx_hash c = p2pProofKey txHash) (id_proofs db)"

definition bindP2pProofToTask :: "int \<Rightarrow> string \<Rightarrow> string \<Rightarrow> string \<Rightarrow> bool \<Rightarrow> idem_db \<Rightarrow> proof_claim option \<times> idem_db" where
  \<comment> \<open>none when the proof is bound to this task now, else the claim that holds it\<close>
  "bindP2pProofToTask now txHash taskId submittedBy submitterVerified db =
     (case findP2pProofClaim txHash db of
        None \<Rightarrow> (None, db\<lparr>id_proofs := id_proofs db @ [\<lparr> pc_tx_hash = p2pProofKey txHash, pc_task_id = taskId, pc_submitted_by = submittedBy,
            pc_submitter_verified = submitterVerified, pc_claimed_at = now \<rparr>]\<rparr>)
      | Some existing \<Rightarrow> (if pc_task_id existing = taskId then (None, db) else (Some existing, db)))"

record p2p_proof =
  pp_tx_hash :: string
  pp_submitted_by :: string
  pp_submitter_verified :: bool

definition bind_proof :: "int \<Rightarrow> p2p_proof option \<Rightarrow> string \<Rightarrow> idem_db \<Rightarrow> admission_error + idem_db" where
  "bind_proof now proof taskId db =
     (case proof of
        None \<Rightarrow> Inr db
      | Some p \<Rightarrow>
          (case bindP2pProofToTask now (pp_tx_hash p) taskId (pp_submitted_by p) (pp_submitter_verified p) db of
             (None, db') \<Rightarrow> Inr db'
           | (Some existing, _) \<Rightarrow> Inl (ProofAlreadyAdmitted existing)))"

definition admission :: "int \<Rightarrow> string \<Rightarrow> string \<Rightarrow> string \<Rightarrow> p2p_proof option \<Rightarrow> task_entry \<Rightarrow> bool \<Rightarrow> idem_db \<Rightarrow> relay_tasks \<Rightarrow> admission_error + idem_db \<times> relay_tasks" where
  \<comment> \<open>the admission transaction without the budget hold: a refusal rolls all of it back\<close>
  "admission now key motebitId taskId proof queued submitterPresenter db st =
     (case bindIdempotencyClaimToTask key motebitId taskId db of
        Inl err \<Rightarrow> Inl err
      | Inr db1 \<Rightarrow>
          (case bind_proof now proof taskId db1 of
             Inl err \<Rightarrow> Inl err
           | Inr db2 \<Rightarrow>
               (case admit_task taskId queued submitterPresenter now st of
                  Inl err \<Rightarrow> Inl (QueueRefused err)
                | Inr st' \<Rightarrow> Inr (db2, st'))))"

definition forwarded_admission :: "int \<Rightarrow> string \<Rightarrow> p2p_proof option \<Rightarrow> string \<Rightarrow> string \<Rightarrow> string option \<Rightarrow> string list option \<Rightarrow> int \<Rightarrow> idem_db \<Rightarrow> relay_tasks \<Rightarrow>
    admission_error + idem_db \<times> relay_tasks" where
  \<comment> \<open>a peer's forward: the proof, when it sends one, and the task\<close>
  "forwarded_admission now taskId proof targetAgent originRelay submitter caps taskTtlMs db st =
     (case bind_proof now proof taskId db of
        Inl err \<Rightarrow> Inl err
      | Inr db' \<Rightarrow>
          (case enqueue_forwarded taskId targetAgent originRelay submitter caps (proof \<noteq> None) taskTtlMs now st of
             Inl err \<Rightarrow> Inl (QueueRefused err)
           | Inr st' \<Rightarrow> Inr (db', st')))"

subsection \<open>Runs\<close>

record admission_note =
  an_key :: string
  an_motebit_id :: string
  an_task_id :: string
  an_claimed_at :: int

record idem_world =
  iw_db :: idem_db
  iw_tables :: relay_tasks
  iw_now :: int
  iw_admissions :: "admission_note list" \<comment> \<open>in their order\<close>
  iw_paid :: "(string \<times> string) list" \<comment> \<open>a transaction and the task it admitted\<close>

definition claim_time :: "string \<Rightarrow> string \<Rightarrow> idem_db \<Rightarrow> int" where
  "claim_time key motebitId db = (case find (unbound_claim key motebitId) (id_keys db) of None \<Rightarrow> 0 | Some r \<Rightarrow> ir_created_at r)"

definition paid_with :: "p2p_proof option \<Rightarrow> string \<Rightarrow> (string \<times> string) list" where
  "paid_with proof taskId = (case proof of None \<Rightarrow> [] | Some p \<Rightarrow> [(pp_tx_hash p, taskId)])"

definition fresh_idem :: "int \<Rightarrow> idem_world" where
  "fresh_idem now = \<lparr> iw_db = \<lparr> id_keys = [], id_proofs = [] \<rparr>,
     iw_tables = \<lparr> rk_queue = [], rk_answers = [], rk_settlements = [], rk_federation_settlements = [], rk_routes = [], rk_leased = [] \<rparr>,
     iw_now = now, iw_admissions = [], iw_paid = [] \<rparr>"

abbreviation at_time :: "int \<Rightarrow> idem_db \<Rightarrow> idem_world \<Rightarrow> idem_world" where
  "at_time now db w \<equiv> w\<lparr>iw_db := db, iw_now := now\<rparr>"

inductive idem_step :: "idem_world \<Rightarrow> idem_world \<Rightarrow> bool" where
  Check: "iw_now w \<le> now \<Longrightarrow> idem_step w (at_time now (snd (checkIdempotency now key m (iw_db w))) w)"
| Complete: "iw_now w \<le> now \<Longrightarrow> idem_step w (at_time now (completeIdempotency now key m status body (iw_db w)) w)"
| Outcome: "iw_now w \<le> now \<Longrightarrow> idem_step w (at_time now (snd (recordAdmittedOutcome now key m t status body (iw_db w))) w)"
| Release: "iw_now w \<le> now \<Longrightarrow> idem_step w (at_time now (releaseIdempotency key m (iw_db w)) w)"
| Cleanup: "iw_now w \<le> now \<Longrightarrow> idem_step w (at_time now (cleanupIdempotencyKeys now (iw_db w)) w)"
| Admits: "iw_now w \<le> now \<Longrightarrow> admission now key m t proof queued presents (iw_db w) (iw_tables w) = Inr (db', st') \<Longrightarrow>
    idem_step w ((at_time now db' w)\<lparr>iw_tables := st', iw_paid := iw_paid w @ paid_with proof t,
      iw_admissions := iw_admissions w @ [\<lparr> an_key = key, an_motebit_id = m, an_task_id = t, an_claimed_at = claim_time key m (iw_db w) \<rparr>]\<rparr>)"
| Forwarded: "iw_now w \<le> now \<Longrightarrow> forwarded_admission now t proof agent origin submitter caps ttl (iw_db w) (iw_tables w) = Inr (db', st') \<Longrightarrow>
    idem_step w ((at_time now db' w)\<lparr>iw_tables := st', iw_paid := iw_paid w @ paid_with proof t\<rparr>)"
| Elsewhere: "iw_now w \<le> now \<Longrightarrow> idem_step w ((at_time now (iw_db w) w)\<lparr>iw_tables := st'\<rparr>)"

subsection \<open>The invariant\<close>

definition claim_key :: "idem_record \<Rightarrow> string \<times> string" where
  "claim_key r = (ir_key r, ir_motebit_id r)"

definition keys_wf :: "idem_record list \<Rightarrow> bool" where
  "keys_wf rows \<longleftrightarrow> distinct (map claim_key rows)
     \<and> list_all (\<lambda>r. ir_status r = Completed \<longrightarrow> ir_response_status r \<noteq> None \<and> ir_response_body r \<noteq> None \<and> ir_completed_at r \<noteq> None) rows"

definition proofs_wf :: "proof_claim list \<Rightarrow> bool" where
  "proofs_wf claims \<longleftrightarrow> distinct (map pc_tx_hash claims)"

definition still_bound :: "idem_record list \<Rightarrow> admission_note \<Rightarrow> bool" where
  "still_bound rows a \<longleftrightarrow> (\<exists>r\<in>set rows. claim_key r = (an_key a, an_motebit_id a) \<and> ir_task_id r = Some (an_task_id a) \<and> ir_created_at r = an_claimed_at a)"

definition lapsed :: "idem_record list \<Rightarrow> int \<Rightarrow> admission_note \<Rightarrow> bool" where
  "lapsed rows now a \<longleftrightarrow> an_claimed_at a + IDEMPOTENCY_TTL_MS < now
     \<and> (\<forall>r\<in>set rows. claim_key r = (an_key a, an_motebit_id a) \<longrightarrow> an_claimed_at a + IDEMPOTENCY_TTL_MS < ir_created_at r)"

definition apart :: "admission_note \<Rightarrow> admission_note \<Rightarrow> bool" where
  "apart a b \<longleftrightarrow> (an_key a, an_motebit_id a) = (an_key b, an_motebit_id b) \<longrightarrow> an_claimed_at a + IDEMPOTENCY_TTL_MS < an_claimed_at b"

definition idem_ok :: "idem_world \<Rightarrow> bool" where
  "idem_ok w \<longleftrightarrow> keys_wf (id_keys (iw_db w)) \<and> proofs_wf (id_proofs (iw_db w)) \<and> (\<forall>r\<in>set (id_keys (iw_db w)). ir_created_at r \<le> iw_now w)
     \<and> (\<forall>a\<in>set (iw_admissions w). still_bound (id_keys (iw_db w)) a \<or> lapsed (id_keys (iw_db w)) (iw_now w) a)
     \<and> sorted_wrt apart (iw_admissions w)
     \<and> (\<forall>(tx, t)\<in>set (iw_paid w). \<exists>c\<in>set (id_proofs (iw_db w)). pc_tx_hash c = tx \<and> pc_task_id c = t)"

lemma find_same_key: "find (same_key key m) rows = Some r \<Longrightarrow> r \<in> set rows \<and> claim_key r = (key, m)"
  by (auto simp add: find_Some_iff same_key_def claim_key_def)

lemma find_no_key: "find (same_key key m) rows = None \<Longrightarrow> r \<in> set rows \<Longrightarrow> claim_key r \<noteq> (key, m)"
  by (auto simp add: find_None_iff same_key_def claim_key_def)

lemma keys_wf_unique: "keys_wf rows \<Longrightarrow> r \<in> set rows \<Longrightarrow> r' \<in> set rows \<Longrightarrow> claim_key r = claim_key r' \<Longrightarrow> r = r'"
  by (auto simp add: keys_wf_def distinct_map inj_on_def)

lemma keys_wf_filter: "keys_wf rows \<Longrightarrow> keys_wf (filter P rows)"
  by (auto simp add: keys_wf_def list_all_iff distinct_map_filter)

lemma keys_wf_map:
  assumes "keys_wf rows" and "\<And>r. claim_key (g r) = claim_key r"
    and "\<And>r. r \<in> set rows \<Longrightarrow> ir_status (g r) = Completed \<Longrightarrow>
      ir_response_status (g r) \<noteq> None \<and> ir_response_body (g r) \<noteq> None \<and> ir_completed_at (g r) \<noteq> None"
  shows "keys_wf (map g rows)"
  using assms by (auto simp add: keys_wf_def list_all_iff comp_def)

lemma mapped_rows_ok:
  assumes bound: "still_bound rows a \<or> lapsed rows now a" and later: "now \<le> now'"
    and g: "\<And>r. claim_key (g r) = claim_key r" "\<And>r. ir_created_at (g r) = ir_created_at r" "\<And>r. ir_task_id r \<noteq> None \<Longrightarrow> ir_task_id (g r) = ir_task_id r"
  shows "still_bound (map g rows) a \<or> lapsed (map g rows) now' a"
  using bound
proof
  assume "still_bound rows a"
  then show ?thesis
    using g unfolding still_bound_def by (metis image_eqI list.set_map option.distinct(1))
next
  assume "lapsed rows now a"
  then show ?thesis
    using g later by (auto simp add: lapsed_def)
qed

subsection \<open>Every step keeps it\<close>

lemma mapped_ok:
  assumes ok: "idem_ok w" and later: "iw_now w \<le> now"
    and db': "db' = (iw_db w)\<lparr>id_keys := map g (id_keys (iw_db w))\<rparr>"
    and g: "\<And>r. claim_key (g r) = claim_key r" "\<And>r. ir_created_at (g r) = ir_created_at r" "\<And>r. ir_task_id r \<noteq> None \<Longrightarrow> ir_task_id (g r) = ir_task_id r"
    and wf: "\<And>r. g r = r \<or> (ir_status (g r) = Completed \<longrightarrow> ir_response_status (g r) \<noteq> None \<and> ir_response_body (g r) \<noteq> None \<and> ir_completed_at (g r) \<noteq> None)"
  shows "idem_ok (at_time now db' w)"
proof -
  let ?rows = "id_keys (iw_db w)"
  have "keys_wf ?rows"
    using ok by (simp add: idem_ok_def)
  moreover have "ir_response_status (g r) \<noteq> None \<and> ir_response_body (g r) \<noteq> None \<and> ir_completed_at (g r) \<noteq> None"
    if "r \<in> set ?rows" and "ir_status (g r) = Completed" for r
    using wf [of r] that \<open>keys_wf ?rows\<close> by (auto simp add: keys_wf_def list_all_iff)
  ultimately have "keys_wf (map g ?rows)"
    using g(1) by (intro keys_wf_map)
  moreover have "still_bound (map g ?rows) a \<or> lapsed (map g ?rows) now a" if "a \<in> set (iw_admissions w)" for a
    by (rule mapped_rows_ok [OF _ later g]) (use ok that in \<open>simp_all add: idem_ok_def\<close>)
  moreover have "\<forall>r\<in>set (map g ?rows). ir_created_at r \<le> now"
    using ok later by (auto simp add: idem_ok_def g(2) intro: order_trans)
  ultimately show ?thesis
    using ok by (simp add: idem_ok_def db')
qed

lemma update_keys_snd: "snd (update_keys P f db) = db\<lparr>id_keys := map (\<lambda>r. if P r then f r else r) (id_keys db)\<rparr>"
  by (simp add: update_keys_def)

lemma complete_row_fields [simp]:
  "claim_key (complete_row now s b r) = claim_key r" "ir_created_at (complete_row now s b r) = ir_created_at r" "ir_task_id (complete_row now s b r) = ir_task_id r"
  by (simp_all add: complete_row_def claim_key_def)

lemma completing_ok:
  assumes "idem_ok w" and "iw_now w \<le> now"
  shows "idem_ok (at_time now (snd (update_keys P (complete_row now' s b) (iw_db w))) w)"
  by (rule mapped_ok [OF assms, where g = "\<lambda>r. if P r then complete_row now' s b r else r"]) (auto simp add: update_keys_def complete_row_def claim_key_def)

lemma filtered_ok:
  assumes ok: "idem_ok w" and later: "iw_now w \<le> now" and db': "db' = (iw_db w)\<lparr>id_keys := filter P (id_keys (iw_db w))\<rparr>"
    and gone: "\<And>r. r \<in> set (id_keys (iw_db w)) \<Longrightarrow> \<not> P r \<Longrightarrow> ir_task_id r = None \<or> ir_created_at r + IDEMPOTENCY_TTL_MS < now"
  shows "idem_ok (at_time now db' w)"
proof -
  let ?rows = "id_keys (iw_db w)"
  have wf: "keys_wf ?rows"
    using ok by (simp add: idem_ok_def)
  have "still_bound (filter P ?rows) a \<or> lapsed (filter P ?rows) now a" if a: "a \<in> set (iw_admissions w)" for a
  proof -
    have "still_bound ?rows a \<or> lapsed ?rows (iw_now w) a"
      using ok a by (simp add: idem_ok_def)
    then show ?thesis
    proof
      assume "lapsed ?rows (iw_now w) a"
      then show ?thesis
        using later by (auto simp add: lapsed_def)
    next
      assume "still_bound ?rows a"
      then obtain r where r: "r \<in> set ?rows" "claim_key r = (an_key a, an_motebit_id a)" "ir_task_id r = Some (an_task_id a)" "ir_created_at r = an_claimed_at a"
        by (auto simp add: still_bound_def)
      show ?thesis
      proof (cases "P r")
        case True
        then show ?thesis
          using r by (auto simp add: still_bound_def)
      next
        case False
        have "claim_key r' \<noteq> claim_key r" if "r' \<in> set (filter P ?rows)" for r'
          using keys_wf_unique [OF wf, of r' r] that r(1) False by auto
        moreover have "an_claimed_at a + IDEMPOTENCY_TTL_MS < now"
          using gone [OF r(1) False] r(3,4) by simp
        ultimately have "lapsed (filter P ?rows) now a"
          unfolding lapsed_def r(2) by blast
        then show ?thesis ..
      qed
    qed
  qed
  moreover have "\<forall>r\<in>set (filter P ?rows). ir_created_at r \<le> now"
    using ok later by (fastforce simp add: idem_ok_def)
  ultimately show ?thesis
    using ok keys_wf_filter [OF wf] by (simp add: idem_ok_def db')
qed

lemma check_ok:
  assumes ok: "idem_ok w" and later: "iw_now w \<le> now"
  shows "idem_ok (at_time now (snd (checkIdempotency now key m (iw_db w))) w)"
proof (cases "find (same_key key m) (id_keys (iw_db w))")
  case (Some r)
  then have "snd (checkIdempotency now key m (iw_db w)) = iw_db w"
    by (auto simp add: checkIdempotency_def split: idem_status.splits option.splits)
  then show ?thesis
    using mapped_ok [OF ok later, where g = id] by simp
next
  case None
  let ?rows = "id_keys (iw_db w)"
  define r where "r = \<lparr> ir_key = key, ir_motebit_id = m, ir_status = Processing, ir_response_status = None,
            ir_response_body = None, ir_created_at = now, ir_completed_at = None, ir_task_id = None \<rparr>"
  have new: "claim_key r = (key, m)" "ir_created_at r = now" "ir_status r = Processing" and absent: "\<forall>x\<in>set ?rows. claim_key x \<noteq> (key, m)"
    using find_no_key [OF None] by (auto simp add: r_def claim_key_def)
  have db: "snd (checkIdempotency now key m (iw_db w)) = (iw_db w)\<lparr>id_keys := ?rows @ [r]\<rparr>"
    using None by (simp add: checkIdempotency_def r_def)
  have "keys_wf (?rows @ [r])"
    using ok new absent by (auto simp add: idem_ok_def keys_wf_def)
  moreover have "still_bound (?rows @ [r]) a \<or> lapsed (?rows @ [r]) now a" if "a \<in> set (iw_admissions w)" for a
  proof -
    have "still_bound ?rows a \<or> lapsed ?rows (iw_now w) a"
      using ok that by (simp add: idem_ok_def)
    then show ?thesis
      using new later by (auto simp add: still_bound_def lapsed_def)
  qed
  moreover have "\<forall>x\<in>set (?rows @ [r]). ir_created_at x \<le> now"
    using ok later new by (fastforce simp add: idem_ok_def)
  ultimately show ?thesis
    using ok by (simp add: idem_ok_def db)
qed

lemma bind_proof_effect:
  assumes "bind_proof now proof t db = Inr db'" and "proofs_wf (id_proofs db)"
  shows "id_keys db' = id_keys db" and "proofs_wf (id_proofs db')" and "set (id_proofs db) \<subseteq> set (id_proofs db')"
    and "\<forall>(tx, t')\<in>set (paid_with proof t). \<exists>c\<in>set (id_proofs db'). pc_tx_hash c = tx \<and> pc_task_id c = t'"
proof -
  have "id_keys db' = id_keys db \<and> proofs_wf (id_proofs db') \<and> set (id_proofs db) \<subseteq> set (id_proofs db')
    \<and> (\<forall>(tx, t')\<in>set (paid_with proof t). \<exists>c\<in>set (id_proofs db'). pc_tx_hash c = tx \<and> pc_task_id c = t')"
  proof (cases "proof")
    case None
    then show ?thesis
      using assms by (simp add: bind_proof_def paid_with_def)
  next
    case (Some p)
    show ?thesis
    proof (cases "findP2pProofClaim (pp_tx_hash p) db")
      case None
      then have "pp_tx_hash p \<notin> pc_tx_hash ` set (id_proofs db)"
        by (auto simp add: findP2pProofClaim_def p2pProofKey_def find_None_iff)
      then show ?thesis
        using assms Some None by (auto simp add: bind_proof_def bindP2pProofToTask_def paid_with_def proofs_wf_def p2pProofKey_def)
    next
      case (Some c)
      then have "c \<in> set (id_proofs db)" and "pc_tx_hash c = pp_tx_hash p"
        by (auto simp add: findP2pProofClaim_def p2pProofKey_def find_Some_iff)
      then show ?thesis
        using assms Some \<open>proof = Some p\<close> by (auto simp add: bind_proof_def bindP2pProofToTask_def paid_with_def split: if_splits)
    qed
  qed
  then show "id_keys db' = id_keys db" and "proofs_wf (id_proofs db')" and "set (id_proofs db) \<subseteq> set (id_proofs db')"
    and "\<forall>(tx, t')\<in>set (paid_with proof t). \<exists>c\<in>set (id_proofs db'). pc_tx_hash c = tx \<and> pc_task_id c = t'"
    by - (elim conjE, assumption)+
qed

lemma proof_bound_ok:
  assumes ok: "idem_ok w" and res: "bind_proof now proof t (iw_db w) = Inr db'"
  shows "idem_ok (w\<lparr>iw_db := db', iw_tables := st', iw_paid := iw_paid w @ paid_with proof t\<rparr>)"
proof -
  have "proofs_wf (id_proofs (iw_db w))"
    using ok by (simp add: idem_ok_def)
  note effect = bind_proof_effect [OF res this]
  have "\<exists>c\<in>set (id_proofs db'). pc_tx_hash c = tx \<and> pc_task_id c = t'" if "(tx, t') \<in> set (iw_paid w @ paid_with proof t)" for tx t'
    using that ok effect(3,4) by (fastforce simp add: idem_ok_def)
  then show ?thesis
    using ok effect(1,2) by (auto simp add: idem_ok_def)
qed

lemma bind_claim_effect:
  assumes res: "bindIdempotencyClaimToTask key m t db = Inr db'" and wf: "keys_wf (id_keys db)"
  obtains r where "r \<in> set (id_keys db)" and "unbound_claim key m r" and "claim_time key m db = ir_created_at r"
    and "db' = db\<lparr>id_keys := map (\<lambda>r. if unbound_claim key m r then r\<lparr>ir_task_id := Some t\<rparr> else r) (id_keys db)\<rparr>"
proof -
  have one: "length (filter (unbound_claim key m) (id_keys db)) = 1"
    and db': "db' = db\<lparr>id_keys := map (\<lambda>r. if unbound_claim key m r then r\<lparr>ir_task_id := Some t\<rparr> else r) (id_keys db)\<rparr>"
    using res by (auto simp add: bindIdempotencyClaimToTask_def update_keys_def split: if_splits)
  then obtain r where r: "find (unbound_claim key m) (id_keys db) = Some r"
    by (cases "find (unbound_claim key m) (id_keys db)") (auto simp add: find_None_iff filter_empty_conv)
  then have "r \<in> set (id_keys db)" and "unbound_claim key m r"
    by (auto simp add: find_Some_iff)
  then show thesis
    using that db' r by (simp add: claim_time_def)
qed

lemma bound_claim_ok:
  assumes ok: "idem_ok w" and later: "iw_now w \<le> now" and res: "bindIdempotencyClaimToTask key m t (iw_db w) = Inr db'"
  shows "idem_ok ((at_time now db' w)\<lparr>iw_admissions := iw_admissions w @ [\<lparr> an_key = key, an_motebit_id = m, an_task_id = t, an_claimed_at = claim_time key m (iw_db w) \<rparr>]\<rparr>)"
proof -
  let ?rows = "id_keys (iw_db w)" and ?g = "\<lambda>r. if unbound_claim key m r then r\<lparr>ir_task_id := Some t\<rparr> else r"
  define a where "a = \<lparr> an_key = key, an_motebit_id = m, an_task_id = t, an_claimed_at = claim_time key m (iw_db w) \<rparr>"
  have wf: "keys_wf ?rows"
    using ok by (simp add: idem_ok_def)
  obtain r where r: "r \<in> set ?rows" "unbound_claim key m r" and time: "claim_time key m (iw_db w) = ir_created_at r"
    and db': "db' = (iw_db w)\<lparr>id_keys := map ?g ?rows\<rparr>"
    using res wf by (rule bind_claim_effect)
  have ok': "idem_ok (at_time now db' w)"
    by (rule mapped_ok [OF ok later db']) (auto simp add: claim_key_def unbound_claim_def)
  have "still_bound (id_keys db') a"
  proof -
    have "?g r \<in> set (id_keys db')"
      using r(1) unfolding db' by simp
    then show ?thesis
      using r(2) time unfolding still_bound_def by (intro bexI [of _ "?g r"]) (simp_all add: a_def claim_key_def unbound_claim_def same_key_def)
  qed
  moreover have "apart b a" if b: "b \<in> set (iw_admissions w)" for b
  proof (cases "(an_key b, an_motebit_id b) = (key, m)")
    case True
    have key: "claim_key r = (an_key b, an_motebit_id b)"
      using r(2) True by (simp add: claim_key_def unbound_claim_def same_key_def)
    have "\<not> still_bound ?rows b"
      using keys_wf_unique [OF wf _ r(1)] key r(2) by (auto simp add: still_bound_def unbound_claim_def)
    then have "lapsed ?rows (iw_now w) b"
      using ok b by (auto simp add: idem_ok_def)
    then show ?thesis
      using r(1) key time by (simp add: lapsed_def apart_def a_def)
  next
    case False
    then show ?thesis
      by (auto simp add: apart_def a_def)
  qed
  ultimately show ?thesis
    using ok' by (auto simp add: idem_ok_def sorted_wrt_append simp flip: a_def)
qed

lemma admits_ok:
  assumes ok: "idem_ok w" and later: "iw_now w \<le> now" and res: "admission now key m t proof queued presents (iw_db w) (iw_tables w) = Inr (db', st')"
  shows "idem_ok ((at_time now db' w)\<lparr>iw_tables := st', iw_paid := iw_paid w @ paid_with proof t,
      iw_admissions := iw_admissions w @ [\<lparr> an_key = key, an_motebit_id = m, an_task_id = t, an_claimed_at = claim_time key m (iw_db w) \<rparr>]\<rparr>)"
proof -
  obtain db1 where bind: "bindIdempotencyClaimToTask key m t (iw_db w) = Inr db1" and paid: "bind_proof now proof t db1 = Inr db'"
    using res by (auto simp add: admission_def split: sum.splits)
  let ?w1 = "(at_time now db1 w)\<lparr>iw_admissions := iw_admissions w @ [\<lparr> an_key = key, an_motebit_id = m, an_task_id = t, an_claimed_at = claim_time key m (iw_db w) \<rparr>]\<rparr>"
  have "idem_ok ?w1"
    using ok later bind by (rule bound_claim_ok)
  then have "idem_ok (?w1\<lparr>iw_db := db', iw_tables := st', iw_paid := iw_paid ?w1 @ paid_with proof t\<rparr>)"
    by (rule proof_bound_ok) (use paid in simp)
  then show ?thesis
    by (simp add: idem_ok_def)
qed

lemma later_ok:
  assumes "idem_ok w" and "iw_now w \<le> now"
  shows "idem_ok (at_time now (iw_db w) w)"
  by (rule mapped_ok [OF assms, where g = id]) simp_all

lemma idem_step_ok: "idem_step w w' \<Longrightarrow> idem_ok w \<Longrightarrow> idem_ok w'"
proof (induction rule: idem_step.induct)
  case (Check w now key m)
  then show ?case by (intro check_ok)
next
  case (Complete w now key m status body)
  then show ?case unfolding completeIdempotency_def by (intro completing_ok)
next
  case (Outcome w now key m t status body)
  have "snd (recordAdmittedOutcome now key m t status body (iw_db w))
    = snd (update_keys (\<lambda>r. same_key key m r \<and> ir_task_id r = Some t \<and> ir_status r = Processing) (complete_row now status body) (iw_db w))"
    by (simp add: recordAdmittedOutcome_def case_prod_beta)
  then show ?case
    using Outcome by (simp only: completing_ok)
next
  case (Release w now key m)
  then show ?case
    by (intro filtered_ok [where P = "\<lambda>r. \<not> unbound_claim key m r"]) (auto simp add: releaseIdempotency_def unbound_claim_def)
next
  case (Cleanup w now)
  then show ?case
    by (intro filtered_ok [where P = "\<lambda>r. \<not> ir_created_at r < now - IDEMPOTENCY_TTL_MS"]) (auto simp add: cleanupIdempotencyKeys_def)
next
  case (Admits w now key m t pay queued presents db' st')
  then show ?case by (intro admits_ok)
next
  case (Forwarded w now t pay agent origin submitter caps ttl db' st')
  then have "bind_proof now pay t (iw_db w) = Inr db'"
    by (auto simp add: forwarded_admission_def split: sum.splits)
  moreover have "idem_ok (at_time now (iw_db w) w)"
    by (rule later_ok [OF Forwarded.prems Forwarded.hyps(1)])
  ultimately show ?case
    using proof_bound_ok [of "at_time now (iw_db w) w" now pay t db' st'] by (simp add: idem_ok_def)
next
  case (Elsewhere w now st')
  have "idem_ok (at_time now (iw_db w) w)"
    by (rule later_ok [OF Elsewhere.prems Elsewhere.hyps(1)])
  then show ?case
    by (simp add: idem_ok_def)
qed

lemma idem_runs_ok: "idem_step\<^sup>*\<^sup>* (fresh_idem now) w \<Longrightarrow> idem_ok w"
proof (induction rule: rtranclp_induct)
  case base
  then show ?case
    by (simp add: idem_ok_def fresh_idem_def keys_wf_def proofs_wf_def)
next
  case (step w w')
  show ?case by (rule idem_step_ok [OF step.hyps(2) step.IH])
qed

subsection \<open>A concrete run\<close>

text \<open>A key is claimed and admits a task paid by one transaction; much later the key is cleaned up, claimed again and admits another task.\<close>

definition demo_idem_entry :: "int \<Rightarrow> task_entry" where
  "demo_idem_entry now = queued_entry (submitted_task ''bob'' now None) (now + 600000) (Some ''alice'') None (Some ModeP2p) None (Some ''bob'') (Some ''bob'') None"

definition demo_idem_proof :: p2p_proof where
  "demo_idem_proof = \<lparr> pp_tx_hash = ''tx1'', pp_submitted_by = ''alice'', pp_submitter_verified = True \<rparr>"

definition idem_of :: "admission_error + idem_db \<times> relay_tasks \<Rightarrow> idem_db \<times> relay_tasks" where
  "idem_of res = (case res of Inl _ \<Rightarrow> (iw_db (fresh_idem 0), iw_tables (fresh_idem 0)) | Inr x \<Rightarrow> x)"

definition admitted_idem :: "int \<Rightarrow> string \<Rightarrow> p2p_proof option \<Rightarrow> idem_world \<Rightarrow> idem_world" where
  "admitted_idem now t proof w =
     (let (db', st') = idem_of (admission now ''k'' ''bob'' t proof (demo_idem_entry now) False (iw_db w) (iw_tables w))
      in (at_time now db' w)\<lparr>iw_tables := st', iw_paid := iw_paid w @ paid_with proof t,
           iw_admissions := iw_admissions w @ [\<lparr> an_key = ''k'', an_motebit_id = ''bob'', an_task_id = t, an_claimed_at = claim_time ''k'' ''bob'' (iw_db w) \<rparr>]\<rparr>)"

definition checked_idem :: "int \<Rightarrow> idem_world \<Rightarrow> idem_world" where
  "checked_idem now w = at_time now (snd (checkIdempotency now ''k'' ''bob'' (iw_db w))) w"

definition demo_idem_1 :: idem_world where "demo_idem_1 = checked_idem 1 (fresh_idem 0)"
definition demo_idem_2 :: idem_world where "demo_idem_2 = admitted_idem 2 ''t1'' (Some demo_idem_proof) demo_idem_1"
definition demo_idem_3 :: idem_world where "demo_idem_3 = at_time 100000000 (cleanupIdempotencyKeys 100000000 (iw_db demo_idem_2)) demo_idem_2"
definition demo_idem_4 :: idem_world where "demo_idem_4 = checked_idem 100000001 demo_idem_3"
definition demo_idem_5 :: idem_world where "demo_idem_5 = admitted_idem 100000002 ''t2'' None demo_idem_4"

lemma admitted_idem_step:
  assumes "iw_now w \<le> now" and "\<not> isl (admission now ''k'' ''bob'' t pay (demo_idem_entry now) False (iw_db w) (iw_tables w))"
  shows "idem_step w (admitted_idem now t pay w)"
proof -
  obtain db' st' where "admission now ''k'' ''bob'' t pay (demo_idem_entry now) False (iw_db w) (iw_tables w) = Inr (db', st')"
    using assms(2) by (cases "admission now ''k'' ''bob'' t pay (demo_idem_entry now) False (iw_db w) (iw_tables w)") auto
  then show ?thesis
    using idem_step.Admits [OF assms(1)] by (simp add: admitted_idem_def idem_of_def)
qed

lemma demo_idem_steps:
  "idem_step (fresh_idem 0) demo_idem_1" "idem_step demo_idem_1 demo_idem_2" "idem_step demo_idem_2 demo_idem_3" "idem_step demo_idem_3 demo_idem_4"
  "idem_step demo_idem_4 demo_idem_5"
proof -
  show "idem_step (fresh_idem 0) demo_idem_1" and "idem_step demo_idem_3 demo_idem_4"
    unfolding demo_idem_1_def demo_idem_4_def checked_idem_def by (rule idem_step.Check; code_simp)+
  show "idem_step demo_idem_1 demo_idem_2" and "idem_step demo_idem_4 demo_idem_5"
    unfolding demo_idem_2_def demo_idem_5_def by (rule admitted_idem_step; code_simp)+
  show "idem_step demo_idem_2 demo_idem_3"
    unfolding demo_idem_3_def by (rule idem_step.Cleanup; code_simp)
qed

lemma demo_idem_run: "idem_step\<^sup>*\<^sup>* (fresh_idem 0) demo_idem_2" "idem_step\<^sup>*\<^sup>* (fresh_idem 0) demo_idem_5"
  using demo_idem_steps by (meson rtranclp.rtrancl_refl rtranclp.rtrancl_into_rtrancl)+

subsection \<open>Properties\<close>

text \<open>
  (C14) One key admits one task: over every interleaving of requests, retries, failures, releases and cleanups, two tasks admitted under the same key of the same motebit were admitted
  under claims made more than the retention apart; and of any two tasks admitted with the same payment transaction, through whichever door and at whatever time, both
  are the same task.
\<close>
theorem one_task_per_key:
  assumes "idem_step\<^sup>*\<^sup>* (fresh_idem now) w"
  shows "(\<forall>i j. i < j \<longrightarrow> j < length (iw_admissions w) \<longrightarrow>
      an_key (iw_admissions w ! i) = an_key (iw_admissions w ! j) \<longrightarrow> an_motebit_id (iw_admissions w ! i) = an_motebit_id (iw_admissions w ! j) \<longrightarrow>
      an_claimed_at (iw_admissions w ! i) + IDEMPOTENCY_TTL_MS < an_claimed_at (iw_admissions w ! j))
    \<and> (\<forall>tx t t'. (tx, t) \<in> set (iw_paid w) \<longrightarrow> (tx, t') \<in> set (iw_paid w) \<longrightarrow> t = t')"
proof -
  have ok: "idem_ok w"
    using assms by (rule idem_runs_ok)
  then have "sorted_wrt apart (iw_admissions w)" and "proofs_wf (id_proofs (iw_db w))"
    by (simp_all add: idem_ok_def)
  moreover have paid: "\<exists>c\<in>set (id_proofs (iw_db w)). pc_tx_hash c = tx \<and> pc_task_id c = t" if "(tx, t) \<in> set (iw_paid w)" for tx t
    using ok that by (auto simp add: idem_ok_def)
  moreover have "t = t'" if first: "(tx, t) \<in> set (iw_paid w)" and second: "(tx, t') \<in> set (iw_paid w)" for tx t t'
  proof -
    obtain c c' where "c \<in> set (id_proofs (iw_db w))" "pc_tx_hash c = tx" "pc_task_id c = t" and "c' \<in> set (id_proofs (iw_db w))" "pc_tx_hash c' = tx" "pc_task_id c' = t'"
      using paid [OF first] paid [OF second] by blast
    then show ?thesis
      using \<open>proofs_wf (id_proofs (iw_db w))\<close> by (auto simp add: proofs_wf_def distinct_map inj_on_def)
  qed
  ultimately show ?thesis
    by (auto simp add: sorted_wrt_iff_nth_less apart_def)
qed

theorem one_task_per_key_witness:
  "length (iw_admissions demo_idem_5) = 2 \<and> an_claimed_at (iw_admissions demo_idem_5 ! 0) + IDEMPOTENCY_TTL_MS < an_claimed_at (iw_admissions demo_idem_5 ! 1)"
proof -
  have "length (iw_admissions demo_idem_5) = 2" and "an_key (iw_admissions demo_idem_5 ! 0) = an_key (iw_admissions demo_idem_5 ! 1)"
    and "an_motebit_id (iw_admissions demo_idem_5 ! 0) = an_motebit_id (iw_admissions demo_idem_5 ! 1)"
    by code_simp+
  then show ?thesis
    using one_task_per_key [OF demo_idem_run(2)] by simp
qed

text \<open>
  (C39) A retry is told of its task: while an admission is not older than the retention, a check of its key claims nothing and answers with the recorded response or, when none is
  recorded yet, with a conflict that names the admitted task.
\<close>
theorem retry_names_the_task:
  assumes "idem_step\<^sup>*\<^sup>* (fresh_idem start) w" and "a \<in> set (iw_admissions w)" and "iw_now w \<le> an_claimed_at a + IDEMPOTENCY_TTL_MS"
  shows "snd (checkIdempotency now (an_key a) (an_motebit_id a) (iw_db w)) = iw_db w
    \<and> (fst (checkIdempotency now (an_key a) (an_motebit_id a) (iw_db w)) = Conflict (Some (an_task_id a))
       \<or> (\<exists>status body. fst (checkIdempotency now (an_key a) (an_motebit_id a) (iw_db w)) = Replay status body))"
proof -
  have ok: "idem_ok w"
    using assms(1) by (rule idem_runs_ok)
  then have "still_bound (id_keys (iw_db w)) a"
    using assms(2,3) by (auto simp add: idem_ok_def lapsed_def)
  then obtain r where r: "r \<in> set (id_keys (iw_db w))" "claim_key r = (an_key a, an_motebit_id a)" "ir_task_id r = Some (an_task_id a)"
    by (auto simp add: still_bound_def)
  obtain r' where found: "find (same_key (an_key a) (an_motebit_id a)) (id_keys (iw_db w)) = Some r'"
    using find_no_key r by (cases "find (same_key (an_key a) (an_motebit_id a)) (id_keys (iw_db w))") blast+
  have wf: "keys_wf (id_keys (iw_db w))"
    using ok by (simp add: idem_ok_def)
  have "r' = r"
    using keys_wf_unique [OF wf _ r(1)] find_same_key [OF found] r(2) by simp
  moreover have "ir_status r = Completed \<Longrightarrow> ir_response_status r \<noteq> None \<and> ir_response_body r \<noteq> None"
    using wf r(1) by (simp add: keys_wf_def list_all_iff)
  ultimately show ?thesis
    using found r(3) by (cases "ir_status r") (auto simp add: checkIdempotency_def)
qed

theorem retry_names_the_task_witness:
  "fst (checkIdempotency 3 ''k'' ''bob'' (iw_db demo_idem_2)) = Conflict (Some ''t1'') \<and> snd (checkIdempotency 3 ''k'' ''bob'' (iw_db demo_idem_2)) = iw_db demo_idem_2"
proof -
  let ?a = "\<lparr> an_key = ''k'', an_motebit_id = ''bob'', an_task_id = ''t1'', an_claimed_at = 1 \<rparr>"
  have "iw_admissions demo_idem_2 = [?a]" and now: "iw_now demo_idem_2 \<le> an_claimed_at ?a + IDEMPOTENCY_TTL_MS"
    and "\<not> (case fst (checkIdempotency 3 ''k'' ''bob'' (iw_db demo_idem_2)) of Replay _ _ \<Rightarrow> True | _ \<Rightarrow> False)"
    by code_simp+
  then show ?thesis
    using retry_names_the_task [OF demo_idem_run(1), of ?a 3] by auto
qed

text \<open>
  (C40) The tables stay well formed: in every run the idempotency table has one row for a key of a motebit, no row is dated after the clock, a completed row carries the
  status, the body and the time of its response, and the table of payment proofs has one row for a transaction.
\<close>
theorem idempotency_tables_wellformed:
  assumes "idem_step\<^sup>*\<^sup>* (fresh_idem now) w"
  shows "distinct (map (\<lambda>r. (ir_key r, ir_motebit_id r)) (id_keys (iw_db w)))
    \<and> list_all (\<lambda>r. ir_created_at r \<le> iw_now w \<and> (ir_status r = Completed \<longrightarrow>
        ir_response_status r \<noteq> None \<and> ir_response_body r \<noteq> None \<and> ir_completed_at r \<noteq> None)) (id_keys (iw_db w))
    \<and> distinct (map pc_tx_hash (id_proofs (iw_db w)))"
proof -
  have key: "(\<lambda>r. (ir_key r, ir_motebit_id r)) = claim_key"
    by (rule ext) (simp add: claim_key_def)
  show ?thesis
    unfolding key using idem_runs_ok [OF assms] by (auto simp add: idem_ok_def keys_wf_def proofs_wf_def list_all_iff)
qed

theorem idempotency_tables_wellformed_witness:
  "length (id_keys (iw_db demo_idem_5)) = 1 \<and> distinct (map pc_tx_hash (id_proofs (iw_db demo_idem_5)))"
proof -
  have "length (id_keys (iw_db demo_idem_5)) = 1"
    by code_simp
  then show ?thesis
    using idempotency_tables_wellformed [OF demo_idem_run(2)] by simp
qed

end
