(* ===== verification/Spec2Isabelle.thy ===== *)
theory Spec2Isabelle
  imports Prelude Accounts Lifecycle Withdrawals CircuitBreaker Semirings Digraph Traversal PathTrace Closure Pareto TrustAlgebra AgentNetwork DepositDetector Treasury Settlement ConflictResolver EventLog Merkle
    SqliteAccounts SqliteRefinement JsValue Risk GrantMeter GrantBounds PolicyGate PolicyAuthority CanonicalJson AuditChain RelaySeq EventPayload SeqCursor SyncDelivery SyncPush SyncSafety SyncSteps SyncRuns SyncFloor TaskQueue TaskClaim TaskAnswer TaskLaws TaskInv TaskRuns TaskSafety TaskProperties Idempotency
begin

text \<open>
  A verification library for motebit: the custody ledger and settlement arithmetic of the relay, the algebra
  that routes work through the agent network, the relay's task queue, the replication of a motebit's own log, the gate
  that decides which tool calls and payments an agent makes on its own, and the structures that make its records verifiable.

  \<^bold>\<open>The program.\<close> A motebit is an agent with an identity of its own. It earns and spends through a relay,
  which keeps a virtual account per motebit, credits on-chain deposits, holds money while a delegated task
  runs, settles it on the signed receipt, pays withdrawals out and reconciles its treasury with the fees it
  recorded. A delegated task waits in the relay's queue until one body of its agent claims it or the relay forwards it, and until a signed receipt
  of someone the task was handed to answers it. Work is delegated along chains of agents that are ranked by trust, cost, latency, reliability and
  risk; each of these is a semiring, and the graph algorithms are generic in it. A motebit's history is an
  append-only event log, replicated between its devices, with conflict resolution for what is not append-only.
  Every tool call passes a policy gate, which audits its decision before the call runs; money moves without a human
  only under a signed grant, metered against the ceiling in it. Receipts and audit rows are hashed over a canonical
  JSON text, chained, and committed to in Merkle trees.

  \<^bold>\<open>Theories and the sources they model.\<close> All paths are below \<open>src/\<close>.

  \<^item> \<open>Prelude\<close>: JavaScript's insertion-ordered \<open>Map\<close> (\<open>jsmap\<close>), its stable \<open>Array.sort\<close> (\<open>js_sort\<close>, with the
    interface \<open>js_comparator\<close> of a consistent comparator), \<open>join\<close>, number rendering, results as sums.
  \<^item> \<open>Accounts\<close>, \<open>Lifecycle\<close>, \<open>Withdrawals\<close>: \<open>packages/virtual-accounts/src\<close>. \<open>Accounts\<close> has the records of
    \<open>types.ts\<close> and every method of \<open>InMemoryAccountStore\<close> on an explicit \<open>store\<close>. \<open>Lifecycle\<close> has the step relation of the relay's operations: balances are the sum
    of their transactions, a withdrawal is accounted for exactly once, claimed at most once, and a refund is final.
    \<open>Withdrawals\<close> has \<open>withdrawals.ts\<close> and \<open>spendable.ts\<close> over the \<open>AccountStore\<close> interface, the locale \<open>account_ledger\<close>, which is
    interpreted on the store.
  \<^item> \<open>SqliteAccounts\<close>, \<open>SqliteRefinement\<close>: \<open>services/relay/src/account-store-sqlite.ts\<close>, the production ledger over tables as lists of
    rows. It refines the reference store: the operations, called as their callers do, get the same answers from both, but for a throw of SQLite where a withdrawal
    is to leave a state that is not open; listings and totals are not compared. A queued withdrawal is
    refunded at most once, and a spend leaves the escrow hold in place, with all that is under an open dispute.
  \<^item> \<open>CircuitBreaker\<close>: \<open>packages/circuit-breaker/src/index.ts\<close>, its invariant, decision and recovery.
  \<^item> \<open>Semirings\<close>, \<open>Digraph\<close>, \<open>Traversal\<close>, \<open>PathTrace\<close>, \<open>Closure\<close>: \<open>packages/protocol/src/semiring.ts\<close>, \<open>graph.ts\<close>
    and \<open>traversal.ts\<close>. Bellman-Ford over any idempotent bounded semiring computes the best walk; the trace it
    reconstructs is a real path of that weight where the order is total; the closure agrees with it.
  \<^item> \<open>Pareto\<close>, \<open>TrustAlgebra\<close>, \<open>AgentNetwork\<close>: \<open>packages/semiring/src/pareto.ts\<close>, the trust algebra and the
    attestation scores, and \<open>packages/semiring/src/agent-network.ts\<close>: the routes that are ranked exist with the
    weights they claim, and pruning never loses the choice.
  \<^item> \<open>DepositDetector\<close>: \<open>packages/deposit-detector/src\<close> and the relay's wiring of it: deposits are credited
    at most once, and once a cursor exists it passes a deposit only if that was recorded or its transaction was refused, in which case it is lost.
  \<^item> \<open>Treasury\<close>: \<open>packages/treasury-reconciliation/src\<close>. \<open>Settlement\<close>: \<open>packages/protocol/src/money.ts\<close> and
    \<open>packages/market/src/settlement.ts\<close>, \<open>budget.ts\<close>: splits conserve money, allocations end once.
  \<^item> \<open>ConflictResolver\<close>: \<open>packages/sync-engine/src/conflict-resolver.ts\<close>; the interface \<open>content_merge\<close> gives
    convergence in any order and repetition, and \<open>id_order\<close> states what it takes of the messages: of those of one creation time, no two ids may rank alike. \<open>EventLog\<close>: \<open>packages/event-log/src/index.ts\<close>; the interface
    \<open>clocked_log\<close> gives consecutive clocks; erased events never return.
  \<^item> \<open>RelaySeq\<close>: \<open>services/relay/src/event-seq.ts\<close>, the ingest sequence of the relay and its pages; the backfill of an old database gives what stamping on
    arrival would have given. \<open>EventPayload\<close>: \<open>packages/sync-engine/src/event-payload.ts\<close> and the encrypting adapters, the end-to-end envelope: it opens to what was sealed,
    and no payload leaves unsealed. \<open>SeqCursor\<close>: \<open>packages/sync-engine/src/seq-cursor.ts\<close>, the pull of a device page by page over the interface \<open>relay_stream\<close>,
    with the record of skipped events. \<open>SyncDelivery\<close> interprets that interface on the relay of \<open>RelaySeq\<close>: the cursor passes no event the device has not
    stored or recorded as skipped, and a pull from a quiet relay catches up.
  \<^item> \<open>SyncPush\<close>, \<open>SyncSafety\<close>, \<open>SyncSteps\<close>, \<open>SyncRuns\<close>, \<open>SyncFloor\<close>: the push side of \<open>packages/sync-engine/src/index.ts\<close> and the compaction of
    \<open>packages/runtime/src/motebit-runtime.ts\<close>. \<open>SyncPush\<close> has the operations, one uninterrupted piece of the engine each; \<open>SyncSafety\<close> the invariant of push cursors and
    acknowledgments and \<open>SyncSteps\<close> that every piece keeps it; \<open>SyncRuns\<close> the step relation: compaction deletes no event of this device that an active relay
    has not stored, and nothing when the stores cannot be read. \<open>SyncFloor\<close> has the report on the streams that hold the floor.
  \<^item> \<open>TaskQueue\<close>, \<open>TaskClaim\<close>, \<open>TaskAnswer\<close>: \<open>services/relay/src/task-queue.ts\<close> with its triggers and settlement guards, \<open>task-pin.ts\<close>, \<open>p2p-payee.ts\<close>,
    \<open>task-claim.ts\<close>, \<open>task-answer.ts\<close>, the routing record of \<open>task-routing.ts\<close>, and the places of \<open>tasks.ts\<close>, \<open>federation-callbacks.ts\<close> and \<open>index.ts\<close> that write the queue.
    The state is \<open>relay_tasks\<close>, a record of the tables and the set of leased ids. \<open>TaskLaws\<close> has what the operations may change, with the contract \<open>tending\<close> that is interpreted on
    every operation of the claim registry; \<open>TaskInv\<close> the invariant of the tables; \<open>TaskRuns\<close> the step relation over all requests and passes; \<open>TaskSafety\<close> what a
    step keeps of an entry. \<open>TaskProperties\<close>: a task is granted at most once, and is handed out beside that grant only by the tokens and peer forwards that take none; an answer that
    this code wrote never changes, one settlement names it, open outcomes are never dropped, and a checked answer is taken. \<open>Idempotency\<close>: \<open>services/relay/src/idempotency.ts\<close> and the admission transactions: one key admits one task within
    its retention, one payment admits one task, and a retry is told of the task.
  \<^item> \<open>JsValue\<close>: dynamically typed values and string operations. \<open>Risk\<close>: \<open>packages/policy/src/risk-model.ts\<close> and
    \<open>authority-delta.ts\<close>.
  \<^item> \<open>GrantMeter\<close>, \<open>GrantBounds\<close>: \<open>packages/policy/src/grant-blast-radius.ts\<close>, \<open>packages/runtime/src/money-meter.ts\<close> and the SQLite store of
    \<open>packages/persistence/src/index.ts\<close>. The interface \<open>grant_spend_store\<close> is interpreted on both stores, \<open>windowed\<close> on the three
    limits of a window: the lifetime limit holds over every run, each window limit up to a factor two, and the limit per
    counterparty misses the names that objects inherit.
  \<^item> \<open>PolicyGate\<close>, \<open>PolicyAuthority\<close>: \<open>packages/policy/src/policy-gate.ts\<close>, \<open>budget.ts\<close> and \<open>audit.ts\<close>: what runs without a human is
    authorised, another principal's turn never pauses, the audit trail hides secrets, but for the rows of detected injections, and
    shows what a crash left open as long as it has room.
  \<^item> \<open>CanonicalJson\<close>, \<open>AuditChain\<close>: the encoders of \<open>packages/policy/src/audit-chain.ts\<close> and \<open>packages/crypto/src/signing.ts\<close> are
    faithful, the second on arrays without \<open>undefined\<close>; appended chains verify, and a head hash commits to the whole chain, its data in canonical form, up to a collision of SHA-256.
  \<^item> \<open>Merkle\<close>: \<open>packages/encryption/src/merkle.ts\<close> and \<open>packages/crypto/src/merkle.ts\<close>: proofs of built trees verify, and under the
    tagged version an accepted entry was in the tree up to a collision.

  \<^bold>\<open>Conventions.\<close> State is passed explicitly; asynchronous methods that do not await another party run in one step,
  and what interleaves is a step relation or a sequence of operations. The clock is an argument or a
  sequence of readings. Amounts are integers of micro-units; other numbers are exact rationals, extended by
  the infinities and NaN where the code compares against them, so that rounding of floating-point
  arithmetic is not modelled except where the code rounds. Strings are compared by code point. Absent and
  \<open>null\<close> fields are options. A throw is the left value of a sum. Logging is left out. Code of other packages
  (JSON-RPC answers, \<open>localeCompare\<close>, the text of a number, JSON text and UTF-8, SHA-256, the cipher, URL parsing, key lookup and signature checks) is a parameter, with what is relied on as a
  hypothesis of the theorem.

  \<^bold>\<open>Bounds.\<close> The loops of the traversal run for as many rounds as the code allows, the number of nodes; that this
  is enough is part of the theorems. The walk back along predecessors and the recursion of the closure are
  bounded by the node list in the same way. No other definition has fuel.

  \<^bold>\<open>Not modelled.\<close> The HTTP surface of the relay, the cryptographic primitives and attestation verifiers, the
  runtime, the model providers, the user interfaces, and the chain clients; of the policy gate, redaction and sanitising of
  results, which are regular expressions over text, and evidence pointers. Of the relay's tasks, the ranking that chooses a worker, prices and payment proofs,
  allocation holds and the deliveries to other relays; a task id is taken to be new when it is admitted. Of the sync engine, timers, sockets, the stall watchdog and the sync of conversations and plans.
  Provenance and worker selection over the semirings, plan leases and payout horizons are left out too.
\<close>

end
